(* ===== verification/Prelude.thy ===== *)
theory Prelude
  imports Main "HOL-Library.Char_ord" "HOL-Library.List_Lexorder" "HOL-Library.Word"
    "HOL-Library.Code_Target_Nat"
begin

text \<open>
  What the components share: the parts of the Go language and of its standard library the
  sources use (byte strings and their bytewise order, \<open>strings.TrimSpace\<close>, hexadecimal
  digests, \<open>int64\<close> wrap-around, times as instants, maps as association lists with the
  iteration order of one run, the big-endian length-framed encodings that feed the digests), the
  error and result conventions of the models, and the generic lemmas on lists and association
  lists that the component theories use.

  Conventions. A Go function that returns \<open>error\<close> is a function into \<open>'e option\<close>:
  \<^const>\<open>None\<close> is the nil error. A function that returns a value and an error is a
  function into \<open>'e + 'a\<close> with \<^const>\<open>Inl\<close> for the error. Every component has its
  own error datatype; the constructors keep the name of the sentinel variable of the source.
  A Go string is a list of bytes, which is what \<^typ>\<open>char list\<close> is; \<open>len\<close> is
  \<^const>\<open>length\<close> and \<open><\<close> is the bytewise lexicographic order of
  \<open>HOL-Library.List_Lexorder\<close>.
\<close>

section \<open>Collections of simplification rules\<close>

named_theorems validate_simps \<open>characterisations of the validation functions\<close>
named_theorems no_error \<open>when a chain of early returns reaches its end without an error\<close>
named_theorems set_algebra \<open>abstraction of the representations of sets\<close>
named_theorems framing \<open>injectivity of the length-framed encodings\<close>

section \<open>Definitions\<close>

subsection \<open>Results, times, integers\<close>

type_synonym go_string = string

text \<open>
  \<open>time.Time\<close> is modelled by the instant it denotes, in nanoseconds since the zero time of
  Go (January 1, year 1, UTC); \<open>UTC()\<close> changes the location only and is the identity here.
\<close>

type_synonym go_time = int

abbreviation (input) IsZero :: "go_time \<Rightarrow> bool" where
  "IsZero t \<equiv> t = 0"

abbreviation (input) Before :: "go_time \<Rightarrow> go_time \<Rightarrow> bool" where
  "Before t u \<equiv> t < u"

abbreviation (input) After :: "go_time \<Rightarrow> go_time \<Rightarrow> bool" where
  "After t u \<equiv> u < t"

text \<open>
  An \<open>int64\<close> is an \<^typ>\<open>int\<close>; \<open>i64\<close> wraps the result of an arithmetic operation
  around to the range of the type.
\<close>

type_synonym int64 = int

definition int64_max :: int where
  "int64_max = 9223372036854775807"

definition in_int64 :: "int \<Rightarrow> bool" where
  "in_int64 x \<longleftrightarrow> - 9223372036854775808 \<le> x \<and> x \<le> 9223372036854775807"

definition i64 :: "int \<Rightarrow> int64" where
  "i64 x = (x + 9223372036854775808) mod 18446744073709551616 - 9223372036854775808"

definition result_of :: "'e option \<Rightarrow> 'a \<Rightarrow> 'e + 'a" where
  "result_of err x = (case err of None \<Rightarrow> Inr x | Some e \<Rightarrow> Inl e)"

text \<open>\<open>first_error f xs\<close> is a loop over \<open>xs\<close> that returns at the first error of the body.\<close>

fun first_error :: "('a \<Rightarrow> 'e option) \<Rightarrow> 'a list \<Rightarrow> 'e option" where
  "first_error f [] = None"
| "first_error f (x # xs) = (case f x of None \<Rightarrow> first_error f xs | Some e \<Rightarrow> Some e)"

text \<open>A loop that appends the result of each call and returns at the first error.\<close>

fun collect :: "('e + 'a) list \<Rightarrow> 'e + 'a list" where
  "collect [] = Inr []"
| "collect (Inl e # rs) = Inl e"
| "collect (Inr x # rs) = (case collect rs of Inl e \<Rightarrow> Inl e | Inr xs \<Rightarrow> Inr (x # xs))"

text \<open>
  The sequence of two calls of which the first may fail, a check before the rest of a function,
  and a loop that threads a state through its calls; all three return at the first error.
\<close>

definition and_then :: "'e + 'a \<Rightarrow> ('a \<Rightarrow> 'e + 'b) \<Rightarrow> 'e + 'b" where
  "and_then r f = (case r of Inl e \<Rightarrow> Inl e | Inr x \<Rightarrow> f x)"

definition guarded :: "'e option \<Rightarrow> 'e + 'a \<Rightarrow> 'e + 'a" where
  "guarded err r = (case err of None \<Rightarrow> r | Some e \<Rightarrow> Inl e)"

fun fold_result :: "('x \<Rightarrow> 's \<Rightarrow> 'e + 's) \<Rightarrow> 'x list \<Rightarrow> 's \<Rightarrow> 'e + 's" where
  "fold_result f [] s = Inr s"
| "fold_result f (x # xs) s = and_then (f x s) (fold_result f xs)"

subsection \<open>strings.TrimSpace\<close>

text \<open>
  The UTF-8 encodings of the runes for which \<open>unicode.IsSpace\<close> holds. A left trim removes
  them from the front one at a time, a right trim from the back; since every one of them is a
  whole valid encoding, matching the bytes is what decoding the first or the last rune does.
\<close>

definition space_encodings :: "go_string list" where
  "space_encodings =
     [[CHR 0x09], [CHR 0x0A], [CHR 0x0B], [CHR 0x0C], [CHR 0x0D], [CHR 0x20],
      [CHR 0xC2, CHR 0x85], [CHR 0xC2, CHR 0xA0],
      [CHR 0xE1, CHR 0x9A, CHR 0x80],
      [CHR 0xE2, CHR 0x80, CHR 0x80], [CHR 0xE2, CHR 0x80, CHR 0x81],
      [CHR 0xE2, CHR 0x80, CHR 0x82], [CHR 0xE2, CHR 0x80, CHR 0x83],
      [CHR 0xE2, CHR 0x80, CHR 0x84], [CHR 0xE2, CHR 0x80, CHR 0x85],
      [CHR 0xE2, CHR 0x80, CHR 0x86], [CHR 0xE2, CHR 0x80, CHR 0x87],
      [CHR 0xE2, CHR 0x80, CHR 0x88], [CHR 0xE2, CHR 0x80, CHR 0x89],
      [CHR 0xE2, CHR 0x80, CHR 0x8A], [CHR 0xE2, CHR 0x80, CHR 0xA8],
      [CHR 0xE2, CHR 0x80, CHR 0xA9], [CHR 0xE2, CHR 0x80, CHR 0xAF],
      [CHR 0xE2, CHR 0x81, CHR 0x9F], [CHR 0xE3, CHR 0x80, CHR 0x80]]"

text \<open>An empty pattern never matches: it would not shorten the string.\<close>

fun strip_one :: "go_string list \<Rightarrow> go_string \<Rightarrow> go_string option" where
  "strip_one [] s = None"
| "strip_one (p # ps) s =
     (if p \<noteq> [] \<and> take (length p) s = p then Some (drop (length p) s) else strip_one ps s)"

lemma strip_one_shorter: "strip_one ps s = Some r \<Longrightarrow> length r < length s"
proof (induction ps s rule: strip_one.induct)
  case (2 p ps s)
  show ?case
  proof (cases "p \<noteq> [] \<and> take (length p) s = p")
    case True
    then have "length p \<le> length s"
      by (metis length_take min.cobounded1)
    with True "2.prems" show ?thesis
      by (auto simp: length_greater_0_conv [symmetric] simp del: length_greater_0_conv)
  qed (use 2 in auto)
qed simp

function strip_all :: "go_string list \<Rightarrow> go_string \<Rightarrow> go_string" where
  "strip_all ps s = (case strip_one ps s of None \<Rightarrow> s | Some r \<Rightarrow> strip_all ps r)"
  by pat_completeness auto
termination
  by (relation "measure (\<lambda>(ps, s). length s)") (auto dest: strip_one_shorter)

declare strip_all.simps [simp del]

definition TrimSpace :: "go_string \<Rightarrow> go_string" where
  "TrimSpace s = rev (strip_all (map rev space_encodings) (rev (strip_all space_encodings s)))"

abbreviation (input) blank :: "go_string \<Rightarrow> bool" where
  "blank s \<equiv> TrimSpace s = []"

subsection \<open>Hexadecimal digests\<close>

definition lower_hex_char :: "char \<Rightarrow> bool" where
  "lower_hex_char c \<longleftrightarrow>
     (CHR ''0'' \<le> c \<and> c \<le> CHR ''9'') \<or> (CHR ''a'' \<le> c \<and> c \<le> CHR ''f'')"

text \<open>
  The lower-case SHA-256 texts: 64 hexadecimal digits. The sources test this in three ways, by
  ranging over the runes or by \<open>strings.ToLower\<close> and \<open>hex.DecodeString\<close>; on a string
  that is not ASCII both fail, and on ASCII both say that every byte is a lower-case digit.
\<close>

definition lower_sha256_hex :: "go_string \<Rightarrow> bool" where
  "lower_sha256_hex s \<longleftrightarrow> length s = 64 \<and> list_all lower_hex_char s"

text \<open>\<open>strings.ToLower\<close> and \<open>strings.EqualFold\<close> on ASCII strings\<close>

definition lower_ascii :: "char \<Rightarrow> char" where
  "lower_ascii c = (if CHR ''A'' \<le> c \<and> c \<le> CHR ''Z'' then char_of ((of_char c :: nat) + 32) else c)"

definition EqualFold :: "go_string \<Rightarrow> go_string \<Rightarrow> bool" where
  "EqualFold s t \<longleftrightarrow> map lower_ascii s = map lower_ascii t"

subsection \<open>Byte encodings\<close>

type_synonym byte = "8 word"

text \<open>\<open>binary.BigEndian.PutUint16/32/64\<close>, on the value of the unsigned integer.\<close>

fun big_endian :: "nat \<Rightarrow> nat \<Rightarrow> byte list" where
  "big_endian 0 n = []"
| "big_endian (Suc k) n = big_endian k (n div 256) @ [of_nat n]"

definition bytes_of :: "go_string \<Rightarrow> byte list" where
  "bytes_of s = map (\<lambda>c. of_nat (of_char c)) s"

definition frame :: "byte list \<Rightarrow> byte list" where
  "frame bs = big_endian 8 (length bs) @ bs"

definition frame_string :: "go_string \<Rightarrow> byte list" where
  "frame_string s = frame (bytes_of s)"

definition hex_digit :: "nat \<Rightarrow> char" where
  "hex_digit n = (if n < 10 then char_of (48 + n) else char_of (87 + n))"

text \<open>\<open>hex.EncodeToString\<close>\<close>

definition hex_encode :: "byte list \<Rightarrow> go_string" where
  "hex_encode bs = concat (map (\<lambda>b. [hex_digit (unat b div 16), hex_digit (unat b mod 16)]) bs)"

text \<open>Two byte strings on which a hash function collides.\<close>

definition collision :: "(byte list \<Rightarrow> byte list) \<Rightarrow> byte list \<Rightarrow> byte list \<Rightarrow> bool" where
  "collision h x y \<longleftrightarrow> x \<noteq> y \<and> h x = h y"

subsection \<open>Maps\<close>

text \<open>
  A Go map is an association list with distinct keys; the order of the list stands for the
  order in which \<open>range\<close> visits the entries. \<open>map_put\<close> is the assignment
  \<open>m[k] = v\<close>.
\<close>

type_synonym ('k, 'v) go_map = "('k \<times> 'v) list"

abbreviation go_map_ok :: "('k, 'v) go_map \<Rightarrow> bool" where
  "go_map_ok m \<equiv> distinct (map fst m)"

fun map_put :: "'k \<Rightarrow> 'v \<Rightarrow> ('k, 'v) go_map \<Rightarrow> ('k, 'v) go_map" where
  "map_put k v [] = [(k, v)]"
| "map_put k v ((k', v') # m) = (if k' = k then (k, v) # m else (k', v') # map_put k v m)"

section \<open>Lemmas\<close>

subsection \<open>Loops that stop at the first error\<close>

lemma first_error_None [simp]: "first_error f xs = None \<longleftrightarrow> (\<forall>x\<in>set xs. f x = None)"
  by (induction xs) (auto split: option.splits)

lemma first_error_Some: "first_error f xs = Some e \<Longrightarrow> \<exists>x\<in>set xs. f x = Some e"
  by (induction xs) (auto split: option.splits)

lemma collect_Inr: "collect rs = Inr xs \<longleftrightarrow> list_all2 (\<lambda>r x. r = Inr x) rs xs"
proof (induction rs arbitrary: xs rule: collect.induct)
  case (3 x rs)
  then show ?case by (cases xs; cases "collect rs") (auto simp: list_all2_Cons1)
qed (auto simp: list_all2_Cons1)

lemma collect_map_Inr: "collect (map f ys) = Inr xs \<longleftrightarrow> list_all2 (\<lambda>y x. f y = Inr x) ys xs"
  by (simp add: collect_Inr list.rel_map)

lemma collect_member: "collect (map f ys) = Inr xs \<Longrightarrow> y \<in> set ys \<Longrightarrow> \<exists>x\<in>set xs. f y = Inr x"
  unfolding collect_map_Inr by (induction ys xs rule: list_all2_induct) auto

lemma collect_result_member: "collect (map f ys) = Inr xs \<Longrightarrow> x \<in> set xs \<Longrightarrow> \<exists>y\<in>set ys. f y = Inr x"
  unfolding collect_map_Inr by (induction ys xs rule: list_all2_induct) auto

lemma collect_total: "(\<forall>y\<in>set ys. \<exists>x. f y = Inr x) \<Longrightarrow> \<exists>xs. collect (map f ys) = Inr xs"
  by (induction ys) auto

lemma and_then_Inr: "and_then r f = Inr y \<longleftrightarrow> (\<exists>x. r = Inr x \<and> f x = Inr y)"
  by (simp add: and_then_def split: sum.splits)

lemma and_then_Inr_simp [simp]: "and_then (Inr x) f = f x" "and_then (Inl e) f = Inl e"
  by (simp_all add: and_then_def)

lemma guarded_Inr: "guarded err r = Inr y \<longleftrightarrow> err = None \<and> r = Inr y"
  by (simp add: guarded_def split: option.splits)

lemma guarded_simp [simp]: "guarded None r = r" "guarded (Some e) r = Inl e"
  by (simp_all add: guarded_def)

lemma if_Inl_Inr: "(if c then Inl e else r) = Inr y \<longleftrightarrow> \<not> c \<and> r = Inr y"
  by simp

lemmas result_Inr = and_then_Inr guarded_Inr if_Inl_Inr

text \<open>An invariant of the state of such a loop, established by every step.\<close>

lemma fold_result_invariant:
  assumes "fold_result f xs s = Inr s'" and "I s"
    and "\<And>x s s'. x \<in> set xs \<Longrightarrow> I s \<Longrightarrow> f x s = Inr s' \<Longrightarrow> I s'"
  shows "I s'"
  using assms by (induction xs arbitrary: s) (auto simp: and_then_Inr)

lemma if_Some_no_error [no_error]: "(if c then Some e else x) = None \<longleftrightarrow> \<not> c \<and> x = None"
  by simp

lemma case_Some_no_error [no_error]:
  "(case x of None \<Rightarrow> y | Some e \<Rightarrow> Some (f e)) = None \<longleftrightarrow> x = None \<and> y = None"
  by (simp split: option.splits)

lemma case_option_no_error [no_error]:
  "(case x of None \<Rightarrow> None | Some p \<Rightarrow> g p) = None \<longleftrightarrow> (\<forall>p. x = Some p \<longrightarrow> g p = None)"
  by (simp split: option.splits)

lemma result_of_Inr [simp]: "result_of err x = Inr y \<longleftrightarrow> err = None \<and> y = x"
  by (auto simp: result_of_def split: option.splits)

lemma result_of_Inl [simp]: "result_of err x = Inl e \<longleftrightarrow> err = Some e"
  by (auto simp: result_of_def split: option.splits)

subsection \<open>Integers\<close>

lemma i64_id [simp]: "in_int64 x \<Longrightarrow> i64 x = x"
  by (simp add: in_int64_def i64_def)

lemma in_int64_i64 [simp]: "in_int64 (i64 x)"
proof -
  have "0 \<le> (x + 9223372036854775808) mod 18446744073709551616"
    and "(x + 9223372036854775808) mod 18446744073709551616 < 18446744073709551616"
    by simp_all
  then show ?thesis unfolding in_int64_def i64_def by linarith
qed

subsection \<open>Trimming\<close>

lemma strip_one_Nil [simp]: "strip_one ps [] = None"
  by (induction ps) auto

lemma TrimSpace_Nil [simp]: "TrimSpace [] = []"
  by (simp add: TrimSpace_def strip_all.simps)

lemma not_blank_nonempty: "\<not> blank s \<Longrightarrow> s \<noteq> []"
  by auto

subsection \<open>Big-endian framing\<close>

lemma length_big_endian [simp]: "length (big_endian k n) = k"
  by (induction k arbitrary: n) auto

lemma of_nat_byte_eq: "(of_nat m :: byte) = of_nat n \<longleftrightarrow> m mod 256 = n mod 256"
  by (simp add: word_of_nat_eq_iff take_bit_eq_mod)

lemma radix_eq:
  assumes "b < (256 :: nat)" and "d < 256"
  shows "256 * a + b = 256 * c + d \<longleftrightarrow> a = c \<and> b = d"
  using assms by (cases a c rule: linorder_cases) auto

lemma big_endian_mod: "big_endian k m = big_endian k n \<longleftrightarrow> m mod 256 ^ k = n mod 256 ^ k"
proof (induction k arbitrary: m n)
  case (Suc k)
  have split: "x mod (256 * 256 ^ k) = 256 * (x div 256 mod 256 ^ k) + x mod 256" for x :: nat
    by (simp add: mod_mult2_eq)
  have "big_endian (Suc k) m = big_endian (Suc k) n \<longleftrightarrow>
      (m div 256) mod 256 ^ k = (n div 256) mod 256 ^ k \<and> m mod 256 = n mod 256"
    using Suc.IH by (simp add: of_nat_byte_eq)
  also have "\<dots> \<longleftrightarrow> m mod (256 * 256 ^ k) = n mod (256 * 256 ^ k)"
    unfolding split by (rule radix_eq [symmetric]) simp_all
  finally show ?case by simp
qed simp

lemma big_endian_inject [framing]:
  "m < 256 ^ k \<Longrightarrow> n < 256 ^ k \<Longrightarrow> big_endian k m = big_endian k n \<longleftrightarrow> m = n"
  by (simp add: big_endian_mod)

lemma bytes_of_inject [framing, simp]: "bytes_of s = bytes_of t \<longleftrightarrow> s = t"
proof -
  have "inj (\<lambda>c :: char. (of_nat (of_char c) :: byte))"
  proof (rule injI)
    fix c d :: char
    assume "(of_nat (of_char c) :: byte) = of_nat (of_char d)"
    then have "(of_char c :: nat) mod 256 = of_char d mod 256"
      by (simp only: of_nat_byte_eq)
    then show "c = d" by simp
  qed
  then show ?thesis by (simp add: bytes_of_def inj_map_eq_map)
qed

lemma length_bytes_of [simp]: "length (bytes_of s) = length s"
  by (simp add: bytes_of_def)

lemma hex_digit_inject: "m < 16 \<Longrightarrow> n < 16 \<Longrightarrow> hex_digit m = hex_digit n \<longleftrightarrow> m = n"
  by (auto simp: hex_digit_def split: if_splits)

lemma hex_encode_inject [simp]: "hex_encode xs = hex_encode ys \<longleftrightarrow> xs = ys"
proof (induction xs arbitrary: ys)
  case Nil
  then show ?case by (cases ys) (auto simp: hex_encode_def)
next
  case (Cons x xs)
  show ?case
  proof (cases ys)
    case (Cons y ys')
    have high: "unat b div 16 < 16" for b :: byte
      using unsigned_less [of b, where ?'a = nat] by (simp add: less_mult_imp_div_less)
    have "unat x div 16 = unat y div 16 \<and> unat x mod 16 = unat y mod 16 \<longleftrightarrow> x = y"
      by (metis div_mult_mod_eq word_eq_iff_unsigned)
    with Cons Cons.IH [of ys'] show ?thesis
      by (auto simp: hex_encode_def hex_digit_inject high)
  qed (simp add: hex_encode_def)
qed

text \<open>
  A framed field at the front of two equal byte strings determines the field and the rest: this
  is what makes a sequence of framed fields uniquely readable. The bound is the range of the
  \<open>uint64\<close> length; no Go string or slice is longer.
\<close>

abbreviation framable :: "'a list \<Rightarrow> bool" where
  "framable xs \<equiv> length xs < 18446744073709551616"

lemma hex_digit_lower: "n < 16 \<Longrightarrow> lower_hex_char (hex_digit n)"
  unfolding lower_hex_char_def hex_digit_def less_eq_char_def by auto

lemma hex_encode_lower: "list_all lower_hex_char (hex_encode bs) \<and> length (hex_encode bs) = 2 * length bs"
proof -
  have "unat b div 16 < 16" for b :: byte
    using unsigned_less [of b, where ?'a = nat] by (simp add: less_mult_imp_div_less)
  then show ?thesis by (induction bs) (auto simp: hex_encode_def hex_digit_lower)
qed

lemma hex_encode_sha256: "length bs = 32 \<Longrightarrow> lower_sha256_hex (hex_encode bs)"
  by (simp add: lower_sha256_hex_def hex_encode_lower)

lemma hash_equal_iff: "x = y \<or> collision h x y \<longleftrightarrow> h x = h y"
  by (auto simp: collision_def)

lemma big_endian_append_inject [framing]:
  assumes "m < 256 ^ k" and "n < 256 ^ k"
  shows "big_endian k m @ xs = big_endian k n @ ys \<longleftrightarrow> m = n \<and> xs = ys"
  using assms by (auto simp: big_endian_inject)

lemma frame_append_inject [framing]:
  assumes "framable xs" and "framable ys"
  shows "frame xs @ us = frame ys @ vs \<longleftrightarrow> xs = ys \<and> us = vs"
proof
  assume eq: "frame xs @ us = frame ys @ vs"
  then have "length xs = length ys"
    using assms by (auto simp: frame_def big_endian_inject)
  with eq show "xs = ys \<and> us = vs" by (simp add: frame_def)
qed simp

lemma frame_string_append_inject [framing]:
  assumes "framable s" and "framable t"
  shows "frame_string s @ us = frame_string t @ vs \<longleftrightarrow> s = t \<and> us = vs"
  using assms by (simp add: frame_string_def frame_append_inject)

subsection \<open>Ascending lists\<close>

lemma ascending_last_Max:
  fixes xs :: "'a :: linorder list"
  assumes "sorted_wrt (<) xs" and "xs \<noteq> []"
  shows "last xs = Max (set xs)"
proof (rule sym, rule Max_eqI)
  show "y \<le> last xs" if "y \<in> set xs" for y
    using assms that by (cases xs rule: rev_cases) (auto simp: sorted_wrt_append)
qed (use assms in auto)

subsection \<open>Association lists\<close>

lemma map_of_map_put [simp]: "map_of (map_put k v m) = (map_of m)(k \<mapsto> v)"
  by (induction m) auto

lemma set_fst_map_put [simp]: "fst ` set (map_put k v m) = insert k (fst ` set m)"
  using dom_map_of_conv_image_fst [of "map_put k v m"]
  by (simp add: dom_map_of_conv_image_fst)

lemma distinct_map_put [simp]: "go_map_ok m \<Longrightarrow> go_map_ok (map_put k v m)"
proof (induction m)
  case (Cons p m)
  then show ?case by (cases p) (simp, blast)
qed simp

lemma go_map_entry: "go_map_ok m \<Longrightarrow> (k, v) \<in> set m \<longleftrightarrow> map_of m k = Some v"
  by (simp add: map_of_eq_Some_iff)

text \<open>
  A loop over a map that puts at most one entry per visited key into the result: the common
  shape of the set and multiset operations. \<open>f k v old\<close> is what the body puts under \<open>k\<close>.
\<close>

definition put_step ::
  "('k \<Rightarrow> 'v \<Rightarrow> 'w option \<Rightarrow> 'w option) \<Rightarrow> ('k, 'w) go_map \<Rightarrow> 'k \<times> 'v \<Rightarrow> ('k, 'w) go_map" where
  "put_step f result = (\<lambda>(k, v). case f k v (map_of result k) of None \<Rightarrow> result | Some w \<Rightarrow> map_put k w result)"

lemma go_map_ok_put_loop: "go_map_ok acc \<Longrightarrow> go_map_ok (foldl (put_step f) acc m)"
  by (induction m arbitrary: acc) (auto simp: put_step_def split: option.splits)

lemma map_of_put_loop:
  "go_map_ok m \<Longrightarrow> map_of (foldl (put_step f) acc m) k =
     (case map_of m k of
        None \<Rightarrow> map_of acc k
      | Some v \<Rightarrow> (case f k v (map_of acc k) of None \<Rightarrow> map_of acc k | Some w \<Rightarrow> Some w))"
proof (induction m arbitrary: acc)
  case (Cons p m)
  obtain k' v' where p: "p = (k', v')" by (cases p)
  with Cons.prems have "map_of m k' = None" by (auto simp: map_of_eq_None_iff)
  with Cons p show ?case
    by (cases "k = k'") (auto simp: put_step_def split: option.splits)
qed simp

section \<open>Interface: checks that only let authority shrink\<close>

text \<open>
  Several operations of the gateway compare a candidate with the object it is derived from and
  accept it only when it is no broader. A chain of such derivations is what delegation and
  repeated narrowing produce. The contract of such a check is that acceptance implies an order
  that composes; its consequence, proved once here, is that a whole chain stays below its root.
\<close>

inductive accepted_chain :: "('a \<Rightarrow> 'a \<Rightarrow> 'e option) \<Rightarrow> ('a \<Rightarrow> bool) \<Rightarrow> 'a \<Rightarrow> 'a \<Rightarrow> bool"
  for check ok root where
  direct: "check root c = None \<Longrightarrow> ok c \<Longrightarrow> accepted_chain check ok root c"
| further: "accepted_chain check ok root g \<Longrightarrow> check g c = None \<Longrightarrow> ok c \<Longrightarrow>
    accepted_chain check ok root c"

locale attenuation =
  fixes check :: "'a \<Rightarrow> 'a \<Rightarrow> 'e option"
    and ok :: "'a \<Rightarrow> bool"
    and le :: "'a \<Rightarrow> 'a \<Rightarrow> bool"
  assumes accepted_le: "check g c = None \<Longrightarrow> ok g \<Longrightarrow> ok c \<Longrightarrow> le c g"
    and le_transitive: "le a b \<Longrightarrow> le b c \<Longrightarrow> le a c"
begin

lemma chain_bounded:
  "accepted_chain check ok root c \<Longrightarrow> ok root \<Longrightarrow> ok c \<and> le c root"
proof (induction rule: accepted_chain.induct)
  case (direct c)
  then show ?case by (simp add: accepted_le)
next
  case (further g c)
  then have "le c g" and "le g root" by (auto simp: accepted_le)
  with further show ?case by (auto intro: le_transitive)
qed

end

end
