(* ===== verification/Domain_Task.thy ===== *)
theory Domain_Task
  imports Prelude
begin

text \<open>
  The ordered data classifications of \<open>internal/domain/sensitivity.go\<close> and the task
  aggregate of \<open>internal/domain/task.go\<close>: the states, events and terminal reasons, the
  validation of a task, the transition function with its guards, and the step relation of the
  life cycle with the invariants of its reachable states.

  The Go string enumerations are datatypes; the constructor \<open>...Other\<close> stands for any
  string that is none of the declared constants.
\<close>

section \<open>Sensitivity\<close>

datatype Sensitivity =
    SensitivityPublic
  | SensitivityLow
  | SensitivityMedium
  | SensitivityHigh
  | SensitivityRestricted
  | SensitivityOther go_string

datatype sensitivity_error = ErrInvalidSensitivity

fun sensitivityRank :: "Sensitivity \<Rightarrow> nat option" where
  "sensitivityRank SensitivityPublic = Some 0"
| "sensitivityRank SensitivityLow = Some 1"
| "sensitivityRank SensitivityMedium = Some 2"
| "sensitivityRank SensitivityHigh = Some 3"
| "sensitivityRank SensitivityRestricted = Some 4"
| "sensitivityRank (SensitivityOther _) = None"

definition Sensitivity_Validate :: "Sensitivity \<Rightarrow> sensitivity_error option" where
  "Sensitivity_Validate s =
     (case sensitivityRank s of None \<Rightarrow> Some ErrInvalidSensitivity | Some _ \<Rightarrow> None)"

definition Rank :: "Sensitivity \<Rightarrow> sensitivity_error + nat" where
  "Rank s = (case sensitivityRank s of None \<Rightarrow> Inl ErrInvalidSensitivity | Some r \<Rightarrow> Inr r)"

definition AtMost :: "Sensitivity \<Rightarrow> Sensitivity \<Rightarrow> bool" where
  "AtMost s ceiling =
     (case (sensitivityRank s, sensitivityRank ceiling) of
        (Some sRank, Some cRank) \<Rightarrow> sRank \<le> cRank
      | _ \<Rightarrow> False)"

text \<open>The loop of \<open>HighestSensitivity\<close> over \<open>values[1:]\<close>.\<close>

fun highest_loop ::
  "Sensitivity \<Rightarrow> nat \<Rightarrow> Sensitivity list \<Rightarrow> sensitivity_error + Sensitivity" where
  "highest_loop highest highestRank [] = Inr highest"
| "highest_loop highest highestRank (value # values) =
     (case Rank value of
        Inl e \<Rightarrow> Inl e
      | Inr rank \<Rightarrow>
          if highestRank < rank then highest_loop value rank values
          else highest_loop highest highestRank values)"

fun HighestSensitivity :: "Sensitivity list \<Rightarrow> sensitivity_error + Sensitivity" where
  "HighestSensitivity [] = Inl ErrInvalidSensitivity"
| "HighestSensitivity (value # values) =
     (case Rank value of
        Inl e \<Rightarrow> Inl e
      | Inr rank \<Rightarrow> highest_loop value rank values)"

datatype ApprovalMode = ApprovalModeManual | ApprovalModeOther go_string

datatype approval_mode_error = ErrInvalidApprovalMode

fun ApprovalMode_Validate :: "ApprovalMode \<Rightarrow> approval_mode_error option" where
  "ApprovalMode_Validate ApprovalModeManual = None"
| "ApprovalMode_Validate (ApprovalModeOther _) = Some ErrInvalidApprovalMode"

section \<open>Tasks\<close>

datatype TaskState =
    TaskStateAwaitingSubmission
  | TaskStateAwaitingApproval
  | TaskStateActive
  | TaskStateArchived
  | TaskStateOther go_string

text \<open>The empty terminal reason is \<open>TerminalReasonNone\<close>.\<close>

datatype TerminalReason =
    TerminalReasonNone
  | TerminalReasonCompleted
  | TerminalReasonBudgetExhausted
  | TerminalReasonRejected
  | TerminalReasonExpired
  | TerminalReasonRevoked
  | TerminalReasonFailed
  | TerminalReasonOther go_string

text \<open>The empty event, which is what a new task carries, is \<open>TaskEventNone\<close>.\<close>

datatype TaskEvent =
    TaskEventNone
  | TaskEventSubmit
  | TaskEventApprove
  | TaskEventReject
  | TaskEventComplete
  | TaskEventBudgetExhausted
  | TaskEventExpire
  | TaskEventRevoke
  | TaskEventFail
  | TaskEventOther go_string

datatype task_error =
    ErrInvalidTask_required
  | ErrInvalidTask_timestamps
  | ErrInvalidTask_terminal_reason TerminalReason
  | ErrInvalidTask_non_terminal
  | ErrInvalidTask_nil
  | ErrInvalidTaskState TaskState
  | ErrInvalidTransition_time
  | ErrInvalidTransition TaskState TaskEvent
  | ErrDuplicateTransition TaskEvent
  | ErrTerminalTask
  | ErrStaleTransition
  | ErrTransitionExpired

record Task =
  task_ID :: go_string
  task_Subject :: go_string
  task_Purpose :: go_string
  task_RequestedProducts :: "go_string list"
  task_Sensitivity :: Sensitivity
  task_CatalogVersion :: go_string
  task_State :: TaskState
  task_TerminalReason :: TerminalReason
  task_LastEvent :: TaskEvent
  task_CreatedAt :: go_time
  task_UpdatedAt :: go_time
  task_ExpiresAt :: go_time

fun TaskState_Validate :: "TaskState \<Rightarrow> task_error option" where
  "TaskState_Validate (TaskStateOther s) = Some (ErrInvalidTaskState (TaskStateOther s))"
| "TaskState_Validate _ = None"

fun TerminalReason_Validate :: "TerminalReason \<Rightarrow> task_error option" where
  "TerminalReason_Validate TerminalReasonNone =
     Some (ErrInvalidTask_terminal_reason TerminalReasonNone)"
| "TerminalReason_Validate (TerminalReasonOther s) =
     Some (ErrInvalidTask_terminal_reason (TerminalReasonOther s))"
| "TerminalReason_Validate _ = None"

definition Task_Validate :: "Task \<Rightarrow> task_error option" where
  "Task_Validate t =
     (if blank (task_ID t) \<or> blank (task_Subject t) \<or> blank (task_Purpose t) \<or> blank (task_CatalogVersion t)
      then Some ErrInvalidTask_required
      else if IsZero (task_CreatedAt t) \<or> IsZero (task_UpdatedAt t) \<or> Before (task_UpdatedAt t) (task_CreatedAt t)
      then Some ErrInvalidTask_timestamps
      else case TaskState_Validate (task_State t) of
        Some e \<Rightarrow> Some e
      | None \<Rightarrow>
          if task_State t = TaskStateArchived then TerminalReason_Validate (task_TerminalReason t)
          else if task_TerminalReason t \<noteq> TerminalReasonNone then Some ErrInvalidTask_non_terminal
          else None)"

text \<open>
  \<open>RequestedProducts\<close>, \<open>Sensitivity\<close> and \<open>ExpiresAt\<close> keep their zero
  values in a new task.
\<close>

definition NewTask ::
  "go_string \<Rightarrow> go_string \<Rightarrow> go_string \<Rightarrow> go_string \<Rightarrow> go_time \<Rightarrow> task_error + Task" where
  "NewTask taskID subject purpose catalogVersion now =
     (let task = \<lparr>task_ID = taskID, task_Subject = subject, task_Purpose = purpose, task_RequestedProducts = [],
            task_Sensitivity = SensitivityOther [], task_CatalogVersion = catalogVersion,
            task_State = TaskStateAwaitingSubmission, task_TerminalReason = TerminalReasonNone,
            task_LastEvent = TaskEventNone, task_CreatedAt = now, task_UpdatedAt = now, task_ExpiresAt = 0\<rparr>
      in case Task_Validate task of Some e \<Rightarrow> Inl e | None \<Rightarrow> Inr task)"

definition IsTerminal :: "Task \<Rightarrow> bool" where
  "IsTerminal t \<longleftrightarrow> task_State t = TaskStateArchived"

fun transitionFor :: "TaskState \<Rightarrow> TaskEvent \<Rightarrow> task_error + TaskState \<times> TerminalReason" where
  "transitionFor state TaskEventSubmit =
     (if state \<noteq> TaskStateAwaitingSubmission
      then Inl (ErrInvalidTransition state TaskEventSubmit)
      else Inr (TaskStateAwaitingApproval, TerminalReasonNone))"
| "transitionFor state TaskEventApprove =
     (if state \<noteq> TaskStateAwaitingApproval
      then Inl (ErrInvalidTransition state TaskEventApprove)
      else Inr (TaskStateActive, TerminalReasonNone))"
| "transitionFor state TaskEventReject =
     (if state \<noteq> TaskStateAwaitingApproval
      then Inl (ErrInvalidTransition state TaskEventReject)
      else Inr (TaskStateArchived, TerminalReasonRejected))"
| "transitionFor state TaskEventComplete =
     (if state \<noteq> TaskStateActive
      then Inl (ErrInvalidTransition state TaskEventComplete)
      else Inr (TaskStateArchived, TerminalReasonCompleted))"
| "transitionFor state TaskEventBudgetExhausted =
     (if state \<noteq> TaskStateActive
      then Inl (ErrInvalidTransition state TaskEventBudgetExhausted)
      else Inr (TaskStateArchived, TerminalReasonBudgetExhausted))"
| "transitionFor state TaskEventExpire = Inr (TaskStateArchived, TerminalReasonExpired)"
| "transitionFor state TaskEventRevoke = Inr (TaskStateArchived, TerminalReasonRevoked)"
| "transitionFor state TaskEventFail = Inr (TaskStateArchived, TerminalReasonFailed)"
| "transitionFor state event = Inl (ErrInvalidTransition state event)"

text \<open>
  \<open>Transition\<close> has a pointer receiver: the nil pointer is \<^const>\<open>None\<close>. The result is
  the error together with the aggregate the receiver points to afterwards.
\<close>

definition Transition ::
  "Task option \<Rightarrow> TaskEvent \<Rightarrow> go_time \<Rightarrow> task_error option \<times> Task option" where
  "Transition receiver event at =
     (case receiver of
        None \<Rightarrow> (Some ErrInvalidTask_nil, None)
      | Some t \<Rightarrow>
          if IsZero at then (Some ErrInvalidTransition_time, Some t)
          else if event = task_LastEvent t \<and> event \<noteq> TaskEventNone
          then (Some (ErrDuplicateTransition event), Some t)
          else if IsTerminal t then (Some ErrTerminalTask, Some t)
          else if \<not> IsZero (task_UpdatedAt t) \<and> Before at (task_UpdatedAt t)
          then (Some ErrStaleTransition, Some t)
          else if event \<noteq> TaskEventExpire \<and> \<not> IsZero (task_ExpiresAt t) \<and> \<not> Before at (task_ExpiresAt t)
          then (Some ErrTransitionExpired, Some t)
          else case transitionFor (task_State t) event of
            Inl e \<Rightarrow> (Some e, Some t)
          | Inr (nextState, reason) \<Rightarrow>
              (None, Some (t\<lparr>task_State := nextState, task_TerminalReason := reason,
                             task_LastEvent := event, task_UpdatedAt := at\<rparr>)))"

text \<open>The life cycle: a step is an accepted transition, a run starts from a new task.\<close>

inductive task_step :: "Task \<Rightarrow> TaskEvent \<times> go_time \<Rightarrow> Task \<Rightarrow> bool" where
  "Transition (Some t) event at = (None, Some t') \<Longrightarrow> task_step t (event, at) t'"

inductive task_run :: "Task \<Rightarrow> (TaskEvent \<times> go_time) list \<Rightarrow> Task \<Rightarrow> bool" where
  created: "NewTask i s p c now = Inr t \<Longrightarrow> task_run t [] t"
| stepped: "task_run t0 es t \<Longrightarrow> task_step t e t' \<Longrightarrow> task_run t0 (es @ [e]) t'"

inductive_cases task_stepE: "task_step t e t'"
inductive_simps task_step_iff: "task_step t (event, at) t'"

text \<open>The position of a state in the life cycle.\<close>

fun stage :: "TaskState \<Rightarrow> nat" where
  "stage TaskStateAwaitingSubmission = 0"
| "stage TaskStateAwaitingApproval = 1"
| "stage TaskStateActive = 2"
| "stage TaskStateArchived = 3"
| "stage (TaskStateOther _) = 0"

section \<open>Lemmas\<close>

subsection \<open>The order of sensitivities\<close>

lemma Sensitivity_Validate_None [validate_simps]:
  "Sensitivity_Validate s = None \<longleftrightarrow> (\<exists>r. sensitivityRank s = Some r)"
  by (auto simp: Sensitivity_Validate_def split: option.splits)

lemma AtMost_iff:
  "AtMost s c \<longleftrightarrow> (\<exists>a b. sensitivityRank s = Some a \<and> sensitivityRank c = Some b \<and> a \<le> b)"
  by (auto simp: AtMost_def split: option.splits)

lemma AtMost_refl: "Sensitivity_Validate s = None \<Longrightarrow> AtMost s s"
  by (auto simp: AtMost_iff validate_simps)

lemma AtMost_trans: "AtMost a b \<Longrightarrow> AtMost b c \<Longrightarrow> AtMost a c"
  by (auto simp: AtMost_iff)

lemma AtMost_antisym: "AtMost a b \<Longrightarrow> AtMost b a \<Longrightarrow> a = b"
  by (cases a; cases b) (auto simp: AtMost_iff)

lemma Rank_Inr: "Rank s = Inr r \<longleftrightarrow> sensitivityRank s = Some r"
  by (auto simp: Rank_def split: option.splits)

lemma highest_loop_sound:
  "highest_loop h r vs = Inr m \<Longrightarrow> sensitivityRank h = Some r \<Longrightarrow>
   m \<in> set (h # vs) \<and> (\<forall>v\<in>set (h # vs). AtMost v m)"
proof (induction vs arbitrary: h r)
  case Nil
  then show ?case by (auto simp: AtMost_iff)
next
  case (Cons v vs)
  from Cons.prems obtain rv where rv: "sensitivityRank v = Some rv"
    by (auto simp: Rank_Inr split: sum.splits)
  show ?case
  proof (cases "r < rv")
    case True
    with Cons.prems rv have "m \<in> set (v # vs) \<and> (\<forall>w\<in>set (v # vs). AtMost w m)"
      by (intro Cons.IH) (auto simp: Rank_def)
    moreover from this True rv Cons.prems(2) have "AtMost h m"
      by (auto simp: AtMost_iff)
    ultimately show ?thesis by auto
  next
    case False
    with Cons.prems rv have "m \<in> set (h # vs) \<and> (\<forall>w\<in>set (h # vs). AtMost w m)"
      by (intro Cons.IH) (auto simp: Rank_def)
    moreover from this False rv Cons.prems(2) have "AtMost v m"
      by (auto simp: AtMost_iff)
    ultimately show ?thesis by auto
  qed
qed

lemma highest_loop_total:
  "(\<forall>v\<in>set vs. Sensitivity_Validate v = None) \<longleftrightarrow> (\<exists>m. highest_loop h r vs = Inr m)"
  by (induction vs arbitrary: h r) (auto simp: validate_simps Rank_def split: option.splits)

subsection \<open>Validity of tasks and transitions\<close>

lemma TaskState_Validate_None [validate_simps]:
  "TaskState_Validate s = None \<longleftrightarrow> (\<forall>x. s \<noteq> TaskStateOther x)"
  by (cases s) auto

lemma transitionFor_Inr:
  "transitionFor s ev = Inr (s', r) \<Longrightarrow>
   TaskState_Validate s' = None \<and>
   (if s' = TaskStateArchived then TerminalReason_Validate r = None else r = TerminalReasonNone)"
  by (cases ev) (auto split: if_splits)

lemma transitionFor_advances:
  "transitionFor s ev = Inr (s', r) \<Longrightarrow> s \<noteq> TaskStateArchived \<Longrightarrow> stage s < stage s'"
  by (cases ev; cases s) auto

lemma Transition_accepted:
  assumes "Transition (Some t) ev at = (None, Some t')"
  obtains s' r where "transitionFor (task_State t) ev = Inr (s', r)"
    and "t' = t\<lparr>task_State := s', task_TerminalReason := r, task_LastEvent := ev, task_UpdatedAt := at\<rparr>"
    and "at \<noteq> 0" and "ev \<noteq> task_LastEvent t \<or> ev = TaskEventNone" and "task_State t \<noteq> TaskStateArchived"
    and "task_UpdatedAt t = 0 \<or> task_UpdatedAt t \<le> at"
    and "ev = TaskEventExpire \<or> task_ExpiresAt t = 0 \<or> at < task_ExpiresAt t"
  using assms unfolding Transition_def IsTerminal_def
  by (auto split: if_splits sum.splits prod.splits)

lemma Task_Validate_None [validate_simps]:
  "Task_Validate t = None \<longleftrightarrow>
     \<not> blank (task_ID t) \<and> \<not> blank (task_Subject t) \<and> \<not> blank (task_Purpose t) \<and>
     \<not> blank (task_CatalogVersion t) \<and> task_CreatedAt t \<noteq> 0 \<and> task_UpdatedAt t \<noteq> 0 \<and>
     task_CreatedAt t \<le> task_UpdatedAt t \<and> TaskState_Validate (task_State t) = None \<and>
     (if task_State t = TaskStateArchived then TerminalReason_Validate (task_TerminalReason t) = None
      else task_TerminalReason t = TerminalReasonNone)"
  by (simp add: Task_Validate_def no_error not_less)

lemma task_step_valid:
  assumes "task_step t e t'" and "Task_Validate t = None"
  shows "Task_Validate t' = None" and "stage (task_State t) < stage (task_State t')"
    and "task_CreatedAt t' = task_CreatedAt t" and "task_ExpiresAt t' = task_ExpiresAt t"
    and "task_UpdatedAt t \<le> task_UpdatedAt t'"
proof -
  from assms(1) obtain ev at where acc: "Transition (Some t) ev at = (None, Some t')"
    by (rule task_stepE)
  from Transition_accepted [OF acc] obtain s' r
    where step: "transitionFor (task_State t) ev = Inr (s', r)"
      and t': "t' = t\<lparr>task_State := s', task_TerminalReason := r, task_LastEvent := ev,
            task_UpdatedAt := at\<rparr>"
      and at: "at \<noteq> 0" and live: "task_State t \<noteq> TaskStateArchived"
      and order: "task_UpdatedAt t = 0 \<or> task_UpdatedAt t \<le> at"
    by metis
  show "stage (task_State t) < stage (task_State t')"
    using transitionFor_advances [OF step live] by (simp add: t')
  show "task_CreatedAt t' = task_CreatedAt t" "task_ExpiresAt t' = task_ExpiresAt t"
    by (simp_all add: t')
  show "task_UpdatedAt t \<le> task_UpdatedAt t'"
    using order assms(2) by (simp add: t' Task_Validate_None)
  show "Task_Validate t' = None"
    using assms(2) transitionFor_Inr [OF step] at order by (auto simp: t' Task_Validate_None)
qed

lemma NewTask_valid:
  "NewTask i s p c now = Inr t \<Longrightarrow>
   Task_Validate t = None \<and> task_State t = TaskStateAwaitingSubmission"
  by (auto simp: NewTask_def Let_def split: option.splits)

lemma task_run_invariant:
  "task_run t0 es t \<Longrightarrow>
   Task_Validate t = None \<and> length es \<le> stage (task_State t) \<and> task_CreatedAt t \<le> task_UpdatedAt t"
proof (induction rule: task_run.induct)
  case (created i s p c now t)
  then have "Task_Validate t = None" by (simp add: NewTask_valid)
  then show ?case by (simp add: Task_Validate_None)
next
  case (stepped t0 es t e t')
  then show ?case using task_step_valid [OF stepped.hyps(2)] by simp
qed

section \<open>Properties\<close>

text \<open>
  \<open>HighestSensitivity\<close> succeeds exactly on a non-empty list of supported
  classifications, and then returns a member of the list that no member exceeds.
\<close>

theorem HighestSensitivity_correct:
  "((\<exists>m. HighestSensitivity vs = Inr m) \<longleftrightarrow>
      vs \<noteq> [] \<and> (\<forall>v\<in>set vs. Sensitivity_Validate v = None)) \<and>
   (\<forall>m. HighestSensitivity vs = Inr m \<longrightarrow> m \<in> set vs \<and> (\<forall>v\<in>set vs. AtMost v m))"
proof (cases vs)
  case (Cons v ws)
  show ?thesis
  proof (cases "Rank v")
    case (Inl e)
    with Cons show ?thesis
      by (auto simp: Rank_def validate_simps split: option.splits)
  next
    case (Inr r)
    from Inr Cons have eq: "HighestSensitivity vs = highest_loop v r ws" by simp
    have r: "sensitivityRank v = Some r" using Inr by (simp add: Rank_Inr)
    then have "Sensitivity_Validate v = None" by (auto simp: validate_simps)
    then show ?thesis
      unfolding eq highest_loop_total [symmetric]
      using highest_loop_sound [OF _ r] Cons by auto
  qed
qed simp

theorem HighestSensitivity_correct_witness:
  "HighestSensitivity [SensitivityLow, SensitivityHigh, SensitivityMedium] = Inr SensitivityHigh \<and>
   AtMost SensitivityMedium SensitivityHigh"
proof -
  have run: "HighestSensitivity [SensitivityLow, SensitivityHigh, SensitivityMedium] =
      Inr SensitivityHigh"
    by code_simp
  then show ?thesis
    using HighestSensitivity_correct [of "[SensitivityLow, SensitivityHigh, SensitivityMedium]"]
    by auto
qed


definition sample_task :: Task where
  "sample_task = \<lparr>task_ID = ''t'', task_Subject = ''s'', task_Purpose = ''p'', task_RequestedProducts = [],
     task_Sensitivity = SensitivityOther [], task_CatalogVersion = ''v'',
     task_State = TaskStateAwaitingSubmission, task_TerminalReason = TerminalReasonNone,
     task_LastEvent = TaskEventNone, task_CreatedAt = 5, task_UpdatedAt = 5, task_ExpiresAt = 0\<rparr>"




end
