(* ===== verification/Domain_Budget.thy ===== *)
theory Domain_Budget
  imports Prelude
begin

text \<open>
  The two budget envelopes of \<open>internal/domain\<close>: \<open>Budget\<close> (\<open>budget.go\<close>)
  and \<open>AuthorizationBudgetV1\<close> (\<open>authorization.go\<close>), with the limits on the
  predicate footprint that both carry, their validation and the order on them that keeps a
  delegated budget inside the budget it is derived from.
\<close>

section \<open>Definitions\<close>

subsection \<open>Predicate footprint limits\<close>

definition PredicateFootprintV1 :: go_string where
  "PredicateFootprintV1 = ''taskgate-predicate-footprint-v1''"

definition MaxPredicateAtomsHardLimit :: int64 where
  "MaxPredicateAtomsHardLimit = 65536"

record PredicateFootprintLimitsV1 =
  pf_Version :: go_string
  pf_MaxRawLiteralsPerQuery :: int64
  pf_MaxUniqueAtomsPerQuery :: int64
  pf_MaxAtomPayloadBytes :: int64
  pf_MaxTotalAtomPayloadBytes :: int64

datatype budget_reason =
    max_queries_must_be_positive
  | max_rows_must_be_positive
  | max_db_time_must_be_positive
  | per_query_timeout_must_be_positive
  | per_query_timeout_exceeds_max_db_time
  | task_ttl_must_be_positive
  | exposure_limits_cannot_be_negative
  | release_and_influence_both
  | exposure_profile_version_is_required
  | exposure_profile_version_requires_limits
  | outcome_profile_requires_positive_outcome
  | outcome_limit_requires_outcome_profile
  | v5_requires_predicate_footprint
  | predicate_footprint_requires_v5
  | invalid_v5_predicate_footprint

datatype budget_error =
    ErrInvalidBudget budget_reason
  | ErrBudgetExpansion
  | ParentBudget budget_error

definition PredicateFootprint_Validate ::
  "PredicateFootprintLimitsV1 \<Rightarrow> budget_error option" where
  "PredicateFootprint_Validate p =
     (if pf_Version p \<noteq> PredicateFootprintV1 \<or> pf_MaxRawLiteralsPerQuery p \<le> 0 \<or>
         pf_MaxUniqueAtomsPerQuery p \<le> 0 \<or>
         pf_MaxUniqueAtomsPerQuery p > MaxPredicateAtomsHardLimit \<or>
         pf_MaxRawLiteralsPerQuery p < pf_MaxUniqueAtomsPerQuery p \<or>
         pf_MaxAtomPayloadBytes p \<le> 0 \<or>
         pf_MaxTotalAtomPayloadBytes p < pf_MaxAtomPayloadBytes p
      then Some (ErrInvalidBudget invalid_v5_predicate_footprint)
      else None)"

fun predicateFootprintWithin ::
  "PredicateFootprintLimitsV1 option \<Rightarrow> PredicateFootprintLimitsV1 option \<Rightarrow> bool" where
  "predicateFootprintWithin (Some child) (Some parent) \<longleftrightarrow>
     pf_Version child = pf_Version parent \<and>
     pf_MaxRawLiteralsPerQuery child \<le> pf_MaxRawLiteralsPerQuery parent \<and>
     pf_MaxUniqueAtomsPerQuery child \<le> pf_MaxUniqueAtomsPerQuery parent \<and>
     pf_MaxAtomPayloadBytes child \<le> pf_MaxAtomPayloadBytes parent \<and>
     pf_MaxTotalAtomPayloadBytes child \<le> pf_MaxTotalAtomPayloadBytes parent"
| "predicateFootprintWithin child parent \<longleftrightarrow> child = None \<and> parent = None"

subsection \<open>Budget\<close>

record Budget =
  b_MaxQueries :: int64
  b_MaxRows :: int64
  b_MaxDBTime :: int64
  b_PerQueryTimeout :: int64
  b_TaskTTL :: int64
  b_MaxReleaseFacts :: int64
  b_MaxInfluenceFacts :: int64
  b_MaxOutcomeFacts :: int64
  b_ExposureProfileVersion :: go_string
  b_PredicateFootprint :: "PredicateFootprintLimitsV1 option"

definition exposure_v3 :: go_string where "exposure_v3 = ''taskgate-exposure-v3''"
definition exposure_v4 :: go_string where "exposure_v4 = ''taskgate-exposure-v4''"
definition exposure_v5 :: go_string where "exposure_v5 = ''taskgate-exposure-v5''"

definition isOutcomeExposureProfile :: "go_string \<Rightarrow> bool" where
  "isOutcomeExposureProfile profile \<longleftrightarrow>
     profile = exposure_v3 \<or> profile = exposure_v4 \<or> profile = exposure_v5"

definition Budget_Validate :: "Budget \<Rightarrow> budget_error option" where
  "Budget_Validate b =
     (if b_MaxQueries b \<le> 0 then Some (ErrInvalidBudget max_queries_must_be_positive)
      else if b_MaxRows b \<le> 0 then Some (ErrInvalidBudget max_rows_must_be_positive)
      else if b_MaxDBTime b \<le> 0 then Some (ErrInvalidBudget max_db_time_must_be_positive)
      else if b_PerQueryTimeout b \<le> 0
      then Some (ErrInvalidBudget per_query_timeout_must_be_positive)
      else if b_PerQueryTimeout b > b_MaxDBTime b
      then Some (ErrInvalidBudget per_query_timeout_exceeds_max_db_time)
      else if b_TaskTTL b \<le> 0 then Some (ErrInvalidBudget task_ttl_must_be_positive)
      else if b_MaxReleaseFacts b < 0 \<or> b_MaxInfluenceFacts b < 0 \<or> b_MaxOutcomeFacts b < 0
      then Some (ErrInvalidBudget exposure_limits_cannot_be_negative)
      else if (b_MaxReleaseFacts b = 0) \<noteq> (b_MaxInfluenceFacts b = 0)
      then Some (ErrInvalidBudget release_and_influence_both)
      else if b_MaxReleaseFacts b > 0 \<and> blank (b_ExposureProfileVersion b)
      then Some (ErrInvalidBudget exposure_profile_version_is_required)
      else if b_MaxReleaseFacts b = 0 \<and> b_ExposureProfileVersion b \<noteq> []
      then Some (ErrInvalidBudget exposure_profile_version_requires_limits)
      else if isOutcomeExposureProfile (b_ExposureProfileVersion b) \<and> b_MaxOutcomeFacts b \<le> 0
      then Some (ErrInvalidBudget outcome_profile_requires_positive_outcome)
      else if \<not> isOutcomeExposureProfile (b_ExposureProfileVersion b) \<and> b_MaxOutcomeFacts b \<noteq> 0
      then Some (ErrInvalidBudget outcome_limit_requires_outcome_profile)
      else if b_ExposureProfileVersion b = exposure_v5 \<and> b_PredicateFootprint b = None
      then Some (ErrInvalidBudget v5_requires_predicate_footprint)
      else if b_ExposureProfileVersion b \<noteq> exposure_v5 \<and> b_PredicateFootprint b \<noteq> None
      then Some (ErrInvalidBudget predicate_footprint_requires_v5)
      else case b_PredicateFootprint b of
        None \<Rightarrow> None
      | Some p \<Rightarrow> PredicateFootprint_Validate p)"

definition Budget_Within :: "Budget \<Rightarrow> Budget \<Rightarrow> bool" where
  "Budget_Within b parent \<longleftrightarrow>
     b_MaxQueries b \<le> b_MaxQueries parent \<and>
     b_MaxRows b \<le> b_MaxRows parent \<and>
     b_MaxDBTime b \<le> b_MaxDBTime parent \<and>
     b_PerQueryTimeout b \<le> b_PerQueryTimeout parent \<and>
     b_TaskTTL b \<le> b_TaskTTL parent \<and>
     b_MaxReleaseFacts b \<le> b_MaxReleaseFacts parent \<and>
     b_MaxInfluenceFacts b \<le> b_MaxInfluenceFacts parent \<and>
     b_MaxOutcomeFacts b \<le> b_MaxOutcomeFacts parent \<and>
     b_ExposureProfileVersion b = b_ExposureProfileVersion parent \<and>
     predicateFootprintWithin (b_PredicateFootprint b) (b_PredicateFootprint parent)"

definition Budget_EnsureWithin :: "Budget \<Rightarrow> Budget \<Rightarrow> budget_error option" where
  "Budget_EnsureWithin b parent =
     (case Budget_Validate b of
        Some e \<Rightarrow> Some e
      | None \<Rightarrow>
          (case Budget_Validate parent of
             Some e \<Rightarrow> Some (ParentBudget e)
           | None \<Rightarrow> if \<not> Budget_Within b parent then Some ErrBudgetExpansion else None))"

subsection \<open>AuthorizationBudgetV1\<close>

record AuthorizationBudgetV1 =
  ab_MaxQueries :: int64
  ab_MaxResultRows :: int64
  ab_MaxDBMS :: int64
  ab_PerQueryTimeoutMS :: int64
  ab_TaskTTLMS :: int64
  ab_MaxReleaseFacts :: int64
  ab_MaxInfluenceFacts :: int64
  ab_MaxOutcomeFacts :: int64
  ab_ExposureProfileVersion :: go_string
  ab_PredicateFootprint :: "PredicateFootprintLimitsV1 option"

datatype authorization_budget_error =
    limits_must_be_positive
  | timeout_exceeds_max_db
  | release_and_influence_limits
  | profile_required
  | profile_requires_limits
  | outcome_must_be_positive
  | outcome_requires_profile
  | v5_requires_footprint
  | footprint_requires_v5
  | invalid_footprint budget_error
  | exceeds_interoperable_range
  | parent_budget authorization_budget_error
  | exceeds_parent

text \<open>\<open>int64(^uint64(0)>>1) / int64(time.Millisecond)\<close> and \<open>int64(1<<53 - 1)\<close>.\<close>

definition maxDurationMilliseconds :: int64 where
  "maxDurationMilliseconds = int64_max div 1000000"

definition maxSafeJSONInteger :: int64 where
  "maxSafeJSONInteger = 2 ^ 53 - 1"

definition AuthorizationBudgetV1_Validate ::
  "AuthorizationBudgetV1 \<Rightarrow> authorization_budget_error option" where
  "AuthorizationBudgetV1_Validate b =
     (if ab_MaxQueries b \<le> 0 \<or> ab_MaxResultRows b \<le> 0 \<or> ab_MaxDBMS b \<le> 0 \<or>
         ab_PerQueryTimeoutMS b \<le> 0 \<or> ab_TaskTTLMS b \<le> 0
      then Some limits_must_be_positive
      else if ab_PerQueryTimeoutMS b > ab_MaxDBMS b then Some timeout_exceeds_max_db
      else if ab_MaxReleaseFacts b < 0 \<or> ab_MaxInfluenceFacts b < 0 \<or> ab_MaxOutcomeFacts b < 0 \<or>
         (ab_MaxReleaseFacts b = 0) \<noteq> (ab_MaxInfluenceFacts b = 0)
      then Some release_and_influence_limits
      else if ab_MaxReleaseFacts b > 0 \<and> blank (ab_ExposureProfileVersion b)
      then Some profile_required
      else if ab_MaxReleaseFacts b = 0 \<and> ab_ExposureProfileVersion b \<noteq> []
      then Some profile_requires_limits
      else if isOutcomeExposureProfile (ab_ExposureProfileVersion b) \<and> ab_MaxOutcomeFacts b \<le> 0
      then Some outcome_must_be_positive
      else if \<not> isOutcomeExposureProfile (ab_ExposureProfileVersion b) \<and> ab_MaxOutcomeFacts b \<noteq> 0
      then Some outcome_requires_profile
      else if ab_ExposureProfileVersion b = exposure_v5 \<and> ab_PredicateFootprint b = None
      then Some v5_requires_footprint
      else if ab_ExposureProfileVersion b \<noteq> exposure_v5 \<and> ab_PredicateFootprint b \<noteq> None
      then Some footprint_requires_v5
      else case (case ab_PredicateFootprint b of
                   None \<Rightarrow> None
                 | Some p \<Rightarrow> PredicateFootprint_Validate p) of
        Some e \<Rightarrow> Some (invalid_footprint e)
      | None \<Rightarrow>
          if ab_MaxQueries b > maxSafeJSONInteger \<or> ab_MaxResultRows b > maxSafeJSONInteger \<or>
             ab_MaxReleaseFacts b > maxSafeJSONInteger \<or>
             ab_MaxInfluenceFacts b > maxSafeJSONInteger \<or>
             ab_MaxOutcomeFacts b > maxSafeJSONInteger \<or>
             ab_MaxDBMS b > maxDurationMilliseconds \<or>
             ab_PerQueryTimeoutMS b > maxDurationMilliseconds \<or>
             ab_TaskTTLMS b > maxDurationMilliseconds
          then Some exceeds_interoperable_range
          else None)"

definition AuthorizationBudgetV1_EnsureWithin ::
  "AuthorizationBudgetV1 \<Rightarrow> AuthorizationBudgetV1 \<Rightarrow> authorization_budget_error option" where
  "AuthorizationBudgetV1_EnsureWithin b parent =
     (case AuthorizationBudgetV1_Validate b of
        Some e \<Rightarrow> Some e
      | None \<Rightarrow>
          (case AuthorizationBudgetV1_Validate parent of
             Some e \<Rightarrow> Some (parent_budget e)
           | None \<Rightarrow>
               if ab_MaxQueries b > ab_MaxQueries parent \<or>
                  ab_MaxResultRows b > ab_MaxResultRows parent \<or>
                  ab_MaxDBMS b > ab_MaxDBMS parent \<or>
                  ab_PerQueryTimeoutMS b > ab_PerQueryTimeoutMS parent \<or>
                  ab_TaskTTLMS b > ab_TaskTTLMS parent \<or>
                  ab_MaxReleaseFacts b > ab_MaxReleaseFacts parent \<or>
                  ab_MaxInfluenceFacts b > ab_MaxInfluenceFacts parent \<or>
                  ab_MaxOutcomeFacts b > ab_MaxOutcomeFacts parent \<or>
                  ab_ExposureProfileVersion b \<noteq> ab_ExposureProfileVersion parent \<or>
                  \<not> predicateFootprintWithin (ab_PredicateFootprint b)
                      (ab_PredicateFootprint parent)
               then Some exceeds_parent
               else None))"

section \<open>Lemmas\<close>

lemma predicateFootprintWithin_refl [simp]: "predicateFootprintWithin p p"
  by (cases p) auto

lemma predicateFootprintWithin_trans:
  "predicateFootprintWithin a b \<Longrightarrow> predicateFootprintWithin b c \<Longrightarrow> predicateFootprintWithin a c"
  by (cases a; cases b; cases c) auto

lemma predicateFootprintWithin_antisym:
  "predicateFootprintWithin a b \<Longrightarrow> predicateFootprintWithin b a \<Longrightarrow> a = b"
  by (cases a; cases b) (auto intro!: PredicateFootprintLimitsV1.equality)

lemma Budget_Within_trans: "Budget_Within a b \<Longrightarrow> Budget_Within b c \<Longrightarrow> Budget_Within a c"
  by (auto simp: Budget_Within_def intro: predicateFootprintWithin_trans)

lemma Budget_EnsureWithin_None [validate_simps]:
  "Budget_EnsureWithin b p = None \<longleftrightarrow>
     Budget_Validate b = None \<and> Budget_Validate p = None \<and> Budget_Within b p"
  by (simp add: Budget_EnsureWithin_def no_error)

text \<open>The order on authorization budgets that \<open>EnsureWithin\<close> decides.\<close>

definition authorization_budget_le :: "AuthorizationBudgetV1 \<Rightarrow> AuthorizationBudgetV1 \<Rightarrow> bool" where
  "authorization_budget_le b p \<longleftrightarrow>
     ab_MaxQueries b \<le> ab_MaxQueries p \<and> ab_MaxResultRows b \<le> ab_MaxResultRows p \<and>
     ab_MaxDBMS b \<le> ab_MaxDBMS p \<and> ab_PerQueryTimeoutMS b \<le> ab_PerQueryTimeoutMS p \<and>
     ab_TaskTTLMS b \<le> ab_TaskTTLMS p \<and> ab_MaxReleaseFacts b \<le> ab_MaxReleaseFacts p \<and>
     ab_MaxInfluenceFacts b \<le> ab_MaxInfluenceFacts p \<and>
     ab_MaxOutcomeFacts b \<le> ab_MaxOutcomeFacts p \<and>
     ab_ExposureProfileVersion b = ab_ExposureProfileVersion p \<and>
     predicateFootprintWithin (ab_PredicateFootprint b) (ab_PredicateFootprint p)"

lemma authorization_budget_le_refl [simp]: "authorization_budget_le b b"
  by (simp add: authorization_budget_le_def)

lemma authorization_budget_le_trans:
  "authorization_budget_le a b \<Longrightarrow> authorization_budget_le b c \<Longrightarrow> authorization_budget_le a c"
  by (auto simp: authorization_budget_le_def intro: predicateFootprintWithin_trans)

lemma authorization_budget_le_antisym:
  "authorization_budget_le a b \<Longrightarrow> authorization_budget_le b a \<Longrightarrow> a = b"
  unfolding authorization_budget_le_def
  by (intro AuthorizationBudgetV1.equality) (auto dest: predicateFootprintWithin_antisym)

lemma AuthorizationBudgetV1_EnsureWithin_None [validate_simps]:
  "AuthorizationBudgetV1_EnsureWithin b p = None \<longleftrightarrow>
     AuthorizationBudgetV1_Validate b = None \<and> AuthorizationBudgetV1_Validate p = None \<and>
     authorization_budget_le b p"
  by (auto simp: AuthorizationBudgetV1_EnsureWithin_def authorization_budget_le_def no_error not_less)

interpretation budget_narrowing: attenuation "\<lambda>parent b. AuthorizationBudgetV1_EnsureWithin b parent"
  "\<lambda>_. True" authorization_budget_le
  by unfold_locales (auto simp: validate_simps intro: authorization_budget_le_trans)

lemma authorization_budget_ttl:
  "AuthorizationBudgetV1_Validate b = None \<Longrightarrow>
   0 < ab_TaskTTLMS b \<and> ab_TaskTTLMS b \<le> maxDurationMilliseconds"
  by (simp add: AuthorizationBudgetV1_Validate_def no_error)

lemma authorization_budget_bounds:
  assumes "AuthorizationBudgetV1_Validate b = None"
  shows "ab_MaxReleaseFacts b < 2 ^ 53" and "ab_MaxInfluenceFacts b < 2 ^ 53"
    and "ab_MaxOutcomeFacts b < 2 ^ 53" and "ab_MaxQueries b < 2 ^ 53"
    and "0 \<le> ab_MaxReleaseFacts b" and "0 \<le> ab_MaxInfluenceFacts b"
    and "0 \<le> ab_MaxOutcomeFacts b" and "0 < ab_MaxQueries b"
  using assms
  by (simp_all add: AuthorizationBudgetV1_Validate_def no_error maxSafeJSONInteger_def)

lemma millisecond_duration_in_range:
  "0 \<le> ms \<Longrightarrow> ms \<le> maxDurationMilliseconds \<Longrightarrow> in_int64 (ms * 1000000)"
  by (simp add: maxDurationMilliseconds_def int64_max_def in_int64_def)

section \<open>Properties\<close>

text \<open>
  \<open>EnsureWithin\<close> accepts an authorization budget exactly when both budgets are valid
  and no limit of the first exceeds the same limit of the parent; the relation it decides is a
  partial order, so that a chain of narrowed budgets stays within its first member and two budgets
  within each other are equal.
\<close>

theorem AuthorizationBudgetV1_EnsureWithin_order:
  "(AuthorizationBudgetV1_EnsureWithin a b = None \<longleftrightarrow>
      AuthorizationBudgetV1_Validate a = None \<and> AuthorizationBudgetV1_Validate b = None \<and>
      authorization_budget_le a b) \<and>
   (AuthorizationBudgetV1_EnsureWithin a b = None \<and> AuthorizationBudgetV1_EnsureWithin b c = None \<longrightarrow>
      AuthorizationBudgetV1_EnsureWithin a c = None) \<and>
   (AuthorizationBudgetV1_EnsureWithin a b = None \<and> AuthorizationBudgetV1_EnsureWithin b a = None \<longrightarrow>
      a = b)"
  by (auto simp: validate_simps intro: authorization_budget_le_trans authorization_budget_le_antisym)

definition sample_authorization_budget :: "int \<Rightarrow> AuthorizationBudgetV1" where
  "sample_authorization_budget n = \<lparr>ab_MaxQueries = n, ab_MaxResultRows = 10, ab_MaxDBMS = 9,
     ab_PerQueryTimeoutMS = 3, ab_TaskTTLMS = 7, ab_MaxReleaseFacts = 4, ab_MaxInfluenceFacts = 6,
     ab_MaxOutcomeFacts = 2, ab_ExposureProfileVersion = exposure_v4, ab_PredicateFootprint = None\<rparr>"

theorem AuthorizationBudgetV1_EnsureWithin_order_witness:
  "AuthorizationBudgetV1_EnsureWithin (sample_authorization_budget 3) (sample_authorization_budget 4) = None \<and>
   AuthorizationBudgetV1_EnsureWithin (sample_authorization_budget 3) (sample_authorization_budget 5) = None"
proof -
  have "AuthorizationBudgetV1_EnsureWithin (sample_authorization_budget 3) (sample_authorization_budget 4) = None"
    and "AuthorizationBudgetV1_EnsureWithin (sample_authorization_budget 4) (sample_authorization_budget 5) = None"
    by code_simp+
  then show ?thesis
    using AuthorizationBudgetV1_EnsureWithin_order [of "sample_authorization_budget 3"
        "sample_authorization_budget 4" "sample_authorization_budget 5"] by blast
qed

end
