(* ===== verification/Domain_Scope.thy ===== *)
theory Domain_Scope
  imports Prelude
begin

text \<open>
  The scope values of \<open>internal/domain/authorization.go\<close> and the checks that a candidate
  scope is no wider than its parent (lines 437-659), with the duplicate search of
  \<open>grant.go\<close>. A scope value has the Go type \<open>any\<close>: the dynamic types the code
  switches on are the constructors of \<open>any_value\<close>; every other dynamic value is an opaque
  token under \<open>AnyOther\<close>, compared by equality as \<open>reflect.DeepEqual\<close> does.

  The meaning of a scope value is the set of column values it admits; the main lemma is that
  an accepted candidate admits no value its parent does not.
\<close>

section \<open>Definitions\<close>

datatype any_value =
    AnyString go_string
  | AnyStrings "go_string list"
  | AnyList "any_value list"
  | AnyStringMap "(go_string, go_string) go_map"
  | AnyMap "(go_string \<times> any_value) list"
  | AnyOther go_string

type_synonym scope_map = "(go_string, any_value) go_map"

definition contains :: "go_string list \<Rightarrow> go_string \<Rightarrow> bool" where
  "contains values target \<longleftrightarrow> list_ex (\<lambda>value. value = target) values"

fun adjacent_duplicate :: "go_string list \<Rightarrow> go_string" where
  "adjacent_duplicate (x # y # zs) = (if y = x then y else adjacent_duplicate (y # zs))"
| "adjacent_duplicate _ = []"

text \<open>The empty string says that there is no duplicate.\<close>

definition firstDuplicate :: "go_string list \<Rightarrow> go_string" where
  "firstDuplicate values = adjacent_duplicate (sort values)"

fun uniqueNonempty_loop :: "go_string list \<Rightarrow> go_string list \<Rightarrow> bool" where
  "uniqueNonempty_loop seen [] = True"
| "uniqueNonempty_loop seen (value # values) =
     (if value = [] then False
      else if value \<in> set seen then False
      else uniqueNonempty_loop (value # seen) values)"

definition uniqueNonemptyStrings :: "go_string list \<Rightarrow> bool" where
  "uniqueNonemptyStrings values = (if values = [] then False else uniqueNonempty_loop [] values)"

definition from_key :: go_string where "from_key = ''from''"
definition to_key :: go_string where "to_key = ''to''"

definition validRangeMap :: "(go_string, go_string) go_map \<Rightarrow> bool" where
  "validRangeMap values =
     (if values = [] then False
      else if list_ex (\<lambda>(name, value). (name \<noteq> from_key \<and> name \<noteq> to_key) \<or> value = []) values
      then False
      else case (map_of values from_key, map_of values to_key) of
        (Some lower, Some upper) \<Rightarrow> lower \<le> upper
      | _ \<Rightarrow> True)"

fun anyStrings :: "any_value list \<Rightarrow> go_string list option" where
  "anyStrings [] = Some []"
| "anyStrings (AnyString text # values) =
     (case anyStrings values of None \<Rightarrow> None | Some result \<Rightarrow> Some (text # result))"
| "anyStrings (_ # values) = None"

fun any_string_map ::
  "(go_string \<times> any_value) list \<Rightarrow> (go_string, go_string) go_map option" where
  "any_string_map [] = Some []"
| "any_string_map ((name, AnyString text) # m) =
     (case any_string_map m of None \<Rightarrow> None | Some result \<Rightarrow> Some ((name, text) # result))"
| "any_string_map (_ # m) = None"

fun validAuthorizationScopeValue :: "any_value \<Rightarrow> bool" where
  "validAuthorizationScopeValue (AnyString s) = (s \<noteq> [])"
| "validAuthorizationScopeValue (AnyStrings ss) = uniqueNonemptyStrings ss"
| "validAuthorizationScopeValue (AnyList vs) =
     (case anyStrings vs of None \<Rightarrow> False | Some ss \<Rightarrow> uniqueNonemptyStrings ss)"
| "validAuthorizationScopeValue (AnyStringMap m) = validRangeMap m"
| "validAuthorizationScopeValue (AnyMap m) =
     (case any_string_map m of None \<Rightarrow> False | Some r \<Rightarrow> validRangeMap r)"
| "validAuthorizationScopeValue (AnyOther _) = False"

fun scopeStrings :: "any_value \<Rightarrow> go_string list option" where
  "scopeStrings (AnyStrings ss) = Some ss"
| "scopeStrings (AnyList vs) = anyStrings vs"
| "scopeStrings _ = None"

text \<open>\<open>scopeRange\<close> returns the range together with whether it is valid.\<close>

fun scopeRange :: "any_value \<Rightarrow> (go_string, go_string) go_map \<times> bool" where
  "scopeRange (AnyStringMap m) = (m, validRangeMap m)"
| "scopeRange (AnyMap m) =
     (case any_string_map m of None \<Rightarrow> ([], False) | Some r \<Rightarrow> (r, validRangeMap r))"
| "scopeRange _ = ([], False)"

text \<open>
  \<open>reflect.DeepEqual\<close> on the modelled dynamic types: same type, slices elementwise, maps by
  their entries.
\<close>

function deepEqual :: "any_value \<Rightarrow> any_value \<Rightarrow> bool" where
  "deepEqual (AnyString a) v = (v = AnyString a)"
| "deepEqual (AnyStrings a) v = (v = AnyStrings a)"
| "deepEqual (AnyOther a) v = (v = AnyOther a)"
| "deepEqual (AnyList xs) v =
     (case v of
        AnyList ys \<Rightarrow> length xs = length ys \<and> list_all (\<lambda>(x, y). deepEqual x y) (zip xs ys)
      | _ \<Rightarrow> False)"
| "deepEqual (AnyStringMap m) v =
     (case v of
        AnyStringMap n \<Rightarrow> length m = length n \<and> list_all (\<lambda>(k, a). map_of n k = Some a) m
      | _ \<Rightarrow> False)"
| "deepEqual (AnyMap m) v =
     (case v of
        AnyMap n \<Rightarrow> length m = length n \<and>
          list_all (\<lambda>(k, a). case map_of n k of None \<Rightarrow> False | Some b \<Rightarrow> deepEqual a b) m
      | _ \<Rightarrow> False)"
  by pat_completeness auto
termination
proof (relation "measure (\<lambda>(v, w). size v)")
  fix xs :: "any_value list" and v ys z x y
  assume "z \<in> set (zip xs ys)" and "(x, y) = z"
  then have "x \<in> set xs" by (metis set_zip_leftD)
  then show "((x, y), AnyList xs, v) \<in> measure (\<lambda>(v, w). size v)"
    by (induction xs) auto
next
  fix m :: "(go_string \<times> any_value) list" and v n z k a b
  assume "z \<in> set m" and "(k, a) = z"
  then show "((a, b), AnyMap m, v) \<in> measure (\<lambda>(v, w). size v)"
    by (induction m) auto
qed simp

definition range_bound_narrower ::
  "(go_string, go_string) go_map \<Rightarrow> go_string \<times> go_string \<Rightarrow> bool" where
  "range_bound_narrower candidateRange entry =
     (case entry of (key, parentBound) \<Rightarrow>
        (case map_of candidateRange key of
           None \<Rightarrow> False
         | Some candidateBound \<Rightarrow>
             if key = from_key \<and> candidateBound < parentBound then False
             else if key = to_key \<and> candidateBound > parentBound then False
             else True))"

definition scopeValueNarrower :: "any_value \<Rightarrow> any_value \<Rightarrow> bool" where
  "scopeValueNarrower parent candidate =
     (case parent of
        AnyString parentText \<Rightarrow>
          (case candidate of AnyString candidateText \<Rightarrow> candidateText = parentText | _ \<Rightarrow> False)
      | _ \<Rightarrow>
        (case scopeStrings parent of
           Some parentValues \<Rightarrow>
             (case scopeStrings candidate of
                None \<Rightarrow> False
              | Some candidateValues \<Rightarrow>
                  if candidateValues = [] then False
                  else list_all (\<lambda>value. value \<in> set parentValues) candidateValues)
         | None \<Rightarrow>
             (case scopeRange parent of
                (_, False) \<Rightarrow> deepEqual parent candidate
              | (parentRange, True) \<Rightarrow>
                  (case scopeRange candidate of
                     (_, False) \<Rightarrow> False
                   | (candidateRange, True) \<Rightarrow>
                       if list_all (range_bound_narrower candidateRange) parentRange
                       then validRangeMap candidateRange
                       else False))))"

definition scopeMapNarrower :: "scope_map \<Rightarrow> scope_map \<Rightarrow> bool" where
  "scopeMapNarrower parent candidate =
     (if length parent \<noteq> length candidate then False
      else list_all
        (\<lambda>(name, parentValue).
           case map_of candidate name of
             None \<Rightarrow> False
           | Some candidateValue \<Rightarrow> scopeValueNarrower parentValue candidateValue)
        parent)"

text \<open>
  A copy of a scope has new backing stores and the same contents; without aliasing it is the
  identity.
\<close>

definition cloneAuthorizationScope :: "scope_map \<Rightarrow> scope_map" where
  "cloneAuthorizationScope source = map (\<lambda>(name, value). (name, value)) source"

subsection \<open>The meaning of a scope\<close>

definition in_range :: "(go_string, go_string) go_map \<Rightarrow> go_string \<Rightarrow> bool" where
  "in_range r x \<longleftrightarrow>
     (\<forall>b. map_of r from_key = Some b \<longrightarrow> b \<le> x) \<and> (\<forall>b. map_of r to_key = Some b \<longrightarrow> x \<le> b)"

text \<open>The column values a scope value admits.\<close>

fun admits :: "any_value \<Rightarrow> go_string set" where
  "admits (AnyString s) = {s}"
| "admits (AnyStrings ss) = set ss"
| "admits (AnyList vs) = (case anyStrings vs of None \<Rightarrow> {} | Some ss \<Rightarrow> set ss)"
| "admits (AnyStringMap m) = {x. in_range m x}"
| "admits (AnyMap m) = (case any_string_map m of None \<Rightarrow> {} | Some r \<Rightarrow> {x. in_range r x})"
| "admits (AnyOther _) = {}"

text \<open>
  A scope map admits a row, given by the value it has in each scoped column, when every scope
  entry admits the value of its column.
\<close>

definition scope_admits :: "scope_map \<Rightarrow> (go_string \<Rightarrow> go_string) \<Rightarrow> bool" where
  "scope_admits scope row \<longleftrightarrow> (\<forall>(name, v) \<in> set scope. row name \<in> admits v)"

definition scope_valid :: "scope_map \<Rightarrow> bool" where
  "scope_valid scope \<longleftrightarrow>
     go_map_ok scope \<and> (\<forall>(name, v) \<in> set scope. validAuthorizationScopeValue v)"

section \<open>Lemmas\<close>

subsection \<open>Duplicates\<close>

lemma contains_iff [simp]: "contains xs x \<longleftrightarrow> x \<in> set xs"
  by (auto simp: contains_def list_ex_iff)

lemma adjacent_duplicate_sorted:
  "sorted xs \<Longrightarrow> [] \<notin> set xs \<Longrightarrow> adjacent_duplicate xs = [] \<longleftrightarrow> distinct xs"
  by (induction xs rule: adjacent_duplicate.induct) auto

lemma firstDuplicate_distinct:
  "[] \<notin> set xs \<Longrightarrow> firstDuplicate xs = [] \<longleftrightarrow> distinct xs"
  by (simp add: firstDuplicate_def adjacent_duplicate_sorted)

lemma uniqueNonempty_loop_iff:
  "uniqueNonempty_loop seen xs \<longleftrightarrow>
   [] \<notin> set xs \<and> distinct xs \<and> set xs \<inter> set seen = {}"
  by (induction seen xs rule: uniqueNonempty_loop.induct) auto

lemma uniqueNonemptyStrings_iff [simp]:
  "uniqueNonemptyStrings xs \<longleftrightarrow> xs \<noteq> [] \<and> [] \<notin> set xs \<and> distinct xs"
  by (simp add: uniqueNonemptyStrings_def uniqueNonempty_loop_iff)

subsection \<open>Narrowing of scope values\<close>

lemma validRangeMap_key:
  assumes "validRangeMap m" and "(k, b) \<in> set m"
  shows "k = from_key \<or> k = to_key"
  using assms by (fastforce simp: validRangeMap_def list_ex_iff split: if_splits)

lemma range_narrower_sound:
  assumes "list_all (range_bound_narrower c) p" and "in_range c x"
  shows "in_range p x"
proof -
  have bound: "\<exists>b'. map_of c k = Some b' \<and> (k = from_key \<longrightarrow> b \<le> b') \<and> (k = to_key \<longrightarrow> b' \<le> b)"
    if "map_of p k = Some b" for k b
    using assms(1) map_of_SomeD [OF that]
    by (fastforce simp: list_all_iff range_bound_narrower_def not_less
        split: option.splits if_splits)
  show ?thesis
    unfolding in_range_def
  proof (intro conjI allI impI)
    fix b
    assume "map_of p from_key = Some b"
    from bound [OF this] assms(2) show "b \<le> x"
      by (auto simp: in_range_def)
  next
    fix b
    assume "map_of p to_key = Some b"
    from bound [OF this] assms(2) show "x \<le> b"
      by (auto simp: in_range_def)
  qed
qed

text \<open>The three kinds of valid scope values, by the two readings the code makes of them.\<close>

lemma valid_scope_cases:
  assumes "validAuthorizationScopeValue v"
  obtains (single) s where "v = AnyString s" "s \<noteq> []"
    | (strings) ss where "scopeStrings v = Some ss" "\<And>s. v \<noteq> AnyString s"
        "uniqueNonemptyStrings ss" "admits v = set ss"
    | (range) r where "scopeStrings v = None" "\<And>s. v \<noteq> AnyString s"
        "scopeRange v = (r, True)" "validRangeMap r" "admits v = {x. in_range r x}"
  using assms by (cases v) (auto split: option.splits)

lemma scopeValueNarrower_sound:
  assumes "validAuthorizationScopeValue p" and "scopeValueNarrower p c"
  shows "admits c \<subseteq> admits p"
  using assms(1)
proof (cases rule: valid_scope_cases)
  case (single s)
  with assms(2) show ?thesis
    by (auto simp: scopeValueNarrower_def split: any_value.splits)
next
  case (strings ss)
  with assms(2) obtain cs where "scopeStrings c = Some cs" and "set cs \<subseteq> set ss"
    by (auto simp: scopeValueNarrower_def list_all_iff
        split: any_value.splits option.splits if_splits)
  moreover from this(1) have "admits c = set cs"
    by (cases c) auto
  ultimately show ?thesis using strings by simp
next
  case (range r)
  with assms(2) obtain cr where cr: "scopeRange c = (cr, True)"
    and "list_all (range_bound_narrower cr) r"
    by (auto simp: scopeValueNarrower_def
        split: any_value.splits option.splits if_splits prod.splits bool.splits)
  moreover from cr have "admits c = {x. in_range cr x}"
    by (cases c) (auto split: option.splits)
  ultimately show ?thesis using range by (auto intro: range_narrower_sound)
qed

lemma scopeValueNarrower_refl:
  assumes "validAuthorizationScopeValue v" and "\<And>m. v = AnyStringMap m \<Longrightarrow> go_map_ok m"
    and "\<And>m. v = AnyMap m \<Longrightarrow> go_map_ok m"
  shows "scopeValueNarrower v v"
  using assms(1)
proof (cases rule: valid_scope_cases)
  case (single s)
  then show ?thesis by (simp add: scopeValueNarrower_def)
next
  case (strings ss)
  then show ?thesis
    by (auto simp: scopeValueNarrower_def list_all_iff split: any_value.splits option.splits)
next
  case (range r)
  have keys: "any_string_map m = Some r \<Longrightarrow> map fst r = map fst m" for m
    by (induction m arbitrary: r rule: any_string_map.induct) (auto split: option.splits)
  have "go_map_ok r"
    using range assms(2,3) keys by (cases v) (auto split: option.splits)
  then have "list_all (range_bound_narrower r) r"
    by (auto simp: list_all_iff range_bound_narrower_def map_of_is_SomeI)
  with range show ?thesis
    by (auto simp: scopeValueNarrower_def split: any_value.splits)
qed

subsection \<open>Narrowing of scope maps\<close>

lemma scopeMapNarrower_entry:
  "scopeMapNarrower p c \<Longrightarrow> (name, v) \<in> set p \<Longrightarrow>
   \<exists>w. map_of c name = Some w \<and> scopeValueNarrower v w"
  by (fastforce simp: scopeMapNarrower_def list_all_iff split: if_splits option.splits)

text \<open>The keys of a narrower map are the keys of its parent: none is dropped and none is added.\<close>

lemma scopeMapNarrower_keys:
  assumes "scopeMapNarrower p c" and "go_map_ok p" and "go_map_ok c"
  shows "fst ` set c = fst ` set p"
proof -
  have "fst ` set p \<subseteq> fst ` set c"
    using scopeMapNarrower_entry [OF assms(1)] by (force dest: map_of_SomeD)
  moreover have "card (fst ` set p) = card (fst ` set c)"
    using assms(1) distinct_card [OF assms(2)] distinct_card [OF assms(3)]
    by (simp add: scopeMapNarrower_def split: if_splits)
  ultimately show ?thesis by (metis card_subset_eq finite_imageI finite_set)
qed

lemma scopeMapNarrower_sound:
  assumes "scope_valid p" and "go_map_ok c" and "scopeMapNarrower p c" and "scope_admits c row"
  shows "scope_admits p row"
  unfolding scope_admits_def
proof (intro ballI, clarify)
  fix name v
  assume v: "(name, v) \<in> set p"
  from scopeMapNarrower_entry [OF assms(3) v] obtain w
    where w: "map_of c name = Some w" and nar: "scopeValueNarrower v w" by blast
  have "row name \<in> admits w"
    using assms(4) map_of_SomeD [OF w] by (auto simp: scope_admits_def)
  moreover have "admits w \<subseteq> admits v"
    using assms(1) v nar scopeValueNarrower_sound [of v w] by (auto simp: scope_valid_def)
  ultimately show "row name \<in> admits v" by blast
qed

lemma cloneAuthorizationScope_id [simp]: "cloneAuthorizationScope s = s"
  by (simp add: cloneAuthorizationScope_def case_prod_unfold)

section \<open>Properties\<close>

text \<open>
  C14: an accepted scope map is semantically narrower. If the parent scope is valid and
  \<open>scopeMapNarrower\<close> accepts the candidate, then the candidate constrains exactly the same
  scope keys, and every row the candidate admits is admitted by the parent.
\<close>

theorem scopeMapNarrower_semantics:
  assumes "scope_valid p" and "go_map_ok c" and "scopeMapNarrower p c"
  shows "fst ` set c = fst ` set p \<and> (\<forall>row. scope_admits c row \<longrightarrow> scope_admits p row)"
proof
  show "fst ` set c = fst ` set p"
    using assms by (intro scopeMapNarrower_keys) (auto simp: scope_valid_def)
  show "\<forall>row. scope_admits c row \<longrightarrow> scope_admits p row"
    using scopeMapNarrower_sound [OF assms] by blast
qed

theorem scopeMapNarrower_semantics_witness:
  "scopeMapNarrower
     [(''day'', AnyStringMap [(''from'', ''2024-01'')]), (''region'', AnyStrings [''eu'', ''us''])]
     [(''region'', AnyStrings [''us'']),
      (''day'', AnyMap [(''to'', AnyString ''2024-09''), (''from'', AnyString ''2024-03'')])] \<and>
   scope_admits
     [(''region'', AnyStrings [''us'']),
      (''day'', AnyMap [(''to'', AnyString ''2024-09''), (''from'', AnyString ''2024-03'')])]
     (\<lambda>name. if name = ''day'' then ''2024-05'' else ''us'') \<and>
   scope_admits
     [(''day'', AnyStringMap [(''from'', ''2024-01'')]), (''region'', AnyStrings [''eu'', ''us''])]
     (\<lambda>name. if name = ''day'' then ''2024-05'' else ''us'')"
  (is "scopeMapNarrower ?p ?c \<and> scope_admits ?c ?row \<and> _")
proof -
  have valid: "scope_valid ?p"
    by (simp add: scope_valid_def validRangeMap_def from_key_def to_key_def)
  have nar: "scopeMapNarrower ?p ?c"
    by code_simp
  have row: "scope_admits ?c ?row"
    by (simp add: scope_admits_def in_range_def from_key_def to_key_def)
  have "scope_admits ?p ?row"
    using scopeMapNarrower_semantics [OF valid _ nar] row by simp
  with nar row show ?thesis by blast
qed

end
