(* ===== verification/Domain_Authorization.thy ===== *)
theory Domain_Authorization
  imports Domain_Task Domain_Budget Domain_Scope
begin

text \<open>
  The signed authorization objects of \<open>internal/domain/authorization.go\<close> and the legacy
  grant of \<open>grant.go\<close>: the manifest a gateway submits, the grant core the approver selects,
  the approval receipt, the grant that binds the two, their validation, and the two checks that
  keep a derived authorization inside the one it is derived from (\<open>CheckNarrowing\<close>,
  \<open>CheckDelegation\<close>).

  A delegation chain is a sequence of cores each of which passed \<open>CheckDelegation\<close> against
  its predecessor; the invariants of chains are proved by rule induction.
\<close>

section \<open>Definitions\<close>

subsection \<open>Digests\<close>

definition hex_rune :: "char \<Rightarrow> bool" where
  "hex_rune c \<longleftrightarrow> (c \<ge> CHR ''0'' \<and> c \<le> CHR ''9'') \<or> (c \<ge> CHR ''a'' \<and> c \<le> CHR ''f'')"

definition isSHA256Hex :: "go_string \<Rightarrow> bool" where
  "isSHA256Hex value = (if length value \<noteq> 64 then False else list_all hex_rune value)"

definition isLowerHex :: "go_string \<Rightarrow> bool" where
  "isLowerHex value = (if list_all hex_rune value then value \<noteq> [] else False)"

subsection \<open>The authorization envelope\<close>

type_synonym column_map = "(go_string, go_string list) go_map"

datatype envelope_error =
    no_product
  | duplicate_product go_string
  | product_empty
  | columns_missing go_string
  | duplicate_column go_string go_string
  | column_empty go_string
  | columns_for_unapproved go_string
  | scope_required
  | scope_invalid go_string

text \<open>\<open>columns[product]\<close> on a missing key is the nil slice.\<close>

definition columns_at :: "column_map \<Rightarrow> go_string \<Rightarrow> go_string list" where
  "columns_at columns product = (case map_of columns product of None \<Rightarrow> [] | Some cs \<Rightarrow> cs)"

definition envelope_product :: "column_map \<Rightarrow> go_string \<Rightarrow> envelope_error option" where
  "envelope_product columns product =
     (if blank product then Some product_empty
      else case map_of columns product of
        None \<Rightarrow> Some (columns_missing product)
      | Some values \<Rightarrow>
          if length values = 0 then Some (columns_missing product)
          else if firstDuplicate values \<noteq> []
          then Some (duplicate_column product (firstDuplicate values))
          else first_error
            (\<lambda>column. if blank column then Some (column_empty product) else None) values)"

definition validateAuthorizationEnvelope ::
  "go_string list \<Rightarrow> column_map \<Rightarrow> scope_map \<Rightarrow> envelope_error option" where
  "validateAuthorizationEnvelope products columns scope =
     (if length products = 0 then Some no_product
      else if firstDuplicate products \<noteq> [] then Some (duplicate_product (firstDuplicate products))
      else case first_error (envelope_product columns) products of
        Some e \<Rightarrow> Some e
      | None \<Rightarrow>
          (case first_error
              (\<lambda>(product, _).
                 if \<not> contains products product then Some (columns_for_unapproved product)
                 else None) columns of
             Some e \<Rightarrow> Some e
           | None \<Rightarrow>
               if length scope = 0 then Some scope_required
               else first_error
                 (\<lambda>(name, value).
                    if blank name \<or> \<not> validAuthorizationScopeValue value
                    then Some (scope_invalid name) else None) scope))"

definition cloneAuthorizationColumns :: "column_map \<Rightarrow> column_map" where
  "cloneAuthorizationColumns source = map (\<lambda>(product, columns). (product, columns)) source"

subsection \<open>Manifests and grant cores\<close>

definition protocol_version_1 :: go_string where
  "protocol_version_1 = ''1''"

record AuthorizationManifestV1 =
  m_Version :: go_string
  m_TaskID :: go_string
  m_RootTaskID :: go_string
  m_ParentTaskID :: go_string
  m_HumanSubject :: go_string
  m_AgentID :: go_string
  m_DeclaredObjective :: go_string
  m_Products :: "go_string list"
  m_ApprovedColumns :: column_map
  m_MandatoryScope :: scope_map
  m_Sensitivity :: Sensitivity
  m_Budget :: AuthorizationBudgetV1
  m_CatalogVersion :: go_string
  m_CatalogSHA256 :: go_string
  m_DatasourceID :: go_string
  m_SchemaDigest :: go_string
  m_ViewBindingDigest :: go_string
  m_CallbackContext :: go_string
  m_Nonce :: go_string

record TaskGrantCoreV1 =
  c_Version :: go_string
  c_TaskID :: go_string
  c_RootTaskID :: go_string
  c_ParentTaskID :: go_string
  c_HumanSubject :: go_string
  c_AgentID :: go_string
  c_DeclaredObjective :: go_string
  c_ApprovedProducts :: "go_string list"
  c_ApprovedColumns :: column_map
  c_MandatoryScope :: scope_map
  c_SensitivityCeiling :: Sensitivity
  c_Budget :: AuthorizationBudgetV1
  c_ExpiresAt :: go_time
  c_CatalogVersion :: go_string
  c_CatalogSHA256 :: go_string
  c_DatasourceID :: go_string
  c_SchemaDigest :: go_string
  c_ViewBindingDigest :: go_string
  c_ManifestDigest :: go_string

datatype invalid_reason =
    unsupported_version go_string
  | identity_required
  | lineage_invalid
  | envelope_invalid envelope_error
  | sensitivity_invalid sensitivity_error
  | budget_invalid authorization_budget_error
  | provenance_required
  | current_time_required

datatype expansion_reason =
    provenance_changed
  | sensitivity_increased
  | expiry_extended
  | budget_increased
  | product_added
  | column_added
  | scope_weakened

datatype authorization_error =
    ErrInvalidAuthorizationManifest invalid_reason
  | ErrInvalidTaskGrantCore invalid_reason
  | ErrGrantExpired
  | ErrGrantExpansion expansion_reason
  | ParentInvalid authorization_error
  | CandidateInvalid authorization_error

text \<open>Both objects make the same tests on the lineage of a delegated task.\<close>

definition lineage_ok :: "go_string \<Rightarrow> go_string \<Rightarrow> go_string \<Rightarrow> bool" where
  "lineage_ok task root parent \<longleftrightarrow>
     \<not> ((root = []) \<noteq> (parent = []) \<or> (parent \<noteq> [] \<and> (root = task \<or> parent = task)))"

definition AuthorizationManifestV1_Validate ::
  "AuthorizationManifestV1 \<Rightarrow> authorization_error option" where
  "AuthorizationManifestV1_Validate m =
     map_option ErrInvalidAuthorizationManifest
     (if m_Version m \<noteq> protocol_version_1 then Some (unsupported_version (m_Version m))
      else if blank (m_TaskID m) \<or> blank (m_HumanSubject m) \<or> blank (m_AgentID m) \<or>
        blank (m_DeclaredObjective m)
      then Some identity_required
      else if \<not> lineage_ok (m_TaskID m) (m_RootTaskID m) (m_ParentTaskID m)
      then Some lineage_invalid
      else case validateAuthorizationEnvelope (m_Products m) (m_ApprovedColumns m)
             (m_MandatoryScope m) of
        Some e \<Rightarrow> Some (envelope_invalid e)
      | None \<Rightarrow>
        (case Sensitivity_Validate (m_Sensitivity m) of
           Some e \<Rightarrow> Some (sensitivity_invalid e)
         | None \<Rightarrow>
           (case AuthorizationBudgetV1_Validate (m_Budget m) of
              Some e \<Rightarrow> Some (budget_invalid e)
            | None \<Rightarrow>
                if blank (m_CatalogVersion m) \<or> \<not> isSHA256Hex (m_CatalogSHA256 m) \<or>
                   blank (m_DatasourceID m) \<or> \<not> isSHA256Hex (m_SchemaDigest m) \<or>
                   (m_ViewBindingDigest m \<noteq> [] \<and> \<not> isSHA256Hex (m_ViewBindingDigest m)) \<or>
                   blank (m_CallbackContext m) \<or> length (m_Nonce m) \<noteq> 32 \<or>
                   \<not> isLowerHex (m_Nonce m)
                then Some provenance_required
                else None)))"

definition TaskGrantCoreV1_Validate :: "TaskGrantCoreV1 \<Rightarrow> authorization_error option" where
  "TaskGrantCoreV1_Validate g =
     map_option ErrInvalidTaskGrantCore
     (if c_Version g \<noteq> protocol_version_1 then Some (unsupported_version (c_Version g))
      else if blank (c_TaskID g) \<or> blank (c_HumanSubject g) \<or> blank (c_AgentID g) \<or>
        blank (c_DeclaredObjective g)
      then Some identity_required
      else if \<not> lineage_ok (c_TaskID g) (c_RootTaskID g) (c_ParentTaskID g)
      then Some lineage_invalid
      else case validateAuthorizationEnvelope (c_ApprovedProducts g) (c_ApprovedColumns g)
             (c_MandatoryScope g) of
        Some e \<Rightarrow> Some (envelope_invalid e)
      | None \<Rightarrow>
        (case Sensitivity_Validate (c_SensitivityCeiling g) of
           Some e \<Rightarrow> Some (sensitivity_invalid e)
         | None \<Rightarrow>
           (case AuthorizationBudgetV1_Validate (c_Budget g) of
              Some e \<Rightarrow> Some (budget_invalid e)
            | None \<Rightarrow>
                if IsZero (c_ExpiresAt g) \<or> blank (c_CatalogVersion g) \<or>
                   \<not> isSHA256Hex (c_CatalogSHA256 g) \<or> blank (c_DatasourceID g) \<or>
                   \<not> isSHA256Hex (c_SchemaDigest g) \<or>
                   (c_ViewBindingDigest g \<noteq> [] \<and> \<not> isSHA256Hex (c_ViewBindingDigest g)) \<or>
                   \<not> isSHA256Hex (c_ManifestDigest g)
                then Some provenance_required
                else None)))"

definition TaskGrantCoreV1_ValidateAt ::
  "TaskGrantCoreV1 \<Rightarrow> go_time \<Rightarrow> authorization_error option" where
  "TaskGrantCoreV1_ValidateAt g now =
     (case TaskGrantCoreV1_Validate g of
        Some e \<Rightarrow> Some e
      | None \<Rightarrow>
          if IsZero now then Some (ErrInvalidTaskGrantCore current_time_required)
          else if \<not> Before now (c_ExpiresAt g) then Some ErrGrantExpired
          else None)"

text \<open>
  The part \<open>CheckNarrowing\<close> and \<open>CheckDelegation\<close> have in common: sensitivity,
  expiry, budget, products with their columns, and scope, in this order.
\<close>

definition product_expansion ::
  "TaskGrantCoreV1 \<Rightarrow> TaskGrantCoreV1 \<Rightarrow> go_string \<Rightarrow> authorization_error option" where
  "product_expansion g candidate product =
     (if \<not> contains (c_ApprovedProducts g) product
      then Some (ErrGrantExpansion product_added)
      else first_error
        (\<lambda>column.
           if \<not> contains (columns_at (c_ApprovedColumns g) product) column
           then Some (ErrGrantExpansion column_added) else None)
        (columns_at (c_ApprovedColumns candidate) product))"

definition check_dimensions ::
  "TaskGrantCoreV1 \<Rightarrow> TaskGrantCoreV1 \<Rightarrow> authorization_error option" where
  "check_dimensions g candidate =
     (if \<not> AtMost (c_SensitivityCeiling candidate) (c_SensitivityCeiling g)
      then Some (ErrGrantExpansion sensitivity_increased)
      else if After (c_ExpiresAt candidate) (c_ExpiresAt g)
      then Some (ErrGrantExpansion expiry_extended)
      else if AuthorizationBudgetV1_EnsureWithin (c_Budget candidate) (c_Budget g) \<noteq> None
      then Some (ErrGrantExpansion budget_increased)
      else case first_error (product_expansion g candidate) (c_ApprovedProducts candidate) of
        Some e \<Rightarrow> Some e
      | None \<Rightarrow>
          if \<not> scopeMapNarrower (c_MandatoryScope g) (c_MandatoryScope candidate)
          then Some (ErrGrantExpansion scope_weakened)
          else None)"

definition CheckNarrowing ::
  "TaskGrantCoreV1 \<Rightarrow> TaskGrantCoreV1 \<Rightarrow> authorization_error option" where
  "CheckNarrowing g candidate =
     (case TaskGrantCoreV1_Validate g of
        Some e \<Rightarrow> Some (ParentInvalid e)
      | None \<Rightarrow>
        (case TaskGrantCoreV1_Validate candidate of
           Some e \<Rightarrow> Some (CandidateInvalid e)
         | None \<Rightarrow>
             if c_TaskID candidate \<noteq> c_TaskID g \<or> c_RootTaskID candidate \<noteq> c_RootTaskID g \<or>
                c_ParentTaskID candidate \<noteq> c_ParentTaskID g \<or>
                c_HumanSubject candidate \<noteq> c_HumanSubject g \<or>
                c_AgentID candidate \<noteq> c_AgentID g \<or>
                c_DeclaredObjective candidate \<noteq> c_DeclaredObjective g \<or>
                c_CatalogVersion candidate \<noteq> c_CatalogVersion g \<or>
                c_CatalogSHA256 candidate \<noteq> c_CatalogSHA256 g \<or>
                c_DatasourceID candidate \<noteq> c_DatasourceID g \<or>
                c_SchemaDigest candidate \<noteq> c_SchemaDigest g \<or>
                c_ViewBindingDigest candidate \<noteq> c_ViewBindingDigest g \<or>
                c_ManifestDigest candidate \<noteq> c_ManifestDigest g
             then Some (ErrGrantExpansion provenance_changed)
             else check_dimensions g candidate))"

definition expected_root :: "TaskGrantCoreV1 \<Rightarrow> go_string" where
  "expected_root g = (if c_RootTaskID g = [] then c_TaskID g else c_RootTaskID g)"

definition CheckDelegation ::
  "TaskGrantCoreV1 \<Rightarrow> TaskGrantCoreV1 \<Rightarrow> authorization_error option" where
  "CheckDelegation g candidate =
     (case TaskGrantCoreV1_Validate g of
        Some e \<Rightarrow> Some (ParentInvalid e)
      | None \<Rightarrow>
        (case TaskGrantCoreV1_Validate candidate of
           Some e \<Rightarrow> Some (CandidateInvalid e)
         | None \<Rightarrow>
             if c_TaskID candidate = c_TaskID g \<or> c_ParentTaskID candidate \<noteq> c_TaskID g \<or>
                c_RootTaskID candidate \<noteq> expected_root g \<or>
                c_HumanSubject candidate \<noteq> c_HumanSubject g \<or>
                c_CatalogVersion candidate \<noteq> c_CatalogVersion g \<or>
                c_CatalogSHA256 candidate \<noteq> c_CatalogSHA256 g \<or>
                c_DatasourceID candidate \<noteq> c_DatasourceID g \<or>
                c_SchemaDigest candidate \<noteq> c_SchemaDigest g \<or>
                c_ViewBindingDigest candidate \<noteq> c_ViewBindingDigest g
             then Some (ErrGrantExpansion provenance_changed)
             else check_dimensions g candidate))"

text \<open>
  \<open>time.Duration(ttl) * time.Millisecond\<close> is an \<open>int64\<close> product and wraps around; the
  addition to an instant does not.
\<close>

definition CoreFromManifest ::
  "AuthorizationManifestV1 \<Rightarrow> go_string \<Rightarrow> go_time \<Rightarrow> authorization_error + TaskGrantCoreV1" where
  "CoreFromManifest manifest manifestDigest issuedAt =
     (case AuthorizationManifestV1_Validate manifest of
        Some e \<Rightarrow> Inl e
      | None \<Rightarrow>
          if \<not> isSHA256Hex manifestDigest \<or> IsZero issuedAt
          then Inl (ErrInvalidTaskGrantCore provenance_required)
          else Inr \<lparr>c_Version = protocol_version_1, c_TaskID = m_TaskID manifest,
            c_RootTaskID = m_RootTaskID manifest, c_ParentTaskID = m_ParentTaskID manifest,
            c_HumanSubject = m_HumanSubject manifest, c_AgentID = m_AgentID manifest,
            c_DeclaredObjective = m_DeclaredObjective manifest,
            c_ApprovedProducts = m_Products manifest,
            c_ApprovedColumns = cloneAuthorizationColumns (m_ApprovedColumns manifest),
            c_MandatoryScope = cloneAuthorizationScope (m_MandatoryScope manifest),
            c_SensitivityCeiling = m_Sensitivity manifest, c_Budget = m_Budget manifest,
            c_ExpiresAt = issuedAt + i64 (ab_TaskTTLMS (m_Budget manifest) * 1000000),
            c_CatalogVersion = m_CatalogVersion manifest,
            c_CatalogSHA256 = m_CatalogSHA256 manifest,
            c_DatasourceID = m_DatasourceID manifest, c_SchemaDigest = m_SchemaDigest manifest,
            c_ViewBindingDigest = m_ViewBindingDigest manifest,
            c_ManifestDigest = manifestDigest\<rparr>)"

subsection \<open>Approval receipts and grants\<close>

datatype ApprovalDecision =
    ApprovalDecisionApprove
  | ApprovalDecisionReject
  | ApprovalDecisionNarrow
  | ApprovalDecisionOther go_string

record ApprovalReceiptV1 =
  r_Version :: go_string
  r_ReceiptID :: go_string
  r_TaskID :: go_string
  r_Decision :: ApprovalDecision
  r_ManifestDigest :: go_string
  r_ApprovedGrantDigest :: go_string
  r_ApproverID :: go_string
  r_IssuedAt :: go_time
  r_KeyID :: go_string
  r_Signature :: go_string

datatype receipt_error =
    receipt_field_invalid
  | grant_digest_required
  | rejected_binds_grant
  | unsupported_decision ApprovalDecision
  | signature_required

definition ApprovalReceiptV1_ValidateUnsigned :: "ApprovalReceiptV1 \<Rightarrow> receipt_error option" where
  "ApprovalReceiptV1_ValidateUnsigned r =
     (if r_Version r \<noteq> protocol_version_1 \<or> blank (r_ReceiptID r) \<or> blank (r_TaskID r) \<or>
         \<not> isSHA256Hex (r_ManifestDigest r) \<or> blank (r_ApproverID r) \<or>
         IsZero (r_IssuedAt r) \<or> blank (r_KeyID r)
      then Some receipt_field_invalid
      else case r_Decision r of
        ApprovalDecisionApprove \<Rightarrow>
          if \<not> isSHA256Hex (r_ApprovedGrantDigest r) then Some grant_digest_required else None
      | ApprovalDecisionNarrow \<Rightarrow>
          if \<not> isSHA256Hex (r_ApprovedGrantDigest r) then Some grant_digest_required else None
      | ApprovalDecisionReject \<Rightarrow>
          if r_ApprovedGrantDigest r \<noteq> [] then Some rejected_binds_grant else None
      | ApprovalDecisionOther d \<Rightarrow> Some (unsupported_decision (ApprovalDecisionOther d)))"

definition ApprovalReceiptV1_Validate :: "ApprovalReceiptV1 \<Rightarrow> receipt_error option" where
  "ApprovalReceiptV1_Validate r =
     (case ApprovalReceiptV1_ValidateUnsigned r of
        Some e \<Rightarrow> Some e
      | None \<Rightarrow> if blank (r_Signature r) then Some signature_required else None)"

record TaskGrantV1 =
  gv_Version :: go_string
  gv_Core :: TaskGrantCoreV1
  gv_ApprovalReceipt :: ApprovalReceiptV1

datatype task_grant_error =
    grant_unsupported_version go_string
  | grant_core_invalid authorization_error
  | grant_receipt_invalid receipt_error
  | grant_provenance_differs
  | grant_not_approved

definition TaskGrantV1_Validate :: "TaskGrantV1 \<Rightarrow> task_grant_error option" where
  "TaskGrantV1_Validate g =
     (if gv_Version g \<noteq> protocol_version_1 then Some (grant_unsupported_version (gv_Version g))
      else case TaskGrantCoreV1_Validate (gv_Core g) of
        Some e \<Rightarrow> Some (grant_core_invalid e)
      | None \<Rightarrow>
        (case ApprovalReceiptV1_Validate (gv_ApprovalReceipt g) of
           Some e \<Rightarrow> Some (grant_receipt_invalid e)
         | None \<Rightarrow>
             if c_TaskID (gv_Core g) \<noteq> r_TaskID (gv_ApprovalReceipt g) \<or>
                c_ManifestDigest (gv_Core g) \<noteq> r_ManifestDigest (gv_ApprovalReceipt g)
             then Some grant_provenance_differs
             else if r_Decision (gv_ApprovalReceipt g) \<noteq> ApprovalDecisionApprove \<and>
                r_Decision (gv_ApprovalReceipt g) \<noteq> ApprovalDecisionNarrow
             then Some grant_not_approved
             else None))"

subsection \<open>Authority, as a specification\<close>

text \<open>The pairs of product and column a core lets a query read.\<close>

definition authorized_columns :: "TaskGrantCoreV1 \<Rightarrow> (go_string \<times> go_string) set" where
  "authorized_columns g =
     {(p, c). p \<in> set (c_ApprovedProducts g) \<and> c \<in> set (columns_at (c_ApprovedColumns g) p)}"

text \<open>The maps of a core are Go maps: no key occurs twice.\<close>

definition core_maps_ok :: "TaskGrantCoreV1 \<Rightarrow> bool" where
  "core_maps_ok g \<longleftrightarrow>
     go_map_ok (c_ApprovedColumns g) \<and> go_map_ok (c_MandatoryScope g) \<and>
     (\<forall>(name, v) \<in> set (c_MandatoryScope g).
        (\<forall>m. v = AnyStringMap m \<longrightarrow> go_map_ok m) \<and> (\<forall>m. v = AnyMap m \<longrightarrow> go_map_ok m))"

text \<open>The order of authorizations: \<open>authority_le c g\<close> says that \<open>c\<close> is no broader than \<open>g\<close>.\<close>

definition authority_le :: "TaskGrantCoreV1 \<Rightarrow> TaskGrantCoreV1 \<Rightarrow> bool" where
  "authority_le c g \<longleftrightarrow>
     AtMost (c_SensitivityCeiling c) (c_SensitivityCeiling g) \<and>
     c_ExpiresAt c \<le> c_ExpiresAt g \<and>
     authorization_budget_le (c_Budget c) (c_Budget g) \<and>
     set (c_ApprovedProducts c) \<subseteq> set (c_ApprovedProducts g) \<and>
     authorized_columns c \<subseteq> authorized_columns g \<and>
     (\<forall>row. scope_admits (c_MandatoryScope c) row \<longrightarrow> scope_admits (c_MandatoryScope g) row)"

text \<open>What a delegated core shares with every other core of its task family.\<close>

definition same_family :: "TaskGrantCoreV1 \<Rightarrow> TaskGrantCoreV1 \<Rightarrow> bool" where
  "same_family c g \<longleftrightarrow>
     expected_root c = expected_root g \<and> c_HumanSubject c = c_HumanSubject g \<and>
     c_CatalogVersion c = c_CatalogVersion g \<and> c_CatalogSHA256 c = c_CatalogSHA256 g \<and>
     c_DatasourceID c = c_DatasourceID g \<and> c_SchemaDigest c = c_SchemaDigest g \<and>
     c_ViewBindingDigest c = c_ViewBindingDigest g"

text \<open>A delegation chain from \<open>g\<close>: every member passed \<open>CheckDelegation\<close>.\<close>

abbreviation delegated :: "TaskGrantCoreV1 \<Rightarrow> TaskGrantCoreV1 \<Rightarrow> bool" where
  "delegated \<equiv> accepted_chain CheckDelegation core_maps_ok"

section \<open>Lemmas\<close>

subsection \<open>The envelope\<close>

lemma envelope_product_None:
  "envelope_product columns p = None \<Longrightarrow>
   p \<noteq> [] \<and> (\<exists>cs. map_of columns p = Some cs \<and> cs \<noteq> [] \<and> distinct cs \<and> [] \<notin> set cs)"
  by (auto simp: envelope_product_def split: if_splits option.splits)
     (metis TrimSpace_Nil firstDuplicate_distinct)

lemma validateAuthorizationEnvelope_None:
  assumes "validateAuthorizationEnvelope products columns scope = None"
  shows "products \<noteq> []" and "distinct products" and "[] \<notin> set products"
    and "\<And>p. p \<in> set products \<Longrightarrow> columns_at columns p \<noteq> [] \<and> distinct (columns_at columns p)"
    and "fst ` set columns = set products"
    and "scope \<noteq> []" and "\<And>n v. (n, v) \<in> set scope \<Longrightarrow> validAuthorizationScopeValue v"
proof -
  from assms have nonempty: "products \<noteq> []" and dup: "firstDuplicate products = []"
    and prods: "\<forall>p\<in>set products. envelope_product columns p = None"
    and cols: "\<forall>(p, _)\<in>set columns. p \<in> set products"
    and scope: "scope \<noteq> []" "\<forall>(n, v)\<in>set scope. validAuthorizationScopeValue v"
    by (auto simp: validateAuthorizationEnvelope_def no_error)
  show "products \<noteq> []" "scope \<noteq> []" by fact+
  show empty: "[] \<notin> set products"
    using prods envelope_product_None by blast
  with dup show "distinct products" by (simp add: firstDuplicate_distinct)
  show "columns_at columns p \<noteq> [] \<and> distinct (columns_at columns p)" if "p \<in> set products" for p
    using prods that envelope_product_None [of columns p] by (auto simp: columns_at_def)
  have "set products \<subseteq> fst ` set columns"
    using prods by (force dest: envelope_product_None map_of_SomeD)
  with cols show "fst ` set columns = set products" by force
  show "validAuthorizationScopeValue v" if "(n, v) \<in> set scope" for n v
    using scope that by auto
qed

lemma cloneAuthorizationColumns_id [simp]: "cloneAuthorizationColumns c = c"
  by (simp add: cloneAuthorizationColumns_def case_prod_unfold)

lemma isSHA256Hex_iff: "isSHA256Hex s \<longleftrightarrow> lower_sha256_hex s"
  by (auto simp: isSHA256Hex_def lower_sha256_hex_def hex_rune_def lower_hex_char_def list_all_iff)

subsection \<open>Validity of cores\<close>

lemma TaskGrantCoreV1_Validate_None:
  "TaskGrantCoreV1_Validate g = None \<longleftrightarrow>
     c_Version g = protocol_version_1 \<and> \<not> blank (c_TaskID g) \<and> \<not> blank (c_HumanSubject g) \<and>
     \<not> blank (c_AgentID g) \<and> \<not> blank (c_DeclaredObjective g) \<and>
     lineage_ok (c_TaskID g) (c_RootTaskID g) (c_ParentTaskID g) \<and>
     validateAuthorizationEnvelope (c_ApprovedProducts g) (c_ApprovedColumns g)
       (c_MandatoryScope g) = None \<and>
     Sensitivity_Validate (c_SensitivityCeiling g) = None \<and>
     AuthorizationBudgetV1_Validate (c_Budget g) = None \<and>
     c_ExpiresAt g \<noteq> 0 \<and> \<not> blank (c_CatalogVersion g) \<and> isSHA256Hex (c_CatalogSHA256 g) \<and>
     \<not> blank (c_DatasourceID g) \<and> isSHA256Hex (c_SchemaDigest g) \<and>
     (c_ViewBindingDigest g \<noteq> [] \<longrightarrow> isSHA256Hex (c_ViewBindingDigest g)) \<and>
     isSHA256Hex (c_ManifestDigest g)"
  by (simp add: TaskGrantCoreV1_Validate_def no_error) blast

lemma AuthorizationManifestV1_Validate_None:
  "AuthorizationManifestV1_Validate m = None \<longleftrightarrow>
     m_Version m = protocol_version_1 \<and> \<not> blank (m_TaskID m) \<and> \<not> blank (m_HumanSubject m) \<and>
     \<not> blank (m_AgentID m) \<and> \<not> blank (m_DeclaredObjective m) \<and>
     lineage_ok (m_TaskID m) (m_RootTaskID m) (m_ParentTaskID m) \<and>
     validateAuthorizationEnvelope (m_Products m) (m_ApprovedColumns m) (m_MandatoryScope m) = None \<and>
     Sensitivity_Validate (m_Sensitivity m) = None \<and>
     AuthorizationBudgetV1_Validate (m_Budget m) = None \<and>
     \<not> blank (m_CatalogVersion m) \<and> isSHA256Hex (m_CatalogSHA256 m) \<and>
     \<not> blank (m_DatasourceID m) \<and> isSHA256Hex (m_SchemaDigest m) \<and>
     (m_ViewBindingDigest m \<noteq> [] \<longrightarrow> isSHA256Hex (m_ViewBindingDigest m)) \<and>
     \<not> blank (m_CallbackContext m) \<and> length (m_Nonce m) = 32 \<and> isLowerHex (m_Nonce m)"
  by (simp add: AuthorizationManifestV1_Validate_def no_error) blast

lemma TaskGrantCoreV1_Validate_envelope:
  "TaskGrantCoreV1_Validate g = None \<Longrightarrow>
   validateAuthorizationEnvelope (c_ApprovedProducts g) (c_ApprovedColumns g) (c_MandatoryScope g) = None"
  by (simp add: TaskGrantCoreV1_Validate_None)

lemma TaskGrantCoreV1_Validate_scope:
  "TaskGrantCoreV1_Validate g = None \<Longrightarrow> core_maps_ok g \<Longrightarrow> scope_valid (c_MandatoryScope g)"
  unfolding scope_valid_def core_maps_ok_def
  using validateAuthorizationEnvelope_None(7) [OF TaskGrantCoreV1_Validate_envelope] by blast

lemma TaskGrantCoreV1_Validate_task:
  "TaskGrantCoreV1_Validate g = None \<Longrightarrow> c_TaskID g \<noteq> []"
  by (auto simp: TaskGrantCoreV1_Validate_None)

lemma TaskGrantCoreV1_Validate_parts:
  assumes "TaskGrantCoreV1_Validate g = None"
  shows "AuthorizationBudgetV1_Validate (c_Budget g) = None"
    and "Sensitivity_Validate (c_SensitivityCeiling g) = None"
  using assms by (simp_all add: TaskGrantCoreV1_Validate_None)

lemma expected_root_nonempty: "TaskGrantCoreV1_Validate g = None \<Longrightarrow> expected_root g \<noteq> []"
  by (simp add: expected_root_def TaskGrantCoreV1_Validate_task)

subsection \<open>Soundness of the checks\<close>

lemma product_expansion_None:
  "product_expansion g c p = None \<longleftrightarrow>
   p \<in> set (c_ApprovedProducts g) \<and>
   set (columns_at (c_ApprovedColumns c) p) \<subseteq> set (columns_at (c_ApprovedColumns g) p)"
  by (auto simp: product_expansion_def)

lemma check_dimensions_None:
  "check_dimensions g c = None \<longleftrightarrow>
     AtMost (c_SensitivityCeiling c) (c_SensitivityCeiling g) \<and>
     c_ExpiresAt c \<le> c_ExpiresAt g \<and>
     AuthorizationBudgetV1_EnsureWithin (c_Budget c) (c_Budget g) = None \<and>
     (\<forall>p\<in>set (c_ApprovedProducts c). product_expansion g c p = None) \<and>
     scopeMapNarrower (c_MandatoryScope g) (c_MandatoryScope c)"
  by (simp add: check_dimensions_def no_error not_less)

lemma check_dimensions_sound:
  assumes "check_dimensions g c = None" and "TaskGrantCoreV1_Validate g = None"
    and "core_maps_ok g" and "core_maps_ok c"
  shows "authority_le c g"
proof -
  from assms(1) have dims: "AtMost (c_SensitivityCeiling c) (c_SensitivityCeiling g)"
    "c_ExpiresAt c \<le> c_ExpiresAt g" "authorization_budget_le (c_Budget c) (c_Budget g)"
    "\<forall>p\<in>set (c_ApprovedProducts c). product_expansion g c p = None"
    "scopeMapNarrower (c_MandatoryScope g) (c_MandatoryScope c)"
    by (auto simp: check_dimensions_None validate_simps)
  have "\<forall>row. scope_admits (c_MandatoryScope c) row \<longrightarrow> scope_admits (c_MandatoryScope g) row"
    using scopeMapNarrower_sound [OF TaskGrantCoreV1_Validate_scope [OF assms(2,3)] _ dims(5)] assms(4)
    by (auto simp: core_maps_ok_def)
  with dims show ?thesis
    by (auto simp: authority_le_def authorized_columns_def product_expansion_None)
qed

lemma CheckNarrowing_dimensions:
  "CheckNarrowing g c = None \<Longrightarrow>
   TaskGrantCoreV1_Validate g = None \<and> TaskGrantCoreV1_Validate c = None \<and> check_dimensions g c = None"
  by (auto simp: CheckNarrowing_def split: option.splits if_splits)

lemma CheckDelegation_dimensions:
  assumes "CheckDelegation g c = None"
  shows "TaskGrantCoreV1_Validate g = None" and "TaskGrantCoreV1_Validate c = None"
    and "check_dimensions g c = None" and "c_RootTaskID c = expected_root g"
    and "c_ParentTaskID c = c_TaskID g" and "c_TaskID c \<noteq> c_TaskID g" and "same_family c g"
proof -
  from assms show valid: "TaskGrantCoreV1_Validate g = None" "TaskGrantCoreV1_Validate c = None"
    "check_dimensions g c = None" "c_RootTaskID c = expected_root g" "c_ParentTaskID c = c_TaskID g"
    "c_TaskID c \<noteq> c_TaskID g"
    by (auto simp: CheckDelegation_def split: option.splits if_splits)
  have "expected_root c = expected_root g"
    using valid expected_root_nonempty [OF valid(1)] by (simp add: expected_root_def [of c])
  with assms show "same_family c g"
    by (auto simp: same_family_def CheckDelegation_def split: option.splits if_splits)
qed

lemma authority_le_trans: "authority_le a b \<Longrightarrow> authority_le b c \<Longrightarrow> authority_le a c"
  unfolding authority_le_def
  by (auto intro: AtMost_trans authorization_budget_le_trans)

lemma same_family_trans: "same_family a b \<Longrightarrow> same_family b c \<Longrightarrow> same_family a c"
  by (simp add: same_family_def)

lemma CheckDelegation_sound:
  "CheckDelegation g c = None \<Longrightarrow> core_maps_ok g \<Longrightarrow> core_maps_ok c \<Longrightarrow>
   authority_le c g \<and> same_family c g"
  by (simp add: CheckDelegation_dimensions check_dimensions_sound)

interpretation delegation: attenuation CheckDelegation core_maps_ok
  "\<lambda>c g. authority_le c g \<and> same_family c g"
  by unfold_locales (auto simp: CheckDelegation_sound intro: authority_le_trans same_family_trans)

interpretation narrowing: attenuation CheckNarrowing core_maps_ok authority_le
  by unfold_locales (auto dest!: CheckNarrowing_dimensions simp: check_dimensions_sound
      intro: authority_le_trans)

lemma scopeMapNarrower_refl:
  assumes "TaskGrantCoreV1_Validate g = None" and "core_maps_ok g"
  shows "scopeMapNarrower (c_MandatoryScope g) (c_MandatoryScope g)"
proof -
  have "scopeValueNarrower v v" if "(n, v) \<in> set (c_MandatoryScope g)" for n v
  proof (rule scopeValueNarrower_refl)
    show "validAuthorizationScopeValue v"
      using validateAuthorizationEnvelope_None(7) [OF TaskGrantCoreV1_Validate_envelope [OF assms(1)] that] .
  qed (use assms(2) that in \<open>auto simp: core_maps_ok_def\<close>)
  with assms(2) show ?thesis
    by (auto simp: scopeMapNarrower_def list_all_iff core_maps_ok_def map_of_is_SomeI)
qed

lemma check_dimensions_refl:
  "TaskGrantCoreV1_Validate g = None \<Longrightarrow> core_maps_ok g \<Longrightarrow> check_dimensions g g = None"
  by (auto simp: check_dimensions_None product_expansion_None validate_simps
      TaskGrantCoreV1_Validate_parts AtMost_refl scopeMapNarrower_refl)

lemma CoreFromManifest_Inr:
  assumes "CoreFromManifest m d t = Inr g"
  shows "AuthorizationManifestV1_Validate m = None" and "isSHA256Hex d" and "t \<noteq> 0"
    and "c_ExpiresAt g = t + ab_TaskTTLMS (m_Budget m) * 1000000"
proof -
  from assms show "AuthorizationManifestV1_Validate m = None" "isSHA256Hex d" "t \<noteq> 0"
    by (auto simp: CoreFromManifest_def split: option.splits if_splits)
  then have "AuthorizationBudgetV1_Validate (m_Budget m) = None"
    by (simp add: AuthorizationManifestV1_Validate_None)
  then have "in_int64 (ab_TaskTTLMS (m_Budget m) * 1000000)"
    by (simp add: authorization_budget_ttl millisecond_duration_in_range less_imp_le)
  with assms show "c_ExpiresAt g = t + ab_TaskTTLMS (m_Budget m) * 1000000"
    by (auto simp: CoreFromManifest_def split: option.splits if_splits)
qed

lemma CoreFromManifest_valid:
  assumes "CoreFromManifest m d t = Inr g" and "0 < t"
  shows "TaskGrantCoreV1_Validate g = None"
proof -
  note m = CoreFromManifest_Inr [OF assms(1)]
  have "0 < ab_TaskTTLMS (m_Budget m)"
    using m(1) authorization_budget_ttl [of "m_Budget m"]
    by (simp add: AuthorizationManifestV1_Validate_None)
  with m(4) assms(2) have "c_ExpiresAt g \<noteq> 0" by simp
  with assms(1) m show ?thesis
    by (auto simp: CoreFromManifest_def TaskGrantCoreV1_Validate_None
        AuthorizationManifestV1_Validate_None)
qed

section \<open>Properties\<close>

text \<open>
  C13: authority never grows along a delegation chain. Every core reached from a root core by any
  number of accepted \<open>CheckDelegation\<close> steps reads only columns the root may read, is bound
  to a mandatory scope that admits only rows the root's scope admits, is within the root's budget
  and sensitivity, expires no later, and belongs to the same task family (root task, human
  subject, catalog, datasource and schema).
\<close>

theorem delegation_chain_bounded:
  assumes "delegated root c" and "core_maps_ok root"
  shows "authority_le c root \<and> same_family c root \<and> TaskGrantCoreV1_Validate c = None \<and>
    c_TaskID c \<noteq> c_RootTaskID c"
proof -
  have valid: "TaskGrantCoreV1_Validate c = None"
    using assms(1) by cases (auto dest: CheckDelegation_dimensions)
  moreover have "c_ParentTaskID c \<noteq> []"
    using assms(1) by cases (metis CheckDelegation_dimensions(1,5) TaskGrantCoreV1_Validate_task)+
  ultimately have "c_TaskID c \<noteq> c_RootTaskID c"
    by (auto simp: TaskGrantCoreV1_Validate_None lineage_ok_def)
  with valid delegation.chain_bounded [OF assms] show ?thesis by blast
qed

definition sample_core :: TaskGrantCoreV1 where
  "sample_core = \<lparr>c_Version = ''1'', c_TaskID = ''root'', c_RootTaskID = [], c_ParentTaskID = [],
     c_HumanSubject = ''h'', c_AgentID = ''a'', c_DeclaredObjective = ''o'',
     c_ApprovedProducts = [''orders'', ''items''],
     c_ApprovedColumns = [(''items'', [''id'']), (''orders'', [''id'', ''month''])],
     c_MandatoryScope = [(''region'', AnyStrings [''eu'', ''us''])],
     c_SensitivityCeiling = SensitivityHigh, c_Budget = sample_authorization_budget 5,
     c_ExpiresAt = 100, c_CatalogVersion = ''v'', c_CatalogSHA256 = replicate 64 CHR ''a'',
     c_DatasourceID = ''d'', c_SchemaDigest = replicate 64 CHR ''b'', c_ViewBindingDigest = [],
     c_ManifestDigest = replicate 64 CHR ''c''\<rparr>"

definition sample_child :: TaskGrantCoreV1 where
  "sample_child = sample_core\<lparr>c_TaskID := ''child'', c_RootTaskID := ''root'',
     c_ParentTaskID := ''root'', c_ApprovedProducts := [''orders''],
     c_ApprovedColumns := [(''orders'', [''month''])],
     c_MandatoryScope := [(''region'', AnyList [AnyString ''eu''])],
     c_SensitivityCeiling := SensitivityLow, c_Budget := sample_authorization_budget 4\<rparr>"

definition sample_grandchild :: TaskGrantCoreV1 where
  "sample_grandchild = sample_child\<lparr>c_TaskID := ''grandchild'', c_ParentTaskID := ''child'',
     c_ExpiresAt := 90\<rparr>"

lemma sample_maps_ok:
  "core_maps_ok sample_core" "core_maps_ok sample_child" "core_maps_ok sample_grandchild"
  by (simp_all add: core_maps_ok_def sample_core_def sample_child_def sample_grandchild_def)

theorem delegation_chain_bounded_witness:
  "delegated sample_core sample_grandchild \<and> authority_le sample_grandchild sample_core"
proof -
  have "CheckDelegation sample_core sample_child = None"
    and step: "CheckDelegation sample_child sample_grandchild = None"
    by code_simp+
  then have "delegated sample_core sample_child"
    by (auto intro: accepted_chain.direct sample_maps_ok)
  then have "delegated sample_core sample_grandchild"
    using step by (auto intro: accepted_chain.further sample_maps_ok)
  then show ?thesis
    using delegation_chain_bounded sample_maps_ok(1) by blast
qed



text \<open>
  the core derived from a manifest. \<open>CoreFromManifest\<close> succeeds exactly on a valid
  manifest, a well-formed digest and a non-zero issue time. For an issue time after the zero time
  the core it returns is valid, expires exactly the manifest's time to live after the issue time
  (the millisecond product does not wrap around, because the validation bounds it), is usable at
  the issue time, and carries the manifest digest it was given.
\<close>

theorem CoreFromManifest_correct:
  assumes "0 < issuedAt"
  shows "((\<exists>g. CoreFromManifest m d issuedAt = Inr g) \<longleftrightarrow>
      AuthorizationManifestV1_Validate m = None \<and> isSHA256Hex d) \<and>
    (\<forall>g. CoreFromManifest m d issuedAt = Inr g \<longrightarrow>
      TaskGrantCoreV1_ValidateAt g issuedAt = None \<and>
      c_ExpiresAt g = issuedAt + ab_TaskTTLMS (m_Budget m) * 1000000 \<and>
      c_ManifestDigest g = d \<and> c_Budget g = m_Budget m)"
proof (intro conjI allI impI)
  show "(\<exists>g. CoreFromManifest m d issuedAt = Inr g) \<longleftrightarrow>
      AuthorizationManifestV1_Validate m = None \<and> isSHA256Hex d"
    using assms by (auto simp: CoreFromManifest_def split: option.splits)
next
  fix g
  assume g: "CoreFromManifest m d issuedAt = Inr g"
  show expiry: "c_ExpiresAt g = issuedAt + ab_TaskTTLMS (m_Budget m) * 1000000"
    by (rule CoreFromManifest_Inr(4) [OF g])
  have "0 < ab_TaskTTLMS (m_Budget m)"
    using CoreFromManifest_Inr(1) [OF g] authorization_budget_ttl [of "m_Budget m"]
    by (simp add: AuthorizationManifestV1_Validate_None)
  with expiry assms CoreFromManifest_valid [OF g assms]
  show "TaskGrantCoreV1_ValidateAt g issuedAt = None"
    by (simp add: TaskGrantCoreV1_ValidateAt_def)
  show "c_ManifestDigest g = d" and "c_Budget g = m_Budget m"
    using g by (auto simp: CoreFromManifest_def split: option.splits if_splits)
qed

definition sample_manifest :: AuthorizationManifestV1 where
  "sample_manifest = \<lparr>m_Version = ''1'', m_TaskID = ''root'', m_RootTaskID = [], m_ParentTaskID = [],
     m_HumanSubject = ''h'', m_AgentID = ''a'', m_DeclaredObjective = ''o'',
     m_Products = [''orders''], m_ApprovedColumns = [(''orders'', [''id''])],
     m_MandatoryScope = [(''region'', AnyString ''eu'')], m_Sensitivity = SensitivityMedium,
     m_Budget = sample_authorization_budget 5, m_CatalogVersion = ''v'',
     m_CatalogSHA256 = replicate 64 CHR ''a'', m_DatasourceID = ''d'',
     m_SchemaDigest = replicate 64 CHR ''b'', m_ViewBindingDigest = [],
     m_CallbackContext = ''cb'', m_Nonce = replicate 32 CHR ''0''\<rparr>"

theorem CoreFromManifest_correct_witness:
  "\<exists>g. CoreFromManifest sample_manifest (replicate 64 CHR ''c'') 1000 = Inr g \<and>
     c_ExpiresAt g = 7001000 \<and> TaskGrantCoreV1_ValidateAt g 1000 = None"
proof -
  have "AuthorizationManifestV1_Validate sample_manifest = None"
    and "isSHA256Hex (replicate 64 CHR ''c'')"
    by code_simp+
  then show ?thesis
    using CoreFromManifest_correct [of 1000 sample_manifest "replicate 64 CHR ''c''"]
    by (auto simp: sample_manifest_def sample_authorization_budget_def)
qed

text \<open>
  a valid grant binds an approval to its core. If \<open>TaskGrantV1.Validate\<close> accepts, the
  receipt is signed, names the task and the manifest of the core, decides approve or narrow and
  carries a well-formed digest of the approved core; a grant whose receipt rejects is refused.
\<close>

theorem TaskGrantV1_binds_approval:
  assumes "TaskGrantV1_Validate g = None"
  shows "TaskGrantCoreV1_Validate (gv_Core g) = None \<and>
    r_TaskID (gv_ApprovalReceipt g) = c_TaskID (gv_Core g) \<and>
    r_ManifestDigest (gv_ApprovalReceipt g) = c_ManifestDigest (gv_Core g) \<and>
    r_Decision (gv_ApprovalReceipt g) \<in> {ApprovalDecisionApprove, ApprovalDecisionNarrow} \<and>
    isSHA256Hex (r_ApprovedGrantDigest (gv_ApprovalReceipt g)) \<and>
    \<not> blank (r_Signature (gv_ApprovalReceipt g))"
  using assms
  by (auto simp: TaskGrantV1_Validate_def ApprovalReceiptV1_Validate_def
      ApprovalReceiptV1_ValidateUnsigned_def no_error split: ApprovalDecision.splits)

theorem TaskGrantV1_binds_approval_witness:
  "TaskGrantV1_Validate \<lparr>gv_Version = ''1'', gv_Core = sample_core, gv_ApprovalReceipt =
     \<lparr>r_Version = ''1'', r_ReceiptID = ''r'', r_TaskID = ''root'', r_Decision = ApprovalDecisionApprove,
      r_ManifestDigest = replicate 64 CHR ''c'', r_ApprovedGrantDigest = replicate 64 CHR ''d'',
      r_ApproverID = ''x'', r_IssuedAt = 5, r_KeyID = ''k'', r_Signature = ''s''\<rparr>\<rparr> = None \<and>
   TaskGrantCoreV1_Validate sample_core = None"
  (is "TaskGrantV1_Validate ?g = None \<and> _")
proof -
  have "TaskGrantV1_Validate ?g = None" by code_simp
  then show ?thesis using TaskGrantV1_binds_approval [of ?g] by simp
qed

end
