(* ===== verification/Domain_Grant.thy ===== *)
theory Domain_Grant
  imports Domain_Authorization
begin

text \<open>
  The immutable task grant of \<open>internal/domain/grant.go\<close>, its validation at rest and at a
  given time, its authorization queries, and the check that a derived grant narrows it. The
  scope checks are those of \<open>authorization.go\<close>; unlike there, a scope map may be empty here
  but not nil (\<^const>\<open>None\<close>).
\<close>

section \<open>Definitions\<close>

record TaskGrant =
  tg_TaskID :: go_string
  tg_Subject :: go_string
  tg_Purpose :: go_string
  tg_ApprovedProducts :: "go_string list"
  tg_ApprovedColumns :: column_map
  tg_MandatoryScope :: "scope_map option"
  tg_SensitivityCeiling :: Sensitivity
  tg_Budget :: Budget
  tg_ExpiresAt :: go_time
  tg_CatalogVersion :: go_string
  tg_ApprovalReceipt :: go_string

datatype grant_reason =
    task_id_is_required
  | subject_is_required
  | purpose_is_required
  | approved_products_is_required
  | grant_envelope envelope_error
  | mandatory_scope_is_required
  | grant_sensitivity sensitivity_error
  | grant_budget budget_error
  | expires_at_is_required
  | catalog_version_is_required
  | approval_receipt_is_required
  | grant_current_time_is_required

datatype grant_error =
    ErrInvalidGrant grant_reason
  | GrantExpired
  | GrantExpansion expansion_reason
  | GrantParent grant_error
  | GrantCandidate grant_error

text \<open>The checks on one approved product, in the order of the loop body.\<close>

definition TaskGrant_Validate :: "TaskGrant \<Rightarrow> grant_error option" where
  "TaskGrant_Validate g = map_option ErrInvalidGrant
     (if blank (tg_TaskID g) then Some task_id_is_required
      else if blank (tg_Subject g) then Some subject_is_required
      else if blank (tg_Purpose g) then Some purpose_is_required
      else if length (tg_ApprovedProducts g) = 0 then Some approved_products_is_required
      else if firstDuplicate (tg_ApprovedProducts g) \<noteq> []
      then Some (grant_envelope (duplicate_product (firstDuplicate (tg_ApprovedProducts g))))
      else case first_error (envelope_product (tg_ApprovedColumns g)) (tg_ApprovedProducts g) of
        Some e \<Rightarrow> Some (grant_envelope e)
      | None \<Rightarrow>
        (case first_error
            (\<lambda>(product, _).
               if \<not> contains (tg_ApprovedProducts g) product
               then Some (grant_envelope (columns_for_unapproved product))
               else None) (tg_ApprovedColumns g) of
           Some e \<Rightarrow> Some e
         | None \<Rightarrow>
             if tg_MandatoryScope g = None then Some mandatory_scope_is_required
             else case Sensitivity_Validate (tg_SensitivityCeiling g) of
               Some e \<Rightarrow> Some (grant_sensitivity e)
             | None \<Rightarrow>
               (case Budget_Validate (tg_Budget g) of
                  Some e \<Rightarrow> Some (grant_budget e)
                | None \<Rightarrow>
                    if IsZero (tg_ExpiresAt g) then Some expires_at_is_required
                    else if blank (tg_CatalogVersion g) then Some catalog_version_is_required
                    else if blank (tg_ApprovalReceipt g) then Some approval_receipt_is_required
                    else None)))"

definition TaskGrant_ValidateAt :: "TaskGrant \<Rightarrow> go_time \<Rightarrow> grant_error option" where
  "TaskGrant_ValidateAt g now =
     (case TaskGrant_Validate g of
        Some e \<Rightarrow> Some e
      | None \<Rightarrow>
          if IsZero now then Some (ErrInvalidGrant grant_current_time_is_required)
          else if \<not> Before now (tg_ExpiresAt g) then Some GrantExpired
          else None)"

definition IsExpired :: "TaskGrant \<Rightarrow> go_time \<Rightarrow> bool" where
  "IsExpired g now \<longleftrightarrow> \<not> IsZero (tg_ExpiresAt g) \<and> \<not> Before now (tg_ExpiresAt g)"

definition AuthorizesProduct :: "TaskGrant \<Rightarrow> go_string \<Rightarrow> bool" where
  "AuthorizesProduct g product \<longleftrightarrow> contains (tg_ApprovedProducts g) product"

definition AuthorizesColumn :: "TaskGrant \<Rightarrow> go_string \<Rightarrow> go_string \<Rightarrow> bool" where
  "AuthorizesColumn g product column \<longleftrightarrow>
     AuthorizesProduct g product \<and> contains (columns_at (tg_ApprovedColumns g) product) column"

text \<open>The nil map is the empty map to \<open>scopeMapNarrower\<close>.\<close>

definition scope_of :: "scope_map option \<Rightarrow> scope_map" where
  "scope_of s = (case s of None \<Rightarrow> [] | Some m \<Rightarrow> m)"

definition grant_product_expansion ::
  "TaskGrant \<Rightarrow> TaskGrant \<Rightarrow> go_string \<Rightarrow> grant_error option" where
  "grant_product_expansion g candidate product =
     (if \<not> AuthorizesProduct g product then Some (GrantExpansion product_added)
      else first_error
        (\<lambda>column. if \<not> AuthorizesColumn g product column
                   then Some (GrantExpansion column_added) else None)
        (columns_at (tg_ApprovedColumns candidate) product))"

definition TaskGrant_CheckNarrowing :: "TaskGrant \<Rightarrow> TaskGrant \<Rightarrow> grant_error option" where
  "TaskGrant_CheckNarrowing g candidate =
     (case TaskGrant_Validate g of
        Some e \<Rightarrow> Some (GrantParent e)
      | None \<Rightarrow>
        (case TaskGrant_Validate candidate of
           Some e \<Rightarrow> Some (GrantCandidate e)
         | None \<Rightarrow>
             if tg_TaskID candidate \<noteq> tg_TaskID g \<or> tg_Subject candidate \<noteq> tg_Subject g \<or>
                tg_Purpose candidate \<noteq> tg_Purpose g \<or>
                tg_CatalogVersion candidate \<noteq> tg_CatalogVersion g \<or>
                tg_ApprovalReceipt candidate \<noteq> tg_ApprovalReceipt g
             then Some (GrantExpansion provenance_changed)
             else if \<not> AtMost (tg_SensitivityCeiling candidate) (tg_SensitivityCeiling g)
             then Some (GrantExpansion sensitivity_increased)
             else if After (tg_ExpiresAt candidate) (tg_ExpiresAt g)
             then Some (GrantExpansion expiry_extended)
             else if Budget_EnsureWithin (tg_Budget candidate) (tg_Budget g) \<noteq> None
             then Some (GrantExpansion budget_increased)
             else case first_error (grant_product_expansion g candidate)
                    (tg_ApprovedProducts candidate) of
               Some e \<Rightarrow> Some e
             | None \<Rightarrow>
                 if \<not> scopeMapNarrower (scope_of (tg_MandatoryScope g))
                       (scope_of (tg_MandatoryScope candidate))
                 then Some (GrantExpansion scope_weakened)
                 else None))"

section \<open>Lemmas\<close>

lemma AuthorizesColumn_iff:
  "AuthorizesColumn g p c \<longleftrightarrow>
   p \<in> set (tg_ApprovedProducts g) \<and> c \<in> set (columns_at (tg_ApprovedColumns g) p)"
  by (simp add: AuthorizesColumn_def AuthorizesProduct_def)

lemma grant_product_expansion_None:
  "grant_product_expansion g c p = None \<longleftrightarrow>
   AuthorizesProduct g p \<and> (\<forall>col \<in> set (columns_at (tg_ApprovedColumns c) p). AuthorizesColumn g p col)"
  by (auto simp: grant_product_expansion_def AuthorizesProduct_def AuthorizesColumn_iff)

lemma TaskGrant_CheckNarrowing_None:
  "TaskGrant_CheckNarrowing g c = None \<longleftrightarrow>
     TaskGrant_Validate g = None \<and> TaskGrant_Validate c = None \<and>
     tg_TaskID c = tg_TaskID g \<and> tg_Subject c = tg_Subject g \<and> tg_Purpose c = tg_Purpose g \<and>
     tg_CatalogVersion c = tg_CatalogVersion g \<and> tg_ApprovalReceipt c = tg_ApprovalReceipt g \<and>
     AtMost (tg_SensitivityCeiling c) (tg_SensitivityCeiling g) \<and>
     tg_ExpiresAt c \<le> tg_ExpiresAt g \<and> Budget_Within (tg_Budget c) (tg_Budget g) \<and>
     Budget_Validate (tg_Budget c) = None \<and> Budget_Validate (tg_Budget g) = None \<and>
     (\<forall>p\<in>set (tg_ApprovedProducts c). grant_product_expansion g c p = None) \<and>
     scopeMapNarrower (scope_of (tg_MandatoryScope g)) (scope_of (tg_MandatoryScope c))"
  by (simp add: TaskGrant_CheckNarrowing_def no_error validate_simps not_less) blast

section \<open>Properties\<close>

text \<open>
  a grant that passes \<open>CheckNarrowing\<close> against its parent authorizes no product and no
  column the parent does not, is within the parent's budget on every limit, expires no later, is
  no more sensitive, and, when it is usable at a time, so is the parent at that time.
\<close>

theorem TaskGrant_narrowing_sound:
  assumes "TaskGrant_CheckNarrowing g c = None"
  shows "(AuthorizesColumn c product column \<longrightarrow> AuthorizesColumn g product column) \<and>
    Budget_Within (tg_Budget c) (tg_Budget g) \<and>
    AtMost (tg_SensitivityCeiling c) (tg_SensitivityCeiling g) \<and>
    tg_ExpiresAt c \<le> tg_ExpiresAt g \<and>
    (TaskGrant_ValidateAt c now = None \<longrightarrow> TaskGrant_ValidateAt g now = None)"
  using assms
  by (auto simp: TaskGrant_CheckNarrowing_None grant_product_expansion_None AuthorizesColumn_iff
      TaskGrant_ValidateAt_def no_error)

definition sample_grant :: TaskGrant where
  "sample_grant = \<lparr>tg_TaskID = ''t'', tg_Subject = ''s'', tg_Purpose = ''p'',
     tg_ApprovedProducts = [''orders'', ''items''],
     tg_ApprovedColumns = [(''items'', [''id'']), (''orders'', [''id'', ''month''])],
     tg_MandatoryScope = Some [(''region'', AnyStrings [''eu'', ''us''])],
     tg_SensitivityCeiling = SensitivityHigh,
     tg_Budget = \<lparr>b_MaxQueries = 5, b_MaxRows = 10, b_MaxDBTime = 9, b_PerQueryTimeout = 3,
       b_TaskTTL = 7, b_MaxReleaseFacts = 0, b_MaxInfluenceFacts = 0, b_MaxOutcomeFacts = 0,
       b_ExposureProfileVersion = [], b_PredicateFootprint = None\<rparr>,
     tg_ExpiresAt = 100, tg_CatalogVersion = ''1'', tg_ApprovalReceipt = ''r''\<rparr>"

definition sample_narrowed :: TaskGrant where
  "sample_narrowed = sample_grant\<lparr>tg_ApprovedProducts := [''orders''],
     tg_ApprovedColumns := [(''orders'', [''month''])],
     tg_MandatoryScope := Some [(''region'', AnyList [AnyString ''eu''])], tg_ExpiresAt := 90\<rparr>"

theorem TaskGrant_narrowing_sound_witness:
  "TaskGrant_CheckNarrowing sample_grant sample_narrowed = None \<and>
   AuthorizesColumn sample_narrowed ''orders'' ''month'' \<and>
   AuthorizesColumn sample_grant ''orders'' ''month'' \<and>
   TaskGrant_ValidateAt sample_grant 50 = None"
proof -
  have pass: "TaskGrant_CheckNarrowing sample_grant sample_narrowed = None"
    by code_simp
  have col: "AuthorizesColumn sample_narrowed ''orders'' ''month''"
    by code_simp
  have live: "TaskGrant_ValidateAt sample_narrowed 50 = None"
    by code_simp
  show ?thesis
    using TaskGrant_narrowing_sound [OF pass, of "''orders''" "''month''" 50] pass col live by blast
qed

end
