(* ===== verification/Ordinal_Roaring.thy ===== *)
theory Ordinal_Roaring
  imports Prelude
begin

text \<open>
  The interface of \<open>github.com/RoaringBitmap/roaring/v2\<close>, the bitmap library under
  \<open>internal/ordinal\<close>. The library is not part of the repository: its operations are a record
  that every definition of the ordinal theories takes as an argument, and what the code relies on
  are the laws of the locale \<open>roaring\<close> below, each a documented property of one operation
  (a bitmap is a set of 32-bit ordinals, iteration is ascending, serialization round-trips).

  The locale is interpreted on a reference implementation, sorted lists of ordinals, which shows
  that the laws can hold together and on which the witnesses evaluate.
\<close>

unbundle bit_operations_syntax

section \<open>Operations\<close>

type_synonym uint16 = "16 word"
type_synonym uint32 = "32 word"
type_synonym uint64 = "64 word"

text \<open>
  \<open>rb_values\<close> is the sequence an iterator of the bitmap returns. \<open>Clone\<close> is the identity,
  since bitmaps are values here. \<open>rb_Validate\<close> says whether \<open>Validate\<close> returns nil;
  \<open>MarshalBinary\<close> and \<open>UnmarshalBinary\<close> may fail.
\<close>

record 'b roaring_ops =
  rb_New :: 'b
  rb_Add :: "'b \<Rightarrow> uint32 \<Rightarrow> 'b"
  rb_AddMany :: "'b \<Rightarrow> uint32 list \<Rightarrow> 'b"
  rb_Contains :: "'b \<Rightarrow> uint32 \<Rightarrow> bool"
  rb_GetCardinality :: "'b \<Rightarrow> uint64"
  rb_IsEmpty :: "'b \<Rightarrow> bool"
  rb_Minimum :: "'b \<Rightarrow> uint32"
  rb_Maximum :: "'b \<Rightarrow> uint32"
  rb_values :: "'b \<Rightarrow> uint32 list"
  rb_Or :: "'b \<Rightarrow> 'b \<Rightarrow> 'b"
  rb_AndNot :: "'b \<Rightarrow> 'b \<Rightarrow> 'b"
  rb_And :: "'b \<Rightarrow> 'b \<Rightarrow> 'b"
  rb_Equals :: "'b \<Rightarrow> 'b \<Rightarrow> bool"
  rb_RunOptimize :: "'b \<Rightarrow> 'b"
  rb_Validate :: "'b \<Rightarrow> bool"
  rb_MarshalBinary :: "'b \<Rightarrow> byte list option"
  rb_UnmarshalBinary :: "byte list \<Rightarrow> 'b option"

section \<open>Laws\<close>

text \<open>
  \<open>good\<close> is the representation invariant of the library: what its own operations build, and
  what a decoded bitmap that passed \<open>Validate\<close> satisfies. \<open>Validate\<close> may refuse the
  empty bitmap.
\<close>

locale roaring =
  fixes R :: "'b roaring_ops" and good :: "'b \<Rightarrow> bool"
  assumes good_New: "good (rb_New R)" and values_New: "rb_values R (rb_New R) = []"
    and values_ascending: "good b \<Longrightarrow> sorted_wrt (<) (rb_values R b)"
    and good_Add: "good b \<Longrightarrow> good (rb_Add R b x)"
    and values_Add: "good b \<Longrightarrow> set (rb_values R (rb_Add R b x)) = insert x (set (rb_values R b))"
    and good_AddMany: "good b \<Longrightarrow> good (rb_AddMany R b xs)"
    and values_AddMany: "good b \<Longrightarrow> set (rb_values R (rb_AddMany R b xs)) = set xs \<union> set (rb_values R b)"
    and Contains: "good b \<Longrightarrow> rb_Contains R b x \<longleftrightarrow> x \<in> set (rb_values R b)"
    and GetCardinality: "good b \<Longrightarrow> rb_GetCardinality R b = of_nat (length (rb_values R b))"
    and IsEmpty: "good b \<Longrightarrow> rb_IsEmpty R b \<longleftrightarrow> rb_values R b = []"
    and Minimum: "good b \<Longrightarrow> rb_values R b \<noteq> [] \<Longrightarrow> rb_Minimum R b = hd (rb_values R b)"
    and Maximum: "good b \<Longrightarrow> rb_values R b \<noteq> [] \<Longrightarrow> rb_Maximum R b = last (rb_values R b)"
    and good_Or: "good a \<Longrightarrow> good b \<Longrightarrow> good (rb_Or R a b)"
    and values_Or: "good a \<Longrightarrow> good b \<Longrightarrow>
      set (rb_values R (rb_Or R a b)) = set (rb_values R a) \<union> set (rb_values R b)"
    and good_AndNot: "good a \<Longrightarrow> good b \<Longrightarrow> good (rb_AndNot R a b)"
    and values_AndNot: "good a \<Longrightarrow> good b \<Longrightarrow>
      set (rb_values R (rb_AndNot R a b)) = set (rb_values R a) - set (rb_values R b)"
    and good_And: "good a \<Longrightarrow> good b \<Longrightarrow> good (rb_And R a b)"
    and values_And: "good a \<Longrightarrow> good b \<Longrightarrow>
      set (rb_values R (rb_And R a b)) = set (rb_values R a) \<inter> set (rb_values R b)"
    and Equals: "good a \<Longrightarrow> good b \<Longrightarrow> rb_Equals R a b \<longleftrightarrow> rb_values R a = rb_values R b"
    and good_RunOptimize: "good b \<Longrightarrow> good (rb_RunOptimize R b)"
    and values_RunOptimize: "good b \<Longrightarrow> rb_values R (rb_RunOptimize R b) = rb_values R b"
    and Validate: "good b \<Longrightarrow> rb_values R b \<noteq> [] \<Longrightarrow> rb_Validate R b"
    and Validate_decoded: "rb_UnmarshalBinary R e = Some b \<Longrightarrow> rb_Validate R b \<Longrightarrow> good b"
    and MarshalBinary: "good b \<Longrightarrow> \<exists>e b'. rb_MarshalBinary R b = Some e \<and> e \<noteq> [] \<and>
      rb_UnmarshalBinary R e = Some b' \<and> rb_values R b' = rb_values R b \<and> good b'"
begin

lemmas good_ops [simp] = good_New good_Add good_AddMany good_Or good_AndNot good_And good_RunOptimize
lemmas values_ops [simp] = values_New values_Add values_AddMany values_Or values_AndNot values_And
  values_RunOptimize

text \<open>Bitmaps with the same elements iterate alike.\<close>

lemma values_unique:
  "good a \<Longrightarrow> sorted_wrt (<) xs \<Longrightarrow> set (rb_values R a) = set xs \<Longrightarrow> rb_values R a = xs"
  using strict_sorted_equal [OF _ values_ascending] by metis

lemma values_Add_last:
  assumes "good b" and "\<forall>y\<in>set (rb_values R b). y < x"
  shows "rb_values R (rb_Add R b x) = rb_values R b @ [x]"
  by (rule values_unique) (use assms in \<open>auto simp: sorted_wrt_append values_ascending\<close>)

lemma distinct_values: "good b \<Longrightarrow> distinct (rb_values R b)"
  using values_ascending strict_sorted_iff by blast

lemma GetCardinality_card: "good b \<Longrightarrow> rb_GetCardinality R b = of_nat (card (set (rb_values R b)))"
  by (simp add: GetCardinality distinct_card distinct_values)

end

section \<open>Reference implementation\<close>

fun merge_in :: "uint32 \<Rightarrow> uint32 list \<Rightarrow> uint32 list" where
  "merge_in x [] = [x]"
| "merge_in x (y # ys) = (if x < y then x # y # ys else if x = y then y # ys else y # merge_in x ys)"

fun decode_ordinals :: "byte list \<Rightarrow> uint32 list option" where
  "decode_ordinals [] = Some []"
| "decode_ordinals (a # b # c # d # rest) =
     (case decode_ordinals rest of
        None \<Rightarrow> None
      | Some xs \<Rightarrow>
          Some (of_nat (((unat a * 256 + unat b) * 256 + unat c) * 256 + unat d) # xs))"
| "decode_ordinals _ = None"

definition list_marshal :: "uint32 list \<Rightarrow> byte list" where
  "list_marshal xs = 1 # concat (map (\<lambda>x. big_endian 4 (unat x)) xs)"

definition list_roaring :: "uint32 list roaring_ops" where
  "list_roaring = \<lparr>rb_New = [], rb_Add = (\<lambda>b x. merge_in x b),
     rb_AddMany = (\<lambda>b xs. fold merge_in xs b), rb_Contains = (\<lambda>b x. x \<in> set b),
     rb_GetCardinality = (\<lambda>b. of_nat (length b)), rb_IsEmpty = (\<lambda>b. b = []),
     rb_Minimum = hd, rb_Maximum = last, rb_values = id,
     rb_Or = (\<lambda>a b. fold merge_in b a), rb_AndNot = (\<lambda>a b. filter (\<lambda>x. x \<notin> set b) a),
     rb_And = (\<lambda>a b. filter (\<lambda>x. x \<in> set b) a), rb_Equals = (\<lambda>a b. a = b),
     rb_RunOptimize = id, rb_Validate = (\<lambda>b. b \<noteq> [] \<and> sorted_wrt (<) b),
     rb_MarshalBinary = (\<lambda>b. Some (list_marshal b)),
     rb_UnmarshalBinary = (\<lambda>e. case e of [] \<Rightarrow> None | _ # bs \<Rightarrow> decode_ordinals bs)\<rparr>"

lemma merge_in_set [simp]: "set (merge_in x ys) = insert x (set ys)"
  by (induction ys) auto

lemma merge_in_ascending: "sorted_wrt (<) ys \<Longrightarrow> sorted_wrt (<) (merge_in x ys)"
  by (induction ys) (auto simp: order.strict_trans not_less order.order_iff_strict)

lemma fold_merge_in_ascending: "sorted_wrt (<) ys \<Longrightarrow> sorted_wrt (<) (fold merge_in xs ys)"
  by (induction xs arbitrary: ys) (auto simp: merge_in_ascending)

lemma fold_merge_in_set [simp]: "set (fold merge_in xs ys) = set xs \<union> set ys"
  by (induction xs arbitrary: ys) auto

lemma big_endian_4_decode:
  assumes "n < 4294967296"
  shows "decode_ordinals (big_endian 4 n @ rest) =
    map_option ((#) (of_nat n)) (decode_ordinals rest)"
proof -
  have join: "m div 256 * 256 + m mod 256 = m" for m :: nat by simp
  have top: "n div 256 div 256 div 256 mod 256 = n div 256 div 256 div 256"
    using assms by (simp add: div_mult2_eq [symmetric])
  have four: "(4 :: nat) = Suc (Suc (Suc (Suc 0)))" by simp
  have byte: "unat (of_nat m :: byte) = m mod 256" for m by (simp add: unat_of_nat)
  show ?thesis
    by (simp only: four big_endian.simps append.simps append_assoc decode_ordinals.simps
        byte top join) (simp split: option.splits)
qed

lemma decode_marshalled:
  "decode_ordinals (concat (map (\<lambda>x. big_endian 4 (unat x)) xs)) = Some xs"
proof (induction xs)
  case (Cons x xs)
  have "unat x < 4294967296" using unsigned_less [of x] by simp
  then show ?case by (simp only: list.map concat.simps big_endian_4_decode Cons) simp
qed simp

interpretation list_bitmap: roaring list_roaring "sorted_wrt (<)"
proof unfold_locales
  fix b :: "uint32 list"
  assume "sorted_wrt (<) b"
  then show "\<exists>e b'. rb_MarshalBinary list_roaring b = Some e \<and> e \<noteq> [] \<and>
      rb_UnmarshalBinary list_roaring e = Some b' \<and> rb_values list_roaring b' = rb_values list_roaring b \<and>
      sorted_wrt (<) b'"
    by (simp add: list_roaring_def list_marshal_def decode_marshalled)
qed (auto simp: list_roaring_def merge_in_ascending fold_merge_in_ascending sorted_wrt_filter)

end
