(* ===== verification/Ordinal_Bitmap.thy ===== *)
theory Ordinal_Bitmap
  imports Ordinal_Roaring "HOL-Library.Product_Lexorder"
begin

text \<open>
  \<open>internal/ordinal/bitmap.go\<close>: exact sets of canonical facts as one compressed bitmap per
  dictionary segment. The theory models the addresses (\<open>FactRef\<close>, \<open>SegmentRef\<close>,
  \<open>ContainerKey\<close>), the builder, the set operations, the portable containers and segments with
  their parsers, and the digests.

  A set denotes the set of its addresses, \<open>refs_of\<close>. The lemmas show that the operations
  refine the operations on sets, that the portable encodings round-trip, that what a parser
  accepts is well formed, and that a digest commits to the contents.
\<close>

section \<open>Definitions\<close>

subsection \<open>Errors\<close>

text \<open>The sentinels of \<open>errors.go\<close>; the texts wrapped around them are not modelled.\<close>

datatype ordinal_error =
    ErrInvalid
  | ErrDigestMismatch
  | ErrNonCanonical
  | ErrUnknownFact
  | ErrFactCollision
  | ErrMultiplicityOverflow

subsection \<open>Identifiers\<close>

text \<open>
  A byte outside ASCII makes \<open>hex.DecodeString\<close> fail, so what \<open>ToLower\<close> does to it
  does not matter to \<open>validDigest\<close>.
\<close>

definition hex_char :: "char \<Rightarrow> bool" where
  "hex_char c \<longleftrightarrow> (CHR ''0'' \<le> c \<and> c \<le> CHR ''9'') \<or> (CHR ''a'' \<le> c \<and> c \<le> CHR ''f'') \<or>
     (CHR ''A'' \<le> c \<and> c \<le> CHR ''F'')"

definition validDigest :: "go_string \<Rightarrow> bool" where
  "validDigest value =
     (if length value \<noteq> 64 \<or> map lower_ascii value \<noteq> value then False else list_all hex_char value)"

definition validID :: "go_string \<Rightarrow> bool" where
  "validID value \<longleftrightarrow>
     value \<noteq> [] \<and> value = TrimSpace value \<and> length value \<le> 256 \<and>
     \<not> list_ex (\<lambda>c. c \<in> set [CHR 0x00, CHR 0x0D, CHR 0x0A, CHR 0x09]) value"

datatype FactRef =
  FactRef (DictionaryDigest: go_string) (SegmentID: go_string) (Ordinal: uint32)

datatype SegmentRef =
  SegmentRef (seg_DictionaryDigest: go_string) (seg_SegmentID: go_string)

datatype ContainerKey =
  ContainerKey (key_DictionaryDigest: go_string) (key_SegmentID: go_string) (High16: uint16)

definition FactRef_Validate :: "FactRef \<Rightarrow> ordinal_error option" where
  "FactRef_Validate r =
     (if \<not> validDigest (DictionaryDigest r) then Some ErrInvalid
      else if \<not> validID (SegmentID r) then Some ErrInvalid
      else None)"

definition SegmentRef_Validate :: "SegmentRef \<Rightarrow> ordinal_error option" where
  "SegmentRef_Validate r =
     FactRef_Validate (FactRef (seg_DictionaryDigest r) (seg_SegmentID r) 0)"

definition FactRef_segment :: "FactRef \<Rightarrow> SegmentRef" where
  "FactRef_segment r = SegmentRef (DictionaryDigest r) (SegmentID r)"

definition ContainerKey_segment :: "ContainerKey \<Rightarrow> SegmentRef" where
  "ContainerKey_segment k = SegmentRef (key_DictionaryDigest k) (key_SegmentID k)"

definition ContainerKey_Validate :: "ContainerKey \<Rightarrow> ordinal_error option" where
  "ContainerKey_Validate k = SegmentRef_Validate (ContainerKey_segment k)"

text \<open>
  The order of segments the sources sort by: dictionary digest, then segment id, bytewise.
\<close>

instantiation SegmentRef :: linorder
begin

definition less_eq_SegmentRef :: "SegmentRef \<Rightarrow> SegmentRef \<Rightarrow> bool" where
  "less_eq_SegmentRef a b \<longleftrightarrow>
     (seg_DictionaryDigest a, seg_SegmentID a) \<le> (seg_DictionaryDigest b, seg_SegmentID b)"

definition less_SegmentRef :: "SegmentRef \<Rightarrow> SegmentRef \<Rightarrow> bool" where
  "less_SegmentRef a b =
     (if seg_DictionaryDigest a \<noteq> seg_DictionaryDigest b
      then seg_DictionaryDigest a < seg_DictionaryDigest b
      else seg_SegmentID a < seg_SegmentID b)"

instance
  by standard
    (auto simp: less_eq_SegmentRef_def less_SegmentRef_def less_eq_prod_def SegmentRef.expand)

end

subsection \<open>Sets and builders\<close>

text \<open>
  \<open>BitmapSet\<close> is its map of segments. The nil map and an allocated empty map are both the
  empty association list: the sources allocate before every write. A stored pointer is never nil,
  so a nil result of a lookup is an absent key.
\<close>

type_synonym 'b segment_map = "(SegmentRef, 'b) go_map"

type_synonym 'b BitmapSet = "'b segment_map"

record 'b Builder =
  bld_segments :: "'b segment_map"
  bld_err :: "ordinal_error option"

definition NewBuilder :: "'b Builder" where
  "NewBuilder = \<lparr>bld_segments = [], bld_err = None\<rparr>"

text \<open>A method that returns an error and changes the builder returns both.\<close>

definition Builder_Add ::
  "'b roaring_ops \<Rightarrow> 'b Builder \<Rightarrow> FactRef \<Rightarrow> ordinal_error option \<times> 'b Builder" where
  "Builder_Add R b ref =
     (case bld_err b of
        Some e \<Rightarrow> (Some e, b)
      | None \<Rightarrow>
        (case map_of (bld_segments b) (FactRef_segment ref) of
           Some bitmap \<Rightarrow>
             (None, b\<lparr>bld_segments := map_put (FactRef_segment ref) (rb_Add R bitmap (Ordinal ref))
               (bld_segments b)\<rparr>)
         | None \<Rightarrow>
             (case FactRef_Validate ref of
                Some e \<Rightarrow> (Some e, b\<lparr>bld_err := Some e\<rparr>)
              | None \<Rightarrow>
                  (None, b\<lparr>bld_segments := map_put (FactRef_segment ref)
                    (rb_Add R (rb_New R) (Ordinal ref)) (bld_segments b)\<rparr>))))"

fun Builder_AddMany ::
  "'b roaring_ops \<Rightarrow> 'b Builder \<Rightarrow> FactRef list \<Rightarrow> ordinal_error option \<times> 'b Builder" where
  "Builder_AddMany R b [] = (None, b)"
| "Builder_AddMany R b (ref # refs) =
     (case Builder_Add R b ref of
        (Some e, b') \<Rightarrow> (Some e, b')
      | (None, b') \<Rightarrow> Builder_AddMany R b' refs)"

definition cloneSegments :: "'b roaring_ops \<Rightarrow> 'b segment_map \<Rightarrow> 'b segment_map" where
  "cloneSegments R source = filter (\<lambda>(key, bitmap). \<not> rb_IsEmpty R bitmap) source"

definition Builder_Freeze :: "'b roaring_ops \<Rightarrow> 'b Builder \<Rightarrow> ordinal_error + 'b BitmapSet" where
  "Builder_Freeze R b =
     (case bld_err b of
        Some e \<Rightarrow> Inl e
      | None \<Rightarrow> Inr (cloneSegments R (bld_segments b)))"

definition NewBitmapSet :: "'b roaring_ops \<Rightarrow> FactRef list \<Rightarrow> ordinal_error + 'b BitmapSet" where
  "NewBitmapSet R refs =
     (case Builder_AddMany R NewBuilder refs of
        (Some e, _) \<Rightarrow> Inl e
      | (None, builder) \<Rightarrow> Builder_Freeze R builder)"

definition Cardinality :: "'b roaring_ops \<Rightarrow> 'b BitmapSet \<Rightarrow> uint64" where
  "Cardinality R s = foldl (\<lambda>result (key, bitmap). result + rb_GetCardinality R bitmap) 0 s"

definition IsEmpty :: "'b roaring_ops \<Rightarrow> 'b BitmapSet \<Rightarrow> bool" where
  "IsEmpty R s \<longleftrightarrow> Cardinality R s = 0"

definition Contains :: "'b roaring_ops \<Rightarrow> 'b BitmapSet \<Rightarrow> FactRef \<Rightarrow> bool" where
  "Contains R s ref =
     (if FactRef_Validate ref \<noteq> None then False
      else case map_of s (FactRef_segment ref) of
        None \<Rightarrow> False
      | Some bitmap \<Rightarrow> rb_Contains R bitmap (Ordinal ref))"

definition MaxOrdinal :: "'b roaring_ops \<Rightarrow> 'b BitmapSet \<Rightarrow> SegmentRef \<Rightarrow> uint32 option" where
  "MaxOrdinal R s segment =
     (case map_of s segment of
        None \<Rightarrow> None
      | Some bitmap \<Rightarrow> if rb_IsEmpty R bitmap then None else Some (rb_Maximum R bitmap))"

definition sortedSegmentRefs :: "'b roaring_ops \<Rightarrow> 'b segment_map \<Rightarrow> SegmentRef list" where
  "sortedSegmentRefs R segments =
     sort (map fst (filter (\<lambda>(key, bitmap). \<not> rb_IsEmpty R bitmap) segments))"

text \<open>\<open>s.segments[key]\<close> for a key of the map: the other branch is not reached.\<close>

definition bitmap_at :: "'b roaring_ops \<Rightarrow> 'b segment_map \<Rightarrow> SegmentRef \<Rightarrow> 'b" where
  "bitmap_at R segments key = (case map_of segments key of None \<Rightarrow> rb_New R | Some b \<Rightarrow> b)"

record SegmentBound =
  bound_Segment :: SegmentRef
  bound_Cardinality :: uint64
  bound_MinOrdinal :: uint32
  bound_MaxOrdinal :: uint32

definition SegmentBounds :: "'b roaring_ops \<Rightarrow> 'b BitmapSet \<Rightarrow> SegmentBound list" where
  "SegmentBounds R s =
     map (\<lambda>key. let bitmap = bitmap_at R s key in
       \<lparr>bound_Segment = key, bound_Cardinality = rb_GetCardinality R bitmap,
        bound_MinOrdinal = rb_Minimum R bitmap, bound_MaxOrdinal = rb_Maximum R bitmap\<rparr>)
     (sortedSegmentRefs R s)"

text \<open>
  The addresses \<open>Refs\<close> hands to its callback, in order, and the iteration itself: the callback
  is a function of the address and of the state it changes, and stops the iteration by returning
  false.
\<close>

definition ref_list :: "'b roaring_ops \<Rightarrow> 'b BitmapSet \<Rightarrow> FactRef list" where
  "ref_list R s =
     concat (map (\<lambda>key. map (FactRef (seg_DictionaryDigest key) (seg_SegmentID key))
       (rb_values R (bitmap_at R s key))) (sortedSegmentRefs R s))"

fun visit :: "('a \<Rightarrow> 's \<Rightarrow> bool \<times> 's) \<Rightarrow> 'a list \<Rightarrow> 's \<Rightarrow> 's" where
  "visit yield [] st = st"
| "visit yield (x # xs) st =
     (case yield x st of (True, st') \<Rightarrow> visit yield xs st' | (False, st') \<Rightarrow> st')"

definition Refs ::
  "'b roaring_ops \<Rightarrow> 'b BitmapSet \<Rightarrow> (FactRef \<Rightarrow> 's \<Rightarrow> bool \<times> 's) \<Rightarrow> 's \<Rightarrow> 's" where
  "Refs R s yield st = visit yield (ref_list R s) st"

subsection \<open>Set operations\<close>

definition Union :: "'b roaring_ops \<Rightarrow> 'b BitmapSet \<Rightarrow> 'b BitmapSet \<Rightarrow> 'b BitmapSet" where
  "Union R s other =
     foldl (\<lambda>result (key, right).
       case map_of result key of
         Some left \<Rightarrow> map_put key (rb_Or R left right) result
       | None \<Rightarrow> map_put key right result)
     (cloneSegments R s) other"

definition Difference :: "'b roaring_ops \<Rightarrow> 'b BitmapSet \<Rightarrow> 'b BitmapSet \<Rightarrow> 'b BitmapSet" where
  "Difference R s other =
     foldl (\<lambda>result (key, left).
       let bitmap = (case map_of other key of Some right \<Rightarrow> rb_AndNot R left right | None \<Rightarrow> left) in
       if \<not> rb_IsEmpty R bitmap then map_put key bitmap result else result)
     [] s"

definition Intersection :: "'b roaring_ops \<Rightarrow> 'b BitmapSet \<Rightarrow> 'b BitmapSet \<Rightarrow> 'b BitmapSet" where
  "Intersection R s other =
     foldl (\<lambda>result (key, left).
       case map_of other key of
         Some right \<Rightarrow>
           (let bitmap = rb_And R left right in
            if \<not> rb_IsEmpty R bitmap then map_put key bitmap result else result)
       | None \<Rightarrow> result)
     [] s"

definition Equal :: "'b roaring_ops \<Rightarrow> 'b BitmapSet \<Rightarrow> 'b BitmapSet \<Rightarrow> bool" where
  "Equal R s other =
     (if Cardinality R s \<noteq> Cardinality R other \<or> length s \<noteq> length other then False
      else list_all (\<lambda>(key, left).
        case map_of other key of None \<Rightarrow> False | Some right \<Rightarrow> rb_Equals R left right) s)"

subsection \<open>Canonical serialization\<close>

text \<open>
  The loop of \<open>marshalCanonicalBitmap\<close> fills a buffer and hands it to \<open>AddMany\<close> when it
  holds 4096 ordinals.
\<close>

fun normalize_loop :: "'b roaring_ops \<Rightarrow> uint32 list \<Rightarrow> 'b \<times> uint32 list \<Rightarrow> 'b \<times> uint32 list" where
  "normalize_loop R [] st = st"
| "normalize_loop R (v # vs) (normalized, buffer) =
     (let buffer' = buffer @ [v] in
      normalize_loop R vs
        (if length buffer' = 4096 then (rb_AddMany R normalized buffer', [])
         else (normalized, buffer')))"

definition normalized_bitmap :: "'b roaring_ops \<Rightarrow> uint32 list \<Rightarrow> 'b" where
  "normalized_bitmap R vs =
     (case normalize_loop R vs (rb_New R, []) of
        (normalized, buffer) \<Rightarrow>
          rb_RunOptimize R (if length buffer \<noteq> 0 then rb_AddMany R normalized buffer else normalized))"

definition marshalCanonicalBitmap :: "'b roaring_ops \<Rightarrow> 'b \<Rightarrow> ordinal_error + byte list" where
  "marshalCanonicalBitmap R source =
     (if rb_IsEmpty R source then Inl ErrInvalid
      else let normalized = normalized_bitmap R (rb_values R source) in
        if \<not> rb_Validate R normalized then Inl ErrInvalid
        else case rb_MarshalBinary R normalized of
          None \<Rightarrow> Inl ErrInvalid
        | Some encoded \<Rightarrow> Inr encoded)"

definition parseCanonicalBitmap :: "'b roaring_ops \<Rightarrow> byte list \<Rightarrow> ordinal_error + 'b" where
  "parseCanonicalBitmap R encoded =
     (if length encoded = 0 then Inl ErrInvalid
      else case rb_UnmarshalBinary R encoded of
        None \<Rightarrow> Inl ErrInvalid
      | Some bitmap \<Rightarrow>
          if \<not> rb_Validate R bitmap then Inl ErrInvalid
          else case marshalCanonicalBitmap R bitmap of
            Inl e \<Rightarrow> Inl e
          | Inr canonical \<Rightarrow> if canonical \<noteq> encoded then Inl ErrNonCanonical else Inr bitmap)"

subsection \<open>Digests\<close>

text \<open>
  \<open>sha\<close> stands for \<open>sha256.Sum256\<close>: the definitions fix the bytes that are hashed and
  take the hash function as an argument, so that what is shown holds whatever the function is.
\<close>

type_synonym hash_function = "byte list \<Rightarrow> byte list"

definition containerDigestDomain :: "byte list" where
  "containerDigestDomain = bytes_of (''TASKGATE-ORDINAL-CONTAINER-V1'' @ [CHR 0x00])"

definition segmentDigestDomain :: "byte list" where
  "segmentDigestDomain = bytes_of (''TASKGATE-ORDINAL-SEGMENT-V1'' @ [CHR 0x00])"

definition bitmapSetDigestDomain :: "byte list" where
  "bitmapSetDigestDomain = bytes_of (''TASKGATE-ORDINAL-BITMAP-SET-V1'' @ [CHR 0x00])"

definition container_preimage :: "ContainerKey \<Rightarrow> uint64 \<Rightarrow> byte list \<Rightarrow> byte list" where
  "container_preimage key cardinality encoded =
     containerDigestDomain @ frame_string (key_DictionaryDigest key) @
     frame_string (key_SegmentID key) @ big_endian 2 (unat (High16 key)) @
     big_endian 8 (unat cardinality) @ frame encoded"

definition containerDigest ::
  "hash_function \<Rightarrow> ContainerKey \<Rightarrow> uint64 \<Rightarrow> byte list \<Rightarrow> go_string" where
  "containerDigest sha key cardinality encoded =
     hex_encode (sha (container_preimage key cardinality encoded))"

definition segment_preimage :: "SegmentRef \<Rightarrow> uint64 \<Rightarrow> byte list \<Rightarrow> byte list" where
  "segment_preimage key cardinality encoded =
     segmentDigestDomain @ frame_string (seg_DictionaryDigest key) @
     frame_string (seg_SegmentID key) @ big_endian 8 (unat cardinality) @ frame encoded"

definition segmentDigest ::
  "hash_function \<Rightarrow> SegmentRef \<Rightarrow> uint64 \<Rightarrow> byte list \<Rightarrow> go_string" where
  "segmentDigest sha key cardinality encoded =
     hex_encode (sha (segment_preimage key cardinality encoded))"

subsection \<open>Portable containers\<close>

record PortableContainer =
  pc_Key :: ContainerKey
  pc_Bitmap :: "byte list"
  pc_Cardinality :: uint64
  pc_Digest :: go_string

definition high16 :: "uint32 \<Rightarrow> uint16" where
  "high16 value = ucast (drop_bit 16 value)"

text \<open>The closure \<open>flush\<close> of \<open>PortableContainers\<close>; \<open>None\<close> is the nil bitmap.\<close>

definition container_flush ::
  "'b roaring_ops \<Rightarrow> hash_function \<Rightarrow> SegmentRef \<Rightarrow> uint16 \<Rightarrow> 'b option \<Rightarrow>
   PortableContainer list \<Rightarrow> ordinal_error + PortableContainer list" where
  "container_flush R sha segment currentHigh current result =
     (case current of
        None \<Rightarrow> Inr result
      | Some bitmap \<Rightarrow>
          if rb_IsEmpty R bitmap then Inr result
          else case marshalCanonicalBitmap R bitmap of
            Inl e \<Rightarrow> Inl e
          | Inr encoded \<Rightarrow>
              (let key = ContainerKey (seg_DictionaryDigest segment) (seg_SegmentID segment) currentHigh;
                   cardinality = rb_GetCardinality R bitmap
               in Inr (result @
                 [\<lparr>pc_Key = key, pc_Bitmap = encoded, pc_Cardinality = cardinality,
                   pc_Digest = containerDigest sha key cardinality encoded\<rparr>])))"

fun container_loop ::
  "'b roaring_ops \<Rightarrow> hash_function \<Rightarrow> SegmentRef \<Rightarrow> uint32 list \<Rightarrow> uint16 \<Rightarrow> 'b option \<Rightarrow>
   PortableContainer list \<Rightarrow> ordinal_error + PortableContainer list" where
  "container_loop R sha segment [] currentHigh current result =
     container_flush R sha segment currentHigh current result"
| "container_loop R sha segment (value # values) currentHigh current result =
     (if current = None \<or> high16 value \<noteq> currentHigh
      then case container_flush R sha segment currentHigh current result of
        Inl e \<Rightarrow> Inl e
      | Inr result' \<Rightarrow>
          container_loop R sha segment values (high16 value) (Some (rb_Add R (rb_New R) value)) result'
      else container_loop R sha segment values currentHigh
        (map_option (\<lambda>bitmap. rb_Add R bitmap value) current) result)"

fun segments_loop ::
  "'b roaring_ops \<Rightarrow> hash_function \<Rightarrow> 'b segment_map \<Rightarrow> SegmentRef list \<Rightarrow>
   PortableContainer list \<Rightarrow> ordinal_error + PortableContainer list" where
  "segments_loop R sha s [] result = Inr result"
| "segments_loop R sha s (segment # segments) result =
     (case container_loop R sha segment (rb_values R (bitmap_at R s segment)) 0 None result of
        Inl e \<Rightarrow> Inl e
      | Inr result' \<Rightarrow> segments_loop R sha s segments result')"

definition PortableContainers ::
  "'b roaring_ops \<Rightarrow> hash_function \<Rightarrow> 'b BitmapSet \<Rightarrow> ordinal_error + PortableContainer list" where
  "PortableContainers R sha s = segments_loop R sha s (sortedSegmentRefs R s) []"

definition parse_container ::
  "'b roaring_ops \<Rightarrow> hash_function \<Rightarrow> ContainerKey list \<Rightarrow> PortableContainer \<Rightarrow> ordinal_error + 'b" where
  "parse_container R sha seen item =
     (if ContainerKey_Validate (pc_Key item) \<noteq> None then Inl ErrInvalid
      else if pc_Key item \<in> set seen then Inl ErrInvalid
      else case parseCanonicalBitmap R (pc_Bitmap item) of
        Inl e \<Rightarrow> Inl e
      | Inr bitmap \<Rightarrow>
          if rb_IsEmpty R bitmap \<or> rb_GetCardinality R bitmap \<noteq> pc_Cardinality item
          then Inl ErrInvalid
          else if \<not> list_all (\<lambda>value. high16 value = High16 (pc_Key item)) (rb_values R bitmap)
          then Inl ErrInvalid
          else if \<not> validDigest (pc_Digest item) \<or>
            pc_Digest item \<noteq> containerDigest sha (pc_Key item) (pc_Cardinality item) (pc_Bitmap item)
          then Inl ErrDigestMismatch
          else Inr bitmap)"

fun parse_containers_loop ::
  "'b roaring_ops \<Rightarrow> hash_function \<Rightarrow> PortableContainer list \<Rightarrow> ContainerKey list \<Rightarrow>
   'b segment_map \<Rightarrow> ordinal_error + 'b BitmapSet" where
  "parse_containers_loop R sha [] seen segments = Inr segments"
| "parse_containers_loop R sha (item # items) seen segments =
     (case parse_container R sha seen item of
        Inl e \<Rightarrow> Inl e
      | Inr bitmap \<Rightarrow>
          parse_containers_loop R sha items (pc_Key item # seen)
            (let segment = ContainerKey_segment (pc_Key item) in
             case map_of segments segment of
               None \<Rightarrow> map_put segment bitmap segments
             | Some present \<Rightarrow> map_put segment (rb_Or R present bitmap) segments))"

definition ParsePortableContainers ::
  "'b roaring_ops \<Rightarrow> hash_function \<Rightarrow> PortableContainer list \<Rightarrow> ordinal_error + 'b BitmapSet" where
  "ParsePortableContainers R sha items = parse_containers_loop R sha items [] []"

subsection \<open>Portable segments\<close>

record PortableSegment =
  ps_Segment :: SegmentRef
  ps_Bitmap :: "byte list"
  ps_Cardinality :: uint64
  ps_Digest :: go_string

fun portable_segments_loop ::
  "'b roaring_ops \<Rightarrow> hash_function \<Rightarrow> 'b segment_map \<Rightarrow> SegmentRef list \<Rightarrow>
   PortableSegment list \<Rightarrow> ordinal_error + PortableSegment list" where
  "portable_segments_loop R sha s [] result = Inr result"
| "portable_segments_loop R sha s (segment # segments) result =
     (case marshalCanonicalBitmap R (bitmap_at R s segment) of
        Inl e \<Rightarrow> Inl e
      | Inr encoded \<Rightarrow>
          (let cardinality = rb_GetCardinality R (bitmap_at R s segment) in
           portable_segments_loop R sha s segments (result @
             [\<lparr>ps_Segment = segment, ps_Bitmap = encoded, ps_Cardinality = cardinality,
               ps_Digest = segmentDigest sha segment cardinality encoded\<rparr>])))"

definition PortableSegments ::
  "'b roaring_ops \<Rightarrow> hash_function \<Rightarrow> 'b BitmapSet \<Rightarrow> ordinal_error + PortableSegment list" where
  "PortableSegments R sha s = portable_segments_loop R sha s (sortedSegmentRefs R s) []"

fun parse_segments_loop ::
  "'b roaring_ops \<Rightarrow> hash_function \<Rightarrow> PortableSegment list \<Rightarrow> 'b segment_map \<Rightarrow>
   ordinal_error + 'b BitmapSet" where
  "parse_segments_loop R sha [] segments = Inr segments"
| "parse_segments_loop R sha (item # items) segments =
     (if SegmentRef_Validate (ps_Segment item) \<noteq> None then Inl ErrInvalid
      else if map_of segments (ps_Segment item) \<noteq> None then Inl ErrInvalid
      else case parseCanonicalBitmap R (ps_Bitmap item) of
        Inl e \<Rightarrow> Inl e
      | Inr bitmap \<Rightarrow>
          if rb_IsEmpty R bitmap \<or> rb_GetCardinality R bitmap \<noteq> ps_Cardinality item
          then Inl ErrInvalid
          else if \<not> validDigest (ps_Digest item) \<or>
            ps_Digest item \<noteq> segmentDigest sha (ps_Segment item) (ps_Cardinality item) (ps_Bitmap item)
          then Inl ErrDigestMismatch
          else parse_segments_loop R sha items (map_put (ps_Segment item) bitmap segments))"

definition ParsePortableSegments ::
  "'b roaring_ops \<Rightarrow> hash_function \<Rightarrow> PortableSegment list \<Rightarrow> ordinal_error + 'b BitmapSet" where
  "ParsePortableSegments R sha items = parse_segments_loop R sha items []"

subsection \<open>The digest of a set\<close>

definition container_entry :: "PortableContainer \<Rightarrow> byte list" where
  "container_entry item =
     frame_string (key_DictionaryDigest (pc_Key item)) @ frame_string (key_SegmentID (pc_Key item)) @
     big_endian 2 (unat (High16 (pc_Key item))) @ big_endian 8 (unat (pc_Cardinality item)) @
     frame_string (pc_Digest item)"

definition bitmap_set_preimage :: "PortableContainer list \<Rightarrow> byte list" where
  "bitmap_set_preimage containers =
     bitmapSetDigestDomain @ big_endian 8 (length containers) @ concat (map container_entry containers)"

definition BitmapSet_Digest ::
  "'b roaring_ops \<Rightarrow> hash_function \<Rightarrow> 'b BitmapSet \<Rightarrow> ordinal_error + go_string" where
  "BitmapSet_Digest R sha s =
     (case PortableContainers R sha s of
        Inl e \<Rightarrow> Inl e
      | Inr containers \<Rightarrow> Inr (hex_encode (sha (bitmap_set_preimage containers))))"

text \<open>\<open>math.MaxUint64\<close> is \<open>- 1\<close> as a 64-bit word.\<close>

definition checkedAdd :: "uint64 \<Rightarrow> uint64 \<Rightarrow> ordinal_error + uint64" where
  "checkedAdd left right =
     (if right > - 1 - left then Inl ErrMultiplicityOverflow else Inr (left + right))"

subsection \<open>Meaning and invariant\<close>

definition refs_of :: "'b roaring_ops \<Rightarrow> 'b BitmapSet \<Rightarrow> FactRef set" where
  "refs_of R s =
     {r. \<exists>bitmap. map_of s (FactRef_segment r) = Some bitmap \<and> Ordinal r \<in> set (rb_values R bitmap)}"

definition segment_refs :: "'b roaring_ops \<Rightarrow> SegmentRef \<Rightarrow> 'b \<Rightarrow> FactRef set" where
  "segment_refs R k b =
     FactRef (seg_DictionaryDigest k) (seg_SegmentID k) ` set (rb_values R b)"

text \<open>Distinct valid segments, each with a well-formed bitmap that is not empty.\<close>

definition BitmapSet_ok :: "'b roaring_ops \<Rightarrow> ('b \<Rightarrow> bool) \<Rightarrow> 'b BitmapSet \<Rightarrow> bool" where
  "BitmapSet_ok R good s \<longleftrightarrow>
     go_map_ok s \<and>
     (\<forall>(key, bitmap) \<in> set s.
        SegmentRef_Validate key = None \<and> good bitmap \<and> rb_values R bitmap \<noteq> [])"

text \<open>The order in which \<open>Refs\<close> visits: dictionary digest, segment id, ordinal.\<close>

definition ref_before :: "FactRef \<Rightarrow> FactRef \<Rightarrow> bool" where
  "ref_before r r' \<longleftrightarrow> FactRef_segment r < FactRef_segment r' \<or>
     (FactRef_segment r = FactRef_segment r' \<and> Ordinal r < Ordinal r')"

text \<open>What the code relies on of a digest: it has 32 bytes.\<close>

definition digest_function :: "hash_function \<Rightarrow> bool" where
  "digest_function sha \<longleftrightarrow> (\<forall>x. length (sha x) = 32)"

section \<open>Lemmas\<close>

subsection \<open>Identifiers and words\<close>

lemma lower_ascii_upper: "CHR ''A'' \<le> c \<Longrightarrow> c \<le> CHR ''F'' \<Longrightarrow> lower_ascii c \<noteq> c"
proof
  assume bounds: "CHR ''A'' \<le> c" "c \<le> CHR ''F''" and eq: "lower_ascii c = c"
  then have less: "(of_char c :: nat) \<le> 70" and Z: "c \<le> CHR ''Z''"
    by (auto simp: less_eq_char_def)
  with bounds eq have "char_of ((of_char c :: nat) + 32) = c" by (simp add: lower_ascii_def)
  then have "of_char (char_of ((of_char c :: nat) + 32)) = (of_char c :: nat)" by simp
  with less show False by simp
qed

lemma lower_ascii_other: "\<not> (CHR ''A'' \<le> c \<and> c \<le> CHR ''Z'') \<Longrightarrow> lower_ascii c = c"
  by (auto simp: lower_ascii_def)

lemma validDigest_iff: "validDigest s \<longleftrightarrow> lower_sha256_hex s"
proof -
  have "lower_ascii c = c \<and> hex_char c \<longleftrightarrow> lower_hex_char c" for c
    using lower_ascii_upper [of c] lower_ascii_other [of c]
    by (auto simp: hex_char_def lower_hex_char_def less_eq_char_def)
  moreover have "map lower_ascii s = s \<longleftrightarrow> (\<forall>c\<in>set s. lower_ascii c = c)"
    by (induction s) auto
  ultimately show ?thesis
    by (auto simp: validDigest_def lower_sha256_hex_def list_all_iff)
qed

lemma validDigest_hex_encode: "length bs = 32 \<Longrightarrow> validDigest (hex_encode bs)"
  by (simp add: validDigest_iff hex_encode_sha256)

lemma FactRef_Validate_segment: "FactRef_Validate r = SegmentRef_Validate (FactRef_segment r)"
  by (simp add: SegmentRef_Validate_def FactRef_Validate_def FactRef_segment_def)

lemma FactRef_segment_FactRef [simp]:
  "FactRef_segment (FactRef (seg_DictionaryDigest k) (seg_SegmentID k) x) = k"
  by (simp add: FactRef_segment_def)

lemma FactRef_eq_iff: "r = r' \<longleftrightarrow> FactRef_segment r = FactRef_segment r' \<and> Ordinal r = Ordinal r'"
  by (cases r; cases r') (auto simp: FactRef_segment_def)

text \<open>\<open>checkedAdd\<close> is addition of natural numbers, or the overflow error.\<close>

lemma checkedAdd_Inr:
  "checkedAdd a b = Inr c \<longleftrightarrow> unat a + unat b < 2 ^ 64 \<and> c = a + b"
proof -
  have "unat (- 1 :: uint64) = 2 ^ 64 - 1"
    by (simp add: unsigned_minus_1_eq_mask mask_eq_exp_minus_1)
  then have "unat (- 1 - a) = 2 ^ 64 - 1 - unat a"
    by (simp add: unat_sub)
  then have "b > - 1 - a \<longleftrightarrow> \<not> unat a + unat b < 2 ^ 64"
    using unsigned_less [of a, where ?'a = nat] by (simp add: word_less_nat_alt) linarith
  then show ?thesis by (auto simp: checkedAdd_def)
qed

lemma checkedAdd_Inl: "checkedAdd a b = Inl e \<longleftrightarrow> \<not> unat a + unat b < 2 ^ 64 \<and> e = ErrMultiplicityOverflow"
  using checkedAdd_Inr [of a b "a + b"] by (auto simp: checkedAdd_def)

lemma unat_add_exact: "unat (a :: uint64) + unat b < 2 ^ 64 \<Longrightarrow> unat (a + b) = unat a + unat b"
  by (simp add: unat_word_ariths(1))

lemma framable_identifier: "validDigest d \<Longrightarrow> framable d" "validID i \<Longrightarrow> framable i"
  by (auto simp: validDigest_def validID_def split: if_splits)

lemma word_big_endian_inject:
  "big_endian 2 (unat (a :: uint16)) @ xs = big_endian 2 (unat b) @ ys \<longleftrightarrow> a = b \<and> xs = ys"
  "big_endian 4 (unat (e :: uint32)) @ xs = big_endian 4 (unat f) @ ys \<longleftrightarrow> e = f \<and> xs = ys"
  "big_endian 8 (unat (c :: uint64)) @ xs = big_endian 8 (unat d) @ ys \<longleftrightarrow> c = d \<and> xs = ys"
  using unsigned_less [of a, where ?'a = nat] unsigned_less [of b, where ?'a = nat]
    unsigned_less [of e, where ?'a = nat] unsigned_less [of f, where ?'a = nat]
    unsigned_less [of c, where ?'a = nat] unsigned_less [of d, where ?'a = nat]
  by (auto simp: big_endian_inject word_eq_iff_unsigned [where ?'a = nat])

subsection \<open>Denotation of a list of segments\<close>

lemma refs_of_Nil [simp]: "refs_of R [] = {}"
  by (simp add: refs_of_def)

lemma mem_segment_refs:
  "r \<in> segment_refs R k b \<longleftrightarrow> FactRef_segment r = k \<and> Ordinal r \<in> set (rb_values R b)"
  by (cases r) (auto simp: segment_refs_def FactRef_segment_def)

lemma refs_of_UN:
  "go_map_ok s \<Longrightarrow> refs_of R s = (\<Union>(k, b)\<in>set s. segment_refs R k b)"
  by (auto simp: refs_of_def mem_segment_refs map_of_eq_Some_iff)

lemma refs_of_put_new:
  "map_of s k = None \<Longrightarrow> refs_of R (map_put k b s) = segment_refs R k b \<union> refs_of R s"
  by (auto simp: refs_of_def mem_segment_refs)

lemma refs_of_put:
  "refs_of R (map_put k b s) = segment_refs R k b \<union> {r \<in> refs_of R s. FactRef_segment r \<noteq> k}"
proof (rule set_eqI)
  fix r
  show "r \<in> refs_of R (map_put k b s) \<longleftrightarrow>
      r \<in> segment_refs R k b \<union> {r \<in> refs_of R s. FactRef_segment r \<noteq> k}"
    by (cases "FactRef_segment r = k") (simp_all add: refs_of_def mem_segment_refs)
qed

lemma refs_of_split:
  assumes "map_of s k = Some b"
  shows "refs_of R s = segment_refs R k b \<union> {r \<in> refs_of R s. FactRef_segment r \<noteq> k}"
proof (rule set_eqI)
  fix r
  show "r \<in> refs_of R s \<longleftrightarrow> r \<in> segment_refs R k b \<union> {r \<in> refs_of R s. FactRef_segment r \<noteq> k}"
    using assms by (cases "FactRef_segment r = k") (simp_all add: refs_of_def mem_segment_refs)
qed

lemma BitmapSet_okD:
  assumes "BitmapSet_ok R good s" and "map_of s k = Some b"
  shows "SegmentRef_Validate k = None" and "good b" and "rb_values R b \<noteq> []"
  using assms(1) map_of_SomeD [OF assms(2)] by (auto simp: BitmapSet_ok_def)

lemma BitmapSet_ok_alt:
  "BitmapSet_ok R good s \<longleftrightarrow> go_map_ok s \<and>
     (\<forall>k b. map_of s k = Some b \<longrightarrow> SegmentRef_Validate k = None \<and> good b \<and> rb_values R b \<noteq> [])"
  by (auto simp: BitmapSet_ok_def map_of_eq_Some_iff cong: conj_cong)

lemma BitmapSet_ok_Nil [simp]: "BitmapSet_ok R good []"
  by (simp add: BitmapSet_ok_def)

lemma BitmapSet_ok_put:
  "BitmapSet_ok R good s \<Longrightarrow> SegmentRef_Validate k = None \<Longrightarrow> good b \<Longrightarrow> rb_values R b \<noteq> [] \<Longrightarrow>
   BitmapSet_ok R good (map_put k b s)"
  by (auto simp: BitmapSet_ok_alt)

lemma go_map_ok_filter: "go_map_ok m \<Longrightarrow> go_map_ok (filter P m)"
  by (induction m) auto

text \<open>Membership in the denotation implies a valid address.\<close>

lemma refs_of_valid: "BitmapSet_ok R good s \<Longrightarrow> r \<in> refs_of R s \<Longrightarrow> FactRef_Validate r = None"
  by (auto simp: refs_of_def FactRef_Validate_segment dest: BitmapSet_okD)

text \<open>
  The operations are loops that put entries; these are their bodies as functions of the key, the
  visited value and the value already there.
\<close>

lemma Union_put_loop:
  "Union R s t = foldl (put_step (\<lambda>k right old.
     case old of Some left \<Rightarrow> Some (rb_Or R left right) | None \<Rightarrow> Some right)) (cloneSegments R s) t"
  unfolding Union_def
  by (rule foldl_cong) (auto simp: put_step_def split: option.splits)

lemma Difference_put_loop:
  "Difference R s t = foldl (put_step (\<lambda>k left old.
     let bitmap = (case map_of t k of Some right \<Rightarrow> rb_AndNot R left right | None \<Rightarrow> left) in
     if \<not> rb_IsEmpty R bitmap then Some bitmap else None)) [] s"
  unfolding Difference_def
  by (rule foldl_cong) (auto simp: put_step_def Let_def split: option.splits)

lemma Intersection_put_loop:
  "Intersection R s t = foldl (put_step (\<lambda>k left old.
     case map_of t k of
       Some right \<Rightarrow> if \<not> rb_IsEmpty R (rb_And R left right) then Some (rb_And R left right) else None
     | None \<Rightarrow> None)) [] s"
  unfolding Intersection_def
  by (rule foldl_cong) (auto simp: put_step_def Let_def split: option.splits)

subsection \<open>The set operations refine operations on sets\<close>

context roaring
begin

lemma cloneSegments_ok: "BitmapSet_ok R good s \<Longrightarrow> cloneSegments R s = s"
  unfolding cloneSegments_def by (rule filter_True) (auto simp: BitmapSet_ok_def IsEmpty)

lemma map_of_Union:
  assumes "BitmapSet_ok R good s" and "BitmapSet_ok R good t"
  shows "map_of (Union R s t) k =
    (case map_of t k of
       None \<Rightarrow> map_of s k
     | Some right \<Rightarrow>
         (case map_of s k of None \<Rightarrow> Some right | Some left \<Rightarrow> Some (rb_Or R left right)))"
  using assms(2)
  by (simp add: Union_put_loop map_of_put_loop cloneSegments_ok [OF assms(1)] BitmapSet_ok_def
      split: option.splits)

lemma map_of_Difference:
  assumes "go_map_ok s"
  shows "map_of (Difference R s t) k =
    (case map_of s k of
       None \<Rightarrow> None
     | Some left \<Rightarrow>
         (let bitmap = (case map_of t k of Some right \<Rightarrow> rb_AndNot R left right | None \<Rightarrow> left) in
          if \<not> rb_IsEmpty R bitmap then Some bitmap else None))"
  by (simp add: Difference_put_loop map_of_put_loop assms Let_def split: option.splits)

lemma map_of_Intersection:
  assumes "go_map_ok s"
  shows "map_of (Intersection R s t) k =
    (case map_of s k of
       None \<Rightarrow> None
     | Some left \<Rightarrow>
         (case map_of t k of
            None \<Rightarrow> None
          | Some right \<Rightarrow>
              if \<not> rb_IsEmpty R (rb_And R left right) then Some (rb_And R left right) else None))"
  by (simp add: Intersection_put_loop map_of_put_loop assms split: option.splits)

lemma Union_refines [set_algebra]:
  assumes "BitmapSet_ok R good s" and "BitmapSet_ok R good t"
  shows "BitmapSet_ok R good (Union R s t)" and "refs_of R (Union R s t) = refs_of R s \<union> refs_of R t"
proof -
  have "go_map_ok (Union R s t)"
    using assms by (simp add: Union_put_loop go_map_ok_put_loop cloneSegments_ok BitmapSet_ok_def)
  moreover have "rb_values R (rb_Or R a b) \<noteq> []" if "good a" "good b" "rb_values R a \<noteq> []" for a b
    using values_Or [OF that(1,2)] that(3) by (metis empty_set sup_eq_bot_iff set_empty)
  ultimately show "BitmapSet_ok R good (Union R s t)"
    using assms
    by (auto simp: BitmapSet_ok_alt map_of_Union split: option.splits)
  show "refs_of R (Union R s t) = refs_of R s \<union> refs_of R t"
    using BitmapSet_okD(2) [OF assms(1)] BitmapSet_okD(2) [OF assms(2)]
    by (fastforce simp: refs_of_def map_of_Union [OF assms] split: option.splits)
qed

lemma Difference_refines [set_algebra]:
  assumes "BitmapSet_ok R good s" and "BitmapSet_ok R good t"
  shows "BitmapSet_ok R good (Difference R s t)"
    and "refs_of R (Difference R s t) = refs_of R s - refs_of R t"
proof -
  have s: "go_map_ok s" using assms by (simp add: BitmapSet_ok_def)
  have "go_map_ok (Difference R s t)"
    by (simp add: Difference_put_loop go_map_ok_put_loop)
  then show "BitmapSet_ok R good (Difference R s t)"
    using assms
    by (auto simp: BitmapSet_ok_alt map_of_Difference [OF s] Let_def IsEmpty
        split: option.splits if_splits)
  show "refs_of R (Difference R s t) = refs_of R s - refs_of R t"
    using BitmapSet_okD(2) [OF assms(1)] BitmapSet_okD(2) [OF assms(2)]
    by (fastforce simp: refs_of_def map_of_Difference [OF s] Let_def IsEmpty values_AndNot
        simp flip: set_empty split: option.splits if_splits)
qed

lemma Intersection_refines [set_algebra]:
  assumes "BitmapSet_ok R good s" and "BitmapSet_ok R good t"
  shows "BitmapSet_ok R good (Intersection R s t)"
    and "refs_of R (Intersection R s t) = refs_of R s \<inter> refs_of R t"
proof -
  have s: "go_map_ok s" using assms by (simp add: BitmapSet_ok_def)
  have "go_map_ok (Intersection R s t)"
    by (simp add: Intersection_put_loop go_map_ok_put_loop)
  then show "BitmapSet_ok R good (Intersection R s t)"
    using assms
    by (auto simp: BitmapSet_ok_alt map_of_Intersection [OF s] IsEmpty
        split: option.splits if_splits)
  show "refs_of R (Intersection R s t) = refs_of R s \<inter> refs_of R t"
    using BitmapSet_okD(2) [OF assms(1)] BitmapSet_okD(2) [OF assms(2)]
    by (fastforce simp: refs_of_def map_of_Intersection [OF s] IsEmpty values_And
        simp flip: set_empty split: option.splits if_splits)
qed

lemma Contains_refines [set_algebra]:
  assumes "BitmapSet_ok R good s"
  shows "Ordinal_Bitmap.Contains R s r \<longleftrightarrow> r \<in> refs_of R s"
  using refs_of_valid [OF assms, of r] BitmapSet_okD(2) [OF assms]
  by (auto simp: Ordinal_Bitmap.Contains_def refs_of_def Contains split: option.splits)

lemma MaxOrdinal_refines:
  assumes "BitmapSet_ok R good s"
  shows "MaxOrdinal R s k = Some x \<longleftrightarrow>
    (\<exists>b. map_of s k = Some b \<and> x = Max (set (rb_values R b)))"
proof -
  have "last (rb_values R b) = Max (set (rb_values R b))" if "map_of s k = Some b" for b
    using BitmapSet_okD [OF assms that] by (simp add: ascending_last_Max values_ascending)
  then show ?thesis
    using BitmapSet_okD(2,3) [OF assms]
    by (fastforce simp: MaxOrdinal_def IsEmpty Maximum split: option.splits)
qed

subsection \<open>Cardinality\<close>

lemma Cardinality_sum: "Cardinality R s = (\<Sum>(k, b)\<leftarrow>s. rb_GetCardinality R b)"
proof -
  have "foldl (\<lambda>result (key, bitmap). result + rb_GetCardinality R bitmap) acc s =
      acc + (\<Sum>(k, b)\<leftarrow>s. rb_GetCardinality R b)" for acc
    by (induction s arbitrary: acc) auto
  then show ?thesis by (simp add: Cardinality_def)
qed

lemma card_segment_refs: "good b \<Longrightarrow> card (segment_refs R k b) = length (rb_values R b)"
  by (simp add: segment_refs_def card_image inj_on_def distinct_card distinct_values)

lemma finite_segment_refs: "finite (segment_refs R k b)"
  by (simp add: segment_refs_def)

lemma finite_refs_of: "go_map_ok s \<Longrightarrow> finite (refs_of R s)"
  by (auto simp: refs_of_UN segment_refs_def)

lemma BitmapSet_ok_Cons:
  "BitmapSet_ok R good ((k, b) # s) \<longleftrightarrow>
     BitmapSet_ok R good s \<and> k \<notin> fst ` set s \<and> SegmentRef_Validate k = None \<and> good b \<and>
     rb_values R b \<noteq> []"
  by (auto simp: BitmapSet_ok_def)

lemma refs_of_Cons:
  "k \<notin> fst ` set s \<Longrightarrow> refs_of R ((k, b) # s) = segment_refs R k b \<union> refs_of R s"
  using map_of_eq_None_iff [of s k] by (auto simp: refs_of_def mem_segment_refs)

lemma Cardinality_refines [set_algebra]:
  "BitmapSet_ok R good s \<Longrightarrow> Cardinality R s = of_nat (card (refs_of R s))"
  unfolding Cardinality_sum
proof (induction s)
  case (Cons p s)
  obtain k b where p: "p = (k, b)" by (cases p)
  with Cons.prems have s: "BitmapSet_ok R good s" and k: "k \<notin> fst ` set s" and b: "good b"
    by (auto simp: BitmapSet_ok_Cons)
  have "segment_refs R k b \<inter> refs_of R s = {}"
    using k map_of_eq_None_iff [of s k] by (auto simp: refs_of_def mem_segment_refs)
  then have "card (refs_of R (p # s)) = length (rb_values R b) + card (refs_of R s)"
    using s finite_refs_of [of s] p k b
    by (simp add: refs_of_Cons card_Un_disjoint finite_segment_refs card_segment_refs BitmapSet_ok_def)
  with Cons.IH [OF s] p b show ?case by (simp add: GetCardinality)
qed simp

lemma IsEmpty_refines:
  assumes "BitmapSet_ok R good s" and "card (refs_of R s) < 2 ^ 64"
  shows "Ordinal_Bitmap.IsEmpty R s \<longleftrightarrow> refs_of R s = {}"
proof -
  have "unat (Cardinality R s) = card (refs_of R s)"
    using assms by (simp add: Cardinality_refines unat_of_nat)
  then have "Ordinal_Bitmap.IsEmpty R s \<longleftrightarrow> card (refs_of R s) = 0"
    by (metis Ordinal_Bitmap.IsEmpty_def unat_eq_zero)
  then show ?thesis
    using assms(1) finite_refs_of [of s] by (simp add: BitmapSet_ok_def)
qed

lemma refs_of_keys:
  assumes "BitmapSet_ok R good s" and "BitmapSet_ok R good t" and "refs_of R s = refs_of R t"
    and "map_of s k = Some b"
  shows "\<exists>b'. map_of t k = Some b' \<and> rb_values R b' = rb_values R b"
proof -
  have mem: "x \<in> set (rb_values R b) \<longleftrightarrow>
      (\<exists>b'. map_of t k = Some b' \<and> x \<in> set (rb_values R b'))" for x
    using assms(3,4) by (auto simp: refs_of_def set_eq_iff dest: spec [of _ "FactRef (seg_DictionaryDigest k) (seg_SegmentID k) x"])
  obtain x where "x \<in> set (rb_values R b)"
    using BitmapSet_okD(3) [OF assms(1,4)] by (meson last_in_set)
  with mem obtain b' where b': "map_of t k = Some b'" by blast
  with mem have "set (rb_values R b') = set (rb_values R b)" by auto
  then have "rb_values R b' = rb_values R b"
    using BitmapSet_okD(2) [OF assms(1,4)] BitmapSet_okD(2) [OF assms(2) b']
    by (simp add: values_unique values_ascending)
  with b' show ?thesis by blast
qed

lemma refs_of_dom:
  "BitmapSet_ok R good s \<Longrightarrow> fst ` set s = FactRef_segment ` refs_of R s"
proof (rule set_eqI)
  fix k
  assume ok: "BitmapSet_ok R good s"
  have "k \<in> fst ` set s \<longleftrightarrow> (\<exists>b. map_of s k = Some b)"
    using map_of_eq_None_iff [of s k] by auto
  also have "\<dots> \<longleftrightarrow> (\<exists>b x. map_of s k = Some b \<and> x \<in> set (rb_values R b))"
    using BitmapSet_okD(3) [OF ok] by (metis last_in_set)
  also have "\<dots> \<longleftrightarrow> k \<in> FactRef_segment ` refs_of R s"
    by (force simp: refs_of_def image_iff intro: exI [of _ "FactRef (seg_DictionaryDigest k) (seg_SegmentID k) x" for x])
  finally show "k \<in> fst ` set s \<longleftrightarrow> k \<in> FactRef_segment ` refs_of R s" .
qed

lemma Equal_refines [set_algebra]:
  assumes s: "BitmapSet_ok R good s" and t: "BitmapSet_ok R good t"
  shows "Equal R s t \<longleftrightarrow> refs_of R s = refs_of R t"
proof
  assume "Equal R s t"
  then have len: "length s = length t" and all: "\<And>k b. (k, b) \<in> set s \<Longrightarrow>
      \<exists>b'. map_of t k = Some b' \<and> rb_Equals R b b'"
    by (auto simp: Equal_def list_all_iff split: if_splits option.splits)
  have vals: "\<exists>b'. map_of t k = Some b' \<and> rb_values R b' = rb_values R b" if "map_of s k = Some b" for k b
    using all [OF map_of_SomeD [OF that]] BitmapSet_okD(2) [OF s that] BitmapSet_okD(2) [OF t]
    by (auto simp: Equals)
  have "fst ` set s \<subseteq> fst ` set t"
    using all by (force dest: map_of_SomeD)
  moreover have "card (fst ` set s) = card (fst ` set t)"
    using s t len distinct_card [of "map fst s"] distinct_card [of "map fst t"]
    by (simp add: BitmapSet_ok_def)
  ultimately have keys: "fst ` set s = fst ` set t" by (simp add: card_subset_eq)
  have "map_of s k = None \<longleftrightarrow> map_of t k = None" for k
    using keys by (simp add: map_of_eq_None_iff)
  with vals show "refs_of R s = refs_of R t"
    by (auto simp: refs_of_def) (metis option.exhaust option.inject)+
next
  assume eq: "refs_of R s = refs_of R t"
  have "card (fst ` set s) = card (fst ` set t)"
    by (simp add: refs_of_dom s t eq)
  then have "length s = length t"
    using s t distinct_card [of "map fst s"] distinct_card [of "map fst t"]
    by (simp add: BitmapSet_ok_def)
  moreover have "\<exists>b'. map_of t k = Some b' \<and> rb_Equals R b b'" if "(k, b) \<in> set s" for k b
  proof -
    have b: "map_of s k = Some b" using that s by (simp add: BitmapSet_ok_def)
    from refs_of_keys [OF s t eq b] BitmapSet_okD(2) [OF s b] BitmapSet_okD(2) [OF t]
    show ?thesis by (auto simp: Equals)
  qed
  ultimately show "Equal R s t"
    using s t eq by (force simp: Equal_def list_all_iff Cardinality_refines split: option.splits)
qed

end

subsection \<open>Building a set\<close>

lemma FactRef_Validate_error: "FactRef_Validate r = Some e \<Longrightarrow> e = ErrInvalid"
  by (simp add: FactRef_Validate_def split: if_splits)

context roaring
begin

lemma refs_of_put_Add:
  assumes "good b" and "map_of s (FactRef_segment r) = Some b"
  shows "refs_of R (map_put (FactRef_segment r) (rb_Add R b (Ordinal r)) s) = insert r (refs_of R s)"
  using assms by (auto simp: refs_of_def FactRef_eq_iff)

lemma Builder_Add_valid:
  assumes "bld_err b = None" and "BitmapSet_ok R good (bld_segments b)" and "FactRef_Validate r = None"
  shows "\<exists>b'. Builder_Add R b r = (None, b') \<and> bld_err b' = None \<and>
    BitmapSet_ok R good (bld_segments b') \<and> refs_of R (bld_segments b') = insert r (refs_of R (bld_segments b))"
proof (cases "map_of (bld_segments b) (FactRef_segment r)")
  case None
  have "segment_refs R (FactRef_segment r) (rb_Add R (rb_New R) (Ordinal r)) = {r}"
    by (auto simp: mem_segment_refs FactRef_eq_iff)
  moreover have "rb_values R (rb_Add R (rb_New R) x) \<noteq> []" for x
    using values_Add [OF good_New, of x] by (metis empty_set insert_not_empty)
  ultimately show ?thesis
    using None assms
    by (simp add: Builder_Add_def BitmapSet_ok_put FactRef_Validate_segment refs_of_put_new)
next
  case (Some m)
  note m = BitmapSet_okD [OF assms(2) Some]
  have "rb_values R (rb_Add R m x) \<noteq> []" for x
    using values_Add [OF m(2), of x] by (metis empty_set insert_not_empty)
  with Some assms m show ?thesis
    by (simp add: Builder_Add_def BitmapSet_ok_put refs_of_put_Add)
qed

lemma Builder_Add_invalid:
  assumes "bld_err b = None" and "BitmapSet_ok R good (bld_segments b)" and "FactRef_Validate r \<noteq> None"
  shows "Builder_Add R b r = (Some ErrInvalid, b\<lparr>bld_err := Some ErrInvalid\<rparr>)"
proof -
  have "map_of (bld_segments b) (FactRef_segment r) = None"
    using assms(3) BitmapSet_okD(1) [OF assms(2), of "FactRef_segment r"]
    by (cases "map_of (bld_segments b) (FactRef_segment r)") (auto simp: FactRef_Validate_segment)
  with assms(1,3) show ?thesis
    by (auto simp: Builder_Add_def dest: FactRef_Validate_error)
qed

lemma Builder_AddMany_refines:
  "bld_err b = None \<Longrightarrow> BitmapSet_ok R good (bld_segments b) \<Longrightarrow>
   (if \<forall>r\<in>set refs. FactRef_Validate r = None
    then \<exists>b'. Builder_AddMany R b refs = (None, b') \<and> bld_err b' = None \<and>
      BitmapSet_ok R good (bld_segments b') \<and>
      refs_of R (bld_segments b') = set refs \<union> refs_of R (bld_segments b)
    else \<exists>b'. Builder_AddMany R b refs = (Some ErrInvalid, b') \<and> bld_err b' = Some ErrInvalid)"
proof (induction refs arbitrary: b)
  case (Cons r refs)
  show ?case
  proof (cases "FactRef_Validate r")
    case None
    from Builder_Add_valid [OF Cons.prems None] obtain b' where b': "Builder_Add R b r = (None, b')"
      "bld_err b' = None" "BitmapSet_ok R good (bld_segments b')"
      "refs_of R (bld_segments b') = insert r (refs_of R (bld_segments b))" by blast
    from Cons.IH [OF b'(2,3)] b' None show ?thesis by (auto split: if_splits)
  next
    case (Some e)
    with Builder_Add_invalid [OF Cons.prems, of r] show ?thesis by auto
  qed
qed auto

lemma NewBitmapSet_refines:
  "if \<forall>r\<in>set refs. FactRef_Validate r = None
   then \<exists>s. NewBitmapSet R refs = Inr s \<and> BitmapSet_ok R good s \<and> refs_of R s = set refs
   else NewBitmapSet R refs = Inl ErrInvalid"
  using Builder_AddMany_refines [of NewBuilder refs]
  by (auto simp: NewBitmapSet_def NewBuilder_def Builder_Freeze_def cloneSegments_ok split: if_splits)

subsection \<open>Iteration order\<close>

lemma sortedSegmentRefs_ok:
  assumes "BitmapSet_ok R good s"
  shows "sorted_wrt (<) (sortedSegmentRefs R s)" and "set (sortedSegmentRefs R s) = fst ` set s"
proof -
  have "filter (\<lambda>(key, bitmap). \<not> rb_IsEmpty R bitmap) s = s"
    using cloneSegments_ok [OF assms] by (simp add: cloneSegments_def)
  then have eq: "sortedSegmentRefs R s = sort (map fst s)" by (simp add: sortedSegmentRefs_def)
  then show "set (sortedSegmentRefs R s) = fst ` set s" by simp
  show "sorted_wrt (<) (sortedSegmentRefs R s)"
    using assms by (simp add: eq strict_sorted_iff BitmapSet_ok_def)
qed

lemma bitmap_at_ok:
  assumes "BitmapSet_ok R good s" and "k \<in> set (sortedSegmentRefs R s)"
  shows "map_of s k = Some (bitmap_at R s k)"
proof -
  from assms sortedSegmentRefs_ok(2) [OF assms(1)] have "k \<in> fst ` set s" by simp
  then have "map_of s k \<noteq> None" by (simp add: map_of_eq_None_iff)
  then show ?thesis by (auto simp: bitmap_at_def)
qed

lemma same_refs_same_segments:
  assumes "BitmapSet_ok R good s" and "BitmapSet_ok R good t" and "refs_of R s = refs_of R t"
  shows "sortedSegmentRefs R s = sortedSegmentRefs R t"
    and "k \<in> set (sortedSegmentRefs R s) \<Longrightarrow> rb_values R (bitmap_at R s k) = rb_values R (bitmap_at R t k)"
proof -
  show "sortedSegmentRefs R s = sortedSegmentRefs R t"
    using sortedSegmentRefs_ok [OF assms(1)] sortedSegmentRefs_ok [OF assms(2)] refs_of_dom [OF assms(1)]
      refs_of_dom [OF assms(2)] assms(3) by (metis strict_sorted_equal)
  show "rb_values R (bitmap_at R s k) = rb_values R (bitmap_at R t k)"
    if "k \<in> set (sortedSegmentRefs R s)"
    using refs_of_keys [OF assms bitmap_at_ok [OF assms(1) that]] by (auto simp: bitmap_at_def)
qed

lemma same_refs_same_list:
  assumes "BitmapSet_ok R good s" and "BitmapSet_ok R good t" and "refs_of R s = refs_of R t"
  shows "ref_list R s = ref_list R t"
  using same_refs_same_segments [OF assms]
  by (auto simp: ref_list_def intro!: arg_cong [of _ _ concat])

lemma set_ref_list [set_algebra]:
  assumes "BitmapSet_ok R good s"
  shows "set (ref_list R s) = refs_of R s"
proof -
  have "r \<in> set (ref_list R s) \<longleftrightarrow>
      (\<exists>k\<in>set (sortedSegmentRefs R s). FactRef_segment r = k \<and> Ordinal r \<in> set (rb_values R (bitmap_at R s k)))" for r
    by (auto simp: ref_list_def FactRef_eq_iff image_iff)
  moreover have "map_of s k \<noteq> None \<longleftrightarrow> k \<in> set (sortedSegmentRefs R s)" for k
    by (simp add: sortedSegmentRefs_ok(2) [OF assms] map_of_eq_None_iff)
  ultimately show ?thesis
    using bitmap_at_ok [OF assms] by (fastforce simp: refs_of_def)
qed

end

lemma sorted_wrt_concat_map:
  assumes "sorted_wrt Q ks" and "\<And>k. k \<in> set ks \<Longrightarrow> sorted_wrt P (f k)"
    and "\<forall>k\<in>set ks. \<forall>k'\<in>set ks. Q k k' \<longrightarrow> (\<forall>x\<in>set (f k). \<forall>y\<in>set (f k'). P x y)"
  shows "sorted_wrt P (concat (map f ks))"
  using assms
proof (induction ks)
  case (Cons k ks)
  then have "sorted_wrt P (concat (map f ks))" by (intro Cons.IH) simp_all
  with Cons.prems show ?case by (auto simp: sorted_wrt_append)
qed simp

lemma ref_before_irrefl: "\<not> ref_before r r"
  by (simp add: ref_before_def)

context roaring
begin

lemma ref_list_sorted:
  assumes "BitmapSet_ok R good s"
  shows "sorted_wrt ref_before (ref_list R s)"
  unfolding ref_list_def
proof (rule sorted_wrt_concat_map [OF sortedSegmentRefs_ok(1) [OF assms]])
  fix k
  assume "k \<in> set (sortedSegmentRefs R s)"
  then have "good (bitmap_at R s k)"
    using bitmap_at_ok [OF assms] BitmapSet_okD(2) [OF assms] by blast
  then show "sorted_wrt ref_before (map (FactRef (seg_DictionaryDigest k) (seg_SegmentID k))
      (rb_values R (bitmap_at R s k)))"
    using values_ascending by (simp add: sorted_wrt_map ref_before_def)
qed (auto simp: ref_before_def)

lemma distinct_ref_list: "BitmapSet_ok R good s \<Longrightarrow> distinct (ref_list R s)"
  using ref_list_sorted ref_before_irrefl
  by (metis distinct_conv_nth sorted_wrt_iff_nth_less linorder_neqE_nat)

lemma length_ref_list: "BitmapSet_ok R good s \<Longrightarrow> length (ref_list R s) = card (refs_of R s)"
  by (simp add: distinct_ref_list distinct_card set_ref_list [symmetric])

end

section \<open>Interface: exact sets of facts\<close>

text \<open>
  What the exposure accounting relies on: an implementation of finite sets of addresses with an
  invariant, on which union, difference and intersection are the operations on sets and the
  cardinality is exact. The consequences below are what charging for novel facts needs.
\<close>

locale fact_set =
  fixes ok :: "'s \<Rightarrow> bool" and denotes :: "'s \<Rightarrow> FactRef set"
    and union :: "'s \<Rightarrow> 's \<Rightarrow> 's" and difference :: "'s \<Rightarrow> 's \<Rightarrow> 's"
    and cardinality :: "'s \<Rightarrow> uint64"
  assumes union_ok: "ok s \<Longrightarrow> ok t \<Longrightarrow> ok (union s t)"
    and difference_ok: "ok s \<Longrightarrow> ok t \<Longrightarrow> ok (difference s t)"
    and denotes_union: "ok s \<Longrightarrow> ok t \<Longrightarrow> denotes (union s t) = denotes s \<union> denotes t"
    and denotes_difference: "ok s \<Longrightarrow> ok t \<Longrightarrow> denotes (difference s t) = denotes s - denotes t"
    and finite_denotes: "ok s \<Longrightarrow> finite (denotes s)"
    and cardinality: "ok s \<Longrightarrow> cardinality s = of_nat (card (denotes s))"
begin

text \<open>The union grows by exactly the novel part.\<close>

lemma novel_charge:
  assumes "ok ledger" and "ok observed"
  shows "cardinality (union ledger observed) = cardinality ledger + cardinality (difference observed ledger)"
proof -
  have "denotes ledger \<union> denotes observed = denotes ledger \<union> (denotes observed - denotes ledger)" by blast
  then have "card (denotes ledger \<union> denotes observed) =
      card (denotes ledger) + card (denotes observed - denotes ledger)"
    using card_Un_disjoint [of "denotes ledger" "denotes observed - denotes ledger"] assms
    by (auto simp: finite_denotes)
  with assms show ?thesis
    by (simp add: cardinality union_ok difference_ok denotes_union denotes_difference)
qed

text \<open>A repeated observation is free.\<close>

lemma repeat_is_free:
  assumes "ok ledger" and "ok observed"
  shows "cardinality (difference observed (union ledger observed)) = 0"
proof -
  have "denotes (difference observed (union ledger observed)) = {}"
    using assms by (auto simp: union_ok denotes_union denotes_difference)
  with assms show ?thesis
    by (simp add: cardinality union_ok difference_ok)
qed

end

sublocale roaring \<subseteq> bitmap_set: fact_set "BitmapSet_ok R good" "refs_of R" "Union R" "Difference R" "Cardinality R"
  by unfold_locales (simp_all add: set_algebra finite_refs_of BitmapSet_ok_alt [THEN iffD1])

context roaring
begin

lemma novelty:
  assumes "BitmapSet_ok R good ledger" and "BitmapSet_ok R good observed"
  shows "Cardinality R (Union R ledger observed) =
      Cardinality R ledger + Cardinality R (Difference R observed ledger)"
    and "Cardinality R (Difference R observed (Union R ledger observed)) = 0"
  using bitmap_set.novel_charge [OF assms] bitmap_set.repeat_is_free [OF assms] .

end

section \<open>Properties\<close>

text \<open>
  C23: the operations of \<open>BitmapSet\<close> are the operations on sets. For sets that satisfy the
  invariant (distinct valid segments, no empty bitmap), \<open>Union\<close>, \<open>Difference\<close> and
  \<open>Intersection\<close> keep the invariant and denote union, difference and intersection;
  \<open>Contains\<close> is membership, \<open>Equal\<close> is equality of the denoted sets and
  \<open>Cardinality\<close> is the number of addresses modulo 2^64.
\<close>

theorem BitmapSet_algebra:
  assumes "roaring R good" and "BitmapSet_ok R good s" and "BitmapSet_ok R good t"
  shows "BitmapSet_ok R good (Union R s t) \<and> refs_of R (Union R s t) = refs_of R s \<union> refs_of R t \<and>
    BitmapSet_ok R good (Difference R s t) \<and> refs_of R (Difference R s t) = refs_of R s - refs_of R t \<and>
    BitmapSet_ok R good (Intersection R s t) \<and> refs_of R (Intersection R s t) = refs_of R s \<inter> refs_of R t \<and>
    (Ordinal_Bitmap.Contains R s r \<longleftrightarrow> r \<in> refs_of R s) \<and>
    (Equal R s t \<longleftrightarrow> refs_of R s = refs_of R t) \<and>
    Cardinality R s = of_nat (card (refs_of R s))"
  by (simp add: roaring.Union_refines [OF assms] roaring.Difference_refines [OF assms]
      roaring.Intersection_refines [OF assms] roaring.Contains_refines [OF assms(1,2)]
      roaring.Equal_refines [OF assms] roaring.Cardinality_refines [OF assms(1,2)])

text \<open>
  The novelty charge. The size of a ledger after a union is its size before plus the size of
  the difference of the observed set and the ledger, and observing the same set again adds
  nothing: facts already in the ledger are never charged twice.
\<close>

theorem BitmapSet_novelty:
  assumes "roaring R good" and "BitmapSet_ok R good ledger" and "BitmapSet_ok R good observed"
  shows "Cardinality R (Union R ledger observed) =
      Cardinality R ledger + Cardinality R (Difference R observed ledger) \<and>
    Cardinality R (Difference R observed (Union R ledger observed)) = 0"
  using roaring.novelty [OF assms] by blast

text \<open>
  building a set. \<open>NewBitmapSet\<close> succeeds exactly when every address is valid, although
  the builder validates only the first address of each segment; the set it returns satisfies the
  invariant and contains exactly the given addresses. Otherwise it returns \<open>ErrInvalid\<close>.
\<close>

theorem NewBitmapSet_correct:
  assumes "roaring R good"
  shows "if \<forall>r\<in>set refs. FactRef_Validate r = None
    then \<exists>s. NewBitmapSet R refs = Inr s \<and> BitmapSet_ok R good s \<and> refs_of R s = set refs
    else NewBitmapSet R refs = Inl ErrInvalid"
  by (rule roaring.NewBitmapSet_refines [OF assms])

definition sample_ref :: "uint32 \<Rightarrow> FactRef" where
  "sample_ref n = FactRef (replicate 64 CHR ''a'') ''s'' n"

definition other_ref :: "uint32 \<Rightarrow> FactRef" where
  "other_ref n = FactRef (replicate 64 CHR ''a'') ''u'' n"

definition sample_set :: "uint32 list BitmapSet" where
  "sample_set = [(SegmentRef (replicate 64 CHR ''a'') ''s'', [5, 65541])]"

definition other_set :: "uint32 list BitmapSet" where
  "other_set = [(SegmentRef (replicate 64 CHR ''a'') ''u'', [5]),
     (SegmentRef (replicate 64 CHR ''a'') ''s'', [5, 9])]"

text \<open>The last 32 bytes, padded in front: a digest function the witnesses can evaluate.\<close>

definition test_hash :: hash_function where
  "test_hash bs = rev (take 32 (rev bs @ replicate 32 0))"

lemma test_hash_digest: "digest_function test_hash"
  by (auto simp: digest_function_def test_hash_def)

lemma sample_sets_built:
  "NewBitmapSet list_roaring [sample_ref 65541, sample_ref 5, sample_ref 65541] = Inr sample_set"
  "NewBitmapSet list_roaring [other_ref 5, sample_ref 9, sample_ref 5] = Inr other_set"
  by code_simp+

lemma sample_sets_ok:
  "BitmapSet_ok list_roaring (sorted_wrt (<)) sample_set"
  "BitmapSet_ok list_roaring (sorted_wrt (<)) other_set"
  by code_simp+

theorem NewBitmapSet_correct_witness:
  "refs_of list_roaring sample_set = {sample_ref 5, sample_ref 65541}"
proof -
  have "\<forall>r\<in>set [sample_ref 65541, sample_ref 5, sample_ref 65541]. FactRef_Validate r = None"
    by code_simp
  then show ?thesis
    using NewBitmapSet_correct [OF list_bitmap.roaring_axioms,
        of "[sample_ref 65541, sample_ref 5, sample_ref 65541]"] sample_sets_built(1)
    by auto
qed

theorem BitmapSet_algebra_witness:
  "refs_of list_roaring (Union list_roaring sample_set other_set) =
     refs_of list_roaring sample_set \<union> refs_of list_roaring other_set \<and>
   Union list_roaring sample_set other_set =
     [(SegmentRef (replicate 64 CHR ''a'') ''s'', [5, 9, 65541]),
      (SegmentRef (replicate 64 CHR ''a'') ''u'', [5])]"
proof -
  have "Union list_roaring sample_set other_set =
     [(SegmentRef (replicate 64 CHR ''a'') ''s'', [5, 9, 65541]),
      (SegmentRef (replicate 64 CHR ''a'') ''u'', [5])]" by code_simp
  then show ?thesis
    using BitmapSet_algebra [OF list_bitmap.roaring_axioms sample_sets_ok] by blast
qed

theorem BitmapSet_novelty_witness:
  "Cardinality list_roaring (Union list_roaring sample_set other_set) =
     Cardinality list_roaring sample_set + Cardinality list_roaring (Difference list_roaring other_set sample_set) \<and>
   Cardinality list_roaring (Difference list_roaring other_set sample_set) = 2"
proof -
  have "Cardinality list_roaring (Difference list_roaring other_set sample_set) = 2" by code_simp
  then show ?thesis
    using BitmapSet_novelty [OF list_bitmap.roaring_axioms sample_sets_ok] by blast
qed

text \<open>
  Iteration. \<open>Refs\<close> hands every address of the set to its callback exactly once, in
  ascending order of dictionary digest, segment id and ordinal, until the callback returns false.
\<close>

theorem Refs_order:
  assumes "roaring R good" and "BitmapSet_ok R good s"
  shows "Refs R s yield st = visit yield (ref_list R s) st \<and>
    set (ref_list R s) = refs_of R s \<and> distinct (ref_list R s) \<and> sorted_wrt ref_before (ref_list R s) \<and>
    Refs R s (\<lambda>r acc. (True, acc @ [r])) [] = ref_list R s"
proof -
  have "visit (\<lambda>r acc. (True, acc @ [r])) xs acc = acc @ xs" for xs acc :: "FactRef list"
    by (induction xs arbitrary: acc) auto
  then show ?thesis
    by (simp add: Refs_def roaring.set_ref_list [OF assms] roaring.distinct_ref_list [OF assms]
        roaring.ref_list_sorted [OF assms])
qed

theorem Refs_order_witness:
  "ref_list list_roaring other_set = [sample_ref 5, sample_ref 9, other_ref 5] \<and>
   distinct (ref_list list_roaring other_set)"
proof -
  have "ref_list list_roaring other_set = [sample_ref 5, sample_ref 9, other_ref 5]"
    by (simp add: ref_list_def sortedSegmentRefs_def other_set_def list_roaring_def bitmap_at_def
        sample_ref_def other_ref_def less_eq_SegmentRef_def less_eq_prod_def)
  then show ?thesis
    using Refs_order [OF list_bitmap.roaring_axioms sample_sets_ok(2), of "\<lambda>_ _. (False, ())" "()"]
    by metis
qed

end
