(* ===== verification/Ordinal_Portable.thy ===== *)
theory Ordinal_Portable
  imports Ordinal_Bitmap
begin

text \<open>
  Lemmas and properties of the portable encodings and the digests of
  \<open>internal/ordinal/bitmap.go\<close>. The containers of a set are described by a specification
  that groups the ascending ordinals of a segment by their upper half; the loop of
  \<open>PortableContainers\<close> produces exactly these groups, and the parser puts them back together.
\<close>

section \<open>Specification of the containers\<close>

fun high_groups :: "uint32 list \<Rightarrow> (uint16 \<times> uint32 list) list" where
  "high_groups [] = []"
| "high_groups (v # vs) =
     (case high_groups vs of
        [] \<Rightarrow> [(high16 v, [v])]
      | (h, g) # rest \<Rightarrow>
          if h = high16 v then (h, v # g) # rest else (high16 v, [v]) # (h, g) # rest)"

definition canonical_bytes :: "'b roaring_ops \<Rightarrow> uint32 list \<Rightarrow> byte list" where
  "canonical_bytes R vs =
     (case rb_MarshalBinary R (normalized_bitmap R vs) of None \<Rightarrow> [] | Some e \<Rightarrow> e)"

definition canonical_container ::
  "'b roaring_ops \<Rightarrow> hash_function \<Rightarrow> SegmentRef \<Rightarrow> uint16 \<times> uint32 list \<Rightarrow> PortableContainer" where
  "canonical_container R sha segment = (\<lambda>(h, vs).
     let key = ContainerKey (seg_DictionaryDigest segment) (seg_SegmentID segment) h;
         encoded = canonical_bytes R vs
     in \<lparr>pc_Key = key, pc_Bitmap = encoded, pc_Cardinality = of_nat (length vs),
         pc_Digest = containerDigest sha key (of_nat (length vs)) encoded\<rparr>)"

definition containers_of ::
  "'b roaring_ops \<Rightarrow> hash_function \<Rightarrow> 'b BitmapSet \<Rightarrow> PortableContainer list" where
  "containers_of R sha s =
     concat (map (\<lambda>segment. map (canonical_container R sha segment)
       (high_groups (rb_values R (bitmap_at R s segment)))) (sortedSegmentRefs R s))"

definition canonical_segment ::
  "'b roaring_ops \<Rightarrow> hash_function \<Rightarrow> 'b BitmapSet \<Rightarrow> SegmentRef \<Rightarrow> PortableSegment" where
  "canonical_segment R sha s k =
     (let vs = rb_values R (bitmap_at R s k); encoded = canonical_bytes R vs
      in \<lparr>ps_Segment = k, ps_Bitmap = encoded, ps_Cardinality = of_nat (length vs),
          ps_Digest = segmentDigest sha k (of_nat (length vs)) encoded\<rparr>)"

definition segments_of ::
  "'b roaring_ops \<Rightarrow> hash_function \<Rightarrow> 'b BitmapSet \<Rightarrow> PortableSegment list" where
  "segments_of R sha s = map (canonical_segment R sha s) (sortedSegmentRefs R s)"

text \<open>The addresses a container carries.\<close>

definition item_refs :: "'b roaring_ops \<Rightarrow> PortableContainer \<Rightarrow> FactRef set" where
  "item_refs R item =
     (case parseCanonicalBitmap R (pc_Bitmap item) of
        Inl e \<Rightarrow> {}
      | Inr b \<Rightarrow> segment_refs R (ContainerKey_segment (pc_Key item)) b)"

text \<open>The ordinals of one segment with one upper half: a set has one container
  for every segment and upper half that occur in it.\<close>

definition half :: "'b roaring_ops \<Rightarrow> 'b BitmapSet \<Rightarrow> SegmentRef \<Rightarrow> uint16 \<Rightarrow> uint32 list" where
  "half R s k h = filter (\<lambda>v. high16 v = h) (rb_values R (bitmap_at R s k))"

text \<open>The byte strings whose hashes enter the digest of a set.\<close>

definition digest_preimages :: "'b roaring_ops \<Rightarrow> hash_function \<Rightarrow> 'b BitmapSet \<Rightarrow> byte list set" where
  "digest_preimages R sha s =
     insert (bitmap_set_preimage (containers_of R sha s))
       ((\<lambda>item. container_preimage (pc_Key item) (pc_Cardinality item) (pc_Bitmap item)) `
        set (containers_of R sha s))"

definition key_framable :: "ContainerKey \<Rightarrow> bool" where
  "key_framable k \<longleftrightarrow> framable (key_DictionaryDigest k) \<and> framable (key_SegmentID k)"

text \<open>No slice of the process is longer than a \<open>uint64\<close> can say.\<close>

definition representable :: "'b roaring_ops \<Rightarrow> hash_function \<Rightarrow> 'b BitmapSet \<Rightarrow> bool" where
  "representable R sha s \<longleftrightarrow>
     framable (containers_of R sha s) \<and>
     (\<forall>item\<in>set (containers_of R sha s). framable (pc_Bitmap item))"

section \<open>Lemmas\<close>

subsection \<open>Grouping\<close>

lemma high_groups_members:
  "(h, g) \<in> set (high_groups vs) \<Longrightarrow> g \<noteq> [] \<and> set g \<subseteq> set vs \<and> (\<forall>v\<in>set g. high16 v = h)"
proof (induction vs arbitrary: h g)
  case (Cons v vs)
  show ?case
  proof (cases "high_groups vs")
    case Nil
    with Cons.prems show ?thesis by auto
  next
    case groups: (Cons p rest)
    obtain h' g' where p: "p = (h', g')" by (cases p)
    have tail: "(h, g) \<in> set (high_groups vs) \<Longrightarrow> ?thesis" using Cons.IH by auto
    have "set g' \<subseteq> set vs \<and> (\<forall>v\<in>set g'. high16 v = h')" using Cons.IH [of h' g'] groups p by simp
    with groups p Cons.prems tail show ?thesis by (auto split: if_splits)
  qed
qed simp

lemma concat_high_groups: "concat (map snd (high_groups vs)) = vs"
  by (induction vs) (auto split: list.splits)

lemma high_groups_append:
  assumes "g \<noteq> []" and "\<forall>v\<in>set g. high16 v = h" and "vs \<noteq> [] \<Longrightarrow> high16 (hd vs) \<noteq> h"
  shows "high_groups (g @ vs) = (h, g) # high_groups vs"
  using assms
proof (induction g)
  case (Cons v g)
  show ?case
  proof (cases "g = []")
    case True
    have "fst (hd (high_groups vs)) = high16 (hd vs) \<and> high_groups vs \<noteq> []" if "vs \<noteq> []"
      using that by (cases vs) (auto split: list.splits)
    with True Cons.prems show ?thesis
      by (cases "vs = []") (auto split: list.splits)
  qed (use Cons in auto)
qed simp

lemma high16_mono: "v \<le> w \<Longrightarrow> high16 v \<le> high16 w"
proof -
  have high: "unat (high16 x) = unat x div 65536" for x
  proof -
    have "unat (drop_bit 16 x) = unat x div 65536"
      by (simp only: unat_drop_bit_eq) (simp add: drop_bit_eq_div)
    moreover have "unat x < 4294967296"
      using unsigned_less [of x, where ?'a = nat] by simp
    ultimately show ?thesis
      by (simp add: high16_def unsigned_ucast_eq take_bit_nat_eq_self)
  qed
  show "v \<le> w \<Longrightarrow> high16 v \<le> high16 w"
    by (simp add: word_le_nat_alt high div_le_mono)
qed

text \<open>In ascending ordinals the upper halves of the groups ascend: no container key repeats.\<close>

lemma high_groups_ascending: "sorted_wrt (<) vs \<Longrightarrow> sorted_wrt (<) (map fst (high_groups vs))"
proof (induction vs)
  case (Cons v vs)
  then have asc: "sorted_wrt (<) (map fst (high_groups vs))" by simp
  have le: "high16 v \<le> h" if "(h, g) \<in> set (high_groups vs)" for h g
  proof -
    from high_groups_members [OF that] obtain w where "w \<in> set vs" "high16 w = h"
      by (metis last_in_set subsetD)
    with Cons.prems high16_mono [of v w] show ?thesis by auto
  qed
  show ?case
  proof (cases "high_groups vs")
    case (Cons p rest)
    obtain h g where p: "p = (h, g)" by (cases p)
    have "high16 v \<le> h" using le [of h g] Cons p by simp
    with asc Cons p show ?thesis by (force intro: order.strict_trans2)
  qed simp
qed simp

subsection \<open>Canonical serialization\<close>

context roaring
begin

lemma normalize_loop_values:
  "good n \<Longrightarrow> normalize_loop R vs (n, buf) = (n', buf') \<Longrightarrow>
   good n' \<and> set (rb_values R n') \<union> set buf' = set (rb_values R n) \<union> set buf \<union> set vs"
proof (induction vs arbitrary: n buf)
  case (Cons v vs)
  show ?case
  proof (cases "length (buf @ [v]) = 4096")
    case True
    with Cons.prems have "normalize_loop R vs (rb_AddMany R n (buf @ [v]), []) = (n', buf')"
      by (simp add: Let_def)
    from Cons.IH [OF good_AddMany [OF Cons.prems(1)] this] Cons.prems(1) show ?thesis by auto
  next
    case False
    with Cons.prems have "normalize_loop R vs (n, buf @ [v]) = (n', buf')"
      by (simp add: Let_def)
    from Cons.IH [OF Cons.prems(1) this] show ?thesis by auto
  qed
qed simp

lemma normalized_bitmap_ok:
  assumes "sorted_wrt (<) vs"
  shows "good (normalized_bitmap R vs)" and "rb_values R (normalized_bitmap R vs) = vs"
proof -
  obtain n buf where loop: "normalize_loop R vs (rb_New R, []) = (n, buf)" by fastforce
  from normalize_loop_values [OF good_New loop]
  have n: "good n" "set (rb_values R n) \<union> set buf = set vs" by simp_all
  let ?m = "if length buf \<noteq> 0 then rb_AddMany R n buf else n"
  have m: "good ?m" "set (rb_values R ?m) = set vs" using n by auto
  have eq: "normalized_bitmap R vs = rb_RunOptimize R ?m"
    by (simp add: normalized_bitmap_def loop)
  show "good (normalized_bitmap R vs)" unfolding eq using m(1) by (rule good_RunOptimize)
  show "rb_values R (normalized_bitmap R vs) = vs"
    unfolding eq values_RunOptimize [OF m(1)] by (rule values_unique [OF m(1) assms m(2)])
qed

lemma canonical_bytes_decode:
  assumes "sorted_wrt (<) vs"
  shows "\<exists>b. rb_MarshalBinary R (normalized_bitmap R vs) = Some (canonical_bytes R vs) \<and>
    canonical_bytes R vs \<noteq> [] \<and> rb_UnmarshalBinary R (canonical_bytes R vs) = Some b \<and>
    rb_values R b = vs \<and> good b"
  using MarshalBinary [OF normalized_bitmap_ok(1) [OF assms]] normalized_bitmap_ok(2) [OF assms]
  by (auto simp: canonical_bytes_def)

lemma marshalCanonicalBitmap_ok:
  assumes "good b" and "rb_values R b \<noteq> []"
  shows "marshalCanonicalBitmap R b = Inr (canonical_bytes R (rb_values R b))"
  using canonical_bytes_decode [OF values_ascending [OF assms(1)]] assms
    normalized_bitmap_ok [OF values_ascending [OF assms(1)]]
  by (auto simp: marshalCanonicalBitmap_def IsEmpty Validate)

lemma parseCanonicalBitmap_complete:
  assumes "sorted_wrt (<) vs" and "vs \<noteq> []"
  shows "\<exists>b. parseCanonicalBitmap R (canonical_bytes R vs) = Inr b \<and> good b \<and> rb_values R b = vs"
  using canonical_bytes_decode [OF assms(1)] assms(2)
  by (auto simp: parseCanonicalBitmap_def Validate marshalCanonicalBitmap_ok)

text \<open>The parser accepts nothing but the canonical encoding of what it returns.\<close>

lemma parseCanonicalBitmap_sound:
  assumes "parseCanonicalBitmap R e = Inr b"
  shows "good b" and "rb_values R b \<noteq> []" and "e = canonical_bytes R (rb_values R b)"
proof -
  from assms show good: "good b"
    by (auto simp: parseCanonicalBitmap_def intro: Validate_decoded
        split: if_splits option.splits sum.splits)
  from assms have marshal: "marshalCanonicalBitmap R b = Inr e"
    by (auto simp: parseCanonicalBitmap_def split: if_splits option.splits sum.splits)
  with good show nonempty: "rb_values R b \<noteq> []"
    by (auto simp: marshalCanonicalBitmap_def IsEmpty)
  from marshal show "e = canonical_bytes R (rb_values R b)"
    by (simp add: marshalCanonicalBitmap_ok [OF good nonempty])
qed

lemma canonical_bytes_inject:
  assumes "sorted_wrt (<) vs" and "sorted_wrt (<) ws"
  shows "canonical_bytes R vs = canonical_bytes R ws \<longleftrightarrow> vs = ws"
  using canonical_bytes_decode [OF assms(1)] canonical_bytes_decode [OF assms(2)]
  by (metis option.inject)

subsection \<open>The containers of a set\<close>

lemma container_flush_ok:
  assumes "good b" and "rb_values R b \<noteq> []"
  shows "container_flush R sha segment h (Some b) result =
    Inr (result @ [canonical_container R sha segment (h, rb_values R b)])"
  using assms
  by (simp add: container_flush_def IsEmpty marshalCanonicalBitmap_ok GetCardinality
      canonical_container_def Let_def)

lemma container_loop_ok:
  assumes "good b" and "rb_values R b \<noteq> []" and "\<forall>v\<in>set (rb_values R b). high16 v = h"
    and "sorted_wrt (<) (rb_values R b @ vs)"
  shows "container_loop R sha segment vs h (Some b) result =
    Inr (result @ map (canonical_container R sha segment) (high_groups (rb_values R b @ vs)))"
  using assms
proof (induction vs arbitrary: b h result)
  case Nil
  then show ?case
    using high_groups_append [of "rb_values R b" h "[]"] by (simp add: container_flush_ok)
next
  case (Cons v vs)
  show ?case
  proof (cases "high16 v = h")
    case True
    have add: "rb_values R (rb_Add R b v) = rb_values R b @ [v]"
      using Cons.prems by (intro values_Add_last) (auto simp: sorted_wrt_append)
    have "container_loop R sha segment vs h (Some (rb_Add R b v)) result =
        Inr (result @ map (canonical_container R sha segment) (high_groups (rb_values R (rb_Add R b v) @ vs)))"
      using Cons.prems True by (intro Cons.IH) (auto simp: add)
    with True show ?thesis by (simp add: add)
  next
    case False
    have new: "rb_values R (rb_Add R (rb_New R) v) = [v]"
      using values_Add_last [OF good_New] by simp
    have "container_loop R sha segment vs (high16 v) (Some (rb_Add R (rb_New R) v)) result' =
        Inr (result' @ map (canonical_container R sha segment) (high_groups ([v] @ vs)))" for result'
      using Cons.IH [of "rb_Add R (rb_New R) v" "high16 v" result'] Cons.prems
      by (simp add: new sorted_wrt_append)
    with False Cons.prems show ?thesis
      by (simp add: container_flush_ok high_groups_append [OF Cons.prems(2,3)])
  qed
qed

lemma container_loop_segment:
  assumes "sorted_wrt (<) vs"
  shows "container_loop R sha segment vs h None result =
    Inr (result @ map (canonical_container R sha segment) (high_groups vs))"
proof (cases vs)
  case (Cons v ws)
  have new: "rb_values R (rb_Add R (rb_New R) v) = [v]"
    using values_Add_last [OF good_New] by simp
  with Cons assms container_loop_ok [of "rb_Add R (rb_New R) v" "high16 v" ws sha segment result]
  show ?thesis by (simp add: container_flush_def)
qed (simp add: container_flush_def)

lemma PortableContainers_ok:
  assumes "BitmapSet_ok R good s"
  shows "PortableContainers R sha s = Inr (containers_of R sha s)"
proof -
  have "segments_loop R sha s ks result = Inr (result @ concat (map (\<lambda>segment.
      map (canonical_container R sha segment) (high_groups (rb_values R (bitmap_at R s segment)))) ks))"
    if "set ks \<subseteq> set (sortedSegmentRefs R s)" for ks result
    using that
  proof (induction ks arbitrary: result)
    case (Cons k ks)
    then have "good (bitmap_at R s k)"
      using bitmap_at_ok [OF assms] BitmapSet_okD(2) [OF assms] by fastforce
    with Cons show ?case by (simp add: container_loop_segment values_ascending)
  qed simp
  then show ?thesis by (simp add: PortableContainers_def containers_of_def)
qed

end

subsection \<open>Parsing containers\<close>

lemma sorted_wrt_neq: "sorted_wrt (\<noteq>) xs \<longleftrightarrow> distinct xs"
  by (induction xs) auto

lemma FactRef_segment_fields [simp]:
  "FactRef (seg_DictionaryDigest (FactRef_segment r)) (seg_SegmentID (FactRef_segment r)) (Ordinal r) = r"
  by (cases r) (simp add: FactRef_segment_def)

lemma high_groups_filter:
  assumes "sorted_wrt (<) vs"
  shows "(h, g) \<in> set (high_groups vs) \<longleftrightarrow> g \<noteq> [] \<and> g = filter (\<lambda>v. high16 v = h) vs"
  using assms
proof (induction vs arbitrary: h g)
  case (Cons v vs)
  have asc: "sorted_wrt (<) vs" using Cons.prems by simp
  show ?case
  proof (cases "high_groups vs")
    case Nil
    then have "vs = []" using concat_high_groups [of vs] by simp
    then show ?thesis by auto
  next
    case groups: (Cons p rest)
    obtain h' g' where p: "p = (h', g')" by (cases p)
    have g': "g' = filter (\<lambda>v. high16 v = h') vs" "g' \<noteq> []"
      using Cons.IH [OF asc, of h' g'] groups p by auto
    have other: "(h'', g'') \<in> set rest \<Longrightarrow> h'' \<noteq> h'" for h'' g''
      using high_groups_ascending [OF asc] groups p by force
    have "last g' \<in> set g'" using g'(2) by simp
    then have "last g' \<in> set vs" "high16 (last g') = h'" unfolding g'(1) by simp_all
    then have lower: "high16 v \<le> h'"
      using Cons.prems high16_mono [of v "last g'"] by auto
    have above: "(h'', g'') \<in> set rest \<Longrightarrow> h' < h''" for h'' g''
      using high_groups_ascending [OF asc] groups p by force
    note IH = Cons.IH [OF asc, unfolded groups p]
    show ?thesis
    proof (cases "h' = high16 v")
      case True
      with IH [of h g] IH [of h "tl g"] g' other groups p show ?thesis
        by (cases "h = h'") (auto simp: Cons_eq_append_conv)
    next
      case False
      then have "filter (\<lambda>x. high16 x = high16 v) vs = []"
        using IH [of "high16 v" "filter (\<lambda>x. high16 x = high16 v) vs"] above lower by fastforce
      with False IH [of h g] groups p show ?thesis
        by (cases "h = high16 v") auto
    qed
  qed
qed auto

context roaring
begin

lemma parse_container_Inr:
  assumes "parse_container R sha seen item = Inr b"
  shows "SegmentRef_Validate (ContainerKey_segment (pc_Key item)) = None" and "pc_Key item \<notin> set seen"
    and "parseCanonicalBitmap R (pc_Bitmap item) = Inr b"
    and "item = canonical_container R sha (ContainerKey_segment (pc_Key item))
      (High16 (pc_Key item), rb_values R b)"
    and "\<forall>v\<in>set (rb_values R b). high16 v = High16 (pc_Key item)"
proof -
  from assms show parts: "SegmentRef_Validate (ContainerKey_segment (pc_Key item)) = None"
    "pc_Key item \<notin> set seen" "parseCanonicalBitmap R (pc_Bitmap item) = Inr b"
    "\<forall>v\<in>set (rb_values R b). high16 v = High16 (pc_Key item)"
    by (auto simp: parse_container_def ContainerKey_Validate_def list_all_iff
        split: if_splits sum.splits)
  from assms have "pc_Cardinality item = rb_GetCardinality R b"
    and "pc_Digest item = containerDigest sha (pc_Key item) (pc_Cardinality item) (pc_Bitmap item)"
    by (auto simp: parse_container_def split: if_splits sum.splits)
  with parseCanonicalBitmap_sound [OF parts(3)]
  show "item = canonical_container R sha (ContainerKey_segment (pc_Key item))
      (High16 (pc_Key item), rb_values R b)"
    by (simp add: canonical_container_def GetCardinality ContainerKey_segment_def Let_def)
qed

lemma put_segment_refines:
  assumes "BitmapSet_ok R good s" and "SegmentRef_Validate k = None" and "good b"
    and "rb_values R b \<noteq> []"
  defines "s' \<equiv> (case map_of s k of None \<Rightarrow> map_put k b s | Some p \<Rightarrow> map_put k (rb_Or R p b) s)"
  shows "BitmapSet_ok R good s'" and "refs_of R s' = refs_of R s \<union> segment_refs R k b"
proof -
  have or: "good (rb_Or R p b) \<and> set (rb_values R (rb_Or R p b)) = set (rb_values R p) \<union> set (rb_values R b)"
    if "map_of s k = Some p" for p
    using BitmapSet_okD(2) [OF assms(1) that] assms(3) by simp
  have "rb_values R (rb_Or R p b) \<noteq> []" if "map_of s k = Some p" for p
  proof -
    have "set (rb_values R (rb_Or R p b)) \<noteq> {}" using or [OF that] assms(4) by simp
    then show ?thesis by auto
  qed
  with or show "BitmapSet_ok R good s'"
    unfolding s'_def using assms(1-4) by (auto simp: BitmapSet_ok_put split: option.splits)
  show "refs_of R s' = refs_of R s \<union> segment_refs R k b"
  proof (cases "map_of s k")
    case (Some p)
    then have "segment_refs R k (rb_Or R p b) = segment_refs R k p \<union> segment_refs R k b"
      using or [OF Some] by (simp add: segment_refs_def image_Un)
    then have "refs_of R s' = (segment_refs R k p \<union> {r \<in> refs_of R s. FactRef_segment r \<noteq> k}) \<union>
        segment_refs R k b"
      unfolding s'_def using Some by (auto simp add: refs_of_put)
    then show ?thesis unfolding refs_of_split [OF Some, symmetric] .
  next
    case None
    then show ?thesis unfolding s'_def by (simp add: refs_of_put_new Un_commute)
  qed
qed

lemma parse_containers_sound:
  assumes "parse_containers_loop R sha items seen segs = Inr s" and "BitmapSet_ok R good segs"
  shows "BitmapSet_ok R good s \<and> refs_of R s = refs_of R segs \<union> (\<Union>item\<in>set items. item_refs R item) \<and>
    distinct (map pc_Key items) \<and> pc_Key ` set items \<inter> set seen = {} \<and>
    (\<forall>item\<in>set items. \<exists>b seen. parse_container R sha seen item = Inr b)"
  using assms
proof (induction items arbitrary: seen segs)
  case (Cons item items)
  then obtain b where b: "parse_container R sha seen item = Inr b"
    by (auto split: sum.splits)
  note p = parse_container_Inr [OF b]
  note good = parseCanonicalBitmap_sound [OF p(3)]
  let ?segs = "case map_of segs (ContainerKey_segment (pc_Key item)) of
      None \<Rightarrow> map_put (ContainerKey_segment (pc_Key item)) b segs
    | Some present \<Rightarrow> map_put (ContainerKey_segment (pc_Key item)) (rb_Or R present b) segs"
  have loop: "parse_containers_loop R sha items (pc_Key item # seen) ?segs = Inr s"
    using Cons.prems(1) by (simp add: b Let_def)
  note put = put_segment_refines [OF Cons.prems(2) p(1) good(1,2)]
  have "item_refs R item = segment_refs R (ContainerKey_segment (pc_Key item)) b"
    by (simp add: item_refs_def p(3))
  with Cons.IH [OF loop put(1)] put(2) b p(2) show ?case by auto
qed simp

lemma parse_containers_complete:
  assumes "\<forall>item\<in>set items. \<exists>b. \<forall>seen. pc_Key item \<notin> set seen \<longrightarrow> parse_container R sha seen item = Inr b"
    and "distinct (map pc_Key items)" and "pc_Key ` set items \<inter> set seen = {}"
  shows "\<exists>s. parse_containers_loop R sha items seen segs = Inr s"
  using assms
proof (induction items arbitrary: seen segs)
  case (Cons item items)
  then obtain b where "parse_container R sha seen item = Inr b" by fastforce
  moreover have "\<exists>s. parse_containers_loop R sha items (pc_Key item # seen) segs' = Inr s" for segs'
    using Cons.prems by (intro Cons.IH) auto
  ultimately show ?case by (simp add: Let_def)
qed simp

lemma parse_container_canonical:
  assumes "digest_function sha" and "SegmentRef_Validate k = None" and "sorted_wrt (<) vs" and "vs \<noteq> []"
    and "\<forall>v\<in>set vs. high16 v = h"
    and "pc_Key (canonical_container R sha k (h, vs)) \<notin> set seen"
  shows "\<exists>b. parse_container R sha seen (canonical_container R sha k (h, vs)) = Inr b \<and> rb_values R b = vs"
proof -
  from parseCanonicalBitmap_complete [OF assms(3,4)] obtain b
    where b: "parseCanonicalBitmap R (canonical_bytes R vs) = Inr b" "good b" "rb_values R b = vs" by blast
  have "validDigest (containerDigest sha key n e)" for key n e
    using assms(1) by (simp add: containerDigest_def validDigest_hex_encode digest_function_def)
  with assms b show ?thesis
    by (auto simp: parse_container_def canonical_container_def Let_def ContainerKey_Validate_def
        ContainerKey_segment_def IsEmpty GetCardinality list_all_iff)
qed

lemma mem_containers_of:
  assumes "BitmapSet_ok R good s"
  shows "item \<in> set (containers_of R sha s) \<longleftrightarrow>
    (\<exists>k h. k \<in> fst ` set s \<and> half R s k h \<noteq> [] \<and> item = canonical_container R sha k (h, half R s k h))"
proof -
  have groups: "(h, g) \<in> set (high_groups (rb_values R (bitmap_at R s k))) \<longleftrightarrow> half R s k h \<noteq> [] \<and> g = half R s k h"
    if "k \<in> set (sortedSegmentRefs R s)" for k h g
  proof -
    have "sorted_wrt (<) (rb_values R (bitmap_at R s k))"
      using bitmap_at_ok [OF assms that] BitmapSet_okD(2) [OF assms] values_ascending by blast
    then show ?thesis by (auto simp: high_groups_filter half_def)
  qed
  have "item \<in> set (containers_of R sha s) \<longleftrightarrow> (\<exists>k\<in>set (sortedSegmentRefs R s). \<exists>h g.
      (h, g) \<in> set (high_groups (rb_values R (bitmap_at R s k))) \<and> item = canonical_container R sha k (h, g))"
    by (auto simp: containers_of_def image_iff)
  also have "\<dots> \<longleftrightarrow> (\<exists>k\<in>set (sortedSegmentRefs R s). \<exists>h. half R s k h \<noteq> [] \<and>
      item = canonical_container R sha k (h, half R s k h))"
    by (rule bex_cong [OF refl]) (simp add: groups conj_assoc)
  finally show ?thesis
    unfolding sortedSegmentRefs_ok(2) [OF assms] by blast
qed

lemma half_ok:
  assumes "BitmapSet_ok R good s" and "k \<in> fst ` set s"
  shows "SegmentRef_Validate k = None" and "sorted_wrt (<) (half R s k h)" and "\<forall>v\<in>set (half R s k h). high16 v = h"
proof -
  have "map_of s k = Some (bitmap_at R s k)"
    using assms by (simp add: bitmap_at_ok sortedSegmentRefs_ok)
  with assms(1) show "SegmentRef_Validate k = None" "sorted_wrt (<) (half R s k h)"
    "\<forall>v\<in>set (half R s k h). high16 v = h"
    by (auto simp: half_def sorted_wrt_filter values_ascending dest: BitmapSet_okD)
qed

lemma half_mem:
  assumes "BitmapSet_ok R good s" and "k \<in> fst ` set s"
  shows "v \<in> set (half R s k h) \<longleftrightarrow>
    FactRef (seg_DictionaryDigest k) (seg_SegmentID k) v \<in> refs_of R s \<and> high16 v = h"
proof -
  have "map_of s k = Some (bitmap_at R s k)"
    using assms by (simp add: bitmap_at_ok sortedSegmentRefs_ok)
  then show ?thesis by (auto simp: half_def refs_of_def)
qed

lemma pc_Key_canonical [simp]:
  "pc_Key (canonical_container R sha k (h, g)) =
     ContainerKey (seg_DictionaryDigest k) (seg_SegmentID k) h"
  by (simp add: canonical_container_def Let_def)

lemma distinct_container_keys:
  assumes "BitmapSet_ok R good s"
  shows "distinct (map pc_Key (containers_of R sha s))"
proof -
  have "sorted_wrt (\<lambda>x y. pc_Key x \<noteq> pc_Key y) (containers_of R sha s)"
    unfolding containers_of_def
  proof (rule sorted_wrt_concat_map [OF sortedSegmentRefs_ok(1) [OF assms]])
    fix k
    assume "k \<in> set (sortedSegmentRefs R s)"
    then have "sorted_wrt (<) (map fst (high_groups (rb_values R (bitmap_at R s k))))"
      using bitmap_at_ok [OF assms] BitmapSet_okD(2) [OF assms] high_groups_ascending values_ascending
      by blast
    then show "sorted_wrt (\<lambda>x y. pc_Key x \<noteq> pc_Key y) (map (canonical_container R sha k)
        (high_groups (rb_values R (bitmap_at R s k))))"
      unfolding sorted_wrt_map by (rule sorted_wrt_mono_rel [rotated]) auto
  qed (auto simp: less_SegmentRef_def)
  then show ?thesis by (simp add: sorted_wrt_neq [symmetric] sorted_wrt_map)
qed

lemma half_accepted:
  assumes "BitmapSet_ok R good s" and "digest_function sha" and "k \<in> fst ` set s" and "half R s k h \<noteq> []"
  defines "item \<equiv> canonical_container R sha k (h, half R s k h)"
  shows "\<exists>b. (\<forall>seen. pc_Key item \<notin> set seen \<longrightarrow> parse_container R sha seen item = Inr b) \<and>
    parseCanonicalBitmap R (pc_Bitmap item) = Inr b \<and> rb_values R b = half R s k h"
proof -
  have accept: "\<exists>b. parse_container R sha seen item = Inr b \<and> rb_values R b = half R s k h"
    if "pc_Key item \<notin> set seen" for seen
    using parse_container_canonical [OF assms(2) half_ok(1,2) assms(4) half_ok(3)] assms(1,3) that
    unfolding item_def by blast
  from accept [of "[]"] obtain b
    where b: "parse_container R sha [] item = Inr b" "rb_values R b = half R s k h" by auto
  note bytes = parse_container_Inr(3) [OF b(1)]
  have "parse_container R sha seen item = Inr b" if seen: "pc_Key item \<notin> set seen" for seen
  proof -
    from accept [OF seen] obtain b' where "parse_container R sha seen item = Inr b'" by blast
    with parse_container_Inr(3) [OF this] bytes show ?thesis by simp
  qed
  with b bytes show ?thesis by blast
qed

lemma mem_item_refs:
  assumes "BitmapSet_ok R good s" and "digest_function sha" and "k \<in> fst ` set s" and "half R s k h \<noteq> []"
  shows "r \<in> item_refs R (canonical_container R sha k (h, half R s k h)) \<longleftrightarrow>
    FactRef_segment r = k \<and> Ordinal r \<in> set (half R s k h)"
proof -
  have "ContainerKey_segment (pc_Key (canonical_container R sha k (h, g))) = k" for g
    by (simp add: ContainerKey_segment_def)
  with half_accepted [OF assms] show ?thesis
    by (auto simp: item_refs_def mem_segment_refs)
qed

lemma containers_cover:
  assumes "BitmapSet_ok R good s" and "digest_function sha"
  shows "(\<Union>item\<in>set (containers_of R sha s). item_refs R item) = refs_of R s"
proof (rule set_eqI)
  fix r
  have "r \<in> (\<Union>item\<in>set (containers_of R sha s). item_refs R item) \<longleftrightarrow>
      (\<exists>k h. k \<in> fst ` set s \<and> half R s k h \<noteq> [] \<and>
        r \<in> item_refs R (canonical_container R sha k (h, half R s k h)))"
    by (simp only: UN_iff Bex_def mem_containers_of [OF assms(1)]) blast
  also have "\<dots> \<longleftrightarrow> (\<exists>k h. k \<in> fst ` set s \<and> FactRef_segment r = k \<and> Ordinal r \<in> set (half R s k h))"
  proof -
    have "k \<in> fst ` set s \<and> half R s k h \<noteq> [] \<and>
        r \<in> item_refs R (canonical_container R sha k (h, half R s k h)) \<longleftrightarrow>
        k \<in> fst ` set s \<and> FactRef_segment r = k \<and> Ordinal r \<in> set (half R s k h)" for k h
    proof (cases "k \<in> fst ` set s \<and> half R s k h \<noteq> []")
      case True
      then show ?thesis using mem_item_refs [OF assms, of k h r] by simp
    qed auto
    then show ?thesis by (simp only:)
  qed
  also have "\<dots> \<longleftrightarrow> FactRef_segment r \<in> fst ` set s \<and> r \<in> refs_of R s"
  proof -
    have "Ordinal r \<in> set (half R s (FactRef_segment r) h) \<longleftrightarrow> r \<in> refs_of R s \<and> high16 (Ordinal r) = h"
      if "FactRef_segment r \<in> fst ` set s" for h
      using half_mem [OF assms(1) that] by simp
    then show ?thesis by metis
  qed
  also have "\<dots> \<longleftrightarrow> r \<in> refs_of R s"
    using refs_of_dom [OF assms(1)] by auto
  finally show "r \<in> (\<Union>item\<in>set (containers_of R sha s). item_refs R item) \<longleftrightarrow> r \<in> refs_of R s" .
qed

lemma containers_roundtrip:
  assumes ok: "BitmapSet_ok R good s" and sha: "digest_function sha"
  shows "\<exists>s'. ParsePortableContainers R sha (containers_of R sha s) = Inr s' \<and>
    BitmapSet_ok R good s' \<and> refs_of R s' = refs_of R s"
proof -
  have "\<forall>item\<in>set (containers_of R sha s).
      \<exists>b. \<forall>seen. pc_Key item \<notin> set seen \<longrightarrow> parse_container R sha seen item = Inr b"
    using half_accepted [OF ok sha] mem_containers_of [OF ok, of _ sha] by metis
  then obtain s' where s': "ParsePortableContainers R sha (containers_of R sha s) = Inr s'"
    using parse_containers_complete [OF _ distinct_container_keys [OF ok], of sha sha "[]" "[]"]
    by (auto simp: ParsePortableContainers_def)
  then show ?thesis
    using parse_containers_sound [OF s' [unfolded ParsePortableContainers_def]]
    by (simp add: containers_cover [OF ok sha])
qed

text \<open>What the parser accepts is, up to order, the list of containers of the set it returns.\<close>

lemma accepted_container_canonical:
  assumes parse: "ParsePortableContainers R sha items = Inr s" and item: "item \<in> set items"
  shows "ContainerKey_segment (pc_Key item) \<in> fst ` set s \<and>
    half R s (ContainerKey_segment (pc_Key item)) (High16 (pc_Key item)) \<noteq> [] \<and>
    item = canonical_container R sha (ContainerKey_segment (pc_Key item))
      (High16 (pc_Key item), half R s (ContainerKey_segment (pc_Key item)) (High16 (pc_Key item)))"
proof -
  note sound = parse_containers_sound [OF parse [unfolded ParsePortableContainers_def], simplified]
  then have ok: "BitmapSet_ok R good s" by simp
  have parsed: "\<exists>b seen. parse_container R sha seen i = Inr b" if "i \<in> set items" for i
    using sound that by blast
  let ?k = "ContainerKey_segment (pc_Key item)" and ?h = "High16 (pc_Key item)"
  from parsed [OF item] obtain b seen where b: "parse_container R sha seen item = Inr b" by blast
  note p = parse_container_Inr [OF b]
  note good = parseCanonicalBitmap_sound [OF p(3)]
  have refs: "r \<in> refs_of R s \<longleftrightarrow> (\<exists>i\<in>set items. r \<in> item_refs R i)" for r
    using sound by auto
  have own: "item_refs R item = segment_refs R ?k b" by (simp add: item_refs_def p(3))
  obtain v where v: "v \<in> set (rb_values R b)" using good(2) by (meson last_in_set)
  then have "FactRef (seg_DictionaryDigest ?k) (seg_SegmentID ?k) v \<in> refs_of R s"
    using refs item own by (auto simp: mem_segment_refs)
  then have k: "?k \<in> fst ` set s" using refs_of_dom [OF ok] by force
  have "x \<in> set (half R s ?k ?h) \<longleftrightarrow> x \<in> set (rb_values R b)" for x
  proof
    assume "x \<in> set (half R s ?k ?h)"
    then obtain i where i: "i \<in> set items" "high16 x = ?h"
      "FactRef (seg_DictionaryDigest ?k) (seg_SegmentID ?k) x \<in> item_refs R i"
      by (auto simp: half_mem [OF ok k] refs)
    from parsed [OF i(1)] obtain b' seen' where b': "parse_container R sha seen' i = Inr b'" by blast
    note q = parse_container_Inr [OF b']
    from i(3) have x: "ContainerKey_segment (pc_Key i) = ?k" "x \<in> set (rb_values R b')"
      by (simp_all add: item_refs_def q(3) mem_segment_refs)
    with q(5) i(2) have "pc_Key i = pc_Key item"
      by (cases "pc_Key i"; cases "pc_Key item") (auto simp: ContainerKey_segment_def)
    with sound i(1) item have "i = item" by (auto simp: distinct_map inj_on_def)
    with x(2) q(3) p(3) show "x \<in> set (rb_values R b)" by simp
  next
    assume "x \<in> set (rb_values R b)"
    with p(5) item own show "x \<in> set (half R s ?k ?h)"
      by (auto simp: half_mem [OF ok k] refs mem_segment_refs)
  qed
  then have "rb_values R b = half R s ?k ?h"
    using values_unique [OF good(1) half_ok(2) [OF ok k]] by blast
  with p(4) good(2) k show ?thesis by simp
qed

lemma accepted_containers_canonical:
  assumes "ParsePortableContainers R sha items = Inr s"
  shows "BitmapSet_ok R good s \<and> distinct items \<and> set items = set (containers_of R sha s)"
proof -
  note sound = parse_containers_sound [OF assms [unfolded ParsePortableContainers_def], simplified]
  then have ok: "BitmapSet_ok R good s" and distinct: "distinct items"
    by (auto simp: distinct_map)
  have "item \<in> set items" if "item \<in> set (containers_of R sha s)" for item
  proof -
    from that obtain k h where k: "k \<in> fst ` set s" and v: "half R s k h \<noteq> []"
      and item: "item = canonical_container R sha k (h, half R s k h)"
      unfolding mem_containers_of [OF ok] by blast
    have "last (half R s k h) \<in> set (half R s k h)" using v by simp
    then have high: "high16 (last (half R s k h)) = h"
      and "FactRef (seg_DictionaryDigest k) (seg_SegmentID k) (last (half R s k h)) \<in> refs_of R s"
      by (auto simp: half_mem [OF ok k])
    then obtain i where i: "i \<in> set items"
      "FactRef (seg_DictionaryDigest k) (seg_SegmentID k) (last (half R s k h)) \<in> item_refs R i"
      using sound by auto
    from sound i(1) obtain b seen where b: "parse_container R sha seen i = Inr b" by blast
    note p = parse_container_Inr [OF b]
    from i(2) have kk: "ContainerKey_segment (pc_Key i) = k"
      and "last (half R s k h) \<in> set (rb_values R b)"
      by (auto simp: item_refs_def p(3) mem_segment_refs)
    with p(5) high have hh: "High16 (pc_Key i) = h" by simp
    show ?thesis
      using accepted_container_canonical [OF assms i(1)] i(1) unfolding kk hh item by simp
  qed
  moreover have "item \<in> set (containers_of R sha s)" if "item \<in> set items" for item
    using accepted_container_canonical [OF assms that] mem_containers_of [OF ok] by blast
  ultimately show ?thesis using ok distinct by blast
qed

end

subsection \<open>Digests\<close>

text \<open>
  The bytes hashed for a container and the bytes a container contributes to the digest of a set
  are uniquely readable.
\<close>

lemma container_preimage_inject [framing]:
  assumes "key_framable k" and "key_framable k'" and "framable e" and "framable e'"
  shows "container_preimage k n e = container_preimage k' n' e' \<longleftrightarrow> k = k' \<and> n = n' \<and> e = e'"
  using assms frame_append_inject [of e e' "[]" "[]"]
  by (cases k; cases k')
     (simp add: container_preimage_def key_framable_def frame_string_append_inject word_big_endian_inject)

lemma container_entry_inject [framing]:
  assumes "key_framable (pc_Key i)" and "key_framable (pc_Key j)"
    and "framable (pc_Digest i)" and "framable (pc_Digest j)"
  shows "container_entry i @ xs = container_entry j @ ys \<longleftrightarrow>
    pc_Key i = pc_Key j \<and> pc_Cardinality i = pc_Cardinality j \<and> pc_Digest i = pc_Digest j \<and> xs = ys"
  using assms
  by (cases "pc_Key i"; cases "pc_Key j")
     (simp add: container_entry_def key_framable_def frame_string_append_inject word_big_endian_inject)

lemma container_entries_inject:
  assumes "length is = length js" and "\<forall>i\<in>set is \<union> set js. key_framable (pc_Key i) \<and> framable (pc_Digest i)"
    and "concat (map container_entry is) = concat (map container_entry js)"
  shows "list_all2 (\<lambda>i j. pc_Key i = pc_Key j \<and> pc_Cardinality i = pc_Cardinality j \<and>
    pc_Digest i = pc_Digest j) is js"
  using assms by (induction "is" js rule: list_induct2) (auto simp: container_entry_inject)

context roaring
begin

lemma containers_of_parts:
  assumes "BitmapSet_ok R good s" and "digest_function sha" and "item \<in> set (containers_of R sha s)"
  shows "key_framable (pc_Key item)" and "framable (pc_Digest item)"
    and "pc_Digest item = hex_encode (sha (container_preimage (pc_Key item) (pc_Cardinality item) (pc_Bitmap item)))"
proof -
  from assms(3) obtain k h where k: "k \<in> fst ` set s"
    and item: "item = canonical_container R sha k (h, half R s k h)"
    unfolding mem_containers_of [OF assms(1)] by blast
  have "SegmentRef_Validate k = None" by (rule half_ok(1) [OF assms(1) k])
  then have "framable (seg_DictionaryDigest k)" "framable (seg_SegmentID k)"
    by (auto simp: SegmentRef_Validate_def FactRef_Validate_def framable_identifier split: if_splits)
  with item show "key_framable (pc_Key item)" by (simp add: key_framable_def)
  show digest: "pc_Digest item = hex_encode (sha (container_preimage (pc_Key item) (pc_Cardinality item) (pc_Bitmap item)))"
    by (simp add: item canonical_container_def Let_def containerDigest_def)
  show "framable (pc_Digest item)"
    unfolding digest using assms(2) validDigest_hex_encode
    by (intro framable_identifier(1)) (auto simp: digest_function_def)
qed

lemma same_refs_same_containers:
  assumes "BitmapSet_ok R good s" and "BitmapSet_ok R good t" and "refs_of R s = refs_of R t"
  shows "containers_of R sha s = containers_of R sha t"
  using same_refs_same_segments [OF assms]
  by (auto simp: containers_of_def intro!: arg_cong [of _ _ concat])

lemma digest_commits:
  assumes s: "BitmapSet_ok R good s" and t: "BitmapSet_ok R good t" and sha: "digest_function sha"
    and rep: "representable R sha s" "representable R sha t"
    and inj: "inj_on sha (digest_preimages R sha s \<union> digest_preimages R sha t)"
    and eq: "BitmapSet_Digest R sha s = BitmapSet_Digest R sha t"
  shows "containers_of R sha s = containers_of R sha t"
proof -
  let ?s = "containers_of R sha s" and ?t = "containers_of R sha t"
  have "sha (bitmap_set_preimage ?s) = sha (bitmap_set_preimage ?t)"
    using eq by (simp add: BitmapSet_Digest_def PortableContainers_ok s t)
  then have "bitmap_set_preimage ?s = bitmap_set_preimage ?t"
    by (rule inj_onD [OF inj]) (simp_all add: digest_preimages_def)
  then have len: "length ?s = length ?t" and "concat (map container_entry ?s) = concat (map container_entry ?t)"
    using big_endian_inject [of "length ?s" 8 "length ?t"] rep
    by (simp_all add: bitmap_set_preimage_def representable_def)
  then have "list_all2 (\<lambda>i j. pc_Key i = pc_Key j \<and> pc_Cardinality i = pc_Cardinality j \<and>
      pc_Digest i = pc_Digest j) ?s ?t"
    using containers_of_parts [OF s sha] containers_of_parts [OF t sha]
    by (intro container_entries_inject) auto
  moreover have "i = j" if i: "i \<in> set ?s" and j: "j \<in> set ?t"
    and same: "pc_Key i = pc_Key j" "pc_Cardinality i = pc_Cardinality j" "pc_Digest i = pc_Digest j" for i j
  proof -
    have "container_preimage (pc_Key i) (pc_Cardinality i) (pc_Bitmap i) =
        container_preimage (pc_Key j) (pc_Cardinality j) (pc_Bitmap j)"
      by (rule inj_onD [OF inj])
         (use same(3) containers_of_parts(3) [OF s sha i] containers_of_parts(3) [OF t sha j] i j
           in \<open>simp_all add: digest_preimages_def\<close>)
    then have "pc_Bitmap i = pc_Bitmap j"
      using rep i j containers_of_parts(1) [OF s sha i] containers_of_parts(1) [OF t sha j]
      by (simp add: container_preimage_inject representable_def)
    with same show ?thesis by simp
  qed
  ultimately have "list_all2 (=) ?s ?t"
    by (auto elim!: list.rel_mono_strong)
  then show ?thesis by (simp add: list_all2_eq)
qed

end

subsection \<open>Portable segments\<close>

context roaring
begin

lemma PortableSegments_ok:
  assumes "BitmapSet_ok R good s"
  shows "PortableSegments R sha s = Inr (segments_of R sha s)"
proof -
  have "portable_segments_loop R sha s ks result = Inr (result @ map (canonical_segment R sha s) ks)"
    if "set ks \<subseteq> set (sortedSegmentRefs R s)" for ks result
    using that
  proof (induction ks arbitrary: result)
    case (Cons k ks)
    then have "good (bitmap_at R s k)" "rb_values R (bitmap_at R s k) \<noteq> []"
      using bitmap_at_ok [OF assms] BitmapSet_okD [OF assms] by fastforce+
    with Cons show ?case
      by (simp add: marshalCanonicalBitmap_ok canonical_segment_def GetCardinality Let_def)
  qed simp
  then show ?thesis by (simp add: PortableSegments_def segments_of_def)
qed

lemma parse_segments_step:
  assumes "BitmapSet_ok R good s" and "digest_function sha" and "k \<in> set (sortedSegmentRefs R s)"
    and "map_of segs k = None"
  shows "\<exists>b. good b \<and> rb_values R b = rb_values R (bitmap_at R s k) \<and> rb_values R b \<noteq> [] \<and>
    SegmentRef_Validate k = None \<and>
    parse_segments_loop R sha (canonical_segment R sha s k # items) segs =
      parse_segments_loop R sha items (map_put k b segs)"
proof -
  note k = BitmapSet_okD [OF assms(1) bitmap_at_ok [OF assms(1,3)]]
  from parseCanonicalBitmap_complete [OF values_ascending [OF k(2)] k(3)] obtain b
    where b: "parseCanonicalBitmap R (canonical_bytes R (rb_values R (bitmap_at R s k))) = Inr b"
      "good b" "rb_values R b = rb_values R (bitmap_at R s k)" by blast
  have "validDigest (segmentDigest sha key n e)" for key n e
    using assms(2) by (simp add: segmentDigest_def validDigest_hex_encode digest_function_def)
  with b k assms(4) show ?thesis
    by (intro exI [of _ b]) (simp add: canonical_segment_def IsEmpty GetCardinality Let_def)
qed

lemma parse_segments_canonical:
  assumes ok: "BitmapSet_ok R good s" and sha: "digest_function sha"
  shows "set ks \<subseteq> set (sortedSegmentRefs R s) \<Longrightarrow> distinct ks \<Longrightarrow> BitmapSet_ok R good segs \<Longrightarrow>
    \<forall>k\<in>set ks. map_of segs k = None \<Longrightarrow>
    \<exists>s'. parse_segments_loop R sha (map (canonical_segment R sha s) ks) segs = Inr s' \<and>
      BitmapSet_ok R good s' \<and>
      refs_of R s' = refs_of R segs \<union> (\<Union>k\<in>set ks. segment_refs R k (bitmap_at R s k))"
proof (induction ks arbitrary: segs)
  case (Cons k ks)
  then obtain b where b: "good b" "rb_values R b = rb_values R (bitmap_at R s k)" "rb_values R b \<noteq> []"
    "SegmentRef_Validate k = None"
    "parse_segments_loop R sha (canonical_segment R sha s k # map (canonical_segment R sha s) ks) segs =
      parse_segments_loop R sha (map (canonical_segment R sha s) ks) (map_put k b segs)"
    using parse_segments_step [OF ok sha, of k segs "map (canonical_segment R sha s) ks"] by auto
  have "\<exists>s'. parse_segments_loop R sha (map (canonical_segment R sha s) ks) (map_put k b segs) = Inr s' \<and>
      BitmapSet_ok R good s' \<and>
      refs_of R s' = refs_of R (map_put k b segs) \<union> (\<Union>k\<in>set ks. segment_refs R k (bitmap_at R s k))"
    using Cons.prems b by (intro Cons.IH) (auto intro: BitmapSet_ok_put)
  moreover have "refs_of R (map_put k b segs) = segment_refs R k (bitmap_at R s k) \<union> refs_of R segs"
    using Cons.prems(4) b(2) by (simp add: refs_of_put_new segment_refs_def)
  ultimately show ?case using b(5) by auto
qed simp

lemma segments_roundtrip:
  assumes "BitmapSet_ok R good s" and "digest_function sha"
  shows "\<exists>s'. ParsePortableSegments R sha (segments_of R sha s) = Inr s' \<and> BitmapSet_ok R good s' \<and>
    refs_of R s' = refs_of R s"
proof -
  have "(\<Union>k\<in>set (sortedSegmentRefs R s). segment_refs R k (bitmap_at R s k)) = set (ref_list R s)"
    by (auto simp: ref_list_def segment_refs_def)
  then have "(\<Union>k\<in>set (sortedSegmentRefs R s). segment_refs R k (bitmap_at R s k)) = refs_of R s"
    by (simp add: set_ref_list [OF assms(1)])
  then show ?thesis
    using parse_segments_canonical [OF assms subset_refl, of "[]"] sortedSegmentRefs_ok(1) [OF assms(1)]
    by (auto simp: ParsePortableSegments_def segments_of_def strict_sorted_iff)
qed

end

section \<open>Properties\<close>

text \<open>
  C21: the portable containers round-trip. On a set that satisfies the invariant
  \<open>PortableContainers\<close> succeeds, and \<open>ParsePortableContainers\<close> accepts what it
  produced and rebuilds a set with the same addresses; the same holds for portable segments.
\<close>

theorem portable_roundtrip:
  assumes "roaring R good" and "BitmapSet_ok R good s" and "digest_function sha"
  shows "\<exists>cs ss s' s''. PortableContainers R sha s = Inr cs \<and> ParsePortableContainers R sha cs = Inr s' \<and>
    BitmapSet_ok R good s' \<and> refs_of R s' = refs_of R s \<and>
    PortableSegments R sha s = Inr ss \<and> ParsePortableSegments R sha ss = Inr s'' \<and>
    BitmapSet_ok R good s'' \<and> refs_of R s'' = refs_of R s"
  using roaring.PortableContainers_ok [OF assms(1,2)] roaring.PortableSegments_ok [OF assms(1,2)]
    roaring.containers_roundtrip [OF assms] roaring.segments_roundtrip [OF assms] by blast

theorem portable_roundtrip_witness:
  "\<exists>cs s'. PortableContainers list_roaring test_hash sample_set = Inr cs \<and> length cs = 2 \<and>
     ParsePortableContainers list_roaring test_hash cs = Inr s' \<and>
     refs_of list_roaring s' = refs_of list_roaring sample_set"
proof -
  have "case PortableContainers list_roaring test_hash sample_set of Inl e \<Rightarrow> False | Inr cs \<Rightarrow> length cs = 2"
    by code_simp
  then show ?thesis
    using portable_roundtrip [OF list_bitmap.roaring_axioms sample_sets_ok(1) test_hash_digest] by auto
qed

text \<open>
  C15: the encoding is not malleable. Whatever list of containers \<open>ParsePortableContainers\<close>
  accepts, in whatever order, is exactly the list of containers the set it returns would be
  encoded as: no duplicate, no non-canonical bytes, no wrong cardinality, digest or partition.
\<close>

theorem accepted_containers_unique:
  assumes "roaring R good" and "ParsePortableContainers R sha items = Inr s"
  shows "\<exists>cs. PortableContainers R sha s = Inr cs \<and> BitmapSet_ok R good s \<and>
    distinct items \<and> set items = set cs"
  using roaring.accepted_containers_canonical [OF assms] roaring.PortableContainers_ok [OF assms(1)]
  by blast

theorem accepted_containers_unique_witness:
  "\<exists>cs s. PortableContainers list_roaring test_hash sample_set = Inr cs \<and>
     ParsePortableContainers list_roaring test_hash (rev cs) = Inr s \<and>
     (\<exists>cs'. PortableContainers list_roaring test_hash s = Inr cs' \<and> set cs' = set cs)"
proof -
  have "case PortableContainers list_roaring test_hash sample_set of
      Inl e \<Rightarrow> False
    | Inr cs \<Rightarrow> \<not> isl (ParsePortableContainers list_roaring test_hash (rev cs))"
    by code_simp
  then obtain cs s where cs: "PortableContainers list_roaring test_hash sample_set = Inr cs"
    and s: "ParsePortableContainers list_roaring test_hash (rev cs) = Inr s"
    by (auto split: sum.splits) (metis isl_def sum.exhaust_sel)
  from accepted_containers_unique [OF list_bitmap.roaring_axioms s] cs s show ?thesis by auto
qed

text \<open>
  C22: the digest of a set commits to its contents and to nothing else. Sets with the same
  addresses have the same digest, whatever their insertion history; and two sets with the same
  digest have the same addresses, unless the hash function collides on two of the byte strings
  hashed for them (the framing is uniquely readable).
\<close>

theorem BitmapSet_Digest_commits:
  assumes "roaring R good" and "BitmapSet_ok R good s" and "BitmapSet_ok R good t"
    and "digest_function sha" and "representable R sha s" and "representable R sha t"
    and "inj_on sha (digest_preimages R sha s \<union> digest_preimages R sha t)"
  shows "(\<exists>d. BitmapSet_Digest R sha s = Inr d) \<and>
    (BitmapSet_Digest R sha s = BitmapSet_Digest R sha t \<longleftrightarrow> refs_of R s = refs_of R t)"
proof (intro conjI iffI)
  show "\<exists>d. BitmapSet_Digest R sha s = Inr d"
    by (simp add: BitmapSet_Digest_def roaring.PortableContainers_ok [OF assms(1,2)])
  assume "refs_of R s = refs_of R t"
  then show "BitmapSet_Digest R sha s = BitmapSet_Digest R sha t"
    using roaring.same_refs_same_containers [OF assms(1-3)]
    by (simp add: BitmapSet_Digest_def roaring.PortableContainers_ok [OF assms(1)] assms)
next
  assume "BitmapSet_Digest R sha s = BitmapSet_Digest R sha t"
  from roaring.digest_commits [OF assms this] show "refs_of R s = refs_of R t"
    using roaring.containers_cover [OF assms(1,2,4)] roaring.containers_cover [OF assms(1,3,4)] by simp
qed

definition unit_set :: "uint32 list BitmapSet" where
  "unit_set = [(SegmentRef (replicate 64 CHR ''a'') ''s'', [7])]"

lemma unit_set_ok:
  "BitmapSet_ok list_roaring (sorted_wrt (<)) unit_set"
  "Ordinal_Bitmap.Contains list_roaring unit_set (sample_ref 7)"
  by code_simp+

theorem BitmapSet_Digest_commits_witness:
  "BitmapSet_Digest list_roaring test_hash unit_set \<noteq> BitmapSet_Digest list_roaring test_hash []"
proof -
  define c where "c = hd (containers_of list_roaring test_hash unit_set)"
  have c: "containers_of list_roaring test_hash unit_set = [c]"
    unfolding c_def by code_simp
  have n: "containers_of list_roaring test_hash [] = []"
    by code_simp
  have len: "length (pc_Bitmap c) < 100"
    unfolding c_def by code_simp
  have differ: "distinct (map test_hash [bitmap_set_preimage [c], bitmap_set_preimage [],
      container_preimage (pc_Key c) (pc_Cardinality c) (pc_Bitmap c)])"
    unfolding c_def by code_simp
  have "inj_on test_hash (digest_preimages list_roaring test_hash unit_set \<union>
      digest_preimages list_roaring test_hash [])"
    using differ by (auto simp: digest_preimages_def c n inj_on_def)
  moreover have "representable list_roaring test_hash unit_set" "representable list_roaring test_hash []"
    using len by (simp_all add: representable_def c n)
  moreover have "refs_of list_roaring unit_set \<noteq> refs_of list_roaring []"
    using roaring.Contains_refines [OF list_bitmap.roaring_axioms unit_set_ok(1), of "sample_ref 7"]
      unit_set_ok(2) by auto
  ultimately show ?thesis
    using BitmapSet_Digest_commits [OF list_bitmap.roaring_axioms unit_set_ok(1) BitmapSet_ok_Nil test_hash_digest]
    by blast
qed

end
