(* ===== verification/Ordinal_Weighted.thy ===== *)
theory Ordinal_Weighted
  imports Ordinal_Bitmap
begin

text \<open>
  \<open>internal/ordinal/weighted.go\<close>: exact witness multisets. The support is a bitmap set; a
  sparse map holds the multiplicity minus one of the addresses that occur more than once. The
  theory models the immutable set with its two combinations (\<open>Add\<close> for witnesses used
  together, \<open>Max\<close> for alternative proofs), the streaming builder, and the digest.

  A weighted set denotes a function from addresses to natural numbers, \<open>weight\<close>. The lemmas
  show that the operations are pointwise addition and maximum of these functions, with an error
  and never a wrapped result when a multiplicity would not fit into 64 bits.
\<close>

section \<open>Definitions\<close>

type_synonym extras_map = "(FactRef, uint64) go_map"

record 'b WeightedSet =
  ws_support :: "'b BitmapSet"
  ws_extras :: extras_map

record WeightedItem =
  wi_Ref :: FactRef
  wi_Multiplicity :: uint64

text \<open>
  The support pointer of a builder may be nil (the zero value of the type); the operations then
  allocate it. A call on a nil builder is not modelled. The nil map of extras is the empty one.
\<close>

record 'b WeightedBuilder =
  wb_support :: "'b Builder option"
  wb_extras :: extras_map
  wb_err :: "ordinal_error option"

definition NewWeightedBuilder :: "'b WeightedBuilder" where
  "NewWeightedBuilder = \<lparr>wb_support = Some NewBuilder, wb_extras = [], wb_err = None\<rparr>"

text \<open>\<open>extras[ref]\<close> is zero for a missing key.\<close>

definition extra_at :: "extras_map \<Rightarrow> FactRef \<Rightarrow> uint64" where
  "extra_at extras ref = (case map_of extras ref of None \<Rightarrow> 0 | Some e \<Rightarrow> e)"

definition allocated :: "'b WeightedBuilder \<Rightarrow> 'b Builder" where
  "allocated b = (case wb_support b of None \<Rightarrow> NewBuilder | Some s \<Rightarrow> s)"

definition AddRef ::
  "'b roaring_ops \<Rightarrow> 'b WeightedBuilder \<Rightarrow> FactRef \<Rightarrow> uint64 \<Rightarrow>
   ordinal_error option \<times> 'b WeightedBuilder" where
  "AddRef R b0 ref multiplicity =
     (case wb_err b0 of
        Some e \<Rightarrow> (Some e, b0)
      | None \<Rightarrow>
        (let b = b0\<lparr>wb_support := Some (allocated b0)\<rparr>; support = allocated b0 in
         if multiplicity = 0 then (Some ErrInvalid, b\<lparr>wb_err := Some ErrInvalid\<rparr>)
         else
           (let present = (case map_of (bld_segments support) (FactRef_segment ref) of
                             None \<Rightarrow> False
                           | Some segment \<Rightarrow> rb_Contains R segment (Ordinal ref))
            in if \<not> present
               then case Builder_Add R support ref of
                      (Some e, support') \<Rightarrow> (Some e, b\<lparr>wb_support := Some support', wb_err := Some e\<rparr>)
                    | (None, support') \<Rightarrow>
                        (None, b\<lparr>wb_support := Some support',
                          wb_extras := (if multiplicity > 1
                            then map_put ref (multiplicity - 1) (wb_extras b) else wb_extras b)\<rparr>)
               else
                 (case (case checkedAdd 1 (extra_at (wb_extras b) ref) of
                          Inl e \<Rightarrow> Inl e
                        | Inr current \<Rightarrow> checkedAdd current multiplicity) of
                    Inl e \<Rightarrow> (Some e, b\<lparr>wb_err := Some e\<rparr>)
                  | Inr current \<Rightarrow>
                      (None, b\<lparr>wb_extras := map_put ref (current - 1) (wb_extras b)\<rparr>)))))"

text \<open>The sequence \<open>WeightedSet.Refs\<close> hands to its callback, and the iteration.\<close>

definition weighted_list :: "'b roaring_ops \<Rightarrow> 'b WeightedSet \<Rightarrow> (FactRef \<times> uint64) list" where
  "weighted_list R s = map (\<lambda>ref. (ref, 1 + extra_at (ws_extras s) ref)) (ref_list R (ws_support s))"

definition WeightedSet_Refs ::
  "'b roaring_ops \<Rightarrow> 'b WeightedSet \<Rightarrow> (FactRef \<Rightarrow> uint64 \<Rightarrow> 's \<Rightarrow> bool \<times> 's) \<Rightarrow> 's \<Rightarrow> 's" where
  "WeightedSet_Refs R s yield st =
     Refs R (ws_support s) (\<lambda>ref. yield ref (1 + extra_at (ws_extras s) ref)) st"

definition AddWeighted ::
  "'b roaring_ops \<Rightarrow> 'b WeightedBuilder \<Rightarrow> 'b WeightedSet \<Rightarrow> uint64 \<Rightarrow>
   ordinal_error option \<times> 'b WeightedBuilder" where
  "AddWeighted R b0 value scale =
     (if scale = 0 then (Some ErrInvalid, b0)
      else case wb_err b0 of
        Some e \<Rightarrow> (Some e, b0)
      | None \<Rightarrow>
          (let b = WeightedSet_Refs R value
             (\<lambda>ref multiplicity b.
                if multiplicity > - 1 div scale
                then (False, b\<lparr>wb_err := Some ErrMultiplicityOverflow\<rparr>)
                else case AddRef R b ref (multiplicity * scale) of
                  (err, b') \<Rightarrow> (err = None, b'))
             (b0\<lparr>wb_support := Some (allocated b0)\<rparr>)
           in (wb_err b, b)))"

definition MaxWeighted ::
  "'b roaring_ops \<Rightarrow> 'b WeightedBuilder \<Rightarrow> 'b WeightedSet \<Rightarrow>
   ordinal_error option \<times> 'b WeightedBuilder" where
  "MaxWeighted R b value =
     (case wb_err b of
        Some e \<Rightarrow> (Some e, b)
      | None \<Rightarrow>
          (let support = allocated b;
               segments = foldl (\<lambda>segments (key, source).
                 case map_of segments key of
                   None \<Rightarrow> map_put key source segments
                 | Some target \<Rightarrow> map_put key (rb_Or R target source) segments)
                 (bld_segments support) (ws_support value);
               extras = foldl (\<lambda>extras (ref, extra).
                 if extra > extra_at extras ref then map_put ref extra extras else extras)
                 (wb_extras b) (ws_extras value)
           in (None, b\<lparr>wb_support := Some (support\<lparr>bld_segments := segments\<rparr>), wb_extras := extras\<rparr>)))"

definition WeightedBuilder_Freeze ::
  "'b roaring_ops \<Rightarrow> 'b WeightedBuilder \<Rightarrow> ordinal_error + 'b WeightedSet" where
  "WeightedBuilder_Freeze R b =
     (case wb_support b of
        None \<Rightarrow> Inl ErrInvalid
      | Some builder \<Rightarrow>
          (case wb_err b of
             Some e \<Rightarrow> Inl e
           | None \<Rightarrow>
               (case Builder_Freeze R builder of
                  Inl e \<Rightarrow> Inl e
                | Inr support \<Rightarrow> Inr \<lparr>ws_support = support, ws_extras = wb_extras b\<rparr>)))"

fun weighted_items ::
  "'b roaring_ops \<Rightarrow> WeightedItem list \<Rightarrow> 'b Builder \<Rightarrow> extras_map \<Rightarrow> FactRef list \<Rightarrow>
   ordinal_error + 'b Builder \<times> extras_map" where
  "weighted_items R [] builder extras seen = Inr (builder, extras)"
| "weighted_items R (item # items) builder extras seen =
     (if FactRef_Validate (wi_Ref item) \<noteq> None \<or> wi_Multiplicity item = 0 then Inl ErrInvalid
      else if wi_Ref item \<in> set seen then Inl ErrInvalid
      else case Builder_Add R builder (wi_Ref item) of
        (Some e, _) \<Rightarrow> Inl e
      | (None, builder') \<Rightarrow>
          weighted_items R items builder'
            (if wi_Multiplicity item > 1
             then map_put (wi_Ref item) (wi_Multiplicity item - 1) extras else extras)
            (wi_Ref item # seen))"

definition NewWeightedSet ::
  "'b roaring_ops \<Rightarrow> WeightedItem list \<Rightarrow> ordinal_error + 'b WeightedSet" where
  "NewWeightedSet R items =
     (case weighted_items R items NewBuilder [] [] of
        Inl e \<Rightarrow> Inl e
      | Inr (builder, extras) \<Rightarrow>
          (case Builder_Freeze R builder of
             Inl e \<Rightarrow> Inl e
           | Inr support \<Rightarrow> Inr \<lparr>ws_support = support, ws_extras = extras\<rparr>))"

definition WeightedFromSupport :: "'b roaring_ops \<Rightarrow> 'b BitmapSet \<Rightarrow> 'b WeightedSet" where
  "WeightedFromSupport R support = \<lparr>ws_support = cloneSegments R support, ws_extras = []\<rparr>"

definition WeightedSet_Len :: "'b roaring_ops \<Rightarrow> 'b WeightedSet \<Rightarrow> uint64" where
  "WeightedSet_Len R s = Cardinality R (ws_support s)"

definition Multiplicity :: "'b roaring_ops \<Rightarrow> 'b WeightedSet \<Rightarrow> FactRef \<Rightarrow> uint64" where
  "Multiplicity R s ref =
     (if \<not> Contains R (ws_support s) ref then 0 else 1 + extra_at (ws_extras s) ref)"

text \<open>The body of the loop over the overlap in \<open>Add\<close>: both multiplicities, then their sum.\<close>

definition overlap_sum :: "extras_map \<Rightarrow> extras_map \<Rightarrow> FactRef \<Rightarrow> ordinal_error + uint64" where
  "overlap_sum left_extras right_extras ref =
     (case checkedAdd 1 (extra_at left_extras ref) of
        Inl e \<Rightarrow> Inl e
      | Inr left \<Rightarrow>
          (case checkedAdd 1 (extra_at right_extras ref) of
             Inl e \<Rightarrow> Inl e
           | Inr right \<Rightarrow> checkedAdd left right))"

definition WeightedSet_Add ::
  "'b roaring_ops \<Rightarrow> 'b WeightedSet \<Rightarrow> 'b WeightedSet \<Rightarrow> ordinal_error + 'b WeightedSet" where
  "WeightedSet_Add R s other =
     (let support = Union R (ws_support s) (ws_support other);
          overlap = Intersection R (ws_support s) (ws_support other);
          (addErr, extras) = Refs R overlap
            (\<lambda>ref (addErr, extras).
               case overlap_sum (ws_extras s) (ws_extras other) ref of
                 Inl e \<Rightarrow> (False, (Some e, extras))
               | Inr both \<Rightarrow> (True, (addErr, map_put ref (both - 1) extras)))
            (None, [])
      in case addErr of
           Some e \<Rightarrow> Inl e
         | None \<Rightarrow>
             (let extras = foldl (\<lambda>extras (ref, extra).
                    if \<not> Contains R (ws_support other) ref then map_put ref extra extras else extras)
                    extras (ws_extras s);
                  extras = foldl (\<lambda>extras (ref, extra).
                    if \<not> Contains R (ws_support s) ref then map_put ref extra extras else extras)
                    extras (ws_extras other)
              in Inr \<lparr>ws_support = support, ws_extras = extras\<rparr>))"

definition WeightedSet_Max :: "'b roaring_ops \<Rightarrow> 'b WeightedSet \<Rightarrow> 'b WeightedSet \<Rightarrow> 'b WeightedSet" where
  "WeightedSet_Max R s other =
     \<lparr>ws_support = Union R (ws_support s) (ws_support other),
      ws_extras =
        foldl (\<lambda>extras (ref, extra).
          if extra > extra_at extras ref then map_put ref extra extras else extras)
        (foldl (\<lambda>extras (ref, extra). map_put ref extra extras) [] (ws_extras s)) (ws_extras other)\<rparr>"

definition WeightedSet_Support :: "'b roaring_ops \<Rightarrow> 'b WeightedSet \<Rightarrow> 'b BitmapSet" where
  "WeightedSet_Support R s = cloneSegments R (ws_support s)"

definition weightedDigestDomain :: "byte list" where
  "weightedDigestDomain = bytes_of (''TASKGATE-ORDINAL-WEIGHTED-SET-V1'' @ [CHR 0x00])"

definition weighted_entry :: "FactRef \<times> uint64 \<Rightarrow> byte list" where
  "weighted_entry = (\<lambda>(ref, multiplicity).
     frame_string (DictionaryDigest ref) @ frame_string (SegmentID ref) @
     big_endian 4 (unat (Ordinal ref)) @ big_endian 8 (unat multiplicity))"

definition WeightedSet_Digest ::
  "'b roaring_ops \<Rightarrow> hash_function \<Rightarrow> 'b WeightedSet \<Rightarrow> ordinal_error + go_string" where
  "WeightedSet_Digest R sha s =
     (case WeightedSet_Refs R s
        (\<lambda>ref multiplicity (digestErr, written).
           if FactRef_Validate ref \<noteq> None \<or> multiplicity = 0
           then (False, (Some ErrInvalid, written))
           else (True, (digestErr, written @ weighted_entry (ref, multiplicity))))
        (None, weightedDigestDomain @ big_endian 8 (unat (WeightedSet_Len R s))) of
      (Some e, _) \<Rightarrow> Inl e
    | (None, written) \<Rightarrow> Inr (hex_encode (sha written)))"

subsection \<open>Meaning and invariant\<close>

definition weight :: "'b roaring_ops \<Rightarrow> 'b WeightedSet \<Rightarrow> FactRef \<Rightarrow> nat" where
  "weight R s ref =
     (if ref \<in> refs_of R (ws_support s) then 1 + unat (extra_at (ws_extras s) ref) else 0)"

text \<open>
  The support satisfies its invariant, the extras are a map on the support, and one more than an
  extra fits into 64 bits.
\<close>

definition extras_ok :: "FactRef set \<Rightarrow> extras_map \<Rightarrow> bool" where
  "extras_ok refs extras \<longleftrightarrow>
     go_map_ok extras \<and> (\<forall>ref extra. map_of extras ref = Some extra \<longrightarrow>
       ref \<in> refs \<and> 1 + unat extra < 2 ^ 64)"

definition WeightedSet_ok :: "'b roaring_ops \<Rightarrow> ('b \<Rightarrow> bool) \<Rightarrow> 'b WeightedSet \<Rightarrow> bool" where
  "WeightedSet_ok R good s \<longleftrightarrow>
     BitmapSet_ok R good (ws_support s) \<and> extras_ok (refs_of R (ws_support s)) (ws_extras s)"

text \<open>A builder that has not failed, and the weighted set it would freeze to.\<close>

definition builder_ok :: "'b roaring_ops \<Rightarrow> ('b \<Rightarrow> bool) \<Rightarrow> 'b WeightedBuilder \<Rightarrow> bool" where
  "builder_ok R good b \<longleftrightarrow>
     wb_err b = None \<and> bld_err (allocated b) = None \<and>
     WeightedSet_ok R good \<lparr>ws_support = bld_segments (allocated b), ws_extras = wb_extras b\<rparr>"

definition builder_weight :: "'b roaring_ops \<Rightarrow> 'b WeightedBuilder \<Rightarrow> FactRef \<Rightarrow> nat" where
  "builder_weight R b =
     weight R \<lparr>ws_support = bld_segments (allocated b), ws_extras = wb_extras b\<rparr>"

text \<open>A loop body that puts a computed value into a map, or stops with the error of the computation.\<close>

definition collect_body ::
  "('a \<Rightarrow> 'e + 'v) \<Rightarrow> ('v \<Rightarrow> 'w) \<Rightarrow> 'a \<Rightarrow> 'e option \<times> ('a, 'w) go_map \<Rightarrow> bool \<times> 'e option \<times> ('a, 'w) go_map" where
  "collect_body f g = (\<lambda>r (err, m).
     case f r of Inl e \<Rightarrow> (False, (Some e, m)) | Inr v \<Rightarrow> (True, (err, map_put r (g v) m)))"

text \<open>The callback of \<open>AddWeighted\<close>, on pairs.\<close>

definition scaled_body ::
  "'b roaring_ops \<Rightarrow> uint64 \<Rightarrow> FactRef \<times> uint64 \<Rightarrow> 'b WeightedBuilder \<Rightarrow> bool \<times> 'b WeightedBuilder" where
  "scaled_body R scale = (\<lambda>(ref, multiplicity) b.
     if multiplicity > - 1 div scale
     then (False, b\<lparr>wb_err := Some ErrMultiplicityOverflow\<rparr>)
     else case AddRef R b ref (multiplicity * scale) of (err, b') \<Rightarrow> (err = None, b'))"

text \<open>
  A run of the builder: a sequence of operations up to the first error, and the same sequence on
  functions from addresses to numbers, undefined where a multiplicity would need more than 64 bits.
\<close>

datatype 'b builder_op =
    OpAddRef FactRef uint64
  | OpAddWeighted "'b WeightedSet" uint64
  | OpMaxWeighted "'b WeightedSet"

fun run_op ::
  "'b roaring_ops \<Rightarrow> 'b builder_op \<Rightarrow> 'b WeightedBuilder \<Rightarrow> ordinal_error option \<times> 'b WeightedBuilder" where
  "run_op R (OpAddRef r m) b = AddRef R b r m"
| "run_op R (OpAddWeighted v k) b = AddWeighted R b v k"
| "run_op R (OpMaxWeighted v) b = MaxWeighted R b v"

fun run_ops ::
  "'b roaring_ops \<Rightarrow> 'b builder_op list \<Rightarrow> 'b WeightedBuilder \<Rightarrow> ordinal_error option \<times> 'b WeightedBuilder" where
  "run_ops R [] b = (None, b)"
| "run_ops R (op # ops) b =
     (case run_op R op b of (Some e, b') \<Rightarrow> (Some e, b') | (None, b') \<Rightarrow> run_ops R ops b')"

fun apply_op :: "'b roaring_ops \<Rightarrow> 'b builder_op \<Rightarrow> (FactRef \<Rightarrow> nat) \<Rightarrow> (FactRef \<Rightarrow> nat) option" where
  "apply_op R (OpAddRef r m) w = (if w r + unat m < 2 ^ 64 then Some (w(r := w r + unat m)) else None)"
| "apply_op R (OpAddWeighted v k) w =
     (if \<forall>r. w r + unat k * weight R v r < 2 ^ 64 then Some (\<lambda>r. w r + unat k * weight R v r) else None)"
| "apply_op R (OpMaxWeighted v) w = Some (\<lambda>r. max (w r) (weight R v r))"

fun apply_ops :: "'b roaring_ops \<Rightarrow> 'b builder_op list \<Rightarrow> (FactRef \<Rightarrow> nat) \<Rightarrow> (FactRef \<Rightarrow> nat) option" where
  "apply_ops R [] w = Some w"
| "apply_ops R (op # ops) w = (case apply_op R op w of None \<Rightarrow> None | Some w' \<Rightarrow> apply_ops R ops w')"

fun op_ok :: "'b roaring_ops \<Rightarrow> ('b \<Rightarrow> bool) \<Rightarrow> 'b builder_op \<Rightarrow> bool" where
  "op_ok R good (OpAddRef r m) \<longleftrightarrow> FactRef_Validate r = None \<and> m \<noteq> 0"
| "op_ok R good (OpAddWeighted v k) \<longleftrightarrow> WeightedSet_ok R good v \<and> k \<noteq> 0"
| "op_ok R good (OpMaxWeighted v) \<longleftrightarrow> WeightedSet_ok R good v"

definition weighted_preimage :: "'b roaring_ops \<Rightarrow> 'b WeightedSet \<Rightarrow> byte list" where
  "weighted_preimage R s =
     weightedDigestDomain @ big_endian 8 (unat (WeightedSet_Len R s)) @
     concat (map weighted_entry (weighted_list R s))"

fun item_weight :: "WeightedItem list \<Rightarrow> (FactRef \<Rightarrow> nat) \<Rightarrow> FactRef \<Rightarrow> nat" where
  "item_weight [] f = f"
| "item_weight (i # items) f = item_weight items (f(wi_Ref i := unat (wi_Multiplicity i)))"

section \<open>Lemmas\<close>

subsection \<open>Extras\<close>

lemma extras_okD:
  assumes "extras_ok refs extras"
  shows "go_map_ok extras" and "map_of extras r = Some e \<Longrightarrow> r \<in> refs \<and> 1 + unat e < 2 ^ 64"
    and "1 + unat (extra_at extras r) < 2 ^ 64" and "r \<notin> refs \<Longrightarrow> map_of extras r = None"
proof -
  show "map_of extras r = None" if "r \<notin> refs"
    using assms that by (cases "map_of extras r") (auto simp: extras_ok_def)
qed (use assms in \<open>auto simp: extras_ok_def extra_at_def split: option.splits\<close>)

lemma unat_one_plus: "1 + unat (x :: uint64) < 2 ^ 64 \<Longrightarrow> unat (1 + x) = 1 + unat x"
  using unat_add_exact [of 1 x] by simp

lemma unat_minus_one_pos: "(x :: uint64) \<noteq> 0 \<Longrightarrow> unat (x - 1) = unat x - 1"
  by (simp add: unat_minus_one)

lemma checkedAdd_extra:
  assumes "1 + unat x < 2 ^ 64"
  shows "checkedAdd 1 x = Inr (1 + x)"
  using assms by (simp add: checkedAdd_Inr)

lemma overlap_sum_Inr:
  assumes "1 + unat (extra_at xs r) < 2 ^ 64" and "1 + unat (extra_at ys r) < 2 ^ 64"
  shows "overlap_sum xs ys r = Inr v \<longleftrightarrow>
    (1 + unat (extra_at xs r)) + (1 + unat (extra_at ys r)) < 2 ^ 64 \<and>
    v = (1 + extra_at xs r) + (1 + extra_at ys r)"
  using assms by (simp add: overlap_sum_def checkedAdd_extra checkedAdd_Inr unat_one_plus)

lemma overlap_sum_Inl:
  assumes "1 + unat (extra_at xs r) < 2 ^ 64" and "1 + unat (extra_at ys r) < 2 ^ 64"
  shows "overlap_sum xs ys r = Inl e \<longleftrightarrow>
    \<not> (1 + unat (extra_at xs r)) + (1 + unat (extra_at ys r)) < 2 ^ 64 \<and> e = ErrMultiplicityOverflow"
  using assms by (simp add: overlap_sum_def checkedAdd_extra checkedAdd_Inl unat_one_plus)

lemma weight_zero: "r \<notin> refs_of R (ws_support s) \<Longrightarrow> weight R s r = 0"
  by (simp add: weight_def)

lemma weight_empty: "weight R \<lparr>ws_support = [], ws_extras = x\<rparr> = (\<lambda>_. 0)"
  by (simp add: weight_def fun_eq_iff)

lemma weight_extras_cong:
  "refs_of R (ws_support s) = refs_of R (ws_support t) \<Longrightarrow>
   (\<And>r. r \<in> refs_of R (ws_support s) \<Longrightarrow> extra_at (ws_extras s) r = extra_at (ws_extras t) r) \<Longrightarrow>
   weight R s = weight R t"
  by (auto simp: weight_def fun_eq_iff)

subsection \<open>Loops over maps of extras\<close>

lemma copy_loop: "foldl (\<lambda>extras (r, e). if P r then map_put r e extras else extras) acc m =
  foldl (put_step (\<lambda>r e old. if P r then Some e else None)) acc m"
  by (rule foldl_cong) (auto simp: put_step_def)

lemma max_loop: "foldl (\<lambda>extras (r, e). if e > extra_at extras r then map_put r e extras else extras) acc m =
  foldl (put_step (\<lambda>r e old. if e > (case old of None \<Rightarrow> 0 | Some x \<Rightarrow> x) then Some e else None)) acc m"
  by (rule foldl_cong) (auto simp: put_step_def extra_at_def)

lemma put_all_loop: "foldl (\<lambda>extras (r, e). map_put r e extras) acc m =
  foldl (put_step (\<lambda>r e old. Some e)) acc m"
  by (rule foldl_cong) (auto simp: put_step_def)

lemma extra_at_max_loop:
  "go_map_ok m \<Longrightarrow> extra_at (foldl (\<lambda>extras (r, e). if e > extra_at extras r then map_put r e extras else extras)
     acc m) r = max (extra_at acc r) (extra_at m r)"
  unfolding max_loop by (auto simp: extra_at_def map_of_put_loop max_def word_gt_0 split: option.splits)

lemma map_of_max_loop_Some:
  "go_map_ok m \<Longrightarrow> map_of (foldl (\<lambda>extras (r, e). if e > extra_at extras r then map_put r e extras else extras)
     acc m) r = Some e \<Longrightarrow> map_of acc r = Some e \<or> map_of m r = Some e"
  unfolding max_loop by (auto simp: map_of_put_loop split: option.splits if_splits)

lemma extras_ok_max_loop:
  assumes "extras_ok A xs" and "extras_ok B ys"
  shows "extras_ok (A \<union> B)
    (foldl (\<lambda>extras (r, e). if e > extra_at extras r then map_put r e extras else extras) xs ys)"
  unfolding extras_ok_def
proof (intro conjI allI impI)
  show "go_map_ok (foldl (\<lambda>extras (r, e). if e > extra_at extras r then map_put r e extras else extras) xs ys)"
    unfolding max_loop by (rule go_map_ok_put_loop [OF extras_okD(1) [OF assms(1)]])
  fix r e
  assume "map_of (foldl (\<lambda>extras (r, e). if e > extra_at extras r then map_put r e extras else extras) xs ys) r = Some e"
  from map_of_max_loop_Some [OF extras_okD(1) [OF assms(2)] this]
  show "r \<in> A \<union> B" and "1 + unat e < 2 ^ 64"
    using extras_okD(2) [OF assms(1), of r e] extras_okD(2) [OF assms(2), of r e] by auto
qed

context roaring
begin

lemma WeightedSet_okD:
  assumes "WeightedSet_ok R good s"
  shows "BitmapSet_ok R good (ws_support s)" and "extras_ok (refs_of R (ws_support s)) (ws_extras s)"
  using assms by (simp_all add: WeightedSet_ok_def)

lemma weight_bound: "WeightedSet_ok R good s \<Longrightarrow> weight R s r < 2 ^ 64"
  using extras_okD(3) [OF WeightedSet_okD(2)] by (auto simp: weight_def)

text \<open>\<open>Multiplicity\<close> reads the weight; it does not wrap around.\<close>

lemma Multiplicity_weight:
  assumes "WeightedSet_ok R good s"
  shows "unat (Multiplicity R s r) = weight R s r"
  using extras_okD(3) [OF WeightedSet_okD(2) [OF assms]]
  by (simp add: Multiplicity_def weight_def Contains_refines [OF WeightedSet_okD(1) [OF assms]]
      unat_one_plus)

lemma Max_refines:
  assumes s: "WeightedSet_ok R good s" and t: "WeightedSet_ok R good t"
  shows "WeightedSet_ok R good (WeightedSet_Max R s t)"
    and "weight R (WeightedSet_Max R s t) r = max (weight R s r) (weight R t r)"
proof -
  note ss = WeightedSet_okD [OF s] and tt = WeightedSet_okD [OF t]
  note es = extras_okD [OF ss(2)] and et = extras_okD [OF tt(2)]
  note union = Union_refines [OF ss(1) tt(1)]
  let ?copy = "foldl (\<lambda>extras (ref, extra). map_put ref extra extras) [] (ws_extras s)"
  have copy: "map_of ?copy = map_of (ws_extras s)"
    by (rule ext) (simp add: put_all_loop map_of_put_loop es(1) split: option.splits)
  have extra: "extra_at (ws_extras (WeightedSet_Max R s t)) r =
      max (extra_at (ws_extras s) r) (extra_at (ws_extras t) r)" for r
    using extra_at_max_loop [OF et(1), of ?copy r] by (simp add: WeightedSet_Max_def extra_at_def copy)
  have "go_map_ok (ws_extras (WeightedSet_Max R s t))"
    by (simp add: WeightedSet_Max_def max_loop put_all_loop go_map_ok_put_loop)
  moreover have "r \<in> refs_of R (Union R (ws_support s) (ws_support t)) \<and> 1 + unat e < 2 ^ 64"
    if "map_of (ws_extras (WeightedSet_Max R s t)) r = Some e" for r e
    using map_of_max_loop_Some [OF et(1), of ?copy r e] that es(2) et(2) union(2)
    by (auto simp: WeightedSet_Max_def copy)
  ultimately show "WeightedSet_ok R good (WeightedSet_Max R s t)"
    using union(1) by (simp add: WeightedSet_ok_def extras_ok_def WeightedSet_Max_def)
  have "unat (max a b) = max (unat a) (unat b)" for a b :: uint64
    by (simp add: max_def word_le_nat_alt)
  then show "weight R (WeightedSet_Max R s t) r = max (weight R s r) (weight R t r)"
    using union(2) es(4) [of r] et(4) [of r] extra [of r]
    by (auto simp: weight_def WeightedSet_Max_def extra_at_def)
qed

end

subsection \<open>Addition\<close>

lemma visit_stops_at_error:
  shows "(\<forall>r\<in>set rs. \<exists>v. f r = Inr v) \<Longrightarrow> visit (collect_body f g) rs (None, m) =
      (None, foldl (\<lambda>m r. map_put r (g (projr (f r))) m) m rs)"
    and "\<not> (\<forall>r\<in>set rs. \<exists>v. f r = Inr v) \<Longrightarrow> \<exists>e r m'. r \<in> set rs \<and> f r = Inl e \<and> visit (collect_body f g) rs (None, m) = (Some e, m')"
proof (induction rs arbitrary: m)
  case (Cons r rs)
  {
    case 1
    then show ?case using Cons.IH(1) by (auto simp: collect_body_def)
  next
    case 2
    show ?case
    proof (cases "f r")
      case (Inl e)
      then show ?thesis by (auto simp: collect_body_def)
    next
      case (Inr v)
      with 2 have "\<not> (\<forall>r\<in>set rs. \<exists>v. f r = Inr v)" by auto
      from Cons.IH(2) [OF this, of "map_put r (g v) m"] Inr show ?thesis
        by (auto simp: collect_body_def)
    qed
  }
qed simp_all

lemma map_of_put_list:
  "map_of (foldl (\<lambda>m r. map_put r (h r) m) m rs) r = (if r \<in> set rs then Some (h r) else map_of m r)"
  by (induction rs arbitrary: m) auto

lemma go_map_ok_put_list: "go_map_ok m \<Longrightarrow> go_map_ok (foldl (\<lambda>m r. map_put r (h r) m) m rs)"
  by (induction rs arbitrary: m) auto

context roaring
begin

text \<open>The loops of \<open>Add\<close>, as a map: the sum on the overlap, the old extra elsewhere.\<close>

lemma Add_result:
  assumes s: "WeightedSet_ok R good s" and t: "WeightedSet_ok R good t"
    and fits: "\<forall>r. weight R s r + weight R t r < 2 ^ 64"
  shows "\<exists>extras. WeightedSet_Add R s t = Inr \<lparr>ws_support = Union R (ws_support s) (ws_support t), ws_extras = extras\<rparr> \<and>
    go_map_ok extras \<and>
    (\<forall>r. map_of extras r =
      (if r \<in> refs_of R (ws_support s) \<inter> refs_of R (ws_support t)
       then Some ((1 + extra_at (ws_extras s) r) + (1 + extra_at (ws_extras t) r) - 1)
       else if r \<in> refs_of R (ws_support t) then map_of (ws_extras t) r
       else map_of (ws_extras s) r))"
proof -
  note ss = WeightedSet_okD [OF s] and tt = WeightedSet_okD [OF t]
  note es = extras_okD [OF ss(2)] and et = extras_okD [OF tt(2)]
  note inter = Intersection_refines [OF ss(1) tt(1)]
  let ?f = "overlap_sum (ws_extras s) (ws_extras t)"
  let ?rs = "ref_list R (Intersection R (ws_support s) (ws_support t))"
  have rs: "set ?rs = refs_of R (ws_support s) \<inter> refs_of R (ws_support t)"
    by (simp add: set_ref_list [OF inter(1)] inter(2))
  have sums: "?f r = Inr ((1 + extra_at (ws_extras s) r) + (1 + extra_at (ws_extras t) r))" if "r \<in> set ?rs" for r
  proof -
    have "(1 + unat (extra_at (ws_extras s) r)) + (1 + unat (extra_at (ws_extras t) r)) < 2 ^ 64"
      using that spec [OF fits, of r] by (auto simp: weight_def rs)
    then show ?thesis using overlap_sum_Inr [OF es(3) et(3)] by blast
  qed
  let ?m = "foldl (\<lambda>m r. map_put r (projr (?f r) - 1) m) [] ?rs"
  let ?m1 = "foldl (\<lambda>extras (r, e). if \<not> Ordinal_Bitmap.Contains R (ws_support t) r then map_put r e extras else extras) ?m (ws_extras s)"
  let ?m2 = "foldl (\<lambda>extras (r, e). if \<not> Ordinal_Bitmap.Contains R (ws_support s) r then map_put r e extras else extras) ?m1 (ws_extras t)"
  have "WeightedSet_Add R s t = Inr \<lparr>ws_support = Union R (ws_support s) (ws_support t), ws_extras = ?m2\<rparr>"
    using visit_stops_at_error(1) [of ?rs ?f "\<lambda>v. v - 1" "[]"] sums
    by (simp add: WeightedSet_Add_def Refs_def Let_def collect_body_def)
  moreover have "go_map_ok ?m2"
    unfolding copy_loop by (intro go_map_ok_put_loop go_map_ok_put_list) simp
  moreover have "map_of ?m2 r =
      (if r \<in> set ?rs then Some ((1 + extra_at (ws_extras s) r) + (1 + extra_at (ws_extras t) r) - 1)
       else if r \<in> refs_of R (ws_support t) then map_of (ws_extras t) r
       else map_of (ws_extras s) r)" for r
    using sums [of r] es(4) [of r] et(4) [of r] rs
    by (auto simp: copy_loop map_of_put_loop es(1) et(1) map_of_put_list Contains_refines ss(1) tt(1)
        split: option.splits)
  ultimately show ?thesis unfolding rs by blast
qed

lemma Add_refines:
  assumes s: "WeightedSet_ok R good s" and t: "WeightedSet_ok R good t"
    and fits: "\<forall>r. weight R s r + weight R t r < 2 ^ 64"
  shows "\<exists>u. WeightedSet_Add R s t = Inr u \<and> WeightedSet_ok R good u \<and>
    (\<forall>r. weight R u r = weight R s r + weight R t r)"
proof -
  note ss = WeightedSet_okD [OF s] and tt = WeightedSet_okD [OF t]
  note es = extras_okD [OF ss(2)] and et = extras_okD [OF tt(2)]
  note union = Union_refines [OF ss(1) tt(1)]
  from Add_result [OF assms] obtain extras where
    u: "WeightedSet_Add R s t = Inr \<lparr>ws_support = Union R (ws_support s) (ws_support t), ws_extras = extras\<rparr>"
    and map: "go_map_ok extras" "\<And>r. map_of extras r =
      (if r \<in> refs_of R (ws_support s) \<inter> refs_of R (ws_support t)
       then Some ((1 + extra_at (ws_extras s) r) + (1 + extra_at (ws_extras t) r) - 1)
       else if r \<in> refs_of R (ws_support t) then map_of (ws_extras t) r
       else map_of (ws_extras s) r)" by blast
  have both: "unat ((1 + extra_at (ws_extras s) r) + (1 + extra_at (ws_extras t) r) - 1) =
      weight R s r + weight R t r - 1 \<and> 1 + (weight R s r + weight R t r - 1) < 2 ^ 64"
    if "r \<in> refs_of R (ws_support s) \<inter> refs_of R (ws_support t)" for r
  proof -
    let ?a = "1 + extra_at (ws_extras s) r" and ?b = "1 + extra_at (ws_extras t) r"
    have ab: "unat ?a = weight R s r" "unat ?b = weight R t r"
      using that es(3) et(3) by (simp_all add: weight_def unat_one_plus)
    then have sum: "unat (?a + ?b) = weight R s r + weight R t r"
      using unat_add_exact [of ?a ?b] spec [OF fits, of r] by (simp only:)
    have "weight R s r \<noteq> 0" using that by (simp add: weight_def)
    with sum have "?a + ?b \<noteq> 0" by (metis add_is_0 unat_0)
    then have "unat (?a + ?b - 1) = weight R s r + weight R t r - 1"
      unfolding sum [symmetric] by (rule unat_minus_one_pos)
    with spec [OF fits, of r] \<open>weight R s r \<noteq> 0\<close> show ?thesis by simp
  qed
  let ?u = "\<lparr>ws_support = Union R (ws_support s) (ws_support t), ws_extras = extras\<rparr>"
  have "extras_ok (refs_of R (Union R (ws_support s) (ws_support t))) extras"
    unfolding extras_ok_def
  proof (intro conjI allI impI)
    fix r e
    assume "map_of extras r = Some e"
    then show "r \<in> refs_of R (Union R (ws_support s) (ws_support t))" and "1 + unat e < 2 ^ 64"
      using map(2) [of r] both [of r] es(2) et(2) union(2) by (auto split: if_splits)
  qed (rule map(1))
  then have "WeightedSet_ok R good ?u"
    using union(1) by (simp add: WeightedSet_ok_def)
  moreover have "weight R ?u r = weight R s r + weight R t r" for r
    using map(2) [of r] both [of r] union(2) by (auto simp: weight_def extra_at_def)
  ultimately show ?thesis using u by blast
qed

lemma Add_overflow:
  assumes s: "WeightedSet_ok R good s" and t: "WeightedSet_ok R good t"
    and over: "\<not> (\<forall>r. weight R s r + weight R t r < 2 ^ 64)"
  shows "WeightedSet_Add R s t = Inl ErrMultiplicityOverflow"
proof -
  note ss = WeightedSet_okD [OF s] and tt = WeightedSet_okD [OF t]
  note es = extras_okD [OF ss(2)] and et = extras_okD [OF tt(2)]
  note inter = Intersection_refines [OF ss(1) tt(1)]
  let ?f = "overlap_sum (ws_extras s) (ws_extras t)"
  let ?rs = "ref_list R (Intersection R (ws_support s) (ws_support t))"
  from over obtain r where r: "\<not> weight R s r + weight R t r < 2 ^ 64" by blast
  then have "r \<in> refs_of R (ws_support s) \<inter> refs_of R (ws_support t)"
    using weight_bound [OF s, of r] weight_bound [OF t, of r] by (auto simp: weight_def split: if_splits)
  moreover from this r have "\<not> (\<exists>v. ?f r = Inr v)"
    using overlap_sum_Inr [OF es(3) et(3), of r] by (auto simp: weight_def)
  ultimately have "\<not> (\<forall>r\<in>set ?rs. \<exists>v. ?f r = Inr v)"
    by (auto simp: set_ref_list [OF inter(1)] inter(2))
  from visit_stops_at_error(2) [OF this, of "\<lambda>v. v - 1" "[]"] obtain e r' m' where
    "?f r' = Inl e" and "visit (collect_body ?f (\<lambda>v. v - 1)) ?rs (None, []) = (Some e, m')" by blast
  moreover from this(1) have "e = ErrMultiplicityOverflow"
    using overlap_sum_Inl [OF es(3) et(3), of r' e] by simp
  ultimately show ?thesis
    by (simp add: WeightedSet_Add_def Refs_def Let_def collect_body_def)
qed

end

subsection \<open>The builder\<close>

lemma allocated_update [simp]:
  "allocated (b\<lparr>wb_support := Some s\<rparr>) = s" "allocated (b\<lparr>wb_extras := x\<rparr>) = allocated b"
  "allocated (b\<lparr>wb_err := e\<rparr>) = allocated b"
  by (simp_all add: allocated_def)

lemma extras_ok_put:
  "extras_ok refs extras \<Longrightarrow> 1 + unat e < 2 ^ 64 \<Longrightarrow> extras_ok (insert r refs) (map_put r e extras)"
  by (auto simp: extras_ok_def)

lemma extras_ok_mono: "extras_ok refs extras \<Longrightarrow> refs \<subseteq> refs' \<Longrightarrow> extras_ok refs' extras"
  by (auto simp: extras_ok_def)

lemma product_check:
  fixes m k :: uint64
  assumes "k \<noteq> 0"
  shows "m > - 1 div k \<longleftrightarrow> \<not> unat m * unat k < 2 ^ 64"
    and "unat m * unat k < 2 ^ 64 \<Longrightarrow> unat (m * k) = unat m * unat k"
proof -
  have max: "unat (- 1 :: uint64) = 2 ^ 64 - 1"
    by (simp add: unsigned_minus_1_eq_mask mask_eq_exp_minus_1)
  have k: "0 < unat k" using assms by (simp add: unat_gt_0)
  have "m > - 1 div k \<longleftrightarrow> (2 ^ 64 - 1) div unat k < unat m"
    by (simp add: word_less_nat_alt unat_div max del: unsigned_minus_1_eq_mask)
  also have "\<dots> \<longleftrightarrow> \<not> unat m * unat k \<le> 2 ^ 64 - 1"
    using less_eq_div_iff_mult_less_eq [OF k] by (simp add: not_le [symmetric])
  finally show "m > - 1 div k \<longleftrightarrow> \<not> unat m * unat k < 2 ^ 64" by (simp add: less_Suc_eq_le) linarith
  show "unat (m * k) = unat m * unat k" if "unat m * unat k < 2 ^ 64"
    using that by (simp add: unat_word_ariths(2))
qed

context roaring
begin

lemma builder_okD:
  assumes "builder_ok R good b"
  shows "wb_err b = None" and "bld_err (allocated b) = None"
    and "BitmapSet_ok R good (bld_segments (allocated b))"
    and "extras_ok (refs_of R (bld_segments (allocated b))) (wb_extras b)"
  using assms by (simp_all add: builder_ok_def WeightedSet_ok_def)

lemma AddRef_new:
  assumes b: "builder_ok R good b" and r: "FactRef_Validate r = None" and m: "m \<noteq> 0"
    and new: "r \<notin> refs_of R (bld_segments (allocated b))"
  shows "\<exists>b'. AddRef R b r m = (None, b') \<and> builder_ok R good b' \<and> wb_support b' \<noteq> None \<and>
    builder_weight R b' = (builder_weight R b)(r := unat m)"
proof -
  note ok = builder_okD [OF b]
  from Builder_Add_valid [OF ok(2,3) r] obtain s' where s': "Builder_Add R (allocated b) r = (None, s')"
    "bld_err s' = None" "BitmapSet_ok R good (bld_segments s')"
    "refs_of R (bld_segments s') = insert r (refs_of R (bld_segments (allocated b)))" by blast
  let ?x = "if m > 1 then map_put r (m - 1) (wb_extras b) else wb_extras b"
  let ?b = "b\<lparr>wb_support := Some s', wb_extras := ?x\<rparr>"
  have "\<not> (case map_of (bld_segments (allocated b)) (FactRef_segment r) of None \<Rightarrow> False
      | Some segment \<Rightarrow> rb_Contains R segment (Ordinal r))"
    using new BitmapSet_okD(2) [OF ok(3)] by (auto simp: refs_of_def Contains split: option.splits)
  then have run: "AddRef R b r m = (None, ?b)"
    using ok(1) m s'(1) by (simp add: AddRef_def Let_def)
  have m1: "unat (m - 1) = unat m - 1" using m by (rule unat_minus_one_pos)
  have "0 < unat m" using m by (simp add: unat_gt_0)
  with m1 have "1 + unat (m - 1) < 2 ^ 64" using unsigned_less [of m, where ?'a = nat] by simp
  then have x: "extras_ok (refs_of R (bld_segments s')) ?x"
    using ok(4) s'(4) by (auto intro: extras_ok_put extras_ok_mono)
  have "builder_ok R good ?b"
    using ok(1) s'(2,3) x by (simp add: builder_ok_def WeightedSet_ok_def)
  moreover have "builder_weight R ?b = (builder_weight R b)(r := unat m)"
  proof
    fix q
    have "m > 1 \<or> m = 1" using \<open>0 < unat m\<close> by (auto simp: word_less_nat_alt word_unat_eq_iff)
    then show "builder_weight R ?b q = ((builder_weight R b)(r := unat m)) q"
      using s'(4) extras_okD(4) [OF ok(4) new] m1 \<open>0 < unat m\<close>
      by (auto simp: builder_weight_def weight_def extra_at_def)
  qed
  ultimately show ?thesis using run by (simp add: exI [of _ ?b])
qed

lemma AddRef_present:
  assumes b: "builder_ok R good b" and m: "m \<noteq> 0"
    and old: "r \<in> refs_of R (bld_segments (allocated b))"
  shows "if builder_weight R b r + unat m < 2 ^ 64
    then \<exists>b'. AddRef R b r m = (None, b') \<and> builder_ok R good b' \<and> wb_support b' \<noteq> None \<and>
      builder_weight R b' = (builder_weight R b)(r := builder_weight R b r + unat m)
    else \<exists>b'. AddRef R b r m = (Some ErrMultiplicityOverflow, b') \<and>
      wb_err b' = Some ErrMultiplicityOverflow"
proof -
  note ok = builder_okD [OF b]
  let ?e = "extra_at (wb_extras b) r"
  have present: "case map_of (bld_segments (allocated b)) (FactRef_segment r) of None \<Rightarrow> False
      | Some segment \<Rightarrow> rb_Contains R segment (Ordinal r)"
    using old BitmapSet_okD(2) [OF ok(3)] by (auto simp: refs_of_def Contains)
  have e: "1 + unat ?e < 2 ^ 64" by (rule extras_okD(3) [OF ok(4)])
  have w: "builder_weight R b r = 1 + unat ?e" using old by (simp add: builder_weight_def weight_def)
  have ue: "unat (1 + ?e) = 1 + unat ?e" using e by (rule unat_one_plus)
  show ?thesis
  proof (cases "builder_weight R b r + unat m < 2 ^ 64")
    case True
    then have add: "checkedAdd (1 + ?e) m = Inr ((1 + ?e) + m)"
      by (simp only: checkedAdd_Inr ue w simp_thms)
    let ?x = "map_put r ((1 + ?e) + m - 1) (wb_extras b)"
    let ?b = "b\<lparr>wb_support := Some (allocated b), wb_extras := ?x\<rparr>"
    have run: "AddRef R b r m = (None, ?b)"
      using ok(1) m present
      by (simp add: AddRef_def Let_def checkedAdd_extra [OF e] add del: add_diff_cancel_left')
    have total: "unat ((1 + ?e) + m) = 1 + unat ?e + unat m"
      using unat_add_exact [of "1 + ?e" m] True by (simp only: ue w)
    then have "(1 + ?e) + m \<noteq> 0" by (metis add_is_0 one_neq_zero unat_0)
    then have x: "unat ((1 + ?e) + m - 1) = unat ?e + unat m"
      using unat_minus_one_pos [of "(1 + ?e) + m"] by (simp only: total) simp
    then have "extras_ok (refs_of R (bld_segments (allocated b))) ?x"
      using extras_ok_put [OF ok(4), of "(1 + ?e) + m - 1" r] True old w
      by (simp add: insert_absorb)
    then have "builder_ok R good ?b"
      using ok by (simp add: builder_ok_def WeightedSet_ok_def)
    moreover have "builder_weight R ?b = (builder_weight R b)(r := builder_weight R b r + unat m)"
      using old w x by (auto simp: builder_weight_def weight_def extra_at_def fun_eq_iff)
    ultimately show ?thesis using run True by (simp add: exI [of _ ?b])
  next
    case False
    then have "checkedAdd (1 + ?e) m = Inl ErrMultiplicityOverflow"
      by (simp only: checkedAdd_Inl ue w simp_thms)
    with False ok(1) m present show ?thesis
      by (simp add: AddRef_def Let_def checkedAdd_extra [OF e])
  qed
qed

lemma AddRef_refines:
  assumes "builder_ok R good b" and "FactRef_Validate r = None" and "m \<noteq> 0"
  shows "if builder_weight R b r + unat m < 2 ^ 64
    then \<exists>b'. AddRef R b r m = (None, b') \<and> builder_ok R good b' \<and> wb_support b' \<noteq> None \<and>
      builder_weight R b' = (builder_weight R b)(r := builder_weight R b r + unat m)
    else \<exists>b'. AddRef R b r m = (Some ErrMultiplicityOverflow, b') \<and>
      wb_err b' = Some ErrMultiplicityOverflow"
proof (cases "r \<in> refs_of R (bld_segments (allocated b))")
  case True
  then show ?thesis by (rule AddRef_present [OF assms(1,3)])
next
  case False
  then have "builder_weight R b r = 0" by (simp add: builder_weight_def weight_def)
  with AddRef_new [OF assms False] unsigned_less [of m, where ?'a = nat] show ?thesis by simp
qed

end

lemma AddRef_error_kept: "wb_err b = Some e \<Longrightarrow> AddRef R b r m = (Some e, b)"
  by (simp add: AddRef_def)

lemma visit_map: "visit f (map h xs) st = visit (\<lambda>x. f (h x)) xs st"
  by (induction xs arbitrary: st) (auto split: prod.splits bool.splits)

lemma AddWeighted_visit:
  assumes "scale \<noteq> 0" and "wb_err b = None"
  shows "AddWeighted R b v scale =
    (let b' = visit (scaled_body R scale) (weighted_list R v) (b\<lparr>wb_support := Some (allocated b)\<rparr>)
     in (wb_err b', b'))"
  using assms
  by (simp add: AddWeighted_def WeightedSet_Refs_def Refs_def weighted_list_def visit_map scaled_body_def)

context roaring
begin

lemma scaled_visit:
  assumes "k \<noteq> 0" and "builder_ok R good b" and "wb_support b \<noteq> None"
    and "distinct (map fst xs)" and "\<forall>(r, m)\<in>set xs. FactRef_Validate r = None \<and> m \<noteq> 0"
  defines "w \<equiv> \<lambda>r. (case map_of xs r of None \<Rightarrow> 0 | Some m \<Rightarrow> unat m)"
  shows "if \<forall>r. builder_weight R b r + unat k * w r < 2 ^ 64
    then \<exists>b'. visit (scaled_body R k) xs b = b' \<and> builder_ok R good b' \<and> wb_support b' \<noteq> None \<and>
      (\<forall>r. builder_weight R b' r = builder_weight R b r + unat k * w r)
    else wb_err (visit (scaled_body R k) xs b) = Some ErrMultiplicityOverflow"
  using assms(2-5) unfolding w_def
proof (induction xs arbitrary: b)
  case Nil
  have "builder_weight R b r < 2 ^ 64" for r
    using weight_bound Nil.prems(1) by (simp add: builder_ok_def builder_weight_def)
  with Nil show ?case by simp
next
  case (Cons p xs)
  obtain r m where p: "p = (r, m)" by (cases p)
  from Cons.prems p have valid: "FactRef_Validate r = None" "m \<noteq> 0" and r: "map_of xs r = None"
    by (auto simp: map_of_eq_None_iff)
  let ?w = "\<lambda>xs r. case map_of xs r of None \<Rightarrow> 0 | Some m \<Rightarrow> unat m"
  have w: "?w (p # xs) q = (if q = r then unat m else ?w xs q)" for q by (simp add: p)
  have wr: "?w xs r = 0" using r by simp
  have prod: "m > - 1 div k \<longleftrightarrow> \<not> unat k * unat m < 2 ^ 64"
    using product_check(1) [OF assms(1), of m] by (simp add: mult.commute)
  show ?case
  proof (cases "builder_weight R b r + unat k * unat m < 2 ^ 64")
    case False
    have "wb_err (visit (scaled_body R k) (p # xs) b) = Some ErrMultiplicityOverflow"
    proof (cases "m > - 1 div k")
      case True
      then show ?thesis by (simp add: p scaled_body_def)
    next
      case fits: False
      then have mk: "unat (m * k) = unat k * unat m" "m * k \<noteq> 0"
        using prod product_check(2) [OF assms(1), of m] valid(2) assms(1)
        by (auto simp: mult.commute unat_eq_zero dest!: arg_cong [where f = unat])
      from AddRef_refines [OF Cons.prems(1) valid(1) mk(2)] False mk(1)
      obtain b' where "AddRef R b r (m * k) = (Some ErrMultiplicityOverflow, b')"
        "wb_err b' = Some ErrMultiplicityOverflow" by (auto split: if_splits)
      with fits show ?thesis by (simp add: p scaled_body_def)
    qed
    moreover have "\<not> (\<forall>q. builder_weight R b q + unat k * ?w (p # xs) q < 2 ^ 64)"
    proof -
      have "\<not> builder_weight R b r + unat k * ?w (p # xs) r < 2 ^ 64" using False by (simp add: p)
      then show ?thesis by blast
    qed
    ultimately show ?thesis by (simp only: if_False)
  next
    case True
    then have fits: "\<not> m > - 1 div k" using prod by simp
    then have mk: "unat (m * k) = unat k * unat m" "m * k \<noteq> 0"
      using prod product_check(2) [OF assms(1), of m] valid(2) assms(1)
      by (auto simp: mult.commute unat_eq_zero dest!: arg_cong [where f = unat])
    from AddRef_refines [OF Cons.prems(1) valid(1) mk(2)] True mk(1)
    obtain b' where b': "AddRef R b r (m * k) = (None, b')" "builder_ok R good b'" "wb_support b' \<noteq> None"
      "builder_weight R b' = (builder_weight R b)(r := builder_weight R b r + unat k * unat m)"
      by (auto split: if_splits)
    have step: "visit (scaled_body R k) (p # xs) b = visit (scaled_body R k) xs b'"
      using fits b'(1) by (simp add: p scaled_body_def)
    have sum: "builder_weight R b' q + unat k * ?w xs q = builder_weight R b q + unat k * ?w (p # xs) q" for q
      using w [of q] wr by (simp add: b'(4))
    show ?thesis
      unfolding step using Cons.IH [OF b'(2,3)] Cons.prems(3,4) p unfolding sum by simp
  qed
qed

lemma weighted_list_ok:
  assumes "WeightedSet_ok R good s"
  shows "distinct (map fst (weighted_list R s))"
    and "\<forall>(r, m)\<in>set (weighted_list R s). FactRef_Validate r = None \<and> m \<noteq> 0"
    and "(case map_of (weighted_list R s) r of None \<Rightarrow> 0 | Some m \<Rightarrow> unat m) = weight R s r"
proof -
  note ok = WeightedSet_okD [OF assms]
  have keys: "map fst (weighted_list R s) = ref_list R (ws_support s)"
    by (simp add: weighted_list_def comp_def)
  then show distinct: "distinct (map fst (weighted_list R s))"
    by (simp add: distinct_ref_list [OF ok(1)])
  have m: "unat (1 + extra_at (ws_extras s) r) = 1 + unat (extra_at (ws_extras s) r)" for r
    by (rule unat_one_plus [OF extras_okD(3) [OF ok(2)]])
  have "1 + extra_at (ws_extras s) r \<noteq> 0" for r
    using m [of r] by (metis One_nat_def add_is_0 one_neq_zero unat_0)
  then show "\<forall>(r, m)\<in>set (weighted_list R s). FactRef_Validate r = None \<and> m \<noteq> 0"
    using refs_of_valid [OF ok(1)] by (auto simp: weighted_list_def set_ref_list [OF ok(1)])
  have "map_of (weighted_list R s) r =
      (if r \<in> set (ref_list R (ws_support s)) then Some (1 + extra_at (ws_extras s) r) else None)"
    by (simp add: weighted_list_def map_of_map_restrict restrict_map_def)
  then show "(case map_of (weighted_list R s) r of None \<Rightarrow> 0 | Some m \<Rightarrow> unat m) = weight R s r"
    by (simp add: weight_def m set_ref_list [OF ok(1)])
qed

lemma AddWeighted_refines:
  assumes "k \<noteq> 0" and "builder_ok R good b" and "WeightedSet_ok R good v"
  shows "if \<forall>r. builder_weight R b r + unat k * weight R v r < 2 ^ 64
    then \<exists>b'. AddWeighted R b v k = (None, b') \<and> builder_ok R good b' \<and> wb_support b' \<noteq> None \<and>
      (\<forall>r. builder_weight R b' r = builder_weight R b r + unat k * weight R v r)
    else \<exists>b'. AddWeighted R b v k = (Some ErrMultiplicityOverflow, b') \<and>
      wb_err b' = Some ErrMultiplicityOverflow"
proof -
  let ?b = "b\<lparr>wb_support := Some (allocated b)\<rparr>"
  have b: "builder_ok R good ?b" "wb_support ?b \<noteq> None" "builder_weight R ?b = builder_weight R b"
    using assms(2) by (simp_all add: builder_ok_def builder_weight_def)
  note run = AddWeighted_visit [OF assms(1) builder_okD(1) [OF assms(2)], of R v]
  note list = weighted_list_ok [OF assms(3)]
  from scaled_visit [OF assms(1) b(1,2) list(1,2)] show ?thesis
    unfolding list(3) b(3) run Let_def by (auto simp: builder_okD(1) split: if_splits)
qed

lemma MaxWeighted_refines:
  assumes b: "builder_ok R good b" and v: "WeightedSet_ok R good v"
  shows "\<exists>b'. MaxWeighted R b v = (None, b') \<and> builder_ok R good b' \<and> wb_support b' \<noteq> None \<and>
    (\<forall>r. builder_weight R b' r = max (builder_weight R b r) (weight R v r))"
proof -
  note ok = builder_okD [OF b]
  let ?s = "\<lparr>ws_support = bld_segments (allocated b), ws_extras = wb_extras b\<rparr>"
  have s: "WeightedSet_ok R good ?s" using b by (simp add: builder_ok_def)
  let ?b = "snd (MaxWeighted R b v)"
  have loop: "foldl (\<lambda>segments (key, source).
        case map_of segments key of
          None \<Rightarrow> map_put key source segments
        | Some target \<Rightarrow> map_put key (rb_Or R target source) segments)
      (bld_segments (allocated b)) (ws_support v) = Union R (bld_segments (allocated b)) (ws_support v)"
    unfolding Union_def cloneSegments_ok [OF ok(3)]
    by (rule foldl_cong) (auto split: option.splits)
  have run: "MaxWeighted R b v = (None, ?b)" "wb_support ?b \<noteq> None" "wb_err ?b = None"
    "bld_err (allocated ?b) = None"
    "bld_segments (allocated ?b) = Union R (bld_segments (allocated b)) (ws_support v)"
    using ok(1,2) by (simp_all add: MaxWeighted_def Let_def loop)
  have ext: "extra_at (wb_extras ?b) r = extra_at (ws_extras (WeightedSet_Max R ?s v)) r" for r
    using extras_okD(1) [OF ok(4)] extras_okD(1) [OF WeightedSet_okD(2) [OF v]] ok(1)
    by (simp add: MaxWeighted_def Let_def WeightedSet_Max_def extra_at_max_loop)
       (simp add: extra_at_def put_all_loop map_of_put_loop split: option.splits)
  have "wb_extras ?b = foldl (\<lambda>extras (r, e). if e > extra_at extras r then map_put r e extras else extras)
      (wb_extras b) (ws_extras v)"
    using ok(1) by (simp add: MaxWeighted_def Let_def)
  then have "extras_ok (refs_of R (Union R (bld_segments (allocated b)) (ws_support v))) (wb_extras ?b)"
    using extras_ok_max_loop [OF ok(4) WeightedSet_okD(2) [OF v]] ok(3) WeightedSet_okD(1) [OF v]
    by (simp add: Union_refines)
  then have "builder_ok R good ?b"
    using run ok(3) WeightedSet_okD(1) [OF v] by (simp add: builder_ok_def WeightedSet_ok_def Union_refines)
  moreover have "builder_weight R ?b r = max (builder_weight R b r) (weight R v r)" for r
  proof -
    have support: "ws_support (WeightedSet_Max R ?s v) = Union R (bld_segments (allocated b)) (ws_support v)"
      by (simp add: WeightedSet_Max_def)
    have "builder_weight R ?b r = weight R (WeightedSet_Max R ?s v) r"
      unfolding builder_weight_def weight_def support by (simp add: ext run(5))
    then show ?thesis
      using Max_refines(2) [OF s v, of r] by (simp add: builder_weight_def)
  qed
  ultimately show ?thesis using run by blast
qed

lemma Freeze_refines:
  assumes "builder_ok R good b" and "wb_support b \<noteq> None"
  shows "\<exists>s. WeightedBuilder_Freeze R b = Inr s \<and> WeightedSet_ok R good s \<and> weight R s = builder_weight R b"
  using assms builder_okD [OF assms(1)]
  by (auto simp: WeightedBuilder_Freeze_def allocated_def Builder_Freeze_def cloneSegments_ok builder_ok_def
      builder_weight_def split: option.splits)

end

subsection \<open>Sequences of builder operations\<close>

lemma item_weight_lookup:
  "distinct (map wi_Ref items) \<Longrightarrow> item_weight items f r =
   (case map_of (map (\<lambda>i. (wi_Ref i, unat (wi_Multiplicity i))) items) r of Some n \<Rightarrow> n | None \<Rightarrow> f r)"
proof (induction items arbitrary: f)
  case (Cons i items)
  then have "map_of (map (\<lambda>i. (wi_Ref i, unat (wi_Multiplicity i))) items) (wi_Ref i) = None"
    by (auto simp: map_of_eq_None_iff)
  with Cons show ?case by (cases "r = wi_Ref i") (auto split: option.splits)
qed simp

context roaring
begin

lemma run_op_refines:
  assumes "builder_ok R good b" and "op_ok R good op"
  shows "case apply_op R op (builder_weight R b) of
      Some w \<Rightarrow> \<exists>b'. run_op R op b = (None, b') \<and> builder_ok R good b' \<and> wb_support b' \<noteq> None \<and>
        builder_weight R b' = w
    | None \<Rightarrow> \<exists>b'. run_op R op b = (Some ErrMultiplicityOverflow, b') \<and> wb_err b' = Some ErrMultiplicityOverflow"
proof (cases op)
  case (OpAddRef r m)
  with assms AddRef_refines [OF assms(1), of r m] show ?thesis by (auto split: if_splits)
next
  case (OpAddWeighted v k)
  with assms AddWeighted_refines [OF _ assms(1), of k v] show ?thesis
    by (auto simp: fun_eq_iff split: if_splits)
next
  case (OpMaxWeighted v)
  with assms MaxWeighted_refines [OF assms(1), of v] show ?thesis by (auto simp: fun_eq_iff)
qed

lemma run_ops_refines:
  assumes "builder_ok R good b" and "wb_support b \<noteq> None" and "\<forall>op\<in>set ops. op_ok R good op"
  shows "case apply_ops R ops (builder_weight R b) of
      Some w \<Rightarrow> \<exists>b'. run_ops R ops b = (None, b') \<and> builder_ok R good b' \<and> wb_support b' \<noteq> None \<and>
        builder_weight R b' = w
    | None \<Rightarrow> \<exists>b'. run_ops R ops b = (Some ErrMultiplicityOverflow, b') \<and> wb_err b' = Some ErrMultiplicityOverflow"
  using assms
proof (induction ops arbitrary: b)
  case (Cons op ops)
  have op: "op_ok R good op" using Cons.prems by simp
  show ?case
  proof (cases "apply_op R op (builder_weight R b)")
    case None
    with run_op_refines [OF Cons.prems(1) op] show ?thesis by auto
  next
    case (Some w)
    with run_op_refines [OF Cons.prems(1) op] obtain b' where b': "run_op R op b = (None, b')"
      "builder_ok R good b'" "wb_support b' \<noteq> None" "builder_weight R b' = w" by auto
    have "run_ops R (op # ops) b = run_ops R ops b'"
      and "apply_ops R (op # ops) (builder_weight R b) = apply_ops R ops (builder_weight R b')"
      using Some b' by simp_all
    moreover have "\<forall>op\<in>set ops. op_ok R good op" using Cons.prems(3) by simp
    ultimately show ?thesis using Cons.IH [OF b'(2,3)] by (simp only:)
  qed
qed simp

lemma new_builder_ok:
  "builder_ok R good NewWeightedBuilder" "builder_weight R NewWeightedBuilder = (\<lambda>_. 0)"
  by (simp_all add: builder_ok_def NewWeightedBuilder_def allocated_def NewBuilder_def WeightedSet_ok_def
      extras_ok_def builder_weight_def weight_empty)

lemma weighted_items_refines:
  assumes "bld_err b = None" and "BitmapSet_ok R good (bld_segments b)"
    and "extras_ok (refs_of R (bld_segments b)) extras" and "set seen = refs_of R (bld_segments b)"
  shows "if (\<forall>i\<in>set items. FactRef_Validate (wi_Ref i) = None \<and> wi_Multiplicity i \<noteq> 0) \<and>
        distinct (map wi_Ref items) \<and> wi_Ref ` set items \<inter> set seen = {}
    then \<exists>b' extras'. weighted_items R items b extras seen = Inr (b', extras') \<and> bld_err b' = None \<and>
      WeightedSet_ok R good \<lparr>ws_support = bld_segments b', ws_extras = extras'\<rparr> \<and>
      weight R \<lparr>ws_support = bld_segments b', ws_extras = extras'\<rparr> =
        item_weight items (weight R \<lparr>ws_support = bld_segments b, ws_extras = extras\<rparr>)
    else weighted_items R items b extras seen = Inl ErrInvalid"
  using assms
proof (induction items arbitrary: b extras seen)
  case Nil
  then show ?case by (simp add: WeightedSet_ok_def)
next
  case (Cons i items)
  let ?r = "wi_Ref i" and ?m = "wi_Multiplicity i"
  show ?case
  proof (cases "FactRef_Validate ?r = None \<and> ?m \<noteq> 0 \<and> ?r \<notin> set seen")
    case False
    then show ?thesis by auto
  next
    case True
    then have valid: "FactRef_Validate ?r = None" and m: "?m \<noteq> 0" and new: "?r \<notin> refs_of R (bld_segments b)"
      using Cons.prems(4) by auto
    let ?wb = "\<lparr>wb_support = Some b, wb_extras = extras, wb_err = None\<rparr>"
    have wb: "builder_ok R good ?wb" "allocated ?wb = b"
      using Cons.prems by (simp_all add: builder_ok_def allocated_def WeightedSet_ok_def)
    from Builder_Add_valid [OF Cons.prems(1,2) valid] obtain b' where b': "Builder_Add R b ?r = (None, b')"
      "bld_err b' = None" "BitmapSet_ok R good (bld_segments b')"
      "refs_of R (bld_segments b') = insert ?r (refs_of R (bld_segments b))" by blast
    let ?x = "if ?m > 1 then map_put ?r (?m - 1) extras else extras"
    have present: "\<not> (case map_of (bld_segments b) (FactRef_segment ?r) of None \<Rightarrow> False
        | Some segment \<Rightarrow> rb_Contains R segment (Ordinal ?r))"
      using new BitmapSet_okD(2) [OF Cons.prems(2)] by (auto simp: refs_of_def Contains split: option.splits)
    have "AddRef R ?wb ?r ?m = (None, \<lparr>wb_support = Some b', wb_extras = ?x, wb_err = None\<rparr>)"
      using present m by (simp add: AddRef_def allocated_def b'(1))
    with AddRef_new [OF wb(1) valid m] new wb(2)
    have step: "builder_ok R good \<lparr>wb_support = Some b', wb_extras = ?x, wb_err = None\<rparr>"
      "builder_weight R \<lparr>wb_support = Some b', wb_extras = ?x, wb_err = None\<rparr> = (builder_weight R ?wb)(?r := unat ?m)"
      by auto
    have x: "extras_ok (refs_of R (bld_segments b')) ?x"
      using builder_okD(4) [OF step(1)] by (simp add: allocated_def)
    have w: "weight R \<lparr>ws_support = bld_segments b', ws_extras = ?x\<rparr> =
        (weight R \<lparr>ws_support = bld_segments b, ws_extras = extras\<rparr>)(?r := unat ?m)"
      using step(2) by (simp add: builder_weight_def allocated_def)
    have seen: "set (?r # seen) = refs_of R (bld_segments b')" using b'(4) Cons.prems(4) by simp
    have run: "weighted_items R (i # items) b extras seen = weighted_items R items b' ?x (?r # seen)"
      using True b'(1) by simp
    have cond: "(\<forall>j\<in>set (i # items). FactRef_Validate (wi_Ref j) = None \<and> wi_Multiplicity j \<noteq> 0) \<and>
        distinct (map wi_Ref (i # items)) \<and> wi_Ref ` set (i # items) \<inter> set seen = {} \<longleftrightarrow>
        (\<forall>j\<in>set items. FactRef_Validate (wi_Ref j) = None \<and> wi_Multiplicity j \<noteq> 0) \<and>
        distinct (map wi_Ref items) \<and> wi_Ref ` set items \<inter> set (?r # seen) = {}"
      using True by auto
    show ?thesis
      using Cons.IH [OF b'(2,3) x seen] unfolding run cond item_weight.simps w .
  qed
qed

lemma NewWeightedSet_refines:
  "if (\<forall>i\<in>set items. FactRef_Validate (wi_Ref i) = None \<and> wi_Multiplicity i \<noteq> 0) \<and> distinct (map wi_Ref items)
   then \<exists>s. NewWeightedSet R items = Inr s \<and> WeightedSet_ok R good s \<and>
     (\<forall>r. weight R s r = (case map_of (map (\<lambda>i. (wi_Ref i, unat (wi_Multiplicity i))) items) r of
        Some n \<Rightarrow> n | None \<Rightarrow> 0))
   else NewWeightedSet R items = Inl ErrInvalid"
proof -
  have start: "bld_err NewBuilder = None" "bld_segments NewBuilder = []"
    "extras_ok {} []"
    by (simp_all add: NewBuilder_def extras_ok_def)
  from weighted_items_refines [of NewBuilder "[]" "[]" items] show ?thesis
    by (auto simp: start NewWeightedSet_def Builder_Freeze_def WeightedSet_ok_def cloneSegments_ok weight_empty
        item_weight_lookup split: if_splits)
qed

end

subsection \<open>The digest\<close>

lemma weighted_entry_inject:
  assumes "framable (DictionaryDigest r)" "framable (SegmentID r)" "framable (DictionaryDigest q)"
    "framable (SegmentID q)"
  shows "weighted_entry (r, m) @ xs = weighted_entry (q, n) @ ys \<longleftrightarrow> r = q \<and> m = n \<and> xs = ys"
  using assms
  by (cases r; cases q)
     (auto simp: weighted_entry_def frame_string_append_inject word_big_endian_inject simp del: append_eq_append_conv)

lemma weighted_entries_inject:
  assumes "length xs = length ys"
    and "\<forall>(r, m)\<in>set xs \<union> set ys. framable (DictionaryDigest r) \<and> framable (SegmentID r)"
    and "concat (map weighted_entry xs) = concat (map weighted_entry ys)"
  shows "xs = ys"
  using assms
proof (induction xs ys rule: list_induct2)
  case (Cons x xs y ys)
  obtain r m q n where "x = (r, m)" "y = (q, n)" by (cases x; cases y)
  with Cons show ?case by (auto simp: weighted_entry_inject)
qed simp

lemma digest_visit:
  "(\<forall>(r, m)\<in>set xs. FactRef_Validate r = None \<and> m \<noteq> 0) \<Longrightarrow>
   visit (\<lambda>(r, m) (err, written).
     if FactRef_Validate r \<noteq> None \<or> m = 0 then (False, (Some ErrInvalid, written))
     else (True, (err, written @ weighted_entry (r, m)))) xs (None, acc) =
   (None, acc @ concat (map weighted_entry xs))"
  by (induction xs arbitrary: acc) auto

context roaring
begin

lemma WeightedSet_Digest_ok:
  assumes "WeightedSet_ok R good s"
  shows "WeightedSet_Digest R sha s = Inr (hex_encode (sha (weighted_preimage R s)))"
proof -
  let ?body = "\<lambda>(r, m) (err, written).
     if FactRef_Validate r \<noteq> None \<or> m = 0 then (False, (Some ErrInvalid, written))
     else (True, (err, written @ weighted_entry (r, m)))"
  let ?start = "weightedDigestDomain @ big_endian 8 (unat (WeightedSet_Len R s))"
  have "visit ?body (weighted_list R s) (None, ?start) =
      (None, ?start @ concat (map weighted_entry (weighted_list R s)))"
    by (rule digest_visit [OF weighted_list_ok(2) [OF assms]])
  then show ?thesis
    unfolding WeightedSet_Digest_def WeightedSet_Refs_def Refs_def weighted_preimage_def
    by (simp add: weighted_list_def visit_map)
qed

lemma weighted_list_weight:
  assumes "WeightedSet_ok R good s" and "WeightedSet_ok R good t"
  shows "weighted_list R s = weighted_list R t \<longleftrightarrow> weight R s = weight R t"
proof
  assume "weighted_list R s = weighted_list R t"
  then show "weight R s = weight R t"
    using weighted_list_ok(3) [OF assms(1)] weighted_list_ok(3) [OF assms(2)] by (auto simp: fun_eq_iff)
next
  assume eq: "weight R s = weight R t"
  note s = WeightedSet_okD [OF assms(1)] and t = WeightedSet_okD [OF assms(2)]
  have "refs_of R (ws_support s) = {r. weight R s r \<noteq> 0}" "refs_of R (ws_support t) = {r. weight R t r \<noteq> 0}"
    by (auto simp: weight_def)
  with eq have refs: "refs_of R (ws_support s) = refs_of R (ws_support t)" by simp
  have "extra_at (ws_extras s) r = extra_at (ws_extras t) r" if "r \<in> refs_of R (ws_support s)" for r
    using that refs fun_cong [OF eq, of r] by (simp add: weight_def word_unat_eq_iff)
  then show "weighted_list R s = weighted_list R t"
    using same_refs_same_list [OF s(1) t(1) refs]
    by (auto simp: weighted_list_def set_ref_list [OF s(1), symmetric])
qed

lemma weighted_digest_commits:
  assumes s: "WeightedSet_ok R good s" and t: "WeightedSet_ok R good t"
    and size: "card (refs_of R (ws_support s)) < 2 ^ 64" "card (refs_of R (ws_support t)) < 2 ^ 64"
    and inj: "inj_on sha {weighted_preimage R s, weighted_preimage R t}"
    and eq: "WeightedSet_Digest R sha s = WeightedSet_Digest R sha t"
  shows "weighted_list R s = weighted_list R t"
proof (rule weighted_entries_inject)
  have "sha (weighted_preimage R s) = sha (weighted_preimage R t)"
    using eq by (simp add: WeightedSet_Digest_ok s t)
  then have "weighted_preimage R s = weighted_preimage R t"
    by (rule inj_onD [OF inj]) simp_all
  then have len: "WeightedSet_Len R s = WeightedSet_Len R t"
    and "concat (map weighted_entry (weighted_list R s)) = concat (map weighted_entry (weighted_list R t))"
    by (simp_all add: weighted_preimage_def word_big_endian_inject del: append_eq_append_conv)
  then show "concat (map weighted_entry (weighted_list R s)) = concat (map weighted_entry (weighted_list R t))"
    by simp
  have "unat (WeightedSet_Len R u) = length (weighted_list R u)"
    if "WeightedSet_ok R good u" "card (refs_of R (ws_support u)) < 2 ^ 64" for u
    using that WeightedSet_okD(1) [OF that(1)]
    by (simp add: WeightedSet_Len_def Cardinality_refines weighted_list_def length_ref_list unat_of_nat)
  with s t size len show "length (weighted_list R s) = length (weighted_list R t)" by metis
  have "framable (DictionaryDigest r) \<and> framable (SegmentID r)"
    if "FactRef_Validate r = None" for r
    using that by (auto simp: FactRef_Validate_def framable_identifier split: if_splits)
  then show "\<forall>(r, m)\<in>set (weighted_list R s) \<union> set (weighted_list R t).
      framable (DictionaryDigest r) \<and> framable (SegmentID r)"
    using weighted_list_ok(2) [OF s] weighted_list_ok(2) [OF t] by blast
qed

end

section \<open>Properties\<close>

text \<open>
  C29: weighted sets are multisets with checked multiplicities. \<open>Multiplicity\<close> reads the
  weight of an address without wrap-around; \<open>Max\<close> is the pointwise maximum; \<open>Add\<close> is
  the pointwise sum when every sum fits into 64 bits, and otherwise the overflow error, never a
  wrapped multiplicity. The results satisfy the invariant.
\<close>

theorem WeightedSet_operations:
  assumes "roaring R good" and "WeightedSet_ok R good s" and "WeightedSet_ok R good t"
  shows "unat (Multiplicity R s r) = weight R s r \<and>
    WeightedSet_ok R good (WeightedSet_Max R s t) \<and>
    weight R (WeightedSet_Max R s t) r = max (weight R s r) (weight R t r) \<and>
    (if \<forall>q. weight R s q + weight R t q < 2 ^ 64
     then \<exists>u. WeightedSet_Add R s t = Inr u \<and> WeightedSet_ok R good u \<and>
       (\<forall>q. weight R u q = weight R s q + weight R t q)
     else WeightedSet_Add R s t = Inl ErrMultiplicityOverflow)"
  using roaring.Multiplicity_weight [OF assms(1,2)] roaring.Max_refines [OF assms]
    roaring.Add_refines [OF assms] roaring.Add_overflow [OF assms] by auto

definition weighted_sample :: "uint64 \<Rightarrow> uint32 list WeightedSet" where
  "weighted_sample n = \<lparr>ws_support = sample_set, ws_extras = [(sample_ref 65541, n)]\<rparr>"

lemma weighted_sample_refs:
  "refs_of list_roaring (ws_support (weighted_sample n)) = {sample_ref 5, sample_ref 65541}"
  using list_bitmap.NewBitmapSet_refines [of "[sample_ref 65541, sample_ref 5, sample_ref 65541]"]
    sample_sets_built(1)
  by (auto simp: weighted_sample_def split: if_splits)

lemma weighted_sample_ok:
  "1 + unat n < 2 ^ 64 \<Longrightarrow> WeightedSet_ok list_roaring (sorted_wrt (<)) (weighted_sample n)"
  using weighted_sample_refs [of n] sample_sets_ok(1)
  by (auto simp: WeightedSet_ok_def weighted_sample_def extras_ok_def split: if_splits)

theorem WeightedSet_operations_witness:
  "WeightedSet_Add list_roaring (weighted_sample 3) (weighted_sample (- 2)) = Inl ErrMultiplicityOverflow \<and>
   weight list_roaring (WeightedSet_Max list_roaring (weighted_sample 3) (weighted_sample 6)) (sample_ref 65541) = 7"
proof -
  have big: "unat (- 2 :: uint64) = 2 ^ 64 - 2" by simp
  have ok: "WeightedSet_ok list_roaring (sorted_wrt (<)) (weighted_sample 3)"
    "WeightedSet_ok list_roaring (sorted_wrt (<)) (weighted_sample 6)"
    "WeightedSet_ok list_roaring (sorted_wrt (<)) (weighted_sample (- 2))"
    using big by (auto intro!: weighted_sample_ok)
  have weight: "weight list_roaring (weighted_sample n) (sample_ref 65541) = 1 + unat n" for n
    using weighted_sample_refs [of n] by (simp add: weight_def extra_at_def weighted_sample_def)
  have "\<not> (\<forall>q. weight list_roaring (weighted_sample 3) q + weight list_roaring (weighted_sample (- 2)) q < 2 ^ 64)"
    by (rule notI, drule spec [of _ "sample_ref 65541"]) (simp add: weight big)
  then show ?thesis
    using WeightedSet_operations [OF list_bitmap.roaring_axioms ok(1,3), of "sample_ref 65541"]
      WeightedSet_operations [OF list_bitmap.roaring_axioms ok(1,2), of "sample_ref 65541"]
    by (simp add: weight)
qed

text \<open>
  C30: the streaming builder computes the same multiset as the specification. Any sequence of
  \<open>AddRef\<close>, \<open>AddWeighted\<close> and \<open>MaxWeighted\<close> on well-formed arguments,
  followed by \<open>Freeze\<close>, yields the multiset obtained by adding and maximising multiplicities
  as natural numbers; if some multiplicity would exceed 64 bits, the sequence stops with the
  overflow error and \<open>Freeze\<close> returns it, so no truncated multiset leaves the builder.
\<close>

theorem WeightedBuilder_refines:
  assumes "roaring R good" and "\<forall>op\<in>set ops. op_ok R good op"
  shows "case apply_ops R ops (\<lambda>_. 0) of
      Some w \<Rightarrow> \<exists>b s. run_ops R ops NewWeightedBuilder = (None, b) \<and>
        WeightedBuilder_Freeze R b = Inr s \<and> WeightedSet_ok R good s \<and> weight R s = w
    | None \<Rightarrow> \<exists>b. run_ops R ops NewWeightedBuilder = (Some ErrMultiplicityOverflow, b) \<and>
        (wb_support b \<noteq> None \<longrightarrow> WeightedBuilder_Freeze R b = Inl ErrMultiplicityOverflow)"
proof -
  have "wb_support NewWeightedBuilder \<noteq> None" by (simp add: NewWeightedBuilder_def)
  from roaring.run_ops_refines [OF assms(1) roaring.new_builder_ok(1) [OF assms(1)] this assms(2)]
  have run: "case apply_ops R ops (\<lambda>_. 0) of
      Some w \<Rightarrow> \<exists>b'. run_ops R ops NewWeightedBuilder = (None, b') \<and> builder_ok R good b' \<and>
        wb_support b' \<noteq> None \<and> builder_weight R b' = w
    | None \<Rightarrow> \<exists>b'. run_ops R ops NewWeightedBuilder = (Some ErrMultiplicityOverflow, b') \<and>
        wb_err b' = Some ErrMultiplicityOverflow"
    by (simp add: roaring.new_builder_ok(2) [OF assms(1)])
  show ?thesis
  proof (cases "apply_ops R ops (\<lambda>_. 0)")
    case None
    with run obtain b where "run_ops R ops NewWeightedBuilder = (Some ErrMultiplicityOverflow, b)"
      "wb_err b = Some ErrMultiplicityOverflow" by auto
    with None show ?thesis by (auto simp: WeightedBuilder_Freeze_def)
  next
    case (Some w)
    with run obtain b where "run_ops R ops NewWeightedBuilder = (None, b)" "builder_ok R good b"
      "wb_support b \<noteq> None" "builder_weight R b = w" by auto
    with roaring.Freeze_refines [OF assms(1), of b] Some show ?thesis by auto
  qed
qed

theorem WeightedBuilder_refines_witness:
  "\<exists>b s. run_ops list_roaring [OpAddRef (sample_ref 5) 2, OpAddRef (sample_ref 5) 3] NewWeightedBuilder = (None, b) \<and>
     WeightedBuilder_Freeze list_roaring b = Inr s \<and>
     weight list_roaring s = (\<lambda>_. 0)(sample_ref 5 := 5)"
proof -
  let ?ops = "[OpAddRef (sample_ref 5) 2, OpAddRef (sample_ref 5) 3] :: uint32 list builder_op list"
  have "FactRef_Validate (sample_ref 5) = None" by code_simp
  then have "\<forall>op\<in>set ?ops. op_ok list_roaring (sorted_wrt (<)) op" by simp
  moreover have "apply_ops list_roaring ?ops (\<lambda>_. 0) = Some ((\<lambda>_. 0)(sample_ref 5 := 5))" by simp
  ultimately show ?thesis
    using WeightedBuilder_refines [OF list_bitmap.roaring_axioms, of ?ops] by (simp only: option.case) blast
qed

text \<open>
  A weighted set from a list of items. \<open>NewWeightedSet\<close> succeeds exactly on distinct,
  valid addresses with positive multiplicities, and then every address has the multiplicity its
  item states and every other address has none.
\<close>

theorem NewWeightedSet_correct:
  assumes "roaring R good"
  shows "if (\<forall>i\<in>set items. FactRef_Validate (wi_Ref i) = None \<and> wi_Multiplicity i \<noteq> 0) \<and>
      distinct (map wi_Ref items)
    then \<exists>s. NewWeightedSet R items = Inr s \<and> WeightedSet_ok R good s \<and>
      (\<forall>r. weight R s r = (case map_of (map (\<lambda>i. (wi_Ref i, unat (wi_Multiplicity i))) items) r of
         Some n \<Rightarrow> n | None \<Rightarrow> 0))
    else NewWeightedSet R items = Inl ErrInvalid"
  by (rule roaring.NewWeightedSet_refines [OF assms])

theorem NewWeightedSet_correct_witness:
  "\<exists>s. NewWeightedSet list_roaring [\<lparr>wi_Ref = sample_ref 5, wi_Multiplicity = 4\<rparr>] = Inr s \<and>
     weight list_roaring s (sample_ref 5) = 4"
proof -
  have "FactRef_Validate (sample_ref 5) = None" by code_simp
  then show ?thesis
    using NewWeightedSet_correct [OF list_bitmap.roaring_axioms, of "[\<lparr>wi_Ref = sample_ref 5, wi_Multiplicity = 4\<rparr>]"]
    by auto
qed

text \<open>
  The digest of a weighted set commits to its multiplicities. Two weighted sets have the same
  digest exactly when every address has the same multiplicity in both, unless the hash function
  collides on the two byte strings that are hashed.
\<close>

theorem WeightedSet_Digest_commits:
  assumes "roaring R good" and "WeightedSet_ok R good s" and "WeightedSet_ok R good t"
    and "card (refs_of R (ws_support s)) < 2 ^ 64" and "card (refs_of R (ws_support t)) < 2 ^ 64"
    and "inj_on sha {weighted_preimage R s, weighted_preimage R t}"
  shows "WeightedSet_Digest R sha s = WeightedSet_Digest R sha t \<longleftrightarrow> weight R s = weight R t"
proof
  assume "WeightedSet_Digest R sha s = WeightedSet_Digest R sha t"
  then show "weight R s = weight R t"
    using roaring.weighted_digest_commits [OF assms] roaring.weighted_list_weight [OF assms(1-3)] by blast
next
  assume "weight R s = weight R t"
  then have eq: "weighted_list R s = weighted_list R t"
    using roaring.weighted_list_weight [OF assms(1-3)] by blast
  then have "ref_list R (ws_support s) = ref_list R (ws_support t)"
    unfolding weighted_list_def by (metis (no_types, lifting) map_map comp_def fst_conv map_ident map_eq_conv)
  then have "WeightedSet_Len R s = WeightedSet_Len R t"
    using roaring.Cardinality_refines [OF assms(1)] roaring.length_ref_list [OF assms(1)]
      roaring.WeightedSet_okD(1) [OF assms(1,2)] roaring.WeightedSet_okD(1) [OF assms(1,3)]
    by (metis WeightedSet_Len_def)
  with eq show "WeightedSet_Digest R sha s = WeightedSet_Digest R sha t"
    by (simp add: roaring.WeightedSet_Digest_ok [OF assms(1)] assms weighted_preimage_def)
qed

theorem WeightedSet_Digest_commits_witness:
  "WeightedSet_Digest list_roaring test_hash (weighted_sample 3) \<noteq>
   WeightedSet_Digest list_roaring test_hash (weighted_sample 6)"
proof -
  have ok: "WeightedSet_ok list_roaring (sorted_wrt (<)) (weighted_sample 3)"
    "WeightedSet_ok list_roaring (sorted_wrt (<)) (weighted_sample 6)"
    by (auto intro!: weighted_sample_ok)
  have size: "card (refs_of list_roaring (ws_support (weighted_sample n))) < 2 ^ 64" for n
    using card_insert_le_m1 [of 2 "{sample_ref 65541}" "sample_ref 5"] by (simp add: weighted_sample_refs)
  have "weight list_roaring (weighted_sample n) (sample_ref 65541) = 1 + unat n" for n
    using weighted_sample_refs [of n] by (simp add: weight_def extra_at_def weighted_sample_def)
  then have "weight list_roaring (weighted_sample 3) (sample_ref 65541) \<noteq>
      weight list_roaring (weighted_sample 6) (sample_ref 65541)" by simp
  then have "weight list_roaring (weighted_sample 3) \<noteq> weight list_roaring (weighted_sample 6)" by metis
  moreover have "test_hash (weighted_preimage list_roaring (weighted_sample 3)) \<noteq>
      test_hash (weighted_preimage list_roaring (weighted_sample 6))"
    by code_simp
  ultimately show ?thesis
    using WeightedSet_Digest_commits [OF list_bitmap.roaring_axioms ok size size, of test_hash]
    by (simp add: inj_on_def)
qed

end
