(* ===== verification/Go_JSON.thy ===== *)
theory Go_JSON
  imports Prelude
begin

text \<open>
  What the sources use of Go's \<open>encoding/json\<close> and \<open>strconv\<close>: the quoted form of a
  string (with the escapes of \<open>json.Marshal\<close>, HTML escaping included, and the replacement
  of bytes that are not UTF-8), decimal integers, and objects whose members are written in the
  order of the struct fields. The hashes of the audit chain and of the first fact profile are
  computed from such texts, so what matters about them is that they can be read back: a quoted
  string that is valid UTF-8 determines the string and what follows it.
\<close>

section \<open>Definitions\<close>

subsection \<open>UTF-8\<close>

definition char_in :: "char \<Rightarrow> nat \<Rightarrow> nat \<Rightarrow> bool" where
  "char_in c lo hi \<longleftrightarrow> lo \<le> of_char c \<and> of_char c \<le> hi"

text \<open>
  \<open>utf8.DecodeRuneInString\<close> on a string that starts with a byte of at least 0x80: the
  width of the rune, or \<^const>\<open>None\<close> for the pair of the replacement rune and width one
  that says the encoding is invalid.
\<close>

definition second_byte_ok :: "char \<Rightarrow> char \<Rightarrow> bool" where
  "second_byte_ok a b \<longleftrightarrow>
     (if a = CHR 0xE0 then char_in b 0xA0 0xBF
      else if a = CHR 0xED then char_in b 0x80 0x9F
      else if a = CHR 0xF0 then char_in b 0x90 0xBF
      else if a = CHR 0xF4 then char_in b 0x80 0x8F
      else char_in b 0x80 0xBF)"

fun rune_width :: "go_string \<Rightarrow> nat option" where
  "rune_width (a # b # c # d # s) =
     (if char_in a 0xC2 0xDF \<and> second_byte_ok a b then Some 2
      else if char_in a 0xE0 0xEF \<and> second_byte_ok a b \<and> char_in c 0x80 0xBF then Some 3
      else if char_in a 0xF0 0xF4 \<and> second_byte_ok a b \<and> char_in c 0x80 0xBF \<and> char_in d 0x80 0xBF then Some 4
      else None)"
| "rune_width [a, b, c] =
     (if char_in a 0xC2 0xDF \<and> second_byte_ok a b then Some 2
      else if char_in a 0xE0 0xEF \<and> second_byte_ok a b \<and> char_in c 0x80 0xBF then Some 3
      else None)"
| "rune_width [a, b] = (if char_in a 0xC2 0xDF \<and> second_byte_ok a b then Some 2 else None)"
| "rune_width [a] = None"
| "rune_width [] = None"

text \<open>\<open>utf8.ValidString\<close>\<close>

fun utf8_valid :: "go_string \<Rightarrow> bool" where
  "utf8_valid [] = True"
| "utf8_valid (c # s) =
     (if of_char c < (0x80 :: nat) then utf8_valid s
      else (case rune_width (c # s) of None \<Rightarrow> False | Some n \<Rightarrow> utf8_valid (drop (n - 1) s)))"

subsection \<open>Quoted strings\<close>

abbreviation backslash :: char where
  "backslash \<equiv> CHR 0x5C"

abbreviation quote :: char where
  "quote \<equiv> CHR 0x22"

text \<open>The ASCII bytes that are written as they are: \<open>htmlSafeSet\<close> of the package.\<close>

definition html_safe :: "char \<Rightarrow> bool" where
  "html_safe c \<longleftrightarrow> char_in c 0x20 0x7F \<and> c \<noteq> quote \<and> c \<noteq> backslash \<and>
     c \<noteq> CHR 0x26 \<and> c \<noteq> CHR 0x3C \<and> c \<noteq> CHR 0x3E"

definition escape_ascii :: "char \<Rightarrow> go_string" where
  "escape_ascii c =
     (if html_safe c then [c]
      else if c = backslash \<or> c = quote then [backslash, c]
      else if c = CHR 0x08 then [backslash, CHR ''b'']
      else if c = CHR 0x0C then [backslash, CHR ''f'']
      else if c = CHR 0x0A then [backslash, CHR ''n'']
      else if c = CHR 0x0D then [backslash, CHR ''r'']
      else if c = CHR 0x09 then [backslash, CHR ''t'']
      else [backslash, CHR ''u'', CHR ''0'', CHR ''0'',
            hex_digit (of_char c div 16), hex_digit (of_char c mod 16)])"

text \<open>A valid rune of several bytes is copied, except the two line separators U+2028 and U+2029.\<close>

definition escape_rune :: "go_string \<Rightarrow> go_string" where
  "escape_rune r =
     (if r = [CHR 0xE2, CHR 0x80, CHR 0xA8] then backslash # ''u2028''
      else if r = [CHR 0xE2, CHR 0x80, CHR 0xA9] then backslash # ''u2029''
      else r)"

fun json_chars :: "go_string \<Rightarrow> go_string" where
  "json_chars [] = []"
| "json_chars (c # s) =
     (if of_char c < (0x80 :: nat) then escape_ascii c @ json_chars s
      else (case rune_width (c # s) of
          None \<Rightarrow> (backslash # ''ufffd'') @ json_chars s
        | Some n \<Rightarrow> escape_rune (take n (c # s)) @ json_chars (drop (n - 1) s)))"

definition json_string :: "go_string \<Rightarrow> go_string" where
  "json_string s = [quote] @ json_chars s @ [quote]"

subsection \<open>Integers, objects and arrays\<close>

text \<open>\<open>strconv.FormatInt(n, 10)\<close>\<close>

fun decimal :: "nat \<Rightarrow> go_string" where
  "decimal n = (if n < 10 then [char_of (48 + n)] else decimal (n div 10) @ [char_of (48 + n mod 10)])"

declare decimal.simps [simp del]

definition FormatInt :: "int \<Rightarrow> go_string" where
  "FormatInt n = (if n < 0 then CHR ''-'' # decimal (nat (- n)) else decimal (nat n))"

fun join_comma :: "go_string list \<Rightarrow> go_string" where
  "join_comma [] = []"
| "join_comma [x] = x"
| "join_comma (x # y # xs) = x @ [CHR '',''] @ join_comma (y # xs)"

text \<open>An object as the list of its member names and encoded values, in the order written.\<close>

definition json_object :: "(go_string \<times> go_string) list \<Rightarrow> go_string" where
  "json_object ms = ''{'' @ join_comma (map (\<lambda>(k, v). json_string k @ '':'' @ v) ms) @ ''}''"

definition json_array :: "go_string list \<Rightarrow> go_string" where
  "json_array xs = ''['' @ join_comma xs @ '']''"

subsection \<open>Reading a quoted string back\<close>

text \<open>
  The inverse of the quoting, used to state that nothing is lost: reads up to the closing quote
  and returns the string and the rest.
\<close>

definition hex_value :: "char \<Rightarrow> nat" where
  "hex_value c = (if of_char c < (58 :: nat) then of_char c - 48 else of_char c - 87)"

definition unescape_unicode :: "char \<Rightarrow> char \<Rightarrow> char \<Rightarrow> char \<Rightarrow> go_string" where
  "unescape_unicode p q x y =
     (if p = CHR ''2'' then [CHR 0xE2, CHR 0x80, char_of (0x80 + 16 * hex_value x + hex_value y)]
      else [char_of (16 * hex_value x + hex_value y)])"

definition unescape_char :: "char \<Rightarrow> char" where
  "unescape_char c =
     (if c = CHR ''b'' then CHR 0x08 else if c = CHR ''f'' then CHR 0x0C
      else if c = CHR ''n'' then CHR 0x0A else if c = CHR ''r'' then CHR 0x0D
      else if c = CHR ''t'' then CHR 0x09 else c)"

fun read_chars :: "go_string \<Rightarrow> (go_string \<times> go_string) option" where
  "read_chars [] = None"
| "read_chars (c # s) =
     (if c = quote then Some ([], s)
      else if c = backslash then
        (case s of
           [] \<Rightarrow> None
         | e # s' \<Rightarrow>
             (if e = CHR ''u'' then
                (case s' of
                   p # q # x # y # s'' \<Rightarrow> map_option (\<lambda>(t, r). (unescape_unicode p q x y @ t, r)) (read_chars s'')
                 | _ \<Rightarrow> None)
              else map_option (\<lambda>(t, r). (unescape_char e # t, r)) (read_chars s')))
      else map_option (\<lambda>(t, r). (c # t, r)) (read_chars s))"

section \<open>Lemmas\<close>

lemma rune_width_cases:
  assumes "rune_width (c # s) = Some n"
  shows "2 \<le> n \<and> n \<le> length (c # s) \<and> (\<forall>x\<in>set (take n (c # s)). 0x80 \<le> (of_char x :: nat))"
  using assms
  by (cases "(c # s)" rule: rune_width.cases)
    (auto simp: char_in_def second_byte_ok_def split: if_splits)

lemma read_plain:
  "c \<noteq> quote \<Longrightarrow> c \<noteq> backslash \<Longrightarrow>
     read_chars (c # s) = map_option (\<lambda>(t, r). (c # t, r)) (read_chars s)"
  by simp

lemma read_high:
  "(\<forall>x\<in>set xs. 0x80 \<le> (of_char x :: nat)) \<Longrightarrow>
     read_chars (xs @ s) = map_option (\<lambda>(t, r). (xs @ t, r)) (read_chars s)"
proof (induction xs)
  case Nil
  then show ?case by (simp add: option.map_ident)
next
  case (Cons x xs)
  have "x \<noteq> quote" "x \<noteq> backslash" using Cons.prems by auto
  with Cons show ?case by (simp add: read_plain option.map_comp comp_def split_def del: read_chars.simps)
qed

lemma hex_value_digit: "n < 16 \<Longrightarrow> hex_value (hex_digit n) = n"
  by (auto simp: hex_value_def hex_digit_def)

lemma read_escaped_ascii:
  assumes "of_char c < (0x80 :: nat)"
  shows "read_chars (escape_ascii c @ s) = map_option (\<lambda>(t, r). (c # t, r)) (read_chars s)"
proof -
  have "hex_value (hex_digit (of_char c div 16)) = of_char c div 16"
    and "hex_value (hex_digit (of_char c mod 16)) = of_char c mod 16"
    using assms by (auto simp: hex_value_digit)
  then have "char_of (16 * hex_value (hex_digit (of_char c div 16)) + hex_value (hex_digit (of_char c mod 16))) = c"
    by simp
  then show ?thesis
    by (auto simp: escape_ascii_def html_safe_def unescape_char_def unescape_unicode_def)
qed

lemma read_escaped_rune:
  assumes "rune_width (c # s) = Some n"
  shows "read_chars (escape_rune (take n (c # s)) @ u) =
    map_option (\<lambda>(t, r). (take n (c # s) @ t, r)) (read_chars u)"
proof -
  have "char_of (0xA8 :: nat) = CHR 0xA8" "char_of (0xA9 :: nat) = CHR 0xA9"
    "hex_value CHR ''2'' = 2" "hex_value CHR ''8'' = 8" "hex_value CHR ''9'' = 9" by code_simp+
  then show ?thesis
    using rune_width_cases [OF assms]
    by (auto simp: escape_rune_def unescape_unicode_def read_high simp del: read_chars.simps(2)
      simp add: read_chars.simps(2) [of backslash])
qed

lemma read_json_chars:
  "utf8_valid s \<Longrightarrow> read_chars (json_chars s @ quote # u) = Some (s, u)"
proof (induction s rule: utf8_valid.induct)
  case (2 c s)
  show ?case
  proof (cases "of_char c < (0x80 :: nat)")
    case True
    with 2 show ?thesis by (simp add: read_escaped_ascii del: read_chars.simps)
  next
    case False
    then obtain n where n: "rune_width (c # s) = Some n" "utf8_valid (drop (n - 1) s)"
      using "2.prems" by (auto split: option.splits)
    have "take n (c # s) @ drop (n - 1) s = c # s"
      using rune_width_cases [OF n(1)] by (cases n) auto
    with False n 2 show ?thesis
      by (simp add: read_escaped_rune [OF n(1)] del: read_chars.simps take_Cons)
  qed
qed simp

text \<open>Quoting loses nothing on valid UTF-8, and a quoted string can be split off a text.\<close>

lemma json_string_append_inject:
  assumes "utf8_valid s" and "utf8_valid t"
  shows "json_string s @ u = json_string t @ v \<longleftrightarrow> s = t \<and> u = v"
proof
  assume "json_string s @ u = json_string t @ v"
  then have "read_chars (json_chars s @ quote # u) = read_chars (json_chars t @ quote # v)"
    by (simp add: json_string_def)
  with assms show "s = t \<and> u = v" by (simp add: read_json_chars)
qed simp

lemma json_string_inject:
  "utf8_valid s \<Longrightarrow> utf8_valid t \<Longrightarrow> json_string s = json_string t \<longleftrightarrow> s = t"
  using json_string_append_inject [of s t "[]" "[]"] by simp

lemma char_of_digit_inject: "m < 10 \<Longrightarrow> n < 10 \<Longrightarrow> (char_of (48 + m) :: char) = char_of (48 + n :: nat) \<longleftrightarrow> m = n"
  by (auto simp: char_of_eq_iff take_bit_eq_mod)

lemma decimal_inject [simp]: "decimal m = decimal n \<longleftrightarrow> m = n"
proof (induction m arbitrary: n rule: decimal.induct)
  case (1 m)
  have ne: "decimal k \<noteq> []" for k by (subst decimal.simps) simp
  have last: "last (decimal k) = char_of (48 + k mod 10)" for k
    by (subst decimal.simps) auto
  have front: "butlast (decimal k) = (if k < 10 then [] else decimal (k div 10))" for k
    by (subst decimal.simps) auto
  show ?case
  proof
    assume eq: "decimal m = decimal n"
    then have "m mod 10 = n mod 10"
      using last [of m] last [of n] char_of_digit_inject [of "m mod 10" "n mod 10"] by simp
    moreover have "m div 10 = n div 10"
    proof (cases "m < 10 \<or> n < 10")
      case True
      with front [of m] front [of n] eq ne [of "m div 10"] ne [of "n div 10"]
      show ?thesis by (auto split: if_splits)
    next
      case False
      with front [of m] front [of n] eq have "decimal (m div 10) = decimal (n div 10)" by simp
      with False "1.IH" show ?thesis by blast
    qed
    ultimately show "m = n" by (metis div_mult_mod_eq)
  qed simp
qed

end
