(* ===== verification/Exposure_Fact.thy ===== *)
theory Exposure_Fact
  imports Go_JSON "HOL-Library.Product_Lexorder"
begin

text \<open>
  The facts of \<open>internal/exposure\<close>: the tagged identity of a disclosed row, cell, derived
  value, query outcome or predicate atom, its validation, the canonical payload that is hashed
  and stored, and the hash. The lemmas show that the payload determines the fact (up to the order
  of a snapshot bundle), so that equal hashes mean equal facts unless SHA-256 collides.

  Parameters of the model, in \<open>exposure_env\<close>: the hash function \<open>crypto/sha256\<close> and the
  check \<open>ValidateCanonicalSQLValueEncoding\<close> of the literal of a predicate atom, which is the
  only part of \<open>FactID.Validate\<close> that looks into the encoding of a SQL value; nothing is
  assumed of either.
\<close>

section \<open>Definitions\<close>

subsection \<open>Constants and types\<close>

text \<open>Every error of the package wraps \<open>ErrInvalid\<close>; the text is the constant part of the message.\<close>

datatype exposure_error = ExposureInvalid go_string

record exposure_env =
  env_sha256 :: "byte list \<Rightarrow> byte list"
  env_literal_ok :: "go_string \<Rightarrow> go_string \<Rightarrow> bool"

abbreviation ProfileV1 :: go_string where "ProfileV1 \<equiv> ''taskgate-exposure-v1''"
abbreviation ProfileV2 :: go_string where "ProfileV2 \<equiv> ''taskgate-exposure-v2''"
abbreviation ProfileV3 :: go_string where "ProfileV3 \<equiv> ''taskgate-exposure-v3''"
abbreviation ProfileV4 :: go_string where "ProfileV4 \<equiv> ''taskgate-exposure-v4''"
abbreviation ProfileV5 :: go_string where "ProfileV5 \<equiv> ''taskgate-exposure-v5''"

definition factDomainV2 :: "byte list" where
  "factDomainV2 = bytes_of ''TASKGATE-FACT-V2'' @ [0]"

definition factDomainV3 :: "byte list" where
  "factDomainV3 = bytes_of ''TASKGATE-FACT-V3'' @ [0]"

definition factDomainV5 :: "byte list" where
  "factDomainV5 = bytes_of ''TASKGATE-FACT-V5'' @ [0]"

definition predicateSetDomainV1 :: "byte list" where
  "predicateSetDomainV1 = bytes_of ''TASKGATE-PREDICATE-SET-V1'' @ [0]"

type_synonym FactKind = go_string

abbreviation FactBaseRow :: FactKind where "FactBaseRow \<equiv> ''base-row''"
abbreviation FactBaseCell :: FactKind where "FactBaseCell \<equiv> ''base-cell''"
abbreviation FactDerived :: FactKind where "FactDerived \<equiv> ''derived''"
abbreviation FactOutcome :: FactKind where "FactOutcome \<equiv> ''outcome''"
abbreviation FactPredicateAtom :: FactKind where "FactPredicateAtom \<equiv> ''predicate-atom''"
abbreviation FactCompositeOutcome :: FactKind where "FactCompositeOutcome \<equiv> ''composite-outcome''"

abbreviation PredicateFootprintVersion :: go_string where
  "PredicateFootprintVersion \<equiv> ''taskgate-predicate-footprint-v1''"

record SnapshotBinding =
  sb_SourceNamespace :: go_string
  sb_Snapshot :: go_string

record FactID =
  fid_Product :: go_string
  fid_Snapshot :: go_string
  fid_EntityKey :: go_string
  fid_Field :: go_string
  fid_ValueVersion :: go_string
  fid_Profile :: go_string
  fid_Kind :: FactKind
  fid_SourceNamespace :: go_string
  fid_SQLType :: go_string
  fid_CanonicalValue :: go_string
  fid_SnapshotBundle :: "SnapshotBinding list"
  fid_OutputRowKey :: go_string
  fid_NormalizedExpression :: go_string
  fid_WitnessCommitment :: go_string
  fid_QueryNormalFormVersion :: go_string
  fid_QueryNormalFormSHA256 :: go_string
  fid_OutcomeSHA256 :: go_string
  fid_OutcomeRows :: int64
  fid_AtomizerVersion :: go_string
  fid_PredicateContextSHA256 :: go_string
  fid_SemanticProductID :: go_string
  fid_StableRole :: go_string
  fid_PublicFieldID :: go_string
  fid_ResolvedExpressionSHA256 :: go_string
  fid_CollationName :: go_string
  fid_CollationVersion :: go_string
  fid_Operator :: go_string
  fid_CanonicalLiteral :: go_string
  fid_ResultObservationSHA256 :: go_string
  fid_VisibleRows :: int64
  fid_PredicateProfileVersion :: go_string
  fid_PredicateSetSHA256 :: go_string
  fid_PredicateAtomCount :: int64

text \<open>The zero value, which composite literals of the source start from.\<close>

definition zero_fact :: FactID where
  "zero_fact = \<lparr>fid_Product = [], fid_Snapshot = [], fid_EntityKey = [], fid_Field = [], fid_ValueVersion = [],
     fid_Profile = [], fid_Kind = [], fid_SourceNamespace = [], fid_SQLType = [], fid_CanonicalValue = [],
     fid_SnapshotBundle = [], fid_OutputRowKey = [], fid_NormalizedExpression = [], fid_WitnessCommitment = [],
     fid_QueryNormalFormVersion = [], fid_QueryNormalFormSHA256 = [], fid_OutcomeSHA256 = [], fid_OutcomeRows = 0,
     fid_AtomizerVersion = [], fid_PredicateContextSHA256 = [], fid_SemanticProductID = [], fid_StableRole = [],
     fid_PublicFieldID = [], fid_ResolvedExpressionSHA256 = [], fid_CollationName = [], fid_CollationVersion = [],
     fid_Operator = [], fid_CanonicalLiteral = [], fid_ResultObservationSHA256 = [], fid_VisibleRows = 0,
     fid_PredicateProfileVersion = [], fid_PredicateSetSHA256 = [], fid_PredicateAtomCount = 0\<rparr>"

subsection \<open>SQL type names\<close>

text \<open>
  \<open>strings.ToLower\<close> as far as ASCII letters come out of it: the ASCII capitals, and the two
  runes outside ASCII whose lower case is an ASCII letter, U+0130 (capital i with dot above) and
  U+212A (the Kelvin sign). The lower case of every other rune is outside ASCII; such a rune is
  copied, and a text that contains one is never equal to one of the ASCII names it is compared
  with.
\<close>

fun ToLower :: "go_string \<Rightarrow> go_string" where
  "ToLower [] = []"
| "ToLower (c # s) =
     (if take 2 (c # s) = [CHR 0xC4, CHR 0xB0] then CHR ''i'' # ToLower (drop 1 s)
      else if take 3 (c # s) = [CHR 0xE2, CHR 0x84, CHR 0xAA] then CHR ''k'' # ToLower (drop 2 s)
      else (if char_in c 65 90 then char_of (of_char c + 32 :: nat) else c) # ToLower s)"

text \<open>\<open>strings.Fields\<close>: the maximal runs of runes that are not white space.\<close>

function Fields_loop :: "go_string \<Rightarrow> go_string \<Rightarrow> go_string list" where
  "Fields_loop field s =
     (case s of
        [] \<Rightarrow> (if field = [] then [] else [field])
      | c # s' \<Rightarrow>
          (case strip_one space_encodings s of
             Some r \<Rightarrow> (if field = [] then Fields_loop [] r else field # Fields_loop [] r)
           | None \<Rightarrow> Fields_loop (field @ [c]) s'))"
  by pat_completeness auto
termination
  by (relation "measure (\<lambda>(field, s). length s)") (auto dest: strip_one_shorter)

declare Fields_loop.simps [simp del]

fun join_space :: "go_string list \<Rightarrow> go_string" where
  "join_space [] = []"
| "join_space [x] = x"
| "join_space (x # y # xs) = x @ '' '' @ join_space (y # xs)"

definition normalizeSQLType :: "go_string \<Rightarrow> go_string" where
  "normalizeSQLType v =
     (let n = join_space (Fields_loop [] (ToLower (TrimSpace v))) in
      if n = ''int2'' then ''smallint''
      else if n = ''int4'' \<or> n = ''int'' then ''integer''
      else if n = ''int8'' then ''bigint''
      else if n = ''decimal'' then ''numeric''
      else if n = ''float4'' then ''real''
      else if n = ''float8'' then ''double precision''
      else if n = ''bool'' then ''boolean''
      else if n = ''char'' then ''character''
      else if n = ''varchar'' then ''character varying''
      else if n = ''time'' \<or> n = ''time without time zone'' then ''time without time zone''
      else if n = ''timetz'' \<or> n = ''time with time zone'' then ''time with time zone''
      else if n = ''timestamp'' \<or> n = ''timestamp without time zone'' then ''timestamp without time zone''
      else if n = ''timestamptz'' \<or> n = ''timestamp with time zone'' then ''timestamp with time zone''
      else n)"

definition canonical_sql_types :: "go_string list" where
  "canonical_sql_types =
     [''smallint'', ''integer'', ''bigint'', ''numeric'', ''real'', ''double precision'',
      ''boolean'', ''bytea'', ''date'', ''time without time zone'',
      ''timestamp with time zone'', ''timestamp without time zone'', ''jsonb'',
      ''uuid'', ''text'', ''character'', ''character varying'']"

definition CanonicalSQLTypeV2 :: "go_string \<Rightarrow> exposure_error + go_string" where
  "CanonicalSQLTypeV2 v =
     (let result = normalizeSQLType v in
      if result \<in> set canonical_sql_types then Inr result
      else if result = ''time with time zone''
        then Inl (ExposureInvalid ''PostgreSQL time with time zone is outside the profile'')
      else Inl (ExposureInvalid ''PostgreSQL type is outside the profile''))"

subsection \<open>Validation\<close>

definition IsV2 :: "FactID \<Rightarrow> bool" where "IsV2 f \<longleftrightarrow> fid_Profile f = ProfileV2"
definition IsV3 :: "FactID \<Rightarrow> bool" where "IsV3 f \<longleftrightarrow> fid_Profile f = ProfileV3"
definition IsV5 :: "FactID \<Rightarrow> bool" where "IsV5 f \<longleftrightarrow> fid_Profile f = ProfileV5"
definition isVersioned :: "FactID \<Rightarrow> bool" where "isVersioned f \<longleftrightarrow> fid_Profile f \<noteq> [] \<or> fid_Kind f \<noteq> []"

definition isCollatableTypeV5 :: "go_string \<Rightarrow> bool" where
  "isCollatableTypeV5 t \<longleftrightarrow> t = ''text'' \<or> t = ''character'' \<or> t = ''character varying''"

definition hasLegacyVersionedPayload :: "FactID \<Rightarrow> bool" where
  "hasLegacyVersionedPayload f \<longleftrightarrow>
     fid_SourceNamespace f \<noteq> [] \<or> fid_Snapshot f \<noteq> [] \<or> fid_EntityKey f \<noteq> [] \<or> fid_Field f \<noteq> [] \<or>
     fid_CanonicalValue f \<noteq> [] \<or> fid_SnapshotBundle f \<noteq> [] \<or> fid_OutputRowKey f \<noteq> [] \<or>
     fid_NormalizedExpression f \<noteq> [] \<or> fid_WitnessCommitment f \<noteq> []"

definition hasAtomPayload :: "FactID \<Rightarrow> bool" where
  "hasAtomPayload f \<longleftrightarrow>
     fid_AtomizerVersion f \<noteq> [] \<or> fid_SemanticProductID f \<noteq> [] \<or> fid_StableRole f \<noteq> [] \<or>
     fid_PublicFieldID f \<noteq> [] \<or> fid_ResolvedExpressionSHA256 f \<noteq> [] \<or> fid_SQLType f \<noteq> [] \<or>
     fid_CollationName f \<noteq> [] \<or> fid_CollationVersion f \<noteq> [] \<or> fid_Operator f \<noteq> [] \<or> fid_CanonicalLiteral f \<noteq> []"

definition hasCompositePayload :: "FactID \<Rightarrow> bool" where
  "hasCompositePayload f \<longleftrightarrow>
     fid_ResultObservationSHA256 f \<noteq> [] \<or> fid_VisibleRows f \<noteq> 0 \<or> fid_PredicateProfileVersion f \<noteq> [] \<or>
     fid_PredicateSetSHA256 f \<noteq> [] \<or> fid_PredicateAtomCount f \<noteq> 0"

definition hasV5Payload :: "FactID \<Rightarrow> bool" where
  "hasV5Payload f \<longleftrightarrow> fid_PredicateContextSHA256 f \<noteq> [] \<or> hasAtomPayload f \<or> hasCompositePayload f"

definition hasV5OnlyPayload :: "FactID \<Rightarrow> bool" where
  "hasV5OnlyPayload f \<longleftrightarrow>
     fid_AtomizerVersion f \<noteq> [] \<or> fid_PredicateContextSHA256 f \<noteq> [] \<or> fid_SemanticProductID f \<noteq> [] \<or>
     fid_StableRole f \<noteq> [] \<or> fid_PublicFieldID f \<noteq> [] \<or> fid_ResolvedExpressionSHA256 f \<noteq> [] \<or>
     fid_CollationName f \<noteq> [] \<or> fid_CollationVersion f \<noteq> [] \<or> fid_Operator f \<noteq> [] \<or> fid_CanonicalLiteral f \<noteq> [] \<or>
     fid_ResultObservationSHA256 f \<noteq> [] \<or> fid_VisibleRows f \<noteq> 0 \<or> fid_PredicateProfileVersion f \<noteq> [] \<or>
     fid_PredicateSetSHA256 f \<noteq> [] \<or> fid_PredicateAtomCount f \<noteq> 0"

definition hasOutcomePayload :: "FactID \<Rightarrow> bool" where
  "hasOutcomePayload f \<longleftrightarrow>
     fid_QueryNormalFormVersion f \<noteq> [] \<or> fid_QueryNormalFormSHA256 f \<noteq> [] \<or> fid_OutcomeSHA256 f \<noteq> [] \<or> fid_OutcomeRows f \<noteq> 0"

definition invalidToken :: "go_string \<Rightarrow> bool" where
  "invalidToken v \<longleftrightarrow> blank v \<or> v \<noteq> TrimSpace v"

definition isSHA256 :: "go_string \<Rightarrow> bool" where
  "isSHA256 v \<longleftrightarrow> lower_sha256_hex v"

definition canonical_type :: "go_string \<Rightarrow> bool" where
  "canonical_type t \<longleftrightarrow> CanonicalSQLTypeV2 t = Inr t"

text \<open>The loop over a snapshot bundle: complete bindings, no namespace twice.\<close>

fun validate_bundle :: "go_string list \<Rightarrow> SnapshotBinding list \<Rightarrow> exposure_error option" where
  "validate_bundle seen [] = None"
| "validate_bundle seen (b # bs) =
     (if invalidToken (sb_SourceNamespace b) \<or> invalidToken (sb_Snapshot b)
        then Some (ExposureInvalid ''snapshot bundle binding is incomplete'')
      else if sb_SourceNamespace b \<in> set seen then Some (ExposureInvalid ''duplicate snapshot namespace'')
      else validate_bundle (sb_SourceNamespace b # seen) bs)"

definition validate_base_row :: "FactID \<Rightarrow> exposure_error option" where
  "validate_base_row f =
     (if fid_Profile f \<noteq> ProfileV2 then Some (ExposureInvalid ''base-row fact requires profile'')
      else if invalidToken (fid_SourceNamespace f) \<or> invalidToken (fid_Snapshot f) \<or> invalidToken (fid_EntityKey f)
        then Some (ExposureInvalid ''base row namespace, snapshot, and entity key are required'')
      else if fid_Field f \<noteq> [] \<or> fid_SQLType f \<noteq> [] \<or> fid_CanonicalValue f \<noteq> [] \<or> length (fid_SnapshotBundle f) \<noteq> 0 \<or>
          fid_OutputRowKey f \<noteq> [] \<or> fid_NormalizedExpression f \<noteq> [] \<or> fid_WitnessCommitment f \<noteq> [] \<or>
          hasOutcomePayload f \<or> hasV5OnlyPayload f
        then Some (ExposureInvalid ''base row carries cell or derived fields'')
      else None)"

definition validate_base_cell :: "FactID \<Rightarrow> exposure_error option" where
  "validate_base_cell f =
     (if fid_Profile f \<noteq> ProfileV2 then Some (ExposureInvalid ''base-cell fact requires profile'')
      else if invalidToken (fid_SourceNamespace f) \<or> invalidToken (fid_Snapshot f) \<or> invalidToken (fid_EntityKey f) \<or>
          invalidToken (fid_Field f) \<or> invalidToken (fid_SQLType f) \<or> fid_CanonicalValue f = []
        then Some (ExposureInvalid ''base cell payload is incomplete'')
      else if \<not> canonical_type (fid_SQLType f) then Some (ExposureInvalid ''base cell SQL type is not canonical'')
      else if length (fid_SnapshotBundle f) \<noteq> 0 \<or> fid_OutputRowKey f \<noteq> [] \<or> fid_NormalizedExpression f \<noteq> [] \<or>
          fid_WitnessCommitment f \<noteq> [] \<or> hasOutcomePayload f \<or> hasV5OnlyPayload f
        then Some (ExposureInvalid ''base cell carries derived fields'')
      else None)"

definition validate_derived :: "FactID \<Rightarrow> exposure_error option" where
  "validate_derived f =
     (if fid_Profile f \<noteq> ProfileV2 then Some (ExposureInvalid ''derived fact requires profile'')
      else if fid_SourceNamespace f \<noteq> [] \<or> fid_Snapshot f \<noteq> [] \<or> fid_EntityKey f \<noteq> [] \<or> fid_Field f \<noteq> [] \<or>
          invalidToken (fid_OutputRowKey f) \<or> invalidToken (fid_NormalizedExpression f) \<or> invalidToken (fid_SQLType f) \<or>
          fid_CanonicalValue f = [] \<or> \<not> isSHA256 (fid_WitnessCommitment f) \<or> length (fid_SnapshotBundle f) = 0 \<or>
          hasOutcomePayload f \<or> hasV5OnlyPayload f
        then Some (ExposureInvalid ''derived fact payload is incomplete or mixed'')
      else if \<not> canonical_type (fid_SQLType f) then Some (ExposureInvalid ''derived fact SQL type is not canonical'')
      else validate_bundle [] (fid_SnapshotBundle f))"

definition validate_outcome :: "FactID \<Rightarrow> exposure_error option" where
  "validate_outcome f =
     (if fid_Profile f \<noteq> ProfileV3 then Some (ExposureInvalid ''outcome fact requires profile'')
      else if fid_SourceNamespace f \<noteq> [] \<or> fid_Snapshot f \<noteq> [] \<or> fid_EntityKey f \<noteq> [] \<or> fid_Field f \<noteq> [] \<or>
          fid_SQLType f \<noteq> [] \<or> fid_CanonicalValue f \<noteq> [] \<or> length (fid_SnapshotBundle f) \<noteq> 0 \<or> fid_OutputRowKey f \<noteq> [] \<or>
          fid_NormalizedExpression f \<noteq> [] \<or> fid_WitnessCommitment f \<noteq> []
        then Some (ExposureInvalid ''outcome fact carries base or derived fields'')
      else if invalidToken (fid_QueryNormalFormVersion f) \<or> \<not> isSHA256 (fid_QueryNormalFormSHA256 f) \<or>
          \<not> isSHA256 (fid_OutcomeSHA256 f) \<or> fid_OutcomeRows f < 0
        then Some (ExposureInvalid ''outcome fact payload is incomplete'')
      else if hasV5Payload f then Some (ExposureInvalid ''V3 outcome fact carries V5 fields'')
      else None)"

definition validate_predicate_atom :: "exposure_env \<Rightarrow> FactID \<Rightarrow> exposure_error option" where
  "validate_predicate_atom E f =
     (if fid_Profile f \<noteq> ProfileV5 then Some (ExposureInvalid ''predicate atom requires profile'')
      else if hasLegacyVersionedPayload f \<or> hasOutcomePayload f \<or> hasCompositePayload f
        then Some (ExposureInvalid ''predicate atom carries fields from another fact kind'')
      else if fid_AtomizerVersion f \<noteq> PredicateFootprintVersion \<or> \<not> isSHA256 (fid_PredicateContextSHA256 f) \<or>
          invalidToken (fid_SemanticProductID f) \<or> invalidToken (fid_StableRole f) \<or> invalidToken (fid_PublicFieldID f) \<or>
          invalidToken (fid_SQLType f) \<or> invalidToken (fid_Operator f) \<or> fid_CanonicalLiteral f = []
        then Some (ExposureInvalid ''predicate atom payload is incomplete'')
      else if \<not> canonical_type (fid_SQLType f) then Some (ExposureInvalid ''predicate atom SQL type is not canonical'')
      else if \<not> env_literal_ok E (fid_SQLType f) (fid_CanonicalLiteral f)
        then Some (ExposureInvalid ''predicate atom literal is not canonical'')
      else if fid_ResolvedExpressionSHA256 f \<noteq> [] \<and> \<not> isSHA256 (fid_ResolvedExpressionSHA256 f)
        then Some (ExposureInvalid ''resolved expression must be lowercase SHA-256'')
      else if isCollatableTypeV5 (fid_SQLType f) \<and> (invalidToken (fid_CollationName f) \<or> invalidToken (fid_CollationVersion f))
        then Some (ExposureInvalid ''collatable predicate atom requires a collation binding'')
      else if \<not> isCollatableTypeV5 (fid_SQLType f) \<and> (fid_CollationName f \<noteq> [] \<or> fid_CollationVersion f \<noteq> [])
        then Some (ExposureInvalid ''non-collatable predicate atom carries a collation'')
      else if fid_Operator f \<in> {''EQ'', ''NE'', ''LT'', ''LE'', ''GT'', ''GE'', ''LIKE''} then None
      else Some (ExposureInvalid ''unsupported predicate atom operator''))"

definition validate_composite :: "FactID \<Rightarrow> exposure_error option" where
  "validate_composite f =
     (if fid_Profile f \<noteq> ProfileV5 then Some (ExposureInvalid ''composite outcome requires profile'')
      else if hasLegacyVersionedPayload f \<or> fid_OutcomeSHA256 f \<noteq> [] \<or> fid_OutcomeRows f \<noteq> 0 \<or> hasAtomPayload f
        then Some (ExposureInvalid ''composite outcome carries fields from another fact kind'')
      else if invalidToken (fid_QueryNormalFormVersion f) \<or> \<not> isSHA256 (fid_QueryNormalFormSHA256 f) \<or>
          \<not> isSHA256 (fid_ResultObservationSHA256 f) \<or> fid_VisibleRows f < 0 \<or>
          fid_PredicateProfileVersion f \<noteq> PredicateFootprintVersion \<or> \<not> isSHA256 (fid_PredicateContextSHA256 f) \<or>
          \<not> isSHA256 (fid_PredicateSetSHA256 f) \<or> fid_PredicateAtomCount f < 0
        then Some (ExposureInvalid ''composite outcome payload is incomplete'')
      else None)"

definition validateVersioned :: "exposure_env \<Rightarrow> FactID \<Rightarrow> exposure_error option" where
  "validateVersioned E f =
     (if fid_Product f \<noteq> [] \<or> fid_ValueVersion f \<noteq> []
        then Some (ExposureInvalid ''V1 and versioned fact fields cannot be mixed'')
      else if fid_Kind f = FactBaseRow then validate_base_row f
      else if fid_Kind f = FactBaseCell then validate_base_cell f
      else if fid_Kind f = FactDerived then validate_derived f
      else if fid_Kind f = FactOutcome then validate_outcome f
      else if fid_Kind f = FactPredicateAtom then validate_predicate_atom E f
      else if fid_Kind f = FactCompositeOutcome then validate_composite f
      else Some (ExposureInvalid ''unknown versioned fact kind''))"

definition FactID_Validate :: "exposure_env \<Rightarrow> FactID \<Rightarrow> exposure_error option" where
  "FactID_Validate E f =
     (if isVersioned f then validateVersioned E f
      else (case first_error
          (\<lambda>v. if invalidToken v then Some (ExposureInvalid ''required without boundary whitespace'') else None)
          [fid_Product f, fid_Snapshot f, fid_EntityKey f, fid_Field f, fid_ValueVersion f] of
            Some e \<Rightarrow> Some e
          | None \<Rightarrow> if \<not> isSHA256 (fid_ValueVersion f)
              then Some (ExposureInvalid ''value_version must be lowercase SHA-256'') else None))"

subsection \<open>The JSON form of a fact\<close>

text \<open>Members tagged \<open>omitempty\<close> are left out when empty, in the order of the struct fields.\<close>

definition str_member :: "go_string \<Rightarrow> go_string \<Rightarrow> (go_string \<times> go_string) list" where
  "str_member name v = (if v = [] then [] else [(name, json_string v)])"

definition int_member :: "go_string \<Rightarrow> int64 \<Rightarrow> (go_string \<times> go_string) list" where
  "int_member name n = (if n = 0 then [] else [(name, FormatInt n)])"

definition json_binding :: "SnapshotBinding \<Rightarrow> go_string" where
  "json_binding b = json_object
     [(''source_namespace'', json_string (sb_SourceNamespace b)), (''snapshot'', json_string (sb_Snapshot b))]"

definition json_fact :: "FactID \<Rightarrow> go_string" where
  "json_fact f = json_object
    (str_member ''product'' (fid_Product f) @ str_member ''snapshot'' (fid_Snapshot f) @
     str_member ''entity_key'' (fid_EntityKey f) @ str_member ''field'' (fid_Field f) @
     str_member ''value_version'' (fid_ValueVersion f) @ str_member ''profile'' (fid_Profile f) @
     str_member ''kind'' (fid_Kind f) @ str_member ''source_namespace'' (fid_SourceNamespace f) @
     str_member ''sql_type'' (fid_SQLType f) @ str_member ''canonical_value'' (fid_CanonicalValue f) @
     (if fid_SnapshotBundle f = [] then []
      else [(''snapshot_bundle'', json_array (map json_binding (fid_SnapshotBundle f)))]) @
     str_member ''output_row_key'' (fid_OutputRowKey f) @
     str_member ''normalized_expression'' (fid_NormalizedExpression f) @
     str_member ''witness_commitment'' (fid_WitnessCommitment f) @
     str_member ''query_normal_form_version'' (fid_QueryNormalFormVersion f) @
     str_member ''query_normal_form_sha256'' (fid_QueryNormalFormSHA256 f) @
     str_member ''outcome_sha256'' (fid_OutcomeSHA256 f) @ int_member ''outcome_rows'' (fid_OutcomeRows f) @
     str_member ''atomizer_version'' (fid_AtomizerVersion f) @
     str_member ''predicate_context_sha256'' (fid_PredicateContextSHA256 f) @
     str_member ''semantic_product_id'' (fid_SemanticProductID f) @ str_member ''stable_role'' (fid_StableRole f) @
     str_member ''public_field_id'' (fid_PublicFieldID f) @
     str_member ''resolved_expression_sha256'' (fid_ResolvedExpressionSHA256 f) @
     str_member ''collation_name'' (fid_CollationName f) @ str_member ''collation_version'' (fid_CollationVersion f) @
     str_member ''operator'' (fid_Operator f) @ str_member ''canonical_literal'' (fid_CanonicalLiteral f) @
     str_member ''result_observation_sha256'' (fid_ResultObservationSHA256 f) @
     int_member ''visible_rows'' (fid_VisibleRows f) @
     str_member ''predicate_profile_version'' (fid_PredicateProfileVersion f) @
     str_member ''predicate_set_sha256'' (fid_PredicateSetSHA256 f) @
     int_member ''predicate_atom_count'' (fid_PredicateAtomCount f))"

subsection \<open>Canonical payload and hash\<close>

text \<open>The conversion of an \<open>int64\<close> to \<open>uint64\<close>, written out in eight bytes.\<close>

definition canonical_uint64 :: "int64 \<Rightarrow> byte list" where
  "canonical_uint64 n = big_endian 8 (nat (n mod 18446744073709551616))"

definition frames :: "go_string list \<Rightarrow> byte list" where
  "frames ss = concat (map frame_string ss)"

definition binding_key :: "SnapshotBinding \<Rightarrow> go_string \<times> go_string" where
  "binding_key b = (sb_SourceNamespace b, sb_Snapshot b)"

definition sorted_bundle :: "SnapshotBinding list \<Rightarrow> SnapshotBinding list" where
  "sorted_bundle bs = sort_key binding_key bs"

definition bundle_payload :: "SnapshotBinding list \<Rightarrow> byte list" where
  "bundle_payload bindings = big_endian 8 (length bindings) @
     concat (map (\<lambda>b. frames [sb_SourceNamespace b, sb_Snapshot b]) bindings)"

definition kind_payload :: "FactID \<Rightarrow> byte list" where
  "kind_payload f =
     (if fid_Kind f = FactBaseRow then frames [fid_SourceNamespace f, fid_Snapshot f, fid_EntityKey f]
      else if fid_Kind f = FactBaseCell then
        frames [fid_SourceNamespace f, fid_Snapshot f, fid_EntityKey f, fid_Field f, fid_SQLType f, fid_CanonicalValue f]
      else if fid_Kind f = FactDerived then
        bundle_payload (sorted_bundle (fid_SnapshotBundle f)) @
        frames [fid_OutputRowKey f, fid_NormalizedExpression f, fid_SQLType f, fid_CanonicalValue f, fid_WitnessCommitment f]
      else if fid_Kind f = FactOutcome then
        frames [fid_QueryNormalFormVersion f, fid_QueryNormalFormSHA256 f, fid_OutcomeSHA256 f] @
        canonical_uint64 (fid_OutcomeRows f)
      else if fid_Kind f = FactPredicateAtom then
        frames [fid_AtomizerVersion f, fid_PredicateContextSHA256 f, fid_SemanticProductID f, fid_StableRole f,
          fid_PublicFieldID f, fid_ResolvedExpressionSHA256 f, fid_SQLType f, fid_CollationName f,
          fid_CollationVersion f, fid_Operator f, fid_CanonicalLiteral f]
      else if fid_Kind f = FactCompositeOutcome then
        frames [fid_QueryNormalFormVersion f, fid_QueryNormalFormSHA256 f, fid_ResultObservationSHA256 f] @
        canonical_uint64 (fid_VisibleRows f) @
        frames [fid_PredicateProfileVersion f, fid_PredicateContextSHA256 f, fid_PredicateSetSHA256 f] @
        canonical_uint64 (fid_PredicateAtomCount f)
      else [])"

definition CanonicalPayload :: "exposure_env \<Rightarrow> FactID \<Rightarrow> exposure_error + byte list" where
  "CanonicalPayload E f =
     (case FactID_Validate E f of
        Some e \<Rightarrow> Inl e
      | None \<Rightarrow>
          Inr (if \<not> isVersioned f then bytes_of (json_fact f)
               else frames [fid_Kind f, fid_Profile f] @ kind_payload f))"

definition hash_domain :: "FactID \<Rightarrow> byte list" where
  "hash_domain f = (if IsV2 f then factDomainV2 else if IsV3 f then factDomainV3
     else if IsV5 f then factDomainV5 else [])"

definition FactID_Hash :: "exposure_env \<Rightarrow> FactID \<Rightarrow> exposure_error + go_string" where
  "FactID_Hash E f =
     (case CanonicalPayload E f of
        Inl e \<Rightarrow> Inl e
      | Inr payload \<Rightarrow> Inr (hex_encode (env_sha256 E (hash_domain f @ payload))))"

subsection \<open>Constructors\<close>

definition checked_fact :: "exposure_env \<Rightarrow> FactID \<Rightarrow> FactID \<times> exposure_error option" where
  "checked_fact E f = (f, FactID_Validate E f)"

definition NewBaseRowFactV2 ::
  "exposure_env \<Rightarrow> go_string \<Rightarrow> go_string \<Rightarrow> go_string \<Rightarrow> FactID \<times> exposure_error option" where
  "NewBaseRowFactV2 E sourceNamespace snapshot entityKey =
     checked_fact E (zero_fact\<lparr>fid_Profile := ProfileV2, fid_Kind := FactBaseRow,
       fid_SourceNamespace := sourceNamespace, fid_Snapshot := snapshot, fid_EntityKey := entityKey\<rparr>)"

definition NewOutcomeFactV3 ::
  "exposure_env \<Rightarrow> go_string \<Rightarrow> go_string \<Rightarrow> go_string \<Rightarrow> int64 \<Rightarrow> FactID \<times> exposure_error option" where
  "NewOutcomeFactV3 E normalFormVersion normalFormSHA256 outcomeSHA256 outcomeRows =
     checked_fact E (zero_fact\<lparr>fid_Profile := ProfileV3, fid_Kind := FactOutcome,
       fid_QueryNormalFormVersion := normalFormVersion, fid_QueryNormalFormSHA256 := normalFormSHA256,
       fid_OutcomeSHA256 := outcomeSHA256, fid_OutcomeRows := outcomeRows\<rparr>)"

record PredicateAtomFactV5 =
  pa_ProfileVersion :: go_string
  pa_AtomizerVersion :: go_string
  pa_PredicateContextSHA256 :: go_string
  pa_SemanticProductID :: go_string
  pa_StableRole :: go_string
  pa_PublicFieldID :: go_string
  pa_ResolvedExpressionSHA256 :: go_string
  pa_SQLType :: go_string
  pa_CollationName :: go_string
  pa_CollationVersion :: go_string
  pa_Operator :: go_string
  pa_CanonicalLiteral :: go_string

definition NewPredicateAtomFactV5 :: "exposure_env \<Rightarrow> PredicateAtomFactV5 \<Rightarrow> FactID \<times> exposure_error option" where
  "NewPredicateAtomFactV5 E input =
     (let profile = (if pa_ProfileVersion input = [] then ProfileV5 else pa_ProfileVersion input);
          atomizer = (if pa_AtomizerVersion input = [] then PredicateFootprintVersion else pa_AtomizerVersion input)
      in checked_fact E (zero_fact\<lparr>fid_Profile := profile, fid_Kind := FactPredicateAtom,
        fid_AtomizerVersion := atomizer, fid_PredicateContextSHA256 := pa_PredicateContextSHA256 input,
        fid_SemanticProductID := pa_SemanticProductID input, fid_StableRole := pa_StableRole input,
        fid_PublicFieldID := pa_PublicFieldID input,
        fid_ResolvedExpressionSHA256 := pa_ResolvedExpressionSHA256 input, fid_SQLType := pa_SQLType input,
        fid_CollationName := pa_CollationName input, fid_CollationVersion := pa_CollationVersion input,
        fid_Operator := pa_Operator input, fid_CanonicalLiteral := pa_CanonicalLiteral input\<rparr>))"

record CompositeOutcomeFactV5 =
  co_ProfileVersion :: go_string
  co_QueryNormalFormVersion :: go_string
  co_QueryNormalFormSHA256 :: go_string
  co_ResultObservationSHA256 :: go_string
  co_VisibleRows :: int64
  co_PredicateProfileVersion :: go_string
  co_PredicateContextSHA256 :: go_string
  co_PredicateSetSHA256 :: go_string
  co_PredicateAtomCount :: int64

definition NewCompositeOutcomeFactV5 ::
  "exposure_env \<Rightarrow> CompositeOutcomeFactV5 \<Rightarrow> FactID \<times> exposure_error option" where
  "NewCompositeOutcomeFactV5 E input =
     (let profile = (if co_ProfileVersion input = [] then ProfileV5 else co_ProfileVersion input);
          predicateProfile = (if co_PredicateProfileVersion input = [] then PredicateFootprintVersion
            else co_PredicateProfileVersion input)
      in checked_fact E (zero_fact\<lparr>fid_Profile := profile, fid_Kind := FactCompositeOutcome,
        fid_QueryNormalFormVersion := co_QueryNormalFormVersion input,
        fid_QueryNormalFormSHA256 := co_QueryNormalFormSHA256 input,
        fid_ResultObservationSHA256 := co_ResultObservationSHA256 input, fid_VisibleRows := co_VisibleRows input,
        fid_PredicateProfileVersion := predicateProfile,
        fid_PredicateContextSHA256 := co_PredicateContextSHA256 input,
        fid_PredicateSetSHA256 := co_PredicateSetSHA256 input,
        fid_PredicateAtomCount := co_PredicateAtomCount input\<rparr>))"

text \<open>\<open>ComposeCanonicalKeyV2\<close>: the key of an ordered tuple of strings in a domain.\<close>

definition key_preimage :: "go_string \<Rightarrow> go_string list \<Rightarrow> byte list" where
  "key_preimage domain vs = frame_string domain @ big_endian 8 (length vs) @ frames vs"

definition ComposeCanonicalKeyV2 ::
  "exposure_env \<Rightarrow> go_string \<Rightarrow> go_string list \<Rightarrow> exposure_error + go_string" where
  "ComposeCanonicalKeyV2 E domain vs =
     (if invalidToken domain \<or> vs = []
        then Inl (ExposureInvalid ''canonical key domain and values are required'')
      else Inr (hex_encode (env_sha256 E (key_preimage domain vs))))"

subsection \<open>When two facts are the same\<close>

text \<open>
  The identity of a fact is its record, except that the bindings of a snapshot bundle are a set:
  the payload lists them in order. What no Go value can violate is collected in
  \<open>representable\<close>: lengths below 2^64 and integers in the range of \<open>int64\<close>. A fact of the
  first profile is expected to carry the five fields of that profile only, in UTF-8.
\<close>

definition canonical_form :: "FactID \<Rightarrow> FactID" where
  "canonical_form f = f\<lparr>fid_SnapshotBundle := sorted_bundle (fid_SnapshotBundle f)\<rparr>"

definition same_fact :: "FactID \<Rightarrow> FactID \<Rightarrow> bool" where
  "same_fact f g \<longleftrightarrow> canonical_form f = canonical_form g"

definition fact_strings :: "FactID \<Rightarrow> go_string list" where
  "fact_strings f =
     [fid_Kind f, fid_Profile f, fid_SourceNamespace f, fid_Snapshot f, fid_EntityKey f, fid_Field f, fid_SQLType f,
      fid_CanonicalValue f, fid_OutputRowKey f, fid_NormalizedExpression f, fid_WitnessCommitment f,
      fid_QueryNormalFormVersion f, fid_QueryNormalFormSHA256 f, fid_OutcomeSHA256 f, fid_AtomizerVersion f,
      fid_PredicateContextSHA256 f, fid_SemanticProductID f, fid_StableRole f, fid_PublicFieldID f,
      fid_ResolvedExpressionSHA256 f, fid_CollationName f, fid_CollationVersion f, fid_Operator f,
      fid_CanonicalLiteral f, fid_ResultObservationSHA256 f, fid_PredicateProfileVersion f, fid_PredicateSetSHA256 f]"

definition representable :: "FactID \<Rightarrow> bool" where
  "representable f \<longleftrightarrow>
     (\<forall>s\<in>set (fact_strings f). framable s) \<and> framable (fid_SnapshotBundle f) \<and>
     (\<forall>b\<in>set (fid_SnapshotBundle f). framable (sb_SourceNamespace b) \<and> framable (sb_Snapshot b)) \<and>
     in_int64 (fid_OutcomeRows f) \<and> in_int64 (fid_VisibleRows f) \<and> in_int64 (fid_PredicateAtomCount f)"

definition plain_v1 :: "FactID \<Rightarrow> bool" where
  "plain_v1 f \<longleftrightarrow>
     f = zero_fact\<lparr>fid_Product := fid_Product f, fid_Snapshot := fid_Snapshot f, fid_EntityKey := fid_EntityKey f,
       fid_Field := fid_Field f, fid_ValueVersion := fid_ValueVersion f\<rparr> \<and>
     utf8_valid (fid_Product f) \<and> utf8_valid (fid_Snapshot f) \<and> utf8_valid (fid_EntityKey f) \<and>
     utf8_valid (fid_Field f) \<and> utf8_valid (fid_ValueVersion f)"

definition fact_ok :: "FactID \<Rightarrow> bool" where
  "fact_ok f \<longleftrightarrow> (if isVersioned f then representable f else plain_v1 f)"

text \<open>The byte string whose hash is \<open>FactID.Hash\<close>.\<close>

definition fact_preimage :: "FactID \<Rightarrow> byte list" where
  "fact_preimage f = hash_domain f @
     (if \<not> isVersioned f then bytes_of (json_fact f) else frames [fid_Kind f, fid_Profile f] @ kind_payload f)"

section \<open>Lemmas\<close>

subsection \<open>Framed sequences\<close>

lemma frames_Nil [simp]: "frames [] = []"
  by (simp add: frames_def)

lemma frames_Cons [simp]: "frames (s # ss) = frame_string s @ frames ss"
  by (simp add: frames_def)

lemma frame_string_inject [framing]:
  "framable s \<Longrightarrow> framable t \<Longrightarrow> frame_string s = frame_string t \<longleftrightarrow> s = t"
  using frame_string_append_inject [of s t "[]" "[]"] by simp

lemma bundle_append_inject:
  fixes bs cs :: "SnapshotBinding list"
  assumes "length bs = length cs"
    and "\<forall>b\<in>set bs. framable (sb_SourceNamespace b) \<and> framable (sb_Snapshot b)"
    and "\<forall>b\<in>set cs. framable (sb_SourceNamespace b) \<and> framable (sb_Snapshot b)"
  shows "concat (map (\<lambda>b. frames [sb_SourceNamespace b, sb_Snapshot b]) bs) @ u =
      concat (map (\<lambda>b. frames [sb_SourceNamespace b, sb_Snapshot b]) cs) @ v \<longleftrightarrow> bs = cs \<and> u = v"
  using assms
proof (induction bs cs rule: list_induct2)
  case (Cons b bs c cs)
  then show ?case
    by (cases b; cases c) (auto simp: frame_string_append_inject)
qed simp

lemma canonical_uint64_inject [framing]:
  "in_int64 m \<Longrightarrow> in_int64 n \<Longrightarrow> canonical_uint64 m = canonical_uint64 n \<longleftrightarrow> m = n"
proof -
  assume range: "in_int64 m" "in_int64 n"
  have "m mod 18446744073709551616 = n mod 18446744073709551616 \<longleftrightarrow> m = n"
  proof
    assume "m mod 18446744073709551616 = n mod 18446744073709551616"
    then have "18446744073709551616 dvd m - n" by (simp add: mod_eq_dvd_iff)
    moreover have "\<bar>m - n\<bar> < 18446744073709551616" using range unfolding in_int64_def by linarith
    ultimately show "m = n" using dvd_imp_le_int [of "m - n" 18446744073709551616] by fastforce
  qed simp
  moreover have "nat (x mod 18446744073709551616) < 256 ^ 8" for x :: int
    by (simp add: nat_less_iff)
  ultimately show ?thesis
    by (simp add: canonical_uint64_def big_endian_inject nat_eq_iff)
qed

lemma canonical_uint64_append_inject [framing]:
  "in_int64 m \<Longrightarrow> in_int64 n \<Longrightarrow>
     canonical_uint64 m @ u = canonical_uint64 n @ v \<longleftrightarrow> m = n \<and> u = v"
proof -
  assume *: "in_int64 m" "in_int64 n"
  have "length (canonical_uint64 k) = 8" for k by (simp add: canonical_uint64_def)
  then show ?thesis by (simp add: append_eq_append_conv canonical_uint64_inject [OF *])
qed

lemma set_sorted_bundle [simp]: "set (sorted_bundle bs) = set bs"
  by (simp add: sorted_bundle_def)

lemma length_sorted_bundle [simp]: "length (sorted_bundle bs) = length bs"
  by (simp add: sorted_bundle_def)

lemma sorted_bundle_Nil [simp]: "sorted_bundle [] = []"
  by (simp add: sorted_bundle_def)

subsection \<open>What validation guarantees\<close>

lemmas payload_flags =
  hasLegacyVersionedPayload_def hasAtomPayload_def hasCompositePayload_def hasV5Payload_def
  hasV5OnlyPayload_def hasOutcomePayload_def

lemmas kind_validators =
  validate_base_row_def validate_base_cell_def validate_derived_def validate_outcome_def
  validate_predicate_atom_def validate_composite_def

lemma versioned_kind:
  assumes "FactID_Validate E f = None" and "isVersioned f"
  shows "fid_Product f = [] \<and> fid_ValueVersion f = [] \<and>
    (fid_Kind f \<in> {FactBaseRow, FactBaseCell, FactDerived} \<and> fid_Profile f = ProfileV2 \<or>
     fid_Kind f = FactOutcome \<and> fid_Profile f = ProfileV3 \<or>
     fid_Kind f \<in> {FactPredicateAtom, FactCompositeOutcome} \<and> fid_Profile f = ProfileV5)"
  using assms
  by (simp add: FactID_Validate_def validateVersioned_def kind_validators no_error split: if_splits)

subsection \<open>The payload determines the fact\<close>

lemma representableD:
  assumes "representable f"
  shows "\<And>s. s \<in> set (fact_strings f) \<Longrightarrow> framable s"
    and "framable (fid_SnapshotBundle f)"
    and "\<And>b. b \<in> set (fid_SnapshotBundle f) \<Longrightarrow> framable (sb_SourceNamespace b) \<and> framable (sb_Snapshot b)"
    and "in_int64 (fid_OutcomeRows f)" "in_int64 (fid_VisibleRows f)" "in_int64 (fid_PredicateAtomCount f)"
  using assms by (auto simp: representable_def)

lemma representable_strings:
  assumes "representable f"
  shows "list_all (\<lambda>s. framable s) (fact_strings f)"
  using assms by (simp add: representable_def list_all_iff)

lemma bundle_payload_inject:
  assumes "representable f" "representable g"
  shows "bundle_payload (sorted_bundle (fid_SnapshotBundle f)) @ u = bundle_payload (sorted_bundle (fid_SnapshotBundle g)) @ v
    \<longleftrightarrow> sorted_bundle (fid_SnapshotBundle f) = sorted_bundle (fid_SnapshotBundle g) \<and> u = v"
proof
  let ?f = "sorted_bundle (fid_SnapshotBundle f)" and ?g = "sorted_bundle (fid_SnapshotBundle g)"
  assume eq: "bundle_payload ?f @ u = bundle_payload ?g @ v"
  have "framable ?f" "framable ?g" using representableD(2) assms by simp_all
  then have "length ?f = length ?g"
    and "concat (map (\<lambda>b. frames [sb_SourceNamespace b, sb_Snapshot b]) ?f) @ u =
      concat (map (\<lambda>b. frames [sb_SourceNamespace b, sb_Snapshot b]) ?g) @ v"
    using eq by (simp_all add: bundle_payload_def big_endian_inject)
  then show "?f = ?g \<and> u = v"
    using representableD(3) [OF assms(1)] representableD(3) [OF assms(2)] bundle_append_inject [of ?f ?g u v]
    by simp
qed simp

lemma kind_payload_fields:
  assumes "representable f" "representable g" "fid_Kind f = fid_Kind g" "kind_payload f = kind_payload g"
  shows "fid_Kind g = FactBaseRow \<Longrightarrow>
      fid_SourceNamespace f = fid_SourceNamespace g \<and> fid_Snapshot f = fid_Snapshot g \<and> fid_EntityKey f = fid_EntityKey g"
    and "fid_Kind g = FactBaseCell \<Longrightarrow>
      fid_SourceNamespace f = fid_SourceNamespace g \<and> fid_Snapshot f = fid_Snapshot g \<and> fid_EntityKey f = fid_EntityKey g \<and>
      fid_Field f = fid_Field g \<and> fid_SQLType f = fid_SQLType g \<and> fid_CanonicalValue f = fid_CanonicalValue g"
    and "fid_Kind g = FactDerived \<Longrightarrow>
      sorted_bundle (fid_SnapshotBundle f) = sorted_bundle (fid_SnapshotBundle g) \<and> fid_OutputRowKey f = fid_OutputRowKey g \<and>
      fid_NormalizedExpression f = fid_NormalizedExpression g \<and> fid_SQLType f = fid_SQLType g \<and>
      fid_CanonicalValue f = fid_CanonicalValue g \<and> fid_WitnessCommitment f = fid_WitnessCommitment g"
    and "fid_Kind g = FactOutcome \<Longrightarrow>
      fid_QueryNormalFormVersion f = fid_QueryNormalFormVersion g \<and> fid_QueryNormalFormSHA256 f = fid_QueryNormalFormSHA256 g \<and>
      fid_OutcomeSHA256 f = fid_OutcomeSHA256 g \<and> fid_OutcomeRows f = fid_OutcomeRows g"
    and "fid_Kind g = FactPredicateAtom \<Longrightarrow>
      fid_AtomizerVersion f = fid_AtomizerVersion g \<and> fid_PredicateContextSHA256 f = fid_PredicateContextSHA256 g \<and>
      fid_SemanticProductID f = fid_SemanticProductID g \<and> fid_StableRole f = fid_StableRole g \<and>
      fid_PublicFieldID f = fid_PublicFieldID g \<and> fid_ResolvedExpressionSHA256 f = fid_ResolvedExpressionSHA256 g \<and>
      fid_SQLType f = fid_SQLType g \<and> fid_CollationName f = fid_CollationName g \<and>
      fid_CollationVersion f = fid_CollationVersion g \<and> fid_Operator f = fid_Operator g \<and>
      fid_CanonicalLiteral f = fid_CanonicalLiteral g"
    and "fid_Kind g = FactCompositeOutcome \<Longrightarrow>
      fid_QueryNormalFormVersion f = fid_QueryNormalFormVersion g \<and> fid_QueryNormalFormSHA256 f = fid_QueryNormalFormSHA256 g \<and>
      fid_ResultObservationSHA256 f = fid_ResultObservationSHA256 g \<and> fid_VisibleRows f = fid_VisibleRows g \<and>
      fid_PredicateProfileVersion f = fid_PredicateProfileVersion g \<and>
      fid_PredicateContextSHA256 f = fid_PredicateContextSHA256 g \<and> fid_PredicateSetSHA256 f = fid_PredicateSetSHA256 g \<and>
      fid_PredicateAtomCount f = fid_PredicateAtomCount g"
  using assms representable_strings [OF assms(1)] representable_strings [OF assms(2)]
    representableD(4-6) [OF assms(1)] representableD(4-6) [OF assms(2)]
  by (simp_all add: kind_payload_def fact_strings_def framing bundle_payload_inject)

text \<open>A valid versioned fact is the zero value with the fields of its kind set, and nothing else.\<close>

definition kind_fields :: "FactID \<Rightarrow> FactID" where
  "kind_fields f =
     (if fid_Kind f = FactBaseRow then zero_fact\<lparr>fid_SourceNamespace := fid_SourceNamespace f,
        fid_Snapshot := fid_Snapshot f, fid_EntityKey := fid_EntityKey f\<rparr>
      else if fid_Kind f = FactBaseCell then zero_fact\<lparr>fid_SourceNamespace := fid_SourceNamespace f,
        fid_Snapshot := fid_Snapshot f, fid_EntityKey := fid_EntityKey f, fid_Field := fid_Field f,
        fid_SQLType := fid_SQLType f, fid_CanonicalValue := fid_CanonicalValue f\<rparr>
      else if fid_Kind f = FactDerived then zero_fact\<lparr>fid_SnapshotBundle := fid_SnapshotBundle f,
        fid_OutputRowKey := fid_OutputRowKey f, fid_NormalizedExpression := fid_NormalizedExpression f,
        fid_SQLType := fid_SQLType f, fid_CanonicalValue := fid_CanonicalValue f,
        fid_WitnessCommitment := fid_WitnessCommitment f\<rparr>
      else if fid_Kind f = FactOutcome then zero_fact\<lparr>fid_QueryNormalFormVersion := fid_QueryNormalFormVersion f,
        fid_QueryNormalFormSHA256 := fid_QueryNormalFormSHA256 f, fid_OutcomeSHA256 := fid_OutcomeSHA256 f,
        fid_OutcomeRows := fid_OutcomeRows f\<rparr>
      else if fid_Kind f = FactPredicateAtom then zero_fact\<lparr>fid_AtomizerVersion := fid_AtomizerVersion f,
        fid_PredicateContextSHA256 := fid_PredicateContextSHA256 f, fid_SemanticProductID := fid_SemanticProductID f,
        fid_StableRole := fid_StableRole f, fid_PublicFieldID := fid_PublicFieldID f,
        fid_ResolvedExpressionSHA256 := fid_ResolvedExpressionSHA256 f, fid_SQLType := fid_SQLType f,
        fid_CollationName := fid_CollationName f, fid_CollationVersion := fid_CollationVersion f,
        fid_Operator := fid_Operator f, fid_CanonicalLiteral := fid_CanonicalLiteral f\<rparr>
      else zero_fact\<lparr>fid_QueryNormalFormVersion := fid_QueryNormalFormVersion f,
        fid_QueryNormalFormSHA256 := fid_QueryNormalFormSHA256 f,
        fid_ResultObservationSHA256 := fid_ResultObservationSHA256 f, fid_VisibleRows := fid_VisibleRows f,
        fid_PredicateProfileVersion := fid_PredicateProfileVersion f,
        fid_PredicateContextSHA256 := fid_PredicateContextSHA256 f,
        fid_PredicateSetSHA256 := fid_PredicateSetSHA256 f, fid_PredicateAtomCount := fid_PredicateAtomCount f\<rparr>)"

definition kind_shape :: "FactID \<Rightarrow> FactID" where
  "kind_shape f = (kind_fields f)\<lparr>fid_Kind := fid_Kind f, fid_Profile := fid_Profile f\<rparr>"

lemma valid_shape:
  assumes valid: "FactID_Validate E f = None" and versioned: "isVersioned f"
  shows "kind_shape f = f"
proof -
  note empty = valid [unfolded FactID_Validate_def if_P [OF versioned] validateVersioned_def kind_validators]
  note defs = kind_shape_def kind_fields_def zero_fact_def no_error payload_flags
  consider "fid_Kind f = FactBaseRow" | "fid_Kind f = FactBaseCell" | "fid_Kind f = FactDerived"
    | "fid_Kind f = FactOutcome" | "fid_Kind f = FactPredicateAtom" | "fid_Kind f = FactCompositeOutcome"
    using versioned_kind [OF valid versioned] by blast
  then show ?thesis using empty by cases (cases f; simp add: defs)+
qed

lemma versioned_payload_inject:
  assumes valid: "FactID_Validate E f = None" "FactID_Validate E g = None"
    and versioned: "isVersioned f" "isVersioned g"
    and rep: "representable f" "representable g"
    and eq: "frames [fid_Kind f, fid_Profile f] @ kind_payload f = frames [fid_Kind g, fid_Profile g] @ kind_payload g"
  shows "same_fact f g"
proof -
  have "framable (fid_Kind f)" "framable (fid_Kind g)" "framable (fid_Profile f)" "framable (fid_Profile g)"
    using rep by (simp_all add: representable_def fact_strings_def)
  with eq have kind: "fid_Kind f = fid_Kind g" and profile: "fid_Profile f = fid_Profile g"
    and payload: "kind_payload f = kind_payload g"
    by (simp_all add: framing)
  note fields = kind_payload_fields [OF rep kind payload]
  note defs = kind_shape_def kind_fields_def canonical_form_def
  consider "fid_Kind g = FactBaseRow" | "fid_Kind g = FactBaseCell" | "fid_Kind g = FactDerived"
    | "fid_Kind g = FactOutcome" | "fid_Kind g = FactPredicateAtom" | "fid_Kind g = FactCompositeOutcome"
    using versioned_kind [OF valid(2) versioned(2)] by blast
  then have "canonical_form (kind_shape f) = canonical_form (kind_shape g)"
    using fields kind profile by cases (simp add: defs)+
  then show ?thesis
    unfolding valid_shape [OF valid(1) versioned(1)] valid_shape [OF valid(2) versioned(2)] same_fact_def .
qed

lemma plain_v1_bundle:
  assumes "plain_v1 f"
  shows "fid_SnapshotBundle f = []"
proof -
  obtain p s e fd v where "f = zero_fact\<lparr>fid_Product := p, fid_Snapshot := s, fid_EntityKey := e, fid_Field := fd, fid_ValueVersion := v\<rparr>"
    using assms unfolding plain_v1_def by metis
  then show ?thesis by (simp add: zero_fact_def)
qed

lemma json_plain_v1:
  assumes "plain_v1 f" "FactID_Validate E f = None"
  shows "json_fact f = json_object
    [(''product'', json_string (fid_Product f)), (''snapshot'', json_string (fid_Snapshot f)),
     (''entity_key'', json_string (fid_EntityKey f)), (''field'', json_string (fid_Field f)),
     (''value_version'', json_string (fid_ValueVersion f))]"
proof -
  obtain p s e fd v where f: "f = zero_fact\<lparr>fid_Product := p, fid_Snapshot := s, fid_EntityKey := e, fid_Field := fd, fid_ValueVersion := v\<rparr>"
    using assms(1) unfolding plain_v1_def by metis
  have "\<not> isVersioned f" by (simp add: f isVersioned_def zero_fact_def)
  with assms(2) have "p \<noteq> []" "s \<noteq> []" "e \<noteq> []" "fd \<noteq> []" "v \<noteq> []"
    by (auto simp: FactID_Validate_def f zero_fact_def invalidToken_def no_error split: if_splits)
  then show ?thesis
    by (simp add: json_fact_def f zero_fact_def str_member_def int_member_def)
qed

lemma plain_v1_inject:
  assumes plain: "plain_v1 f" "plain_v1 g" and valid: "FactID_Validate E f = None" "FactID_Validate E g = None"
    and eq: "json_fact f = json_fact g"
  shows "f = g"
proof -
  have "fid_Product f = fid_Product g \<and> fid_Snapshot f = fid_Snapshot g \<and> fid_EntityKey f = fid_EntityKey g \<and>
      fid_Field f = fid_Field g \<and> fid_ValueVersion f = fid_ValueVersion g"
    using eq plain unfolding json_plain_v1 [OF plain(1) valid(1)] json_plain_v1 [OF plain(2) valid(2)]
    by (simp add: json_object_def json_string_append_inject json_string_inject plain_v1_def)
  with plain show ?thesis by (metis plain_v1_def)
qed

lemma length_fact_domains:
  "length factDomainV2 = 17" "length factDomainV3 = 17" "length factDomainV5 = 17"
  by (simp_all add: factDomainV2_def factDomainV3_def factDomainV5_def)

lemma fact_domains_distinct:
  "factDomainV2 \<noteq> factDomainV3" "factDomainV2 \<noteq> factDomainV5" "factDomainV3 \<noteq> factDomainV5"
  by (simp_all add: factDomainV2_def factDomainV3_def factDomainV5_def)

lemma fact_domains_hd:
  "hd factDomainV2 = of_nat 84" "hd factDomainV3 = of_nat 84" "hd factDomainV5 = of_nat 84"
  by code_simp+

text \<open>The domains keep the profiles apart: equal preimages come from facts of the same profile.\<close>

lemma preimage_profile:
  assumes "FactID_Validate E f = None" "FactID_Validate E g = None" "fact_preimage f = fact_preimage g"
  shows "isVersioned f = isVersioned g \<and> hash_domain f = hash_domain g"
proof -
  have versioned: "hash_domain h \<in> {factDomainV2, factDomainV3, factDomainV5} \<and> length (hash_domain h) = 17 \<and>
      hd (fact_preimage h) = of_nat 84"
    if "FactID_Validate E h = None" "isVersioned h" for h
  proof -
    have d: "hash_domain h \<in> {factDomainV2, factDomainV3, factDomainV5}"
      using versioned_kind [OF that] by (auto simp: hash_domain_def IsV2_def IsV3_def IsV5_def)
    then have "length (hash_domain h) = 17" by (auto simp: length_fact_domains)
    moreover from this have "hash_domain h \<noteq> []" by auto
    moreover have "hd (hash_domain h) = of_nat 84" using d fact_domains_hd by auto
    ultimately show ?thesis using d by (simp add: fact_preimage_def)
  qed
  have unversioned: "hash_domain h = [] \<and> hd (fact_preimage h) = of_nat 123" if "\<not> isVersioned h" for h
  proof -
    have "hash_domain h = []" using that by (simp add: hash_domain_def isVersioned_def IsV2_def IsV3_def IsV5_def)
    with that show ?thesis
      by (simp add: fact_preimage_def json_fact_def json_object_def bytes_of_def)
  qed
  have apart: "(of_nat 84 :: byte) \<noteq> of_nat 123" by simp
  show ?thesis
  proof (cases "isVersioned f"; cases "isVersioned g")
    assume "isVersioned f" "isVersioned g"
    with versioned [OF assms(1)] versioned [OF assms(2)] assms(3) show ?thesis
      by (simp add: fact_preimage_def append_eq_append_conv)
  qed (use versioned assms unversioned apart in metis)+
qed

lemma fact_preimage_inject:
  assumes valid: "FactID_Validate E f = None" "FactID_Validate E g = None" and ok: "fact_ok f" "fact_ok g"
  shows "fact_preimage f = fact_preimage g \<longleftrightarrow> same_fact f g"
proof
  assume eq: "fact_preimage f = fact_preimage g"
  from preimage_profile [OF valid eq] have *: "isVersioned f = isVersioned g" "hash_domain f = hash_domain g" by auto
  show "same_fact f g"
  proof (cases "isVersioned f")
    case True
    with * eq ok show ?thesis
      by (intro versioned_payload_inject [OF valid]) (simp_all add: fact_preimage_def fact_ok_def)
  next
    case False
    with * eq ok have "f = g"
      by (intro plain_v1_inject [OF _ _ valid]) (simp_all add: fact_preimage_def fact_ok_def)
    then show ?thesis by (simp add: same_fact_def)
  qed
next
  assume same: "same_fact f g"
  then have fields: "canonical_form f = canonical_form g" by (simp add: same_fact_def)
  have view: "fact_preimage h = fact_preimage (canonical_form h)" if "fact_ok h" for h
  proof (cases "isVersioned h")
    case True
    have "sorted_bundle (sorted_bundle bs) = sorted_bundle bs" for bs
      by (simp add: sorted_bundle_def sort_key_id_if_sorted)
    with True show ?thesis
      by (simp add: fact_preimage_def canonical_form_def hash_domain_def isVersioned_def kind_payload_def IsV2_def IsV3_def IsV5_def)
  next
    case False
    with that have "fid_SnapshotBundle h = []" by (simp add: fact_ok_def plain_v1_bundle)
    then have "canonical_form h = h" by (cases h) (simp add: canonical_form_def)
    then show ?thesis by simp
  qed
  show "fact_preimage f = fact_preimage g" using view ok fields by metis
qed

lemma FactID_Hash_preimage:
  "FactID_Hash E f = (case FactID_Validate E f of
     Some e \<Rightarrow> Inl e | None \<Rightarrow> Inr (hex_encode (env_sha256 E (fact_preimage f))))"
  by (simp add: FactID_Hash_def CanonicalPayload_def fact_preimage_def split: option.splits)

lemma canonical_sql_types_fixed: "\<forall>t\<in>set canonical_sql_types. canonical_type t"
  by code_simp

lemma frames_inject:
  assumes "length ss = length ts" and "\<forall>s\<in>set ss. framable s" and "\<forall>t\<in>set ts. framable t"
  shows "frames ss = frames ts \<longleftrightarrow> ss = ts"
  using assms by (induction ss ts rule: list_induct2) (auto simp: framing)

lemma key_preimage_inject:
  assumes "framable d" "framable e" "framable vs" "framable ws"
    and "\<forall>s\<in>set vs. framable s" "\<forall>s\<in>set ws. framable s"
  shows "key_preimage d vs = key_preimage e ws \<longleftrightarrow> d = e \<and> vs = ws"
proof
  assume "key_preimage d vs = key_preimage e ws"
  with assms(1-4) have "d = e" "length vs = length ws" "frames vs = frames ws"
    by (auto simp: key_preimage_def frame_string_append_inject big_endian_inject)
  with frames_inject [of vs ws] assms(5,6) show "d = e \<and> vs = ws" by simp
qed simp

section \<open>Properties\<close>


definition sample_env :: exposure_env where
  "sample_env = \<lparr>env_sha256 = (\<lambda>b. b), env_literal_ok = (\<lambda>_ _. True)\<rparr>"

definition sample_fact :: "go_string \<Rightarrow> FactID" where
  "sample_fact key = fst (NewBaseRowFactV2 sample_env ''sales.orders'' ''snap-1'' key)"

lemma sample_facts_ok:
  "FactID_Validate sample_env (sample_fact ''17'') = None" "FactID_Validate sample_env (sample_fact ''18'') = None"
  "fact_ok (sample_fact ''17'')" "fact_ok (sample_fact ''18'')"
  by code_simp+


text \<open>
  \<open>CanonicalSQLTypeV2\<close> erases aliases: whatever name it returns is canonical itself, one
  of the seventeen supported types, so that schema spelling cannot make a fresh fact.
\<close>

theorem CanonicalSQLTypeV2_idempotent:
  assumes "CanonicalSQLTypeV2 v = Inr t"
  shows "CanonicalSQLTypeV2 t = Inr t \<and> t \<in> set canonical_sql_types"
proof -
  from assms have "t \<in> set canonical_sql_types"
    by (auto simp: CanonicalSQLTypeV2_def Let_def split: if_splits)
  then show ?thesis using canonical_sql_types_fixed by (auto simp: canonical_type_def)
qed

theorem CanonicalSQLTypeV2_idempotent_witness:
  "CanonicalSQLTypeV2 ''bigint'' = Inr ''bigint'' \<and> ''bigint'' \<in> set canonical_sql_types"
proof -
  have "CanonicalSQLTypeV2 ''  INT8 '' = Inr ''bigint''" by code_simp
  from CanonicalSQLTypeV2_idempotent [OF this] show ?thesis .
qed

text \<open>
  \<open>ComposeCanonicalKeyV2\<close> commits to its domain and to the ordered tuple of values: two
  accepted calls return the same key exactly when domain and values agree, unless SHA-256 collides
  on the two byte strings.
\<close>

theorem ComposeCanonicalKeyV2_commits:
  assumes "ComposeCanonicalKeyV2 E d vs = Inr k" and "ComposeCanonicalKeyV2 E e ws = Inr l"
    and "\<forall>s\<in>set (d # e # vs @ ws). framable s" and "framable vs" and "framable ws"
  shows "k = l \<longleftrightarrow> (d = e \<and> vs = ws) \<or> collision (env_sha256 E) (key_preimage d vs) (key_preimage e ws)"
proof -
  have "k = hex_encode (env_sha256 E (key_preimage d vs))" "l = hex_encode (env_sha256 E (key_preimage e ws))"
    using assms(1,2) by (auto simp: ComposeCanonicalKeyV2_def split: if_splits)
  then show ?thesis
    using key_preimage_inject [of d e vs ws] assms(3-5) by (simp add: hash_equal_iff [symmetric])
qed

theorem ComposeCanonicalKeyV2_commits_witness:
  "\<exists>k l. ComposeCanonicalKeyV2 sample_env ''row'' [''a'', ''bc''] = Inr k \<and>
     ComposeCanonicalKeyV2 sample_env ''row'' [''ab'', ''c''] = Inr l \<and> k \<noteq> l"
proof -
  have "\<not> invalidToken ''row''" by code_simp
  then obtain k l where kl: "ComposeCanonicalKeyV2 sample_env ''row'' [''a'', ''bc''] = Inr k"
    "ComposeCanonicalKeyV2 sample_env ''row'' [''ab'', ''c''] = Inr l"
    by (simp add: ComposeCanonicalKeyV2_def)
  then show ?thesis
    using ComposeCanonicalKeyV2_commits [OF kl] by (auto simp: collision_def sample_env_def)
qed

end
