(* ===== verification/Exposure_Observation.thy ===== *)
theory Exposure_Observation
  imports Exposure_Fact "HOL-Library.Multiset"
begin

text \<open>
  Sets of facts and observations of \<open>internal/exposure\<close>: the collision-aware \<open>FactSet\<close>
  keyed by hash, the normalization of an observation (the exposure evidence of one query) that
  settlement relies on, the merge of observations, the digest of a set of predicate atoms and the
  attachment of outcome facts. A \<open>FactSet\<close> is always made by \<open>make\<close>, so it is never nil.
\<close>

section \<open>Definitions\<close>

subsection \<open>Sets of facts\<close>

type_synonym FactSet = "(go_string, FactID) go_map"

definition FactSet_Add :: "exposure_env \<Rightarrow> FactSet \<Rightarrow> FactID \<Rightarrow> exposure_error + FactSet" where
  "FactSet_Add E s f =
     (case FactID_Hash E f of
        Inl e \<Rightarrow> Inl e
      | Inr hash \<Rightarrow>
          (case map_of s hash of
             Some existing \<Rightarrow>
               (case (CanonicalPayload E existing, CanonicalPayload E f) of
                  (Inr left, Inr right) \<Rightarrow>
                    if left = right then Inr s else Inl (ExposureInvalid ''fact hash collision'')
                | _ \<Rightarrow> Inl (ExposureInvalid ''fact hash collision''))
           | None \<Rightarrow> Inr (map_put hash f s)))"

text \<open>The loop that adds facts until the first error; the set keeps what was added before it.\<close>

fun add_facts :: "exposure_env \<Rightarrow> FactSet \<Rightarrow> FactID list \<Rightarrow> FactSet \<times> exposure_error option" where
  "add_facts E s [] = (s, None)"
| "add_facts E s (f # fs) =
     (case FactSet_Add E s f of Inl e \<Rightarrow> (s, Some e) | Inr s' \<Rightarrow> add_facts E s' fs)"

definition NewFactSet :: "exposure_env \<Rightarrow> FactID list \<Rightarrow> exposure_error + FactSet" where
  "NewFactSet E facts = (case add_facts E [] facts of (s, None) \<Rightarrow> Inr s | (_, Some e) \<Rightarrow> Inl e)"

definition FactSet_MergeChecked :: "exposure_env \<Rightarrow> FactSet \<Rightarrow> FactSet \<Rightarrow> FactSet \<times> exposure_error option" where
  "FactSet_MergeChecked E s other = add_facts E s (map snd other)"

definition FactSet_Merge :: "exposure_env \<Rightarrow> FactSet \<Rightarrow> FactSet \<Rightarrow> FactSet" where
  "FactSet_Merge E s other = fst (FactSet_MergeChecked E s other)"

definition FactSet_Values :: "FactSet \<Rightarrow> FactID list" where
  "FactSet_Values s = map (\<lambda>hash. the (map_of s hash)) (sort (map fst s))"

subsection \<open>The digest of a set of predicate atoms\<close>

text \<open>The bytes whose hexadecimal text is \<open>FactID.Hash\<close>.\<close>

definition FactID_digest :: "exposure_env \<Rightarrow> FactID \<Rightarrow> exposure_error + byte list" where
  "FactID_digest E f =
     (case CanonicalPayload E f of Inl e \<Rightarrow> Inl e | Inr payload \<Rightarrow> Inr (env_sha256 E (hash_domain f @ payload)))"

fun atom_members ::
  "exposure_env \<Rightarrow> (byte list, byte list) go_map \<Rightarrow> FactID list \<Rightarrow> exposure_error + (byte list, byte list) go_map" where
  "atom_members E members [] = Inr members"
| "atom_members E members (atom # atoms) =
     (if fid_Profile atom \<noteq> ProfileV5 \<or> fid_Kind atom \<noteq> FactPredicateAtom
        then Inl (ExposureInvalid ''predicate set contains a non-atom fact'')
      else (case (FactID_digest E atom, CanonicalPayload E atom) of
          (Inr hash, Inr payload) \<Rightarrow>
            (case map_of members hash of
               Some existing \<Rightarrow>
                 if existing \<noteq> payload then Inl (ExposureInvalid ''predicate atom SHA-256 collision'')
                 else atom_members E (map_put hash payload members) atoms
             | None \<Rightarrow> atom_members E (map_put hash payload members) atoms)
        | (Inl e, _) \<Rightarrow> Inl e
        | (_, Inl e) \<Rightarrow> Inl e))"

definition predicate_set_preimage :: "byte list list \<Rightarrow> byte list" where
  "predicate_set_preimage hashes = predicateSetDomainV1 @ big_endian 8 (length hashes) @ concat hashes"

definition PredicateSetHashV1 :: "exposure_env \<Rightarrow> FactID list \<Rightarrow> exposure_error + go_string" where
  "PredicateSetHashV1 E atoms =
     (case atom_members E [] atoms of
        Inl e \<Rightarrow> Inl e
      | Inr members \<Rightarrow> Inr (hex_encode (env_sha256 E (predicate_set_preimage (sort (map fst members))))))"

subsection \<open>Observations\<close>

record Observation =
  ob_ProfileVersion :: go_string
  ob_Release :: "FactID list"
  ob_Influence :: "FactID list"
  ob_Outcome :: "FactID list"

definition v2_family :: "go_string \<Rightarrow> bool" where
  "v2_family p \<longleftrightarrow> p = ProfileV2 \<or> p = ProfileV3 \<or> p = ProfileV4 \<or> p = ProfileV5"

text \<open>The check of one release or influence fact against the profile of the observation.\<close>

definition check_footprint_fact :: "go_string \<Rightarrow> FactID \<Rightarrow> exposure_error option" where
  "check_footprint_fact p f =
     (if v2_family p \<and> \<not> IsV2 f
        then Some (ExposureInvalid ''release or influence set contains a non-V2 fact'')
      else if \<not> v2_family p \<and> isVersioned f then Some (ExposureInvalid ''V2 fact cannot enter profile'')
      else None)"

text \<open>The loop that separates the atoms of a V5 outcome from its one composite.\<close>

fun split_v5_outcome :: "FactID list \<Rightarrow> FactID option \<Rightarrow> FactID list \<Rightarrow> exposure_error + FactID list \<times> FactID option" where
  "split_v5_outcome atoms composite [] = Inr (atoms, composite)"
| "split_v5_outcome atoms composite (f # facts) =
     (if IsV5 f \<and> fid_Kind f = FactPredicateAtom then split_v5_outcome (atoms @ [f]) composite facts
      else if IsV5 f \<and> fid_Kind f = FactCompositeOutcome \<and> composite = None
        then split_v5_outcome atoms (Some f) facts
      else Inl (ExposureInvalid ''V5 outcome requires predicate atoms and exactly one composite''))"

definition check_v5_outcome :: "exposure_env \<Rightarrow> FactID list \<Rightarrow> exposure_error option" where
  "check_v5_outcome E outcome =
     (case split_v5_outcome [] None outcome of
        Inl e \<Rightarrow> Some e
      | Inr (atoms, None) \<Rightarrow> Some (ExposureInvalid ''V5 outcome cardinality is not atoms plus one composite'')
      | Inr (atoms, Some composite) \<Rightarrow>
          (if length outcome \<noteq> length atoms + 1 \<or> fid_PredicateAtomCount composite \<noteq> int (length atoms)
             then Some (ExposureInvalid ''V5 outcome cardinality is not atoms plus one composite'')
           else if PredicateSetHashV1 E atoms \<noteq> Inr (fid_PredicateSetSHA256 composite)
             then Some (ExposureInvalid ''V5 composite predicate set binding mismatch'')
           else first_error (\<lambda>atom. if fid_PredicateContextSHA256 atom \<noteq> fid_PredicateContextSHA256 composite
               then Some (ExposureInvalid ''V5 atom/composite context mismatch'') else None) atoms))"

definition check_legacy_outcome :: "go_string \<Rightarrow> FactID \<Rightarrow> exposure_error option" where
  "check_legacy_outcome p f =
     (if (p \<noteq> ProfileV3 \<and> p \<noteq> ProfileV4) \<or> \<not> IsV3 f \<or> fid_Kind f \<noteq> FactOutcome
        then Some (ExposureInvalid ''outcome facts require profile'') else None)"

definition check_sets :: "exposure_env \<Rightarrow> go_string \<Rightarrow> FactSet \<Rightarrow> FactSet \<Rightarrow> FactSet \<Rightarrow> exposure_error option" where
  "check_sets E p release influence outcome =
     (case first_error (check_footprint_fact p) (map snd release @ map snd influence) of
        Some e \<Rightarrow> Some e
      | None \<Rightarrow>
          (case (if p = ProfileV5 then check_v5_outcome E (map snd outcome)
                 else first_error (check_legacy_outcome p) (map snd outcome)) of
             Some e \<Rightarrow> Some e
           | None \<Rightarrow>
               if p \<noteq> ProfileV3 \<and> p \<noteq> ProfileV4 \<and> p \<noteq> ProfileV5 \<and> length outcome \<noteq> 0
                 then Some (ExposureInvalid ''profile cannot carry outcome facts'') else None))"

definition Normalize :: "exposure_env \<Rightarrow> Observation \<Rightarrow> exposure_error + Observation" where
  "Normalize E ob =
     (if invalidToken (ob_ProfileVersion ob) then Inl (ExposureInvalid ''profile_version is required'')
      else (case NewFactSet E (ob_Release ob) of Inl e \<Rightarrow> Inl e
      | Inr release \<Rightarrow> (case NewFactSet E (ob_Influence ob) of Inl e \<Rightarrow> Inl e
      | Inr influence \<Rightarrow> (case NewFactSet E (ob_Outcome ob) of Inl e \<Rightarrow> Inl e
      | Inr outcome \<Rightarrow>
          (case check_sets E (ob_ProfileVersion ob) release influence outcome of
             Some e \<Rightarrow> Inl e
           | None \<Rightarrow> Inr \<lparr>ob_ProfileVersion = ob_ProfileVersion ob, ob_Release = FactSet_Values release,
               ob_Influence = FactSet_Values influence, ob_Outcome = FactSet_Values outcome\<rparr>)))))"

text \<open>
  \<open>MergeObservations\<close>: the sets of the normalized observations are added one after the other.
  The error of rebuilding a normalized set is ignored by the source; it cannot occur.
\<close>

definition rebuilt_set :: "exposure_env \<Rightarrow> FactID list \<Rightarrow> FactSet" where
  "rebuilt_set E fs = (case NewFactSet E fs of Inr s \<Rightarrow> s | Inl _ \<Rightarrow> [])"

fun merge_loop ::
  "exposure_env \<Rightarrow> go_string \<Rightarrow> FactSet \<Rightarrow> FactSet \<Rightarrow> FactSet \<Rightarrow> Observation list \<Rightarrow>
     exposure_error + FactSet \<times> FactSet \<times> FactSet" where
  "merge_loop E p release influence outcome [] = Inr (release, influence, outcome)"
| "merge_loop E p release influence outcome (ob # obs) =
     (case Normalize E ob of Inl e \<Rightarrow> Inl e
      | Inr n \<Rightarrow>
        if ob_ProfileVersion n \<noteq> p then Inl (ExposureInvalid ''mixed exposure profiles'')
        else (case FactSet_MergeChecked E release (rebuilt_set E (ob_Release n)) of (_, Some e) \<Rightarrow> Inl e
        | (release', None) \<Rightarrow> (case FactSet_MergeChecked E influence (rebuilt_set E (ob_Influence n)) of (_, Some e) \<Rightarrow> Inl e
        | (influence', None) \<Rightarrow> (case FactSet_MergeChecked E outcome (rebuilt_set E (ob_Outcome n)) of (_, Some e) \<Rightarrow> Inl e
        | (outcome', None) \<Rightarrow> merge_loop E p release' influence' outcome' obs))))"

definition MergeObservations :: "exposure_env \<Rightarrow> go_string \<Rightarrow> Observation list \<Rightarrow> exposure_error + Observation" where
  "MergeObservations E profile obs =
     (case merge_loop E profile [] [] [] obs of
        Inl e \<Rightarrow> Inl e
      | Inr (release, influence, outcome) \<Rightarrow>
          Inr \<lparr>ob_ProfileVersion = profile, ob_Release = FactSet_Values release,
            ob_Influence = FactSet_Values influence, ob_Outcome = FactSet_Values outcome\<rparr>)"

definition json_observation :: "Observation \<Rightarrow> go_string" where
  "json_observation ob = json_object
     ([(''profile_version'', json_string (ob_ProfileVersion ob)),
       (''release'', json_array (map json_fact (ob_Release ob))),
       (''influence'', json_array (map json_fact (ob_Influence ob)))] @
      (if ob_Outcome ob = [] then [] else [(''outcome'', json_array (map json_fact (ob_Outcome ob)))]))"

definition ObservationDigest :: "exposure_env \<Rightarrow> Observation \<Rightarrow> exposure_error + go_string" where
  "ObservationDigest E ob =
     (case Normalize E ob of Inl e \<Rightarrow> Inl e
      | Inr n \<Rightarrow> Inr (hex_encode (env_sha256 E (bytes_of (json_observation n)))))"

subsection \<open>Outcome facts\<close>

definition outcomeDigestDomainV1 :: "byte list" where
  "outcomeDigestDomainV1 = bytes_of ''TASKGATE-OUTCOME-DIGEST-V1'' @ [0]"

text \<open>The loop over the release facts, in the order of their hashes, that collects the payloads.\<close>

fun release_payloads :: "exposure_env \<Rightarrow> FactID list \<Rightarrow> exposure_error + byte list list" where
  "release_payloads E [] = Inr []"
| "release_payloads E (f # fs) =
     (if \<not> IsV2 f then Inl (ExposureInvalid ''outcome release set contains a non-V2 fact'')
      else (case CanonicalPayload E f of Inl e \<Rightarrow> Inl e
        | Inr payload \<Rightarrow> (case release_payloads E fs of Inl e \<Rightarrow> Inl e | Inr ps \<Rightarrow> Inr (payload # ps))))"

definition outcome_preimage :: "int64 \<Rightarrow> byte list list \<Rightarrow> byte list" where
  "outcome_preimage visibleRows payloads =
     outcomeDigestDomainV1 @ canonical_uint64 visibleRows @ big_endian 8 (length payloads) @ concat (map frame payloads)"

definition ReleaseOutcomeDigest :: "exposure_env \<Rightarrow> FactID list \<Rightarrow> int64 \<Rightarrow> exposure_error + go_string" where
  "ReleaseOutcomeDigest E release visibleRows =
     (if visibleRows < 0 then Inl (ExposureInvalid ''visible row count cannot be negative'')
      else (case NewFactSet E release of Inl e \<Rightarrow> Inl e
        | Inr s \<Rightarrow> (case release_payloads E (FactSet_Values s) of Inl e \<Rightarrow> Inl e
          | Inr payloads \<Rightarrow> Inr (hex_encode (env_sha256 E (outcome_preimage visibleRows payloads))))))"

definition attachOutcome ::
  "exposure_env \<Rightarrow> Observation \<Rightarrow> go_string \<Rightarrow> go_string \<Rightarrow> go_string \<Rightarrow> int64 \<Rightarrow> exposure_error + Observation" where
  "attachOutcome E ob targetProfile normalFormVersion normalFormSHA256 visibleRows =
     (if ob_ProfileVersion ob \<noteq> ProfileV2
        then Inl (ExposureInvalid ''outcome attachment requires a V2 observation'')
      else if targetProfile \<noteq> ProfileV3 \<and> targetProfile \<noteq> ProfileV4
        then Inl (ExposureInvalid ''unsupported outcome observation profile'')
      else if visibleRows < 0 then Inl (ExposureInvalid ''visible row count cannot be negative'')
      else (case Normalize E ob of Inl e \<Rightarrow> Inl e
      | Inr normalized \<Rightarrow> (case ReleaseOutcomeDigest E (ob_Release normalized) visibleRows of Inl e \<Rightarrow> Inl e
      | Inr digest \<Rightarrow> (case NewOutcomeFactV3 E normalFormVersion normalFormSHA256 digest visibleRows of
          (_, Some e) \<Rightarrow> Inl e
        | (f, None) \<Rightarrow>
            Normalize E \<lparr>ob_ProfileVersion = targetProfile, ob_Release = ob_Release normalized,
              ob_Influence = ob_Influence normalized, ob_Outcome = [f]\<rparr>))))"

definition AttachOutcomeV3 ::
  "exposure_env \<Rightarrow> Observation \<Rightarrow> go_string \<Rightarrow> go_string \<Rightarrow> int64 \<Rightarrow> exposure_error + Observation" where
  "AttachOutcomeV3 E ob v h n = attachOutcome E ob ProfileV3 v h n"

definition AttachOutcomeV4 ::
  "exposure_env \<Rightarrow> Observation \<Rightarrow> go_string \<Rightarrow> go_string \<Rightarrow> int64 \<Rightarrow> exposure_error + Observation" where
  "AttachOutcomeV4 E ob v h n = attachOutcome E ob ProfileV4 v h n"

subsection \<open>Specification\<close>

text \<open>
  The hash a valid fact has, the invariant of a \<open>FactSet\<close> (keyed by the hash of its own,
  valid members), and when a collection of facts can be put into one: every fact is valid and no
  two of them share a hash without sharing the payload.
\<close>

definition hash_of :: "exposure_env \<Rightarrow> FactID \<Rightarrow> go_string" where
  "hash_of E f = hex_encode (env_sha256 E (fact_preimage f))"

definition fact_hashes :: "exposure_env \<Rightarrow> FactID list \<Rightarrow> go_string set" where
  "fact_hashes E fs = hash_of E ` set fs"

definition set_ok :: "exposure_env \<Rightarrow> FactSet \<Rightarrow> bool" where
  "set_ok E s \<longleftrightarrow> go_map_ok s \<and> (\<forall>(h, f)\<in>set s. FactID_Validate E f = None \<and> h = hash_of E f)"

definition agrees :: "exposure_env \<Rightarrow> FactID \<Rightarrow> FactID \<Rightarrow> bool" where
  "agrees E f g \<longleftrightarrow> (hash_of E f = hash_of E g \<longrightarrow> CanonicalPayload E f = CanonicalPayload E g)"

definition compatible :: "exposure_env \<Rightarrow> FactID set \<Rightarrow> bool" where
  "compatible E F \<longleftrightarrow> (\<forall>f\<in>F. FactID_Validate E f = None) \<and>
     (\<forall>f\<in>F. \<forall>g\<in>F. agrees E f g)"

definition ascending_hashes :: "exposure_env \<Rightarrow> FactID list \<Rightarrow> bool" where
  "ascending_hashes E fs \<longleftrightarrow> sorted_wrt (\<lambda>f g. hash_of E f < hash_of E g) fs"

definition payload_of :: "FactID \<Rightarrow> byte list" where
  "payload_of f = (if \<not> isVersioned f then bytes_of (json_fact f)
     else frames [fid_Kind f, fid_Profile f] @ kind_payload f)"

definition digest_of :: "exposure_env \<Rightarrow> FactID \<Rightarrow> byte list" where
  "digest_of E f = env_sha256 E (fact_preimage f)"

definition represents :: "exposure_env \<Rightarrow> (byte list, byte list) go_map \<Rightarrow> FactID set \<Rightarrow> bool" where
  "represents E ms D \<longleftrightarrow> go_map_ok ms \<and> fst ` set ms = digest_of E ` D \<and>
     (\<forall>f\<in>D. map_of ms (digest_of E f) = Some (payload_of f))"

definition is_atom :: "FactID \<Rightarrow> bool" where
  "is_atom f \<longleftrightarrow> IsV5 f \<and> fid_Kind f = FactPredicateAtom"

definition is_composite :: "FactID \<Rightarrow> bool" where
  "is_composite f \<longleftrightarrow> IsV5 f \<and> fid_Kind f = FactCompositeOutcome"

definition normal_dimension :: "exposure_env \<Rightarrow> FactID list \<Rightarrow> FactID list \<Rightarrow> bool" where
  "normal_dimension E fs ns \<longleftrightarrow>
     ascending_hashes E ns \<and> fact_hashes E ns = fact_hashes E fs \<and> set ns \<subseteq> set fs"

text \<open>The hashes of one dimension over a list of observations.\<close>

definition union_hashes :: "exposure_env \<Rightarrow> (Observation \<Rightarrow> FactID list) \<Rightarrow> Observation list \<Rightarrow> go_string set" where
  "union_hashes E dim obs = (\<Union>ob\<in>set obs. fact_hashes E (dim ob))"

text \<open>The payloads hashed for the outcome digest, in the order of the fact hashes.\<close>

definition release_list :: "exposure_env \<Rightarrow> FactID list \<Rightarrow> byte list list" where
  "release_list E fs = map payload_of (FactSet_Values (rebuilt_set E fs))"

section \<open>Lemmas\<close>

subsection \<open>Building a set\<close>

lemma agrees_refl [simp]: "agrees E f f"
  by (simp add: agrees_def)

lemma agrees_sym: "agrees E f g \<longleftrightarrow> agrees E g f"
  by (auto simp: agrees_def)

lemma agrees_same:
  assumes "hash_of E f = hash_of E g" "CanonicalPayload E f = CanonicalPayload E g"
  shows "agrees E f = agrees E g"
  by (simp add: agrees_def assms fun_eq_iff)

lemma map_put_new: "k \<notin> fst ` set m \<Longrightarrow> map_put k v m = m @ [(k, v)]"
  by (induction m) auto

lemma Hash_Inr_iff: "FactID_Hash E f = Inr h \<longleftrightarrow> FactID_Validate E f = None \<and> h = hash_of E f"
  by (auto simp: FactID_Hash_preimage hash_of_def split: option.splits)

lemma CanonicalPayload_valid: "FactID_Validate E f = None \<Longrightarrow> \<exists>p. CanonicalPayload E f = Inr p"
  by (simp add: CanonicalPayload_def)

lemma Hash_invalid: "FactID_Validate E f \<noteq> None \<Longrightarrow> \<exists>e. FactID_Hash E f = Inl e"
  by (auto simp: FactID_Hash_preimage)

lemma set_ok_entry:
  assumes "set_ok E s"
  shows "f \<in> snd ` set s \<longleftrightarrow> map_of s (hash_of E f) = Some f"
proof
  assume "f \<in> snd ` set s"
  then obtain h where "(h, f) \<in> set s" by auto
  with assms show "map_of s (hash_of E f) = Some f"
    by (auto simp: set_ok_def map_of_eq_Some_iff dest: bspec)
qed (force dest: map_of_SomeD)

lemma set_ok_valid: "set_ok E s \<Longrightarrow> f \<in> snd ` set s \<Longrightarrow> FactID_Validate E f = None"
  by (auto simp: set_ok_def)

lemma set_ok_lookup:
  "set_ok E s \<Longrightarrow> map_of s h = Some f \<Longrightarrow> FactID_Validate E f = None \<and> h = hash_of E f \<and> f \<in> snd ` set s"
  unfolding set_ok_def by (force dest: map_of_SomeD)

lemma FactSet_Add_cases:
  assumes "set_ok E s"
  shows "FactSet_Add E s f =
    (case FactID_Validate E f of
       Some e \<Rightarrow> Inl e
     | None \<Rightarrow> (case map_of s (hash_of E f) of
         None \<Rightarrow> Inr (s @ [(hash_of E f, f)])
       | Some g \<Rightarrow> if CanonicalPayload E g = CanonicalPayload E f then Inr s
                   else Inl (ExposureInvalid ''fact hash collision'')))"
proof (cases "FactID_Validate E f")
  case None
  then have h: "FactID_Hash E f = Inr (hash_of E f)" by (simp add: Hash_Inr_iff)
  show ?thesis
  proof (cases "map_of s (hash_of E f)")
    case None': None
    then have "map_put (hash_of E f) f s = s @ [(hash_of E f, f)]"
      by (intro map_put_new) (simp add: map_of_eq_None_iff)
    with None None' h show ?thesis by (simp add: FactSet_Add_def)
  next
    case (Some g)
    with assms None obtain p q where "CanonicalPayload E g = Inr p" "CanonicalPayload E f = Inr q"
      by (meson CanonicalPayload_valid set_ok_lookup)
    with Some None h show ?thesis by (simp add: FactSet_Add_def)
  qed
qed (simp add: FactSet_Add_def FactID_Hash_preimage)

lemma set_ok_Nil [simp]: "set_ok E []"
  by (simp add: set_ok_def)

lemma FactSet_Add_Inr:
  assumes "set_ok E s" "FactSet_Add E s f = Inr s'"
  shows "FactID_Validate E f = None \<and>
    (map_of s (hash_of E f) = None \<and> s' = s @ [(hash_of E f, f)] \<or>
     (\<exists>g. map_of s (hash_of E f) = Some g \<and> CanonicalPayload E g = CanonicalPayload E f \<and> s' = s))"
  using assms(2) by (auto simp: FactSet_Add_cases [OF assms(1)] split: option.splits if_splits)

lemma FactSet_Add_ok:
  assumes "set_ok E s" "FactSet_Add E s f = Inr s'"
  shows "set_ok E s'" "fst ` set s' = insert (hash_of E f) (fst ` set s)"
    "snd ` set s \<subseteq> snd ` set s'" "snd ` set s' \<subseteq> insert f (snd ` set s)"
proof -
  consider "FactID_Validate E f = None" "hash_of E f \<notin> fst ` set s" "s' = s @ [(hash_of E f, f)]"
    | "hash_of E f \<in> fst ` set s" "s' = s"
    using FactSet_Add_Inr [OF assms] map_of_eq_None_iff [of s "hash_of E f"] by fastforce
  then show "set_ok E s'" "fst ` set s' = insert (hash_of E f) (fst ` set s)"
    "snd ` set s \<subseteq> snd ` set s'" "snd ` set s' \<subseteq> insert f (snd ` set s)"
    using assms(1) by (cases; simp add: set_ok_def insert_absorb; blast)+
qed

lemma compatible_insert_same:
  assumes "g \<in> F" "FactID_Validate E f = None" "hash_of E f = hash_of E g"
    "CanonicalPayload E f = CanonicalPayload E g"
  shows "compatible E (insert f F) = compatible E F"
  using assms(1,2) agrees_same [OF assms(3,4)] agrees_sym [of E _ f] by (auto simp: compatible_def)

lemma compatible_mono: "compatible E F \<Longrightarrow> G \<subseteq> F \<Longrightarrow> compatible E G"
  unfolding compatible_def by blast

lemma add_facts_main:
  assumes "set_ok E s"
  shows "if compatible E (snd ` set s \<union> set fs)
    then \<exists>s'. add_facts E s fs = (s', None) \<and> set_ok E s' \<and> fst ` set s' = fst ` set s \<union> fact_hashes E fs \<and>
      snd ` set s \<subseteq> snd ` set s' \<and> snd ` set s' \<subseteq> snd ` set s \<union> set fs
    else \<exists>s' e. add_facts E s fs = (s', Some e) \<and> set_ok E s'"
  using assms
proof (induction fs arbitrary: s)
  case Nil
  have "compatible E (snd ` set s)"
    unfolding compatible_def agrees_def using set_ok_entry [OF Nil] set_ok_valid [OF Nil]
    by (metis option.inject)
  with Nil show ?case by (simp add: fact_hashes_def)
next
  case (Cons f fs)
  note cases = FactSet_Add_cases [OF Cons.prems, of f]
  show ?case
  proof (cases "FactSet_Add E s f")
    case (Inl e)
    have "\<not> compatible E (snd ` set s \<union> set (f # fs))"
    proof
      assume comp: "compatible E (snd ` set s \<union> set (f # fs))"
      then have "FactID_Validate E f = None" by (simp add: compatible_def)
      with Inl cases obtain g where g: "map_of s (hash_of E f) = Some g"
        "CanonicalPayload E g \<noteq> CanonicalPayload E f"
        by (auto split: option.splits if_splits)
      with set_ok_lookup [OF Cons.prems g(1)] comp show False by (auto simp: compatible_def agrees_def)
    qed
    with Inl Cons.prems show ?thesis by simp
  next
    case (Inr s')
    note add = FactSet_Add_ok [OF Cons.prems Inr]
    have same: "compatible E (snd ` set s \<union> set (f # fs)) = compatible E (snd ` set s' \<union> set fs)"
    proof (cases "map_of s (hash_of E f)")
      case None
      with Inr cases have "s' = s @ [(hash_of E f, f)]" by (auto split: option.splits)
      then show ?thesis by simp
    next
      case (Some g)
      with Inr cases have "s' = s" "FactID_Validate E f = None" "CanonicalPayload E g = CanonicalPayload E f"
        by (auto split: option.splits if_splits)
      with set_ok_lookup [OF Cons.prems Some] show ?thesis
        by (simp add: compatible_insert_same [of g])
    qed
    have "add_facts E s (f # fs) = add_facts E s' fs" using Inr by simp
    show ?thesis
    proof (cases "compatible E (snd ` set s' \<union> set fs)")
      case True
      with \<open>add_facts E s (f # fs) = _\<close> Cons.IH [OF add(1)] obtain t where
        t: "add_facts E s (f # fs) = (t, None)" "set_ok E t" "fst ` set t = fst ` set s' \<union> fact_hashes E fs"
          "snd ` set s' \<subseteq> snd ` set t" "snd ` set t \<subseteq> snd ` set s' \<union> set fs" by auto
      have "fst ` set t = fst ` set s \<union> fact_hashes E (f # fs)"
        by (simp add: t(3) add(2) fact_hashes_def)
      moreover have "snd ` set s \<subseteq> snd ` set t" "snd ` set t \<subseteq> snd ` set s \<union> set (f # fs)"
        using order_trans [OF add(3) t(4)] order_trans [OF t(5) Un_mono [OF add(4) order_refl [of "set fs"]]]
        by simp_all
      ultimately show ?thesis unfolding same using True t(1,2) by auto
    next
      case False
      with \<open>add_facts E s (f # fs) = _\<close> Cons.IH [OF add(1)] show ?thesis unfolding same by simp
    qed
  qed
qed

lemma NewFactSet_main:
  "if compatible E (set fs)
   then \<exists>s. NewFactSet E fs = Inr s \<and> set_ok E s \<and> fst ` set s = fact_hashes E fs \<and> snd ` set s \<subseteq> set fs
   else \<exists>e. NewFactSet E fs = Inl e"
  using add_facts_main [OF set_ok_Nil, of E fs] by (auto simp: NewFactSet_def split: if_splits)

lemma NewFactSet_Inr:
  assumes "NewFactSet E fs = Inr s"
  shows "compatible E (set fs)" "set_ok E s" "fst ` set s = fact_hashes E fs" "snd ` set s \<subseteq> set fs"
  using NewFactSet_main [of E fs] assms by (auto split: if_splits)

subsection \<open>The list of a set\<close>

lemma ascending_hashes_map: "ascending_hashes E fs \<longleftrightarrow> sorted_wrt (<) (map (hash_of E) fs)"
  by (simp add: ascending_hashes_def sorted_wrt_map)

lemma FactSet_Values_ok:
  assumes "set_ok E s"
  shows "map (hash_of E) (FactSet_Values s) = sort (map fst s)"
    "set (FactSet_Values s) = snd ` set s" "ascending_hashes E (FactSet_Values s)"
    "length (FactSet_Values s) = length s"
proof -
  have entry: "\<exists>f. map_of s h = Some f \<and> hash_of E f = h" if "h \<in> set (map fst s)" for h
    using that assms by (fastforce simp: set_ok_def go_map_entry [symmetric])
  then show m: "map (hash_of E) (FactSet_Values s) = sort (map fst s)"
    unfolding FactSet_Values_def map_map
    by (intro map_idI) (use entry in fastforce)
  have "distinct (sort (map fst s))" using assms by (simp add: set_ok_def)
  then show "ascending_hashes E (FactSet_Values s)"
    by (simp add: ascending_hashes_map m strict_sorted_iff)
  show "set (FactSet_Values s) = snd ` set s"
  proof -
    have "set (FactSet_Values s) = (\<lambda>h. the (map_of s h)) ` fst ` set s"
      by (simp add: FactSet_Values_def)
    also have "\<dots> = snd ` set s"
    proof (rule set_eqI)
      fix f
      have "f \<in> (\<lambda>h. the (map_of s h)) ` fst ` set s \<longleftrightarrow> (\<exists>h\<in>set (map fst s). the (map_of s h) = f)" by auto
      also have "\<dots> \<longleftrightarrow> map_of s (hash_of E f) = Some f"
        using entry by (metis domI dom_map_of_conv_image_fst list.set_map option.sel)
      finally show "f \<in> (\<lambda>h. the (map_of s h)) ` fst ` set s \<longleftrightarrow> f \<in> snd ` set s"
        by (simp add: set_ok_entry [OF assms])
    qed
    finally show ?thesis .
  qed
  show "length (FactSet_Values s) = length s" by (simp add: FactSet_Values_def)
qed

lemma set_ok_inj: "set_ok E s \<Longrightarrow> inj_on (hash_of E) (snd ` set s)"
  by (rule inj_onI) (metis option.inject set_ok_entry)

lemma set_ok_keys: "set_ok E s \<Longrightarrow> fst ` set s = hash_of E ` snd ` set s"
  by (force simp: set_ok_def image_image)

lemma FactSet_Values_determined:
  assumes "set_ok E s" "set_ok E t" "snd ` set s = snd ` set t"
  shows "FactSet_Values s = FactSet_Values t"
proof -
  have keys: "sort (map fst s) = sort (map fst t)"
    using assms set_ok_keys [OF assms(1)] set_ok_keys [OF assms(2)]
    by (intro sorted_distinct_set_unique) (auto simp: set_ok_def)
  have "map_of s h = map_of t h" if "h \<in> fst ` set s" for h
    using that set_ok_entry [OF assms(1)] set_ok_entry [OF assms(2)] assms(3) set_ok_keys [OF assms(1)]
    by (metis imageE)
  then show ?thesis unfolding FactSet_Values_def keys [symmetric] by simp
qed

lemma NewFactSet_inj:
  assumes "inj_on (hash_of E) (set fs)" "\<forall>f\<in>set fs. FactID_Validate E f = None"
  shows "\<exists>s. NewFactSet E fs = Inr s \<and> set_ok E s \<and> snd ` set s = set fs"
proof -
  have "compatible E (set fs)"
    using assms unfolding compatible_def agrees_def by (auto dest: inj_onD)
  then obtain s where s: "NewFactSet E fs = Inr s" "set_ok E s" "fst ` set s = fact_hashes E fs" "snd ` set s \<subseteq> set fs"
    using NewFactSet_main [of E fs] by auto
  have "set fs \<subseteq> snd ` set s"
  proof
    fix f assume f: "f \<in> set fs"
    then have "hash_of E f \<in> hash_of E ` snd ` set s"
      using s(3) set_ok_keys [OF s(2)] by (simp add: fact_hashes_def)
    then obtain g where "g \<in> snd ` set s" "hash_of E f = hash_of E g" by blast
    with assms(1) f s(4) show "f \<in> snd ` set s" by (metis inj_onD subsetD)
  qed
  with s show ?thesis by blast
qed

lemma NewFactSet_Values:
  assumes "set_ok E s"
  shows "\<exists>t. NewFactSet E (FactSet_Values s) = Inr t \<and> set_ok E t \<and> snd ` set t = snd ` set s"
  using NewFactSet_inj [of E "FactSet_Values s"] FactSet_Values_ok(2) [OF assms] set_ok_inj [OF assms]
    set_ok_valid [OF assms] by simp

subsection \<open>Predicate sets\<close>

lemma CanonicalPayload_payload_of: "FactID_Validate E f = None \<Longrightarrow> CanonicalPayload E f = Inr (payload_of f)"
  by (simp add: CanonicalPayload_def payload_of_def)

lemma CanonicalPayload_Inr_iff: "CanonicalPayload E f = Inr p \<longleftrightarrow> FactID_Validate E f = None \<and> p = payload_of f"
  by (auto simp: CanonicalPayload_def payload_of_def split: option.splits)

lemma FactID_digest_valid: "FactID_Validate E f = None \<Longrightarrow> FactID_digest E f = Inr (digest_of E f)"
  by (simp add: FactID_digest_def CanonicalPayload_payload_of digest_of_def fact_preimage_def payload_of_def)

lemma hash_of_digest: "hash_of E f = hash_of E g \<longleftrightarrow> digest_of E f = digest_of E g"
  by (simp add: hash_of_def digest_of_def)

lemma agrees_valid:
  "FactID_Validate E f = None \<Longrightarrow> FactID_Validate E g = None \<Longrightarrow>
     agrees E f g \<longleftrightarrow> (digest_of E f = digest_of E g \<longrightarrow> payload_of f = payload_of g)"
  unfolding agrees_def hash_of_digest by (metis CanonicalPayload_Inr_iff CanonicalPayload_payload_of)

lemma compatible_payload:
  assumes "compatible E F" "f \<in> F" "g \<in> F" "digest_of E f = digest_of E g"
  shows "payload_of f = payload_of g"
proof -
  have "agrees E f g" "FactID_Validate E f = None" "FactID_Validate E g = None"
    using assms(1-3) unfolding compatible_def by blast+
  then show ?thesis using assms(4) by (simp only: agrees_valid simp_thms)
qed

lemma incompatible_insert:
  assumes "\<not> compatible E (insert a F)" "compatible E F" "FactID_Validate E a = None"
  obtains f where "f \<in> F" "digest_of E f = digest_of E a" "payload_of f \<noteq> payload_of a"
proof -
  from assms obtain f where "f \<in> F" "\<not> agrees E f a"
    unfolding compatible_def using agrees_sym agrees_refl by (metis insert_iff)
  moreover from this have "FactID_Validate E f = None" using assms(2) by (simp add: compatible_def)
  ultimately show thesis using that assms(3) agrees_valid by blast
qed

lemma represents_insert:
  assumes "represents E ms D" "compatible E (insert a D)"
  shows "represents E (map_put (digest_of E a) (payload_of a) ms) (insert a D)"
proof -
  have "payload_of f = payload_of a" if "f \<in> D" "digest_of E f = digest_of E a" for f
    using compatible_payload [OF assms(2)] that by blast
  with assms(1) show ?thesis unfolding represents_def by auto
qed

lemma atom_members_main:
  assumes "represents E ms D" "compatible E D"
  shows "if (\<forall>a\<in>set as. is_atom a) \<and> compatible E (D \<union> set as)
    then \<exists>ms'. atom_members E ms as = Inr ms' \<and> represents E ms' (D \<union> set as)
    else \<exists>e. atom_members E ms as = Inl e"
  using assms
proof (induction "as" arbitrary: ms D)
  case (Cons a "as")
  show ?case
  proof (cases "is_atom a \<and> FactID_Validate E a = None")
    case False
    then have "\<exists>e. atom_members E ms (a # as) = Inl e"
      by (auto simp: is_atom_def IsV5_def FactID_digest_def CanonicalPayload_def)
    with False show ?thesis by (auto simp: compatible_def)
  next
    case True
    note lookup = FactID_digest_valid [of E a] CanonicalPayload_payload_of [of E a]
    show ?thesis
    proof (cases "compatible E (insert a D)")
      case comp: True
      let ?ms = "map_put (digest_of E a) (payload_of a) ms"
      have "map_of ms (digest_of E a) = None \<or> map_of ms (digest_of E a) = Some (payload_of a)"
      proof (cases "map_of ms (digest_of E a)")
        case (Some p)
        then have "digest_of E a \<in> digest_of E ` D"
          using Cons.prems(1) by (metis domI dom_map_of_conv_image_fst represents_def)
        then obtain f where "f \<in> D" "digest_of E a = digest_of E f" by blast
        moreover from this have "payload_of f = payload_of a"
          using compatible_payload [OF comp, of f a] by simp
        ultimately show ?thesis using Cons.prems(1) by (metis represents_def)
      qed simp
      then have step: "atom_members E ms (a # as) = atom_members E ?ms as"
        using True lookup by (auto simp: is_atom_def IsV5_def)
      have eqs: "(\<forall>b\<in>set (a # as). is_atom b) = (\<forall>b\<in>set as. is_atom b)" "D \<union> set (a # as) = insert a D \<union> set as"
        using True by simp_all
      show ?thesis unfolding step eqs
        by (rule Cons.IH [OF represents_insert [OF Cons.prems(1) comp] comp])
    next
      case False
      then obtain f where f: "f \<in> D" "digest_of E f = digest_of E a" "payload_of f \<noteq> payload_of a"
        using incompatible_insert Cons.prems(2) True by metis
      with Cons.prems(1) have "map_of ms (digest_of E a) = Some (payload_of f)"
        by (metis represents_def)
      with True lookup f(3) have "\<exists>e. atom_members E ms (a # as) = Inl e"
        by (auto simp: is_atom_def IsV5_def)
      moreover have "\<not> compatible E (D \<union> set (a # as))"
        using False compatible_mono by (metis Un_upper1 insert_subset list.set_intros(1) UnI2 subset_trans)
      ultimately show ?thesis by simp
    qed
  qed
qed simp

lemma PredicateSetHashV1_main:
  "if (\<forall>a\<in>set as. is_atom a) \<and> compatible E (set as)
   then PredicateSetHashV1 E as =
     Inr (hex_encode (env_sha256 E (predicate_set_preimage (sorted_list_of_set (digest_of E ` set as)))))
   else \<exists>e. PredicateSetHashV1 E as = Inl e"
proof -
  have "represents E [] {}" "compatible E {}" by (simp_all add: represents_def compatible_def)
  note base = atom_members_main [OF this, of "as", unfolded Un_empty_left]
  have main: "if (\<forall>a\<in>set as. is_atom a) \<and> compatible E (set as)
    then \<exists>ms. atom_members E [] as = Inr ms \<and> represents E ms (set as)
    else \<exists>e. atom_members E [] as = Inl e" by (fact base)
  have "sort (map fst ms) = sorted_list_of_set (digest_of E ` set as)" if "represents E ms (set as)" for ms
    using that by (metis list.set_map represents_def sorted_list_of_set_sort_remdups remdups_id_iff_distinct)
  with main show ?thesis by (auto simp: PredicateSetHashV1_def split: if_splits)
qed

lemma PredicateSetHashV1_set:
  assumes "set as = set bs"
  shows "PredicateSetHashV1 E as = Inr d \<longleftrightarrow> PredicateSetHashV1 E bs = Inr d"
  using PredicateSetHashV1_main [of "as" E] PredicateSetHashV1_main [of bs E] assms
  by (auto split: if_splits)

subsection \<open>Checks depend on the set only\<close>

lemma atom_not_composite: "is_atom f \<Longrightarrow> \<not> is_composite f"
  by (simp add: is_atom_def is_composite_def)

lemma split_v5_outcome_Inr:
  "split_v5_outcome as cm xs = Inr (bs, c) \<longleftrightarrow>
     (\<forall>f\<in>set xs. is_atom f \<or> is_composite f) \<and> bs = as @ filter is_atom xs \<and>
     (case cm of None \<Rightarrow> (filter is_composite xs = [] \<and> c = None) \<or> (\<exists>x. filter is_composite xs = [x] \<and> c = Some x)
      | Some x \<Rightarrow> filter is_composite xs = [] \<and> c = Some x)"
proof (induction "as" cm xs rule: split_v5_outcome.induct)
  case (2 atoms composite f facts)
  consider (atom) "is_atom f" "\<not> is_composite f" | (composite) "\<not> is_atom f" "is_composite f"
    | (other) "\<not> is_atom f" "\<not> is_composite f" using atom_not_composite by blast
  then show ?case
  proof cases
    case atom
    then have "split_v5_outcome atoms composite (f # facts) = split_v5_outcome (atoms @ [f]) composite facts"
      by (simp add: is_atom_def)
    moreover have "IsV5 f \<and> fid_Kind f = FactPredicateAtom" using atom by (simp add: is_atom_def)
    ultimately show ?thesis using 2(1) atom by (simp cong: option.case_cong)
  next
    case composite
    show ?thesis
    proof (cases "\<exists>x. composite = Some x")
      case True
      with composite show ?thesis by (auto simp: is_atom_def is_composite_def)
    next
      case False
      with composite have "split_v5_outcome atoms composite (f # facts) = split_v5_outcome atoms (Some f) facts"
        by (simp add: is_atom_def is_composite_def)
      moreover have "\<not> (IsV5 f \<and> fid_Kind f = FactPredicateAtom)"
        "IsV5 f \<and> fid_Kind f = FactCompositeOutcome \<and> composite = None"
        using composite False by (auto simp: is_atom_def is_composite_def)
      ultimately show ?thesis using 2(2) composite False by auto
    qed
  next
    case other
    then have "\<exists>e. split_v5_outcome atoms composite (f # facts) = Inl e"
      by (auto simp: is_atom_def is_composite_def)
    with other show ?thesis by auto
  qed
qed (auto split: option.splits)

lemma check_v5_outcome_None:
  "check_v5_outcome E xs = None \<longleftrightarrow>
     (\<exists>c. filter is_composite xs = [c] \<and> (\<forall>f\<in>set xs. is_atom f \<or> is_composite f) \<and>
        fid_PredicateAtomCount c = int (length (filter is_atom xs)) \<and>
        PredicateSetHashV1 E (filter is_atom xs) = Inr (fid_PredicateSetSHA256 c) \<and>
        (\<forall>a\<in>set xs. is_atom a \<longrightarrow> fid_PredicateContextSHA256 a = fid_PredicateContextSHA256 c))"
proof -
  have len: "length xs = length (filter is_atom xs) + length (filter is_composite xs)"
    if "\<forall>f\<in>set xs. is_atom f \<or> is_composite f"
    using that by (induction xs) (auto dest: atom_not_composite)
  show ?thesis
  proof (cases "split_v5_outcome [] None xs")
    case (Inl e)
    then have "\<not> (\<exists>c. filter is_composite xs = [c] \<and> (\<forall>f\<in>set xs. is_atom f \<or> is_composite f))"
      using split_v5_outcome_Inr [of "[]" None xs] by fastforce
    with Inl show ?thesis by (auto simp: check_v5_outcome_def)
  next
    case (Inr p)
    obtain bs c where p: "p = (bs, c)" by (cases p)
    with Inr have "(\<forall>f\<in>set xs. is_atom f \<or> is_composite f)" "bs = filter is_atom xs"
      "filter is_composite xs = [] \<and> c = None \<or> (\<exists>x. filter is_composite xs = [x] \<and> c = Some x)"
      by (auto simp: split_v5_outcome_Inr)
    with Inr p len show ?thesis
      by (auto simp: check_v5_outcome_def split: if_splits)
  qed
qed

lemma check_v5_outcome_mset:
  assumes "mset xs = mset ys"
  shows "check_v5_outcome E xs = None \<longleftrightarrow> check_v5_outcome E ys = None"
proof -
  have "filter is_composite xs = [c] \<longleftrightarrow> filter is_composite ys = [c]" for c
    using assms by (metis mset_filter mset_single_iff_right mset.simps(1,2) mset_zero_iff)
  moreover have "length (filter is_atom xs) = length (filter is_atom ys)" "set xs = set ys"
    using assms by (metis mset_filter size_mset, metis set_mset_mset)
  moreover have "PredicateSetHashV1 E (filter is_atom xs) = Inr d \<longleftrightarrow> PredicateSetHashV1 E (filter is_atom ys) = Inr d" for d
    by (rule PredicateSetHashV1_set) (use \<open>set xs = set ys\<close> in auto)
  ultimately show ?thesis by (simp only: check_v5_outcome_None)
qed

lemma check_sets_determined:
  assumes "set_ok E r" "set_ok E r'" "snd ` set r = snd ` set r'" "set_ok E i" "set_ok E i'" "snd ` set i = snd ` set i'"
    "set_ok E u" "set_ok E u'" "snd ` set u = snd ` set u'"
  shows "check_sets E p r i u = None \<longleftrightarrow> check_sets E p r' i' u' = None"
proof -
  have "mset (map snd u) = mset (map snd u')"
  proof -
    have "distinct (map snd s)" if "set_ok E s" for s
    proof -
      have "map fst s = map (hash_of E) (map snd s)" using that by (auto simp: set_ok_def)
      with that show ?thesis by (metis distinct_map set_ok_def)
    qed
    with assms(7-9) show ?thesis by (subst set_eq_iff_mset_eq_distinct [symmetric]) auto
  qed
  moreover from this have "length u = length u'" by (metis length_map size_mset)
  ultimately show ?thesis
    using assms(3,6,9) check_v5_outcome_mset [of "map snd u" "map snd u'" E]
    by (auto simp: check_sets_def no_error image_iff Ball_def)
qed

subsection \<open>Normalization\<close>

lemma Normalize_Inr:
  assumes "Normalize E ob = Inr n"
  obtains r i u where "NewFactSet E (ob_Release ob) = Inr r" "NewFactSet E (ob_Influence ob) = Inr i"
    "NewFactSet E (ob_Outcome ob) = Inr u" "\<not> invalidToken (ob_ProfileVersion ob)"
    "check_sets E (ob_ProfileVersion ob) r i u = None"
    "n = \<lparr>ob_ProfileVersion = ob_ProfileVersion ob, ob_Release = FactSet_Values r,
      ob_Influence = FactSet_Values i, ob_Outcome = FactSet_Values u\<rparr>"
  using assms by (auto simp: Normalize_def split: if_splits sum.splits option.splits)

lemma Normalize_determined:
  assumes "Normalize E ob = Inr n"
    and new: "NewFactSet E (ob_Release ob) = Inr r" "NewFactSet E (ob_Influence ob) = Inr i" "NewFactSet E (ob_Outcome ob) = Inr u"
      "NewFactSet E (ob_Release ob') = Inr r'" "NewFactSet E (ob_Influence ob') = Inr i'" "NewFactSet E (ob_Outcome ob') = Inr u'"
    and same: "snd ` set r = snd ` set r'" "snd ` set i = snd ` set i'" "snd ` set u = snd ` set u'"
      "ob_ProfileVersion ob' = ob_ProfileVersion ob"
  shows "Normalize E ob' = Inr n"
proof -
  note ok = new [THEN NewFactSet_Inr(2)]
  have vals: "FactSet_Values r = FactSet_Values r'" "FactSet_Values i = FactSet_Values i'" "FactSet_Values u = FactSet_Values u'"
    using FactSet_Values_determined ok same by metis+
  have "\<not> invalidToken (ob_ProfileVersion ob)" "check_sets E (ob_ProfileVersion ob) r i u = None"
    and n: "n = \<lparr>ob_ProfileVersion = ob_ProfileVersion ob, ob_Release = FactSet_Values r,
      ob_Influence = FactSet_Values i, ob_Outcome = FactSet_Values u\<rparr>"
    using assms(1) new(1-3) by (auto simp: Normalize_def split: if_splits option.splits)
  moreover from this have "check_sets E (ob_ProfileVersion ob) r' i' u' = None"
    using check_sets_determined [OF ok(1,4) same(1) ok(2,5) same(2) ok(3,6) same(3)] by blast
  ultimately show ?thesis using new(4-6) same(4) vals by (simp add: Normalize_def)
qed

lemma Normalize_dimension:
  assumes "NewFactSet E fs = Inr s"
  shows "ascending_hashes E (FactSet_Values s)" "fact_hashes E (FactSet_Values s) = fact_hashes E fs"
    "set (FactSet_Values s) \<subseteq> set fs"
  using NewFactSet_Inr [OF assms] FactSet_Values_ok [OF NewFactSet_Inr(2) [OF assms]]
  by (auto simp: fact_hashes_def set_ok_keys)

subsection \<open>Merging\<close>

lemma rebuilt_set_ok:
  assumes "set_ok E s"
  shows "set_ok E (rebuilt_set E (FactSet_Values s))" "snd ` set (rebuilt_set E (FactSet_Values s)) = snd ` set s"
proof -
  from NewFactSet_Values [OF assms] obtain t where t: "NewFactSet E (FactSet_Values s) = Inr t" "set_ok E t"
    "snd ` set t = snd ` set s" by (elim exE conjE)
  then show "set_ok E (rebuilt_set E (FactSet_Values s))" "snd ` set (rebuilt_set E (FactSet_Values s)) = snd ` set s"
    by (simp_all add: rebuilt_set_def)
qed

lemma MergeChecked_ok:
  assumes "set_ok E s" "FactSet_MergeChecked E s t = (s', None)"
  shows "set_ok E s'" "fst ` set s' = fst ` set s \<union> fact_hashes E (map snd t)"
  using add_facts_main [OF assms(1), of "map snd t"] assms(2)
  by (auto simp: FactSet_MergeChecked_def split: if_splits)

lemma merge_step:
  assumes "set_ok E s" "NewFactSet E fs = Inr t" "FactSet_MergeChecked E s (rebuilt_set E (FactSet_Values t)) = (s', None)"
  shows "set_ok E s'" "fst ` set s' = fst ` set s \<union> fact_hashes E fs"
proof -
  note t = NewFactSet_Inr [OF assms(2)]
  note m = MergeChecked_ok [OF assms(1,3)]
  show "set_ok E s'" by (rule m)
  have "fact_hashes E (map snd (rebuilt_set E (FactSet_Values t))) = hash_of E ` snd ` set t"
    using rebuilt_set_ok(2) [OF t(2)] by (simp add: fact_hashes_def)
  then show "fst ` set s' = fst ` set s \<union> fact_hashes E fs"
    using m(2) t(3) set_ok_keys [OF t(2)] by simp
qed

lemma merge_loop_ok:
  assumes "set_ok E r" "set_ok E i" "set_ok E u" "merge_loop E p r i u obs = Inr (r', i', u')"
  shows "set_ok E r' \<and> set_ok E i' \<and> set_ok E u' \<and>
    fst ` set r' = fst ` set r \<union> union_hashes E ob_Release obs \<and>
    fst ` set i' = fst ` set i \<union> union_hashes E ob_Influence obs \<and>
    fst ` set u' = fst ` set u \<union> union_hashes E ob_Outcome obs \<and>
    (\<forall>ob\<in>set obs. ob_ProfileVersion ob = p)"
  using assms
proof (induction obs arbitrary: r i u)
  case Nil
  then show ?case by (simp add: union_hashes_def)
next
  case (Cons ob obs)
  from Cons.prems(4) obtain n r1 i1 u1 where n: "Normalize E ob = Inr n" "ob_ProfileVersion n = p"
    and m: "FactSet_MergeChecked E r (rebuilt_set E (ob_Release n)) = (r1, None)"
      "FactSet_MergeChecked E i (rebuilt_set E (ob_Influence n)) = (i1, None)"
      "FactSet_MergeChecked E u (rebuilt_set E (ob_Outcome n)) = (u1, None)"
    and rest: "merge_loop E p r1 i1 u1 obs = Inr (r', i', u')"
    by (auto split: sum.splits if_splits prod.splits option.splits)
  from n(1) obtain a b c where new: "NewFactSet E (ob_Release ob) = Inr a" "NewFactSet E (ob_Influence ob) = Inr b"
      "NewFactSet E (ob_Outcome ob) = Inr c"
    and n': "n = \<lparr>ob_ProfileVersion = ob_ProfileVersion ob, ob_Release = FactSet_Values a,
      ob_Influence = FactSet_Values b, ob_Outcome = FactSet_Values c\<rparr>" by (rule Normalize_Inr)
  note r1 = merge_step [OF Cons.prems(1) new(1), of r1] and i1 = merge_step [OF Cons.prems(2) new(2), of i1]
    and u1 = merge_step [OF Cons.prems(3) new(3), of u1]
  from m n' have "FactSet_MergeChecked E r (rebuilt_set E (FactSet_Values a)) = (r1, None)"
    "FactSet_MergeChecked E i (rebuilt_set E (FactSet_Values b)) = (i1, None)"
    "FactSet_MergeChecked E u (rebuilt_set E (FactSet_Values c)) = (u1, None)" by simp_all
  note steps = r1 [OF this(1)] i1 [OF this(2)] u1 [OF this(3)]
  from Cons.IH [OF steps(1,3,5) rest] show ?case
    unfolding steps(2,4,6) using n(2) n' by (simp add: union_hashes_def Un_assoc)
qed

subsection \<open>Outcome facts\<close>

lemma release_payloads_V2:
  "release_payloads E fs = Inr ps \<longleftrightarrow>
     (\<forall>f\<in>set fs. IsV2 f \<and> FactID_Validate E f = None) \<and> ps = map payload_of fs"
  by (induction fs arbitrary: ps)
    (auto simp: CanonicalPayload_Inr_iff CanonicalPayload_payload_of split: sum.splits if_splits, blast)

lemma concat_frames_inject:
  assumes "length ps = length qs" "\<forall>p\<in>set ps. framable p" "\<forall>q\<in>set qs. framable q"
  shows "concat (map frame ps) = concat (map frame qs) \<longleftrightarrow> ps = qs"
  using assms by (induction ps qs rule: list_induct2) (auto simp: frame_append_inject)

lemma outcome_preimage_inject:
  assumes "in_int64 m" "in_int64 n" "framable ps" "framable qs" "\<forall>p\<in>set ps. framable p" "\<forall>q\<in>set qs. framable q"
  shows "outcome_preimage m ps = outcome_preimage n qs \<longleftrightarrow> m = n \<and> ps = qs"
proof
  assume "outcome_preimage m ps = outcome_preimage n qs"
  then have "canonical_uint64 m @ big_endian 8 (length ps) @ concat (map frame ps) =
      canonical_uint64 n @ big_endian 8 (length qs) @ concat (map frame qs)"
    by (simp add: outcome_preimage_def)
  then have "m = n" "length ps = length qs" "concat (map frame ps) = concat (map frame qs)"
    using assms(1-4) by (auto simp: canonical_uint64_append_inject big_endian_inject)
  with concat_frames_inject assms(5,6) show "m = n \<and> ps = qs" by blast
qed simp

lemma payload_hash_V2:
  assumes "IsV2 f" "IsV2 g" "payload_of f = payload_of g"
  shows "hash_of E f = hash_of E g"
proof -
  have "isVersioned f" "isVersioned g" using assms by (auto simp: IsV2_def isVersioned_def)
  with assms show ?thesis by (simp add: hash_of_def fact_preimage_def payload_of_def hash_domain_def)
qed

lemma ReleaseOutcomeDigest_Inr:
  assumes "ReleaseOutcomeDigest E fs n = Inr d"
  shows "NewFactSet E fs = Inr (rebuilt_set E fs)" "0 \<le> n" "\<forall>f\<in>set (FactSet_Values (rebuilt_set E fs)). IsV2 f"
    "d = hex_encode (env_sha256 E (outcome_preimage n (release_list E fs)))"
  using assms by (auto simp: ReleaseOutcomeDigest_def rebuilt_set_def release_list_def release_payloads_V2
      split: if_splits sum.splits)

lemma set_release_list:
  assumes "NewFactSet E fs = Inr s"
  shows "payload_of ` set (FactSet_Values s) = payload_of ` set fs"
proof -
  note s = NewFactSet_Inr [OF assms]
  have "\<exists>g\<in>snd ` set s. payload_of g = payload_of f" if f: "f \<in> set fs" for f
  proof -
    have "hash_of E f \<in> hash_of E ` snd ` set s"
      using s(3) f set_ok_keys [OF s(2)] by (simp add: fact_hashes_def)
    then obtain g where g: "g \<in> snd ` set s" "hash_of E f = hash_of E g" by blast
    then have "g \<in> set fs" using s(4) by (rule_tac subsetD)
    with f g show ?thesis
      using compatible_payload [OF s(1)] by (metis hash_of_digest)
  qed
  then have "payload_of ` set fs \<subseteq> payload_of ` snd ` set s" by (metis image_eqI image_subsetI)
  moreover have "payload_of ` snd ` set s \<subseteq> payload_of ` set fs" using s(4) by (rule image_mono)
  ultimately show ?thesis unfolding FactSet_Values_ok(2) [OF s(2)] by (rule subset_antisym [rotated])
qed

lemma release_list_determined:
  assumes s: "set_ok E s" "\<forall>f\<in>set (FactSet_Values s). IsV2 f" and t: "set_ok E t" "\<forall>f\<in>set (FactSet_Values t). IsV2 f"
    and same: "payload_of ` set (FactSet_Values s) = payload_of ` set (FactSet_Values t)"
  shows "map payload_of (FactSet_Values s) = map payload_of (FactSet_Values t)"
proof -
  have sub: "hash_of E ` set (FactSet_Values a) \<subseteq> hash_of E ` set (FactSet_Values b)"
    if "payload_of ` set (FactSet_Values a) \<subseteq> payload_of ` set (FactSet_Values b)"
      "\<forall>f\<in>set (FactSet_Values a). IsV2 f" "\<forall>f\<in>set (FactSet_Values b). IsV2 f" for a b
  proof
    fix h assume "h \<in> hash_of E ` set (FactSet_Values a)"
    then obtain f where f: "f \<in> set (FactSet_Values a)" "h = hash_of E f" by blast
    then have "payload_of f \<in> payload_of ` set (FactSet_Values b)" using that(1) by blast
    then obtain g where g: "g \<in> set (FactSet_Values b)" "payload_of f = payload_of g" by blast
    with f that(2,3) have "h = hash_of E g" by (simp add: payload_hash_V2 [of f g])
    with g(1) show "h \<in> hash_of E ` set (FactSet_Values b)" by (rule rev_image_eqI)
  qed
  have "hash_of E ` set (FactSet_Values s) = hash_of E ` set (FactSet_Values t)"
    using sub [of s t] sub [of t s] s(2) t(2) same by (simp add: subset_antisym)
  then have keys: "map (hash_of E) (FactSet_Values s) = map (hash_of E) (FactSet_Values t)"
    using FactSet_Values_ok(3) [OF s(1)] FactSet_Values_ok(3) [OF t(1)]
    unfolding ascending_hashes_map by (intro strict_sorted_equal) simp_all
  show ?thesis
  proof (rule nth_equalityI)
    show len: "length (map payload_of (FactSet_Values s)) = length (map payload_of (FactSet_Values t))"
      using keys by (metis length_map)
    fix k assume k: "k < length (map payload_of (FactSet_Values s))"
    let ?f = "FactSet_Values s ! k" and ?g = "FactSet_Values t ! k"
    have f: "?f \<in> set (FactSet_Values s)" and g: "?g \<in> set (FactSet_Values t)" using k len by simp_all
    have eq: "hash_of E ?f = hash_of E ?g" using keys k len by (metis length_map nth_map)
    from f same obtain h where h: "h \<in> set (FactSet_Values t)" "payload_of ?f = payload_of h" by blast
    then have "hash_of E h = hash_of E ?g" using payload_hash_V2 [of ?f h E] s(2) t(2) f eq by simp
    then have "h = ?g"
      using set_ok_inj [OF t(1)] h(1) g unfolding FactSet_Values_ok(2) [OF t(1)] by (meson inj_onD)
    with h(2) show "map payload_of (FactSet_Values s) ! k = map payload_of (FactSet_Values t) ! k"
      using k len by simp
  qed
qed

lemma isSHA256_hex_encode: "length bs = 32 \<Longrightarrow> isSHA256 (hex_encode bs)"
  by (simp add: isSHA256_def hex_encode_sha256)

lemma NewOutcomeFactV3_valid:
  assumes "\<not> invalidToken v" "isSHA256 h" "isSHA256 d" "0 \<le> n"
  shows "snd (NewOutcomeFactV3 E v h d n) = None"
  using assms
  by (simp add: NewOutcomeFactV3_def checked_fact_def FactID_Validate_def isVersioned_def validateVersioned_def
      validate_outcome_def zero_fact_def payload_flags)

lemma NewFactSet_single: "FactID_Validate E f = None \<Longrightarrow> NewFactSet E [f] = Inr [(hash_of E f, f)]"
  by (simp add: NewFactSet_def FactSet_Add_cases)

lemma predicate_set_preimage_inject:
  assumes "\<forall>h\<in>set hs \<union> set ks. length h = 32" "framable hs" "framable ks"
  shows "predicate_set_preimage hs = predicate_set_preimage ks \<longleftrightarrow> hs = ks"
proof
  assume "predicate_set_preimage hs = predicate_set_preimage ks"
  then have len: "length hs = length ks" and "concat hs = concat ks"
    using assms(2,3) by (auto simp: predicate_set_preimage_def big_endian_inject)
  moreover have "\<forall>(x, y)\<in>set (zip hs ks). length x = length y"
    using assms(1) by (auto elim!: in_set_zipE)
  ultimately show "hs = ks" by (intro concat_injective)
qed simp

subsection \<open>When the operations succeed\<close>

lemma NewFactSet_total:
  assumes "compatible E (set fs)"
  obtains s where "NewFactSet E fs = Inr s" "set_ok E s" "snd ` set s \<subseteq> set fs"
  using NewFactSet_main [of E fs] assms that by auto

lemma Normalize_V2_total:
  assumes "compatible E (set fs)" "compatible E (set gs)" "\<forall>f\<in>set fs \<union> set gs. IsV2 f"
  shows "\<exists>n. Normalize E \<lparr>ob_ProfileVersion = ProfileV2, ob_Release = fs, ob_Influence = gs, ob_Outcome = []\<rparr> = Inr n"
proof -
  obtain r where r: "NewFactSet E fs = Inr r" "snd ` set r \<subseteq> set fs" using NewFactSet_total [OF assms(1)] by metis
  obtain i where i: "NewFactSet E gs = Inr i" "snd ` set i \<subseteq> set gs" using NewFactSet_total [OF assms(2)] by metis
  have "\<forall>f\<in>snd ` set r \<union> snd ` set i. IsV2 f" using assms(3) r(2) i(2) by (meson Un_mono subsetD)
  then have "check_sets E ProfileV2 r i [] = None"
    by (auto simp: check_sets_def check_footprint_fact_def v2_family_def no_error)
  moreover have "\<not> invalidToken ProfileV2" by code_simp
  ultimately show ?thesis using r i by (simp add: Normalize_def NewFactSet_def)
qed

lemma ReleaseOutcomeDigest_total:
  assumes "compatible E (set fs)" "\<forall>f\<in>set fs. IsV2 f" "0 \<le> n"
  obtains d where "ReleaseOutcomeDigest E fs n = Inr d"
proof -
  obtain s where s: "NewFactSet E fs = Inr s" "set_ok E s" "snd ` set s \<subseteq> set fs" using NewFactSet_total [OF assms(1)] by metis
  have "IsV2 f \<and> FactID_Validate E f = None" if "f \<in> set (FactSet_Values s)" for f
    using that assms(2) s(3) set_ok_valid [OF s(2)] unfolding FactSet_Values_ok(2) [OF s(2)] by (meson subsetD)
  then have "release_payloads E (FactSet_Values s) = Inr (map payload_of (FactSet_Values s))"
    by (simp add: release_payloads_V2)
  with that s(1) assms(3) show thesis by (simp add: ReleaseOutcomeDigest_def)
qed

text \<open>The facts of one dimension over a list of observations.\<close>

lemma merge_dimension_total:
  assumes "set_ok E s" "NewFactSet E fs = Inr t" "compatible E (snd ` set s \<union> set fs)"
  obtains s' where "FactSet_MergeChecked E s (rebuilt_set E (FactSet_Values t)) = (s', None)" "set_ok E s'"
    "snd ` set s' \<subseteq> snd ` set s \<union> set fs"
proof -
  note t = NewFactSet_Inr [OF assms(2)]
  have sub: "set (map snd (rebuilt_set E (FactSet_Values t))) \<subseteq> set fs"
    using rebuilt_set_ok(2) [OF t(2)] t(4) by simp
  then have "compatible E (snd ` set s \<union> set (map snd (rebuilt_set E (FactSet_Values t))))"
    using assms(3) by (rule compatible_mono [rotated, OF Un_mono [OF order_refl]])
  with add_facts_main [OF assms(1), of "map snd (rebuilt_set E (FactSet_Values t))"] obtain s' where
    s': "FactSet_MergeChecked E s (rebuilt_set E (FactSet_Values t)) = (s', None)" "set_ok E s'"
      "snd ` set s' \<subseteq> snd ` set s \<union> set (map snd (rebuilt_set E (FactSet_Values t)))"
    by (auto simp: FactSet_MergeChecked_def)
  with sub that show thesis by (meson Un_mono order_refl order_trans)
qed

lemma merge_loop_total:
  assumes "set_ok E r" "set_ok E i" "set_ok E u" "\<forall>ob\<in>set obs. (\<exists>n. Normalize E ob = Inr n) \<and> ob_ProfileVersion ob = p"
    "compatible E (snd ` set r \<union> (\<Union>ob\<in>set obs. set (ob_Release ob)))"
    "compatible E (snd ` set i \<union> (\<Union>ob\<in>set obs. set (ob_Influence ob)))"
    "compatible E (snd ` set u \<union> (\<Union>ob\<in>set obs. set (ob_Outcome ob)))"
  shows "\<exists>x. merge_loop E p r i u obs = Inr x"
  using assms
proof (induction obs arbitrary: r i u)
  case (Cons ob obs)
  then obtain n where n: "Normalize E ob = Inr n" "ob_ProfileVersion ob = p" by auto
  from n(1) obtain a b c where new: "NewFactSet E (ob_Release ob) = Inr a" "NewFactSet E (ob_Influence ob) = Inr b"
      "NewFactSet E (ob_Outcome ob) = Inr c"
    and n': "n = \<lparr>ob_ProfileVersion = ob_ProfileVersion ob, ob_Release = FactSet_Values a,
      ob_Influence = FactSet_Values b, ob_Outcome = FactSet_Values c\<rparr>" by (rule Normalize_Inr)
  have one: "compatible E (S \<union> F) \<and> (\<forall>T. T \<subseteq> S \<union> F \<longrightarrow> compatible E (T \<union> G))"
    if "compatible E (S \<union> (F \<union> G))" for S F G
    using that by (meson compatible_mono Un_least Un_mono Un_upper1 Un_upper2 order_refl order_trans)
  note split = Cons.prems(5-7) [unfolded list.set UN_insert, THEN one]
  obtain r1 where r1: "FactSet_MergeChecked E r (rebuilt_set E (FactSet_Values a)) = (r1, None)" "set_ok E r1"
    "snd ` set r1 \<subseteq> snd ` set r \<union> set (ob_Release ob)"
    using merge_dimension_total [OF Cons.prems(1) new(1) conjunct1 [OF split(1)]] by metis
  obtain i1 where i1: "FactSet_MergeChecked E i (rebuilt_set E (FactSet_Values b)) = (i1, None)" "set_ok E i1"
    "snd ` set i1 \<subseteq> snd ` set i \<union> set (ob_Influence ob)"
    using merge_dimension_total [OF Cons.prems(2) new(2) conjunct1 [OF split(2)]] by metis
  obtain u1 where u1: "FactSet_MergeChecked E u (rebuilt_set E (FactSet_Values c)) = (u1, None)" "set_ok E u1"
    "snd ` set u1 \<subseteq> snd ` set u \<union> set (ob_Outcome ob)"
    using merge_dimension_total [OF Cons.prems(3) new(3) conjunct1 [OF split(3)]] by metis
  have "\<exists>x. merge_loop E p r1 i1 u1 obs = Inr x"
    using split r1(3) i1(3) u1(3) Cons.prems(4) by (intro Cons.IH r1 i1 u1) auto
  with n n' r1(1) i1(1) u1(1) show ?case by simp
qed simp

section \<open>Properties\<close>

text \<open>
  C38: normalization is canonical. A normalized observation keeps the profile; in each of its three
  dimensions the facts are strictly ascending in their hashes, so nothing is counted twice; they
  are facts of the given observation and have exactly its hashes, so nothing is dropped; and
  normalizing again changes nothing.
\<close>

theorem Normalize_canonical:
  assumes "Normalize E ob = Inr n"
  shows "ob_ProfileVersion n = ob_ProfileVersion ob \<and> normal_dimension E (ob_Release ob) (ob_Release n) \<and>
    normal_dimension E (ob_Influence ob) (ob_Influence n) \<and> normal_dimension E (ob_Outcome ob) (ob_Outcome n) \<and>
    Normalize E n = Inr n"
proof -
  from assms obtain r i u where new: "NewFactSet E (ob_Release ob) = Inr r" "NewFactSet E (ob_Influence ob) = Inr i"
      "NewFactSet E (ob_Outcome ob) = Inr u"
    and n: "n = \<lparr>ob_ProfileVersion = ob_ProfileVersion ob, ob_Release = FactSet_Values r,
      ob_Influence = FactSet_Values i, ob_Outcome = FactSet_Values u\<rparr>"
    by (rule Normalize_Inr)
  note ok = new [THEN NewFactSet_Inr(2)]
  obtain r' i' u' where "NewFactSet E (ob_Release n) = Inr r'" "NewFactSet E (ob_Influence n) = Inr i'"
      "NewFactSet E (ob_Outcome n) = Inr u'"
    and "snd ` set r = snd ` set r'" "snd ` set i = snd ` set i'" "snd ` set u = snd ` set u'"
    using NewFactSet_Values [OF ok(1)] NewFactSet_Values [OF ok(2)] NewFactSet_Values [OF ok(3)] n by auto
  with Normalize_determined [OF assms new] have "Normalize E n = Inr n" using n by simp
  then show ?thesis
    using Normalize_dimension [OF new(1)] Normalize_dimension [OF new(2)] Normalize_dimension [OF new(3)]
    by (simp add: n normal_dimension_def)
qed

text \<open>A stand-in for SHA-256 that has its length: the last byte, repeated.\<close>

definition sample_env32 :: exposure_env where
  "sample_env32 = \<lparr>env_sha256 = (\<lambda>b. replicate 32 (last (0 # b))), env_literal_ok = (\<lambda>_ _. True)\<rparr>"

lemma sample_env32_length: "\<forall>x. length (env_sha256 sample_env32 x) = 32"
  by (simp add: sample_env32_def)

definition sample_observation :: "FactID list \<Rightarrow> Observation" where
  "sample_observation fs = \<lparr>ob_ProfileVersion = ProfileV2, ob_Release = fs, ob_Influence = [sample_fact ''17''], ob_Outcome = []\<rparr>"

lemma sample_hashes_differ: "hash_of sample_env32 (sample_fact ''17'') \<noteq> hash_of sample_env32 (sample_fact ''18'')"
  by code_simp

lemma sample_facts_compatible: "compatible sample_env32 {sample_fact ''17'', sample_fact ''18''}"
proof -
  have "FactID_Validate sample_env32 (sample_fact ''17'') = None" "FactID_Validate sample_env32 (sample_fact ''18'') = None"
    by code_simp+
  then show ?thesis using sample_hashes_differ by (auto simp: compatible_def agrees_def)
qed

lemma sample_facts_V2: "IsV2 (sample_fact k)"
  by (simp add: IsV2_def sample_fact_def NewBaseRowFactV2_def checked_fact_def)

lemma sample_observation_normal:
  assumes "set fs \<subseteq> {sample_fact ''17'', sample_fact ''18''}"
  obtains n where "Normalize sample_env32 (sample_observation fs) = Inr n"
proof -
  have "compatible sample_env32 (set fs)" "compatible sample_env32 (set [sample_fact ''17''])"
    using assms by (auto intro: compatible_mono [OF sample_facts_compatible])
  moreover have "\<forall>f\<in>set fs \<union> set [sample_fact ''17'']. IsV2 f" using assms sample_facts_V2 by auto
  ultimately show thesis
    using Normalize_V2_total [of sample_env32 fs "[sample_fact ''17'']"] that by (auto simp: sample_observation_def)
qed

theorem Normalize_canonical_witness:
  "\<exists>n. Normalize sample_env32 (sample_observation [sample_fact ''18'', sample_fact ''17'', sample_fact ''18'']) = Inr n \<and>
     Normalize sample_env32 n = Inr n"
proof -
  obtain n where n: "Normalize sample_env32 (sample_observation [sample_fact ''18'', sample_fact ''17'', sample_fact ''18'']) = Inr n"
    using sample_observation_normal [of "[sample_fact ''18'', sample_fact ''17'', sample_fact ''18'']"] by auto
  with Normalize_canonical [OF n] show ?thesis by blast
qed



text \<open>
  merging observations is the union of their facts. When \<open>MergeObservations\<close> succeeds, all
  observations have the given profile, and in each dimension the merged facts are strictly
  ascending in their hashes and have exactly the hashes of the given observations together.
\<close>

theorem MergeObservations_union:
  assumes "MergeObservations E p obs = Inr m"
  shows "ob_ProfileVersion m = p \<and> (\<forall>ob\<in>set obs. ob_ProfileVersion ob = p) \<and>
    ascending_hashes E (ob_Release m) \<and> fact_hashes E (ob_Release m) = union_hashes E ob_Release obs \<and>
    ascending_hashes E (ob_Influence m) \<and> fact_hashes E (ob_Influence m) = union_hashes E ob_Influence obs \<and>
    ascending_hashes E (ob_Outcome m) \<and> fact_hashes E (ob_Outcome m) = union_hashes E ob_Outcome obs"
proof -
  from assms obtain r i u where loop: "merge_loop E p [] [] [] obs = Inr (r, i, u)"
    and m: "m = \<lparr>ob_ProfileVersion = p, ob_Release = FactSet_Values r, ob_Influence = FactSet_Values i,
      ob_Outcome = FactSet_Values u\<rparr>"
    by (auto simp: MergeObservations_def split: sum.splits)
  have hashes: "fact_hashes E (FactSet_Values s) = fst ` set s" if "set_ok E s" for s
    using FactSet_Values_ok(2) [OF that] set_ok_keys [OF that] by (simp add: fact_hashes_def)
  show ?thesis
    using merge_loop_ok [OF set_ok_Nil set_ok_Nil set_ok_Nil loop]
    by (simp add: m hashes FactSet_Values_ok(3))
qed

theorem MergeObservations_union_witness:
  "\<exists>m. MergeObservations sample_env32 ProfileV2 [sample_observation [sample_fact ''17''], sample_observation [sample_fact ''18'']] = Inr m \<and>
     fact_hashes sample_env32 (ob_Release m) = hash_of sample_env32 ` {sample_fact ''17'', sample_fact ''18''}"
proof -
  let ?obs = "[sample_observation [sample_fact ''17''], sample_observation [sample_fact ''18'']]"
  have "\<exists>x. merge_loop sample_env32 ProfileV2 [] [] [] ?obs = Inr x"
  proof (rule merge_loop_total)
    show "\<forall>ob\<in>set ?obs. (\<exists>n. Normalize sample_env32 ob = Inr n) \<and> ob_ProfileVersion ob = ProfileV2"
    proof -
      have "\<exists>n. Normalize sample_env32 (sample_observation [sample_fact ''17'']) = Inr n"
        "\<exists>n. Normalize sample_env32 (sample_observation [sample_fact ''18'']) = Inr n"
        using sample_observation_normal [of "[sample_fact ''17'']"] sample_observation_normal [of "[sample_fact ''18'']"]
        by (metis insertI1 insertI2 list.set(1,2) singletonD singleton_iff subsetI)+
      moreover have "ob_ProfileVersion (sample_observation fs) = ProfileV2" for fs by (simp add: sample_observation_def)
      ultimately show ?thesis by simp
    qed
  qed (auto simp: sample_observation_def intro: compatible_mono [OF sample_facts_compatible])
  then obtain m where m: "MergeObservations sample_env32 ProfileV2 ?obs = Inr m"
    by (auto simp: MergeObservations_def)
  have "union_hashes sample_env32 ob_Release ?obs = hash_of sample_env32 ` {sample_fact ''17'', sample_fact ''18''}"
    by (simp add: union_hashes_def fact_hashes_def sample_observation_def insert_commute)
  with m MergeObservations_union [OF m] show ?thesis by blast
qed

text \<open>
  the outcome digest commits to the visible row count and to the set of released facts. Two
  digests are equal exactly when the counts agree and the canonical payloads of the released
  facts are the same set, unless SHA-256 collides on the two byte strings; row order and
  repetitions do not matter.
\<close>

theorem ReleaseOutcomeDigest_commits:
  assumes d: "ReleaseOutcomeDigest E fs m = Inr d" and e: "ReleaseOutcomeDigest E gs n = Inr e"
    and "in_int64 m" "in_int64 n" "framable (release_list E fs)" "framable (release_list E gs)"
    and "\<forall>f\<in>set fs \<union> set gs. framable (payload_of f)"
  shows "d = e \<longleftrightarrow> (m = n \<and> payload_of ` set fs = payload_of ` set gs) \<or>
    collision (env_sha256 E) (outcome_preimage m (release_list E fs)) (outcome_preimage n (release_list E gs))"
proof -
  note D = ReleaseOutcomeDigest_Inr [OF d] and F = ReleaseOutcomeDigest_Inr [OF e]
  note sets = set_release_list [OF D(1)] set_release_list [OF F(1)]
  have "\<forall>p\<in>set (release_list E fs). framable p" "\<forall>p\<in>set (release_list E gs). framable p"
    using sets assms(7) by (auto simp: release_list_def image_iff Ball_def)
  then have "outcome_preimage m (release_list E fs) = outcome_preimage n (release_list E gs) \<longleftrightarrow>
      m = n \<and> release_list E fs = release_list E gs"
    using assms(3-6) by (intro outcome_preimage_inject)
  also have "release_list E fs = release_list E gs \<longleftrightarrow> payload_of ` set fs = payload_of ` set gs"
  proof
    assume "release_list E fs = release_list E gs"
    then show "payload_of ` set fs = payload_of ` set gs"
      unfolding release_list_def using sets by (metis list.set_map)
  next
    assume "payload_of ` set fs = payload_of ` set gs"
    then show "release_list E fs = release_list E gs"
      unfolding release_list_def
      by (intro release_list_determined [OF NewFactSet_Inr(2) [OF D(1)] D(3) NewFactSet_Inr(2) [OF F(1)] F(3)])
        (simp only: sets)
  qed
  finally show ?thesis by (simp add: D(4) F(4) hash_equal_iff [symmetric])
qed

theorem ReleaseOutcomeDigest_commits_witness:
  "ReleaseOutcomeDigest sample_env32 [sample_fact ''17'', sample_fact ''18''] 2 =
     ReleaseOutcomeDigest sample_env32 [sample_fact ''18'', sample_fact ''17''] 2"
proof -
  let ?a = "[sample_fact ''17'', sample_fact ''18'']" and ?b = "[sample_fact ''18'', sample_fact ''17'']"
  obtain d where d: "ReleaseOutcomeDigest sample_env32 ?a 2 = Inr d"
    using ReleaseOutcomeDigest_total [of sample_env32 ?a 2] sample_facts_compatible sample_facts_V2 by auto
  obtain e where e: "ReleaseOutcomeDigest sample_env32 ?b 2 = Inr e"
    using ReleaseOutcomeDigest_total [of sample_env32 ?b 2] sample_facts_compatible sample_facts_V2 by (auto simp: insert_commute)
  have small: "framable (release_list E fs)" if "NewFactSet E fs = Inr (rebuilt_set E fs)" "card (set fs) \<le> 2" for E fs
  proof -
    note ok = NewFactSet_Inr [OF that(1)]
    have "length (rebuilt_set E fs) = card (fst ` set (rebuilt_set E fs))"
      using ok(2) by (metis distinct_card length_map list.set_map set_ok_def)
    also have "\<dots> \<le> 2" using that(2) card_image_le [of "set fs" "hash_of E"] by (simp add: ok(3) fact_hashes_def)
    finally show ?thesis by (simp add: release_list_def FactSet_Values_def)
  qed
  have "framable (release_list sample_env32 ?a)" "framable (release_list sample_env32 ?b)"
    by (intro small ReleaseOutcomeDigest_Inr(1) [OF d] ReleaseOutcomeDigest_Inr(1) [OF e]; simp add: card_insert_if)+
  moreover have "\<forall>f\<in>set ?a \<union> set ?b. framable (payload_of f)" by code_simp
  ultimately have "d = e"
    using ReleaseOutcomeDigest_commits [OF d e] by (auto simp: in_int64_def)
  with d e show ?thesis by simp
qed

text \<open>
  attaching an outcome always succeeds on a normalizable V2 observation, with a supported
  target profile, a non-negative row count and well-formed normal-form evidence. The result keeps
  the normalized release and influence facts and carries exactly one outcome fact, which is valid
  and binds the normal form, the row count and the digest of the released facts.
\<close>

theorem attachOutcome_correct:
  assumes norm: "Normalize E ob = Inr m" and "ob_ProfileVersion ob = ProfileV2"
    and target: "t = ProfileV3 \<or> t = ProfileV4" and "0 \<le> n" "\<not> invalidToken v" "isSHA256 h"
    and sha: "\<forall>x. length (env_sha256 E x) = 32"
  shows "\<exists>f. attachOutcome E ob t v h n =
      Inr \<lparr>ob_ProfileVersion = t, ob_Release = ob_Release m, ob_Influence = ob_Influence m, ob_Outcome = [f]\<rparr> \<and>
    FactID_Validate E f = None \<and> fid_Kind f = FactOutcome \<and> fid_QueryNormalFormSHA256 f = h \<and> fid_OutcomeRows f = n \<and>
    ReleaseOutcomeDigest E (ob_Release m) n = Inr (fid_OutcomeSHA256 f)"
proof -
  from norm obtain r i u where new: "NewFactSet E (ob_Release ob) = Inr r" "NewFactSet E (ob_Influence ob) = Inr i"
      and chk: "check_sets E ProfileV2 r i u = None"
      and m: "m = \<lparr>ob_ProfileVersion = ob_ProfileVersion ob, ob_Release = FactSet_Values r,
        ob_Influence = FactSet_Values i, ob_Outcome = FactSet_Values u\<rparr>"
    by (rule Normalize_Inr) (use assms(2) in simp)
  note ok = new [THEN NewFactSet_Inr(2)]
  from chk have v2: "\<forall>f\<in>snd ` set r. IsV2 f" "\<forall>f\<in>snd ` set i. IsV2 f"
    by (auto simp: check_sets_def no_error check_footprint_fact_def v2_family_def)
  obtain r' where r': "NewFactSet E (FactSet_Values r) = Inr r'" "set_ok E r'" "snd ` set r' = snd ` set r"
    using NewFactSet_Values [OF ok(1)] by (elim exE conjE)
  obtain i' where i': "NewFactSet E (FactSet_Values i) = Inr i'" "set_ok E i'" "snd ` set i' = snd ` set i"
    using NewFactSet_Values [OF ok(2)] by (elim exE conjE)
  have vals: "FactSet_Values r' = FactSet_Values r" "FactSet_Values i' = FactSet_Values i"
    by (rule FactSet_Values_determined [OF r'(2) ok(1) r'(3)], rule FactSet_Values_determined [OF i'(2) ok(2) i'(3)])
  have "\<forall>f\<in>set (FactSet_Values r). IsV2 f \<and> FactID_Validate E f = None"
    unfolding FactSet_Values_ok(2) [OF ok(1)] 
    by (intro ballI conjI bspec [OF v2(1)] set_ok_valid [OF ok(1)])
  then have "release_payloads E (FactSet_Values r) = Inr (map payload_of (FactSet_Values r))"
    by (simp add: release_payloads_V2)
  then obtain x where digest: "ReleaseOutcomeDigest E (FactSet_Values r) n = Inr (hex_encode (env_sha256 E x))"
    using r'(1) vals \<open>0 \<le> n\<close> by (simp add: ReleaseOutcomeDigest_def)
  let ?d = "hex_encode (env_sha256 E x)"
  have "isSHA256 ?d" using sha by (simp add: isSHA256_hex_encode)
  then have "snd (NewOutcomeFactV3 E v h ?d n) = None"
    using NewOutcomeFactV3_valid [of v h ?d n] assms by blast
  then obtain f where new_fact: "NewOutcomeFactV3 E v h ?d n = (f, None)" by (metis prod.collapse)
  then have valid: "FactID_Validate E f = None" by (auto simp: NewOutcomeFactV3_def checked_fact_def)
  have fields: "IsV3 f" "fid_Kind f = FactOutcome" "fid_QueryNormalFormSHA256 f = h" "fid_OutcomeRows f = n" "fid_OutcomeSHA256 f = ?d"
    using new_fact by (auto simp: NewOutcomeFactV3_def checked_fact_def IsV3_def)
  have "check_sets E t r' i' [(hash_of E f, f)] = None"
  proof -
    have "\<forall>f\<in>snd ` set r'. IsV2 f" "\<forall>f\<in>snd ` set i'. IsV2 f" using v2 r'(3) i'(3) by simp_all
    then show ?thesis using target fields(1,2)
      by (auto simp: check_sets_def check_footprint_fact_def v2_family_def check_legacy_outcome_def no_error)
  qed
  moreover have "\<not> invalidToken t" using target by (elim disjE; simp only:) code_simp+
  ultimately have "Normalize E \<lparr>ob_ProfileVersion = t, ob_Release = FactSet_Values r, ob_Influence = FactSet_Values i,
      ob_Outcome = [f]\<rparr> = Inr \<lparr>ob_ProfileVersion = t, ob_Release = FactSet_Values r, ob_Influence = FactSet_Values i, ob_Outcome = [f]\<rparr>"
    using r'(1) i'(1) vals NewFactSet_single [OF valid]
    by (simp add: Normalize_def) (simp add: FactSet_Values_def)
  then show ?thesis
    using assms(2,4) target norm digest new_fact valid fields m
    by (intro exI [of _ f]) (auto simp: attachOutcome_def)
qed

theorem attachOutcome_correct_witness:
  "\<exists>f r. attachOutcome sample_env32 (sample_observation [sample_fact ''18'']) ProfileV3 ''nf1'' (replicate 64 CHR ''a'') 2 = Inr r \<and>
     ob_Outcome r = [f] \<and> fid_OutcomeRows f = 2"
proof -
  obtain n where n: "Normalize sample_env32 (sample_observation [sample_fact ''18'']) = Inr n"
    using sample_observation_normal [of "[sample_fact ''18'']"] by auto
  have ok: "\<not> invalidToken ''nf1''" "isSHA256 (replicate 64 CHR ''a'')" by code_simp+
  have "ob_ProfileVersion (sample_observation [sample_fact ''18'']) = ProfileV2" by (simp add: sample_observation_def)
  then show ?thesis
    using attachOutcome_correct [OF n _ _ _ ok sample_env32_length, of ProfileV3 2] by auto
qed

text \<open>
  the digest of a set of predicate atoms commits to the set. Two accepted lists of atoms have
  the same digest exactly when they have the same set of atom hashes, unless SHA-256 collides on
  the two byte strings; order and repetitions do not matter.
\<close>

theorem PredicateSetHashV1_commits:
  assumes d: "PredicateSetHashV1 E as = Inr d" and e: "PredicateSetHashV1 E bs = Inr e"
    and sha: "\<forall>x. length (env_sha256 E x) = 32" and small: "framable as" "framable bs"
  shows "d = e \<longleftrightarrow> fact_hashes E as = fact_hashes E bs \<or>
    collision (env_sha256 E) (predicate_set_preimage (sorted_list_of_set (digest_of E ` set as)))
      (predicate_set_preimage (sorted_list_of_set (digest_of E ` set bs)))"
proof -
  let ?l = "\<lambda>xs. sorted_list_of_set (digest_of E ` set xs)"
  have de: "d = hex_encode (env_sha256 E (predicate_set_preimage (?l as)))"
    "e = hex_encode (env_sha256 E (predicate_set_preimage (?l bs)))"
    using PredicateSetHashV1_main [of "as" E] PredicateSetHashV1_main [of bs E] d e by (auto split: if_splits)
  have len: "length (?l xs) \<le> length xs" for xs
    using card_image_le [of "set xs" "digest_of E"] card_length [of xs] by simp
  have "predicate_set_preimage (?l as) = predicate_set_preimage (?l bs) \<longleftrightarrow> ?l as = ?l bs"
    using len [of "as"] len [of bs] small sha
    by (intro predicate_set_preimage_inject) (auto simp: digest_of_def)
  also have "\<dots> \<longleftrightarrow> digest_of E ` set as = digest_of E ` set bs"
    by (metis List.finite_set finite_imageI set_sorted_list_of_set)
  also have "\<dots> \<longleftrightarrow> hex_encode ` digest_of E ` set as = hex_encode ` digest_of E ` set bs"
    by (rule inj_image_eq_iff [symmetric]) (simp add: inj_def)
  also have "\<dots> \<longleftrightarrow> fact_hashes E as = fact_hashes E bs"
    by (simp add: fact_hashes_def hash_of_def digest_of_def image_image)
  finally show ?thesis by (simp add: de hash_equal_iff [symmetric])
qed

definition sample_atom :: "go_string \<Rightarrow> FactID" where
  "sample_atom literal = fst (NewPredicateAtomFactV5 sample_env32
     \<lparr>pa_ProfileVersion = [], pa_AtomizerVersion = [], pa_PredicateContextSHA256 = replicate 64 CHR ''0'',
      pa_SemanticProductID = ''orders'', pa_StableRole = ''base'', pa_PublicFieldID = ''amount'',
      pa_ResolvedExpressionSHA256 = [], pa_SQLType = ''bigint'', pa_CollationName = [], pa_CollationVersion = [],
      pa_Operator = ''GT'', pa_CanonicalLiteral = literal\<rparr>)"

theorem PredicateSetHashV1_commits_witness:
  "PredicateSetHashV1 sample_env32 [sample_atom ''i:1'', sample_atom ''i:1''] = PredicateSetHashV1 sample_env32 [sample_atom ''i:1'']"
proof -
  let ?a = "sample_atom ''i:1''"
  have "FactID_Validate sample_env32 ?a = None" by code_simp
  then have "compatible sample_env32 {?a}" by (auto simp: compatible_def)
  moreover have "is_atom ?a"
    by (simp add: is_atom_def IsV5_def sample_atom_def NewPredicateAtomFactV5_def checked_fact_def Let_def)
  ultimately obtain d e where de: "PredicateSetHashV1 sample_env32 [?a, ?a] = Inr d" "PredicateSetHashV1 sample_env32 [?a] = Inr e"
    using PredicateSetHashV1_main [of "[?a, ?a]" sample_env32] PredicateSetHashV1_main [of "[?a]" sample_env32] by auto
  have "fact_hashes sample_env32 [?a, ?a] = fact_hashes sample_env32 [?a]" by (simp add: fact_hashes_def)
  with PredicateSetHashV1_commits [OF de sample_env32_length] de show ?thesis by simp
qed

definition sample_derived :: "SnapshotBinding list \<Rightarrow> FactID" where
  "sample_derived bs = zero_fact\<lparr>fid_Profile := ProfileV2, fid_Kind := FactDerived, fid_SnapshotBundle := bs,
     fid_OutputRowKey := ''row'', fid_NormalizedExpression := ''sum'', fid_SQLType := ''bigint'',
     fid_CanonicalValue := ''i:3'', fid_WitnessCommitment := replicate 64 CHR ''0''\<rparr>"

definition derived_observation :: "SnapshotBinding list \<Rightarrow> Observation" where
  "derived_observation bs = \<lparr>ob_ProfileVersion = ProfileV2, ob_Release = [sample_derived bs], ob_Influence = [], ob_Outcome = []\<rparr>"


end
