(* ===== verification/Exposure_Value.thy ===== *)
theory Exposure_Value
  imports Exposure_Fact Complex_Main
begin

text \<open>
  The canonical encoding of SQL values of \<open>internal/exposure\<close> (\<open>CanonicalSQLValue\<close> and the
  functions it calls), the check of an encoding that crosses the trust boundary
  (\<open>ValidateCanonicalSQLValueEncoding\<close>), and the tagged binary form of \<open>jsonb\<close> values with
  its decoder. Fact identity, \<open>DISTINCT\<close>, \<open>GROUP BY\<close> and join equality all compare these
  texts.

  A value is a Go \<open>any\<close>. \<open>go_any\<close> has a constructor for every dynamic type that the
  switches of the source name; the eight integer types are treated alike and share one. The
  parameters, collected in \<open>value_env\<close>, are operations of the standard library on types the
  model leaves open: \<open>float64\<close> (\<open>'f\<close>), \<open>time.Time\<close> (\<open>'t\<close>), any other dynamic type
  (\<open>'o\<close>), the text syntax of \<open>big.Rat\<close>, the JSON decoder and \<open>json.Marshal\<close>.
\<close>

section \<open>Definitions\<close>

subsection \<open>Dynamic values\<close>

text \<open>\<open>pgtype.InfinityModifier\<close> and the \<open>pgtype\<close> structs, a third-party package, by their fields.\<close>

datatype InfinityModifier = PgFinite | PgInfinity | PgNegativeInfinity

record PgNumeric =
  pgn_Valid :: bool
  pgn_NaN :: bool
  pgn_InfinityModifier :: InfinityModifier
  pgn_Int :: "int option"
  pgn_Exp :: int

datatype ('f, 't, 'o) go_any =
    AnyNil
  | AnyBool bool
  | AnyInt int
  | AnyNumber go_string
  | AnyString go_string
  | AnyFloat32 'f
  | AnyFloat64 'f
  | AnyBytes "byte list"
  | AnyRawMessage "byte list"
  | AnyArray16 "byte list"
  | AnySlice "('f, 't, 'o) go_any list"
  | AnyMap "(go_string \<times> ('f, 't, 'o) go_any) list"
  | AnyTime 't
  | AnyDuration int
  | AnyNumeric PgNumeric
  | AnyDate bool InfinityModifier 't
  | AnyPgTime bool int
  | AnyTimestamp bool InfinityModifier 't
  | AnyTimestamptz bool InfinityModifier 't
  | AnyUUID bool "byte list"
  | AnyOther 'o

text \<open>
  What \<open>json.Decoder.Decode\<close> into an \<open>any\<close> can produce with \<open>UseNumber\<close>, and how a
  call ends: with a value and the rest of the input, at the end of the input, or with an error.
\<close>

datatype json_value =
    JNull
  | JBool bool
  | JNumber go_string
  | JString go_string
  | JArray "json_value list"
  | JObject "(go_string \<times> json_value) list"

datatype decode_result = Decoded json_value go_string | DecodeEOF | DecodeError

record ('f, 't, 'o) value_env =
  fl_round32 :: "'f \<Rightarrow> 'f"
  fl_parse :: "nat \<Rightarrow> go_string \<Rightarrow> 'f option"
  fl_IsNaN :: "'f \<Rightarrow> bool"
  fl_IsInf :: "'f \<Rightarrow> int \<Rightarrow> bool"
  fl_NaN :: 'f
  fl_Inf :: "int \<Rightarrow> 'f"
  fl_zero :: 'f
  fl_is_zero :: "'f \<Rightarrow> bool"
  fl_format :: "char \<Rightarrow> nat \<Rightarrow> 'f \<Rightarrow> go_string"
  rat_SetString :: "go_string \<Rightarrow> rat option"
  tm_Parse :: "go_string \<Rightarrow> go_string \<Rightarrow> 't option"
  tm_Format :: "go_string \<Rightarrow> 't \<Rightarrow> go_string"
  tm_UTC :: "'t \<Rightarrow> 't"
  tm_Truncate_us :: "'t \<Rightarrow> 't"
  tm_clock :: "'t \<Rightarrow> int \<times> int \<times> int \<times> int"
  any_Stringer :: "('f, 't, 'o) go_any \<Rightarrow> go_string option"
  json_Decode :: "go_string \<Rightarrow> decode_result"
  json_Marshal :: "('f, 't, 'o) go_any \<Rightarrow> go_string option"

definition string_of_bytes :: "byte list \<Rightarrow> go_string" where
  "string_of_bytes bs = map (\<lambda>b. char_of (unat b)) bs"

subsection \<open>Integers\<close>

text \<open>\<open>new(big.Int).SetString(s, 10)\<close>: an optional sign and at least one digit.\<close>

definition digit_char :: "char \<Rightarrow> bool" where
  "digit_char c \<longleftrightarrow> char_in c 48 57"

definition digits_value :: "go_string \<Rightarrow> nat" where
  "digits_value s = foldl (\<lambda>n c. 10 * n + (of_char c - 48)) 0 s"

definition big_SetString :: "go_string \<Rightarrow> int option" where
  "big_SetString s =
     (let negative = (take 1 s = ''-'');
          digits = (if take 1 s = ''-'' \<or> take 1 s = ''+'' then drop 1 s else s)
      in if digits = [] \<or> \<not> list_all digit_char digits then None
         else Some (if negative then - int (digits_value digits) else int (digits_value digits)))"

definition canonicalInteger :: "('f, 't, 'o) go_any \<Rightarrow> exposure_error + go_string" where
  "canonicalInteger v =
     (case v of
        AnyInt n \<Rightarrow> Inr (FormatInt n)
      | AnyNumber s \<Rightarrow>
          (case big_SetString s of Some _ \<Rightarrow> Inr s | None \<Rightarrow> Inl (ExposureInvalid ''not an exact integer''))
      | AnyString s \<Rightarrow>
          (case big_SetString s of Some n \<Rightarrow> Inr (FormatInt n) | None \<Rightarrow> Inl (ExposureInvalid ''not an exact integer''))
      | _ \<Rightarrow> Inl (ExposureInvalid ''not an exact integer''))"

definition integer_bits :: "go_string \<Rightarrow> nat" where
  "integer_bits t = (if t = ''smallint'' then 16 else if t = ''integer'' then 32 else 64)"

definition validateIntegerRange :: "go_string \<Rightarrow> go_string \<Rightarrow> exposure_error option" where
  "validateIntegerRange t s =
     (case big_SetString s of
        None \<Rightarrow> Some (ExposureInvalid ''invalid integer'')
      | Some n \<Rightarrow>
          if n < - (2 ^ (integer_bits t - 1)) \<or> n > 2 ^ (integer_bits t - 1) - 1
          then Some (ExposureInvalid ''integer is outside PostgreSQL range'') else None)"

subsection \<open>Numeric values\<close>

text \<open>\<open>big.Rat.RatString\<close>\<close>

definition RatString :: "rat \<Rightarrow> go_string" where
  "RatString r = (case quotient_of r of (p, q) \<Rightarrow>
     if q = 1 then FormatInt p else FormatInt p @ ''/'' @ FormatInt q)"

text \<open>
  The negation of the smallest \<open>int32\<close> is itself; \<open>big.Int.Exp\<close> returns 1 for a negative
  exponent, as the power with \<open>nat\<close> does.
\<close>

definition absInt32 :: "int \<Rightarrow> int" where
  "absInt32 v = (if v < 0 then (- v + 2 ^ 31) mod 2 ^ 32 - 2 ^ 31 else v)"

definition canonical_pg_numeric :: "PgNumeric \<Rightarrow> exposure_error + go_string" where
  "canonical_pg_numeric n =
     (if \<not> pgn_Valid n then Inr ''null''
      else if pgn_NaN n then Inr ''nan''
      else if pgn_InfinityModifier n = PgInfinity then Inr ''+infinity''
      else if pgn_InfinityModifier n = PgNegativeInfinity then Inr ''-infinity''
      else (case pgn_Int n of
          None \<Rightarrow> Inl (ExposureInvalid ''invalid pgx numeric'')
        | Some i \<Rightarrow>
            Inr (RatString (if pgn_Exp n \<ge> 0 then of_int i * of_int (10 ^ nat (absInt32 (pgn_Exp n)))
                            else of_int i / of_int (10 ^ nat (absInt32 (pgn_Exp n)))))))"

text \<open>The part of \<open>canonicalNumeric\<close> after the switch, on the text it left.\<close>

definition canonical_numeric_text :: "('f, 't, 'o) value_env \<Rightarrow> go_string \<Rightarrow> exposure_error + go_string" where
  "canonical_numeric_text V text =
     (let lower = ToLower (TrimSpace text) in
      if lower = ''nan'' then Inr ''nan''
      else if lower = ''infinity'' \<or> lower = ''+infinity'' then Inr ''+infinity''
      else if lower = ''-infinity'' then Inr ''-infinity''
      else (case rat_SetString V (TrimSpace text) of
          None \<Rightarrow> Inl (ExposureInvalid ''not an exact numeric'')
        | Some r \<Rightarrow> Inr (RatString r)))"

definition canonicalNumeric :: "('f, 't, 'o) value_env \<Rightarrow> ('f, 't, 'o) go_any \<Rightarrow> exposure_error + go_string" where
  "canonicalNumeric V v =
     (case v of
        AnyNumber s \<Rightarrow> canonical_numeric_text V s
      | AnyString s \<Rightarrow> canonical_numeric_text V s
      | AnyInt n \<Rightarrow> (case canonicalInteger v of Inl e \<Rightarrow> Inl e | Inr text \<Rightarrow> canonical_numeric_text V text)
      | AnyFloat32 _ \<Rightarrow> Inl (ExposureInvalid ''exact numeric cannot be constructed from a binary float'')
      | AnyFloat64 _ \<Rightarrow> Inl (ExposureInvalid ''exact numeric cannot be constructed from a binary float'')
      | AnyNumeric n \<Rightarrow> canonical_pg_numeric n
      | _ \<Rightarrow> canonical_numeric_text V (case any_Stringer V v of Some s \<Rightarrow> s | None \<Rightarrow> []))"

subsection \<open>Floating point\<close>

definition float_bits :: "go_string \<Rightarrow> nat" where
  "float_bits t = (if t = ''real'' then 32 else 64)"

definition canonicalFloat ::
  "('f, 't, 'o) value_env \<Rightarrow> go_string \<Rightarrow> ('f, 't, 'o) go_any \<Rightarrow> exposure_error + go_string" where
  "canonicalFloat V t v =
     (case (case v of
        AnyFloat32 x \<Rightarrow> Inr x
      | AnyFloat64 x \<Rightarrow> Inr (if t = ''real'' then fl_round32 V x else x)
      | AnyNumber s \<Rightarrow>
          (case fl_parse V (float_bits t) s of
             None \<Rightarrow> Inl (ExposureInvalid ''invalid floating value'')
           | Some x \<Rightarrow> Inr x)
      | _ \<Rightarrow> Inl (ExposureInvalid ''not floating point'')) of
       Inl e \<Rightarrow> Inl e
     | Inr x \<Rightarrow>
        if fl_IsNaN V x then Inr ''nan''
        else if fl_IsInf V x 1 then Inr ''+infinity''
        else if fl_IsInf V x (- 1) then Inr ''-infinity''
        else Inr (fl_format V (CHR ''x'') (float_bits t) (if fl_is_zero V x then fl_zero V else x)))"

subsection \<open>Dates and times\<close>

abbreviation date_layout :: go_string where "date_layout \<equiv> ''2006-01-02''"

definition infinity_text :: "InfinityModifier \<Rightarrow> go_string option" where
  "infinity_text m = (case m of PgFinite \<Rightarrow> None | PgInfinity \<Rightarrow> Some ''+infinity'' | PgNegativeInfinity \<Rightarrow> Some ''-infinity'')"

definition infinity_word :: "go_string \<Rightarrow> go_string option" where
  "infinity_word s = (if s = ''infinity'' \<or> s = ''+infinity'' then Some ''+infinity''
     else if s = ''-infinity'' then Some ''-infinity'' else None)"

definition canonicalDate :: "('f, 't, 'o) value_env \<Rightarrow> ('f, 't, 'o) go_any \<Rightarrow> exposure_error + go_string" where
  "canonicalDate V v =
     (case v of
        AnyTime t \<Rightarrow> Inr (tm_Format V date_layout t)
      | AnyDate valid modifier t \<Rightarrow>
          (if \<not> valid then Inr ''null''
           else (case infinity_text modifier of Some text \<Rightarrow> Inr text | None \<Rightarrow> Inr (tm_Format V date_layout t)))
      | AnyString s \<Rightarrow>
          (case infinity_word s of
             Some text \<Rightarrow> Inr text
           | None \<Rightarrow> (case tm_Parse V date_layout s of
               None \<Rightarrow> Inl (ExposureInvalid ''invalid temporal value'')
             | Some t \<Rightarrow> Inr (tm_Format V date_layout t)))
      | _ \<Rightarrow> Inl (ExposureInvalid ''not temporal''))"

definition microsecondsPerDay :: int where
  "microsecondsPerDay = 86400000000"

definition clock_microseconds :: "int \<times> int \<times> int \<times> int \<Rightarrow> int64" where
  "clock_microseconds c = (case c of (hour, minute, second, nanosecond) \<Rightarrow>
     hour * 3600000000 + minute * 60000000 + second * 1000000 + nanosecond div 1000)"

text \<open>\<open>time.Duration.Microseconds\<close> truncates towards zero.\<close>

definition duration_microseconds :: "int \<Rightarrow> int64" where
  "duration_microseconds d = (if d < 0 then - ((- d) div 1000) else d div 1000)"

definition canonicalTimeOfDay :: "('f, 't, 'o) value_env \<Rightarrow> ('f, 't, 'o) go_any \<Rightarrow> exposure_error + go_string" where
  "canonicalTimeOfDay V v =
     (let check = (\<lambda>us. if us < 0 \<or> us > microsecondsPerDay
            then Inl (ExposureInvalid ''time without time zone is outside 00:00:00..24:00:00'')
            else Inr (FormatInt us))
      in case v of
        AnyPgTime valid us \<Rightarrow> (if \<not> valid then Inr ''null'' else check us)
      | AnyDuration d \<Rightarrow> check (duration_microseconds d)
      | AnyTime t \<Rightarrow> check (clock_microseconds (tm_clock V t))
      | AnyString s \<Rightarrow>
          (case tm_Parse V ''15:04:05.999999'' s of
             None \<Rightarrow> Inl (ExposureInvalid ''invalid time without time zone'')
           | Some t \<Rightarrow> check (clock_microseconds (tm_clock V t)))
      | _ \<Rightarrow> Inl (ExposureInvalid ''not a time without time zone''))"

definition contains_char :: "char \<Rightarrow> go_string \<Rightarrow> bool" where
  "contains_char c s \<longleftrightarrow> list_ex ((=) c) s"

definition timestamp_layout :: "bool \<Rightarrow> go_string \<Rightarrow> go_string" where
  "timestamp_layout withTimezone s =
     (if withTimezone then ''2006-01-02T15:04:05.999999999Z07:00''
      else if contains_char (CHR '' '') s \<and> \<not> contains_char (CHR ''T'') s then ''2006-01-02 15:04:05.999999999''
      else ''2006-01-02T15:04:05.999999999'')"

definition format_timestamp :: "('f, 't, 'o) value_env \<Rightarrow> bool \<Rightarrow> 't \<Rightarrow> go_string" where
  "format_timestamp V withTimezone t =
     (if withTimezone then tm_Format V ''2006-01-02T15:04:05.999999Z07:00'' (tm_Truncate_us V (tm_UTC V t))
      else tm_Format V ''2006-01-02T15:04:05.999999'' (tm_Truncate_us V t))"

definition pg_timestamp ::
  "('f, 't, 'o) value_env \<Rightarrow> bool \<Rightarrow> bool \<Rightarrow> InfinityModifier \<Rightarrow> 't \<Rightarrow> exposure_error + go_string" where
  "pg_timestamp V withTimezone valid modifier t =
     (if \<not> valid then Inr ''null''
      else (case infinity_text modifier of
          Some text \<Rightarrow> Inr text
        | None \<Rightarrow> Inr (format_timestamp V withTimezone t)))"

definition canonicalTimestamp ::
  "('f, 't, 'o) value_env \<Rightarrow> bool \<Rightarrow> ('f, 't, 'o) go_any \<Rightarrow> exposure_error + go_string" where
  "canonicalTimestamp V withTimezone v =
     (case v of
        AnyTime t \<Rightarrow> Inr (format_timestamp V withTimezone t)
      | AnyTimestamp valid modifier t \<Rightarrow> pg_timestamp V withTimezone valid modifier t
      | AnyTimestamptz valid modifier t \<Rightarrow> pg_timestamp V withTimezone valid modifier t
      | AnyString s \<Rightarrow>
          (case infinity_word s of
             Some text \<Rightarrow> Inr text
           | None \<Rightarrow> (case tm_Parse V (timestamp_layout withTimezone s) s of
               None \<Rightarrow> Inl (ExposureInvalid ''invalid timestamp'')
             | Some t \<Rightarrow> Inr (format_timestamp V withTimezone t)))
      | _ \<Rightarrow> Inl (ExposureInvalid ''not a timestamp''))"

subsection \<open>The binary form of jsonb values\<close>

text \<open>
  \<open>writeCanonicalJSONValue\<close> on what the decoder produces: a tag byte, then the payload;
  object members are written in the order of their keys.
\<close>

primrec write_json :: "('f, 't, 'o) value_env \<Rightarrow> json_value \<Rightarrow> exposure_error + byte list" where
  "write_json V JNull = Inr (bytes_of ''z'')"
| "write_json V (JBool b) = Inr (bytes_of (if b then ''b1'' else ''b0''))"
| "write_json V (JString s) = Inr (bytes_of ''s'' @ frame_string s)"
| "write_json V (JNumber s) =
     (case rat_SetString V s of
        None \<Rightarrow> Inl (ExposureInvalid ''JSON number is not exact'')
      | Some r \<Rightarrow> Inr (bytes_of ''n'' @ frame_string (RatString r)))"
| "write_json V (JArray vs) =
     (case collect (map (write_json V) vs) of
        Inl e \<Rightarrow> Inl e
      | Inr items \<Rightarrow> Inr (bytes_of ''a'' @ big_endian 8 (length vs) @ concat items))"
| "write_json V (JObject ms) =
     (case collect (map (\<lambda>(k, r). case r of Inl e \<Rightarrow> Inl e | Inr b \<Rightarrow> Inr (frame_string k @ b))
         (sort_key fst (map (map_prod id (write_json V)) ms))) of
        Inl e \<Rightarrow> Inl e
      | Inr members \<Rightarrow> Inr (bytes_of ''o'' @ big_endian 8 (length ms) @ concat members))"

text \<open>The default branch: through \<open>json.Marshal\<close> and the decoder.\<close>

definition write_marshalled :: "('f, 't, 'o) value_env \<Rightarrow> ('f, 't, 'o) go_any \<Rightarrow> exposure_error + byte list" where
  "write_marshalled V v =
     (case json_Marshal V v of
        None \<Rightarrow> Inl (ExposureInvalid ''invalid JSON value'')
      | Some text \<Rightarrow>
          (case json_Decode V text of
             Decoded j _ \<Rightarrow> write_json V j
           | _ \<Rightarrow> Inl (ExposureInvalid ''invalid JSON value'')))"

primrec writeCanonicalJSONValue :: "('f, 't, 'o) value_env \<Rightarrow> ('f, 't, 'o) go_any \<Rightarrow> exposure_error + byte list" where
  "writeCanonicalJSONValue V AnyNil = Inr (bytes_of ''z'')"
| "writeCanonicalJSONValue V (AnyBool b) = Inr (bytes_of (if b then ''b1'' else ''b0''))"
| "writeCanonicalJSONValue V (AnyString s) = Inr (bytes_of ''s'' @ frame_string s)"
| "writeCanonicalJSONValue V (AnyNumber s) =
     (case rat_SetString V s of
        None \<Rightarrow> Inl (ExposureInvalid ''JSON number is not exact'')
      | Some r \<Rightarrow> Inr (bytes_of ''n'' @ frame_string (RatString r)))"
| "writeCanonicalJSONValue V (AnyFloat64 x) =
     (if fl_IsInf V x 0 \<or> fl_IsNaN V x then Inl (ExposureInvalid ''JSON number is non-finite'')
      else (case rat_SetString V (fl_format V (CHR ''g'') 64 x) of
          None \<Rightarrow> Inl (ExposureInvalid ''JSON number is not exact'')
        | Some r \<Rightarrow> Inr (bytes_of ''n'' @ frame_string (RatString r))))"
| "writeCanonicalJSONValue V (AnySlice vs) =
     (case collect (map (writeCanonicalJSONValue V) vs) of
        Inl e \<Rightarrow> Inl e
      | Inr items \<Rightarrow> Inr (bytes_of ''a'' @ big_endian 8 (length vs) @ concat items))"
| "writeCanonicalJSONValue V (AnyMap ms) =
     (case collect (map (\<lambda>(k, r). case r of Inl e \<Rightarrow> Inl e | Inr b \<Rightarrow> Inr (frame_string k @ b))
         (sort_key fst (map (map_prod id (writeCanonicalJSONValue V)) ms))) of
        Inl e \<Rightarrow> Inl e
      | Inr members \<Rightarrow> Inr (bytes_of ''o'' @ big_endian 8 (length ms) @ concat members))"
| "writeCanonicalJSONValue V (AnyInt n) = write_marshalled V (AnyInt n)"
| "writeCanonicalJSONValue V (AnyFloat32 x) = write_marshalled V (AnyFloat32 x)"
| "writeCanonicalJSONValue V (AnyBytes b) = write_marshalled V (AnyBytes b)"
| "writeCanonicalJSONValue V (AnyRawMessage b) = write_marshalled V (AnyRawMessage b)"
| "writeCanonicalJSONValue V (AnyArray16 b) = write_marshalled V (AnyArray16 b)"
| "writeCanonicalJSONValue V (AnyTime t) = write_marshalled V (AnyTime t)"
| "writeCanonicalJSONValue V (AnyDuration d) = write_marshalled V (AnyDuration d)"
| "writeCanonicalJSONValue V (AnyNumeric n) = write_marshalled V (AnyNumeric n)"
| "writeCanonicalJSONValue V (AnyDate a m t) = write_marshalled V (AnyDate a m t)"
| "writeCanonicalJSONValue V (AnyPgTime a n) = write_marshalled V (AnyPgTime a n)"
| "writeCanonicalJSONValue V (AnyTimestamp a m t) = write_marshalled V (AnyTimestamp a m t)"
| "writeCanonicalJSONValue V (AnyTimestamptz a m t) = write_marshalled V (AnyTimestamptz a m t)"
| "writeCanonicalJSONValue V (AnyUUID a b) = write_marshalled V (AnyUUID a b)"
| "writeCanonicalJSONValue V (AnyOther x) = write_marshalled V (AnyOther x)"

definition requireJSONEOF :: "('f, 't, 'o) value_env \<Rightarrow> go_string \<Rightarrow> exposure_error option" where
  "requireJSONEOF V rest =
     (case json_Decode V rest of
        Decoded _ _ \<Rightarrow> Some (ExposureInvalid ''JSON value has trailing content'')
      | DecodeError \<Rightarrow> Some (ExposureInvalid ''invalid trailing JSON content'')
      | DecodeEOF \<Rightarrow> None)"

definition decode_whole :: "('f, 't, 'o) value_env \<Rightarrow> go_string \<Rightarrow> exposure_error + byte list" where
  "decode_whole V text =
     (case json_Decode V text of
        Decoded j rest \<Rightarrow> (case requireJSONEOF V rest of Some e \<Rightarrow> Inl e | None \<Rightarrow> write_json V j)
      | _ \<Rightarrow> Inl (ExposureInvalid ''invalid JSON value''))"

definition canonicalJSONBValue :: "('f, 't, 'o) value_env \<Rightarrow> ('f, 't, 'o) go_any \<Rightarrow> exposure_error + byte list" where
  "canonicalJSONBValue V v =
     (case v of
        AnyBytes b \<Rightarrow> decode_whole V (string_of_bytes b)
      | AnyRawMessage b \<Rightarrow> decode_whole V (string_of_bytes b)
      | AnyString s \<Rightarrow> decode_whole V s
      | _ \<Rightarrow> writeCanonicalJSONValue V v)"

subsection \<open>The decoder of the binary form\<close>

datatype canonicalJSONBNode =
    NodeNull
  | NodeBool bool
  | NodeString go_string
  | NodeNumber go_string
  | NodeArray "canonicalJSONBNode list"
  | NodeObject "(go_string \<times> canonicalJSONBNode) list"

text \<open>\<open>binary.BigEndian.Uint64\<close>\<close>

definition be_value :: "byte list \<Rightarrow> nat" where
  "be_value bs = foldl (\<lambda>n b. 256 * n + unat b) 0 bs"

text \<open>
  The decoder keeps the data and an offset; here it is the bytes that remain. An error is
  \<open>Inl (Some e)\<close>; \<open>Inl None\<close> says that the fuel, a bound on the nesting, is used up.
\<close>

type_synonym 'a decoding = "exposure_error option + 'a \<times> byte list"

definition decoder_uint64 :: "byte list \<Rightarrow> nat decoding" where
  "decoder_uint64 bs =
     (if length bs < 8 then Inl (Some (ExposureInvalid ''truncated canonical JSONB length''))
      else Inr (be_value (take 8 bs), drop 8 bs))"

definition decoder_count :: "nat \<Rightarrow> byte list \<Rightarrow> nat decoding" where
  "decoder_count minimumBytes bs =
     (case decoder_uint64 bs of
        Inl e \<Rightarrow> Inl e
      | Inr (n, rest) \<Rightarrow>
          if n > length rest div minimumBytes \<or> int n > int64_max
          then Inl (Some (ExposureInvalid ''canonical JSONB count exceeds remaining input''))
          else Inr (n, rest))"

definition decoder_text :: "byte list \<Rightarrow> go_string decoding" where
  "decoder_text bs =
     (case decoder_uint64 bs of
        Inl e \<Rightarrow> Inl e
      | Inr (n, rest) \<Rightarrow>
          if n > length rest then Inl (Some (ExposureInvalid ''truncated canonical JSONB string''))
          else (let s = string_of_bytes (take n rest) in
            if \<not> utf8_valid s then Inl (Some (ExposureInvalid ''canonical JSONB string is not UTF-8''))
            else Inr (s, drop n rest)))"

fun decoder_value :: "('f, 't, 'o) value_env \<Rightarrow> nat \<Rightarrow> byte list \<Rightarrow> canonicalJSONBNode decoding"
  and decoder_items :: "('f, 't, 'o) value_env \<Rightarrow> nat \<Rightarrow> nat \<Rightarrow> byte list \<Rightarrow> canonicalJSONBNode list decoding"
  and decoder_members :: "('f, 't, 'o) value_env \<Rightarrow> nat \<Rightarrow> nat \<Rightarrow> go_string option \<Rightarrow> byte list \<Rightarrow>
        (go_string \<times> canonicalJSONBNode) list decoding" where
  "decoder_value V 0 bs = Inl None"
| "decoder_value V (Suc fuel) bs =
     (case bs of
        [] \<Rightarrow> Inl (Some (ExposureInvalid ''truncated canonical JSONB value''))
      | tag # rest \<Rightarrow>
          let c = char_of (unat tag) in
          if c = CHR ''z'' then Inr (NodeNull, rest)
          else if c = CHR ''b'' then
            (case string_of_bytes (take 1 rest) of
               [d] \<Rightarrow> (if d = CHR ''0'' \<or> d = CHR ''1'' then Inr (NodeBool (d = CHR ''1''), drop 1 rest)
                      else Inl (Some (ExposureInvalid ''malformed canonical JSONB boolean'')))
             | _ \<Rightarrow> Inl (Some (ExposureInvalid ''malformed canonical JSONB boolean'')))
          else if c = CHR ''s'' then
            (case decoder_text rest of Inl e \<Rightarrow> Inl e | Inr (s, rest') \<Rightarrow> Inr (NodeString s, rest'))
          else if c = CHR ''n'' then
            (case decoder_text rest of
               Inl e \<Rightarrow> Inl e
             | Inr (s, rest') \<Rightarrow>
                 (case rat_SetString V s of
                    None \<Rightarrow> Inl (Some (ExposureInvalid ''non-canonical JSONB rational''))
                  | Some r \<Rightarrow>
                      if RatString r \<noteq> s then Inl (Some (ExposureInvalid ''non-canonical JSONB rational''))
                      else Inr (NodeNumber s, rest')))
          else if c = CHR ''a'' then
            (case decoder_count 1 rest of
               Inl e \<Rightarrow> Inl e
             | Inr (n, rest') \<Rightarrow>
                 (case decoder_items V fuel n rest' of
                    Inl e \<Rightarrow> Inl e
                  | Inr (nodes, rest'') \<Rightarrow> Inr (NodeArray nodes, rest'')))
          else if c = CHR ''o'' then
            (case decoder_count 9 rest of
               Inl e \<Rightarrow> Inl e
             | Inr (n, rest') \<Rightarrow>
                 (case decoder_members V fuel n None rest' of
                    Inl e \<Rightarrow> Inl e
                  | Inr (members, rest'') \<Rightarrow> Inr (NodeObject members, rest'')))
          else Inl (Some (ExposureInvalid ''unknown canonical JSONB tag'')))"
| "decoder_items V fuel 0 bs = Inr ([], bs)"
| "decoder_items V fuel (Suc n) bs =
     (case decoder_value V fuel bs of
        Inl e \<Rightarrow> Inl e
      | Inr (node, rest) \<Rightarrow>
          (case decoder_items V fuel n rest of Inl e \<Rightarrow> Inl e | Inr (nodes, rest') \<Rightarrow> Inr (node # nodes, rest')))"
| "decoder_members V fuel 0 previous bs = Inr ([], bs)"
| "decoder_members V fuel (Suc n) previous bs =
     (case decoder_text bs of
        Inl e \<Rightarrow> Inl e
      | Inr (key, rest) \<Rightarrow>
          if (case previous of None \<Rightarrow> False | Some p \<Rightarrow> key \<le> p)
          then Inl (Some (ExposureInvalid ''canonical JSONB object keys are not strictly sorted''))
          else (case decoder_value V fuel rest of
              Inl e \<Rightarrow> Inl e
            | Inr (node, rest') \<Rightarrow>
                (case decoder_members V fuel n (Some key) rest' of
                   Inl e \<Rightarrow> Inl e
                 | Inr (members, rest'') \<Rightarrow> Inr ((key, node) # members, rest''))))"

primrec writeCanonicalJSONBNode :: "canonicalJSONBNode \<Rightarrow> byte list" where
  "writeCanonicalJSONBNode NodeNull = bytes_of ''z''"
| "writeCanonicalJSONBNode (NodeBool b) = bytes_of ''b'' @ bytes_of (if b then ''1'' else ''0'')"
| "writeCanonicalJSONBNode (NodeString s) = bytes_of ''s'' @ frame_string s"
| "writeCanonicalJSONBNode (NodeNumber s) = bytes_of ''n'' @ frame_string s"
| "writeCanonicalJSONBNode (NodeArray nodes) =
     bytes_of ''a'' @ big_endian 8 (length nodes) @ concat (map writeCanonicalJSONBNode nodes)"
| "writeCanonicalJSONBNode (NodeObject ms) =
     bytes_of ''o'' @ big_endian 8 (length ms) @
       concat (map (\<lambda>(k, b). frame_string k @ b) (map (map_prod id writeCanonicalJSONBNode) ms))"

text \<open>The fuel is one more than the length: every level of nesting reads a tag.\<close>

definition validateCanonicalJSONBEncoding :: "('f, 't, 'o) value_env \<Rightarrow> byte list \<Rightarrow> exposure_error option" where
  "validateCanonicalJSONBEncoding V encoded =
     (case decoder_value V (Suc (length encoded)) encoded of
        Inl None \<Rightarrow> Some (ExposureInvalid ''decoder fuel'')
      | Inl (Some e) \<Rightarrow> Some e
      | Inr (node, rest) \<Rightarrow>
          if rest \<noteq> [] then Some (ExposureInvalid ''canonical JSONB has trailing bytes'')
          else if writeCanonicalJSONBNode node \<noteq> encoded then Some (ExposureInvalid ''non-canonical JSONB encoding'')
          else None)"

subsection \<open>UUIDs\<close>

definition fromHexChar :: "char \<Rightarrow> nat option" where
  "fromHexChar c =
     (if char_in c 48 57 then Some (of_char c - 48)
      else if char_in c 97 102 then Some (of_char c - 87)
      else if char_in c 65 70 then Some (of_char c - 55)
      else None)"

text \<open>\<open>hex.DecodeString\<close>\<close>

fun hex_decode :: "go_string \<Rightarrow> byte list option" where
  "hex_decode [] = Some []"
| "hex_decode [x] = None"
| "hex_decode (x # y # s) =
     (case (fromHexChar x, fromHexChar y) of
        (Some a, Some b) \<Rightarrow> map_option ((#) (of_nat (16 * a + b))) (hex_decode s)
      | _ \<Rightarrow> None)"

definition uuid_text :: "byte list \<Rightarrow> go_string" where
  "uuid_text raw = (let e = hex_encode raw in
     take 8 e @ ''-'' @ take 4 (drop 8 e) @ ''-'' @ take 4 (drop 12 e) @ ''-'' @ take 4 (drop 16 e) @ ''-'' @ drop 20 e)"

definition uuid_of_string :: "go_string \<Rightarrow> exposure_error + go_string" where
  "uuid_of_string s =
     (let compact = filter (\<lambda>c. c \<noteq> CHR ''-'') (ToLower (TrimSpace s)) in
      if length compact \<noteq> 32 then Inl (ExposureInvalid ''invalid UUID'')
      else (case hex_decode compact of
          None \<Rightarrow> Inl (ExposureInvalid ''invalid UUID'')
        | Some raw \<Rightarrow> Inr (uuid_text raw)))"

definition canonicalUUID :: "('f, 't, 'o) go_any \<Rightarrow> exposure_error + go_string" where
  "canonicalUUID v =
     (case v of
        AnyUUID valid b \<Rightarrow> (if \<not> valid then Inr ''null'' else Inr (uuid_text b))
      | AnyArray16 b \<Rightarrow> Inr (uuid_text b)
      | AnyBytes b \<Rightarrow> (if length b = 16 then Inr (uuid_text b) else uuid_of_string (string_of_bytes b))
      | AnyString s \<Rightarrow> uuid_of_string s
      | _ \<Rightarrow> Inl (ExposureInvalid ''not UUID''))"

subsection \<open>The canonical encoding\<close>

definition tagged :: "go_string \<Rightarrow> exposure_error + go_string \<Rightarrow> exposure_error + go_string" where
  "tagged tag r = (case r of Inl e \<Rightarrow> Inl e | Inr s \<Rightarrow> Inr (tag @ s))"

definition tagged_or_null :: "go_string \<Rightarrow> exposure_error + go_string \<Rightarrow> exposure_error + go_string" where
  "tagged_or_null tag r = (case r of Inl e \<Rightarrow> Inl e | Inr s \<Rightarrow> if s = ''null'' then Inr ''null'' else Inr (tag @ s))"

text \<open>\<open>strings.TrimRight(text, " ")\<close>\<close>

definition trim_right_spaces :: "go_string \<Rightarrow> go_string" where
  "trim_right_spaces s = rev (dropWhile (\<lambda>c. c = CHR '' '') (rev s))"

definition CanonicalSQLValue ::
  "('f, 't, 'o) value_env \<Rightarrow> go_string \<Rightarrow> ('f, 't, 'o) go_any \<Rightarrow> exposure_error + go_string" where
  "CanonicalSQLValue V sqlType v =
     (case CanonicalSQLTypeV2 sqlType of
        Inl e \<Rightarrow> Inl e
      | Inr t \<Rightarrow>
        (if v = AnyNil then Inr ''null''
         else if t \<in> {''smallint'', ''integer'', ''bigint''} then
           (case canonicalInteger v of
              Inl e \<Rightarrow> Inl e
            | Inr s \<Rightarrow> (case validateIntegerRange t s of Some e \<Rightarrow> Inl e | None \<Rightarrow> Inr (''i:'' @ s)))
         else if t = ''numeric'' then tagged_or_null ''n:'' (canonicalNumeric V v)
         else if t = ''real'' \<or> t = ''double precision'' then tagged ''f:'' (canonicalFloat V t v)
         else if t = ''boolean'' then
           (case v of AnyBool b \<Rightarrow> Inr (''b:'' @ (if b then ''true'' else ''false''))
            | _ \<Rightarrow> Inl (ExposureInvalid ''not boolean''))
         else if t = ''bytea'' then
           (case v of AnyBytes b \<Rightarrow> Inr (''x:'' @ hex_encode b) | _ \<Rightarrow> Inl (ExposureInvalid ''not bytea''))
         else if t = ''date'' then tagged_or_null ''d:'' (canonicalDate V v)
         else if t = ''time without time zone'' then tagged_or_null ''tm:'' (canonicalTimeOfDay V v)
         else if t = ''timestamp with time zone'' then tagged_or_null ''tz:'' (canonicalTimestamp V True v)
         else if t = ''timestamp without time zone'' then tagged_or_null ''ts:'' (canonicalTimestamp V False v)
         else if t = ''jsonb'' then
           (case canonicalJSONBValue V v of Inl e \<Rightarrow> Inl e | Inr b \<Rightarrow> Inr (''j:'' @ string_of_bytes b))
         else if t = ''uuid'' then tagged_or_null ''u:'' (canonicalUUID v)
         else if t \<in> {''text'', ''character'', ''character varying''} then
           (case v of AnyString s \<Rightarrow> Inr (''s:'' @ (if t = ''character'' then trim_right_spaces s else s))
            | _ \<Rightarrow> Inl (ExposureInvalid ''not valid for SQL type''))
         else Inl (ExposureInvalid ''PostgreSQL type is outside the profile'')))"

subsection \<open>The check of an encoding\<close>

text \<open>\<open>strconv.ParseBool\<close> and the decimal \<open>strconv.ParseInt(s, 10, 64)\<close>\<close>

definition ParseBool :: "go_string \<Rightarrow> bool option" where
  "ParseBool s =
     (if s \<in> {''1'', ''t'', ''T'', ''true'', ''TRUE'', ''True''} then Some True
      else if s \<in> {''0'', ''f'', ''F'', ''false'', ''FALSE'', ''False''} then Some False
      else None)"

definition ParseInt64 :: "go_string \<Rightarrow> int option" where
  "ParseInt64 s = (case big_SetString s of None \<Rightarrow> None | Some n \<Rightarrow> if in_int64 n then Some n else None)"

definition strip_prefix :: "go_string \<Rightarrow> go_string \<Rightarrow> go_string option" where
  "strip_prefix p s = (if take (length p) s = p then Some (drop (length p) s) else None)"

definition requirePrefix :: "go_string \<Rightarrow> go_string \<Rightarrow> exposure_error + go_string" where
  "requirePrefix p encoded = (case strip_prefix p encoded of
     None \<Rightarrow> Inl (ExposureInvalid ''canonical literal requires prefix'') | Some text \<Rightarrow> Inr text)"

text \<open>The branch of the switch that turns the text back into a value, for the types that go through it.\<close>

definition decoded_literal ::
  "('f, 't, 'o) value_env \<Rightarrow> go_string \<Rightarrow> go_string \<Rightarrow> exposure_error + ('f, 't, 'o) go_any" where
  "decoded_literal V t encoded =
     (let as_string = (\<lambda>p. case requirePrefix p encoded of Inl e \<Rightarrow> Inl e | Inr text \<Rightarrow> Inr (AnyString text)) in
      if t \<in> {''smallint'', ''integer'', ''bigint''} then as_string ''i:''
      else if t = ''numeric'' then as_string ''n:''
      else if t = ''real'' \<or> t = ''double precision'' then
        (case requirePrefix ''f:'' encoded of
           Inl e \<Rightarrow> Inl e
         | Inr text \<Rightarrow>
             if text = ''nan'' then Inr (AnyFloat64 (fl_NaN V))
             else if text = ''+infinity'' then Inr (AnyFloat64 (fl_Inf V 1))
             else if text = ''-infinity'' then Inr (AnyFloat64 (fl_Inf V (- 1)))
             else (case fl_parse V (float_bits t) text of
                 None \<Rightarrow> Inl (ExposureInvalid ''invalid syntax'') | Some x \<Rightarrow> Inr (AnyFloat64 x)))
      else if t = ''boolean'' then
        (case requirePrefix ''b:'' encoded of
           Inl e \<Rightarrow> Inl e
         | Inr text \<Rightarrow> (case ParseBool text of
             None \<Rightarrow> Inl (ExposureInvalid ''invalid syntax'') | Some b \<Rightarrow> Inr (AnyBool b)))
      else if t = ''bytea'' then
        (case requirePrefix ''x:'' encoded of
           Inl e \<Rightarrow> Inl e
         | Inr text \<Rightarrow> (case hex_decode text of
             None \<Rightarrow> Inl (ExposureInvalid ''invalid hex'') | Some b \<Rightarrow> Inr (AnyBytes b)))
      else if t = ''date'' then as_string ''d:''
      else if t = ''timestamp with time zone'' then as_string ''tz:''
      else if t = ''timestamp without time zone'' then as_string ''ts:''
      else if t = ''uuid'' then as_string ''u:''
      else if t \<in> {''text'', ''character'', ''character varying''} then as_string ''s:''
      else Inl (ExposureInvalid ''unsupported canonical literal type''))"

definition validate_time_literal :: "go_string \<Rightarrow> exposure_error option" where
  "validate_time_literal encoded =
     (case requirePrefix ''tm:'' encoded of
        Inl e \<Rightarrow> Some e
      | Inr text \<Rightarrow>
          (case ParseInt64 text of
             None \<Rightarrow> Some (ExposureInvalid ''invalid syntax'')
           | Some us \<Rightarrow>
               if us < 0 \<or> us > microsecondsPerDay \<or> FormatInt us \<noteq> text
               then Some (ExposureInvalid ''non-canonical time without time zone encoding'') else None))"

definition ValidateCanonicalSQLValueEncoding ::
  "('f, 't, 'o) value_env \<Rightarrow> go_string \<Rightarrow> go_string \<Rightarrow> exposure_error option" where
  "ValidateCanonicalSQLValueEncoding V sqlType encoded =
     (case CanonicalSQLTypeV2 sqlType of
        Inl e \<Rightarrow> Some e
      | Inr t \<Rightarrow>
        (if encoded = ''null'' then None
         else if t = ''time without time zone'' then validate_time_literal encoded
         else if t = ''jsonb'' then
           (case requirePrefix ''j:'' encoded of
              Inl e \<Rightarrow> Some e
            | Inr text \<Rightarrow> validateCanonicalJSONBEncoding V (bytes_of text))
         else (case decoded_literal V t encoded of
             Inl e \<Rightarrow> Some e
           | Inr v \<Rightarrow>
               (case CanonicalSQLValue V t v of
                  Inl e \<Rightarrow> Some e
                | Inr reencoded \<Rightarrow>
                    if reencoded \<noteq> encoded then Some (ExposureInvalid ''non-canonical literal encoding'') else None))))"

subsection \<open>When a JSON value can be stored\<close>

text \<open>
  What \<open>encoding/json\<close> guarantees of a decoded value: strings are valid UTF-8 and the keys of an
  object are distinct. \<open>node_of\<close> is the tree that the binary form of the value describes.
\<close>

primrec json_ok :: "json_value \<Rightarrow> bool" where
  "json_ok JNull = True"
| "json_ok (JBool b) = True"
| "json_ok (JNumber s) = True"
| "json_ok (JString s) = utf8_valid s"
| "json_ok (JArray vs) = list_all id (map json_ok vs)"
| "json_ok (JObject ms) = (distinct (map fst ms) \<and>
     list_all (\<lambda>(k, ok). utf8_valid k \<and> ok) (map (map_prod id json_ok) ms))"

primrec node_ok :: "('f, 't, 'o) value_env \<Rightarrow> canonicalJSONBNode \<Rightarrow> bool" where
  "node_ok V NodeNull = True"
| "node_ok V (NodeBool b) = True"
| "node_ok V (NodeString s) = utf8_valid s"
| "node_ok V (NodeNumber s) = (utf8_valid s \<and> map_option RatString (rat_SetString V s) = Some s)"
| "node_ok V (NodeArray nodes) = list_all id (map (node_ok V) nodes)"
| "node_ok V (NodeObject ms) = (sorted_wrt (<) (map fst ms) \<and>
     list_all (\<lambda>(k, ok). utf8_valid k \<and> ok) (map (map_prod id (node_ok V)) ms))"

primrec node_of :: "('f, 't, 'o) value_env \<Rightarrow> json_value \<Rightarrow> canonicalJSONBNode" where
  "node_of V JNull = NodeNull"
| "node_of V (JBool b) = NodeBool b"
| "node_of V (JNumber s) = NodeNumber (case rat_SetString V s of None \<Rightarrow> [] | Some r \<Rightarrow> RatString r)"
| "node_of V (JString s) = NodeString s"
| "node_of V (JArray vs) = NodeArray (map (node_of V) vs)"
| "node_of V (JObject ms) = NodeObject (sort_key fst (map (map_prod id (node_of V)) ms))"

primrec json_of_node :: "canonicalJSONBNode \<Rightarrow> json_value" where
  "json_of_node NodeNull = JNull"
| "json_of_node (NodeBool b) = JBool b"
| "json_of_node (NodeString s) = JString s"
| "json_of_node (NodeNumber s) = JNumber s"
| "json_of_node (NodeArray nodes) = JArray (map json_of_node nodes)"
| "json_of_node (NodeObject ms) = JObject (map (map_prod id json_of_node) ms)"

text \<open>
  \<open>big.Rat.SetString\<close> reads back what \<open>RatString\<close> writes. The types whose values are encoded
  without floating point, calendar or JSON text; a well-typed value keeps the length of its arrays.
\<close>

definition reads_rationals :: "('f, 't, 'o) value_env \<Rightarrow> bool" where
  "reads_rationals V \<longleftrightarrow> (\<forall>r. rat_SetString V (RatString r) = Some r)"

definition exact_types :: "go_string list" where
  "exact_types = [''smallint'', ''integer'', ''bigint'', ''numeric'', ''boolean'', ''bytea'',
     ''time without time zone'', ''uuid'', ''text'', ''character'', ''character varying'']"

definition well_typed :: "('f, 't, 'o) go_any \<Rightarrow> bool" where
  "well_typed v = (case v of AnyArray16 b \<Rightarrow> length b = 16 | AnyUUID _ b \<Rightarrow> length b = 16 | _ \<Rightarrow> True)"

fun json_number :: "('f, 't, 'o) go_any \<Rightarrow> bool" where
  "json_number (AnyNumber s) = True"
| "json_number _ = False"

section \<open>Lemmas\<close>

subsection \<open>Bytes and lengths\<close>

lemma string_of_bytes_of [simp]: "string_of_bytes (bytes_of s) = s"
proof -
  have "char_of (unat (of_nat (of_char c) :: byte)) = c" for c :: char
    by (simp add: unat_of_nat)
  then show ?thesis by (simp add: string_of_bytes_def bytes_of_def comp_def)
qed

lemma bytes_of_string_of [simp]: "bytes_of (string_of_bytes bs) = bs"
proof -
  have "(of_nat (of_char (char_of (unat b) :: char)) :: byte) = b" for b :: byte
    using unsigned_less [of b, where ?'a = nat] by (simp add: take_bit_nat_eq_self of_char_of)
  then show ?thesis by (simp add: string_of_bytes_def bytes_of_def comp_def)
qed

lemma length_string_of_bytes [simp]: "length (string_of_bytes bs) = length bs"
  by (simp add: string_of_bytes_def)

lemma be_value_snoc [simp]: "be_value (bs @ [b]) = 256 * be_value bs + unat b"
  by (simp add: be_value_def)

lemma be_value_big_endian: "n < 256 ^ k \<Longrightarrow> be_value (big_endian k n) = n"
proof (induction k arbitrary: n)
  case (Suc k)
  then have "n div 256 < 256 ^ k" by (simp add: less_mult_imp_div_less mult.commute)
  with Suc.IH show ?case by (simp add: unat_of_nat)
qed (simp add: be_value_def)

lemma big_endian_be_value: "big_endian (length bs) (be_value bs) = bs"
proof (induction bs rule: rev_induct)
  case (snoc b bs)
  have "unat b < 256" using unsigned_less [of b, where ?'a = nat] by simp
  then have "(256 * be_value bs + unat b) div 256 = be_value bs" by simp
  moreover have "(of_nat (256 * be_value bs + unat b) :: byte) = b"
  proof -
    have "(of_nat (256 * be_value bs + unat b) :: byte) = of_nat (unat b)"
      by (simp only: of_nat_byte_eq) simp
    then show ?thesis by simp
  qed
  ultimately show ?case using snoc by simp
qed simp

lemma be_value_bound: "be_value bs < 256 ^ length bs"
proof (induction bs rule: rev_induct)
  case (snoc b bs)
  have "unat b < 256" using unsigned_less [of b, where ?'a = nat] by simp
  with snoc show ?case by simp
qed (simp add: be_value_def)

lemma decoder_uint64_write [simp]: "n < 18446744073709551616 \<Longrightarrow> decoder_uint64 (big_endian 8 n @ rest) = Inr (n, rest)"
  by (simp add: decoder_uint64_def be_value_big_endian)

lemma decoder_uint64_Inr:
  assumes "decoder_uint64 bs = Inr (n, rest)"
  shows "bs = big_endian 8 n @ rest" "n < 18446744073709551616"
proof -
  from assms have *: "8 \<le> length bs" "n = be_value (take 8 bs)" "rest = drop 8 bs"
    by (auto simp: decoder_uint64_def split: if_splits)
  then have "big_endian 8 n = take 8 bs" using big_endian_be_value [of "take 8 bs"] by simp
  then show "bs = big_endian 8 n @ rest" using * by simp
  show "n < 18446744073709551616" using be_value_bound [of "take 8 bs"] * by simp
qed

lemma decoder_text_write:
  "framable s \<Longrightarrow> utf8_valid s \<Longrightarrow> decoder_text (frame_string s @ rest) = Inr (s, rest)"
  by (simp add: decoder_text_def frame_string_def frame_def)

lemma decoder_text_Inr:
  assumes "decoder_text bs = Inr (s, rest)"
  shows "bs = frame_string s @ rest" "utf8_valid s"
proof -
  from assms obtain n r where nr: "decoder_uint64 bs = Inr (n, r)" "n \<le> length r" "utf8_valid s"
    "s = string_of_bytes (take n r)" "rest = drop n r"
    by (auto simp: decoder_text_def Let_def split: sum.splits if_splits)
  then show "bs = frame_string s @ rest" "utf8_valid s"
    using decoder_uint64_Inr [OF nr(1)] by (simp_all add: frame_string_def frame_def)
qed

lemma decoder_count_Inr:
  "decoder_count m bs = Inr (n, rest) \<Longrightarrow> bs = big_endian 8 n @ rest"
  by (auto simp: decoder_count_def split: sum.splits if_splits dest: decoder_uint64_Inr)

lemma decoder_count_write:
  assumes "int n \<le> int64_max" "n \<le> length rest div m"
  shows "decoder_count m (big_endian 8 n @ rest) = Inr (n, rest)"
proof -
  have "n < 18446744073709551616" using assms(1) by (simp add: int64_max_def)
  then show ?thesis using assms by (simp add: decoder_count_def)
qed

lemma length_frame_string [simp]: "length (frame_string s) = 8 + length s"
  by (simp add: frame_string_def frame_def)

subsection \<open>The decoder reads what the writer writes\<close>

lemma bytes_of_Cons: "bytes_of (c # s) = of_nat (of_char c) # bytes_of s"
  by (simp add: bytes_of_def)

lemma bytes_of_Nil [simp]: "bytes_of [] = []"
  by (simp add: bytes_of_def)

lemma char_tag [simp]: "char_of (unat (of_nat (of_char c) :: byte)) = c"
  by (simp add: unat_of_nat)

lemma tag_char: "char_of (unat (b :: byte)) = c \<Longrightarrow> b # bs = bytes_of [c] @ bs"
proof -
  assume "char_of (unat b) = c"
  then have "bytes_of [c] = bytes_of (string_of_bytes [b])" by (simp add: string_of_bytes_def)
  then show ?thesis by simp
qed

lemma decoder_sound:
  fixes V :: "('f, 't, 'o) value_env"
  shows "decoder_value V fuel bs = Inr (node, rest) \<Longrightarrow> bs = writeCanonicalJSONBNode node @ rest \<and> node_ok V node"
    and "decoder_items V fuel n bs = Inr (nodes, rest) \<Longrightarrow>
      bs = concat (map writeCanonicalJSONBNode nodes) @ rest \<and> length nodes = n \<and> list_all (node_ok V) nodes"
    and "decoder_members V fuel n previous bs = Inr (ms, rest) \<Longrightarrow>
      bs = concat (map (\<lambda>(k, m). frame_string k @ writeCanonicalJSONBNode m) ms) @ rest \<and> length ms = n \<and>
      sorted_wrt (<) (map fst ms) \<and> (\<forall>k\<in>set (map fst ms). \<forall>p. previous = Some p \<longrightarrow> p < k) \<and>
      list_all (\<lambda>(k, m). utf8_valid k \<and> node_ok V m) ms"
proof (induction V fuel bs and V fuel n bs and V fuel n previous bs arbitrary: node rest and nodes rest and ms rest
    rule: decoder_value_decoder_items_decoder_members.induct)
  case (1 V bs)
  then show ?case by simp
next
  case (2 V fuel bs)
  obtain tag r where bs: "bs = tag # r" using "2.prems" by (cases bs) auto
  let ?c = "char_of (unat tag) :: char"
  note prems = "2.prems" [unfolded bs decoder_value.simps list.case Let_def]
  have tagc: "bs = bytes_of [?c] @ r" using tag_char [of tag ?c r] bs by simp
  consider "?c = CHR ''z''" | "?c = CHR ''b''" | "?c = CHR ''s''" | "?c = CHR ''n''" | "?c = CHR ''a''" | "?c = CHR ''o''"
    using prems by (simp split: if_splits)
  then show ?case
  proof cases
    case 2
    then obtain d where d: "string_of_bytes (take 1 r) = [d]" "d = CHR ''0'' \<or> d = CHR ''1''"
      "node = NodeBool (d = CHR ''1'')" "rest = drop 1 r"
      using prems by (auto split: list.splits if_splits)
    have "r = bytes_of [d] @ rest" using d(1,4) by (metis append_take_drop_id bytes_of_string_of)
    then show ?thesis using d 2 tagc by auto
  next
    case 3
    then obtain s where "decoder_text r = Inr (s, rest)" "node = NodeString s"
      using prems by (auto split: sum.splits)
    then show ?thesis using 3 tagc decoder_text_Inr by simp
  next
    case 4
    then obtain s x where "decoder_text r = Inr (s, rest)" "node = NodeNumber s"
      "rat_SetString V s = Some x" "RatString x = s"
      using prems by (auto split: sum.splits option.splits if_splits)
    then show ?thesis using 4 tagc decoder_text_Inr by simp
  next
    case 5
    then obtain n r' nodes where n: "decoder_count 1 r = Inr (n, r')"
      "decoder_items V fuel n r' = Inr (nodes, rest)" "node = NodeArray nodes"
      using prems by (auto split: sum.splits)
    have "r' = concat (map writeCanonicalJSONBNode nodes) @ rest \<and> length nodes = n \<and> list_all (node_ok V) nodes"
      by (rule "2.IH"(1) [OF bs refl _ _ _ _ _ n(1) refl n(2)]) (use 5 in simp_all)
    then show ?thesis using n 5 tagc decoder_count_Inr [OF n(1)] by (simp add: list.pred_map comp_def)
  next
    case 6
    then obtain n r' ms where n: "decoder_count 9 r = Inr (n, r')"
      "decoder_members V fuel n None r' = Inr (ms, rest)" "node = NodeObject ms"
      using prems by (auto split: sum.splits)
    have "r' = concat (map (\<lambda>(k, m). frame_string k @ writeCanonicalJSONBNode m) ms) @ rest \<and> length ms = n \<and>
      sorted_wrt (<) (map fst ms) \<and> (\<forall>k\<in>set (map fst ms). \<forall>p. None = Some p \<longrightarrow> p < k) \<and>
      list_all (\<lambda>(k, m). utf8_valid k \<and> node_ok V m) ms"
      by (rule "2.IH"(2) [OF bs refl _ _ _ _ _ _ n(1) refl n(2)]) (use 6 in simp_all)
    then show ?thesis using n 6 tagc decoder_count_Inr [OF n(1)]
      by (simp add: list.pred_map comp_def split_def map_prod_def)
  qed (use prems tagc in auto)
next
  case (3 V fuel bs)
  then show ?case by simp
next
  case (4 V fuel n bs)
  then obtain node r nodes' where h: "decoder_value V fuel bs = Inr (node, r)"
    "decoder_items V fuel n r = Inr (nodes', rest)" "nodes = node # nodes'"
    by (auto split: sum.splits)
  then show ?case using "4.IH"(1) [OF h(1)] "4.IH"(2) [OF h(1) refl h(2)] by auto
next
  case (5 V fuel previous bs)
  then show ?case by simp
next
  case (6 V fuel n previous bs)
  then obtain key r node r' ms' where h: "decoder_text bs = Inr (key, r)"
    "\<not> (case previous of None \<Rightarrow> False | Some p \<Rightarrow> key \<le> p)" "decoder_value V fuel r = Inr (node, r')"
    "decoder_members V fuel n (Some key) r' = Inr (ms', rest)" "ms = (key, node) # ms'"
    by (auto split: sum.splits if_splits)
  note head = "6.IH"(1) [OF h(1) refl h(2) h(3)]
    and members = "6.IH"(2) [OF h(1) refl h(2) h(3) refl h(4)]
  have "p < k" if "k \<in> set (map fst ms)" "previous = Some p" for k p
    using that h(2,5) members by (auto intro: less_trans)
  then show ?case using h(5) head members decoder_text_Inr [OF h(1)] by (auto simp: comp_def)
qed

lemma write_nonempty: "0 < length (writeCanonicalJSONBNode node)"
  by (cases node) (simp_all add: bytes_of_Cons)

definition reads_back :: "('f, 't, 'o) value_env \<Rightarrow> canonicalJSONBNode \<Rightarrow> bool" where
  "reads_back V node \<longleftrightarrow> (\<forall>fuel rest.
     length (writeCanonicalJSONBNode node) < fuel \<and> int (length (writeCanonicalJSONBNode node)) \<le> int64_max \<longrightarrow>
     decoder_value V fuel (writeCanonicalJSONBNode node @ rest) = Inr (node, rest))"

lemma reads_backD:
  "reads_back V node \<Longrightarrow> length (writeCanonicalJSONBNode node) < fuel \<Longrightarrow>
    int (length (writeCanonicalJSONBNode node)) \<le> int64_max \<Longrightarrow>
    decoder_value V fuel (writeCanonicalJSONBNode node @ rest) = Inr (node, rest)"
  by (simp add: reads_back_def)

lemma items_read_back:
  assumes "\<forall>node\<in>set nodes. reads_back V node"
    and "length (concat (map writeCanonicalJSONBNode nodes)) < fuel"
    and "int (length (concat (map writeCanonicalJSONBNode nodes))) \<le> int64_max"
  shows "decoder_items V fuel (length nodes) (concat (map writeCanonicalJSONBNode nodes) @ rest) = Inr (nodes, rest)"
  using assms
proof (induction nodes)
  case (Cons node nodes)
  then show ?case using reads_backD [of V node fuel "concat (map writeCanonicalJSONBNode nodes) @ rest"] by simp
qed simp

lemma members_read_back:
  assumes "\<forall>(k, m)\<in>set ms. utf8_valid k \<and> reads_back V m"
    and "sorted_wrt (<) (map fst ms)" and "\<forall>k\<in>set (map fst ms). \<forall>p. previous = Some p \<longrightarrow> p < k"
    and "length (concat (map (\<lambda>(k, m). frame_string k @ writeCanonicalJSONBNode m) ms)) < fuel"
    and "int (length (concat (map (\<lambda>(k, m). frame_string k @ writeCanonicalJSONBNode m) ms))) \<le> int64_max"
  shows "decoder_members V fuel (length ms) previous
    (concat (map (\<lambda>(k, m). frame_string k @ writeCanonicalJSONBNode m) ms) @ rest) = Inr (ms, rest)"
  using assms
proof (induction ms arbitrary: previous)
  case (Cons p ms)
  obtain k m where p: "p = (k, m)" by (cases p)
  let ?w = "concat (map (\<lambda>(k, m). frame_string k @ writeCanonicalJSONBNode m) ms)"
  have "framable k" using Cons.prems(5) p by (simp add: int64_max_def)
  then have "decoder_text (frame_string k @ writeCanonicalJSONBNode m @ ?w @ rest) = Inr (k, writeCanonicalJSONBNode m @ ?w @ rest)"
    using Cons.prems(1) p by (simp add: decoder_text_write)
  moreover have "\<not> (case previous of None \<Rightarrow> False | Some q \<Rightarrow> k \<le> q)"
    using Cons.prems(3) p by (auto split: option.splits)
  moreover have "decoder_value V fuel (writeCanonicalJSONBNode m @ ?w @ rest) = Inr (m, ?w @ rest)"
    using Cons.prems p by (intro reads_backD) auto
  moreover have "decoder_members V fuel (length ms) (Some k) (?w @ rest) = Inr (ms, rest)"
    using Cons.prems p by (intro Cons.IH) auto
  ultimately show ?case using p by simp
qed simp

lemma length_concat_at_least: "(\<forall>x\<in>set xs. m \<le> length (f x)) \<Longrightarrow> m * length xs \<le> length (concat (map f xs))"
  by (induction xs) auto

lemma read_tagged:
  "decoder_value V (Suc fuel) (bytes_of ''z'' @ bs) = Inr (NodeNull, bs)"
  "d = CHR ''0'' \<or> d = CHR ''1'' \<Longrightarrow>
     decoder_value V (Suc fuel) (bytes_of ''b'' @ bytes_of [d] @ bs) = Inr (NodeBool (d = CHR ''1''), bs)"
  "decoder_value V (Suc fuel) (bytes_of ''s'' @ bs) =
     (case decoder_text bs of Inl e \<Rightarrow> Inl e | Inr (s, rest) \<Rightarrow> Inr (NodeString s, rest))"
  "decoder_text bs = Inr (s, rest) \<Longrightarrow> rat_SetString V s = Some r \<Longrightarrow> RatString r = s \<Longrightarrow>
     decoder_value V (Suc fuel) (bytes_of ''n'' @ bs) = Inr (NodeNumber s, rest)"
  "decoder_count 1 bs = Inr (n, rest) \<Longrightarrow> decoder_items V fuel n rest = Inr (nodes, rest') \<Longrightarrow>
     decoder_value V (Suc fuel) (bytes_of ''a'' @ bs) = Inr (NodeArray nodes, rest')"
  "decoder_count 9 bs = Inr (n, rest) \<Longrightarrow> decoder_members V fuel n None rest = Inr (ms, rest') \<Longrightarrow>
     decoder_value V (Suc fuel) (bytes_of ''o'' @ bs) = Inr (NodeObject ms, rest')"
  unfolding bytes_of_Cons bytes_of_Nil append_Cons append_Nil decoder_value.simps list.case Let_def char_tag
  by (simp_all add: string_of_bytes_def)

declare decoder_value.simps(2) [simp del]

lemma decoder_complete: "node_ok V node \<Longrightarrow> reads_back V node"
proof (induction node)
  case (NodeArray nodes)
  let ?w = "concat (map writeCanonicalJSONBNode nodes)"
  have all: "\<forall>node\<in>set nodes. reads_back V node"
    using NodeArray by (auto simp: list_all_iff)
  show ?case unfolding reads_back_def
  proof (intro allI impI)
    fix fuel rest
    assume bound: "length (writeCanonicalJSONBNode (NodeArray nodes)) < fuel \<and>
      int (length (writeCanonicalJSONBNode (NodeArray nodes))) \<le> int64_max"
    then obtain f where fuel: "fuel = Suc f" "length ?w < f" "int (length ?w) \<le> int64_max"
      by (cases fuel) (auto simp: bytes_of_Cons)
    have "length nodes \<le> length ?w"
      using length_concat_at_least [of nodes 1 writeCanonicalJSONBNode] write_nonempty by (simp add: Suc_le_eq)
    then have "decoder_count 1 (big_endian 8 (length nodes) @ ?w @ rest) = Inr (length nodes, ?w @ rest)"
      using fuel(3) by (intro decoder_count_write) auto
    then show "decoder_value V fuel (writeCanonicalJSONBNode (NodeArray nodes) @ rest) = Inr (NodeArray nodes, rest)"
      using items_read_back [OF all fuel(2,3), of rest] fuel(1) by (simp add: read_tagged(5))
  qed
next
  case (NodeObject ms)
  let ?w = "concat (map (\<lambda>(k, m). frame_string k @ writeCanonicalJSONBNode m) ms)"
  have form: "writeCanonicalJSONBNode (NodeObject ms) = bytes_of ''o'' @ big_endian 8 (length ms) @ ?w"
    by (simp add: comp_def split_def map_prod_def)
  have all: "\<forall>(k, m)\<in>set ms. utf8_valid k \<and> reads_back V m"
    using NodeObject by (fastforce simp: list_all_iff)
  show ?case unfolding reads_back_def form
  proof (intro allI impI)
    fix fuel rest
    assume bound: "length (bytes_of ''o'' @ big_endian 8 (length ms) @ ?w) < fuel \<and>
      int (length (bytes_of ''o'' @ big_endian 8 (length ms) @ ?w)) \<le> int64_max"
    then obtain f where fuel: "fuel = Suc f" "length ?w < f" "int (length ?w) \<le> int64_max"
      by (cases fuel) (auto simp: bytes_of_Cons)
    have "9 * length ms \<le> length ?w"
      using write_nonempty by (intro length_concat_at_least) (auto simp: Suc_le_eq)
    then have "decoder_count 9 (big_endian 8 (length ms) @ ?w @ rest) = Inr (length ms, ?w @ rest)"
      using fuel(3) by (intro decoder_count_write) auto
    then show "decoder_value V fuel ((bytes_of ''o'' @ big_endian 8 (length ms) @ ?w) @ rest) = Inr (NodeObject ms, rest)"
      using members_read_back [OF all _ _ fuel(2,3), of None rest] NodeObject.prems fuel(1) by (simp add: read_tagged(6))
  qed
next
  case (NodeString s)
  then show ?case unfolding reads_back_def
  proof (intro allI impI)
    fix fuel rest
    assume bound: "length (writeCanonicalJSONBNode (NodeString s)) < fuel \<and> int (length (writeCanonicalJSONBNode (NodeString s))) \<le> int64_max"
    then show "decoder_value V fuel (writeCanonicalJSONBNode (NodeString s) @ rest) = Inr (NodeString s, rest)"
      using NodeString by (cases fuel) (simp_all add: read_tagged(3) decoder_text_write int64_max_def)
  qed
next
  case (NodeNumber s)
  then show ?case unfolding reads_back_def
  proof (intro allI impI)
    fix fuel rest
    assume bound: "length (writeCanonicalJSONBNode (NodeNumber s)) < fuel \<and> int (length (writeCanonicalJSONBNode (NodeNumber s))) \<le> int64_max"
    then show "decoder_value V fuel (writeCanonicalJSONBNode (NodeNumber s) @ rest) = Inr (NodeNumber s, rest)"
      using NodeNumber by (cases fuel) (auto simp: decoder_text_write int64_max_def intro: read_tagged(4))
  qed
next
  case (NodeBool b)
  show ?case unfolding reads_back_def
    by (intro allI impI, case_tac fuel) (auto simp: read_tagged(2))
next
  case NodeNull
  show ?case unfolding reads_back_def by (intro allI impI, case_tac fuel) (auto simp: read_tagged(1))
qed

subsection \<open>The writer of JSON values\<close>

lemma sort_key_map: "sort_key f (map g xs) = map g (sort_key (\<lambda>x. f (g x)) xs)"
proof -
  have "insort_key f (g x) (map g xs) = map g (insort_key (\<lambda>x. f (g x)) x xs)" for x xs
    by (induction xs) auto
  then show ?thesis by (induction xs) auto
qed

definition write_member :: "('f, 't, 'o) value_env \<Rightarrow> go_string \<times> json_value \<Rightarrow> exposure_error + byte list" where
  "write_member V p = (case write_json V (snd p) of Inl e \<Rightarrow> Inl e | Inr b \<Rightarrow> Inr (frame_string (fst p) @ b))"

lemma write_json_object:
  "write_json V (JObject ms) =
     (case collect (map (write_member V) (sort_key fst ms)) of
        Inl e \<Rightarrow> Inl e
      | Inr members \<Rightarrow> Inr (bytes_of ''o'' @ big_endian 8 (length ms) @ concat members))"
proof -
  have "(\<lambda>(k, r). case r of Inl e \<Rightarrow> Inl e | Inr b \<Rightarrow> Inr (frame_string k @ b)) (map_prod id (write_json V) p) = write_member V p" for p
    by (cases p) (simp add: write_member_def split: sum.split)
  then show ?thesis by (simp add: sort_key_map comp_def del: case_prod_map_prod)
qed

lemma write_members:
  assumes "collect (map (write_member V) ps) = Inr items"
  shows "length items = length ps"
    and "i < length ps \<Longrightarrow> \<exists>b. write_json V (snd (ps ! i)) = Inr b \<and> items ! i = frame_string (fst (ps ! i)) @ b"
proof -
  have *: "list_all2 (\<lambda>p x. write_member V p = Inr x) ps items" using assms by (simp add: collect_map_Inr)
  then show "length items = length ps" by (simp add: list_all2_lengthD)
  show "\<exists>b. write_json V (snd (ps ! i)) = Inr b \<and> items ! i = frame_string (fst (ps ! i)) @ b" if "i < length ps"
    using list_all2_nthD [OF * that] by (auto simp: write_member_def split: sum.splits)
qed

lemma write_json_node: "write_json V v = Inr bs \<Longrightarrow> bs = writeCanonicalJSONBNode (node_of V v)"
proof (induction v arbitrary: bs)
  case (JArray vs)
  then obtain items where items: "collect (map (write_json V) vs) = Inr items"
    "bs = bytes_of ''a'' @ big_endian 8 (length vs) @ concat items"
    by (auto split: sum.splits)
  have "items = map (\<lambda>v. writeCanonicalJSONBNode (node_of V v)) vs"
    using items(1) JArray.IH unfolding collect_map_Inr
    by (auto simp: list_all2_conv_all_nth intro!: nth_equalityI)
  then show ?case using items(2) by (simp add: comp_def)
next
  case (JObject ms)
  let ?ms = "sort_key fst ms"
  obtain items where items: "collect (map (write_member V) ?ms) = Inr items"
    "bs = bytes_of ''o'' @ big_endian 8 (length ms) @ concat items"
    using JObject.prems unfolding write_json_object by (auto split: sum.splits)
  have "items ! i = frame_string (fst (?ms ! i)) @ writeCanonicalJSONBNode (node_of V (snd (?ms ! i)))"
    if i: "i < length ?ms" for i
  proof -
    obtain b where b: "write_json V (snd (?ms ! i)) = Inr b" "items ! i = frame_string (fst (?ms ! i)) @ b"
      using write_members(2) [OF items(1) i] by blast
    have "?ms ! i \<in> set ms" using nth_mem [OF i] by (simp only: set_sort)
    then have "b = writeCanonicalJSONBNode (node_of V (snd (?ms ! i)))"
      using b(1) by (intro JObject.IH [of "?ms ! i" "snd (?ms ! i)"]) (auto simp: snds.simps)
    with b(2) show ?thesis by simp
  qed
  then have "items = map (\<lambda>p. frame_string (fst p) @ writeCanonicalJSONBNode (node_of V (snd p))) ?ms"
    using write_members(1) [OF items(1)] by (auto intro!: nth_equalityI)
  then show ?case using items(2) by (simp add: sort_key_map comp_def split_def map_prod_def)
qed (auto simp: bytes_of_Cons split: option.splits)

lemma ascii_utf8: "\<forall>c\<in>set s. of_char c < (0x80 :: nat) \<Longrightarrow> utf8_valid s"
  by (induction s) auto

lemma decimal_digits: "\<forall>c\<in>set (decimal n). digit_char c"
proof (induction n rule: decimal.induct)
  case (1 n)
  have digit: "digit_char (char_of (48 + k :: nat))" if "k < 10" for k
    using that by (simp add: digit_char_def char_in_def of_char_of)
  show ?case using "1.IH" by (subst decimal.simps) (auto simp: digit)
qed

lemma decimal_nonempty [simp]: "decimal n \<noteq> []"
  by (subst decimal.simps) simp

lemma FormatInt_ascii: "c \<in> set (FormatInt n) \<Longrightarrow> digit_char c \<or> c = CHR ''-''"
  using decimal_digits by (auto simp: FormatInt_def split: if_splits)

lemma RatString_chars: "c \<in> set (RatString r) \<Longrightarrow> digit_char c \<or> c = CHR ''-'' \<or> c = CHR ''/''"
  using FormatInt_ascii by (auto simp: RatString_def split: if_splits prod.splits)

lemma RatString_utf8 [simp]: "utf8_valid (RatString r)"
  by (rule ascii_utf8) (auto dest!: RatString_chars simp: digit_char_def char_in_def)

lemma node_of_ok:
  assumes "\<forall>r. rat_SetString V (RatString r) = Some r"
  shows "json_ok v \<Longrightarrow> write_json V v = Inr bs \<Longrightarrow> node_ok V (node_of V v)"
proof (induction v arbitrary: bs)
  case (JArray vs)
  then obtain items where "collect (map (write_json V) vs) = Inr items"
    by (auto split: sum.splits)
  then have "\<exists>b. write_json V v = Inr b" if "v \<in> set vs" for v
    using that collect_member [of "write_json V" vs items v] by auto
  moreover have "json_ok v" if "v \<in> set vs" for v using that JArray.prems(1) by (simp add: list_all_iff)
  ultimately have "node_ok V (node_of V v)" if "v \<in> set vs" for v using that JArray.IH by metis
  then show ?case by (simp add: list_all_iff)
next
  case (JObject ms)
  obtain items where items: "collect (map (write_member V) (sort_key fst ms)) = Inr items"
    using JObject.prems(2) unfolding write_json_object by (auto split: sum.splits)
  have written: "\<exists>b. write_json V v = Inr b" if "(k, v) \<in> set ms" for k v
  proof -
    have "(k, v) \<in> set (sort_key fst ms)" using that by simp
    then obtain i where "i < length (sort_key fst ms)" "sort_key fst ms ! i = (k, v)"
      unfolding in_set_conv_nth by blast
    then show ?thesis using write_members(2) [OF items, of i] by auto
  qed
  have "utf8_valid k \<and> node_ok V (node_of V v)" if kv: "(k, v) \<in> set ms" for k v
  proof -
    obtain b where b: "write_json V v = Inr b" using written [OF kv] by blast
    have ok: "utf8_valid k \<and> json_ok v" using JObject.prems(1) kv by (auto simp: list_all_iff)
    with JObject.IH [OF kv _ _ b] show ?thesis by simp
  qed
  moreover have "map fst (sort_key fst (map (map_prod id (node_of V)) ms)) = sort (map fst ms)"
    by (simp add: sort_key_map comp_def)
  ultimately show ?case
    using JObject.prems(1) by (auto simp: list_all_iff strict_sorted_iff)
qed (use assms in \<open>auto split: option.splits\<close>)

lemma json_of_node_ok: "node_ok V node \<Longrightarrow> json_ok (json_of_node node) \<and>
    write_json V (json_of_node node) = Inr (writeCanonicalJSONBNode node)"
proof (induction node)
  case (NodeArray nodes)
  then have all: "\<forall>n\<in>set nodes. json_ok (json_of_node n) \<and> write_json V (json_of_node n) = Inr (writeCanonicalJSONBNode n)"
    by (auto simp: list_all_iff)
  then have "collect (map (write_json V) (map json_of_node nodes)) = Inr (map writeCanonicalJSONBNode nodes)"
    unfolding collect_map_Inr by (simp add: list_all2_conv_all_nth)
  then show ?case using all by (simp add: list_all_iff)
next
  case (NodeObject ms)
  have all: "utf8_valid k \<and> json_ok (json_of_node n) \<and> write_json V (json_of_node n) = Inr (writeCanonicalJSONBNode n)"
    if "(k, n) \<in> set ms" for k n
    using NodeObject.IH [OF that] NodeObject.prems that by (auto simp: list_all_iff)
  let ?js = "map (map_prod id json_of_node) ms"
  have sorted: "sorted_wrt (<) (map fst ms)" using NodeObject.prems by simp
  have "map fst ?js = map fst ms" by simp
  then have js: "sort_key fst ?js = ?js"
    using sorted by (intro sort_key_id_if_sorted) (simp add: strict_sorted_iff)
  have "collect (map (write_member V) ?js) = Inr (map (\<lambda>(k, n). frame_string k @ writeCanonicalJSONBNode n) ms)"
    unfolding collect_map_Inr by (auto simp: list.rel_map write_member_def all intro!: list.rel_refl_strong)
  then have "write_json V (JObject ?js) = Inr (writeCanonicalJSONBNode (NodeObject ms))"
    unfolding write_json_object js by (simp add: comp_def split_def map_prod_def)
  moreover have "json_ok (JObject ?js)"
    using all sorted by (auto simp: list_all_iff strict_sorted_iff)
  ultimately show ?case by simp
qed (auto simp: bytes_of_Cons)

lemma decoder_shorter:
  "decoder_value V fuel bs = Inr (node, rest) \<Longrightarrow> length rest < length bs"
  using decoder_sound(1) [of V fuel bs node rest] write_nonempty [of node] by auto

lemma decoder_text_shorter: "decoder_text bs = Inr (s, rest) \<Longrightarrow> length rest < length bs"
  using decoder_text_Inr(1) [of bs s rest] by simp

lemma decoder_count_shorter: "decoder_count m bs = Inr (n, rest) \<Longrightarrow> length rest < length bs"
  using decoder_count_Inr [of m bs n rest] by simp

lemma no_fuel_error [simp]: "decoder_text bs \<noteq> Inl None" "decoder_count m bs \<noteq> Inl None"
  by (auto simp: decoder_text_def decoder_count_def decoder_uint64_def Let_def split: sum.splits if_splits)

text \<open>Any fuel above the length of the input gives the same answer, and never the lack of fuel.\<close>

lemma decoder_fuel:
  fixes V :: "('f, 't, 'o) value_env"
  shows "length bs < fuel \<Longrightarrow> length bs < fuel' \<Longrightarrow>
      decoder_value V fuel bs = decoder_value V fuel' bs \<and> decoder_value V fuel bs \<noteq> Inl None"
    and "length bs < fuel \<Longrightarrow> length bs < fuel' \<Longrightarrow>
      decoder_items V fuel n bs = decoder_items V fuel' n bs \<and> decoder_items V fuel n bs \<noteq> Inl None"
    and "length bs < fuel \<Longrightarrow> length bs < fuel' \<Longrightarrow>
      decoder_members V fuel n previous bs = decoder_members V fuel' n previous bs \<and>
      decoder_members V fuel n previous bs \<noteq> Inl None"
proof (induction V fuel bs and V fuel n bs and V fuel n previous bs arbitrary: fuel' and fuel' and fuel'
    rule: decoder_value_decoder_items_decoder_members.induct)
  case (2 V fuel bs)
  obtain f where f: "fuel' = Suc f" using "2.prems"(2) by (cases fuel') auto
  show ?case
  proof (cases bs)
    case (Cons tag rest)
    have items: "decoder_items V fuel n r = decoder_items V f n r \<and> decoder_items V fuel n r \<noteq> Inl None"
      if "decoder_count 1 rest = Inr (n, r)" "char_of (unat tag) = CHR ''a''" for n r
      using "2.IH"(1) [OF Cons refl _ _ _ _ _ that(1) refl, of f] that decoder_count_shorter [OF that(1)] "2.prems" Cons f
      by auto
    have members: "decoder_members V fuel n None r = decoder_members V f n None r \<and> decoder_members V fuel n None r \<noteq> Inl None"
      if "decoder_count 9 rest = Inr (n, r)" "char_of (unat tag) = CHR ''o''" for n r
      using "2.IH"(2) [OF Cons refl _ _ _ _ _ _ that(1) refl, of f] that decoder_count_shorter [OF that(1)] "2.prems" Cons f
      by auto
    consider "char_of (unat tag) = CHR ''a''" | "char_of (unat tag) = CHR ''o''"
      | "char_of (unat tag) \<noteq> CHR ''a''" "char_of (unat tag) \<noteq> CHR ''o''" by blast
    then show ?thesis
    proof cases
      case 1
      then show ?thesis unfolding f Cons decoder_value.simps list.case Let_def
        using items by (cases "decoder_count 1 rest") (use no_fuel_error(2) [of 1 rest] in \<open>auto split: sum.splits\<close>)
    next
      case 2
      then show ?thesis unfolding f Cons decoder_value.simps list.case Let_def
        using members by (cases "decoder_count 9 rest") (use no_fuel_error(2) [of 9 rest] in \<open>auto split: sum.splits\<close>)
    next
      case 3
      then have "decoder_value V (Suc fuel) bs = decoder_value V fuel' bs"
        unfolding f Cons decoder_value.simps list.case Let_def by simp
      moreover have "decoder_value V (Suc fuel) bs \<noteq> Inl None"
      proof
        assume "decoder_value V (Suc fuel) bs = Inl None"
        with 3 show False unfolding Cons decoder_value.simps list.case Let_def
          using no_fuel_error(1) [of rest]
          by (cases "decoder_text rest") (simp_all split: list.splits option.splits if_splits prod.splits)
      qed
      ultimately show ?thesis by simp
    qed
  qed (simp add: f decoder_value.simps)
next
  case (4 V fuel n bs)
  show ?case
  proof (cases "decoder_value V fuel bs")
    case (Inr p)
    obtain node rest where p: "p = (node, rest)" by (cases p)
    have "decoder_items V fuel n rest = decoder_items V fuel' n rest \<and> decoder_items V fuel n rest \<noteq> Inl None"
      using "4.IH"(2) [OF Inr p [symmetric], of fuel'] decoder_shorter [of V fuel bs node rest] Inr p "4.prems" by auto
    then show ?thesis using "4.IH"(1) [of fuel'] "4.prems" Inr p by (auto split: sum.splits)
  qed (use "4.IH"(1) [of fuel'] "4.prems" in auto)
next
  case (6 V fuel n previous bs)
  show ?case
  proof (cases "decoder_text bs")
    case (Inr p)
    obtain key rest where p: "p = (key, rest)" by (cases p)
    show ?thesis
    proof (cases "case previous of None \<Rightarrow> False | Some p \<Rightarrow> key \<le> p")
      case False
      have short: "length rest < length bs" using decoder_text_shorter Inr p by simp
      note head = "6.IH"(1) [OF Inr p [symmetric] False, of fuel']
      show ?thesis
      proof (cases "decoder_value V fuel rest")
        case (Inr q)
        obtain node rest' where q: "q = (node, rest')" by (cases q)
        have "decoder_members V fuel n (Some key) rest' = decoder_members V fuel' n (Some key) rest' \<and>
            decoder_members V fuel n (Some key) rest' \<noteq> Inl None"
          using "6.IH"(2) [OF \<open>decoder_text bs = Inr p\<close> p [symmetric] False Inr q [symmetric], of fuel'] decoder_shorter [of V fuel rest node rest'] Inr q short "6.prems" by auto
        then show ?thesis using head "6.prems" Inr q short \<open>decoder_text bs = Inr p\<close> p False by (auto split: sum.splits)
      qed (use head "6.prems" short Inr p False in auto)
    qed (use Inr p in simp)
  qed (use no_fuel_error(1) [of bs] in auto)
qed simp_all

subsection \<open>Reading the scalar texts back\<close>

definition printable :: "char \<Rightarrow> bool" where
  "printable c \<longleftrightarrow> char_in c 0x21 0x7E"

lemma strip_one_printable:
  assumes "\<forall>c\<in>set s. printable c" "\<forall>p\<in>set ps. \<forall>c\<in>set p. \<not> printable c"
  shows "strip_one ps s = None"
  using assms
proof (induction ps s rule: strip_one.induct)
  case (2 p ps s)
  have "take (length p) s \<noteq> p" if "p \<noteq> []"
  proof
    assume "take (length p) s = p"
    then have "hd p \<in> set s" using that by (metis hd_in_set in_set_takeD)
    with 2 that show False by auto
  qed
  with 2 show ?case by auto
qed simp

lemma spaces_not_printable: "\<forall>p\<in>set space_encodings. \<forall>c\<in>set p. \<not> printable c"
  by (simp add: space_encodings_def printable_def char_in_def)

lemma TrimSpace_printable: "\<forall>c\<in>set s. printable c \<Longrightarrow> TrimSpace s = s"
proof -
  assume s: "\<forall>c\<in>set s. printable c"
  have "strip_all space_encodings s = s"
    using strip_one_printable [OF s spaces_not_printable] by (simp add: strip_all.simps)
  moreover have "strip_all (map rev space_encodings) (rev s) = rev s"
    using strip_one_printable [of "rev s" "map rev space_encodings"] s spaces_not_printable
    by (subst strip_all.simps) simp
  ultimately show ?thesis by (simp add: TrimSpace_def)
qed

lemma ToLower_fixed: "\<forall>c\<in>set s. printable c \<and> \<not> char_in c 65 90 \<Longrightarrow> ToLower s = s"
  by (induction s) (auto simp: printable_def char_in_def)

lemma digits_value_snoc: "digits_value (s @ [c]) = 10 * digits_value s + (of_char c - 48)"
  by (simp add: digits_value_def)

lemma big_digits_value: "digits_value (decimal n) = n"
proof (induction n rule: decimal.induct)
  case (1 n)
  have digit: "of_char (char_of (48 + k :: nat) :: char) - 48 = k" if "k < 10" for k
    using that by (simp add: of_char_of)
  show ?case
  proof (cases "n < 10")
    case True
    then show ?thesis using digit [of n] by (subst decimal.simps) (simp add: digits_value_def)
  next
    case False
    then show ?thesis using digit [of "n mod 10"] "1.IH"
      by (subst decimal.simps) (simp add: digits_value_snoc)
  qed
qed

lemma decimal_no_sign: "take 1 (decimal n) \<noteq> ''-''" "take 1 (decimal n) \<noteq> ''+''"
proof -
  have "digit_char (hd (decimal n))" using decimal_digits [of n] hd_in_set [OF decimal_nonempty] by blast
  then show "take 1 (decimal n) \<noteq> ''-''" "take 1 (decimal n) \<noteq> ''+''"
    by (cases "decimal n"; simp add: digit_char_def char_in_def; fastforce)+
qed

lemma big_SetString_FormatInt [simp]: "big_SetString (FormatInt n) = Some n"
  using decimal_no_sign decimal_digits
  by (auto simp: big_SetString_def FormatInt_def big_digits_value list_all_iff)

lemma fromHexChar_digit: "n < 16 \<Longrightarrow> fromHexChar (hex_digit n) = Some n"
  by (auto simp: fromHexChar_def hex_digit_def char_in_def of_char_of)

lemma hex_decode_encode [simp]: "hex_decode (hex_encode bs) = Some bs"
proof (induction bs)
  case (Cons b bs)
  have b: "unat b div 16 < 16" using unsigned_less [of b, where ?'a = nat] by (simp add: less_mult_imp_div_less)
  have "of_nat (16 * (unat b div 16) + unat b mod 16) = b" by simp
  then show ?case using Cons b by (simp add: hex_encode_def fromHexChar_digit)
qed (simp add: hex_encode_def)

lemma uuid_text_reads: "length raw = 16 \<Longrightarrow> uuid_of_string (uuid_text raw) = Inr (uuid_text raw)"
proof -
  assume len: "length raw = 16"
  let ?e = "hex_encode raw"
  have e: "length ?e = 32" "\<forall>c\<in>set ?e. lower_hex_char c"
    using hex_encode_lower [of raw] len by (auto simp: list_all_iff)
  have lower: "printable c \<and> \<not> char_in c 65 90 \<and> c \<noteq> CHR ''-''" if "lower_hex_char c" for c
    using that by (auto simp: lower_hex_char_def printable_def char_in_def less_eq_char_def)
  have sub: "set (uuid_text raw) \<subseteq> insert (CHR ''-'') (set ?e)"
    by (auto simp: uuid_text_def Let_def dest: in_set_takeD in_set_dropD)
  then have chars: "\<forall>c\<in>set (uuid_text raw). printable c \<and> \<not> char_in c 65 90"
    using e(2) lower by (auto simp: printable_def char_in_def)
  have keep: "filter (\<lambda>c. c \<noteq> CHR ''-'') xs = xs" if "set xs \<subseteq> set ?e" for xs
    using that e(2) lower by (auto intro: filter_True)
  have split: "take k (drop n ?e) @ drop (n + k) ?e = drop n ?e" for k n
    by (metis add.commute append_take_drop_id drop_drop)
  have parts: "take 8 ?e @ take 4 (drop 8 ?e) @ take 4 (drop 12 ?e) @ take 4 (drop 16 ?e) @ drop 20 ?e = ?e"
    using split [of 4 8] split [of 4 12] split [of 4 16] by simp
  have "filter (\<lambda>c. c \<noteq> CHR ''-'') (uuid_text raw) = ?e"
    unfolding uuid_text_def Let_def filter_append
    by (simp add: parts keep set_take_subset set_drop_subset order_trans [OF set_take_subset set_drop_subset])
  then show ?thesis
    using chars e(1) by (simp add: uuid_of_string_def TrimSpace_printable ToLower_fixed)
qed

lemma RatString_printable: "\<forall>c\<in>set (RatString r). printable c \<and> \<not> char_in c 65 90"
  using RatString_chars by (fastforce simp: digit_char_def printable_def char_in_def)

lemma RatString_not_word: "RatString r \<noteq> ''nan''" "RatString r \<noteq> ''infinity''" "RatString r \<noteq> ''+infinity''"
  "RatString r \<noteq> ''-infinity''" "RatString r \<noteq> ''null''"
  using RatString_chars [of "CHR ''n''" r] by (auto simp: digit_char_def char_in_def)

lemma numeric_text_reads:
  assumes "reads_rationals V"
  shows "canonical_numeric_text V (RatString r) = Inr (RatString r)"
    and "canonical_numeric_text V ''nan'' = Inr ''nan''"
    and "canonical_numeric_text V ''+infinity'' = Inr ''+infinity''"
    and "canonical_numeric_text V ''-infinity'' = Inr ''-infinity''"
proof -
  have words: "ToLower (TrimSpace ''nan'') = ''nan''" "ToLower (TrimSpace ''+infinity'') = ''+infinity''"
    "ToLower (TrimSpace ''-infinity'') = ''-infinity''" by code_simp+
  then show "canonical_numeric_text V ''nan'' = Inr ''nan''"
    "canonical_numeric_text V ''+infinity'' = Inr ''+infinity''"
    "canonical_numeric_text V ''-infinity'' = Inr ''-infinity''"
    by (simp_all add: canonical_numeric_text_def)
  show "canonical_numeric_text V (RatString r) = Inr (RatString r)"
    using assms RatString_printable [of r] RatString_not_word [of r]
    by (simp add: canonical_numeric_text_def TrimSpace_printable ToLower_fixed reads_rationals_def)
qed

text \<open>The texts that \<open>canonicalNumeric\<close> returns.\<close>

definition numeric_result :: "go_string \<Rightarrow> bool" where
  "numeric_result s \<longleftrightarrow> s = ''null'' \<or> s = ''nan'' \<or> s = ''+infinity'' \<or> s = ''-infinity'' \<or> (\<exists>r. s = RatString r)"

lemma canonicalNumeric_result: "canonicalNumeric V v = Inr s \<Longrightarrow> numeric_result s"
proof -
  have plain: "canonical_numeric_text V x = Inr s \<Longrightarrow> numeric_result s" for x
    unfolding canonical_numeric_text_def Let_def numeric_result_def
    by (auto split: if_splits option.splits)
  have pg: "canonical_pg_numeric n = Inr s \<Longrightarrow> numeric_result s" for n
    unfolding canonical_pg_numeric_def numeric_result_def by (auto split: if_splits option.splits)
  show "canonicalNumeric V v = Inr s \<Longrightarrow> numeric_result s"
    by (cases v) (auto simp: canonicalNumeric_def dest: plain pg split: sum.splits)
qed

lemma numeric_reads:
  "reads_rationals V \<Longrightarrow> numeric_result s \<Longrightarrow> s \<noteq> ''null'' \<Longrightarrow> canonicalNumeric V (AnyString s) = Inr s"
  by (auto simp: numeric_result_def canonicalNumeric_def numeric_text_reads)

lemma canonical_type_fixed: "CanonicalSQLTypeV2 t = Inr u \<Longrightarrow> CanonicalSQLTypeV2 u = Inr u"
proof -
  assume "CanonicalSQLTypeV2 t = Inr u"
  then have "u \<in> set canonical_sql_types" by (auto simp: CanonicalSQLTypeV2_def Let_def split: if_splits)
  then show ?thesis using canonical_sql_types_fixed by (simp add: canonical_type_def)
qed

lemma strip_prefix_append [simp]: "requirePrefix p (p @ s) = Inr s"
  by (simp add: requirePrefix_def strip_prefix_def)

lemma trim_right_spaces_idem [simp]: "trim_right_spaces (trim_right_spaces s) = trim_right_spaces s"
  by (simp add: trim_right_spaces_def dropWhile_idem)

lemma canonicalTimeOfDay_result:
  "canonicalTimeOfDay V v = Inr s \<Longrightarrow> s \<noteq> ''null'' \<Longrightarrow> \<exists>us. s = FormatInt us \<and> 0 \<le> us \<and> us \<le> microsecondsPerDay"
  by (cases v) (auto simp: canonicalTimeOfDay_def Let_def split: if_splits option.splits)

lemma canonicalUUID_result:
  assumes "canonicalUUID v = Inr s" "s \<noteq> ''null''" "well_typed v"
  shows "\<exists>raw. length raw = 16 \<and> s = uuid_text raw"
proof -
  have decoded: "length raw = 16" if "hex_decode x = Some raw" "length x = 32" for x raw
  proof -
    have "hex_decode y = Some r \<Longrightarrow> length y = 2 * length r" for y r
      by (induction y arbitrary: r rule: hex_decode.induct) (auto split: option.splits)
    with that show ?thesis by fastforce
  qed
  have plain: "\<exists>raw. length raw = 16 \<and> s = uuid_text raw" if "uuid_of_string x = Inr s" for x
    using that decoded by (auto simp: uuid_of_string_def Let_def split: if_splits option.splits)
  show ?thesis using assms plain
    by (cases v) (auto simp: canonicalUUID_def well_typed_def split: if_splits)
qed

text \<open>
  The general step: when the text after the tag is read back to a value with the same encoding,
  the check accepts.
\<close>

lemma validates_decoded:
  assumes "CanonicalSQLTypeV2 q = Inr t" "t \<noteq> ''time without time zone''" "t \<noteq> ''jsonb''"
    and "decoded_literal V t enc = Inr v" "CanonicalSQLValue V t v = Inr enc"
  shows "ValidateCanonicalSQLValueEncoding V q enc = None"
  using assms by (simp add: ValidateCanonicalSQLValueEncoding_def)

lemma validates_integer:
  assumes q: "CanonicalSQLTypeV2 q = Inr t" and t: "t \<in> {''smallint'', ''integer'', ''bigint''}"
    and "CanonicalSQLValue V q v = Inr enc" "\<not> json_number v" "v \<noteq> AnyNil"
  shows "ValidateCanonicalSQLValueEncoding V q enc = None"
proof -
  obtain n where n: "enc = ''i:'' @ FormatInt n" "validateIntegerRange t (FormatInt n) = None"
    using assms by (cases v) (auto simp: CanonicalSQLValue_def canonicalInteger_def split: option.splits)
  note type = canonical_type_fixed [OF q]
  show ?thesis
  proof (rule validates_decoded [OF q])
    show "decoded_literal V t enc = Inr (AnyString (FormatInt n))"
      using t by (auto simp: decoded_literal_def n(1) requirePrefix_def strip_prefix_def)
    show "CanonicalSQLValue V t (AnyString (FormatInt n)) = Inr enc"
      using t n type by (auto simp: CanonicalSQLValue_def canonicalInteger_def)
  qed (use t in auto)
qed

lemma validates_numeric:
  assumes q: "CanonicalSQLTypeV2 q = Inr ''numeric''" and law: "reads_rationals V"
    and "CanonicalSQLValue V q v = Inr enc" "enc \<noteq> ''null''"
  shows "ValidateCanonicalSQLValueEncoding V q enc = None"
proof -
  obtain s where s: "canonicalNumeric V v = Inr s" "s \<noteq> ''null''" "enc = ''n:'' @ s"
    using assms by (auto simp: CanonicalSQLValue_def tagged_or_null_def split: sum.splits if_splits)
  have "CanonicalSQLValue V ''numeric'' (AnyString s) = Inr enc"
    using numeric_reads [OF law canonicalNumeric_result [OF s(1)] s(2)] s canonical_type_fixed [OF q]
    by (simp add: CanonicalSQLValue_def tagged_or_null_def)
  then show ?thesis
    by (intro validates_decoded [OF q, of _ _ "AnyString s"])
      (auto simp: decoded_literal_def s(3) requirePrefix_def strip_prefix_def)
qed

lemma validates_boolean:
  assumes q: "CanonicalSQLTypeV2 q = Inr ''boolean''" and "CanonicalSQLValue V q v = Inr enc" "v \<noteq> AnyNil"
  shows "ValidateCanonicalSQLValueEncoding V q enc = None"
proof -
  obtain b where b: "enc = ''b:'' @ (if b then ''true'' else ''false'')"
    using assms by (cases v) (auto simp: CanonicalSQLValue_def)
  have "CanonicalSQLValue V ''boolean'' (AnyBool b) = Inr enc"
    using canonical_type_fixed [OF q] b by (simp add: CanonicalSQLValue_def)
  then show ?thesis
    by (intro validates_decoded [OF q, of _ _ "AnyBool b"])
      (auto simp: decoded_literal_def b requirePrefix_def strip_prefix_def ParseBool_def)
qed

lemma validates_bytea:
  assumes q: "CanonicalSQLTypeV2 q = Inr ''bytea''" and "CanonicalSQLValue V q v = Inr enc" "v \<noteq> AnyNil"
  shows "ValidateCanonicalSQLValueEncoding V q enc = None"
proof -
  obtain b where b: "enc = ''x:'' @ hex_encode b"
    using assms by (cases v) (auto simp: CanonicalSQLValue_def)
  have "CanonicalSQLValue V ''bytea'' (AnyBytes b) = Inr enc"
    using canonical_type_fixed [OF q] b by (simp add: CanonicalSQLValue_def)
  then show ?thesis
    by (intro validates_decoded [OF q, of _ _ "AnyBytes b"])
      (auto simp: decoded_literal_def b requirePrefix_def strip_prefix_def)
qed

lemma validates_time:
  assumes q: "CanonicalSQLTypeV2 q = Inr ''time without time zone''"
    and "CanonicalSQLValue V q v = Inr enc" "enc \<noteq> ''null''"
  shows "ValidateCanonicalSQLValueEncoding V q enc = None"
proof -
  obtain s where s: "canonicalTimeOfDay V v = Inr s" "s \<noteq> ''null''" "enc = ''tm:'' @ s"
    using assms by (auto simp: CanonicalSQLValue_def tagged_or_null_def split: sum.splits if_splits)
  then obtain us where us: "s = FormatInt us" "0 \<le> us" "us \<le> microsecondsPerDay"
    using canonicalTimeOfDay_result by blast
  then have "ParseInt64 s = Some us" by (simp add: ParseInt64_def in_int64_def microsecondsPerDay_def)
  then show ?thesis using q s(3) us
    by (simp add: ValidateCanonicalSQLValueEncoding_def validate_time_literal_def requirePrefix_def strip_prefix_def)
qed

lemma validates_uuid:
  assumes q: "CanonicalSQLTypeV2 q = Inr ''uuid''"
    and "CanonicalSQLValue V q v = Inr enc" "enc \<noteq> ''null''" "well_typed v"
  shows "ValidateCanonicalSQLValueEncoding V q enc = None"
proof -
  obtain s where s: "canonicalUUID v = Inr s" "s \<noteq> ''null''" "enc = ''u:'' @ s"
    using assms by (auto simp: CanonicalSQLValue_def tagged_or_null_def split: sum.splits if_splits)
  then obtain raw where raw: "length raw = 16" "s = uuid_text raw"
    using canonicalUUID_result assms(4) by blast
  have "CanonicalSQLValue V ''uuid'' (AnyString s) = Inr enc"
    using canonical_type_fixed [OF q] s uuid_text_reads [OF raw(1)] raw(2)
    by (simp add: CanonicalSQLValue_def tagged_or_null_def canonicalUUID_def)
  then show ?thesis
    by (intro validates_decoded [OF q, of _ _ "AnyString s"])
      (auto simp: decoded_literal_def s(3) requirePrefix_def strip_prefix_def)
qed

lemma validates_text:
  assumes q: "CanonicalSQLTypeV2 q = Inr t" and t: "t \<in> {''text'', ''character'', ''character varying''}"
    and "CanonicalSQLValue V q v = Inr enc" "v \<noteq> AnyNil"
  shows "ValidateCanonicalSQLValueEncoding V q enc = None"
proof -
  obtain x where x: "enc = ''s:'' @ x" "t = ''character'' \<Longrightarrow> trim_right_spaces x = x"
    using assms by (cases v) (auto simp: CanonicalSQLValue_def)
  consider "t = ''text''" | "t = ''character''" | "t = ''character varying''" using t by blast
  then show ?thesis
  proof cases
    case 1
    then show ?thesis using q
      by (simp add: ValidateCanonicalSQLValueEncoding_def x(1) decoded_literal_def CanonicalSQLValue_def
          canonical_type_fixed [OF q [unfolded 1]] requirePrefix_def strip_prefix_def)
  next
    case 2
    then show ?thesis using q x(2)
      by (simp add: ValidateCanonicalSQLValueEncoding_def x(1) decoded_literal_def CanonicalSQLValue_def
          canonical_type_fixed [OF q [unfolded 2]] requirePrefix_def strip_prefix_def)
  next
    case 3
    then show ?thesis using q
      by (simp add: ValidateCanonicalSQLValueEncoding_def x(1) decoded_literal_def CanonicalSQLValue_def
          canonical_type_fixed [OF q [unfolded 3]] requirePrefix_def strip_prefix_def)
  qed
qed

lemma validates_null: "CanonicalSQLTypeV2 q = Inr t \<Longrightarrow> ValidateCanonicalSQLValueEncoding V q ''null'' = None"
  by (simp add: ValidateCanonicalSQLValueEncoding_def)

section \<open>Properties\<close>

text \<open>
  C32: The binary form of \<open>jsonb\<close> is canonical and not malleable. If \<open>big.Rat\<close> reads back the
  rationals it prints, the check at the trust boundary accepts exactly the byte strings that the
  writer produces for some JSON value with UTF-8 strings and distinct keys, and two such values
  with the same bytes have the same normal form (equal rationals for their numbers, equal members
  in any order).
\<close>

theorem jsonb_encoding_canonical:
  assumes "reads_rationals V" and "int (length bs) \<le> int64_max"
  shows "(validateCanonicalJSONBEncoding V bs = None \<longleftrightarrow> (\<exists>v. json_ok v \<and> write_json V v = Inr bs)) \<and>
    (\<forall>v w. json_ok v \<and> json_ok w \<and> write_json V v = Inr bs \<and> write_json V w = Inr bs \<longrightarrow> node_of V v = node_of V w)"
proof -
  have law: "\<forall>r. rat_SetString V (RatString r) = Some r" using assms(1) by (simp add: reads_rationals_def)
  have reads: "decoder_value V (Suc (length bs)) bs = Inr (node_of V v, []) \<and> writeCanonicalJSONBNode (node_of V v) = bs"
    if "json_ok v" "write_json V v = Inr bs" for v
  proof -
    have bs: "bs = writeCanonicalJSONBNode (node_of V v)" using write_json_node that(2) by blast
    have "reads_back V (node_of V v)" by (rule decoder_complete [OF node_of_ok [OF law that]])
    then show ?thesis using reads_backD [of V "node_of V v" "Suc (length bs)" "[]"] bs assms(2) by simp
  qed
  have "\<exists>v. json_ok v \<and> write_json V v = Inr bs" if accepted: "validateCanonicalJSONBEncoding V bs = None"
  proof -
    obtain node where "decoder_value V (Suc (length bs)) bs = Inr (node, [])"
      using accepted by (auto simp: validateCanonicalJSONBEncoding_def split: sum.splits option.splits if_splits)
    then show ?thesis using decoder_sound(1) [of V _ bs node "[]"] json_of_node_ok [of V node] by auto
  qed
  moreover have "validateCanonicalJSONBEncoding V bs = None" if "json_ok v" "write_json V v = Inr bs" for v
    using reads [OF that] by (simp add: validateCanonicalJSONBEncoding_def)
  moreover have "node_of V v = node_of V w"
    if "json_ok v" "json_ok w" "write_json V v = Inr bs" "write_json V w = Inr bs" for v w
    using reads [OF that(1,3)] reads [OF that(2,4)] by simp
  ultimately show ?thesis by blast
qed

text \<open>An environment in which the rationals of \<open>RatString\<close> are read back.\<close>

definition sample_rat :: "go_string \<Rightarrow> rat option" where
  "sample_rat s =
     (let p = takeWhile (\<lambda>c. c \<noteq> CHR ''/'') s; q = drop (length p + 1) s in
      if length p = length s then map_option of_int (big_SetString p)
      else (case (big_SetString p, big_SetString q) of
          (Some a, Some b) \<Rightarrow> Some (of_int a / of_int b) | _ \<Rightarrow> None))"

definition sample_values :: "(unit, unit, unit) value_env" where
  "sample_values = \<lparr>fl_round32 = id, fl_parse = (\<lambda>_ _. None), fl_IsNaN = (\<lambda>_. True), fl_IsInf = (\<lambda>_ _. False),
     fl_NaN = (), fl_Inf = (\<lambda>_. ()), fl_zero = (), fl_is_zero = (\<lambda>_. False), fl_format = (\<lambda>_ _ _. []),
     rat_SetString = sample_rat, tm_Parse = (\<lambda>_ _. None), tm_Format = (\<lambda>_ _. []), tm_UTC = id,
     tm_Truncate_us = id, tm_clock = (\<lambda>_. (0, 0, 0, 0)), any_Stringer = (\<lambda>_. None),
     json_Decode = (\<lambda>_. DecodeError), json_Marshal = (\<lambda>_. None)\<rparr>"

lemma takeWhile_slash: "takeWhile (\<lambda>c. c \<noteq> CHR ''/'') (FormatInt n) = FormatInt n"
  "takeWhile (\<lambda>c. c \<noteq> CHR ''/'') (FormatInt n @ CHR ''/'' # s) = FormatInt n"
proof -
  have "\<forall>c\<in>set (FormatInt n). c \<noteq> CHR ''/''"
    using FormatInt_ascii by (fastforce simp: digit_char_def char_in_def)
  then show "takeWhile (\<lambda>c. c \<noteq> CHR ''/'') (FormatInt n) = FormatInt n"
    "takeWhile (\<lambda>c. c \<noteq> CHR ''/'') (FormatInt n @ CHR ''/'' # s) = FormatInt n"
    by (simp_all add: takeWhile_append2)
qed

lemma sample_values_read: "reads_rationals sample_values"
proof -
  have "sample_rat (RatString r) = Some r" for r
  proof -
    obtain p q where pq: "quotient_of r = (p, q)" by fastforce
    then have r: "of_int p / of_int q = r" by (rule quotient_of_div [symmetric])
    have "sample_rat (RatString r) = Some (of_int p / of_int q)"
      by (simp add: sample_rat_def RatString_def pq takeWhile_slash Let_def)
    then show ?thesis unfolding r .
  qed
  then show ?thesis by (simp add: reads_rationals_def sample_values_def)
qed

theorem jsonb_encoding_canonical_witness:
  "\<exists>bs. reads_rationals sample_values \<and> int (length bs) \<le> int64_max \<and>
     validateCanonicalJSONBEncoding sample_values bs = None \<and>
     write_json sample_values (JObject [(''b'', JArray [JNumber ''2'', JNull]), (''a'', JBool True)]) = Inr bs"
proof -
  let ?v = "JObject [(''b'', JArray [JNumber ''2'', JNull]), (''a'', JBool True)]"
  have number: "sample_rat ''2'' = Some 2" "RatString 2 = ''2''" by code_simp+
  obtain bs where bs: "write_json sample_values ?v = Inr bs" "int (length bs) \<le> int64_max"
    using number by (simp add: sample_values_def int64_max_def)
  have "json_ok ?v" by code_simp
  then show ?thesis using jsonb_encoding_canonical [OF sample_values_read bs(2)] sample_values_read bs by blast
qed

text \<open>
  C33: The decoder of the binary form always comes to an end: the nesting of the input is bounded
  by its length, so a recursion bounded by more than the length never runs out, and the answer
  does not depend on the bound chosen.
\<close>

theorem jsonb_decoder_terminates:
  "length bs < fuel \<Longrightarrow>
     decoder_value V fuel bs \<noteq> Inl None \<and> decoder_value V fuel bs = decoder_value V (Suc (length bs)) bs"
  using decoder_fuel(1) [of bs fuel "Suc (length bs)" V] by auto

theorem jsonb_decoder_terminates_witness:
  "decoder_value sample_values 3 (bytes_of ''z'') \<noteq> Inl None \<and>
     decoder_value sample_values 3 (bytes_of ''z'') = Inr (NodeNull, [])"
proof -
  have "decoder_value sample_values 3 (bytes_of ''z'') = decoder_value sample_values (Suc (length (bytes_of ''z''))) (bytes_of ''z'')"
    using jsonb_decoder_terminates [of "bytes_of ''z''" 3 sample_values] by simp
  then show ?thesis using read_tagged(1) [of sample_values _ "[]"] by simp
qed




end
