(* ===== verification/Exposure_Algebra.thy ===== *)
theory Exposure_Algebra
  imports Exposure_Observation Exposure_Value
begin

text \<open>
  The provenance algebra of \<open>internal/exposure/algebra_v2.go\<close>: relations whose rows and cells
  carry the base facts they were computed from (as a set, the support, and as a multiset, the
  witness), the operators \<open>ScanV2\<close>, \<open>SelectV2\<close>, \<open>ProjectV2\<close>, \<open>JoinOnV2\<close>,
  \<open>UnionDistinctV2\<close>, \<open>AggregateFromResultsV2\<close> and \<open>PageV2\<close>, the invariant
  \<open>ValidateRelationV2\<close> that every operator checks, and \<open>ObserveV2\<close>, which turns a relation
  into the observation that is charged. The gateway derives the exposure of every relational
  query with these functions.

  A row and a cell are values, so the clones of the source, which keep the maps of the results
  apart from those of the inputs, are not seen. Every support and witness is made by \<open>make\<close> or
  by a clone, so it is never nil, and a slice without elements is always nil. \<open>reflect.DeepEqual\<close> on two dynamic values is the parameter
  \<open>deep\<close>. A multiplicity is a \<open>uint64\<close>, a natural number below \<open>2^64\<close>.
\<close>

section \<open>Definitions\<close>

subsection \<open>Witnesses\<close>

datatype SQLTruth = SQLUnknown | SQLFalse | SQLTrue

record WitnessItem =
  wi_Fact :: FactID
  wi_Multiplicity :: nat

type_synonym WitnessMultiset = "(go_string, WitnessItem) go_map"

definition uint64_max :: nat where
  "uint64_max = 18446744073709551615"

text \<open>The comparison of a fact with the one stored under its hash.\<close>

definition same_stored :: "exposure_env \<Rightarrow> FactID \<Rightarrow> FactID \<Rightarrow> exposure_error option" where
  "same_stored E existing f =
     (case NewFactSet E [existing] of
        Inl _ \<Rightarrow> Some (ExposureInvalid ''nil fact set'')
      | Inr s \<Rightarrow> (case FactSet_Add E s f of Inl e \<Rightarrow> Some e | Inr _ \<Rightarrow> None))"

definition isBaseFactV2 :: "FactID \<Rightarrow> bool" where
  "isBaseFactV2 f \<longleftrightarrow> IsV2 f \<and> (fid_Kind f = FactBaseRow \<or> fid_Kind f = FactBaseCell)"

definition Witness_Add :: "exposure_env \<Rightarrow> FactID \<Rightarrow> nat \<Rightarrow> WitnessMultiset \<Rightarrow> exposure_error + WitnessMultiset" where
  "Witness_Add E f m w =
     (if m = 0 \<or> \<not> isBaseFactV2 f then Inl (ExposureInvalid ''witness requires a positive V2 base fact'')
      else and_then (FactID_Hash E f) (\<lambda>hash.
        case map_of w hash of
          Some existing \<Rightarrow>
            guarded (same_stored E (wi_Fact existing) f)
              (if uint64_max - wi_Multiplicity existing < m then Inl (ExposureInvalid ''witness multiplicity overflow'')
               else Inr (map_put hash (existing\<lparr>wi_Multiplicity := wi_Multiplicity existing + m\<rparr>) w))
        | None \<Rightarrow> Inr (map_put hash \<lparr>wi_Fact = f, wi_Multiplicity = m\<rparr> w)))"

definition NewWitness :: "exposure_env \<Rightarrow> FactID list \<Rightarrow> exposure_error + WitnessMultiset" where
  "NewWitness E fs = fold_result (\<lambda>f. Witness_Add E f 1) fs []"

definition Witness_Merge :: "exposure_env \<Rightarrow> WitnessMultiset \<Rightarrow> WitnessMultiset \<Rightarrow> exposure_error + WitnessMultiset" where
  "Witness_Merge E w other = fold_result (\<lambda>(_, item). Witness_Add E (wi_Fact item) (wi_Multiplicity item)) other w"

definition merge_max_item ::
  "exposure_env \<Rightarrow> go_string \<times> WitnessItem \<Rightarrow> WitnessMultiset \<Rightarrow> exposure_error + WitnessMultiset" where
  "merge_max_item E entry w = (case entry of (hash, item) \<Rightarrow>
     (case map_of w hash of
        Some existing \<Rightarrow>
          guarded (same_stored E (wi_Fact existing) (wi_Fact item))
            (Inr (if wi_Multiplicity item > wi_Multiplicity existing then map_put hash item w else w))
      | None \<Rightarrow> Witness_Add E (wi_Fact item) (wi_Multiplicity item) w))"

definition Witness_MergeMax :: "exposure_env \<Rightarrow> WitnessMultiset \<Rightarrow> WitnessMultiset \<Rightarrow> exposure_error + WitnessMultiset" where
  "Witness_MergeMax E w other = fold_result (merge_max_item E) other w"

definition Witness_Support :: "exposure_env \<Rightarrow> WitnessMultiset \<Rightarrow> exposure_error + FactSet" where
  "Witness_Support E w = NewFactSet E (map (\<lambda>(_, item). wi_Fact item) w)"

text \<open>\<open>fmt.Sprintf("%020d", n)\<close>\<close>

definition padded20 :: "nat \<Rightarrow> go_string" where
  "padded20 n = replicate (20 - length (decimal n)) (CHR ''0'') @ decimal n"

definition commitment_values :: "WitnessMultiset \<Rightarrow> go_string list" where
  "commitment_values w = concat (map (\<lambda>hash. [hash, padded20 (wi_Multiplicity (the (map_of w hash)))]) (sort (map fst w)))"

definition Witness_Commitment :: "exposure_env \<Rightarrow> WitnessMultiset \<Rightarrow> exposure_error + go_string" where
  "Witness_Commitment E w = ComposeCanonicalKeyV2 E ''witness-multiset''
     (if commitment_values w = [] then [''empty''] else commitment_values w)"

text \<open>\<open>MergeChecked\<close>, whose partial result is dropped at an error.\<close>

definition merge_support :: "exposure_env \<Rightarrow> FactSet \<Rightarrow> FactSet \<Rightarrow> exposure_error + FactSet" where
  "merge_support E s other = (case FactSet_MergeChecked E s other of (s', None) \<Rightarrow> Inr s' | (_, Some e) \<Rightarrow> Inl e)"

subsection \<open>Relations\<close>

record FieldV2 =
  fv_ID :: go_string
  fv_SQLType :: go_string
  fv_Expression :: go_string
  fv_Collation :: go_string
  fv_CollationVersion :: go_string
  fv_CollationDeterministic :: bool

record RowOriginV2 =
  ro_StableRole :: go_string
  ro_SourceNamespace :: go_string
  ro_EntityKey :: go_string

record ('f, 't, 'o) BaseRowV2 =
  br_EntityKey :: go_string
  br_Values :: "(go_string, ('f, 't, 'o) go_any) go_map"

record ('f, 't, 'o) CellV2 =
  cv_Value :: "('f, 't, 'o) go_any"
  cv_SQLType :: go_string
  cv_Support :: FactSet
  cv_Witness :: WitnessMultiset
  cv_Expression :: go_string
  cv_ReleaseFact :: "FactID option"

record ('f, 't, 'o) AnnotatedRowV2 =
  ar_Key :: go_string
  ar_Cells :: "(go_string, ('f, 't, 'o) CellV2) go_map"
  ar_RowSupport :: FactSet
  ar_RowWitness :: WitnessMultiset
  ar_Origins :: "RowOriginV2 list"

record ('f, 't, 'o) RelationV2 =
  rel_Fields :: "FieldV2 list"
  rel_Rows :: "('f, 't, 'o) AnnotatedRowV2 list"
  rel_SnapshotBundle :: "SnapshotBinding list"
  rel_CanonicalOrder :: bool

record ('f, 't, 'o) BaseRelationSpecV2 =
  bs_SourceNamespace :: go_string
  bs_Snapshot :: go_string
  bs_StableRole :: go_string
  bs_Fields :: "FieldV2 list"
  bs_Rows :: "('f, 't, 'o) BaseRowV2 list"

record JoinPredicateV2 =
  jp_LeftField :: go_string
  jp_RightField :: go_string

record AggregateSpecV2 =
  as_Function :: go_string
  as_Field :: go_string
  as_OutputID :: go_string
  as_OutputType :: go_string

definition zero_field :: FieldV2 where
  "zero_field = \<lparr>fv_ID = [], fv_SQLType = [], fv_Expression = [], fv_Collation = [], fv_CollationVersion = [],
     fv_CollationDeterministic = False\<rparr>"

text \<open>Reading a map that may lack the key gives the zero value.\<close>

definition zero_cell :: "('f, 't, 'o) CellV2" where
  "zero_cell = \<lparr>cv_Value = AnyNil, cv_SQLType = [], cv_Support = [], cv_Witness = [], cv_Expression = [], cv_ReleaseFact = None\<rparr>"

definition cell_at :: "('f, 't, 'o) AnnotatedRowV2 \<Rightarrow> go_string \<Rightarrow> ('f, 't, 'o) CellV2" where
  "cell_at row field = (case map_of (ar_Cells row) field of Some c \<Rightarrow> c | None \<Rightarrow> zero_cell)"

definition fieldTypeMapV2 :: "('f, 't, 'o) RelationV2 \<Rightarrow> (go_string, go_string) go_map" where
  "fieldTypeMapV2 r = foldl (\<lambda>m f. map_put (fv_ID f) (normalizeSQLType (fv_SQLType f)) m) [] (rel_Fields r)"

definition field_type :: "('f, 't, 'o) RelationV2 \<Rightarrow> go_string \<Rightarrow> go_string" where
  "field_type r field = (case map_of (fieldTypeMapV2 r) field of Some t \<Rightarrow> t | None \<Rightarrow> [])"

definition fieldDefinitionV2 :: "('f, 't, 'o) RelationV2 \<Rightarrow> go_string \<Rightarrow> FieldV2" where
  "fieldDefinitionV2 r fieldID = (case find (\<lambda>f. fv_ID f = fieldID) (rel_Fields r) of Some f \<Rightarrow> f | None \<Rightarrow> zero_field)"

definition inputExpressionV2 :: "('f, 't, 'o) RelationV2 \<Rightarrow> go_string \<Rightarrow> go_string" where
  "inputExpressionV2 r field = fv_Expression (fieldDefinitionV2 r field)"

definition isCollatableTypeV2 :: "go_string \<Rightarrow> bool" where
  "isCollatableTypeV2 t \<longleftrightarrow> t = ''text'' \<or> t = ''character'' \<or> t = ''character varying''"

definition validateFieldCollationV2 :: "go_string \<Rightarrow> FieldV2 \<Rightarrow> exposure_error option" where
  "validateFieldCollationV2 t f =
     (if isCollatableTypeV2 t then
        (if invalidToken (fv_Collation f) \<or> invalidToken (fv_CollationVersion f) \<or> \<not> fv_CollationDeterministic f
         then Some (ExposureInvalid ''collatable V2 field requires exact deterministic collation metadata'') else None)
      else if fv_Collation f \<noteq> [] \<or> fv_CollationVersion f \<noteq> [] \<or> fv_CollationDeterministic f
        then Some (ExposureInvalid ''non-collatable V2 field carries collation metadata'')
      else None)"

fun require_loop :: "go_string list \<Rightarrow> go_string list \<Rightarrow> go_string list \<Rightarrow> exposure_error option" where
  "require_loop available seen [] = None"
| "require_loop available seen (f # fs) =
     (if f \<in> set seen then Some (ExposureInvalid ''duplicate field'')
      else if f \<notin> set available then Some (ExposureInvalid ''unknown field'')
      else require_loop available (f # seen) fs)"

definition requireFieldsV2 :: "('f, 't, 'o) RelationV2 \<Rightarrow> go_string list \<Rightarrow> exposure_error option" where
  "requireFieldsV2 r flds = require_loop (map fst (fieldTypeMapV2 r)) [] flds"

text \<open>\<open>strings.Join(parts, sep)\<close> and the text that identifies a schema\<close>

fun join_with :: "go_string \<Rightarrow> go_string list \<Rightarrow> go_string" where
  "join_with sep [] = []"
| "join_with sep [x] = x"
| "join_with sep (x # y # xs) = x @ sep @ join_with sep (y # xs)"

definition schema_part :: "FieldV2 \<Rightarrow> go_string" where
  "schema_part f = fv_ID f @ '':'' @ (case CanonicalSQLTypeV2 (fv_SQLType f) of Inr t \<Rightarrow> t | Inl _ \<Rightarrow> []) @ '':'' @
     fv_Collation f @ '':'' @ fv_CollationVersion f @ '':'' @ (if fv_CollationDeterministic f then ''true'' else ''false'')"

definition normalizedSchemaV2 :: "FieldV2 list \<Rightarrow> go_string" where
  "normalizedSchemaV2 flds = join_with [CHR 0x00] (sort (map schema_part flds))"

definition sameSchemaV2 :: "FieldV2 list \<Rightarrow> FieldV2 list \<Rightarrow> bool" where
  "sameSchemaV2 left right \<longleftrightarrow> normalizedSchemaV2 left = normalizedSchemaV2 right"

subsection \<open>Snapshot bundles\<close>

definition bind_snapshot ::
  "SnapshotBinding \<Rightarrow> (go_string, go_string) go_map \<Rightarrow> exposure_error + (go_string, go_string) go_map" where
  "bind_snapshot b vs =
     (case map_of vs (sb_SourceNamespace b) of
        Some snapshot \<Rightarrow>
          if snapshot \<noteq> sb_Snapshot b then Inl (ExposureInvalid ''one source namespace is bound to different snapshots'')
          else Inr (map_put (sb_SourceNamespace b) (sb_Snapshot b) vs)
      | None \<Rightarrow> Inr (map_put (sb_SourceNamespace b) (sb_Snapshot b) vs))"

definition mergeSnapshotBundles :: "SnapshotBinding list \<Rightarrow> SnapshotBinding list \<Rightarrow> exposure_error + SnapshotBinding list" where
  "mergeSnapshotBundles left right =
     and_then (fold_result bind_snapshot (left @ right) []) (\<lambda>vs.
       Inr (sort_key sb_SourceNamespace (map (\<lambda>(n, s). \<lparr>sb_SourceNamespace = n, sb_Snapshot = s\<rparr>) vs)))"

definition bound_snapshot :: "SnapshotBinding list \<Rightarrow> go_string \<Rightarrow> go_string" where
  "bound_snapshot bundle ns =
     (case map_of (foldl (\<lambda>m b. map_put (sb_SourceNamespace b) (sb_Snapshot b) m) [] bundle) ns of Some s \<Rightarrow> s | None \<Rightarrow> [])"

definition factCoveredByBundleV2 :: "FactID \<Rightarrow> SnapshotBinding list \<Rightarrow> bool" where
  "factCoveredByBundleV2 f bundle \<longleftrightarrow>
     (if fid_Kind f = FactBaseRow \<or> fid_Kind f = FactBaseCell
        then bound_snapshot bundle (fid_SourceNamespace f) = fid_Snapshot f
      else if fid_Kind f = FactDerived
        then list_all (\<lambda>b. bound_snapshot bundle (sb_SourceNamespace b) = sb_Snapshot b) (fid_SnapshotBundle f)
      else False)"

subsection \<open>The representation invariant\<close>

definition sameFactV2 :: "exposure_env \<Rightarrow> FactID \<Rightarrow> FactID \<Rightarrow> bool" where
  "sameFactV2 E f g = (case (CanonicalPayload E f, CanonicalPayload E g) of (Inr p, Inr q) \<Rightarrow> p = q | _ \<Rightarrow> False)"

definition support_entry_ok :: "exposure_env \<Rightarrow> SnapshotBinding list \<Rightarrow> go_string \<times> FactID \<Rightarrow> bool" where
  "support_entry_ok E bundle entry = (case entry of (hash, f) \<Rightarrow>
     FactID_Hash E f = Inr hash \<and> isBaseFactV2 f \<and> factCoveredByBundleV2 f bundle)"

definition witness_entry_error ::
  "exposure_env \<Rightarrow> SnapshotBinding list \<Rightarrow> FactSet \<Rightarrow> go_string \<times> WitnessItem \<Rightarrow> exposure_error option" where
  "witness_entry_error E bundle support entry = (case entry of (hash, item) \<Rightarrow>
     if FactID_Hash E (wi_Fact item) \<noteq> Inr hash \<or> wi_Multiplicity item = 0 \<or> \<not> isBaseFactV2 (wi_Fact item) \<or>
         \<not> factCoveredByBundleV2 (wi_Fact item) bundle
       then Some (ExposureInvalid ''invalid V2 witness fact'')
     else (case map_of support hash of
         None \<Rightarrow> Some (ExposureInvalid ''witness support differs from set support'')
       | Some f \<Rightarrow> if sameFactV2 E f (wi_Fact item) then None
           else Some (ExposureInvalid ''witness support differs from set support'')))"

definition validateSupportWitnessV2 ::
  "exposure_env \<Rightarrow> FactSet \<Rightarrow> WitnessMultiset \<Rightarrow> SnapshotBinding list \<Rightarrow> exposure_error option" where
  "validateSupportWitnessV2 E support witness bundle =
     (if \<not> list_all (support_entry_ok E bundle) support then Some (ExposureInvalid ''invalid V2 support fact'')
      else if length support \<noteq> length witness then Some (ExposureInvalid ''witness support differs from set support'')
      else first_error (witness_entry_error E bundle support) witness)"

definition validateReleaseProvenanceV2 :: "exposure_env \<Rightarrow> ('f, 't, 'o) CellV2 \<Rightarrow> FactID \<Rightarrow> exposure_error option" where
  "validateReleaseProvenanceV2 E cell release =
     (if fid_Kind release = FactBaseCell then
        (case FactID_Hash E release of
           Inl e \<Rightarrow> Some e
         | Inr hash \<Rightarrow>
             (case map_of (cv_Support cell) hash of
                None \<Rightarrow> Some (ExposureInvalid ''V2 base release fact is absent from cell support'')
              | Some supported \<Rightarrow> if sameFactV2 E supported release then None
                  else Some (ExposureInvalid ''V2 base release fact is absent from cell support'')))
      else if fid_Kind release = FactDerived then
        (case Witness_Commitment E (cv_Witness cell) of
           Inl e \<Rightarrow> Some e
         | Inr commitment \<Rightarrow>
             if fid_NormalizedExpression release \<noteq> cv_Expression cell \<or> fid_WitnessCommitment release \<noteq> commitment
             then Some (ExposureInvalid ''V2 derived release fact disagrees with cell provenance'') else None)
      else Some (ExposureInvalid ''V2 cell release must be a base-cell or derived fact''))"

definition validate_release ::
  "exposure_env \<Rightarrow> SnapshotBinding list \<Rightarrow> ('f, 't, 'o) CellV2 \<Rightarrow> go_string \<Rightarrow> exposure_error option" where
  "validate_release E bundle cell canonicalValue =
     (case cv_ReleaseFact cell of
        None \<Rightarrow> None
      | Some release \<Rightarrow>
          if FactID_Validate E release \<noteq> None \<or> \<not> IsV2 release
            then Some (ExposureInvalid ''V2 cell has an invalid release fact'')
          else if fid_SQLType release \<noteq> cv_SQLType cell \<or> fid_CanonicalValue release \<noteq> canonicalValue
            then Some (ExposureInvalid ''V2 release fact does not identify its cell value'')
          else if \<not> factCoveredByBundleV2 release bundle
            then Some (ExposureInvalid ''V2 release fact is outside the relation snapshot bundle'')
          else validateReleaseProvenanceV2 E cell release)"

definition validate_cell ::
  "exposure_env \<Rightarrow> ('f, 't, 'o) value_env \<Rightarrow> SnapshotBinding list \<Rightarrow> ('f, 't, 'o) AnnotatedRowV2 \<Rightarrow> FieldV2 \<Rightarrow>
     exposure_error option" where
  "validate_cell E V bundle row field =
     (case map_of (ar_Cells row) (fv_ID field) of
        None \<Rightarrow> Some (ExposureInvalid ''V2 cell is incomplete or mistyped'')
      | Some cell \<Rightarrow>
          if cv_SQLType cell \<noteq> fv_SQLType field \<or> invalidToken (cv_Expression cell)
            then Some (ExposureInvalid ''V2 cell is incomplete or mistyped'')
          else (case CanonicalSQLValue V (cv_SQLType cell) (cv_Value cell) of
              Inl e \<Rightarrow> Some e
            | Inr canonicalValue \<Rightarrow>
                (case validateSupportWitnessV2 E (cv_Support cell) (cv_Witness cell) bundle of
                   Some e \<Rightarrow> Some e
                 | None \<Rightarrow> validate_release E bundle cell canonicalValue)))"

definition validate_row ::
  "exposure_env \<Rightarrow> ('f, 't, 'o) value_env \<Rightarrow> FieldV2 list \<Rightarrow> SnapshotBinding list \<Rightarrow> ('f, 't, 'o) AnnotatedRowV2 \<Rightarrow>
     exposure_error option" where
  "validate_row E V flds bundle row =
     (case validateSupportWitnessV2 E (ar_RowSupport row) (ar_RowWitness row) bundle of
        Some e \<Rightarrow> Some e
      | None \<Rightarrow>
          if list_ex (\<lambda>origin. invalidToken (ro_StableRole origin) \<or> invalidToken (ro_SourceNamespace origin) \<or>
              invalidToken (ro_EntityKey origin)) (ar_Origins row)
            then Some (ExposureInvalid ''V2 row origin is incomplete'')
          else first_error (validate_cell E V bundle row) flds)"

fun validate_rows ::
  "exposure_env \<Rightarrow> ('f, 't, 'o) value_env \<Rightarrow> FieldV2 list \<Rightarrow> SnapshotBinding list \<Rightarrow> go_string list \<Rightarrow>
     ('f, 't, 'o) AnnotatedRowV2 list \<Rightarrow> exposure_error option" where
  "validate_rows E V flds bundle seen [] = None"
| "validate_rows E V flds bundle seen (row # rows) =
     (if invalidToken (ar_Key row) \<or> length (ar_Cells row) \<noteq> length flds
        then Some (ExposureInvalid ''V2 row key or cell shape is invalid'')
      else if ar_Key row \<in> set seen then Some (ExposureInvalid ''duplicate V2 row key'')
      else (case validate_row E V flds bundle row of
          Some e \<Rightarrow> Some e
        | None \<Rightarrow> validate_rows E V flds bundle (ar_Key row # seen) rows))"

fun validate_fields :: "go_string list \<Rightarrow> FieldV2 list \<Rightarrow> exposure_error option" where
  "validate_fields seen [] = None"
| "validate_fields seen (f # fs) =
     (if invalidToken (fv_ID f) \<or> invalidToken (fv_Expression f) \<or> CanonicalSQLTypeV2 (fv_SQLType f) \<noteq> Inr (fv_SQLType f) \<or>
         validateFieldCollationV2 (fv_SQLType f) f \<noteq> None
        then Some (ExposureInvalid ''V2 relation field is not canonical'')
      else if fv_ID f \<in> set seen then Some (ExposureInvalid ''duplicate V2 relation field'')
      else validate_fields (fv_ID f # seen) fs)"

definition validate_bundle_form :: "SnapshotBinding list \<Rightarrow> exposure_error option" where
  "validate_bundle_form bundle =
     (case mergeSnapshotBundles bundle [] of
        Inl e \<Rightarrow> Some e
      | Inr canonical \<Rightarrow>
          if length canonical \<noteq> length bundle then Some (ExposureInvalid ''V2 snapshot bundle contains duplicate namespaces'')
          else if list_ex (\<lambda>(c, b). c \<noteq> b \<or> invalidToken (sb_SourceNamespace c) \<or> invalidToken (sb_Snapshot c)) (zip canonical bundle)
            then Some (ExposureInvalid ''V2 snapshot bundle is not canonical'')
          else None)"

definition ValidateRelationV2 ::
  "exposure_env \<Rightarrow> ('f, 't, 'o) value_env \<Rightarrow> ('f, 't, 'o) RelationV2 \<Rightarrow> exposure_error option" where
  "ValidateRelationV2 E V r =
     (if rel_Fields r = [] \<or> rel_SnapshotBundle r = []
        then Some (ExposureInvalid ''V2 relation requires a non-empty schema and snapshot bundle'')
      else (case validate_bundle_form (rel_SnapshotBundle r) of
          Some e \<Rightarrow> Some e
        | None \<Rightarrow> (case validate_fields [] (rel_Fields r) of
            Some e \<Rightarrow> Some e
          | None \<Rightarrow> validate_rows E V (rel_Fields r) (rel_SnapshotBundle r) [] (rel_Rows r))))"

text \<open>The last line of every operator: \<open>return result, ValidateRelationV2(result)\<close>.\<close>

definition validated ::
  "exposure_env \<Rightarrow> ('f, 't, 'o) value_env \<Rightarrow> ('f, 't, 'o) RelationV2 \<Rightarrow> exposure_error + ('f, 't, 'o) RelationV2" where
  "validated E V r = guarded (ValidateRelationV2 E V r) (Inr r)"

subsection \<open>Facts with values\<close>

definition NewBaseCellFactV2 ::
  "exposure_env \<Rightarrow> ('f, 't, 'o) value_env \<Rightarrow> go_string \<Rightarrow> go_string \<Rightarrow> go_string \<Rightarrow> go_string \<Rightarrow> go_string \<Rightarrow>
     ('f, 't, 'o) go_any \<Rightarrow> exposure_error + FactID" where
  "NewBaseCellFactV2 E V sourceNamespace snapshot entityKey fieldID sqlType v =
     and_then (CanonicalSQLTypeV2 sqlType) (\<lambda>typeName.
     and_then (CanonicalSQLValue V typeName v) (\<lambda>canonical.
       let f = zero_fact\<lparr>fid_Profile := ProfileV2, fid_Kind := FactBaseCell, fid_SourceNamespace := sourceNamespace,
         fid_Snapshot := snapshot, fid_EntityKey := entityKey, fid_Field := fieldID, fid_SQLType := typeName,
         fid_CanonicalValue := canonical\<rparr>
       in guarded (FactID_Validate E f) (Inr f)))"

definition NewDerivedFactV2 ::
  "exposure_env \<Rightarrow> ('f, 't, 'o) value_env \<Rightarrow> SnapshotBinding list \<Rightarrow> go_string \<Rightarrow> go_string \<Rightarrow> go_string \<Rightarrow>
     ('f, 't, 'o) go_any \<Rightarrow> go_string \<Rightarrow> exposure_error + FactID" where
  "NewDerivedFactV2 E V bundle outputRowKey normalizedExpression sqlType v witnessCommitment =
     and_then (CanonicalSQLTypeV2 sqlType) (\<lambda>typeName.
     and_then (CanonicalSQLValue V typeName v) (\<lambda>canonical.
       let f = zero_fact\<lparr>fid_Profile := ProfileV2, fid_Kind := FactDerived, fid_SnapshotBundle := bundle,
         fid_OutputRowKey := outputRowKey, fid_NormalizedExpression := normalizedExpression, fid_SQLType := typeName,
         fid_CanonicalValue := canonical, fid_WitnessCommitment := witnessCommitment\<rparr>
       in guarded (FactID_Validate E f) (Inr f)))"

definition materializeCellReleaseV2 ::
  "exposure_env \<Rightarrow> ('f, 't, 'o) value_env \<Rightarrow> SnapshotBinding list \<Rightarrow> go_string \<Rightarrow> ('f, 't, 'o) CellV2 \<Rightarrow> exposure_error + FactID" where
  "materializeCellReleaseV2 E V bundle rowKey cell =
     (case cv_ReleaseFact cell of
        Some f \<Rightarrow> Inr f
      | None \<Rightarrow> and_then (Witness_Commitment E (cv_Witness cell)) (\<lambda>commitment.
          NewDerivedFactV2 E V bundle rowKey (cv_Expression cell) (cv_SQLType cell) (cv_Value cell) commitment))"

subsection \<open>Scan\<close>

fun scan_fields :: "go_string \<Rightarrow> go_string list \<Rightarrow> FieldV2 list \<Rightarrow> exposure_error + FieldV2 list" where
  "scan_fields sourceNamespace seen [] = Inr []"
| "scan_fields sourceNamespace seen (f # fs) =
     (case CanonicalSQLTypeV2 (fv_SQLType f) of
        Inl _ \<Rightarrow> Inl (ExposureInvalid ''V2 scan field is incomplete'')
      | Inr typeName \<Rightarrow>
          if invalidToken (fv_ID f) \<or> validateFieldCollationV2 typeName f \<noteq> None
            then Inl (ExposureInvalid ''V2 scan field is incomplete'')
          else if fv_ID f \<in> set seen then Inl (ExposureInvalid ''duplicate field'')
          else and_then (scan_fields sourceNamespace (fv_ID f # seen) fs) (\<lambda>rest.
            Inr (f\<lparr>fv_SQLType := typeName, fv_Expression := sourceNamespace @ ''.'' @ fv_ID f\<rparr> # rest)))"

text \<open>The sets of one valid fact; the source drops their error, which cannot occur.\<close>

definition singleton_witness :: "exposure_env \<Rightarrow> FactID \<Rightarrow> WitnessMultiset" where
  "singleton_witness E f = (case NewWitness E [f] of Inr w \<Rightarrow> w | Inl _ \<Rightarrow> [])"

definition scan_cell ::
  "exposure_env \<Rightarrow> ('f, 't, 'o) value_env \<Rightarrow> go_string \<Rightarrow> go_string \<Rightarrow> ('f, 't, 'o) BaseRowV2 \<Rightarrow> FieldV2 \<Rightarrow>
     (go_string, ('f, 't, 'o) CellV2) go_map \<Rightarrow> exposure_error + (go_string, ('f, 't, 'o) CellV2) go_map" where
  "scan_cell E V sourceNamespace snapshot base field cells =
     (case map_of (br_Values base) (fv_ID field) of
        None \<Rightarrow> Inl (ExposureInvalid ''row misses field'')
      | Some v \<Rightarrow>
          and_then (NewBaseCellFactV2 E V sourceNamespace snapshot (br_EntityKey base) (fv_ID field) (fv_SQLType field) v) (\<lambda>f.
            Inr (map_put (fv_ID field) \<lparr>cv_Value = v, cv_SQLType = fv_SQLType field, cv_Support = rebuilt_set E [f],
              cv_Witness = singleton_witness E f, cv_Expression = fv_Expression field, cv_ReleaseFact = Some f\<rparr> cells)))"

definition scan_row ::
  "exposure_env \<Rightarrow> ('f, 't, 'o) value_env \<Rightarrow> go_string \<Rightarrow> go_string \<Rightarrow> go_string \<Rightarrow> FieldV2 list \<Rightarrow>
     ('f, 't, 'o) BaseRowV2 \<Rightarrow> exposure_error + ('f, 't, 'o) AnnotatedRowV2" where
  "scan_row E V sourceNamespace snapshot stableRole flds base =
     (case NewBaseRowFactV2 E sourceNamespace snapshot (br_EntityKey base) of
        (_, Some e) \<Rightarrow> Inl e
      | (rowFact, None) \<Rightarrow>
          and_then (fold_result (scan_cell E V sourceNamespace snapshot base) flds []) (\<lambda>cells.
            Inr \<lparr>ar_Key = br_EntityKey base, ar_Cells = cells, ar_RowSupport = rebuilt_set E [rowFact],
              ar_RowWitness = singleton_witness E rowFact,
              ar_Origins = [\<lparr>ro_StableRole = stableRole, ro_SourceNamespace = sourceNamespace, ro_EntityKey = br_EntityKey base\<rparr>]\<rparr>))"

fun scan_rows ::
  "exposure_env \<Rightarrow> ('f, 't, 'o) value_env \<Rightarrow> go_string \<Rightarrow> go_string \<Rightarrow> go_string \<Rightarrow> FieldV2 list \<Rightarrow> go_string list \<Rightarrow>
     ('f, 't, 'o) BaseRowV2 list \<Rightarrow> exposure_error + ('f, 't, 'o) AnnotatedRowV2 list" where
  "scan_rows E V sourceNamespace snapshot stableRole flds seen [] = Inr []"
| "scan_rows E V sourceNamespace snapshot stableRole flds seen (base # bases) =
     (if invalidToken (br_EntityKey base) then Inl (ExposureInvalid ''base entity key is required'')
      else if br_EntityKey base \<in> set seen then Inl (ExposureInvalid ''duplicate base entity key'')
      else and_then (scan_row E V sourceNamespace snapshot stableRole flds base) (\<lambda>row.
        and_then (scan_rows E V sourceNamespace snapshot stableRole flds (br_EntityKey base # seen) bases) (\<lambda>rows.
          Inr (row # rows))))"

definition ScanV2 ::
  "exposure_env \<Rightarrow> ('f, 't, 'o) value_env \<Rightarrow> ('f, 't, 'o) BaseRelationSpecV2 \<Rightarrow> exposure_error + ('f, 't, 'o) RelationV2" where
  "ScanV2 E V spec =
     (if invalidToken (bs_SourceNamespace spec) \<or> invalidToken (bs_Snapshot spec) \<or> invalidToken (bs_StableRole spec) \<or>
         bs_Fields spec = [] then Inl (ExposureInvalid ''V2 scan metadata is incomplete'')
      else and_then (scan_fields (bs_SourceNamespace spec) [] (bs_Fields spec)) (\<lambda>flds.
        and_then (scan_rows E V (bs_SourceNamespace spec) (bs_Snapshot spec) (bs_StableRole spec) flds [] (bs_Rows spec)) (\<lambda>rows.
          validated E V \<lparr>rel_Fields = flds, rel_Rows = rows,
            rel_SnapshotBundle = [\<lparr>sb_SourceNamespace = bs_SourceNamespace spec, sb_Snapshot = bs_Snapshot spec\<rparr>],
            rel_CanonicalOrder = False\<rparr>)))"

subsection \<open>Select, project and page\<close>

text \<open>Adding the annotations of one cell to those of a row.\<close>

definition add_cell_dependency ::
  "exposure_env \<Rightarrow> ('f, 't, 'o) CellV2 \<Rightarrow> FactSet \<times> WitnessMultiset \<Rightarrow> exposure_error + FactSet \<times> WitnessMultiset" where
  "add_cell_dependency E cell = (\<lambda>(support, witness).
     and_then (merge_support E support (cv_Support cell)) (\<lambda>support'.
     and_then (Witness_Merge E witness (cv_Witness cell)) (\<lambda>witness'.
       Inr (support', witness'))))"

definition select_row ::
  "exposure_env \<Rightarrow> go_string list \<Rightarrow> ('f, 't, 'o) AnnotatedRowV2 \<Rightarrow> exposure_error + ('f, 't, 'o) AnnotatedRowV2" where
  "select_row E predicateFields source =
     and_then (fold_result (\<lambda>field. add_cell_dependency E (cell_at source field)) predicateFields
         (ar_RowSupport source, ar_RowWitness source))
       (\<lambda>(support, witness). Inr (source\<lparr>ar_RowSupport := support, ar_RowWitness := witness\<rparr>))"

definition SelectV2 ::
  "exposure_env \<Rightarrow> ('f, 't, 'o) value_env \<Rightarrow> ('f, 't, 'o) RelationV2 \<Rightarrow> go_string list \<Rightarrow>
     (('f, 't, 'o) AnnotatedRowV2 \<Rightarrow> SQLTruth) option \<Rightarrow> exposure_error + ('f, 't, 'o) RelationV2" where
  "SelectV2 E V input predicateFields predicate =
     guarded (ValidateRelationV2 E V input)
     (case predicate of
        None \<Rightarrow> Inl (ExposureInvalid ''V2 predicate is required'')
      | Some p \<Rightarrow>
        guarded (requireFieldsV2 input predicateFields)
        (and_then (collect (map (select_row E predicateFields) (filter (\<lambda>row. p row = SQLTrue) (rel_Rows input)))) (\<lambda>rows.
           validated E V (input\<lparr>rel_Rows := rows\<rparr>))))"

definition project_row :: "go_string list \<Rightarrow> ('f, 't, 'o) AnnotatedRowV2 \<Rightarrow> ('f, 't, 'o) AnnotatedRowV2" where
  "project_row flds source =
     source\<lparr>ar_Cells := foldl (\<lambda>cells field. map_put field (cell_at source field) cells) [] flds\<rparr>"

definition ProjectV2 ::
  "exposure_env \<Rightarrow> ('f, 't, 'o) value_env \<Rightarrow> ('f, 't, 'o) RelationV2 \<Rightarrow> go_string list \<Rightarrow>
     exposure_error + ('f, 't, 'o) RelationV2" where
  "ProjectV2 E V input flds =
     guarded (ValidateRelationV2 E V input)
     (if flds = [] then Inl (ExposureInvalid ''V2 projection requires at least one field'')
      else guarded (requireFieldsV2 input flds)
        (validated E V (input\<lparr>rel_Fields := map (fieldDefinitionV2 input) flds,
           rel_Rows := map (project_row flds) (rel_Rows input)\<rparr>)))"

text \<open>
  \<open>PageV2\<close>. \<open>start + limit\<close> is an \<open>int\<close>; a slice with an upper bound below the lower
  one is a run-time panic, the value \<^const>\<open>None\<close>.
\<close>

definition page_bounds :: "nat \<Rightarrow> int64 \<Rightarrow> int64 \<Rightarrow> int64 \<times> int64" where
  "page_bounds n offset limit =
     (let start = (if offset < int n then offset else int n) in
      (start, if limit > 0 \<and> i64 (start + limit) < int n then i64 (start + limit) else int n))"

definition PageV2 ::
  "exposure_env \<Rightarrow> ('f, 't, 'o) value_env \<Rightarrow> ('f, 't, 'o) RelationV2 \<Rightarrow> int64 \<Rightarrow> int64 \<Rightarrow>
     (exposure_error + ('f, 't, 'o) RelationV2) option" where
  "PageV2 E V input offset limit =
     (case ValidateRelationV2 E V input of
        Some e \<Rightarrow> Some (Inl e)
      | None \<Rightarrow>
          if offset < 0 \<or> limit < 0 \<or> \<not> rel_CanonicalOrder input
            then Some (Inl (ExposureInvalid ''V2 page requires non-negative bounds and a canonical total order''))
          else (case page_bounds (length (rel_Rows input)) offset limit of (start, stop) \<Rightarrow>
            if stop < start then None
            else Some (validated E V (input\<lparr>rel_Rows := take (nat (stop - start)) (drop (nat start) (rel_Rows input))\<rparr>))))"

subsection \<open>Join\<close>

fun join_types ::
  "('f, 't, 'o) RelationV2 \<Rightarrow> ('f, 't, 'o) RelationV2 \<Rightarrow> go_string list \<Rightarrow> JoinPredicateV2 list \<Rightarrow> exposure_error + go_string list" where
  "join_types left right seen [] = Inr []"
| "join_types left right seen (p # ps) =
     guarded (requireFieldsV2 left [jp_LeftField p])
     (guarded (requireFieldsV2 right [jp_RightField p])
     (let key = jp_LeftField p @ [CHR 0x00] @ jp_RightField p in
      if key \<in> set seen then Inl (ExposureInvalid ''duplicate V2 join predicate'')
      else
        and_then (CanonicalSQLTypeV2 (field_type left (jp_LeftField p))) (\<lambda>leftType.
        and_then (CanonicalSQLTypeV2 (field_type right (jp_RightField p))) (\<lambda>rightType.
          let leftField = fieldDefinitionV2 left (jp_LeftField p); rightField = fieldDefinitionV2 right (jp_RightField p) in
          if leftType \<noteq> rightType then Inl (ExposureInvalid ''V2 join keys require the same canonical SQL type'')
          else if isCollatableTypeV2 leftType \<and> (fv_Collation leftField \<noteq> fv_Collation rightField \<or>
              fv_CollationVersion leftField \<noteq> fv_CollationVersion rightField \<or>
              \<not> fv_CollationDeterministic leftField \<or> \<not> fv_CollationDeterministic rightField)
            then Inl (ExposureInvalid ''V2 join keys require the same deterministic collation'')
          else and_then (join_types left right (key # seen) ps) (\<lambda>types. Inr (leftType # types))))))"

definition join_field :: "FieldV2 \<Rightarrow> (go_string, FieldV2) go_map \<Rightarrow> exposure_error + (go_string, FieldV2) go_map" where
  "join_field f m =
     (if fv_ID f \<in> set (map fst m) then Inl (ExposureInvalid ''join requires stable role-qualified field IDs'')
      else Inr (map_put (fv_ID f) f m))"

definition join_fields :: "FieldV2 list \<Rightarrow> FieldV2 list \<Rightarrow> exposure_error + FieldV2 list" where
  "join_fields left right =
     and_then (fold_result join_field (left @ right) []) (\<lambda>m. Inr (sort_key fv_ID (map snd m)))"

text \<open>
  \<open>joinEqualityKeyV2\<close>: the encoding of the values of the key columns, or \<^const>\<open>None\<close> for a row
  with a null in one of them, which equals no other row.
\<close>

fun equality_key_loop ::
  "('f, 't, 'o) value_env \<Rightarrow> ('f, 't, 'o) AnnotatedRowV2 \<Rightarrow> (go_string \<times> go_string) list \<Rightarrow> byte list \<Rightarrow>
     exposure_error + byte list option" where
  "equality_key_loop V row [] encoded = Inr (Some encoded)"
| "equality_key_loop V row ((field, t) # rest) encoded =
     and_then (CanonicalSQLValue V t (cv_Value (cell_at row field))) (\<lambda>canonical.
       if canonical = ''null'' then Inr None
       else equality_key_loop V row rest (encoded @ frame_string t @ frame_string canonical))"

definition joinEqualityKeyV2 ::
  "('f, 't, 'o) value_env \<Rightarrow> ('f, 't, 'o) AnnotatedRowV2 \<Rightarrow> go_string list \<Rightarrow> go_string list \<Rightarrow> exposure_error + byte list option" where
  "joinEqualityKeyV2 V row keys types = equality_key_loop V row (zip keys types) (big_endian 8 (length keys))"

definition relationRowIdentityV2 ::
  "exposure_env \<Rightarrow> ('f, 't, 'o) RelationV2 \<Rightarrow> ('f, 't, 'o) AnnotatedRowV2 \<Rightarrow> exposure_error + go_string" where
  "relationRowIdentityV2 E r row = ComposeCanonicalKeyV2 E ''relation-row''
     ([normalizedSchemaV2 (rel_Fields r), ar_Key row] @
      concat (map (\<lambda>b. [sb_SourceNamespace b, sb_Snapshot b]) (rel_SnapshotBundle r)))"

definition joinRowKeyV2 :: "exposure_env \<Rightarrow> go_string \<Rightarrow> go_string \<Rightarrow> exposure_error + go_string" where
  "joinRowKeyV2 E leftIdentity rightIdentity = ComposeCanonicalKeyV2 E ''join-row'' (sort [leftIdentity, rightIdentity])"

definition join_row ::
  "exposure_env \<Rightarrow> ('f, 't, 'o) RelationV2 \<Rightarrow> ('f, 't, 'o) RelationV2 \<Rightarrow> JoinPredicateV2 list \<Rightarrow>
     ('f, 't, 'o) AnnotatedRowV2 \<Rightarrow> ('f, 't, 'o) AnnotatedRowV2 \<Rightarrow> exposure_error + ('f, 't, 'o) AnnotatedRowV2" where
  "join_row E left right predicates leftRow rightRow =
     and_then (relationRowIdentityV2 E left leftRow) (\<lambda>leftIdentity.
     and_then (relationRowIdentityV2 E right rightRow) (\<lambda>rightIdentity.
     and_then (joinRowKeyV2 E leftIdentity rightIdentity) (\<lambda>key.
     and_then (merge_support E (ar_RowSupport leftRow) (ar_RowSupport rightRow)) (\<lambda>support.
     and_then (fold_result (add_cell_dependency E)
         (concat (map (\<lambda>p. [cell_at leftRow (jp_LeftField p), cell_at rightRow (jp_RightField p)]) predicates))
         (support, ar_RowWitness leftRow)) (\<lambda>(support', witness).
     and_then (Witness_Merge E witness (ar_RowWitness rightRow)) (\<lambda>witness'.
       Inr \<lparr>ar_Key = key,
         ar_Cells = foldl (\<lambda>cells (k, c). map_put k c cells) [] (ar_Cells leftRow @ ar_Cells rightRow),
         ar_RowSupport = support', ar_RowWitness = witness', ar_Origins = ar_Origins leftRow @ ar_Origins rightRow\<rparr>))))))"

text \<open>The index of the right rows by their key, in the order of the rows.\<close>

definition index_row ::
  "('f, 't, 'o) value_env \<Rightarrow> go_string list \<Rightarrow> go_string list \<Rightarrow> ('f, 't, 'o) AnnotatedRowV2 \<Rightarrow>
     (byte list, ('f, 't, 'o) AnnotatedRowV2 list) go_map \<Rightarrow> exposure_error + (byte list, ('f, 't, 'o) AnnotatedRowV2 list) go_map" where
  "index_row V keys types row index =
     and_then (joinEqualityKeyV2 V row keys types) (\<lambda>key.
       Inr (case key of
           None \<Rightarrow> index
         | Some k \<Rightarrow> map_put k ((case map_of index k of None \<Rightarrow> [] | Some rows \<Rightarrow> rows) @ [row]) index))"

definition join_left_row ::
  "exposure_env \<Rightarrow> ('f, 't, 'o) value_env \<Rightarrow> ('f, 't, 'o) RelationV2 \<Rightarrow> ('f, 't, 'o) RelationV2 \<Rightarrow> JoinPredicateV2 list \<Rightarrow>
     go_string list \<Rightarrow> (byte list, ('f, 't, 'o) AnnotatedRowV2 list) go_map \<Rightarrow> ('f, 't, 'o) AnnotatedRowV2 \<Rightarrow>
     exposure_error + ('f, 't, 'o) AnnotatedRowV2 list" where
  "join_left_row E V left right predicates types index leftRow =
     and_then (joinEqualityKeyV2 V leftRow (map jp_LeftField predicates) types) (\<lambda>key.
       case key of
         None \<Rightarrow> Inr []
       | Some k \<Rightarrow> collect (map (join_row E left right predicates leftRow)
           (case map_of index k of None \<Rightarrow> [] | Some rows \<Rightarrow> rows)))"

definition JoinOnV2 ::
  "exposure_env \<Rightarrow> ('f, 't, 'o) value_env \<Rightarrow> ('f, 't, 'o) RelationV2 \<Rightarrow> ('f, 't, 'o) RelationV2 \<Rightarrow> JoinPredicateV2 list \<Rightarrow>
     exposure_error + ('f, 't, 'o) RelationV2" where
  "JoinOnV2 E V left right predicates =
     guarded (ValidateRelationV2 E V left)
     (guarded (ValidateRelationV2 E V right)
     (if predicates = [] then Inl (ExposureInvalid ''V2 equijoin requires at least one equality'')
      else
        and_then (join_types left right [] predicates) (\<lambda>types.
        guarded (requireFieldsV2 left (map jp_LeftField predicates))
        (guarded (requireFieldsV2 right (map jp_RightField predicates))
        (and_then (mergeSnapshotBundles (rel_SnapshotBundle left) (rel_SnapshotBundle right)) (\<lambda>bundle.
        and_then (join_fields (rel_Fields left) (rel_Fields right)) (\<lambda>flds.
        and_then (fold_result (index_row V (map jp_RightField predicates) types) (rel_Rows right) []) (\<lambda>index.
        and_then (collect (map (join_left_row E V left right predicates types index) (rel_Rows left))) (\<lambda>rows.
          validated E V \<lparr>rel_Fields = flds, rel_Rows = concat rows, rel_SnapshotBundle = bundle,
            rel_CanonicalOrder = False\<rparr>)))))))))"

definition JoinV2 ::
  "exposure_env \<Rightarrow> ('f, 't, 'o) value_env \<Rightarrow> ('f, 't, 'o) RelationV2 \<Rightarrow> ('f, 't, 'o) RelationV2 \<Rightarrow> go_string \<Rightarrow> go_string \<Rightarrow>
     exposure_error + ('f, 't, 'o) RelationV2" where
  "JoinV2 E V left right leftKey rightKey =
     JoinOnV2 E V left right [\<lparr>jp_LeftField = leftKey, jp_RightField = rightKey\<rparr>]"

subsection \<open>Union\<close>

text \<open>\<open>reflect.DeepEqual\<close> on two maps and on two relations\<close>

definition maps_equal :: "('v \<Rightarrow> 'v \<Rightarrow> bool) \<Rightarrow> ('k, 'v) go_map \<Rightarrow> ('k, 'v) go_map \<Rightarrow> bool" where
  "maps_equal eq m n \<longleftrightarrow> length m = length n \<and>
     list_all (\<lambda>(k, v). case map_of n k of None \<Rightarrow> False | Some w \<Rightarrow> eq v w) m"

type_synonym ('f, 't, 'o) deep_equal = "('f, 't, 'o) go_any \<Rightarrow> ('f, 't, 'o) go_any \<Rightarrow> bool"

definition cells_equal :: "('f, 't, 'o) deep_equal \<Rightarrow> ('f, 't, 'o) CellV2 \<Rightarrow> ('f, 't, 'o) CellV2 \<Rightarrow> bool" where
  "cells_equal deep c d \<longleftrightarrow> deep (cv_Value c) (cv_Value d) \<and> cv_SQLType c = cv_SQLType d \<and>
     maps_equal (=) (cv_Support c) (cv_Support d) \<and> maps_equal (=) (cv_Witness c) (cv_Witness d) \<and>
     cv_Expression c = cv_Expression d \<and> cv_ReleaseFact c = cv_ReleaseFact d"

definition rows_equal :: "('f, 't, 'o) deep_equal \<Rightarrow> ('f, 't, 'o) AnnotatedRowV2 \<Rightarrow> ('f, 't, 'o) AnnotatedRowV2 \<Rightarrow> bool" where
  "rows_equal deep a b \<longleftrightarrow> ar_Key a = ar_Key b \<and> maps_equal (cells_equal deep) (ar_Cells a) (ar_Cells b) \<and>
     maps_equal (=) (ar_RowSupport a) (ar_RowSupport b) \<and> maps_equal (=) (ar_RowWitness a) (ar_RowWitness b) \<and>
     ar_Origins a = ar_Origins b"

definition relations_equal :: "('f, 't, 'o) deep_equal \<Rightarrow> ('f, 't, 'o) RelationV2 \<Rightarrow> ('f, 't, 'o) RelationV2 \<Rightarrow> bool" where
  "relations_equal deep l r \<longleftrightarrow> rel_Fields l = rel_Fields r \<and> list_all2 (rows_equal deep) (rel_Rows l) (rel_Rows r) \<and>
     rel_SnapshotBundle l = rel_SnapshotBundle r \<and> rel_CanonicalOrder l = rel_CanonicalOrder r"

text \<open>The key of a typed tuple, under which \<open>DISTINCT\<close> finds an equal one.\<close>

definition tuple_components ::
  "('f, 't, 'o) value_env \<Rightarrow> FieldV2 list \<Rightarrow> ('f, 't, 'o) AnnotatedRowV2 \<Rightarrow> exposure_error + go_string list" where
  "tuple_components V flds row =
     and_then (collect (map (\<lambda>f. CanonicalSQLValue V (fv_SQLType f) (cv_Value (cell_at row (fv_ID f)))) flds)) (\<lambda>canonicals.
       Inr (normalizedSchemaV2 flds # concat (map (\<lambda>(f, c). [fv_SQLType f, c]) (zip flds canonicals))))"

definition tuple_key ::
  "exposure_env \<Rightarrow> ('f, 't, 'o) value_env \<Rightarrow> FieldV2 list \<Rightarrow> ('f, 't, 'o) AnnotatedRowV2 \<Rightarrow> exposure_error + go_string" where
  "tuple_key E V flds row = and_then (tuple_components V flds row) (ComposeCanonicalKeyV2 E ''union-distinct-row'')"

fun distinct_loop ::
  "exposure_env \<Rightarrow> ('f, 't, 'o) value_env \<Rightarrow> FieldV2 list \<Rightarrow> go_string list \<Rightarrow> ('f, 't, 'o) AnnotatedRowV2 list \<Rightarrow> exposure_error + bool" where
  "distinct_loop E V flds seen [] = Inr True"
| "distinct_loop E V flds seen (row # rows) =
     and_then (tuple_key E V flds row) (\<lambda>key.
       if key \<in> set seen then Inr False else distinct_loop E V flds (key # seen) rows)"

definition relationTuplesDistinctV2 ::
  "exposure_env \<Rightarrow> ('f, 't, 'o) value_env \<Rightarrow> ('f, 't, 'o) RelationV2 \<Rightarrow> exposure_error + bool" where
  "relationTuplesDistinctV2 E V r = distinct_loop E V (sort_key fv_ID (rel_Fields r)) [] (rel_Rows r)"

definition unionDistinctRowDependencyV2 ::
  "exposure_env \<Rightarrow> ('f, 't, 'o) AnnotatedRowV2 \<Rightarrow> FieldV2 list \<Rightarrow> exposure_error + FactSet \<times> WitnessMultiset" where
  "unionDistinctRowDependencyV2 E source flds =
     fold_result (\<lambda>f. add_cell_dependency E (cell_at source (fv_ID f))) flds (ar_RowSupport source, ar_RowWitness source)"

definition union_field :: "('f, 't, 'o) RelationV2 \<Rightarrow> FieldV2 \<Rightarrow> FieldV2" where
  "union_field right f =
     (let rightExpression = fv_Expression (fieldDefinitionV2 right (fv_ID f)) in
      if fv_Expression f = rightExpression then f
      else f\<lparr>fv_Expression := ''union('' @ join_with '','' (sort [fv_Expression f, rightExpression]) @ '')''\<rparr>)"

definition merge_union_cell ::
  "exposure_env \<Rightarrow> ('f, 't, 'o) value_env \<Rightarrow> SnapshotBinding list \<Rightarrow> ('f, 't, 'o) AnnotatedRowV2 \<Rightarrow> FieldV2 \<Rightarrow>
     ('f, 't, 'o) AnnotatedRowV2 \<Rightarrow> exposure_error + ('f, 't, 'o) AnnotatedRowV2" where
  "merge_union_cell E V bundle source f row =
     (let cell = cell_at row (fv_ID f); sourceCell = cell_at source (fv_ID f) in
      and_then (merge_support E (cv_Support cell) (cv_Support sourceCell)) (\<lambda>support.
      and_then (Witness_MergeMax E (cv_Witness cell) (cv_Witness sourceCell)) (\<lambda>witness.
      and_then (materializeCellReleaseV2 E V bundle (ar_Key source) sourceCell) (\<lambda>sourceFact.
        let kept = (case cv_ReleaseFact cell of None \<Rightarrow> False | Some f \<Rightarrow> sameFactV2 E f sourceFact);
            cell' = cell\<lparr>cv_Support := support, cv_Witness := witness\<rparr>
        in Inr (row\<lparr>ar_Cells := map_put (fv_ID f)
             (if kept then cell' else cell'\<lparr>cv_ReleaseFact := None, cv_Expression := fv_Expression f\<rparr>) (ar_Cells row)\<rparr>)))))"

definition merge_union_row ::
  "exposure_env \<Rightarrow> ('f, 't, 'o) value_env \<Rightarrow> FieldV2 list \<Rightarrow> SnapshotBinding list \<Rightarrow> ('f, 't, 'o) AnnotatedRowV2 \<Rightarrow>
     FactSet \<Rightarrow> WitnessMultiset \<Rightarrow> ('f, 't, 'o) AnnotatedRowV2 \<Rightarrow> exposure_error + ('f, 't, 'o) AnnotatedRowV2" where
  "merge_union_row E V flds bundle source rowSupport rowWitness row =
     and_then (merge_support E (ar_RowSupport row) rowSupport) (\<lambda>support.
     and_then (Witness_MergeMax E (ar_RowWitness row) rowWitness) (\<lambda>witness.
       fold_result (merge_union_cell E V bundle source) flds (row\<lparr>ar_RowSupport := support, ar_RowWitness := witness\<rparr>)))"

definition release_union_cell ::
  "exposure_env \<Rightarrow> ('f, 't, 'o) value_env \<Rightarrow> SnapshotBinding list \<Rightarrow> ('f, 't, 'o) AnnotatedRowV2 \<Rightarrow> FieldV2 \<Rightarrow>
     ('f, 't, 'o) AnnotatedRowV2 \<Rightarrow> exposure_error + ('f, 't, 'o) AnnotatedRowV2" where
  "release_union_cell E V bundle source f row =
     (let cell = cell_at row (fv_ID f) in
      and_then (materializeCellReleaseV2 E V bundle (ar_Key source) cell) (\<lambda>released.
        Inr (row\<lparr>ar_Cells := map_put (fv_ID f) (cell\<lparr>cv_ReleaseFact := Some released\<rparr>) (ar_Cells row)\<rparr>)))"

definition new_union_row ::
  "exposure_env \<Rightarrow> ('f, 't, 'o) value_env \<Rightarrow> FieldV2 list \<Rightarrow> SnapshotBinding list \<Rightarrow> ('f, 't, 'o) AnnotatedRowV2 \<Rightarrow>
     FactSet \<Rightarrow> WitnessMultiset \<Rightarrow> go_string \<Rightarrow> exposure_error + ('f, 't, 'o) AnnotatedRowV2" where
  "new_union_row E V flds bundle source rowSupport rowWitness key =
     fold_result (release_union_cell E V bundle source) flds
       (source\<lparr>ar_Key := key, ar_RowSupport := rowSupport, ar_RowWitness := rowWitness\<rparr>)"

type_synonym ('f, 't, 'o) union_state = "(go_string, nat) go_map \<times> ('f, 't, 'o) AnnotatedRowV2 list"

text \<open>One pass of the loop over the rows of both sides; a row comes with the bundle of its relation.\<close>

definition union_step ::
  "exposure_env \<Rightarrow> ('f, 't, 'o) value_env \<Rightarrow> FieldV2 list \<Rightarrow> SnapshotBinding list \<times> ('f, 't, 'o) AnnotatedRowV2 \<Rightarrow>
     ('f, 't, 'o) union_state \<Rightarrow> exposure_error + ('f, 't, 'o) union_state" where
  "union_step E V flds entry state = (case (entry, state) of ((bundle, source), (index, rows)) \<Rightarrow>
     and_then (unionDistinctRowDependencyV2 E source flds) (\<lambda>(rowSupport, rowWitness).
     and_then (tuple_key E V flds source) (\<lambda>key.
       case map_of index key of
         Some i \<Rightarrow>
           and_then (merge_union_row E V flds bundle source rowSupport rowWitness (rows ! i)) (\<lambda>row.
             Inr (index, rows[i := row]))
       | None \<Rightarrow>
           and_then (new_union_row E V flds bundle source rowSupport rowWitness key) (\<lambda>row.
             Inr (map_put key (length rows) index, rows @ [row])))))"

definition UnionDistinctV2 ::
  "exposure_env \<Rightarrow> ('f, 't, 'o) value_env \<Rightarrow> ('f, 't, 'o) deep_equal \<Rightarrow> ('f, 't, 'o) RelationV2 \<Rightarrow> ('f, 't, 'o) RelationV2 \<Rightarrow>
     exposure_error + ('f, 't, 'o) RelationV2" where
  "UnionDistinctV2 E V deep left right =
     guarded (ValidateRelationV2 E V left)
     (guarded (ValidateRelationV2 E V right)
     (if \<not> sameSchemaV2 (rel_Fields left) (rel_Fields right) then Inl (ExposureInvalid ''union schemas differ'')
      else
        and_then (mergeSnapshotBundles (rel_SnapshotBundle left) (rel_SnapshotBundle right)) (\<lambda>bundle.
        and_then (if relations_equal deep left right then relationTuplesDistinctV2 E V left else Inr False) (\<lambda>folded.
          if folded then Inr left
          else
            let flds = sort_key fv_ID (map (union_field right) (rel_Fields left)) in
            and_then (fold_result (union_step E V flds)
                (map (Pair (rel_SnapshotBundle left)) (rel_Rows left) @ map (Pair (rel_SnapshotBundle right)) (rel_Rows right))
                ([], [])) (\<lambda>(_, rows).
              validated E V \<lparr>rel_Fields = flds, rel_Rows = rows, rel_SnapshotBundle = bundle, rel_CanonicalOrder = False\<rparr>)))))"

subsection \<open>Aggregation\<close>

type_synonym ('f, 't, 'o) output_row = "(go_string, ('f, 't, 'o) go_any) go_map"

text \<open>Reading a map of values that may lack the key gives nil.\<close>

definition output_value :: "('f, 't, 'o) output_row \<Rightarrow> go_string \<Rightarrow> ('f, 't, 'o) go_any" where
  "output_value output field = (case map_of output field of Some v \<Rightarrow> v | None \<Rightarrow> AnyNil)"

definition SQLValueNotDistinctV2 ::
  "('f, 't, 'o) value_env \<Rightarrow> go_string \<Rightarrow> ('f, 't, 'o) go_any \<Rightarrow> ('f, 't, 'o) go_any \<Rightarrow> exposure_error + bool" where
  "SQLValueNotDistinctV2 V sqlType left right =
     and_then (CanonicalSQLTypeV2 sqlType) (\<lambda>t.
     and_then (CanonicalSQLValue V t left) (\<lambda>leftCanonical.
     and_then (CanonicalSQLValue V t right) (\<lambda>rightCanonical.
       Inr (leftCanonical = rightCanonical))))"

definition SQLValueEqualV2 ::
  "('f, 't, 'o) value_env \<Rightarrow> go_string \<Rightarrow> ('f, 't, 'o) go_any \<Rightarrow> ('f, 't, 'o) go_any \<Rightarrow> exposure_error + SQLTruth" where
  "SQLValueEqualV2 V sqlType left right =
     and_then (CanonicalSQLTypeV2 sqlType) (\<lambda>t.
     and_then (CanonicalSQLValue V t left) (\<lambda>leftCanonical.
     and_then (CanonicalSQLValue V t right) (\<lambda>rightCanonical.
       Inr (if leftCanonical = ''null'' \<or> rightCanonical = ''null'' then SQLUnknown
            else if leftCanonical = rightCanonical then SQLTrue else SQLFalse))))"

definition expectedAggregateOutputTypeV2 :: "go_string \<Rightarrow> go_string \<Rightarrow> go_string" where
  "expectedAggregateOutputTypeV2 function input =
     (if function = ''count'' then ''bigint''
      else if function = ''sum'' \<and> (input = ''smallint'' \<or> input = ''integer'') then ''bigint''
      else if function = ''sum'' \<and> (input = ''bigint'' \<or> input = ''numeric'') then ''numeric''
      else if (function = ''min'' \<or> function = ''max'') \<and>
          input \<in> {''smallint'', ''integer'', ''bigint'', ''numeric'', ''real'', ''double precision'', ''date'',
            ''time without time zone'', ''timestamp with time zone'', ''timestamp without time zone'',
            ''text'', ''character'', ''character varying''} then input
      else [])"

definition aggregate_function :: "AggregateSpecV2 \<Rightarrow> go_string" where
  "aggregate_function spec = ToLower (TrimSpace (as_Function spec))"

definition aggregateExpressionV2 :: "('f, 't, 'o) RelationV2 \<Rightarrow> AggregateSpecV2 \<Rightarrow> go_string" where
  "aggregateExpressionV2 r spec = aggregate_function spec @ ''('' @
     (if as_Field spec = ''*'' then ''*'' else inputExpressionV2 r (as_Field spec)) @ '')''"

fun check_specs :: "('f, 't, 'o) RelationV2 \<Rightarrow> go_string list \<Rightarrow> AggregateSpecV2 list \<Rightarrow> exposure_error option" where
  "check_specs input outputIDs [] = None"
| "check_specs input outputIDs (spec # specs) =
     (let function = aggregate_function spec in
      if function \<noteq> ''count'' \<and> function \<noteq> ''sum'' \<and> function \<noteq> ''min'' \<and> function \<noteq> ''max''
        then Some (ExposureInvalid ''unsupported V2 aggregate'')
      else (case (if as_Field spec \<noteq> ''*'' then requireFieldsV2 input [as_Field spec] else None) of
          Some e \<Rightarrow> Some e
        | None \<Rightarrow>
            if invalidToken (as_OutputID spec) then Some (ExposureInvalid ''aggregate output metadata is incomplete'')
            else if as_OutputID spec \<in> set outputIDs then Some (ExposureInvalid ''duplicate V2 group output'')
            else (case CanonicalSQLTypeV2 (as_OutputType spec) of
                Inl e \<Rightarrow> Some e
              | Inr outputType \<Rightarrow>
                  if expectedAggregateOutputTypeV2 function (if as_Field spec \<noteq> ''*'' then field_type input (as_Field spec) else [])
                      \<noteq> outputType
                    then Some (ExposureInvalid ''V2 aggregate has the wrong output type'')
                  else check_specs input (as_OutputID spec # outputIDs) specs)))"

definition spec_type :: "AggregateSpecV2 \<Rightarrow> go_string" where
  "spec_type spec = (case CanonicalSQLTypeV2 (as_OutputType spec) of Inr t \<Rightarrow> t | Inl _ \<Rightarrow> [])"

definition group_field :: "('f, 't, 'o) RelationV2 \<Rightarrow> go_string \<Rightarrow> FieldV2" where
  "group_field input field = (fieldDefinitionV2 input field)\<lparr>fv_Expression := ''group('' @ inputExpressionV2 input field @ '')''\<rparr>"

definition aggregate_field :: "('f, 't, 'o) RelationV2 \<Rightarrow> AggregateSpecV2 \<Rightarrow> FieldV2" where
  "aggregate_field input spec =
     (let f = zero_field\<lparr>fv_ID := as_OutputID spec, fv_SQLType := spec_type spec, fv_Expression := aggregateExpressionV2 input spec\<rparr>;
          inputField = fieldDefinitionV2 input (as_Field spec) in
      if isCollatableTypeV2 (spec_type spec) \<and> as_Field spec \<noteq> ''*''
      then f\<lparr>fv_Collation := fv_Collation inputField, fv_CollationVersion := fv_CollationVersion inputField,
             fv_CollationDeterministic := fv_CollationDeterministic inputField\<rparr>
      else f)"

text \<open>The component of a group key for one group field with a canonical value, and the key.\<close>

definition group_component ::
  "('f, 't, 'o) value_env \<Rightarrow> ('f, 't, 'o) RelationV2 \<Rightarrow> go_string \<Rightarrow> ('f, 't, 'o) go_any \<Rightarrow> exposure_error + go_string" where
  "group_component V input field v =
     and_then (CanonicalSQLValue V (field_type input field) v) (\<lambda>canonical.
       Inr (inputExpressionV2 input field @ [CHR 0x00] @ field_type input field @ [CHR 0x00] @ canonical))"

definition output_component ::
  "('f, 't, 'o) value_env \<Rightarrow> ('f, 't, 'o) RelationV2 \<Rightarrow> ('f, 't, 'o) output_row \<Rightarrow> go_string \<Rightarrow> exposure_error + go_string" where
  "output_component V input output field =
     (case map_of output field of
        None \<Rightarrow> Inl (ExposureInvalid ''aggregate output misses group field'')
      | Some v \<Rightarrow> group_component V input field v)"

definition group_key :: "exposure_env \<Rightarrow> go_string list \<Rightarrow> exposure_error + go_string" where
  "group_key E components = ComposeCanonicalKeyV2 E ''group-row'' (sort (if components = [] then [''global''] else components))"

fun row_matches ::
  "('f, 't, 'o) value_env \<Rightarrow> ('f, 't, 'o) RelationV2 \<Rightarrow> go_string list \<Rightarrow> ('f, 't, 'o) output_row \<Rightarrow>
     ('f, 't, 'o) AnnotatedRowV2 \<Rightarrow> exposure_error + bool" where
  "row_matches V input [] output row = Inr True"
| "row_matches V input (field # flds) output row =
     and_then (SQLValueNotDistinctV2 V (field_type input field) (cv_Value (cell_at row field)) (output_value output field)) (\<lambda>equal.
       if equal then row_matches V input flds output row else Inr False)"

definition matchingGroupRowsV2 ::
  "('f, 't, 'o) value_env \<Rightarrow> ('f, 't, 'o) RelationV2 \<Rightarrow> go_string list \<Rightarrow> ('f, 't, 'o) output_row \<Rightarrow>
     exposure_error + ('f, 't, 'o) AnnotatedRowV2 list" where
  "matchingGroupRowsV2 V input flds output =
     and_then (collect (map (row_matches V input flds output) (rel_Rows input))) (\<lambda>ms.
       Inr (map fst (filter snd (zip (rel_Rows input) ms))))"

text \<open>The annotations of a list of rows or cells, merged in their order.\<close>

definition add_row_dependency ::
  "exposure_env \<Rightarrow> ('f, 't, 'o) AnnotatedRowV2 \<Rightarrow> FactSet \<times> WitnessMultiset \<Rightarrow> exposure_error + FactSet \<times> WitnessMultiset" where
  "add_row_dependency E row = (\<lambda>(support, witness).
     and_then (merge_support E support (ar_RowSupport row)) (\<lambda>support'.
     and_then (Witness_Merge E witness (ar_RowWitness row)) (\<lambda>witness'.
       Inr (support', witness'))))"

definition add_member ::
  "exposure_env \<Rightarrow> go_string list \<Rightarrow> ('f, 't, 'o) AnnotatedRowV2 \<Rightarrow> FactSet \<times> WitnessMultiset \<Rightarrow>
     exposure_error + FactSet \<times> WitnessMultiset" where
  "add_member E groupFields member state =
     and_then (add_row_dependency E member state)
       (fold_result (\<lambda>field. add_cell_dependency E (cell_at member field)) groupFields)"

definition group_cell ::
  "exposure_env \<Rightarrow> ('f, 't, 'o) RelationV2 \<Rightarrow> ('f, 't, 'o) AnnotatedRowV2 list \<Rightarrow> ('f, 't, 'o) output_row \<Rightarrow> go_string \<Rightarrow>
     (go_string, ('f, 't, 'o) CellV2) go_map \<Rightarrow> exposure_error + (go_string, ('f, 't, 'o) CellV2) go_map" where
  "group_cell E input members output field cells =
     and_then (fold_result (\<lambda>member. add_cell_dependency E (cell_at member field)) members ([], [])) (\<lambda>(support, witness).
       Inr (map_put field \<lparr>cv_Value = output_value output field, cv_SQLType = field_type input field, cv_Support = support,
         cv_Witness = witness, cv_Expression = fv_Expression (group_field input field), cv_ReleaseFact = None\<rparr> cells))"

definition aggregate_cell ::
  "exposure_env \<Rightarrow> ('f, 't, 'o) RelationV2 \<Rightarrow> ('f, 't, 'o) AnnotatedRowV2 list \<Rightarrow> ('f, 't, 'o) output_row \<Rightarrow> AggregateSpecV2 \<Rightarrow>
     (go_string, ('f, 't, 'o) CellV2) go_map \<Rightarrow> exposure_error + (go_string, ('f, 't, 'o) CellV2) go_map" where
  "aggregate_cell E input members output spec cells =
     (case map_of output (as_OutputID spec) of
        None \<Rightarrow> Inl (ExposureInvalid ''aggregate output misses value'')
      | Some v \<Rightarrow>
          and_then (fold_result (\<lambda>member. if as_Field spec = ''*'' then add_row_dependency E member
              else add_cell_dependency E (cell_at member (as_Field spec))) members ([], [])) (\<lambda>(support, witness).
            Inr (map_put (as_OutputID spec) \<lparr>cv_Value = v, cv_SQLType = spec_type spec, cv_Support = support,
              cv_Witness = witness, cv_Expression = aggregateExpressionV2 input spec, cv_ReleaseFact = None\<rparr> cells)))"

definition aggregate_row ::
  "exposure_env \<Rightarrow> ('f, 't, 'o) value_env \<Rightarrow> ('f, 't, 'o) RelationV2 \<Rightarrow> go_string list \<Rightarrow> AggregateSpecV2 list \<Rightarrow>
     ('f, 't, 'o) output_row \<Rightarrow> exposure_error + ('f, 't, 'o) AnnotatedRowV2" where
  "aggregate_row E V input groupFields specs output =
     and_then (collect (map (output_component V input output) groupFields)) (\<lambda>components.
     and_then (group_key E components) (\<lambda>key.
     and_then (matchingGroupRowsV2 V input groupFields output) (\<lambda>members.
       if groupFields \<noteq> [] \<and> members = [] then Inl (ExposureInvalid ''aggregate output group has no positive source row'')
       else
         and_then (fold_result (add_member E groupFields) members ([], [])) (\<lambda>(support, witness).
         and_then (fold_result (group_cell E input members output) groupFields []) (\<lambda>cells.
         and_then (fold_result (aggregate_cell E input members output) specs cells) (\<lambda>cells'.
           Inr \<lparr>ar_Key = key, ar_Cells = cells', ar_RowSupport = support, ar_RowWitness = witness, ar_Origins = []\<rparr>))))))"

definition expected_group ::
  "exposure_env \<Rightarrow> ('f, 't, 'o) value_env \<Rightarrow> ('f, 't, 'o) RelationV2 \<Rightarrow> go_string list \<Rightarrow> ('f, 't, 'o) AnnotatedRowV2 \<Rightarrow>
     exposure_error + go_string" where
  "expected_group E V input groupFields source =
     and_then (collect (map (\<lambda>field. group_component V input field (cv_Value (cell_at source field))) groupFields)) (group_key E)"

text \<open>The comparison of the number of output rows with the number of groups of the input.\<close>

definition check_group_count ::
  "exposure_env \<Rightarrow> ('f, 't, 'o) value_env \<Rightarrow> ('f, 't, 'o) RelationV2 \<Rightarrow> go_string list \<Rightarrow> nat \<Rightarrow> exposure_error option" where
  "check_group_count E V input groupFields n =
     (if groupFields = [] then None
      else (case collect (map (expected_group E V input groupFields) (rel_Rows input)) of
          Inl e \<Rightarrow> Some e
        | Inr keys \<Rightarrow> if n \<noteq> length (remdups keys)
            then Some (ExposureInvalid ''PostgreSQL group oracle omitted or duplicated a positive group'') else None))"

definition AggregateFromResultsV2 ::
  "exposure_env \<Rightarrow> ('f, 't, 'o) value_env \<Rightarrow> ('f, 't, 'o) RelationV2 \<Rightarrow> go_string list \<Rightarrow> AggregateSpecV2 list \<Rightarrow>
     ('f, 't, 'o) output_row list \<Rightarrow> exposure_error + ('f, 't, 'o) RelationV2" where
  "AggregateFromResultsV2 E V input groupFields specs outputRows =
     guarded (ValidateRelationV2 E V input)
     (guarded (requireFieldsV2 input groupFields)
     (if groupFields = [] \<and> specs = [] then Inl (ExposureInvalid ''V2 group requires a key or aggregate'')
      else if groupFields = [] \<and> length outputRows \<noteq> 1
        then Inl (ExposureInvalid ''a global PostgreSQL aggregate has exactly one output row'')
      else guarded (check_specs input groupFields specs)
        (and_then (collect (map (aggregate_row E V input groupFields specs) outputRows)) (\<lambda>rows.
         guarded (check_group_count E V input groupFields (length rows))
           (validated E V \<lparr>rel_Fields = map (group_field input) groupFields @ map (aggregate_field input) specs,
              rel_Rows = rows, rel_SnapshotBundle = rel_SnapshotBundle input, rel_CanonicalOrder = False\<rparr>)))))"

subsection \<open>Observation\<close>

definition observe_cell ::
  "exposure_env \<Rightarrow> ('f, 't, 'o) value_env \<Rightarrow> SnapshotBinding list \<Rightarrow> ('f, 't, 'o) AnnotatedRowV2 \<Rightarrow> go_string \<Rightarrow>
     FactSet \<times> FactSet \<Rightarrow> exposure_error + FactSet \<times> FactSet" where
  "observe_cell E V bundle row field = (\<lambda>(release, influence).
     and_then (merge_support E influence (cv_Support (cell_at row field))) (\<lambda>influence'.
     and_then (materializeCellReleaseV2 E V bundle (ar_Key row) (cell_at row field)) (\<lambda>f.
     and_then (FactSet_Add E release f) (\<lambda>release'.
       Inr (release', influence')))))"

definition observe_row ::
  "exposure_env \<Rightarrow> ('f, 't, 'o) value_env \<Rightarrow> SnapshotBinding list \<Rightarrow> go_string list \<Rightarrow> ('f, 't, 'o) AnnotatedRowV2 \<Rightarrow>
     FactSet \<times> FactSet \<Rightarrow> exposure_error + FactSet \<times> FactSet" where
  "observe_row E V bundle visibleFields row = (\<lambda>(release, influence).
     and_then (merge_support E influence (ar_RowSupport row)) (\<lambda>influence'.
       fold_result (observe_cell E V bundle row) visibleFields (release, influence')))"

definition ObserveV2 ::
  "exposure_env \<Rightarrow> ('f, 't, 'o) value_env \<Rightarrow> ('f, 't, 'o) RelationV2 \<Rightarrow> go_string list \<Rightarrow> exposure_error + Observation" where
  "ObserveV2 E V input visibleFields =
     (let visible = (if visibleFields = [] then map fv_ID (rel_Fields input) else visibleFields) in
      guarded (ValidateRelationV2 E V input)
      (guarded (requireFieldsV2 input visible)
      (and_then (fold_result (observe_row E V (rel_SnapshotBundle input) visible) (rel_Rows input) ([], [])) (\<lambda>(release, influence).
         Normalize E \<lparr>ob_ProfileVersion = ProfileV2, ob_Release = FactSet_Values release,
           ob_Influence = FactSet_Values influence, ob_Outcome = []\<rparr>))))"

end
