(* ===== verification/Exposure_Provenance.thy ===== *)
theory Exposure_Provenance
  imports Exposure_Algebra
begin

text \<open>
  What the annotations of the provenance algebra are good for. The central result is that the
  influence of an observation is sufficient: a query built with the operators of the algebra
  gives the same annotated relation on the database cut down to the base rows whose facts are
  in the influence, so nothing outside the charged footprint contributed to what was released.
\<close>

section \<open>Definitions\<close>

abbreviation hashes :: "('k, 'v) go_map \<Rightarrow> 'k set" where
  "hashes s \<equiv> fst ` set s"

subsection \<open>Queries\<close>

text \<open>
  A database gives the base relation of every source. A core query combines scans by selections,
  projections and joins; a query adds unions, aggregations with the rows PostgreSQL returned, and
  selections whose predicate PostgreSQL has already applied.
\<close>

type_synonym ('f, 't, 'o) database = "nat \<Rightarrow> ('f, 't, 'o) BaseRelationSpecV2"

datatype ('f, 't, 'o) core_query =
    Scan nat
  | Select "('f, 't, 'o) core_query" "go_string list" "('f, 't, 'o) AnnotatedRowV2 \<Rightarrow> SQLTruth"
  | Project "('f, 't, 'o) core_query" "go_string list"
  | JoinOn "('f, 't, 'o) core_query" "('f, 't, 'o) core_query" "JoinPredicateV2 list"

datatype ('f, 't, 'o) query =
    Core "('f, 't, 'o) core_query"
  | Filtered "('f, 't, 'o) query" "go_string list"
  | Projected "('f, 't, 'o) query" "go_string list"
  | UnionDistinct "('f, 't, 'o) query" "('f, 't, 'o) query"
  | Aggregate "('f, 't, 'o) query" "go_string list" "AggregateSpecV2 list" "('f, 't, 'o) output_row list"

fun eval_core ::
  "exposure_env \<Rightarrow> ('f, 't, 'o) value_env \<Rightarrow> ('f, 't, 'o) database \<Rightarrow> ('f, 't, 'o) core_query \<Rightarrow>
     exposure_error + ('f, 't, 'o) RelationV2" where
  "eval_core E V db (Scan i) = ScanV2 E V (db i)"
| "eval_core E V db (Select q fs p) = and_then (eval_core E V db q) (\<lambda>r. SelectV2 E V r fs (Some p))"
| "eval_core E V db (Project q fs) = and_then (eval_core E V db q) (\<lambda>r. ProjectV2 E V r fs)"
| "eval_core E V db (JoinOn q q' ps) =
     and_then (eval_core E V db q) (\<lambda>l. and_then (eval_core E V db q') (\<lambda>r. JoinOnV2 E V l r ps))"

fun eval_query ::
  "exposure_env \<Rightarrow> ('f, 't, 'o) value_env \<Rightarrow> ('f, 't, 'o) deep_equal \<Rightarrow> ('f, 't, 'o) database \<Rightarrow> ('f, 't, 'o) query \<Rightarrow>
     exposure_error + ('f, 't, 'o) RelationV2" where
  "eval_query E V deep db (Core q) = eval_core E V db q"
| "eval_query E V deep db (Filtered q fs) =
     and_then (eval_query E V deep db q) (\<lambda>r. SelectV2 E V r fs (Some (\<lambda>_. SQLTrue)))"
| "eval_query E V deep db (Projected q fs) = and_then (eval_query E V deep db q) (\<lambda>r. ProjectV2 E V r fs)"
| "eval_query E V deep db (UnionDistinct q q') =
     and_then (eval_query E V deep db q) (\<lambda>l. and_then (eval_query E V deep db q') (\<lambda>r. UnionDistinctV2 E V deep l r))"
| "eval_query E V deep db (Aggregate q gs specs outputs) =
     and_then (eval_query E V deep db q) (\<lambda>r. AggregateFromResultsV2 E V r gs specs outputs)"

subsection \<open>Cutting a database down\<close>

definition base_row_hash :: "exposure_env \<Rightarrow> ('f, 't, 'o) BaseRelationSpecV2 \<Rightarrow> ('f, 't, 'o) BaseRowV2 \<Rightarrow> go_string" where
  "base_row_hash E spec b = hash_of E (fst (NewBaseRowFactV2 E (bs_SourceNamespace spec) (bs_Snapshot spec) (br_EntityKey b)))"

definition restrict_db :: "exposure_env \<Rightarrow> go_string set \<Rightarrow> ('f, 't, 'o) database \<Rightarrow> ('f, 't, 'o) database" where
  "restrict_db E S db = (\<lambda>i. (db i)\<lparr>bs_Rows := filter (\<lambda>b. base_row_hash E (db i) b \<in> S) (bs_Rows (db i))\<rparr>)"

definition row_hashes :: "exposure_env \<Rightarrow> ('f, 't, 'o) database \<Rightarrow> go_string set" where
  "row_hashes E db = (\<Union>i. base_row_hash E (db i) ` set (bs_Rows (db i)))"

text \<open>No cell fact of a base relation has the hash of a row fact of the database.\<close>

definition kinds_separate :: "exposure_env \<Rightarrow> ('f, 't, 'o) value_env \<Rightarrow> ('f, 't, 'o) database \<Rightarrow> bool" where
  "kinds_separate E V db \<longleftrightarrow> (\<forall>i r row field. ScanV2 E V (db i) = Inr r \<and> row \<in> set (rel_Rows r) \<longrightarrow>
     hashes (cv_Support (cell_at row field)) \<inter> row_hashes E db = {})"

text \<open>
  The rows of every aggregation belong to a group that PostgreSQL returned: what \<open>GROUP BY\<close>
  guarantees of a complete result.
\<close>

fun groups_complete ::
  "exposure_env \<Rightarrow> ('f, 't, 'o) value_env \<Rightarrow> ('f, 't, 'o) deep_equal \<Rightarrow> ('f, 't, 'o) database \<Rightarrow> ('f, 't, 'o) query \<Rightarrow> bool" where
  "groups_complete E V deep db (Core q) = True"
| "groups_complete E V deep db (Filtered q fs) = groups_complete E V deep db q"
| "groups_complete E V deep db (Projected q fs) = groups_complete E V deep db q"
| "groups_complete E V deep db (UnionDistinct q q') =
     (groups_complete E V deep db q \<and> groups_complete E V deep db q')"
| "groups_complete E V deep db (Aggregate q gs specs outputs) =
     (groups_complete E V deep db q \<and>
      (case eval_query E V deep db q of
         Inl _ \<Rightarrow> True
       | Inr r \<Rightarrow> list_all (\<lambda>row. list_ex (\<lambda>output. row_matches V r gs output row = Inr True) outputs) (rel_Rows r)))"

subsection \<open>Annotations\<close>

text \<open>
  \<open>annotated R row\<close>: the supports are proper fact sets, and a row fact that supports a cell also
  supports the row. \<open>inside R S row\<close>: all row facts that support the row are in \<open>S\<close>.
\<close>

definition annotated :: "exposure_env \<Rightarrow> go_string set \<Rightarrow> ('f, 't, 'o) AnnotatedRowV2 \<Rightarrow> bool" where
  "annotated E R row \<longleftrightarrow> go_map_ok (ar_Cells row) \<and> set_ok E (ar_RowSupport row) \<and>
     (\<forall>field. set_ok E (cv_Support (cell_at row field)) \<and>
        hashes (cv_Support (cell_at row field)) \<inter> R \<subseteq> hashes (ar_RowSupport row))"

definition inside :: "go_string set \<Rightarrow> go_string set \<Rightarrow> ('f, 't, 'o) AnnotatedRowV2 \<Rightarrow> bool" where
  "inside R S row \<longleftrightarrow> hashes (ar_RowSupport row) \<inter> R \<subseteq> S"

section \<open>Lemmas\<close>

subsection \<open>Merging annotations\<close>

lemma set_ok_fact_hashes: "set_ok E s \<Longrightarrow> fact_hashes E (map snd s) = hashes s"
  by (simp add: fact_hashes_def set_ok_keys)

lemma merge_support_ok:
  assumes "merge_support E s t = Inr s'" "set_ok E s" "set_ok E t"
  shows "set_ok E s'" "hashes s' = hashes s \<union> hashes t"
proof -
  have "FactSet_MergeChecked E s t = (s', None)"
    using assms(1) by (auto simp: merge_support_def split: prod.splits option.splits)
  then show "set_ok E s'" "hashes s' = hashes s \<union> hashes t"
    using MergeChecked_ok [OF assms(2)] set_ok_fact_hashes [OF assms(3)] by auto
qed

lemma add_cell_dependency_ok:
  assumes "add_cell_dependency E c (s, w) = Inr (s', w')" "set_ok E s" "set_ok E (cv_Support c)"
  shows "set_ok E s'" "hashes s' = hashes s \<union> hashes (cv_Support c)"
proof -
  have "merge_support E s (cv_Support c) = Inr s'"
    using assms(1) by (auto simp: add_cell_dependency_def result_Inr)
  then show "set_ok E s'" "hashes s' = hashes s \<union> hashes (cv_Support c)"
    using merge_support_ok assms(2,3) by blast+
qed

lemma add_row_dependency_ok:
  assumes "add_row_dependency E row (s, w) = Inr (s', w')" "set_ok E s" "set_ok E (ar_RowSupport row)"
  shows "set_ok E s'" "hashes s' = hashes s \<union> hashes (ar_RowSupport row)"
proof -
  have "merge_support E s (ar_RowSupport row) = Inr s'"
    using assms(1) by (auto simp: add_row_dependency_def result_Inr)
  then show "set_ok E s'" "hashes s' = hashes s \<union> hashes (ar_RowSupport row)"
    using merge_support_ok assms(2,3) by blast+
qed

text \<open>A loop over such merges collects the hashes of everything it visits.\<close>

lemma dependency_loop:
  assumes "fold_result f xs (s, w) = Inr (s', w')" "set_ok E s"
    and "\<And>x s w s' w'. x \<in> set xs \<Longrightarrow> set_ok E s \<Longrightarrow> f x (s, w) = Inr (s', w') \<Longrightarrow>
      set_ok E s' \<and> hashes s' = hashes s \<union> h x"
  shows "set_ok E s' \<and> hashes s' = hashes s \<union> (\<Union>x\<in>set xs. h x)"
  using assms
proof (induction xs arbitrary: s w)
  case (Cons x xs)
  obtain s1 w1 where step: "f x (s, w) = Inr (s1, w1)" "fold_result f xs (s1, w1) = Inr (s', w')"
    using Cons.prems(1) by (auto simp: and_then_Inr)
  have "set_ok E s1 \<and> hashes s1 = hashes s \<union> h x" using Cons.prems(3) [OF _ Cons.prems(2) step(1)] by simp
  moreover from this have "set_ok E s' \<and> hashes s' = hashes s1 \<union> (\<Union>x\<in>set xs. h x)"
    by (intro Cons.IH [OF step(2)] Cons.prems(3)) simp_all
  ultimately show ?case by auto
qed simp

lemma cell_dependency_loop:
  assumes "fold_result (\<lambda>x. add_cell_dependency E (g x)) xs (s, w) = Inr (s', w')" "set_ok E s"
    and "\<forall>x\<in>set xs. set_ok E (cv_Support (g x))"
  shows "set_ok E s' \<and> hashes s' = hashes s \<union> (\<Union>x\<in>set xs. hashes (cv_Support (g x)))"
  by (rule dependency_loop [OF assms(1,2)]) (use assms(3) add_cell_dependency_ok in blast)

lemma marks_unchanged: "A = B \<union> (\<Union>c\<in>C. h c) \<Longrightarrow> (\<And>c. c \<in> C \<Longrightarrow> h c \<inter> R \<subseteq> B) \<Longrightarrow> A \<inter> R = B \<inter> R"
  by blast

subsection \<open>Rows of the operators\<close>

lemma cell_at_update [simp]:
  "cell_at (row\<lparr>ar_RowSupport := s\<rparr>) = cell_at row" "cell_at (row\<lparr>ar_RowWitness := w\<rparr>) = cell_at row"
  "cell_at (row\<lparr>ar_Key := k\<rparr>) = cell_at row"
  by (simp_all add: cell_at_def fun_eq_iff)

lemma zero_cell_support [simp]: "cv_Support zero_cell = []"
  by (simp add: zero_cell_def)

lemma select_row_ok:
  assumes "select_row E fs source = Inr row" "annotated E R source"
  shows "annotated E R row" "hashes (ar_RowSupport source) \<subseteq> hashes (ar_RowSupport row)"
    "inside R S row \<longleftrightarrow> inside R S source"
proof -
  obtain s w where sw: "fold_result (\<lambda>field. add_cell_dependency E (cell_at source field)) fs
      (ar_RowSupport source, ar_RowWitness source) = Inr (s, w)"
    "row = source\<lparr>ar_RowSupport := s, ar_RowWitness := w\<rparr>"
    using assms(1) by (auto simp: select_row_def and_then_Inr)
  have src: "set_ok E (ar_RowSupport source)" "\<forall>field. set_ok E (cv_Support (cell_at source field))"
    "\<forall>field. hashes (cv_Support (cell_at source field)) \<inter> R \<subseteq> hashes (ar_RowSupport source)"
    using assms(2) by (auto simp: annotated_def)
  have s: "set_ok E s" "hashes s = hashes (ar_RowSupport source) \<union> (\<Union>x\<in>set fs. hashes (cv_Support (cell_at source x)))"
    using cell_dependency_loop [OF sw(1) src(1)] src(2) by auto
  have "hashes (cv_Support (cell_at source field)) \<inter> R \<subseteq> hashes s" for field using src(3) s(2) by blast
  then show "annotated E R row" using assms(2) sw(2) s(1) by (simp add: annotated_def)
  show "hashes (ar_RowSupport source) \<subseteq> hashes (ar_RowSupport row)" using s sw(2) by auto
  show "inside R S row \<longleftrightarrow> inside R S source" 
  proof -
    have "hashes s \<inter> R = hashes (ar_RowSupport source) \<inter> R" by (rule marks_unchanged [OF s(2)]) (use src(3) in blast)
    then show ?thesis using sw(2) by (simp add: inside_def)
  qed
qed

lemma map_of_put_names:
  "map_of (foldl (\<lambda>m k. map_put k (g k) m) acc ks) k = (if k \<in> set ks then Some (g k) else map_of acc k)"
  by (induction ks arbitrary: acc) auto

lemma go_map_ok_put_names: "go_map_ok acc \<Longrightarrow> go_map_ok (foldl (\<lambda>m k. map_put k (g k) m) acc ks)"
  by (induction ks arbitrary: acc) auto

lemma cell_at_project: "cell_at (project_row fs row) f = (if f \<in> set fs then cell_at row f else zero_cell)"
proof -
  have "map_of (ar_Cells (project_row fs row)) f = (if f \<in> set fs then Some (cell_at row f) else None)"
    by (simp add: project_row_def map_of_put_names)
  then show ?thesis by (simp add: cell_at_def [of "project_row fs row"])
qed

lemma project_row_ok:
  assumes "annotated E R source"
  shows "annotated E R (project_row fs source)" "ar_RowSupport (project_row fs source) = ar_RowSupport source"
proof -
  show same: "ar_RowSupport (project_row fs source) = ar_RowSupport source" by (simp add: project_row_def)
  have "go_map_ok (ar_Cells (project_row fs source))" by (simp add: project_row_def go_map_ok_put_names)
  then show "annotated E R (project_row fs source)"
    using assms unfolding annotated_def cell_at_project same by auto
qed

lemma map_of_put_all:
  "go_map_ok xs \<Longrightarrow> map_of (foldl (\<lambda>m (k, c). map_put k c m) acc xs) k =
     (case map_of xs k of Some c \<Rightarrow> Some c | None \<Rightarrow> map_of acc k)"
proof (induction xs arbitrary: acc)
  case (Cons p xs)
  obtain k' c where p: "p = (k', c)" by (cases p)
  with Cons.prems have "map_of xs k' = None" by (auto simp: map_of_eq_None_iff)
  with Cons p show ?case by (auto split: option.splits)
qed simp

lemma go_map_ok_put_all: "go_map_ok acc \<Longrightarrow> go_map_ok (foldl (\<lambda>m (k, c). map_put k c m) acc xs)"
  by (induction xs arbitrary: acc) (auto simp: split_def)

lemma join_row_ok:
  assumes "join_row E left right ps a b = Inr row" "annotated E R a" "annotated E R b"
  shows "annotated E R row" "inside R S row \<longleftrightarrow> inside R S a \<and> inside R S b"
proof -
  obtain k s0 s w w' where parts: "merge_support E (ar_RowSupport a) (ar_RowSupport b) = Inr s0"
    "fold_result (add_cell_dependency E)
       (concat (map (\<lambda>p. [cell_at a (jp_LeftField p), cell_at b (jp_RightField p)]) ps)) (s0, ar_RowWitness a) = Inr (s, w)"
    "row = \<lparr>ar_Key = k, ar_Cells = foldl (\<lambda>cells (k, c). map_put k c cells) [] (ar_Cells a @ ar_Cells b),
       ar_RowSupport = s, ar_RowWitness = w', ar_Origins = ar_Origins a @ ar_Origins b\<rparr>"
    using assms(1) by (auto simp: join_row_def and_then_Inr)
  have a: "go_map_ok (ar_Cells a)" "set_ok E (ar_RowSupport a)" "\<And>f. set_ok E (cv_Support (cell_at a f))"
    "\<And>f. hashes (cv_Support (cell_at a f)) \<inter> R \<subseteq> hashes (ar_RowSupport a)"
    using assms(2) by (auto simp: annotated_def)
  have b: "go_map_ok (ar_Cells b)" "set_ok E (ar_RowSupport b)" "\<And>f. set_ok E (cv_Support (cell_at b f))"
    "\<And>f. hashes (cv_Support (cell_at b f)) \<inter> R \<subseteq> hashes (ar_RowSupport b)"
    using assms(3) by (auto simp: annotated_def)
  note s0 = merge_support_ok [OF parts(1) a(2) b(2)]
  let ?cells = "concat (map (\<lambda>p. [cell_at a (jp_LeftField p), cell_at b (jp_RightField p)]) ps)"
  have from_rows: "\<exists>f. c = cell_at a f \<or> c = cell_at b f" if "c \<in> set ?cells" for c using that by auto
  have "\<forall>c\<in>set ?cells. set_ok E (cv_Support c)"
    using a(3) b(3) by simp
  then have s: "set_ok E s" "hashes s = hashes s0 \<union> (\<Union>c\<in>set ?cells. hashes (cv_Support c))"
    using cell_dependency_loop [of E "\<lambda>c. c" ?cells, OF parts(2) s0(1)] by auto
  have "hashes (cv_Support c) \<inter> R \<subseteq> hashes s0" if "c \<in> set ?cells" for c
    using from_rows [OF that]
  proof (elim exE disjE)
    show "hashes (cv_Support c) \<inter> R \<subseteq> hashes s0" if "c = cell_at a f" for f using a(4) [of f] s0(2) that by auto
    show "hashes (cv_Support c) \<inter> R \<subseteq> hashes s0" if "c = cell_at b f" for f using b(4) [of f] s0(2) that by auto
  qed
  then have marks: "hashes s \<inter> R = (hashes (ar_RowSupport a) \<union> hashes (ar_RowSupport b)) \<inter> R"
    using marks_unchanged [OF s(2)] s0(2) by simp
  then show "inside R S row \<longleftrightarrow> inside R S a \<and> inside R S b"
    using parts(3) by (auto simp: inside_def)
  have cells: "cell_at row f = cell_at a f \<or> cell_at row f = cell_at b f" for f
    using a(1) b(1) parts(3) by (auto simp: cell_at_def foldl_append map_of_put_all split: option.splits)
  have "set_ok E (cv_Support (cell_at row f)) \<and> hashes (cv_Support (cell_at row f)) \<inter> R \<subseteq> hashes s" for f
    using cells [of f] a(3,4) [of f] b(3,4) [of f] s0(2) s(2) by (elim disjE) auto
  moreover have "go_map_ok (ar_Cells row)"
    using parts(3) by (simp add: go_map_ok_put_all)
  ultimately show "annotated E R row" using s(1) parts(3) by (simp add: annotated_def)
qed

subsection \<open>Scanned rows\<close>

lemma rebuilt_single: "FactID_Validate E f = None \<Longrightarrow> rebuilt_set E [f] = [(hash_of E f, f)]"
  by (simp add: rebuilt_set_def NewFactSet_single)

lemma set_ok_single: "FactID_Validate E f = None \<Longrightarrow> set_ok E [(hash_of E f, f)]"
  using NewFactSet_Inr(2) [OF NewFactSet_single] by blast

lemma scan_cells_ok:
  assumes "fold_result (scan_cell E V ns snapshot base) fs cells = Inr cells'"
    and "go_map_ok cells" "\<forall>(k, c)\<in>set cells. set_ok E (cv_Support c)"
  shows "go_map_ok cells' \<and> (\<forall>(k, c)\<in>set cells'. set_ok E (cv_Support c))"
proof (rule fold_result_invariant [OF assms(1)])
  fix field cs cs'
  assume inv: "go_map_ok cs \<and> (\<forall>(k, c)\<in>set cs. set_ok E (cv_Support c))"
    and step: "scan_cell E V ns snapshot base field cs = Inr cs'"
  obtain v f where f: "NewBaseCellFactV2 E V ns snapshot (br_EntityKey base) (fv_ID field) (fv_SQLType field) v = Inr f"
    "cs' = map_put (fv_ID field) \<lparr>cv_Value = v, cv_SQLType = fv_SQLType field, cv_Support = rebuilt_set E [f],
        cv_Witness = singleton_witness E f, cv_Expression = fv_Expression field, cv_ReleaseFact = Some f\<rparr> cs"
    using step by (auto simp: scan_cell_def and_then_Inr split: option.splits)
  have "FactID_Validate E f = None"
    using f(1) by (auto simp: NewBaseCellFactV2_def result_Inr Let_def)
  then have "set_ok E (rebuilt_set E [f])" by (simp add: rebuilt_single set_ok_single)
  moreover have "set (map_put k c m) \<subseteq> insert (k, c) (set m)" for k m and c :: "('a, 'b, 'c) CellV2"
    by (induction m) (auto split: if_splits)
  ultimately show "go_map_ok cs' \<and> (\<forall>(k, c)\<in>set cs'. set_ok E (cv_Support c))"
    using inv f(2) by (fastforce simp: distinct_map_put)
qed (use assms in auto)

lemma scan_row_ok:
  assumes "scan_row E V ns snapshot role fs base = Inr row"
  shows "go_map_ok (ar_Cells row)" "set_ok E (cv_Support (cell_at row f))" "set_ok E (ar_RowSupport row)"
    "hashes (ar_RowSupport row) = {hash_of E (fst (NewBaseRowFactV2 E ns snapshot (br_EntityKey base)))}"
    "ar_Key row = br_EntityKey base"
proof -
  obtain rowFact cells where parts: "NewBaseRowFactV2 E ns snapshot (br_EntityKey base) = (rowFact, None)"
    "fold_result (scan_cell E V ns snapshot base) fs [] = Inr cells"
    "ar_Cells row = cells" "ar_RowSupport row = rebuilt_set E [rowFact]" "ar_Key row = br_EntityKey base"
    using assms by (auto simp: scan_row_def and_then_Inr split: prod.splits option.splits)
  have cells: "go_map_ok cells" "\<forall>(k, c)\<in>set cells. set_ok E (cv_Support c)"
    using scan_cells_ok [OF parts(2)] by auto
  then show "go_map_ok (ar_Cells row)" using parts(3) by simp
  show "set_ok E (cv_Support (cell_at row f))"
    using cells(2) parts(3) by (auto simp: cell_at_def dest: map_of_SomeD split: option.splits)
  have "FactID_Validate E rowFact = None" using parts(1) by (auto simp: NewBaseRowFactV2_def checked_fact_def)
  then show "set_ok E (ar_RowSupport row)"
    "hashes (ar_RowSupport row) = {hash_of E (fst (NewBaseRowFactV2 E ns snapshot (br_EntityKey base)))}"
    using parts(1,4) by (simp_all add: rebuilt_single set_ok_single)
  show "ar_Key row = br_EntityKey base" by (rule parts(5))
qed

subsection \<open>Dropping rows keeps a relation valid\<close>

definition row_valid ::
  "exposure_env \<Rightarrow> ('f, 't, 'o) value_env \<Rightarrow> FieldV2 list \<Rightarrow> SnapshotBinding list \<Rightarrow> ('f, 't, 'o) AnnotatedRowV2 \<Rightarrow> bool" where
  "row_valid E V fs bun row \<longleftrightarrow> \<not> invalidToken (ar_Key row) \<and> length (ar_Cells row) = length fs \<and>
     validate_row E V fs bun row = None"

lemma validate_rows_iff:
  "validate_rows E V fs bun seen rows = None \<longleftrightarrow>
     (\<forall>row\<in>set rows. row_valid E V fs bun row \<and> ar_Key row \<notin> set seen) \<and> distinct (map ar_Key rows)"
proof (induction rows arbitrary: seen)
  case (Cons row rows)
  have "validate_rows E V fs bun seen (row # rows) = None \<longleftrightarrow>
      row_valid E V fs bun row \<and> ar_Key row \<notin> set seen \<and> validate_rows E V fs bun (ar_Key row # seen) rows = None"
    by (auto simp: row_valid_def split: option.splits)
  then show ?case unfolding Cons.IH by (auto simp: image_iff)
qed simp

lemma ValidateRelationV2_iff:
  "ValidateRelationV2 E V r = None \<longleftrightarrow> rel_Fields r \<noteq> [] \<and> rel_SnapshotBundle r \<noteq> [] \<and>
     validate_bundle_form (rel_SnapshotBundle r) = None \<and> validate_fields [] (rel_Fields r) = None \<and>
     (\<forall>row\<in>set (rel_Rows r). row_valid E V (rel_Fields r) (rel_SnapshotBundle r) row) \<and> distinct (map ar_Key (rel_Rows r))"
  by (auto simp: ValidateRelationV2_def validate_rows_iff split: if_splits option.splits)

lemma ValidateRelationV2_filter:
  "ValidateRelationV2 E V r = None \<Longrightarrow> ValidateRelationV2 E V (r\<lparr>rel_Rows := filter P (rel_Rows r)\<rparr>) = None"
  by (simp add: ValidateRelationV2_iff distinct_map_filter)

lemma schema_only [simp]:
  "fieldTypeMapV2 (r\<lparr>rel_Rows := rows\<rparr>) = fieldTypeMapV2 r" "requireFieldsV2 (r\<lparr>rel_Rows := rows\<rparr>) = requireFieldsV2 r"
  "field_type (r\<lparr>rel_Rows := rows\<rparr>) = field_type r" "fieldDefinitionV2 (r\<lparr>rel_Rows := rows\<rparr>) = fieldDefinitionV2 r"
  by (simp_all add: fieldTypeMapV2_def requireFieldsV2_def field_type_def fieldDefinitionV2_def fun_eq_iff)

subsection \<open>Operators on a part of the rows\<close>

abbreviation keep_rows :: "(('f, 't, 'o) AnnotatedRowV2 \<Rightarrow> bool) \<Rightarrow> ('f, 't, 'o) RelationV2 \<Rightarrow> ('f, 't, 'o) RelationV2" where
  "keep_rows P r \<equiv> r\<lparr>rel_Rows := filter P (rel_Rows r)\<rparr>"

lemma collect_filter:
  assumes "collect (map f xs) = Inr ys" "\<And>x y. x \<in> set xs \<Longrightarrow> f x = Inr y \<Longrightarrow> Q y \<longleftrightarrow> P x"
  shows "collect (map f (filter P xs)) = Inr (filter Q ys)"
  using assms
proof (induction xs arbitrary: ys)
  case (Cons x xs)
  then obtain y ys' where y: "f x = Inr y" "collect (map f xs) = Inr ys'" "ys = y # ys'"
    by (cases "f x") (auto split: sum.splits)
  then show ?case using Cons.IH [OF y(2)] Cons.prems(2) by auto
qed simp

lemma validated_Inr: "validated E V r = Inr r' \<longleftrightarrow> ValidateRelationV2 E V r = None \<and> r' = r"
  by (auto simp: validated_def guarded_Inr)

lemma scan_rows_filter:
  assumes "scan_rows E V ns snapshot role fs seen bases = Inr rows" "set seen' \<subseteq> set seen"
    and "\<And>b row. b \<in> set bases \<Longrightarrow> scan_row E V ns snapshot role fs b = Inr row \<Longrightarrow> Q row \<longleftrightarrow> P b"
  shows "scan_rows E V ns snapshot role fs seen' (filter P bases) = Inr (filter Q rows)"
  using assms
proof (induction bases arbitrary: seen seen' rows)
  case (Cons b bases)
  obtain row rows' where row: "\<not> invalidToken (br_EntityKey b)" "br_EntityKey b \<notin> set seen"
    "scan_row E V ns snapshot role fs b = Inr row"
    "scan_rows E V ns snapshot role fs (br_EntityKey b # seen) bases = Inr rows'" "rows = row # rows'"
    using Cons.prems(1) by (auto simp: result_Inr)
  have rest: "scan_rows E V ns snapshot role fs s (filter P bases) = Inr (filter Q rows')"
    if "set s \<subseteq> set (br_EntityKey b # seen)" for s
    by (rule Cons.IH [OF row(4) that]) (use Cons.prems(3) in auto)
  have "Q row \<longleftrightarrow> P b" using Cons.prems(3) row(3) by simp
  moreover have "set seen' \<subseteq> insert (br_EntityKey b) (set seen)" using Cons.prems(2) by blast
  ultimately show ?case using row rest [of seen'] rest [of "br_EntityKey b # seen'"] Cons.prems(2) by auto
qed simp

lemma scan_rows_member:
  assumes "scan_rows E V ns snapshot role fs seen bases = Inr rows" "row \<in> set rows"
  shows "\<exists>b\<in>set bases. scan_row E V ns snapshot role fs b = Inr row"
  using assms
proof (induction bases arbitrary: seen rows)
  case (Cons b bases)
  obtain row' rows' where "scan_row E V ns snapshot role fs b = Inr row'"
    "scan_rows E V ns snapshot role fs (br_EntityKey b # seen) bases = Inr rows'" "rows = row' # rows'"
    using Cons.prems(1) by (auto simp: result_Inr)
  then show ?case using Cons.IH [of "br_EntityKey b # seen" rows'] Cons.prems(2) by auto
qed simp

lemma ScanV2_restrict:
  assumes "ScanV2 E V (db i) = Inr r" "kinds_separate E V db" and R: "R = row_hashes E db"
  shows "ScanV2 E V (restrict_db E S db i) = Inr (keep_rows (inside R S) r)" "\<forall>row\<in>set (rel_Rows r). annotated E R row"
proof -
  let ?spec = "db i"
  let ?row = "scan_row E V (bs_SourceNamespace ?spec) (bs_Snapshot ?spec) (bs_StableRole ?spec)"
  obtain fs rows where parts: "\<not> (invalidToken (bs_SourceNamespace ?spec) \<or> invalidToken (bs_Snapshot ?spec) \<or>
      invalidToken (bs_StableRole ?spec) \<or> bs_Fields ?spec = [])"
    "scan_fields (bs_SourceNamespace ?spec) [] (bs_Fields ?spec) = Inr fs"
    "scan_rows E V (bs_SourceNamespace ?spec) (bs_Snapshot ?spec) (bs_StableRole ?spec) fs [] (bs_Rows ?spec) = Inr rows"
    "r = \<lparr>rel_Fields = fs, rel_Rows = rows,
       rel_SnapshotBundle = [\<lparr>sb_SourceNamespace = bs_SourceNamespace ?spec, sb_Snapshot = bs_Snapshot ?spec\<rparr>],
       rel_CanonicalOrder = False\<rparr>" "ValidateRelationV2 E V r = None"
    using assms(1) by (auto simp: ScanV2_def result_Inr validated_Inr)
  have base: "hashes (ar_RowSupport row) = {base_row_hash E ?spec b}" "base_row_hash E ?spec b \<in> R"
    if "b \<in> set (bs_Rows ?spec)" "?row fs b = Inr row" for b row
    using scan_row_ok(4) [OF that(2)] that(1) by (auto simp: base_row_hash_def R row_hashes_def)
  have "scan_rows E V (bs_SourceNamespace ?spec) (bs_Snapshot ?spec) (bs_StableRole ?spec) fs []
      (filter (\<lambda>b. base_row_hash E ?spec b \<in> S) (bs_Rows ?spec)) = Inr (filter (inside R S) rows)"
    by (rule scan_rows_filter [OF parts(3)]) (use base in \<open>auto simp: inside_def\<close>)
  then show "ScanV2 E V (restrict_db E S db i) = Inr (keep_rows (inside R S) r)"
    using parts(1,2) ValidateRelationV2_filter [OF parts(5), of "inside R S"]
    by (simp add: ScanV2_def restrict_db_def validated_def parts(4))
  show "\<forall>row\<in>set (rel_Rows r). annotated E R row"
  proof
    fix row
    assume row: "row \<in> set (rel_Rows r)"
    then obtain b where b: "b \<in> set (bs_Rows ?spec)" "?row fs b = Inr row"
      using scan_rows_member [OF parts(3)] parts(4) by auto
    have "hashes (cv_Support (cell_at row f)) \<inter> R = {}" for f
      using assms(1,2) row unfolding kinds_separate_def R by blast
    then show "annotated E R row" using scan_row_ok [OF b(2)] by (simp add: annotated_def)
  qed
qed

lemma SelectV2_keep:
  assumes "SelectV2 E V input fs (Some p) = Inr r" "\<forall>row\<in>set (rel_Rows input). annotated E R row"
  shows "SelectV2 E V (keep_rows (inside R S) input) fs (Some p) = Inr (keep_rows (inside R S) r)"
    "\<forall>row\<in>set (rel_Rows r). annotated E R row"
proof -
  let ?P = "\<lambda>row. p row = SQLTrue"
  obtain rows where parts: "ValidateRelationV2 E V input = None" "requireFieldsV2 input fs = None"
    "collect (map (select_row E fs) (filter ?P (rel_Rows input))) = Inr rows" "r = input\<lparr>rel_Rows := rows\<rparr>"
    "ValidateRelationV2 E V r = None"
    using assms(1) by (auto simp: SelectV2_def result_Inr validated_Inr)
  have swap: "filter ?P (filter (inside R S) (rel_Rows input)) = filter (inside R S) (filter ?P (rel_Rows input))"
    by (simp add: conj_commute)
  have "collect (map (select_row E fs) (filter (inside R S) (filter ?P (rel_Rows input)))) = Inr (filter (inside R S) rows)"
    by (rule collect_filter [OF parts(3)]) (use assms(2) select_row_ok(3) in fastforce)
  then show "SelectV2 E V (keep_rows (inside R S) input) fs (Some p) = Inr (keep_rows (inside R S) r)"
    using parts(2) ValidateRelationV2_filter [OF parts(1), of "inside R S"] ValidateRelationV2_filter [OF parts(5), of "inside R S"]
    by (simp add: SelectV2_def swap validated_def parts(4) del: filter_filter)
  show "\<forall>row\<in>set (rel_Rows r). annotated E R row"
  proof
    fix row
    assume "row \<in> set (rel_Rows r)"
    then obtain source where "source \<in> set (rel_Rows input)" "select_row E fs source = Inr row"
      using collect_result_member [OF parts(3)] parts(4) by auto
    then show "annotated E R row" using select_row_ok(1) assms(2) by blast
  qed
qed

lemma ProjectV2_keep:
  assumes "ProjectV2 E V input fs = Inr r" "\<forall>row\<in>set (rel_Rows input). annotated E R row"
  shows "ProjectV2 E V (keep_rows (inside R S) input) fs = Inr (keep_rows (inside R S) r)"
    "\<forall>row\<in>set (rel_Rows r). annotated E R row"
proof -
  have parts: "ValidateRelationV2 E V input = None" "fs \<noteq> []" "requireFieldsV2 input fs = None"
    "r = input\<lparr>rel_Fields := map (fieldDefinitionV2 input) fs, rel_Rows := map (project_row fs) (rel_Rows input)\<rparr>"
    "ValidateRelationV2 E V r = None"
    using assms(1) by (auto simp: ProjectV2_def result_Inr validated_Inr)
  have "inside R S (project_row fs row) = inside R S row" for row :: "('a, 'b, 'c) AnnotatedRowV2"
    by (simp add: inside_def project_row_def)
  then show "ProjectV2 E V (keep_rows (inside R S) input) fs = Inr (keep_rows (inside R S) r)"
    using parts(2,3) ValidateRelationV2_filter [OF parts(1), of "inside R S"] ValidateRelationV2_filter [OF parts(5), of "inside R S"]
    by (simp add: ProjectV2_def validated_def parts(4) filter_map comp_def)
  show "\<forall>row\<in>set (rel_Rows r). annotated E R row"
    using parts(4) assms(2) by (simp add: project_row_ok(1))
qed

text \<open>
  The contract of an operator on one relation: it commutes with dropping the rows that rest on
  dropped base rows, and keeps the annotations proper.
\<close>

locale slicing_operator =
  fixes E :: exposure_env and operator :: "('f, 't, 'o) RelationV2 \<Rightarrow> exposure_error + ('f, 't, 'o) RelationV2"
  assumes keeps: "operator input = Inr r \<Longrightarrow> \<forall>row\<in>set (rel_Rows input). annotated E R row \<Longrightarrow>
      operator (keep_rows (inside R S) input) = Inr (keep_rows (inside R S) r)"
    and annotates: "operator input = Inr r \<Longrightarrow> \<forall>row\<in>set (rel_Rows input). annotated E R row \<Longrightarrow>
      \<forall>row\<in>set (rel_Rows r). annotated E R row"
begin

lemma after:
  assumes "and_then x operator = Inr r"
    and "\<And>input. x = Inr input \<Longrightarrow> y = Inr (keep_rows (inside R S) input) \<and> (\<forall>row\<in>set (rel_Rows input). annotated E R row)"
  shows "and_then y operator = Inr (keep_rows (inside R S) r) \<and> (\<forall>row\<in>set (rel_Rows r). annotated E R row)"
proof -
  obtain input where input: "x = Inr input" "operator input = Inr r" using assms(1) unfolding and_then_Inr by blast
  note y = conjunct1 [OF assms(2) [OF input(1)]] conjunct2 [OF assms(2) [OF input(1)]]
  show ?thesis unfolding y(1) and_then_Inr_simp by (rule conjI [OF keeps annotates]) (rule input(2) y(2))+
qed

end

interpretation select: slicing_operator E "\<lambda>r. SelectV2 E V r fs (Some p)" for E V fs p
  by unfold_locales (rule SelectV2_keep; assumption)+

interpretation project: slicing_operator E "\<lambda>r. ProjectV2 E V r fs" for E V fs
  by unfold_locales (rule ProjectV2_keep; assumption)+

text \<open>The index of the join finds the rows with a key, in their order.\<close>

definition found :: "('k, 'v list) go_map \<Rightarrow> 'k \<Rightarrow> 'v list" where
  "found index k = (case map_of index k of None \<Rightarrow> [] | Some rows \<Rightarrow> rows)"

definition add_found :: "('k, 'v list) go_map \<Rightarrow> 'v \<Rightarrow> 'k option \<Rightarrow> ('k, 'v list) go_map" where
  "add_found index row key = (case key of None \<Rightarrow> index | Some k \<Rightarrow> map_put k (found index k @ [row]) index)"

lemma index_rows_total:
  "fold_result (index_row V keys types) rows index = Inr index' \<Longrightarrow>
     \<exists>index'. fold_result (index_row V keys types) (filter P rows) index2 = Inr index'"
proof (induction rows arbitrary: index index2)
  case (Cons row rows)
  obtain i1 where step: "index_row V keys types row index = Inr i1" "fold_result (index_row V keys types) rows i1 = Inr index'"
    using Cons.prems by (auto simp: and_then_Inr)
  then obtain k where "joinEqualityKeyV2 V row keys types = Inr k" by (auto simp: index_row_def and_then_Inr)
  then have "\<exists>i2. index_row V keys types row index2 = Inr i2" by (simp add: index_row_def)
  then show ?case using Cons.IH [OF step(2)] by (auto simp: and_then_Inr)
qed simp

lemma index_rows_found:
  "fold_result (index_row V keys types) rows index = Inr index' \<Longrightarrow>
     found index' k = found index k @ filter (\<lambda>row. joinEqualityKeyV2 V row keys types = Inr (Some k)) rows"
proof (induction rows arbitrary: index)
  case (Cons row rows)
  obtain i1 where step: "index_row V keys types row index = Inr i1" "fold_result (index_row V keys types) rows i1 = Inr index'"
    using Cons.prems by (auto simp: and_then_Inr)
  obtain key where key: "joinEqualityKeyV2 V row keys types = Inr key" "index_row V keys types row index = Inr (add_found index row key)"
    using step(1) by (auto simp: index_row_def and_then_Inr add_found_def found_def split: option.splits)
  have "found i1 k = found index k @ (if joinEqualityKeyV2 V row keys types = Inr (Some k) then [row] else [])"
    using step(1) key by (auto simp: found_def add_found_def split: option.splits)
  then show ?case using Cons.IH [OF step(2)] by simp
qed simp

lemma join_schema_only [simp]:
  "relationRowIdentityV2 E (r\<lparr>rel_Rows := rows\<rparr>) = relationRowIdentityV2 E r"
  "join_row E (l\<lparr>rel_Rows := rows\<rparr>) (r\<lparr>rel_Rows := rows'\<rparr>) = join_row E l r"
  "join_types (l\<lparr>rel_Rows := rows\<rparr>) (r\<lparr>rel_Rows := rows'\<rparr>) seen ps = join_types l r seen ps"
proof -
  show id: "relationRowIdentityV2 E (r\<lparr>rel_Rows := rows\<rparr>) = relationRowIdentityV2 E r" for r :: "('a, 'b, 'c) RelationV2" and rows
    by (simp add: relationRowIdentityV2_def fun_eq_iff)
  show "join_row E (l\<lparr>rel_Rows := rows\<rparr>) (r\<lparr>rel_Rows := rows'\<rparr>) = join_row E l r"
    by (simp add: join_row_def id fun_eq_iff)
  show "join_types (l\<lparr>rel_Rows := rows\<rparr>) (r\<lparr>rel_Rows := rows'\<rparr>) seen ps = join_types l r seen ps"
  proof (induction ps arbitrary: seen)
    case (Cons p ps)
    show ?case unfolding join_types.simps schema_only Cons.IH ..
  qed simp
qed

lemma join_left_row_found:
  "join_left_row E V l r ps types index a =
     and_then (joinEqualityKeyV2 V a (map jp_LeftField ps) types) (\<lambda>key.
       case key of None \<Rightarrow> Inr [] | Some k \<Rightarrow> collect (map (join_row E l r ps a) (found index k)))"
  unfolding join_left_row_def found_def ..

lemma concat_filter_collect:
  assumes "collect (map f xs) = Inr yss"
    and "\<And>x ys. x \<in> set xs \<Longrightarrow> f x = Inr ys \<Longrightarrow> P x \<Longrightarrow> g x = Inr (filter Q ys)"
    and "\<And>x ys. x \<in> set xs \<Longrightarrow> f x = Inr ys \<Longrightarrow> \<not> P x \<Longrightarrow> filter Q ys = []"
  shows "\<exists>zss. collect (map g (filter P xs)) = Inr zss \<and> concat zss = filter Q (concat yss)"
  using assms
proof (induction xs arbitrary: yss)
  case (Cons x xs)
  then obtain ys yss' where y: "f x = Inr ys" "collect (map f xs) = Inr yss'" "yss = ys # yss'"
    by (cases "f x") (auto split: sum.splits)
  have "\<exists>zss. collect (map g (filter P xs)) = Inr zss \<and> concat zss = filter Q (concat yss')"
    by (rule Cons.IH [OF y(2)]) (auto intro: Cons.prems(2,3))
  then obtain zss where zss: "collect (map g (filter P xs)) = Inr zss" "concat zss = filter Q (concat yss')" by blast
  show ?case
  proof (cases "P x")
    case True
    then show ?thesis using Cons.prems(2) [OF _ y(1)] zss y(3) by simp
  next
    case False
    then show ?thesis using Cons.prems(3) [OF _ y(1)] zss y(3) by simp
  qed
qed simp

lemma JoinOnV2_keep:
  assumes join: "JoinOnV2 E V l r ps = Inr j"
    and l: "\<forall>row\<in>set (rel_Rows l). annotated E R row" and r: "\<forall>row\<in>set (rel_Rows r). annotated E R row"
  shows "JoinOnV2 E V (keep_rows (inside R S) l) (keep_rows (inside R S) r) ps = Inr (keep_rows (inside R S) j)"
    "\<forall>row\<in>set (rel_Rows j). annotated E R row"
proof -
  let ?in = "inside R S"
  obtain types bun fs index rowss where parts:
    "ValidateRelationV2 E V l = None" "ValidateRelationV2 E V r = None" "ps \<noteq> []" "join_types l r [] ps = Inr types"
    "requireFieldsV2 l (map jp_LeftField ps) = None" "requireFieldsV2 r (map jp_RightField ps) = None"
    "mergeSnapshotBundles (rel_SnapshotBundle l) (rel_SnapshotBundle r) = Inr bun"
    "join_fields (rel_Fields l) (rel_Fields r) = Inr fs"
    "fold_result (index_row V (map jp_RightField ps) types) (rel_Rows r) [] = Inr index"
    "collect (map (join_left_row E V l r ps types index) (rel_Rows l)) = Inr rowss"
    and j: "j = \<lparr>rel_Fields = fs, rel_Rows = concat rowss, rel_SnapshotBundle = bun, rel_CanonicalOrder = False\<rparr>"
      "ValidateRelationV2 E V j = None"
    using join by (auto simp: JoinOnV2_def result_Inr validated_Inr)
  obtain index' where index': "fold_result (index_row V (map jp_RightField ps) types) (filter ?in (rel_Rows r)) [] = Inr index'"
    using index_rows_total [OF parts(9)] by blast
  have found: "found index k = filter (\<lambda>row. joinEqualityKeyV2 V row (map jp_RightField ps) types = Inr (Some k)) (rel_Rows r)"
    "found index' k = filter ?in (found index k)" for k
    using index_rows_found [OF parts(9), of k] index_rows_found [OF index', of k]
    by (simp_all add: found_def [of "[]"] conj_commute)
  have right: "annotated E R b" if "b \<in> set (found index k)" for b k using that found(1) r by auto
  have rows: "annotated E R y" "?in y \<longleftrightarrow> ?in a \<and> ?in b"
    if "join_row E l r ps a b = Inr y" "a \<in> set (rel_Rows l)" "b \<in> set (found index k)" for a b y k
    using join_row_ok [OF that(1)] l that(2) right [OF that(3)] by blast+
  have "\<exists>zss. collect (map (join_left_row E V l r ps types index') (filter ?in (rel_Rows l))) = Inr zss \<and>
      concat zss = filter ?in (concat rowss)"
  proof (rule concat_filter_collect [OF parts(10)])
    fix a ys
    assume a: "a \<in> set (rel_Rows l)" and ys: "join_left_row E V l r ps types index a = Inr ys"
    obtain key where key: "joinEqualityKeyV2 V a (map jp_LeftField ps) types = Inr key"
      "(case key of None \<Rightarrow> Inr [] | Some k \<Rightarrow> collect (map (join_row E l r ps a) (found index k))) = Inr ys"
      using ys by (auto simp: join_left_row_found and_then_Inr)
    show "join_left_row E V l r ps types index' a = Inr (filter ?in ys)" if "?in a"
    proof (cases key)
      case (Some k)
      have "collect (map (join_row E l r ps a) (filter ?in (found index k))) = Inr (filter ?in ys)"
        by (rule collect_filter) (use key(2) Some rows(2) [OF _ a] that in auto)
      then show ?thesis using key(1) Some found(2) by (simp add: join_left_row_found)
    qed (use key in \<open>simp add: join_left_row_found\<close>)
    show "filter ?in ys = []" if "\<not> ?in a"
    proof (cases key)
      case (Some k)
      have coll: "collect (map (join_row E l r ps a) (found index k)) = Inr ys" using key(2) Some by simp
      have "\<not> ?in y" if "y \<in> set ys" for y
        using collect_result_member [OF coll that] rows(2) [OF _ a] \<open>\<not> ?in a\<close> by blast
      then show ?thesis by (simp add: filter_empty_conv)
    qed (use key in simp)
  qed
  then obtain zss where zss: "collect (map (join_left_row E V l r ps types index') (filter ?in (rel_Rows l))) = Inr zss"
    "concat zss = filter ?in (concat rowss)" by blast
  have "join_left_row E V (keep_rows ?in l) (keep_rows ?in r) ps types index' = join_left_row E V l r ps types index'"
    unfolding join_left_row_def join_schema_only ..
  then show "JoinOnV2 E V (keep_rows ?in l) (keep_rows ?in r) ps = Inr (keep_rows ?in j)"
    using parts(3-8) index' zss ValidateRelationV2_filter [OF parts(1), of ?in] ValidateRelationV2_filter [OF parts(2), of ?in]
      ValidateRelationV2_filter [OF j(2), of ?in]
    by (simp add: JoinOnV2_def j(1) validated_def)
  show "\<forall>row\<in>set (rel_Rows j). annotated E R row"
  proof
    fix y
    assume "y \<in> set (rel_Rows j)"
    then obtain ys where ys: "y \<in> set ys" "ys \<in> set rowss" using j(1) by auto
    then obtain a where a: "a \<in> set (rel_Rows l)" "join_left_row E V l r ps types index a = Inr ys"
      using collect_result_member [OF parts(10)] by blast
    then obtain k where "collect (map (join_row E l r ps a) (found index k)) = Inr ys"
      using ys(1) by (auto simp: join_left_row_found and_then_Inr split: option.splits)
    then show "annotated E R y" using collect_result_member [OF _ ys(1)] rows(1) [OF _ a(1)] by blast
  qed
qed

text \<open>A core query on the restricted database returns the rows whose row facts were kept.\<close>

lemma eval_core_restrict:
  assumes "eval_core E V db q = Inr r" "kinds_separate E V db" "R = row_hashes E db"
  shows "eval_core E V (restrict_db E S db) q = Inr (keep_rows (inside R S) r) \<and> (\<forall>row\<in>set (rel_Rows r). annotated E R row)"
  using assms(1)
proof (induction q arbitrary: r)
  case (Scan i)
  then show ?case using ScanV2_restrict [OF _ assms(2,3)] by simp
next
  case (Select q fs p)
  from Select.prems show ?case unfolding eval_core.simps by (rule select.after) (rule Select.IH)
next
  case (Project q fs)
  from Project.prems show ?case unfolding eval_core.simps by (rule project.after) (rule Project.IH)
next
  case (JoinOn q q' ps)
  then obtain a b where ab: "eval_core E V db q = Inr a" "eval_core E V db q' = Inr b" "JoinOnV2 E V a b ps = Inr r"
    by (auto simp: and_then_Inr)
  have a: "eval_core E V (restrict_db E S db) q = Inr (keep_rows (inside R S) a)" "\<forall>row\<in>set (rel_Rows a). annotated E R row"
    using JoinOn.IH(1) [OF ab(1)] by (rule conjunct1, rule conjunct2)
  have b: "eval_core E V (restrict_db E S db) q' = Inr (keep_rows (inside R S) b)" "\<forall>row\<in>set (rel_Rows b). annotated E R row"
    using JoinOn.IH(2) [OF ab(2)] by (rule conjunct1, rule conjunct2)
  show ?case unfolding eval_core.simps a(1) b(1) and_then_Inr_simp
    by (rule conjI [OF JoinOnV2_keep [OF ab(3) a(2) b(2)]])
qed

subsection \<open>Every row of an input supports a row of the result\<close>

text \<open>
  With no marked hashes, \<^const>\<open>annotated\<close> says only that the supports are proper fact sets.
\<close>

abbreviation well_annotated :: "exposure_env \<Rightarrow> ('f, 't, 'o) RelationV2 \<Rightarrow> bool" where
  "well_annotated E r \<equiv> \<forall>row\<in>set (rel_Rows r). annotated E {} row"

definition covers :: "('f, 't, 'o) AnnotatedRowV2 list \<Rightarrow> ('f, 't, 'o) AnnotatedRowV2 list \<Rightarrow> bool" where
  "covers outer inner \<longleftrightarrow> (\<forall>a\<in>set inner. \<exists>b\<in>set outer. hashes (ar_RowSupport a) \<subseteq> hashes (ar_RowSupport b))"

lemma annotated_unmarked: "annotated E R row \<Longrightarrow> annotated E {} row"
  by (simp add: annotated_def)

lemma annotated_support: "annotated E R row \<Longrightarrow> set_ok E (ar_RowSupport row)"
  "annotated E R row \<Longrightarrow> set_ok E (cv_Support (cell_at row f))"
  by (simp_all add: annotated_def)

lemma covers_inside: "covers outer inner \<Longrightarrow> \<forall>row\<in>set outer. inside R S row \<Longrightarrow> \<forall>row\<in>set inner. inside R S row"
  unfolding covers_def inside_def by blast

lemma cell_at_put:
  "cell_at (row\<lparr>ar_Cells := map_put k c (ar_Cells row)\<rparr>) f = (if f = k then c else cell_at row f)"
  by (simp add: cell_at_def)

lemma annotated_put_cell:
  "annotated E {} row \<Longrightarrow> set_ok E (cv_Support c) \<Longrightarrow> annotated E {} (row\<lparr>ar_Cells := map_put k c (ar_Cells row)\<rparr>)"
  by (simp add: annotated_def cell_at_put distinct_map_put)

lemma SelectV2_covers:
  assumes "SelectV2 E V input fs (Some (\<lambda>_. SQLTrue)) = Inr r" "well_annotated E input"
  shows "covers (rel_Rows r) (rel_Rows input)"
proof -
  obtain rows where rows: "collect (map (select_row E fs) (rel_Rows input)) = Inr rows" "rel_Rows r = rows"
    using assms(1) by (auto simp: SelectV2_def result_Inr validated_Inr)
  have "\<exists>b\<in>set rows. hashes (ar_RowSupport a) \<subseteq> hashes (ar_RowSupport b)" if a: "a \<in> set (rel_Rows input)" for a
  proof -
    obtain b where b: "select_row E fs a = Inr b" "b \<in> set rows" using collect_member [OF rows(1) a] by blast
    then show ?thesis using select_row_ok(2) [OF b(1)] assms(2) a by blast
  qed
  then show ?thesis by (simp add: covers_def rows(2))
qed

lemma ProjectV2_covers: "ProjectV2 E V input fs = Inr r \<Longrightarrow> covers (rel_Rows r) (rel_Rows input)"
  by (auto simp: ProjectV2_def result_Inr validated_Inr covers_def project_row_def)

text \<open>Union: the rows of both sides, whether they are merged or folded.\<close>

lemma maps_equal_keys:
  assumes "maps_equal eq m n" "go_map_ok m" "go_map_ok n"
  shows "hashes m = hashes n"
proof -
  have "hashes m \<subseteq> hashes n"
    using assms(1) by (force simp: maps_equal_def list_all_iff dest: map_of_SomeD split: option.splits)
  moreover have "card (hashes m) = card (hashes n)"
    using assms distinct_card [of "map fst m"] distinct_card [of "map fst n"] by (simp add: maps_equal_def)
  ultimately show ?thesis by (simp add: card_subset_eq)
qed

lemma relations_equal_covers:
  assumes "relations_equal deep l r" "well_annotated E l" "well_annotated E r"
  shows "covers (rel_Rows l) (rel_Rows r)"
proof -
  have rows: "list_all2 (rows_equal deep) (rel_Rows l) (rel_Rows r)" using assms(1) by (simp add: relations_equal_def)
  have "\<exists>a\<in>set (rel_Rows l). hashes (ar_RowSupport b) \<subseteq> hashes (ar_RowSupport a)" if b: "b \<in> set (rel_Rows r)" for b
  proof -
    obtain i where i: "i < length (rel_Rows r)" "b = rel_Rows r ! i" using b by (auto simp: in_set_conv_nth)
    define a where "a = rel_Rows l ! i"
    have a: "a \<in> set (rel_Rows l)" "rows_equal deep a b"
      using list_all2_lengthD [OF rows] list_all2_nthD2 [OF rows i(1)] i by (simp_all add: a_def)
    have "hashes (ar_RowSupport a) = hashes (ar_RowSupport b)"
      using a(2) annotated_support(1) assms(2,3) a(1) b
      by (intro maps_equal_keys) (auto simp: rows_equal_def set_ok_def)
    then show ?thesis using a(1) by blast
  qed
  then show ?thesis by (simp add: covers_def)
qed

lemma dependency_ok:
  assumes "unionDistinctRowDependencyV2 E source fs = Inr (s, w)" "annotated E {} source"
  shows "set_ok E s" "hashes (ar_RowSupport source) \<subseteq> hashes s"
proof -
  have "set_ok E s \<and> hashes s = hashes (ar_RowSupport source) \<union> (\<Union>f\<in>set fs. hashes (cv_Support (cell_at source (fv_ID f))))"
    using assms(2) by (intro cell_dependency_loop [OF assms(1) [unfolded unionDistinctRowDependencyV2_def]])
      (simp_all add: annotated_def)
  then show "set_ok E s" "hashes (ar_RowSupport source) \<subseteq> hashes s" by auto
qed

lemma merge_union_row_ok:
  assumes "merge_union_row E V fs bun source s w row = Inr row'" "annotated E {} row" "annotated E {} source" "set_ok E s"
  shows "annotated E {} row'" "hashes (ar_RowSupport row') = hashes (ar_RowSupport row) \<union> hashes s"
proof -
  obtain t u where parts: "merge_support E (ar_RowSupport row) s = Inr t"
    "fold_result (merge_union_cell E V bun source) fs (row\<lparr>ar_RowSupport := t, ar_RowWitness := u\<rparr>) = Inr row'"
    using assms(1) by (auto simp: merge_union_row_def and_then_Inr)
  note t = merge_support_ok [OF parts(1) annotated_support(1) [OF assms(2)] assms(4)]
  have "annotated E {} row' \<and> ar_RowSupport row' = t"
  proof (rule fold_result_invariant [OF parts(2)])
    show "annotated E {} (row\<lparr>ar_RowSupport := t, ar_RowWitness := u\<rparr>) \<and>
        ar_RowSupport (row\<lparr>ar_RowSupport := t, ar_RowWitness := u\<rparr>) = t"
      using assms(2) t(1) by (simp add: annotated_def)
  next
    fix f x x'
    assume inv: "annotated E {} x \<and> ar_RowSupport x = t" and step: "merge_union_cell E V bun source f x = Inr x'"
    obtain sup c where c: "merge_support E (cv_Support (cell_at x (fv_ID f))) (cv_Support (cell_at source (fv_ID f))) = Inr sup"
      "x' = x\<lparr>ar_Cells := map_put (fv_ID f) c (ar_Cells x)\<rparr>" "cv_Support c = sup"
      using step by (auto simp: merge_union_cell_def and_then_Inr Let_def)
    have "set_ok E sup" using merge_support_ok(1) [OF c(1)] annotated_support(2) inv assms(3) by blast
    then show "annotated E {} x' \<and> ar_RowSupport x' = t" using annotated_put_cell [of E x c] inv c(2,3) by simp
  qed
  then show "annotated E {} row'" "hashes (ar_RowSupport row') = hashes (ar_RowSupport row) \<union> hashes s" using t(2) by auto
qed

lemma new_union_row_ok:
  assumes "new_union_row E V fs bun source s w key = Inr row" "annotated E {} source" "set_ok E s"
  shows "annotated E {} row" "ar_RowSupport row = s"
proof -
  have "annotated E {} row \<and> ar_RowSupport row = s"
  proof (rule fold_result_invariant [OF assms(1) [unfolded new_union_row_def]])
    show "annotated E {} (source\<lparr>ar_Key := key, ar_RowSupport := s, ar_RowWitness := w\<rparr>) \<and>
        ar_RowSupport (source\<lparr>ar_Key := key, ar_RowSupport := s, ar_RowWitness := w\<rparr>) = s"
      using assms(2,3) by (simp add: annotated_def)
  next
    fix f x x'
    assume inv: "annotated E {} x \<and> ar_RowSupport x = s" and step: "release_union_cell E V bun source f x = Inr x'"
    obtain c where c: "x' = x\<lparr>ar_Cells := map_put (fv_ID f) c (ar_Cells x)\<rparr>" "cv_Support c = cv_Support (cell_at x (fv_ID f))"
      using step by (auto simp: release_union_cell_def and_then_Inr Let_def)
    then show "annotated E {} x' \<and> ar_RowSupport x' = s"
      using annotated_put_cell [of E x c] annotated_support(2) [of E "{}" x] inv by simp
  qed
  then show "annotated E {} row" "ar_RowSupport row = s" by auto
qed

lemma union_step_ok:
  assumes "union_step E V fs (bun, source) (index, rows) = Inr (index', rows')" "annotated E {} source"
    and "\<forall>row\<in>set rows. annotated E {} row" "\<forall>i\<in>ran (map_of index). i < length rows"
  shows "\<forall>row\<in>set rows'. annotated E {} row" "\<forall>i\<in>ran (map_of index'). i < length rows'" "covers rows' (source # rows)"
proof -
  obtain s w key where dep: "unionDistinctRowDependencyV2 E source fs = Inr (s, w)" "tuple_key E V fs source = Inr key"
    and rest: "(case map_of index key of
         Some i \<Rightarrow> and_then (merge_union_row E V fs bun source s w (rows ! i)) (\<lambda>row. Inr (index, rows[i := row]))
       | None \<Rightarrow> and_then (new_union_row E V fs bun source s w key) (\<lambda>row.
           Inr (map_put key (length rows) index, rows @ [row]))) = Inr (index', rows')"
    using assms(1) by (auto simp: union_step_def and_then_Inr)
  note s = dependency_ok [OF dep(1) assms(2)]
  have "(\<forall>row\<in>set rows'. annotated E {} row) \<and> (\<forall>i\<in>ran (map_of index'). i < length rows') \<and> covers rows' (source # rows)"
  proof (cases "map_of index key")
    case None
    obtain row where row: "new_union_row E V fs bun source s w key = Inr row"
      "index' = map_put key (length rows) index" "rows' = rows @ [row]"
      using rest None by (auto simp: and_then_Inr)
    note row' = new_union_row_ok [OF row(1) assms(2) s(1)]
    have "i < length rows'" if i: "i \<in> ran (map_of index')" for i
      using i assms(4) row(2,3) by (auto simp: ran_def split: if_splits)
    moreover have "covers rows' (source # rows)" using row'(2) s(2) row(3) by (auto simp: covers_def)
    ultimately show ?thesis using assms(3) row'(1) row(3) by auto
  next
    case (Some i)
    obtain row where row: "merge_union_row E V fs bun source s w (rows ! i) = Inr row" "index' = index" "rows' = rows[i := row]"
      using rest Some by (auto simp: and_then_Inr)
    have i: "i < length rows" using assms(4) Some by (auto simp: ran_def)
    note row' = merge_union_row_ok [OF row(1) _ assms(2) s(1)]
    have old: "annotated E {} (rows ! i)" using assms(3) i by simp
    have new: "row \<in> set rows'" using i row(3) by (simp add: set_update_memI)
    have "a \<in> set rows' \<or> a = rows ! i" if "a \<in> set rows" for a
      using that row(3) i by (auto simp: in_set_conv_nth) (metis nth_list_update_neq)
    moreover have "hashes (ar_RowSupport source) \<subseteq> hashes (ar_RowSupport row)"
      "hashes (ar_RowSupport (rows ! i)) \<subseteq> hashes (ar_RowSupport row)"
      unfolding row'(2) [OF old] using s(2) by (rule le_supI2, simp)
    ultimately have "covers rows' (source # rows)"
      unfolding covers_def list.set(2) ball_simps(7) using new by (intro conjI ballI) (blast, metis order_refl)
    moreover have "\<forall>x\<in>set rows'. annotated E {} x"
      using row'(1) [OF old] assms(3) set_update_subset_insert [of rows i row] row(3) by auto
    ultimately show ?thesis using assms(4) row(2,3) by simp
  qed
  then show "\<forall>row\<in>set rows'. annotated E {} row" "\<forall>i\<in>ran (map_of index'). i < length rows'" "covers rows' (source # rows)"
    by auto
qed

lemma covers_trans: "covers xs ys \<Longrightarrow> covers ys zs \<Longrightarrow> covers xs zs"
  unfolding covers_def by (meson subset_trans)

lemma covers_append: "covers xs (ys @ zs) \<longleftrightarrow> covers xs ys \<and> covers xs zs" "covers xs (y # ys) \<longleftrightarrow> covers xs [y] \<and> covers xs ys"
  "covers xs xs"
  by (auto simp: covers_def)

lemma union_loop_ok:
  assumes "fold_result (union_step E V fs) entries (index, rows) = Inr (index', rows')"
    and "\<forall>(bun, source)\<in>set entries. annotated E {} source"
    and "\<forall>row\<in>set rows. annotated E {} row" "\<forall>i\<in>ran (map_of index). i < length rows"
  shows "(\<forall>row\<in>set rows'. annotated E {} row) \<and> covers rows' (rows @ map snd entries)"
  using assms
proof (induction entries arbitrary: index rows)
  case (Cons entry entries)
  obtain bun source where entry: "entry = (bun, source)" by (cases entry)
  obtain index1 rows1 where step: "union_step E V fs (bun, source) (index, rows) = Inr (index1, rows1)"
    "fold_result (union_step E V fs) entries (index1, rows1) = Inr (index', rows')"
    using Cons.prems(1) entry by (auto simp: and_then_Inr)
  have "annotated E {} source" using Cons.prems(2) entry by simp
  note one = union_step_ok [OF step(1) this Cons.prems(3,4)]
  have IH: "(\<forall>row\<in>set rows'. annotated E {} row) \<and> covers rows' (rows1 @ map snd entries)"
    using Cons.prems(2) by (intro Cons.IH [OF step(2)] one) simp
  then have "covers rows' (source # rows)" using covers_trans one(3) by (auto simp: covers_append(1))
  then have "covers rows' [source] \<and> covers rows' rows" using covers_append(2) by blast
  then show ?case using IH by (simp add: entry covers_append(1) covers_append(2) [of rows' source "map snd entries"])
qed (simp add: covers_append(3))

lemma UnionDistinctV2_covers:
  assumes "UnionDistinctV2 E V deep l r = Inr u" "well_annotated E l" "well_annotated E r"
  shows "well_annotated E u" "covers (rel_Rows u) (rel_Rows l)" "covers (rel_Rows u) (rel_Rows r)"
proof -
  obtain bun folded where folded: "(if relations_equal deep l r then relationTuplesDistinctV2 E V l else Inr False) = Inr folded"
    and rest: "(if folded then Inr l else
            let flds = sort_key fv_ID (map (union_field r) (rel_Fields l)) in
            and_then (fold_result (union_step E V flds)
                (map (Pair (rel_SnapshotBundle l)) (rel_Rows l) @ map (Pair (rel_SnapshotBundle r)) (rel_Rows r))
                ([], [])) (\<lambda>(_, rows).
              validated E V \<lparr>rel_Fields = flds, rel_Rows = rows, rel_SnapshotBundle = bun, rel_CanonicalOrder = False\<rparr>)) = Inr u"
    using assms(1) by (auto simp: UnionDistinctV2_def result_Inr)
  have "well_annotated E u \<and> covers (rel_Rows u) (rel_Rows l) \<and> covers (rel_Rows u) (rel_Rows r)"
  proof (cases folded)
    case True
    then have "u = l" "relations_equal deep l r" using rest folded by (auto split: if_splits)
    then show ?thesis using assms(2,3) relations_equal_covers covers_append(3) by blast
  next
    case False
    let ?fs = "sort_key fv_ID (map (union_field r) (rel_Fields l))"
    let ?entries = "map (Pair (rel_SnapshotBundle l)) (rel_Rows l) @ map (Pair (rel_SnapshotBundle r)) (rel_Rows r)"
    obtain index rows where loop: "fold_result (union_step E V ?fs) ?entries ([], []) = Inr (index, rows)" "rel_Rows u = rows"
      using rest False by (auto simp: Let_def and_then_Inr validated_Inr)
    have "(\<forall>row\<in>set rows. annotated E {} row) \<and> covers rows ([] @ map snd ?entries)"
      by (rule union_loop_ok [OF loop(1)]) (use assms(2,3) in auto)
    then show ?thesis using loop(2) by (simp add: covers_append(1) comp_def)
  qed
  then show "well_annotated E u" "covers (rel_Rows u) (rel_Rows l)" "covers (rel_Rows u) (rel_Rows r)" by auto
qed

text \<open>Aggregation: every row of a group supports the row of its group.\<close>

lemma matchingGroupRowsV2_filter:
  assumes "matchingGroupRowsV2 V input gs output = Inr members"
  shows "members = filter (\<lambda>row. row_matches V input gs output row = Inr True) (rel_Rows input)"
proof -
  obtain ms where ms: "list_all2 (\<lambda>row m. row_matches V input gs output row = Inr m) (rel_Rows input) ms"
    "members = map fst (filter snd (zip (rel_Rows input) ms))"
    using assms by (auto simp: matchingGroupRowsV2_def and_then_Inr collect_map_Inr)
  have "map fst (filter snd (zip rows ms)) = filter (\<lambda>row. row_matches V input gs output row = Inr True) rows"
    if "list_all2 (\<lambda>row m. row_matches V input gs output row = Inr m) rows ms" for rows
    using that by (induction rows ms rule: list_all2_induct) auto
  then show ?thesis using ms by simp
qed

lemma row_dependency_ok:
  "x \<in> set xs \<Longrightarrow> \<forall>x\<in>set xs. annotated E {} x \<Longrightarrow> set_ok E s \<Longrightarrow> add_row_dependency E x (s, w) = Inr (s', w') \<Longrightarrow>
     set_ok E s' \<and> hashes s' = hashes s \<union> hashes (ar_RowSupport x)"
  using add_row_dependency_ok annotated_support(1) by blast

lemma add_member_ok:
  assumes "add_member E gs member (s, w) = Inr (s', w')" "annotated E {} member" "set_ok E s"
  shows "set_ok E s' \<and> hashes s' = hashes s \<union>
    (hashes (ar_RowSupport member) \<union> (\<Union>f\<in>set gs. hashes (cv_Support (cell_at member f))))"
proof -
  obtain s1 w1 where one: "add_row_dependency E member (s, w) = Inr (s1, w1)"
    "fold_result (\<lambda>field. add_cell_dependency E (cell_at member field)) gs (s1, w1) = Inr (s', w')"
    using assms(1) by (auto simp: add_member_def and_then_Inr)
  note s1 = add_row_dependency_ok [OF one(1) assms(3) annotated_support(1) [OF assms(2)]]
  have "set_ok E s' \<and> hashes s' = hashes s1 \<union> (\<Union>f\<in>set gs. hashes (cv_Support (cell_at member f)))"
    using annotated_support(2) [OF assms(2)] by (intro cell_dependency_loop [OF one(2) s1(1)]) simp
  then show ?thesis using s1(2) by auto
qed

text \<open>A map of cells with proper supports.\<close>

definition cells_ok :: "exposure_env \<Rightarrow> (go_string, ('f, 't, 'o) CellV2) go_map \<Rightarrow> bool" where
  "cells_ok E cells \<longleftrightarrow> go_map_ok cells \<and> (\<forall>c\<in>ran (map_of cells). set_ok E (cv_Support c))"

lemma cells_ok_put: "cells_ok E cells \<Longrightarrow> set_ok E (cv_Support c) \<Longrightarrow> cells_ok E (map_put k c cells)"
  unfolding cells_ok_def by (auto simp: ran_def simp del: map_of_eq_Some_iff)

lemma cells_ok_annotated:
  "annotated E {} row \<longleftrightarrow> cells_ok E (ar_Cells row) \<and> set_ok E (ar_RowSupport row)"
proof -
  have "(\<forall>f. set_ok E (cv_Support (cell_at row f))) \<longleftrightarrow> (\<forall>c\<in>ran (map_of (ar_Cells row)). set_ok E (cv_Support c))"
    by (auto simp: cell_at_def ran_def set_ok_Nil split: option.splits)
  then show ?thesis by (auto simp: annotated_def cells_ok_def)
qed

lemma group_cells_ok:
  assumes "fold_result (group_cell E input members output) gs cells = Inr cells'" "\<forall>m\<in>set members. annotated E {} m"
    and "cells_ok E cells"
  shows "cells_ok E cells'"
proof (rule fold_result_invariant [where I = "cells_ok E", OF assms(1,3)])
  fix f cs cs'
  assume inv: "cells_ok E cs" and step: "group_cell E input members output f cs = Inr cs'"
  obtain s w c where c: "fold_result (\<lambda>member. add_cell_dependency E (cell_at member f)) members ([], []) = Inr (s, w)"
    "cs' = map_put f c cs" "cv_Support c = s"
    using step by (auto simp: group_cell_def and_then_Inr)
  have "set_ok E s" using cell_dependency_loop [OF c(1) set_ok_Nil] annotated_support(2) assms(2) by blast
  then show "cells_ok E cs'" using cells_ok_put [OF inv] c(2,3) by simp
qed

lemma aggregate_cells_ok:
  assumes "fold_result (aggregate_cell E input members output) specs cells = Inr cells'" "\<forall>m\<in>set members. annotated E {} m"
    and "cells_ok E cells"
  shows "cells_ok E cells'"
proof (rule fold_result_invariant [where I = "cells_ok E", OF assms(1,3)])
  fix spec cs cs'
  assume inv: "cells_ok E cs" and step: "aggregate_cell E input members output spec cs = Inr cs'"
  obtain s w c where c: "fold_result (\<lambda>member. if as_Field spec = ''*'' then add_row_dependency E member
        else add_cell_dependency E (cell_at member (as_Field spec))) members ([], []) = Inr (s, w)"
    "cs' = map_put (as_OutputID spec) c cs" "cv_Support c = s"
    using step by (auto simp: aggregate_cell_def and_then_Inr split: option.splits)
  have "set_ok E s"
  proof (cases "as_Field spec = ''*''")
    case True
    with c(1) have "fold_result (add_row_dependency E) members ([], []) = Inr (s, w)" by simp
    then have "set_ok E s \<and> hashes s = hashes ([] :: FactSet) \<union> (\<Union>m\<in>set members. hashes (ar_RowSupport m))"
      by (rule dependency_loop [OF _ set_ok_Nil]) (rule row_dependency_ok [OF _ assms(2)])
    then show ?thesis ..
  next
    case False
    with c(1) have loop: "fold_result (\<lambda>member. add_cell_dependency E (cell_at member (as_Field spec))) members ([], []) = Inr (s, w)"
      by simp
    then show ?thesis using cell_dependency_loop [OF loop set_ok_Nil] annotated_support(2) assms(2) by blast
  qed
  then show "cells_ok E cs'" using cells_ok_put [OF inv] c(2,3) by simp
qed

lemma aggregate_row_ok:
  assumes "aggregate_row E V input gs specs output = Inr row" "well_annotated E input"
  shows "annotated E {} row"
    "m \<in> set (rel_Rows input) \<Longrightarrow> row_matches V input gs output m = Inr True \<Longrightarrow> hashes (ar_RowSupport m) \<subseteq> hashes (ar_RowSupport row)"
proof -
  obtain members s w cells cells' where parts: "matchingGroupRowsV2 V input gs output = Inr members"
    "fold_result (add_member E gs) members ([], []) = Inr (s, w)"
    "fold_result (group_cell E input members output) gs [] = Inr cells"
    "fold_result (aggregate_cell E input members output) specs cells = Inr cells'"
    "ar_Cells row = cells'" "ar_RowSupport row = s"
    using assms(1) by (auto simp: aggregate_row_def result_Inr)
  have members: "\<forall>m\<in>set members. annotated E {} m"
    using matchingGroupRowsV2_filter [OF parts(1)] assms(2) by simp
  have "cells_ok E []" by (simp add: cells_ok_def)
  then have "cells_ok E cells'" using group_cells_ok [OF parts(3) members] aggregate_cells_ok [OF parts(4) members] by blast
  moreover have s: "set_ok E s \<and> hashes s = hashes ([] :: FactSet) \<union> (\<Union>m\<in>set members.
      hashes (ar_RowSupport m) \<union> (\<Union>f\<in>set gs. hashes (cv_Support (cell_at m f))))"
    by (rule dependency_loop [OF parts(2) set_ok_Nil]) (rule add_member_ok, assumption, rule bspec [OF members])
  ultimately show "annotated E {} row" using parts(5,6) by (simp add: cells_ok_annotated)
  show "hashes (ar_RowSupport m) \<subseteq> hashes (ar_RowSupport row)"
    if "m \<in> set (rel_Rows input)" "row_matches V input gs output m = Inr True"
    using s that matchingGroupRowsV2_filter [OF parts(1)] parts(6) by auto
qed

lemma AggregateFromResultsV2_covers:
  assumes "AggregateFromResultsV2 E V input gs specs outputs = Inr r" "well_annotated E input"
  shows "well_annotated E r"
    "list_all (\<lambda>row. list_ex (\<lambda>output. row_matches V input gs output row = Inr True) outputs) (rel_Rows input) \<Longrightarrow>
       covers (rel_Rows r) (rel_Rows input)"
proof -
  obtain rows where rows: "collect (map (aggregate_row E V input gs specs) outputs) = Inr rows" "rel_Rows r = rows"
    using assms(1) by (auto simp: AggregateFromResultsV2_def result_Inr validated_Inr)
  show "well_annotated E r"
    using collect_result_member [OF rows(1)] aggregate_row_ok(1) [OF _ assms(2)] rows(2) by blast
  show "covers (rel_Rows r) (rel_Rows input)"
    if complete: "list_all (\<lambda>row. list_ex (\<lambda>output. row_matches V input gs output row = Inr True) outputs) (rel_Rows input)"
    unfolding covers_def
  proof
    fix m
    assume m: "m \<in> set (rel_Rows input)"
    then obtain out where out: "out \<in> set outputs" "row_matches V input gs out m = Inr True"
      using complete by (auto simp: list_all_iff list_ex_iff)
    then obtain row where "row \<in> set rows" "aggregate_row E V input gs specs out = Inr row"
      using collect_member [OF rows(1)] by blast
    then show "\<exists>b\<in>set (rel_Rows r). hashes (ar_RowSupport m) \<subseteq> hashes (ar_RowSupport b)"
      using aggregate_row_ok(2) [OF _ assms(2) m out(2)] rows(2) by blast
  qed
qed

subsection \<open>Queries on the restricted database\<close>

lemma eval_query_annotated:
  assumes "eval_query E V deep db q = Inr r" "kinds_separate E V db"
  shows "well_annotated E r"
  using assms(1)
proof (induction q arbitrary: r)
  case (Core q)
  then have "\<forall>row\<in>set (rel_Rows r). annotated E (row_hashes E db) row"
    using eval_core_restrict [OF _ assms(2) refl] by simp
  then show ?case using annotated_unmarked by blast
next
  case (Filtered q fs)
  then obtain r0 where r0: "eval_query E V deep db q = Inr r0" "SelectV2 E V r0 fs (Some (\<lambda>_. SQLTrue)) = Inr r"
    by (auto simp: and_then_Inr)
  show ?case by (rule SelectV2_keep(2) [OF r0(2) Filtered.IH [OF r0(1)]])
next
  case (Projected q fs)
  then obtain r0 where r0: "eval_query E V deep db q = Inr r0" "ProjectV2 E V r0 fs = Inr r"
    by (auto simp: and_then_Inr)
  show ?case by (rule ProjectV2_keep(2) [OF r0(2) Projected.IH [OF r0(1)]])
next
  case (UnionDistinct q q')
  then obtain a b where ab: "eval_query E V deep db q = Inr a" "eval_query E V deep db q' = Inr b" "UnionDistinctV2 E V deep a b = Inr r"
    by (auto simp: and_then_Inr)
  show ?case by (rule UnionDistinctV2_covers(1) [OF ab(3) UnionDistinct.IH(1) [OF ab(1)] UnionDistinct.IH(2) [OF ab(2)]])
next
  case (Aggregate q gs specs outputs)
  then obtain r0 where r0: "eval_query E V deep db q = Inr r0" "AggregateFromResultsV2 E V r0 gs specs outputs = Inr r"
    by (auto simp: and_then_Inr)
  show ?case by (rule AggregateFromResultsV2_covers(1) [OF r0(2) Aggregate.IH [OF r0(1)]])
qed

lemma eval_query_restrict:
  assumes "eval_query E V deep db q = Inr r" "kinds_separate E V db" "groups_complete E V deep db q"
    and "\<forall>row\<in>set (rel_Rows r). inside (row_hashes E db) S row"
  shows "eval_query E V deep (restrict_db E S db) q = Inr r"
  using assms(1,3,4)
proof (induction q arbitrary: r)
  case (Core q)
  then have "eval_core E V (restrict_db E S db) q = Inr (keep_rows (inside (row_hashes E db) S) r)"
    using eval_core_restrict [OF _ assms(2) refl] by simp
  moreover have "keep_rows (inside (row_hashes E db) S) r = r" using Core.prems(3) by simp
  ultimately show ?case by simp
next
  case (Filtered q fs)
  then obtain r0 where r0: "eval_query E V deep db q = Inr r0" "SelectV2 E V r0 fs (Some (\<lambda>_. SQLTrue)) = Inr r"
    by (auto simp: and_then_Inr)
  have "\<forall>row\<in>set (rel_Rows r0). inside (row_hashes E db) S row"
    by (rule covers_inside [OF SelectV2_covers [OF r0(2) eval_query_annotated [OF r0(1) assms(2)]] Filtered.prems(3)])
  then show ?case using Filtered.IH [OF r0(1)] Filtered.prems(2) r0(2) by simp
next
  case (Projected q fs)
  then obtain r0 where r0: "eval_query E V deep db q = Inr r0" "ProjectV2 E V r0 fs = Inr r"
    by (auto simp: and_then_Inr)
  have "\<forall>row\<in>set (rel_Rows r0). inside (row_hashes E db) S row"
    by (rule covers_inside [OF ProjectV2_covers [OF r0(2)] Projected.prems(3)])
  then show ?case using Projected.IH [OF r0(1)] Projected.prems(2) r0(2) by simp
next
  case (UnionDistinct q q')
  then obtain a b where ab: "eval_query E V deep db q = Inr a" "eval_query E V deep db q' = Inr b" "UnionDistinctV2 E V deep a b = Inr r"
    by (auto simp: and_then_Inr)
  note u = UnionDistinctV2_covers [OF ab(3) eval_query_annotated [OF ab(1) assms(2)] eval_query_annotated [OF ab(2) assms(2)]]
  have "eval_query E V deep (restrict_db E S db) q = Inr a"
    using UnionDistinct.IH(1) [OF ab(1)] UnionDistinct.prems(2) covers_inside [OF u(2) UnionDistinct.prems(3)] by simp
  moreover have "eval_query E V deep (restrict_db E S db) q' = Inr b"
    using UnionDistinct.IH(2) [OF ab(2)] UnionDistinct.prems(2) covers_inside [OF u(3) UnionDistinct.prems(3)] by simp
  ultimately show ?case using ab(3) by simp
next
  case (Aggregate q gs specs outputs)
  then obtain r0 where r0: "eval_query E V deep db q = Inr r0" "AggregateFromResultsV2 E V r0 gs specs outputs = Inr r"
    by (auto simp: and_then_Inr)
  have complete: "list_all (\<lambda>row. list_ex (\<lambda>out. row_matches V r0 gs out row = Inr True) outputs) (rel_Rows r0)"
    using Aggregate.prems(2) r0(1) by simp
  have "\<forall>row\<in>set (rel_Rows r0). inside (row_hashes E db) S row"
    by (rule covers_inside [OF AggregateFromResultsV2_covers(2) [OF r0(2) eval_query_annotated [OF r0(1) assms(2)] complete]
          Aggregate.prems(3)])
  then show ?case using Aggregate.IH [OF r0(1)] Aggregate.prems(2) r0(2) by simp
qed

subsection \<open>What an observation charges\<close>

definition visible_fields :: "('f, 't, 'o) RelationV2 \<Rightarrow> go_string list \<Rightarrow> go_string list" where
  "visible_fields r visible = (if visible = [] then map fv_ID (rel_Fields r) else visible)"

definition row_influence :: "go_string list \<Rightarrow> ('f, 't, 'o) AnnotatedRowV2 \<Rightarrow> go_string set" where
  "row_influence visible row = hashes (ar_RowSupport row) \<union> (\<Union>f\<in>set visible. hashes (cv_Support (cell_at row f)))"

definition row_release ::
  "exposure_env \<Rightarrow> ('f, 't, 'o) value_env \<Rightarrow> SnapshotBinding list \<Rightarrow> go_string list \<Rightarrow> ('f, 't, 'o) AnnotatedRowV2 \<Rightarrow> FactID set" where
  "row_release E V bun visible row =
     {f | f field. field \<in> set visible \<and> materializeCellReleaseV2 E V bun (ar_Key row) (cell_at row field) = Inr f}"

lemma subset_chain: "A \<subseteq> B \<union> C \<Longrightarrow> B \<subseteq> D \<union> F \<Longrightarrow> A \<subseteq> D \<union> (F \<union> C)"
  by blast

lemma observe_cells_ok:
  assumes "fold_result (observe_cell E V bun row) fs (a, i) = Inr (a', i')" "annotated E {} row" "set_ok E a" "set_ok E i"
  shows "set_ok E a' \<and> set_ok E i' \<and> hashes i' = hashes i \<union> (\<Union>f\<in>set fs. hashes (cv_Support (cell_at row f))) \<and>
    hashes a' = hashes a \<union> hash_of E ` row_release E V bun fs row \<and> snd ` set a' \<subseteq> snd ` set a \<union> row_release E V bun fs row"
  using assms
proof (induction fs arbitrary: a i)
  case (Cons field fs)
  obtain i1 f a1 where step: "merge_support E i (cv_Support (cell_at row field)) = Inr i1"
    "materializeCellReleaseV2 E V bun (ar_Key row) (cell_at row field) = Inr f" "FactSet_Add E a f = Inr a1"
    "fold_result (observe_cell E V bun row) fs (a1, i1) = Inr (a', i')"
    using Cons.prems(1) by (auto simp: observe_cell_def [of E V bun row field] and_then_Inr)
  note i1 = merge_support_ok [OF step(1) Cons.prems(4) annotated_support(2) [OF Cons.prems(2)]]
  note a1 = FactSet_Add_ok(1,2,4) [OF Cons.prems(3) step(3)]
  have "row_release E V bun (field # fs) row = insert f (row_release E V bun fs row)"
    using step(2) by (auto simp: row_release_def)
  then show ?case using Cons.IH [OF step(4) Cons.prems(2) a1(1) i1(1)] i1(2) a1(2) subset_chain [of "snd ` set a'" "snd ` set a1" _ "snd ` set a" "{f}"] a1(3) by auto
qed (simp add: row_release_def)

lemma observe_rows_ok:
  assumes "fold_result (observe_row E V bun fs) rows (a, i) = Inr (a', i')" "\<forall>row\<in>set rows. annotated E {} row"
    "set_ok E a" "set_ok E i"
  shows "set_ok E a' \<and> set_ok E i' \<and> hashes i' = hashes i \<union> (\<Union>row\<in>set rows. row_influence fs row) \<and>
    hashes a' = hashes a \<union> hash_of E ` (\<Union>row\<in>set rows. row_release E V bun fs row) \<and>
    snd ` set a' \<subseteq> snd ` set a \<union> (\<Union>row\<in>set rows. row_release E V bun fs row)"
  using assms
proof (induction rows arbitrary: a i)
  case (Cons row rows)
  obtain i1 a2 i2 where step: "merge_support E i (ar_RowSupport row) = Inr i1"
    "fold_result (observe_cell E V bun row) fs (a, i1) = Inr (a2, i2)"
    "fold_result (observe_row E V bun fs) rows (a2, i2) = Inr (a', i')"
    using Cons.prems(1) by (auto simp: observe_row_def [of E V bun fs row] and_then_Inr)
  have row: "annotated E {} row" "\<forall>row\<in>set rows. annotated E {} row" using Cons.prems(2) by auto
  note i1 = merge_support_ok [OF step(1) Cons.prems(4) annotated_support(1) [OF row(1)]]
  note cells = observe_cells_ok [OF step(2) row(1) Cons.prems(3) i1(1)]
  note rest = Cons.IH [OF step(3) row(2)]
  show ?case
  proof (intro conjI)
    show "hashes i' = hashes i \<union> (\<Union>row\<in>set (row # rows). row_influence fs row)"
      using rest cells i1(2) by (auto simp: row_influence_def)
    show "hashes a' = hashes a \<union> hash_of E ` (\<Union>row\<in>set (row # rows). row_release E V bun fs row)"
      using rest cells by (simp add: image_Un Un_assoc)
    show "snd ` set a' \<subseteq> snd ` set a \<union> (\<Union>row\<in>set (row # rows). row_release E V bun fs row)"
      using rest cells subset_chain [of "snd ` set a'" "snd ` set a2" _ "snd ` set a"] by simp
  qed (use rest cells in simp_all)
qed simp

lemma ObserveV2_hashes:
  assumes "ObserveV2 E V r visible = Inr ob" "well_annotated E r"
  shows "fact_hashes E (ob_Influence ob) = (\<Union>row\<in>set (rel_Rows r). row_influence (visible_fields r visible) row)"
    "fact_hashes E (ob_Release ob) =
       hash_of E ` (\<Union>row\<in>set (rel_Rows r). row_release E V (rel_SnapshotBundle r) (visible_fields r visible) row)"
    "set (ob_Release ob) \<subseteq> (\<Union>row\<in>set (rel_Rows r). row_release E V (rel_SnapshotBundle r) (visible_fields r visible) row)"
proof -
  obtain a i where parts:
    "fold_result (observe_row E V (rel_SnapshotBundle r) (visible_fields r visible)) (rel_Rows r) ([], []) = Inr (a, i)"
    "Normalize E \<lparr>ob_ProfileVersion = ProfileV2, ob_Release = FactSet_Values a, ob_Influence = FactSet_Values i, ob_Outcome = []\<rparr> = Inr ob"
    using assms(1) by (auto simp: ObserveV2_def visible_fields_def Let_def result_Inr)
  note ok = observe_rows_ok [OF parts(1) assms(2) set_ok_Nil set_ok_Nil]
  have vals: "fact_hashes E (FactSet_Values s) = hashes s" if "set_ok E s" for s
    using FactSet_Values_ok(2) [OF that] set_ok_keys [OF that] by (simp add: fact_hashes_def)
  obtain b j u where norm: "NewFactSet E (FactSet_Values a) = Inr b" "NewFactSet E (FactSet_Values i) = Inr j"
    "ob_Release ob = FactSet_Values b" "ob_Influence ob = FactSet_Values j"
    by (rule Normalize_Inr [OF parts(2)]) simp
  show "fact_hashes E (ob_Influence ob) = (\<Union>row\<in>set (rel_Rows r). row_influence (visible_fields r visible) row)"
    using Normalize_dimension(2) [OF norm(2)] norm(4) vals ok by simp
  show "fact_hashes E (ob_Release ob) =
       hash_of E ` (\<Union>row\<in>set (rel_Rows r). row_release E V (rel_SnapshotBundle r) (visible_fields r visible) row)"
    using Normalize_dimension(2) [OF norm(1)] norm(3) vals ok by simp
  have "set (ob_Release ob) \<subseteq> snd ` set a"
    using Normalize_dimension(3) [OF norm(1)] norm(3) FactSet_Values_ok(2) ok by metis
  then show "set (ob_Release ob) \<subseteq> (\<Union>row\<in>set (rel_Rows r). row_release E V (rel_SnapshotBundle r) (visible_fields r visible) row)"
    using ok by auto
qed

subsection \<open>Fields and cells of a valid relation\<close>

lemma require_loop_None: "require_loop avail seen fs = None \<longleftrightarrow> distinct fs \<and> set fs \<inter> set seen = {} \<and> set fs \<subseteq> set avail"
  by (induction avail seen fs rule: require_loop.induct) auto

lemma fieldTypeMapV2_keys: "fst ` set (fieldTypeMapV2 r) = fv_ID ` set (rel_Fields r)"
proof -
  have "fst ` set (foldl (\<lambda>m f. map_put (fv_ID f) (g f) m) acc fs) = fst ` set acc \<union> fv_ID ` set fs"
    for acc :: "(go_string, go_string) go_map" and fs :: "FieldV2 list" and g
    by (induction fs arbitrary: acc) auto
  then show ?thesis by (simp add: fieldTypeMapV2_def)
qed

lemma requireFieldsV2_None: "requireFieldsV2 r fs = None \<longleftrightarrow> distinct fs \<and> set fs \<subseteq> fv_ID ` set (rel_Fields r)"
  by (simp add: requireFieldsV2_def require_loop_None fieldTypeMapV2_keys)

definition field_valid :: "FieldV2 \<Rightarrow> bool" where
  "field_valid f \<longleftrightarrow> \<not> (invalidToken (fv_ID f) \<or> invalidToken (fv_Expression f) \<or>
     CanonicalSQLTypeV2 (fv_SQLType f) \<noteq> Inr (fv_SQLType f) \<or> validateFieldCollationV2 (fv_SQLType f) f \<noteq> None)"

lemma validate_fields_iff:
  "validate_fields seen fs = None \<longleftrightarrow> (\<forall>f\<in>set fs. field_valid f \<and> fv_ID f \<notin> set seen) \<and> distinct (map fv_ID fs)"
proof (induction fs arbitrary: seen)
  case (Cons f fs)
  have "validate_fields seen (f # fs) = None \<longleftrightarrow> field_valid f \<and> fv_ID f \<notin> set seen \<and> validate_fields (fv_ID f # seen) fs = None"
    by (auto simp: field_valid_def)
  then show ?case unfolding Cons.IH by (auto simp: image_iff)
qed simp

lemma fieldDefinitionV2_known:
  assumes "f \<in> fv_ID ` set (rel_Fields r)"
  shows "fieldDefinitionV2 r f \<in> set (rel_Fields r)" "fv_ID (fieldDefinitionV2 r f) = f"
proof -
  obtain fd where fd: "find (\<lambda>fd. fv_ID fd = f) (rel_Fields r) = Some fd"
    using assms by (cases "find (\<lambda>fd. fv_ID fd = f) (rel_Fields r)") (auto simp: find_None_iff)
  then have "fieldDefinitionV2 r f = fd" by (simp add: fieldDefinitionV2_def)
  moreover have "fd \<in> set (rel_Fields r)" "fv_ID fd = f" using fd by (auto simp: find_Some_iff)
  ultimately show "fieldDefinitionV2 r f \<in> set (rel_Fields r)" "fv_ID (fieldDefinitionV2 r f) = f" by simp_all
qed

lemma row_valid_cell: "row_valid E V fs bun row \<Longrightarrow> f \<in> set fs \<Longrightarrow> validate_cell E V bun row f = None"
  by (auto simp: row_valid_def validate_row_def no_error split: option.splits if_splits)

text \<open>A base cell that a valid row releases is in the support of the cell.\<close>

lemma release_supported:
  assumes "validate_cell E V bun row fd = None" "materializeCellReleaseV2 E V bun key (cell_at row (fv_ID fd)) = Inr f"
    and "fid_Kind f = FactBaseCell"
  shows "hash_of E f \<in> hashes (cv_Support (cell_at row (fv_ID fd)))"
proof -
  obtain cell where cell: "map_of (ar_Cells row) (fv_ID fd) = Some cell" and v: "\<exists>w. validate_release E bun cell w = None"
    using assms(1) by (auto simp: validate_cell_def split: option.splits if_splits sum.splits)
  then have at: "cell_at row (fv_ID fd) = cell" by (simp add: cell_at_def)
  show ?thesis
  proof (cases "cv_ReleaseFact cell")
    case None
    then have "fid_Kind f = FactDerived"
      using assms(2) at by (auto simp: materializeCellReleaseV2_def NewDerivedFactV2_def Let_def result_Inr)
    with assms(3) show ?thesis by simp
  next
    case (Some g)
    then have "g = f" using assms(2) at by (simp add: materializeCellReleaseV2_def)
    then have "validateReleaseProvenanceV2 E cell f = None" "FactID_Validate E f = None"
      using v Some by (auto simp: validate_release_def split: if_splits)
    then obtain g where "map_of (cv_Support cell) (hash_of E f) = Some g"
      using assms(3) Hash_Inr_iff [of E f "hash_of E f"] by (auto simp: validateReleaseProvenanceV2_def split: option.splits)
    then show ?thesis unfolding at by (force dest: map_of_SomeD)
  qed
qed

text \<open>The rows of a projection are valid for the projected fields.\<close>

lemma length_put_names: "distinct ks \<Longrightarrow> set ks \<inter> fst ` set acc = {} \<Longrightarrow> length (foldl (\<lambda>m k. map_put k (g k) m) acc ks) = length acc + length ks"
proof (induction ks arbitrary: acc)
  case (Cons k ks)
  then have "length (map_put k (g k) acc) = Suc (length acc)" by (simp add: map_put_new)
  then show ?case using Cons.IH [of "map_put k (g k) acc"] Cons.prems by auto
qed simp

lemma project_row_valid:
  assumes "row_valid E V (rel_Fields r) bun row" "distinct fs" "set fs \<subseteq> fv_ID ` set (rel_Fields r)"
  shows "row_valid E V (map (fieldDefinitionV2 r) fs) bun (project_row fs row)"
proof -
  have cell: "validate_cell E V bun (project_row fs row) (fieldDefinitionV2 r f) = None" if "f \<in> set fs" for f
  proof -
    note fd = fieldDefinitionV2_known [of f r]
    have known: "f \<in> fv_ID ` set (rel_Fields r)" using that assms(3) by blast
    have old: "validate_cell E V bun row (fieldDefinitionV2 r f) = None" by (rule row_valid_cell [OF assms(1) fd(1) [OF known]])
    then have "map_of (ar_Cells row) f = Some (cell_at row f)"
      using fd(2) [OF known] by (auto simp: validate_cell_def cell_at_def split: option.splits)
    moreover have "map_of (ar_Cells (project_row fs row)) f = Some (cell_at row f)"
      using that by (simp add: project_row_def map_of_put_names)
    ultimately show ?thesis using old fd(2) [OF known] by (simp add: validate_cell_def)
  qed
  have "length (ar_Cells (project_row fs row)) = length fs"
    using length_put_names [OF assms(2), of "[]"] by (simp add: project_row_def)
  then show ?thesis
    using assms(1) cell by (auto simp: row_valid_def validate_row_def project_row_def no_error split: option.splits if_splits)
qed

lemma ProjectV2_valid:
  assumes "ValidateRelationV2 E V r = None" "fs \<noteq> []" "requireFieldsV2 r fs = None"
  shows "ValidateRelationV2 E V (r\<lparr>rel_Fields := map (fieldDefinitionV2 r) fs, rel_Rows := map (project_row fs) (rel_Rows r)\<rparr>) = None"
proof -
  have fs: "distinct fs" "set fs \<subseteq> fv_ID ` set (rel_Fields r)" using assms(3) by (simp_all add: requireFieldsV2_None)
  have "map fv_ID (map (fieldDefinitionV2 r) fs) = fs"
    unfolding map_map comp_def by (rule map_idI, rule fieldDefinitionV2_known(2)) (use fs(2) in blast)
  moreover have "\<forall>f\<in>set fs. field_valid (fieldDefinitionV2 r f)"
    using assms(1) fs(2) fieldDefinitionV2_known(1) by (auto simp: ValidateRelationV2_iff validate_fields_iff)
  ultimately have "validate_fields [] (map (fieldDefinitionV2 r) fs) = None" using fs(1) by (simp add: validate_fields_iff)
  moreover have "ar_Key \<circ> project_row fs = (ar_Key :: ('a, 'b, 'c) AnnotatedRowV2 \<Rightarrow> _)"
    by (simp add: project_row_def fun_eq_iff)
  moreover have "row_valid E V (map (fieldDefinitionV2 r) fs) (rel_SnapshotBundle r) (project_row fs row)" if "row \<in> set (rel_Rows r)" for row
    using assms(1) that by (intro project_row_valid [OF _ fs]) (simp add: ValidateRelationV2_iff)
  ultimately show ?thesis using assms(1,2) by (simp add: ValidateRelationV2_iff)
qed

lemma ValidateRelationV2_slice:
  assumes "ValidateRelationV2 E V r = None"
  shows "ValidateRelationV2 E V (r\<lparr>rel_Rows := take n (drop m (rel_Rows r))\<rparr>) = None"
proof -
  have "set (take n (drop m (rel_Rows r))) \<subseteq> set (rel_Rows r)" by (meson order_trans set_drop_subset set_take_subset)
  then show ?thesis using assms by (auto simp: ValidateRelationV2_iff take_map [symmetric] drop_map [symmetric])
qed

lemma page_bounds_cases:
  assumes "0 \<le> offset" "0 \<le> limit" "limit < 2 ^ 63" "int n < 2 ^ 63"
  shows "page_bounds n offset limit =
    (if limit > 0 \<and> min offset (int n) + limit \<ge> 2 ^ 63 then (min offset (int n), min offset (int n) + limit - 2 ^ 64)
     else (min offset (int n), if limit = 0 then int n else min (min offset (int n) + limit) (int n)))"
proof -
  let ?s = "min offset (int n)"
  have s: "(if offset < int n then offset else int n) = ?s" "0 \<le> ?s" "?s < 2 ^ 63" using assms by auto
  have wrap: "i64 x = (if x \<ge> 2 ^ 63 then x - 2 ^ 64 else x)" if "0 \<le> x" "x < 2 ^ 64" for x
  proof (cases "x \<ge> 2 ^ 63")
    case True
    then have "(x + 2 ^ 63) mod 2 ^ 64 = x + 2 ^ 63 - 2 ^ 64"
      using that minus_mod_self2 [of "x + 2 ^ 63" "2 ^ 64"] by simp
    then show ?thesis using True by (simp add: i64_def)
  qed (use that in \<open>simp add: i64_def\<close>)
  show ?thesis unfolding page_bounds_def Let_def s(1) using wrap [of "?s + limit"] s(2,3) assms by auto
qed

section \<open>A sample query\<close>

text \<open>Sets of facts whose hashes differ.\<close>

definition plain_support :: "exposure_env \<Rightarrow> FactID list \<Rightarrow> FactSet" where
  "plain_support E fs = map (\<lambda>f. (hash_of E f, f)) fs"

definition plain_witness :: "exposure_env \<Rightarrow> FactID list \<Rightarrow> WitnessMultiset" where
  "plain_witness E fs = map (\<lambda>f. (hash_of E f, \<lparr>wi_Fact = f, wi_Multiplicity = 1\<rparr>)) fs"

definition distinct_facts :: "exposure_env \<Rightarrow> FactID list \<Rightarrow> bool" where
  "distinct_facts E fs \<longleftrightarrow> distinct (map (hash_of E) fs) \<and> list_all (\<lambda>f. FactID_Validate E f = None \<and> isBaseFactV2 f) fs"

lemma plain_fst: "map fst (plain_support E fs) = map (hash_of E) fs" "map fst (plain_witness E fs) = map (hash_of E) fs"
  by (simp_all add: plain_support_def plain_witness_def)

lemma plain_support_ok: "distinct_facts E fs \<Longrightarrow> set_ok E (plain_support E fs)"
  unfolding set_ok_def plain_fst by (auto simp: distinct_facts_def list_all_iff plain_support_def)

lemma plain_merge_new:
  "distinct_facts E (fs @ gs) \<Longrightarrow> merge_support E (plain_support E fs) (plain_support E gs) = Inr (plain_support E (fs @ gs))"
proof -
  have "add_facts E (plain_support E fs) gs = (plain_support E (fs @ gs), None)" if "distinct_facts E (fs @ gs)" for fs
    using that
  proof (induction gs arbitrary: fs)
    case (Cons g gs)
    have ok: "set_ok E (plain_support E fs)" using Cons.prems by (intro plain_support_ok) (simp add: distinct_facts_def)
    have "hash_of E g \<notin> set (map fst (plain_support E fs))" "FactID_Validate E g = None"
      using Cons.prems by (auto simp: distinct_facts_def plain_fst)
    then have "FactSet_Add E (plain_support E fs) g = Inr (plain_support E (fs @ [g]))"
      by (simp add: FactSet_Add_cases [OF ok] map_of_eq_None_iff [symmetric]) (simp add: plain_support_def)
    then show ?case using Cons.IH [of "fs @ [g]"] Cons.prems by simp
  qed simp
  moreover have "map snd (plain_support E gs) = gs" by (simp add: plain_support_def comp_def)
  ultimately show "distinct_facts E (fs @ gs) \<Longrightarrow> ?thesis" by (simp add: merge_support_def FactSet_MergeChecked_def)
qed

lemma plain_merge_old:
  assumes "distinct_facts E fs" "set gs \<subseteq> set fs"
  shows "merge_support E (plain_support E fs) (plain_support E gs) = Inr (plain_support E fs)"
proof -
  have ok: "set_ok E (plain_support E fs)" by (rule plain_support_ok [OF assms(1)])
  have "FactSet_Add E (plain_support E fs) g = Inr (plain_support E fs)" if "g \<in> set fs" for g
  proof -
    have "map_of (plain_support E fs) (hash_of E g) = Some g"
      using that assms(1) by (intro map_of_is_SomeI) (auto simp: plain_fst distinct_facts_def, simp add: plain_support_def)
    moreover have "FactID_Validate E g = None" using assms(1) that by (simp add: distinct_facts_def list_all_iff)
    ultimately show ?thesis by (simp add: FactSet_Add_cases [OF ok])
  qed
  then have "add_facts E (plain_support E fs) gs = (plain_support E fs, None)"
    using assms(2) by (induction gs) auto
  moreover have "map snd (plain_support E gs) = gs" by (simp add: plain_support_def comp_def)
  ultimately show ?thesis by (simp add: merge_support_def FactSet_MergeChecked_def)
qed

lemma plain_witness_merge:
  "distinct_facts E (fs @ gs) \<Longrightarrow> Witness_Merge E (plain_witness E fs) (plain_witness E gs) = Inr (plain_witness E (fs @ gs))"
proof (induction gs arbitrary: fs)
  case (Cons g gs)
  have new: "hash_of E g \<notin> fst ` set (plain_witness E fs)" "FactID_Hash E g = Inr (hash_of E g)" "isBaseFactV2 g"
    using Cons.prems by (auto simp: distinct_facts_def Hash_Inr_iff plain_fst image_set simp del: set_map)
  have "Witness_Add E g 1 (plain_witness E fs) = Inr (plain_witness E fs @ [(hash_of E g, \<lparr>wi_Fact = g, wi_Multiplicity = 1\<rparr>)])"
    using new map_put_new [OF new(1)] map_of_eq_None_iff [of "plain_witness E fs" "hash_of E g"] by (simp add: Witness_Add_def)
  then have "Witness_Add E g 1 (plain_witness E fs) = Inr (plain_witness E (fs @ [g]))" by (simp add: plain_witness_def)
  then show ?case using Cons.IH [of "fs @ [g]"] Cons.prems by (simp add: Witness_Merge_def plain_witness_def)
qed (simp add: Witness_Merge_def plain_witness_def)

lemma plain_validates:
  assumes "distinct_facts E fs" "list_all (\<lambda>f. factCoveredByBundleV2 f bun) fs"
  shows "validateSupportWitnessV2 E (plain_support E fs) (plain_witness E fs) bun = None"
proof -
  have valid: "FactID_Hash E f = Inr (hash_of E f)" "isBaseFactV2 f" "factCoveredByBundleV2 f bun" "sameFactV2 E f f"
    "map_of (plain_support E fs) (hash_of E f) = Some f" if "f \<in> set fs" for f
  proof -
    show v: "FactID_Hash E f = Inr (hash_of E f)" "isBaseFactV2 f" "factCoveredByBundleV2 f bun"
      using that assms by (auto simp: distinct_facts_def list_all_iff Hash_Inr_iff)
    show "sameFactV2 E f f" using v(1) by (auto simp: sameFactV2_def FactID_Hash_def split: sum.splits)
    show "map_of (plain_support E fs) (hash_of E f) = Some f"
      using that assms(1) by (intro map_of_is_SomeI) (auto simp: plain_fst distinct_facts_def, simp add: plain_support_def)
  qed
  have "list_all (support_entry_ok E bun) (plain_support E fs)"
    using valid by (simp add: plain_support_def list_all_iff support_entry_ok_def)
  moreover have "first_error (witness_entry_error E bun (plain_support E fs)) (plain_witness E fs) = None"
    using valid by (auto simp: plain_witness_def witness_entry_error_def no_error)
  ultimately show ?thesis by (simp add: validateSupportWitnessV2_def) (simp add: plain_support_def plain_witness_def)
qed


text \<open>Two orders, a query for those with the amount five, and its value.\<close>

definition sample_spec :: "(unit, unit, unit) BaseRelationSpecV2" where
  "sample_spec = \<lparr>bs_SourceNamespace = ''sales.orders'', bs_Snapshot = ''snap-1'', bs_StableRole = ''base'',
     bs_Fields = [zero_field\<lparr>fv_ID := ''amount'', fv_SQLType := ''bigint''\<rparr>],
     bs_Rows = [\<lparr>br_EntityKey = ''17'', br_Values = [(''amount'', AnyInt 5)]\<rparr>,
       \<lparr>br_EntityKey = ''18'', br_Values = [(''amount'', AnyInt 6)]\<rparr>]\<rparr>"

definition sample_query :: "(unit, unit, unit) query" where
  "sample_query = Core (Select (Scan 0) [''amount'']
       (\<lambda>row. case SQLValueEqualV2 sample_values ''bigint'' (cv_Value (cell_at row ''amount'')) (AnyInt 5) of
          Inr t \<Rightarrow> t | Inl _ \<Rightarrow> SQLUnknown))"

definition sample_cell :: "go_string \<Rightarrow> go_string \<Rightarrow> FactID" where
  "sample_cell key canonical = zero_fact\<lparr>fid_Profile := ProfileV2, fid_Kind := FactBaseCell, fid_SourceNamespace := ''sales.orders'',
     fid_Snapshot := ''snap-1'', fid_EntityKey := key, fid_Field := ''amount'', fid_SQLType := ''bigint'', fid_CanonicalValue := canonical\<rparr>"

definition sample_field :: FieldV2 where
  "sample_field = zero_field\<lparr>fv_ID := ''amount'', fv_SQLType := ''bigint'', fv_Expression := ''sales.orders.amount''\<rparr>"

definition sample_row :: "go_string \<Rightarrow> int \<Rightarrow> FactID \<Rightarrow> FactID list \<Rightarrow> (unit, unit, unit) AnnotatedRowV2" where
  "sample_row key v c fs = \<lparr>ar_Key = key,
     ar_Cells = [(''amount'', \<lparr>cv_Value = AnyInt v, cv_SQLType = ''bigint'', cv_Support = plain_support sample_env [c],
       cv_Witness = plain_witness sample_env [c], cv_Expression = ''sales.orders.amount'', cv_ReleaseFact = Some c\<rparr>)],
     ar_RowSupport = plain_support sample_env fs, ar_RowWitness = plain_witness sample_env fs,
     ar_Origins = [\<lparr>ro_StableRole = ''base'', ro_SourceNamespace = ''sales.orders'', ro_EntityKey = key\<rparr>]\<rparr>"

definition sample_relation :: "(unit, unit, unit) AnnotatedRowV2 list \<Rightarrow> (unit, unit, unit) RelationV2" where
  "sample_relation rows = \<lparr>rel_Fields = [sample_field], rel_Rows = rows,
     rel_SnapshotBundle = [\<lparr>sb_SourceNamespace = ''sales.orders'', sb_Snapshot = ''snap-1''\<rparr>], rel_CanonicalOrder = False\<rparr>"


lemma sample_cells_ok:
  "FactID_Validate sample_env (sample_cell ''17'' ''i:5'') = None" "FactID_Validate sample_env (sample_cell ''18'' ''i:6'') = None"
  "fact_ok (sample_cell ''17'' ''i:5'')" "fact_ok (sample_cell ''18'' ''i:6'')"
  by code_simp+

lemma sample_hash: "FactID_Validate sample_env f = None \<Longrightarrow> FactID_Validate sample_env g = None \<Longrightarrow> fact_ok f \<Longrightarrow> fact_ok g \<Longrightarrow>
    hash_of sample_env f = hash_of sample_env g \<longleftrightarrow> same_fact f g"
  using fact_preimage_inject by (simp add: hash_of_def sample_env_def)

lemma sample_facts_distinct:
  "distinct_facts sample_env [sample_fact ''17'', sample_cell ''17'' ''i:5'', sample_fact ''18'', sample_cell ''18'' ''i:6'']"
proof -
  have "isBaseFactV2 (sample_fact ''17'')" "isBaseFactV2 (sample_fact ''18'')"
    "isBaseFactV2 (sample_cell ''17'' ''i:5'')" "isBaseFactV2 (sample_cell ''18'' ''i:6'')" by code_simp+
  moreover have "distinct (map (hash_of sample_env)
      [sample_fact ''17'', sample_cell ''17'' ''i:5'', sample_fact ''18'', sample_cell ''18'' ''i:6''])"
    by (simp add: sample_hash sample_facts_ok sample_cells_ok)
      (simp add: same_fact_def canonical_form_def sample_fact_def sample_cell_def NewBaseRowFactV2_def checked_fact_def zero_fact_def)
  ultimately show ?thesis using sample_facts_ok sample_cells_ok by (simp add: distinct_facts_def)
qed

lemma sample_canonical:
  "CanonicalSQLTypeV2 ''bigint'' = Inr ''bigint''" "CanonicalSQLValue sample_values ''bigint'' (AnyInt 5) = Inr ''i:5''"
  "CanonicalSQLValue sample_values ''bigint'' (AnyInt 6) = Inr ''i:6''"
  by code_simp+

lemma sample_scan_cells:
  "NewBaseCellFactV2 sample_env sample_values ''sales.orders'' ''snap-1'' ''17'' ''amount'' ''bigint'' (AnyInt 5) =
     Inr (sample_cell ''17'' ''i:5'')"
  "NewBaseCellFactV2 sample_env sample_values ''sales.orders'' ''snap-1'' ''18'' ''amount'' ''bigint'' (AnyInt 6) =
     Inr (sample_cell ''18'' ''i:6'')"
proof -
  show "NewBaseCellFactV2 sample_env sample_values ''sales.orders'' ''snap-1'' ''17'' ''amount'' ''bigint'' (AnyInt 5) =
     Inr (sample_cell ''17'' ''i:5'')"
    using sample_cells_ok(1) unfolding NewBaseCellFactV2_def sample_canonical and_then_Inr_simp Let_def sample_cell_def by simp
  show "NewBaseCellFactV2 sample_env sample_values ''sales.orders'' ''snap-1'' ''18'' ''amount'' ''bigint'' (AnyInt 6) =
     Inr (sample_cell ''18'' ''i:6'')"
    using sample_cells_ok(2) unfolding NewBaseCellFactV2_def sample_canonical and_then_Inr_simp Let_def sample_cell_def by simp
qed


lemma plain_single:
  "distinct_facts E [f] \<Longrightarrow> rebuilt_set E [f] = plain_support E [f]"
  "distinct_facts E [f] \<Longrightarrow> singleton_witness E f = plain_witness E [f]"
proof -
  show "distinct_facts E [f] \<Longrightarrow> rebuilt_set E [f] = plain_support E [f]"
    by (simp add: rebuilt_single distinct_facts_def plain_support_def)
  show "distinct_facts E [f] \<Longrightarrow> singleton_witness E f = plain_witness E [f]"
    using plain_witness_merge [of E "[]" "[f]"]
    by (auto simp: singleton_witness_def NewWitness_def Witness_Merge_def plain_witness_def and_then_Inr)
qed

lemma sample_row_scanned:
  assumes "NewBaseCellFactV2 sample_env sample_values ''sales.orders'' ''snap-1'' k ''amount'' ''bigint'' (AnyInt v) = Inr c"
    and "distinct_facts sample_env [sample_fact k]" "distinct_facts sample_env [c]"
  shows "scan_row sample_env sample_values ''sales.orders'' ''snap-1'' ''base'' [sample_field]
    \<lparr>br_EntityKey = k, br_Values = [(''amount'', AnyInt v)]\<rparr> = Inr (sample_row k v c [sample_fact k])"
proof -
  have "NewBaseRowFactV2 sample_env ''sales.orders'' ''snap-1'' k = (sample_fact k, None)"
    using assms(2) by (simp add: sample_fact_def NewBaseRowFactV2_def checked_fact_def distinct_facts_def)
  then show ?thesis
    using assms by (simp add: scan_row_def scan_cell_def sample_field_def zero_field_def plain_single sample_row_def)
qed

abbreviation sample_bundle :: "SnapshotBinding list" where
  "sample_bundle \<equiv> [\<lparr>sb_SourceNamespace = ''sales.orders'', sb_Snapshot = ''snap-1''\<rparr>]"

lemma sample_row_validates:
  assumes "CanonicalSQLValue sample_values ''bigint'' (AnyInt v) = Inr w" "\<not> invalidToken k"
    and "distinct_facts sample_env fs" "list_all (\<lambda>f. factCoveredByBundleV2 f sample_bundle) fs"
    and "distinct_facts sample_env [sample_cell k w]"
  shows "validate_row sample_env sample_values [sample_field] sample_bundle (sample_row k v (sample_cell k w) fs) = None"
proof -
  let ?c = "sample_cell k w"
  have c: "factCoveredByBundleV2 ?c sample_bundle" "fid_Kind ?c = FactBaseCell" "IsV2 ?c" "fid_SQLType ?c = ''bigint''"
    "fid_CanonicalValue ?c = w" "FactID_Validate sample_env ?c = None"
    using assms(5) by (simp_all add: factCoveredByBundleV2_def bound_snapshot_def sample_cell_def IsV2_def zero_fact_def distinct_facts_def)
  have hash: "FactID_Hash sample_env ?c = Inr (hash_of sample_env ?c)" using c(6) by (simp add: Hash_Inr_iff)
  then have "sameFactV2 sample_env ?c ?c" by (auto simp: sameFactV2_def FactID_Hash_def split: sum.splits)
  then have "validateReleaseProvenanceV2 sample_env (cell_at (sample_row k v ?c fs) ''amount'') ?c = None"
    using c(2) hash by (simp add: validateReleaseProvenanceV2_def cell_at_def sample_row_def plain_support_def)
  moreover have "validateSupportWitnessV2 sample_env (plain_support sample_env fs) (plain_witness sample_env fs) sample_bundle = None"
    "validateSupportWitnessV2 sample_env (plain_support sample_env [?c]) (plain_witness sample_env [?c]) sample_bundle = None"
    using assms(3-5) c(1) by (simp_all add: plain_validates)
  moreover have "\<not> invalidToken ''base''" "\<not> invalidToken ''sales.orders''" "\<not> invalidToken ''sales.orders.amount''" by code_simp+
  ultimately show ?thesis
    using assms(1,2) c by (simp add: validate_row_def validate_cell_def validate_release_def sample_row_def sample_field_def zero_field_def cell_at_def)
qed

lemma sample_relation_validates:
  assumes "rows \<noteq> []" "\<forall>row\<in>set rows. validate_row sample_env sample_values [sample_field] sample_bundle row = None"
    and "distinct (map ar_Key rows)" "\<forall>row\<in>set rows. \<not> invalidToken (ar_Key row) \<and> length (ar_Cells row) = 1"
  shows "ValidateRelationV2 sample_env sample_values (sample_relation rows) = None"
proof -
  have rows: "validate_rows sample_env sample_values [sample_field] sample_bundle seen rs = None"
    if "set rs \<subseteq> set rows" "distinct (map ar_Key rs)" "set (map ar_Key rs) \<inter> set seen = {}" for rs seen
    using that assms(2,4) by (induction rs arbitrary: seen) auto
  have "validate_bundle_form sample_bundle = None" "validate_fields [] [sample_field] = None" by code_simp+
  then show ?thesis using rows [of rows "[]"] assms(3) by (simp add: ValidateRelationV2_def sample_relation_def)
qed


abbreviation sample_row17 :: "FactID list \<Rightarrow> (unit, unit, unit) AnnotatedRowV2" where
  "sample_row17 fs \<equiv> sample_row ''17'' 5 (sample_cell ''17'' ''i:5'') fs"

abbreviation sample_row18 :: "(unit, unit, unit) AnnotatedRowV2" where
  "sample_row18 \<equiv> sample_row ''18'' 6 (sample_cell ''18'' ''i:6'') [sample_fact ''18'']"

lemma sample_valid_rows:
  "validate_row sample_env sample_values [sample_field] sample_bundle (sample_row17 [sample_fact ''17'']) = None"
  "validate_row sample_env sample_values [sample_field] sample_bundle (sample_row17 [sample_fact ''17'', sample_cell ''17'' ''i:5'']) = None"
  "validate_row sample_env sample_values [sample_field] sample_bundle sample_row18 = None"
proof -
  have t: "\<not> invalidToken ''17''" "\<not> invalidToken ''18''" by code_simp+
  have d: "distinct_facts sample_env [sample_fact ''17'']" "distinct_facts sample_env [sample_cell ''17'' ''i:5'']"
    "distinct_facts sample_env [sample_fact ''17'', sample_cell ''17'' ''i:5'']"
    "distinct_facts sample_env [sample_fact ''18'']" "distinct_facts sample_env [sample_cell ''18'' ''i:6'']"
    using sample_facts_distinct by (simp_all add: distinct_facts_def)
  have c: "factCoveredByBundleV2 (sample_fact k) sample_bundle" "factCoveredByBundleV2 (sample_cell k w) sample_bundle" for k w
    by (simp_all add: factCoveredByBundleV2_def bound_snapshot_def sample_cell_def sample_fact_def NewBaseRowFactV2_def
        checked_fact_def zero_fact_def)
  show "validate_row sample_env sample_values [sample_field] sample_bundle (sample_row17 [sample_fact ''17'']) = None"
    "validate_row sample_env sample_values [sample_field] sample_bundle (sample_row17 [sample_fact ''17'', sample_cell ''17'' ''i:5'']) = None"
    "validate_row sample_env sample_values [sample_field] sample_bundle sample_row18 = None"
    using c by (simp_all add: sample_row_validates [OF sample_canonical(2) t(1)] sample_row_validates [OF sample_canonical(3) t(2)] d)
qed

lemma sample_relations_validate:
  "ValidateRelationV2 sample_env sample_values (sample_relation [sample_row17 [sample_fact ''17''], sample_row18]) = None"
  "ValidateRelationV2 sample_env sample_values (sample_relation [sample_row17 [sample_fact ''17'', sample_cell ''17'' ''i:5'']]) = None"
proof -
  have t: "\<not> invalidToken ''17''" "\<not> invalidToken ''18''" by code_simp+
  have k: "ar_Key (sample_row k v c fs) = k" "length (ar_Cells (sample_row k v c fs)) = 1" for k v c fs
    by (simp_all add: sample_row_def)
  show "ValidateRelationV2 sample_env sample_values (sample_relation [sample_row17 [sample_fact ''17''], sample_row18]) = None"
    "ValidateRelationV2 sample_env sample_values (sample_relation [sample_row17 [sample_fact ''17'', sample_cell ''17'' ''i:5'']]) = None"
    by (intro sample_relation_validates; simp add: sample_valid_rows k t)+
qed

lemma sample_scan:
  "ScanV2 sample_env sample_values sample_spec = Inr (sample_relation [sample_row17 [sample_fact ''17''], sample_row18])"
proof -
  have t: "\<not> invalidToken ''17''" "\<not> invalidToken ''18''" "\<not> invalidToken ''sales.orders''" "\<not> invalidToken ''snap-1''"
    "\<not> invalidToken ''base''" by code_simp+
  have f: "scan_fields ''sales.orders'' [] [zero_field\<lparr>fv_ID := ''amount'', fv_SQLType := ''bigint''\<rparr>] = Inr [sample_field]"
    by code_simp
  have d: "distinct_facts sample_env [sample_fact ''17'']" "distinct_facts sample_env [sample_cell ''17'' ''i:5'']"
    "distinct_facts sample_env [sample_fact ''18'']" "distinct_facts sample_env [sample_cell ''18'' ''i:6'']"
    using sample_facts_distinct by (simp_all add: distinct_facts_def)
  note rows = sample_row_scanned [OF sample_scan_cells(1) d(1,2)] sample_row_scanned [OF sample_scan_cells(2) d(3,4)]
  have "scan_rows sample_env sample_values ''sales.orders'' ''snap-1'' ''base'' [sample_field] [] (bs_Rows sample_spec) =
      Inr [sample_row17 [sample_fact ''17''], sample_row18]"
    using t rows by (simp add: sample_spec_def)
  then show ?thesis
    using t f sample_relations_validate(1) by (simp add: ScanV2_def validated_def sample_relation_def sample_spec_def)
qed


abbreviation sample_result :: "(unit, unit, unit) RelationV2" where
  "sample_result \<equiv> sample_relation [sample_row17 [sample_fact ''17'', sample_cell ''17'' ''i:5'']]"

lemma sample_cell_at [simp]:
  "cell_at (sample_row k v c fs) ''amount'' = \<lparr>cv_Value = AnyInt v, cv_SQLType = ''bigint'', cv_Support = plain_support sample_env [c],
     cv_Witness = plain_witness sample_env [c], cv_Expression = ''sales.orders.amount'', cv_ReleaseFact = Some c\<rparr>"
  "ar_RowSupport (sample_row k v c fs) = plain_support sample_env fs"
  "ar_RowWitness (sample_row k v c fs) = plain_witness sample_env fs"
  by (simp_all add: cell_at_def sample_row_def)

lemma sample_require: "requireFieldsV2 (sample_relation rows) [''amount''] = None"
  by (simp add: requireFieldsV2_def fieldTypeMapV2_def sample_relation_def sample_field_def zero_field_def)

lemma sample_eval:
  "eval_query sample_env sample_values (\<lambda>_ _. False) (\<lambda>_. sample_spec) sample_query = Inr sample_result"
proof -
  let ?p = "\<lambda>row. case SQLValueEqualV2 sample_values ''bigint'' (cv_Value (cell_at row ''amount'')) (AnyInt 5) of
    Inr t \<Rightarrow> t | Inl _ \<Rightarrow> SQLUnknown"
  let ?f = "sample_fact ''17''" and ?c = "sample_cell ''17'' ''i:5''"
  have d: "distinct_facts sample_env ([?f] @ [?c])" using sample_facts_distinct by (simp add: distinct_facts_def)
  have eq: "SQLValueEqualV2 sample_values ''bigint'' (AnyInt 5) (AnyInt 5) = Inr SQLTrue"
    "SQLValueEqualV2 sample_values ''bigint'' (AnyInt 6) (AnyInt 5) = Inr SQLFalse"
    by (simp_all add: SQLValueEqualV2_def sample_canonical)
  have sel: "filter (\<lambda>row. ?p row = SQLTrue) [sample_row17 [?f], sample_row18] = [sample_row17 [?f]]"
    using eq by simp
  have "(sample_row17 [?f])\<lparr>ar_RowSupport := plain_support sample_env [?f, ?c], ar_RowWitness := plain_witness sample_env [?f, ?c]\<rparr> =
      sample_row17 [?f, ?c]" by (simp add: sample_row_def)
  then have "select_row sample_env [''amount''] (sample_row17 [?f]) = Inr (sample_row17 [?f, ?c])"
    using plain_merge_new [OF d] plain_witness_merge [OF d] by (simp add: select_row_def add_cell_dependency_def)
  then have "collect (map (select_row sample_env [''amount'']) (filter (\<lambda>row. ?p row = SQLTrue) [sample_row17 [?f], sample_row18])) =
      Inr [sample_row17 [?f, ?c]]"
    unfolding sel by simp
  moreover have "(sample_relation rows)\<lparr>rel_Rows := rows'\<rparr> = sample_relation rows'" "rel_Rows (sample_relation rows) = rows"
    for rows rows' by (simp_all add: sample_relation_def)
  ultimately show ?thesis
    using sample_relations_validate sample_require
    by (simp add: sample_query_def sample_scan SelectV2_def validated_def)
qed

lemma plain_values: "distinct_facts E fs \<Longrightarrow> set (FactSet_Values (plain_support E fs)) = set fs"
  using FactSet_Values_ok(2) [OF plain_support_ok] by (simp add: plain_support_def image_image)

lemma sample_observe: "\<exists>ob. ObserveV2 sample_env sample_values sample_result [] = Inr ob"
proof -
  let ?f = "sample_fact ''17''" and ?c = "sample_cell ''17'' ''i:5''"
  have d: "distinct_facts sample_env ([] @ [?f, ?c])" "distinct_facts sample_env [?f, ?c]"
    using sample_facts_distinct by (simp_all add: distinct_facts_def)
  have m: "merge_support sample_env [] (plain_support sample_env [?f, ?c]) = Inr (plain_support sample_env [?f, ?c])"
    "merge_support sample_env (plain_support sample_env [?f, ?c]) (plain_support sample_env [?c]) = Inr (plain_support sample_env [?f, ?c])"
    using plain_merge_new [OF d(1)] plain_merge_old [OF d(2), of "[?c]"] by (simp_all add: plain_support_def)
  have add: "FactSet_Add sample_env [] ?c = Inr (plain_support sample_env [?c])"
    using d(2) by (simp add: FactSet_Add_cases [OF set_ok_Nil] distinct_facts_def plain_support_def)
  have "set (FactSet_Values (plain_support sample_env [?f, ?c])) = {?f, ?c}" "set (FactSet_Values (plain_support sample_env [?c])) = {?c}"
    using plain_values [OF d(2)] plain_values [of sample_env "[?c]"] d(2) by (simp_all add: distinct_facts_def)
  moreover have "compatible sample_env {?f, ?c}" "IsV2 ?f" "IsV2 ?c"
    using d(2) by (auto simp: compatible_def agrees_def distinct_facts_def isBaseFactV2_def)
  moreover from this(1) have "compatible sample_env {?c}" by (auto simp: compatible_def)
  ultimately obtain ob where "Normalize sample_env \<lparr>ob_ProfileVersion = ProfileV2,
      ob_Release = FactSet_Values (plain_support sample_env [?c]),
      ob_Influence = FactSet_Values (plain_support sample_env [?f, ?c]), ob_Outcome = []\<rparr> = Inr ob"
    using Normalize_V2_total [of sample_env "FactSet_Values (plain_support sample_env [?c])"
        "FactSet_Values (plain_support sample_env [?f, ?c])"] by auto
  moreover have "rel_Fields sample_result = [sample_field]" "fv_ID sample_field = ''amount''" "rel_Rows (sample_relation rows) = rows" for rows
    by (simp_all add: sample_relation_def sample_field_def zero_field_def)
  ultimately show ?thesis
    using sample_relations_validate(2) sample_require m add
    by (simp add: ObserveV2_def observe_row_def observe_cell_def materializeCellReleaseV2_def)
qed

lemma sample_separate: "kinds_separate sample_env sample_values (\<lambda>_. sample_spec)"
proof -
  have R: "row_hashes sample_env (\<lambda>_. sample_spec) = {hash_of sample_env (sample_fact ''17''), hash_of sample_env (sample_fact ''18'')}"
    by (simp add: row_hashes_def base_row_hash_def sample_spec_def sample_fact_def NewBaseRowFactV2_def checked_fact_def)
  have other: "cell_at (sample_row k v c fs) field = zero_cell" if "field \<noteq> ''amount''" for k v c fs field
    using that by (simp add: cell_at_def sample_row_def)
  have "hashes (cv_Support (cell_at row field)) \<inter> row_hashes sample_env (\<lambda>_. sample_spec) = {}"
    if "row = sample_row17 [sample_fact ''17''] \<or> row = sample_row18" for row field
    using that sample_facts_distinct other unfolding R
    by (cases "field = ''amount''") (auto simp: plain_support_def distinct_facts_def)
  then show ?thesis unfolding kinds_separate_def sample_scan by (auto simp: sample_relation_def)
qed

section \<open>Properties\<close>




text \<open>
  C10: \<open>ObserveV2\<close> charges exactly what the annotations say: the influence is the union of the
  supports of the rows and of the visible cells, the release is the fact of every visible cell
  (its base fact, or a derived fact that commits to the witness), and a released base cell is
  always part of the influence.
\<close>

theorem ObserveV2_accounts:
  assumes "ObserveV2 E V r visible = Inr ob" and "\<forall>row\<in>set (rel_Rows r). annotated E {} row"
  shows "fact_hashes E (ob_Influence ob) = (\<Union>row\<in>set (rel_Rows r). row_influence (visible_fields r visible) row) \<and>
    fact_hashes E (ob_Release ob) =
      hash_of E ` (\<Union>row\<in>set (rel_Rows r). row_release E V (rel_SnapshotBundle r) (visible_fields r visible) row) \<and>
    (\<forall>f\<in>set (ob_Release ob). fid_Kind f = FactBaseCell \<longrightarrow> hash_of E f \<in> fact_hashes E (ob_Influence ob))"
proof (intro conjI ballI impI)
  note hs = ObserveV2_hashes [OF assms]
  show "fact_hashes E (ob_Influence ob) = (\<Union>row\<in>set (rel_Rows r). row_influence (visible_fields r visible) row)"
    "fact_hashes E (ob_Release ob) =
      hash_of E ` (\<Union>row\<in>set (rel_Rows r). row_release E V (rel_SnapshotBundle r) (visible_fields r visible) row)"
    by (rule hs(1), rule hs(2))
  fix f
  assume f: "f \<in> set (ob_Release ob)" "fid_Kind f = FactBaseCell"
  obtain row field where row: "row \<in> set (rel_Rows r)" "field \<in> set (visible_fields r visible)"
    "materializeCellReleaseV2 E V (rel_SnapshotBundle r) (ar_Key row) (cell_at row field) = Inr f"
    using hs(3) f(1) by (auto simp: row_release_def)
  have "ValidateRelationV2 E V r = None" "requireFieldsV2 r (visible_fields r visible) = None"
    using assms(1) by (auto simp: ObserveV2_def visible_fields_def Let_def result_Inr)
  then have "row_valid E V (rel_Fields r) (rel_SnapshotBundle r) row" "field \<in> fv_ID ` set (rel_Fields r)"
    using row(1,2) by (auto simp: ValidateRelationV2_iff requireFieldsV2_None)
  then have "hash_of E f \<in> hashes (cv_Support (cell_at row field))"
    using release_supported [OF row_valid_cell, of E V "rel_Fields r" "rel_SnapshotBundle r" row] row(3) f(2) by blast
  then show "hash_of E f \<in> fact_hashes E (ob_Influence ob)" using hs(1) row(1,2) by (auto simp: row_influence_def)
qed

theorem ObserveV2_accounts_witness:
  "\<exists>ob. ObserveV2 sample_env sample_values sample_result [] = Inr ob \<and>
     fact_hashes sample_env (ob_Influence ob) =
       {hash_of sample_env (sample_fact ''17''), hash_of sample_env (sample_cell ''17'' ''i:5'')}"
proof -
  obtain ob where ob: "ObserveV2 sample_env sample_values sample_result [] = Inr ob" using sample_observe by blast
  have fs: "visible_fields sample_result [] = [''amount'']"
    by (simp add: visible_fields_def sample_relation_def sample_field_def zero_field_def)
  have rows: "rel_Rows (sample_relation rows) = rows" for rows by (simp add: sample_relation_def)
  show ?thesis
    using ob ObserveV2_accounts [OF ob eval_query_annotated [OF sample_eval sample_separate]]
    unfolding fs rows by (auto simp: row_influence_def plain_support_def)
qed



text \<open>
  C35: A page is the slice of the rows that offset and limit name (all the rest when the limit is
  zero), unless the sum of the start and the limit leaves the range of \<open>int\<close>: then the sum wraps,
  the upper bound of the slice is negative and \<open>PageV2\<close> panics.
\<close>

theorem PageV2_slice:
  assumes "ValidateRelationV2 E V r = None" and "rel_CanonicalOrder r"
    and "0 \<le> offset" and "0 \<le> limit" and "limit < 2 ^ 63" and "int (length (rel_Rows r)) < 2 ^ 63"
  shows "PageV2 E V r offset limit =
    (if limit > 0 \<and> min offset (int (length (rel_Rows r))) + limit \<ge> 2 ^ 63 then None
     else Some (Inr (r\<lparr>rel_Rows := (if limit = 0 then drop (nat offset) (rel_Rows r)
       else take (nat limit) (drop (nat offset) (rel_Rows r)))\<rparr>)))"
proof -
  let ?rows = "rel_Rows r" and ?n = "length (rel_Rows r)"
  let ?s = "min offset (int ?n)"
  note bounds = page_bounds_cases [OF assms(3-6)]
  have drop: "drop (nat ?s) ?rows = drop (nat offset) ?rows" using assms(3) by (simp add: min_def)
  have valid: "validated E V (r\<lparr>rel_Rows := take k (drop j ?rows)\<rparr>) = Inr (r\<lparr>rel_Rows := take k (drop j ?rows)\<rparr>)" for k j
    using ValidateRelationV2_slice [OF assms(1)] by (simp add: validated_def)
  have rest: "validated E V (r\<lparr>rel_Rows := drop j ?rows\<rparr>) = Inr (r\<lparr>rel_Rows := drop j ?rows\<rparr>)" for j
    using valid [of "length ?rows" j] by simp
  have all: "take (nat (int ?n - ?s)) (drop (nat offset) ?rows) = drop (nat offset) ?rows"
    using assms(3) by (intro take_all) (auto simp: min_def)
  have some: "take (nat (min (?s + limit) (int ?n) - ?s)) (drop (nat offset) ?rows) = take (nat limit) (drop (nat offset) ?rows)"
    using assms(3,4) by (cases "?s + limit \<le> int ?n") (auto simp: min_def)
  show ?thesis
    using assms(1-5) unfolding PageV2_def bounds
    by (auto simp: valid rest drop all some)
qed

theorem PageV2_slice_witness:
  "PageV2 sample_env sample_values (sample_result\<lparr>rel_CanonicalOrder := True\<rparr>) 1 9223372036854775807 = None"
proof -
  have "ValidateRelationV2 sample_env sample_values (sample_result\<lparr>rel_CanonicalOrder := True\<rparr>) = None"
    using sample_relations_validate(2) by (simp add: ValidateRelationV2_iff)
  from PageV2_slice [OF this, of 1 9223372036854775807] show ?thesis by (simp add: sample_relation_def)
qed

end
