(* ===== verification/Exposure_Groups.thy ===== *)
theory Exposure_Groups
  imports Exposure_Provenance
begin

text \<open>
  Aggregation over the rows PostgreSQL returned: \<open>AggregateFromResultsV2\<close> (\<open>exposure/algebra_v2.go\<close>)
  does not compute the groups itself, it checks that there are as many output rows as groups and
  that each has a member. These checks make the grouping complete, which is the hypothesis
  \<^const>\<open>groups_complete\<close> of the theorem on sufficient influence.
\<close>

section \<open>Definitions\<close>

text \<open>The components of the group key of a row and of an output row, in order.\<close>

definition row_components ::
  "('f, 't, 'o) value_env \<Rightarrow> ('f, 't, 'o) RelationV2 \<Rightarrow> go_string list \<Rightarrow> ('f, 't, 'o) AnnotatedRowV2 \<Rightarrow> exposure_error + go_string list" where
  "row_components V input gs row = collect (map (\<lambda>f. group_component V input f (cv_Value (cell_at row f))) gs)"

definition output_components ::
  "('f, 't, 'o) value_env \<Rightarrow> ('f, 't, 'o) RelationV2 \<Rightarrow> go_string list \<Rightarrow> ('f, 't, 'o) output_row \<Rightarrow> exposure_error + go_string list" where
  "output_components V input gs out = collect (map (output_component V input out) gs)"

section \<open>Lemmas\<close>

lemma map_of_put_fields:
  "x \<in> k ` set fs \<Longrightarrow> \<exists>f\<in>set fs. k f = x \<and> map_of (foldl (\<lambda>m f. map_put (k f) (g f) m) acc fs) x = Some (g f)"
proof (induction fs rule: rev_induct)
  case (snoc f fs)
  then show ?case by (cases "k f = x") auto
qed simp

lemma field_type_canonical:
  assumes "ValidateRelationV2 E V r = None" "f \<in> fv_ID ` set (rel_Fields r)"
  shows "CanonicalSQLTypeV2 (field_type r f) = Inr (field_type r f)"
proof -
  obtain fd where fd: "fd \<in> set (rel_Fields r)" "field_type r f = normalizeSQLType (fv_SQLType fd)"
    using map_of_put_fields [OF assms(2), of "\<lambda>fd. normalizeSQLType (fv_SQLType fd)" "[]"]
    by (auto simp: field_type_def fieldTypeMapV2_def)
  have "CanonicalSQLTypeV2 (fv_SQLType fd) = Inr (fv_SQLType fd)"
    using assms(1) fd(1) by (auto simp: ValidateRelationV2_iff validate_fields_iff field_valid_def)
  then have "normalizeSQLType (fv_SQLType fd) = fv_SQLType fd"
    by (auto simp: CanonicalSQLTypeV2_def Let_def split: if_splits)
  then show ?thesis using fd(2) \<open>CanonicalSQLTypeV2 (fv_SQLType fd) = Inr (fv_SQLType fd)\<close> by simp
qed

lemma NotDistinct_iff:
  assumes "CanonicalSQLTypeV2 t = Inr t"
  shows "SQLValueNotDistinctV2 V t a b = Inr True \<longleftrightarrow> (\<exists>c. CanonicalSQLValue V t a = Inr c \<and> CanonicalSQLValue V t b = Inr c)"
  using assms by (auto simp: SQLValueNotDistinctV2_def and_then_Inr)

lemma row_matches_iff:
  "row_matches V input gs out row = Inr True \<longleftrightarrow>
     (\<forall>f\<in>set gs. SQLValueNotDistinctV2 V (field_type input f) (cv_Value (cell_at row f)) (output_value out f) = Inr True)"
  by (induction gs) (auto simp: and_then_Inr)

lemma output_component_Inr:
  "output_component V input out f = Inr c \<Longrightarrow> group_component V input f (output_value out f) = Inr c"
  by (auto simp: output_component_def output_value_def split: option.splits)

lemma component_value:
  "group_component V input f v = Inr c \<longleftrightarrow> (\<exists>w. CanonicalSQLValue V (field_type input f) v = Inr w \<and>
     c = inputExpressionV2 input f @ [CHR 0x00] @ field_type input f @ [CHR 0x00] @ w)"
  by (auto simp: group_component_def and_then_Inr)

lemma matching_components:
  assumes "row_matches V input gs out row = Inr True" "output_components V input gs out = Inr cs"
    and "\<forall>f\<in>set gs. CanonicalSQLTypeV2 (field_type input f) = Inr (field_type input f)"
  shows "row_components V input gs row = Inr cs"
proof -
  have step: "group_component V input f (cv_Value (cell_at row f)) = Inr c"
    if f: "f \<in> set gs" and out: "output_component V input out f = Inr c" for f c
  proof -
    obtain w where w: "CanonicalSQLValue V (field_type input f) (cv_Value (cell_at row f)) = Inr w"
      "CanonicalSQLValue V (field_type input f) (output_value out f) = Inr w"
      using NotDistinct_iff [OF assms(3) [rule_format, OF f]] assms(1) f unfolding row_matches_iff by blast
    then show ?thesis using output_component_Inr [OF out] by (auto simp: component_value)
  qed
  show ?thesis
    using assms(2) unfolding output_components_def row_components_def collect_map_Inr
    by (rule list.rel_mono_strong) (rule step)
qed

lemma upto_mark: "x \<notin> set e \<Longrightarrow> takeWhile (\<lambda>y. y \<noteq> x) (e @ x # z) = e"
  by (induction e) auto

text \<open>Equal components are values that match, when the expressions tell the fields apart.\<close>

lemma components_match:
  assumes "row_components V input gs row = Inr cs" "output_components V input gs out = Inr ds" "set cs = set ds"
    and "inj_on (inputExpressionV2 input) (set gs)" "\<forall>f\<in>set gs. CHR 0x00 \<notin> set (inputExpressionV2 input f)"
    and "\<forall>f\<in>set gs. CanonicalSQLTypeV2 (field_type input f) = Inr (field_type input f)"
  shows "row_matches V input gs out row = Inr True"
proof -
  have "\<exists>w. CanonicalSQLValue V (field_type input f) (cv_Value (cell_at row f)) = Inr w \<and>
      CanonicalSQLValue V (field_type input f) (output_value out f) = Inr w" if f: "f \<in> set gs" for f
  proof -
    obtain c where c: "c \<in> set cs" "group_component V input f (cv_Value (cell_at row f)) = Inr c"
      using collect_member [OF assms(1) [unfolded row_components_def] f] by blast
    obtain g where g: "g \<in> set gs" "output_component V input out g = Inr c"
      using collect_result_member [OF assms(2) [unfolded output_components_def], of c] c(1) assms(3) by blast
    obtain v where v: "CanonicalSQLValue V (field_type input f) (cv_Value (cell_at row f)) = Inr v"
      "c = inputExpressionV2 input f @ [CHR 0x00] @ field_type input f @ [CHR 0x00] @ v"
      using c(2) by (auto simp: component_value)
    obtain w where w: "CanonicalSQLValue V (field_type input g) (output_value out g) = Inr w"
      "c = inputExpressionV2 input g @ [CHR 0x00] @ field_type input g @ [CHR 0x00] @ w"
      using output_component_Inr [OF g(2)] by (auto simp: component_value)
    have "takeWhile (\<lambda>x. x \<noteq> CHR 0x00) c = inputExpressionV2 input f" "takeWhile (\<lambda>x. x \<noteq> CHR 0x00) c = inputExpressionV2 input g"
      using assms(5) f g(1) by (simp add: v(2) upto_mark, simp add: w(2) upto_mark)
    then have "inputExpressionV2 input f = inputExpressionV2 input g" by simp
    then have "f = g" using assms(4) f g(1) by (auto dest: inj_onD)
    then show ?thesis using v w by simp
  qed
  then show ?thesis using assms(6) by (simp add: row_matches_iff NotDistinct_iff)
qed

lemma aggregate_row_key:
  assumes "aggregate_row E V input gs specs out = Inr row" "gs \<noteq> []"
    and "\<forall>f\<in>set gs. CanonicalSQLTypeV2 (field_type input f) = Inr (field_type input f)"
  shows "\<exists>m\<in>set (rel_Rows input). expected_group E V input gs m = Inr (ar_Key row)"
    "\<exists>ds. output_components V input gs out = Inr ds \<and> group_key E ds = Inr (ar_Key row)"
proof -
  obtain ds members where parts: "output_components V input gs out = Inr ds" "group_key E ds = Inr (ar_Key row)"
    "matchingGroupRowsV2 V input gs out = Inr members" "members \<noteq> []"
    using assms(1,2) by (auto simp: aggregate_row_def output_components_def result_Inr)
  show "\<exists>ds. output_components V input gs out = Inr ds \<and> group_key E ds = Inr (ar_Key row)" using parts(1,2) by blast
  obtain m where "m \<in> set members" using parts(4) by fastforce
  then have m: "m \<in> set (rel_Rows input)" "row_matches V input gs out m = Inr True"
    using matchingGroupRowsV2_filter [OF parts(3)] by auto
  have "row_components V input gs m = Inr ds" by (rule matching_components [OF m(2) parts(1) assms(3)])
  then have "expected_group E V input gs m = Inr (ar_Key row)"
    using parts(2) by (simp add: expected_group_def row_components_def)
  then show "\<exists>m\<in>set (rel_Rows input). expected_group E V input gs m = Inr (ar_Key row)" using m(1) by blast
qed

text \<open>
  As many output rows as groups, each with a member and all with different keys: every row of the
  input has the key of an output row.
\<close>

lemma expected_key_returned:
  assumes "AggregateFromResultsV2 E V input gs specs outputs = Inr r" "gs \<noteq> []" "row \<in> set (rel_Rows input)"
  shows "\<exists>out\<in>set outputs. \<exists>cs ds k. row_components V input gs row = Inr cs \<and> output_components V input gs out = Inr ds \<and>
    group_key E cs = Inr k \<and> group_key E ds = Inr k"
proof -
  obtain rows where agg: "ValidateRelationV2 E V input = None" "requireFieldsV2 input gs = None"
    "collect (map (aggregate_row E V input gs specs) outputs) = Inr rows" "check_group_count E V input gs (length rows) = None"
    "ValidateRelationV2 E V r = None" "rel_Rows r = rows"
    using assms(1,2) by (auto simp: AggregateFromResultsV2_def result_Inr validated_Inr)
  then obtain keys where parts: "ValidateRelationV2 E V input = None" "requireFieldsV2 input gs = None"
    "collect (map (aggregate_row E V input gs specs) outputs) = Inr rows"
    "collect (map (expected_group E V input gs) (rel_Rows input)) = Inr keys" "length rows = length (remdups keys)"
    "distinct (map ar_Key rows)"
    using assms(2) by (auto simp: check_group_count_def ValidateRelationV2_iff [of E V r] split: sum.splits if_splits)
  have types: "\<forall>f\<in>set gs. CanonicalSQLTypeV2 (field_type input f) = Inr (field_type input f)"
    using field_type_canonical [OF parts(1)] parts(2) by (auto simp: requireFieldsV2_None)
  have "set (map ar_Key rows) \<subseteq> set keys"
  proof
    fix k
    assume "k \<in> set (map ar_Key rows)"
    then obtain row where row: "row \<in> set rows" "k = ar_Key row" by auto
    obtain out where "aggregate_row E V input gs specs out = Inr row" using collect_result_member [OF parts(3) row(1)] by blast
    then show "k \<in> set keys" unfolding row(2)
      using aggregate_row_key(1) [OF _ assms(2) types] collect_member [OF parts(4)] by fastforce
  qed
  moreover have "card (set (map ar_Key rows)) = card (set keys)"
    using distinct_card [OF parts(6)] parts(5) by (simp add: length_remdups_card_conv)
  ultimately have same: "set (map ar_Key rows) = set keys" by (simp add: card_subset_eq)
  obtain k where k: "expected_group E V input gs row = Inr k" "k \<in> set keys" using collect_member [OF parts(4) assms(3)] by blast
  obtain row' where row': "row' \<in> set rows" "ar_Key row' = k" using k(2) unfolding same [symmetric] by auto
  obtain out where out: "out \<in> set outputs" "aggregate_row E V input gs specs out = Inr row'"
    using collect_result_member [OF parts(3) row'(1)] by blast
  obtain cs where "row_components V input gs row = Inr cs" "group_key E cs = Inr k"
    using k(1) by (auto simp: expected_group_def row_components_def and_then_Inr)
  then show ?thesis using aggregate_row_key(2) [OF out(2) assms(2) types] out(1) row'(2) by blast
qed

section \<open>Two orders grouped by amount\<close>

abbreviation sample_input :: "(unit, unit, unit) RelationV2" where
  "sample_input \<equiv> sample_relation [sample_row17 [sample_fact ''17''], sample_row18]"

definition sample_component :: "go_string \<Rightarrow> go_string" where
  "sample_component c = ''sales.orders.amount'' @ [CHR 0x00] @ ''bigint'' @ [CHR 0x00] @ c"

definition sample_group_key :: "go_string \<Rightarrow> go_string" where
  "sample_group_key c = hex_encode (key_preimage ''group-row'' [sample_component c])"

definition sample_group :: "int \<Rightarrow> go_string \<Rightarrow> FactID \<Rightarrow> FactID \<Rightarrow> (unit, unit, unit) AnnotatedRowV2" where
  "sample_group v w f c = \<lparr>ar_Key = sample_group_key w,
     ar_Cells = [(''amount'', \<lparr>cv_Value = AnyInt v, cv_SQLType = ''bigint'', cv_Support = plain_support sample_env [c],
       cv_Witness = plain_witness sample_env [c], cv_Expression = ''group(sales.orders.amount)'', cv_ReleaseFact = None\<rparr>)],
     ar_RowSupport = plain_support sample_env [f, c], ar_RowWitness = plain_witness sample_env [f, c], ar_Origins = []\<rparr>"

lemma sample_input_field:
  "field_type sample_input ''amount'' = ''bigint''" "inputExpressionV2 sample_input ''amount'' = ''sales.orders.amount''"
  "rel_Rows sample_input = [sample_row17 [sample_fact ''17''], sample_row18]"
  "fieldDefinitionV2 sample_input ''amount'' = sample_field"
proof -
  have "normalizeSQLType ''bigint'' = ''bigint''" by code_simp
  then show "field_type sample_input ''amount'' = ''bigint''"
    by (simp add: field_type_def fieldTypeMapV2_def sample_relation_def sample_field_def zero_field_def)
qed (simp_all add: inputExpressionV2_def fieldDefinitionV2_def sample_relation_def sample_field_def zero_field_def)

lemma sample_component_of:
  "group_component sample_values sample_input ''amount'' (AnyInt 5) = Inr (sample_component ''i:5'')"
  "group_component sample_values sample_input ''amount'' (AnyInt 6) = Inr (sample_component ''i:6'')"
  by (simp_all add: group_component_def sample_input_field sample_canonical sample_component_def)

lemma sample_group_key_of: "group_key sample_env [sample_component c] = Inr (sample_group_key c)"
proof -
  have "\<not> invalidToken ''group-row''" by code_simp
  then show ?thesis by (simp add: group_key_def ComposeCanonicalKeyV2_def sample_group_key_def sample_env_def)
qed

lemma sample_group_key_ok: "\<not> invalidToken (sample_group_key c)" "sample_group_key ''i:5'' \<noteq> sample_group_key ''i:6''"
proof -
  have hex: "printable c" if "lower_hex_char c" for c using that by (auto simp: lower_hex_char_def printable_def less_eq_char_def char_in_def)
  have "list_all lower_hex_char (sample_group_key c)" using hex_encode_lower by (simp add: sample_group_key_def)
  then have "TrimSpace (sample_group_key c) = sample_group_key c" using hex by (intro TrimSpace_printable) (auto simp: list_all_iff)
  moreover have "sample_group_key c \<noteq> []"
    using hex_encode_lower [of "key_preimage ''group-row'' [sample_component c]"]
    by (auto simp: sample_group_key_def key_preimage_def)
  ultimately show "\<not> invalidToken (sample_group_key c)" by (simp add: invalidToken_def)
  have "sample_component ''i:5'' \<noteq> sample_component ''i:6''" by (simp add: sample_component_def)
  moreover have "framable (sample_component w)" if "length w = 3" for w using that by (simp add: sample_component_def)
  ultimately show "sample_group_key ''i:5'' \<noteq> sample_group_key ''i:6''"
    using key_preimage_inject [of "''group-row''" "''group-row''" "[sample_component ''i:5'']" "[sample_component ''i:6'']"]
    by (simp add: sample_group_key_def)
qed

lemma plain_Nil: "plain_support E [] = []" "plain_witness E [] = []"
  by (simp_all add: plain_support_def plain_witness_def)

lemma sample_not_distinct:
  "SQLValueNotDistinctV2 sample_values ''bigint'' (AnyInt 5) (AnyInt 5) = Inr True"
  "SQLValueNotDistinctV2 sample_values ''bigint'' (AnyInt 6) (AnyInt 5) = Inr False"
  "SQLValueNotDistinctV2 sample_values ''bigint'' (AnyInt 5) (AnyInt 6) = Inr False"
  "SQLValueNotDistinctV2 sample_values ''bigint'' (AnyInt 6) (AnyInt 6) = Inr True"
  by (simp_all add: SQLValueNotDistinctV2_def sample_canonical)

lemma sample_members:
  "matchingGroupRowsV2 sample_values sample_input [''amount''] [(''amount'', AnyInt 5)] = Inr [sample_row17 [sample_fact ''17'']]"
  "matchingGroupRowsV2 sample_values sample_input [''amount''] [(''amount'', AnyInt 6)] = Inr [sample_row18]"
  by (simp_all add: matchingGroupRowsV2_def sample_input_field output_value_def sample_not_distinct)

lemma sample_annotations:
  assumes "distinct_facts sample_env [f, c]"
  shows "fold_result (add_member sample_env [''amount'']) [sample_row k v c [f]] ([], []) =
      Inr (plain_support sample_env [f, c], plain_witness sample_env [f, c])"
    "fold_result (\<lambda>member. add_cell_dependency sample_env (cell_at member ''amount'')) [sample_row k v c [f]] ([], []) =
      Inr (plain_support sample_env [c], plain_witness sample_env [c])"
proof -
  have d: "distinct_facts sample_env ([] @ [f])" "distinct_facts sample_env ([f] @ [c])" "distinct_facts sample_env ([] @ [c])"
    using assms by (simp_all add: distinct_facts_def)
  note m = plain_merge_new [OF d(1)] plain_merge_new [OF d(2)] plain_merge_new [OF d(3)]
    plain_witness_merge [OF d(1)] plain_witness_merge [OF d(2)] plain_witness_merge [OF d(3)]
  show "fold_result (add_member sample_env [''amount'']) [sample_row k v c [f]] ([], []) =
      Inr (plain_support sample_env [f, c], plain_witness sample_env [f, c])"
    "fold_result (\<lambda>member. add_cell_dependency sample_env (cell_at member ''amount'')) [sample_row k v c [f]] ([], []) =
      Inr (plain_support sample_env [c], plain_witness sample_env [c])"
    using m by (simp_all add: plain_Nil add_member_def add_row_dependency_def add_cell_dependency_def)
qed

lemma sample_group_rows:
  "aggregate_row sample_env sample_values sample_input [''amount''] [] [(''amount'', AnyInt 5)] =
     Inr (sample_group 5 ''i:5'' (sample_fact ''17'') (sample_cell ''17'' ''i:5''))"
  "aggregate_row sample_env sample_values sample_input [''amount''] [] [(''amount'', AnyInt 6)] =
     Inr (sample_group 6 ''i:6'' (sample_fact ''18'') (sample_cell ''18'' ''i:6''))"
proof -
  have d: "distinct_facts sample_env [sample_fact ''17'', sample_cell ''17'' ''i:5'']"
    "distinct_facts sample_env [sample_fact ''18'', sample_cell ''18'' ''i:6'']"
    using sample_facts_distinct by (simp_all add: distinct_facts_def)
  have e: "fv_Expression (group_field sample_input ''amount'') = ''group(sales.orders.amount)''"
    by (simp add: group_field_def sample_input_field)
  show "aggregate_row sample_env sample_values sample_input [''amount''] [] [(''amount'', AnyInt 5)] =
     Inr (sample_group 5 ''i:5'' (sample_fact ''17'') (sample_cell ''17'' ''i:5''))"
    using sample_annotations [OF d(1), of "''17''" 5]
    by (simp add: aggregate_row_def output_component_def sample_component_of sample_group_key_of sample_members group_cell_def
        output_value_def e sample_group_def sample_input_field(1) del: fold_result.simps(2)) (simp add: group_cell_def output_value_def e sample_input_field(1))
  show "aggregate_row sample_env sample_values sample_input [''amount''] [] [(''amount'', AnyInt 6)] =
     Inr (sample_group 6 ''i:6'' (sample_fact ''18'') (sample_cell ''18'' ''i:6''))"
    using sample_annotations [OF d(2), of "''18''" 6]
    by (simp add: aggregate_row_def output_component_def sample_component_of sample_group_key_of sample_members group_cell_def
        output_value_def e sample_group_def sample_input_field(1) del: fold_result.simps(2)) (simp add: group_cell_def output_value_def e sample_input_field(1))
qed

lemma sample_group_valid:
  assumes "distinct_facts sample_env [f, c]" "list_all (\<lambda>f. factCoveredByBundleV2 f sample_bundle) [f, c]"
    and "CanonicalSQLValue sample_values ''bigint'' (AnyInt v) = Inr w"
  shows "row_valid sample_env sample_values [group_field sample_input ''amount''] sample_bundle (sample_group v w f c)"
proof -
  have "distinct_facts sample_env [c]" using assms(1) by (simp add: distinct_facts_def)
  then have "validateSupportWitnessV2 sample_env (plain_support sample_env [c]) (plain_witness sample_env [c]) sample_bundle = None"
    using assms(2) by (intro plain_validates) simp_all
  moreover have "validateSupportWitnessV2 sample_env (plain_support sample_env [f, c]) (plain_witness sample_env [f, c]) sample_bundle = None"
    using assms(1,2) by (intro plain_validates) simp_all
  moreover have "\<not> invalidToken ''group(sales.orders.amount)''" by code_simp
  ultimately show ?thesis
    using assms(3) sample_group_key_ok(1) [of w]
    by (simp add: row_valid_def validate_row_def validate_cell_def validate_release_def sample_group_def group_field_def
        sample_input_field sample_field_def zero_field_def)
qed

lemma sample_aggregate:
  "\<exists>r. AggregateFromResultsV2 sample_env sample_values sample_input [''amount''] [] [[(''amount'', AnyInt 5)], [(''amount'', AnyInt 6)]] = Inr r"
proof -
  have d: "distinct_facts sample_env [sample_fact ''17'', sample_cell ''17'' ''i:5'']"
    "distinct_facts sample_env [sample_fact ''18'', sample_cell ''18'' ''i:6'']"
    using sample_facts_distinct by (simp_all add: distinct_facts_def)
  have c: "factCoveredByBundleV2 (sample_fact k) sample_bundle" "factCoveredByBundleV2 (sample_cell k w) sample_bundle" for k w
    by (simp_all add: factCoveredByBundleV2_def bound_snapshot_def sample_cell_def sample_fact_def NewBaseRowFactV2_def
        checked_fact_def zero_fact_def)
  let ?rows = "[sample_group 5 ''i:5'' (sample_fact ''17'') (sample_cell ''17'' ''i:5''),
    sample_group 6 ''i:6'' (sample_fact ''18'') (sample_cell ''18'' ''i:6'')]"
  let ?r = "\<lparr>rel_Fields = [group_field sample_input ''amount''], rel_Rows = ?rows, rel_SnapshotBundle = sample_bundle,
    rel_CanonicalOrder = False\<rparr>"
  have "validate_bundle_form sample_bundle = None" by code_simp
  moreover have "validate_fields [] [sample_field\<lparr>fv_Expression := ''group(sales.orders.amount)''\<rparr>] = None" by code_simp
  then have "validate_fields [] [group_field sample_input ''amount''] = None" by (simp add: group_field_def sample_input_field)
  moreover have "ar_Key (sample_group v w f c) = sample_group_key w" for v w f c by (simp add: sample_group_def)
  ultimately have "ValidateRelationV2 sample_env sample_values ?r = None"
    using sample_group_valid [OF d(1) _ sample_canonical(2)] sample_group_valid [OF d(2) _ sample_canonical(3)]
      sample_group_key_ok(2) c by (simp add: ValidateRelationV2_iff)
  moreover have "collect (map (expected_group sample_env sample_values sample_input [''amount'']) (rel_Rows sample_input)) =
      Inr [sample_group_key ''i:5'', sample_group_key ''i:6'']"
    by (simp add: sample_input_field(3) expected_group_def sample_component_of sample_group_key_of)
  then have "check_group_count sample_env sample_values sample_input [''amount''] (Suc (Suc 0)) = None"
    using sample_group_key_ok(2) by (simp add: check_group_count_def)
  moreover have "rel_SnapshotBundle sample_input = sample_bundle" by (simp add: sample_relation_def)
  ultimately show ?thesis
    using sample_relations_validate(1) sample_require
    by (simp add: AggregateFromResultsV2_def sample_group_rows validated_def)
qed

section \<open>Completeness\<close>

text \<open>
  C11: The check of the number of groups makes the grouping complete. When
  \<open>AggregateFromResultsV2\<close> accepts the rows that PostgreSQL returned, every row of the input
  belongs to a returned group (so its facts are charged with that group), unless SHA-256 collides
  on the key of the row and the key of an output row. The expressions of the group fields are
  distinct and free of the separator.
\<close>

theorem AggregateFromResultsV2_complete:
  assumes "AggregateFromResultsV2 E V input gs specs outputs = Inr r" and "row \<in> set (rel_Rows input)"
    and "inj_on (inputExpressionV2 input) (set gs)" and "\<forall>f\<in>set gs. CHR 0x00 \<notin> set (inputExpressionV2 input f)"
    and "framable gs" and "\<forall>cs. row_components V input gs row = Inr cs \<longrightarrow> list_all framable cs"
    and "\<forall>out\<in>set outputs. \<forall>ds. output_components V input gs out = Inr ds \<longrightarrow> list_all framable ds"
  shows "\<exists>out\<in>set outputs. row_matches V input gs out row = Inr True \<or>
    (\<exists>cs ds. row_components V input gs row = Inr cs \<and> output_components V input gs out = Inr ds \<and>
       collision (env_sha256 E) (key_preimage ''group-row'' (sort cs)) (key_preimage ''group-row'' (sort ds)))"
proof (cases "gs = []")
  case True
  then have "length outputs = 1" using assms(1) by (auto simp: AggregateFromResultsV2_def result_Inr)
  then show ?thesis using True by (cases outputs) auto
next
  case False
  obtain out cs ds k where out: "out \<in> set outputs" "row_components V input gs row = Inr cs"
    "output_components V input gs out = Inr ds" "group_key E cs = Inr k" "group_key E ds = Inr k"
    using expected_key_returned [OF assms(1) False assms(2)] by blast
  have len: "length cs = length gs" "length ds = length gs"
    using out(2,3) unfolding row_components_def output_components_def collect_map_Inr by (auto dest: list_all2_lengthD)
  then have "cs \<noteq> []" "ds \<noteq> []" using False by auto
  then have "env_sha256 E (key_preimage ''group-row'' (sort cs)) = env_sha256 E (key_preimage ''group-row'' (sort ds))"
    using out(4,5) by (auto simp: group_key_def ComposeCanonicalKeyV2_def split: if_splits)
  then consider "key_preimage ''group-row'' (sort cs) = key_preimage ''group-row'' (sort ds)"
    | "collision (env_sha256 E) (key_preimage ''group-row'' (sort cs)) (key_preimage ''group-row'' (sort ds))"
    by (auto simp: collision_def)
  then show ?thesis
  proof cases
    case 1
    have "framable c" if "c \<in> set cs \<or> c \<in> set ds" for c using that assms(6,7) out(1-3) by (auto simp: list_all_iff)
    then have "sort cs = sort ds"
      using 1 key_preimage_inject [of "''group-row''" "''group-row''" "sort cs" "sort ds"] len assms(5) by simp
    then have "set cs = set ds" by (metis set_sort)
    moreover have "\<forall>f\<in>set gs. CanonicalSQLTypeV2 (field_type input f) = Inr (field_type input f)"
    proof -
      have "ValidateRelationV2 E V input = None" "requireFieldsV2 input gs = None"
        using assms(1) by (auto simp: AggregateFromResultsV2_def result_Inr)
      then show ?thesis using field_type_canonical [of E V input] by (auto simp: requireFieldsV2_None)
    qed
    ultimately have "row_matches V input gs out row = Inr True" by (rule components_match [OF out(2,3) _ assms(3,4)])
    then show ?thesis using out(1) by blast
  next
    case 2
    then show ?thesis using out(1-3) by blast
  qed
qed

theorem AggregateFromResultsV2_complete_witness:
  "\<exists>out\<in>{[(''amount'', AnyInt 5)], [(''amount'', AnyInt 6)]}.
     row_matches sample_values sample_input [''amount''] out (sample_row17 [sample_fact ''17'']) = Inr True"
proof -
  obtain r where r: "AggregateFromResultsV2 sample_env sample_values sample_input [''amount''] []
      [[(''amount'', AnyInt 5)], [(''amount'', AnyInt 6)]] = Inr r"
    using sample_aggregate by blast
  have "framable (sample_component w)" if "length w = 3" for w using that by (simp add: sample_component_def)
  then have f: "\<forall>cs. row_components sample_values sample_input [''amount''] (sample_row17 [sample_fact ''17'']) = Inr cs \<longrightarrow> list_all framable cs"
    "\<forall>out\<in>set [[(''amount'', AnyInt 5)], [(''amount'', AnyInt 6)]]. \<forall>ds.
       output_components sample_values sample_input [''amount''] out = Inr ds \<longrightarrow> list_all framable ds"
    by (simp_all add: row_components_def output_components_def output_component_def sample_component_of)
  have e: "inj_on (inputExpressionV2 sample_input) (set [''amount''])"
    "\<forall>f\<in>set [''amount'']. CHR 0x00 \<notin> set (inputExpressionV2 sample_input f)"
    by (simp_all add: sample_input_field(2))
  have "collision (env_sha256 sample_env) x y \<longleftrightarrow> False" for x y by (simp add: collision_def sample_env_def)
  then show ?thesis
    using AggregateFromResultsV2_complete [OF r _ e _ f] by (simp add: sample_input_field(3))
qed

end
