(* ===== verification/Semantic_Cache.thy ===== *)
theory Semantic_Cache
  imports Exposure_Fact
begin

text \<open>
  The identity of a committed query materialization (\<open>semanticcache/key.go\<close>): a binding of every
  input that can change the result, and its digest, under which a committed result may be replayed.
\<close>

section \<open>Definitions\<close>

definition KeyVersion :: go_string where "KeyVersion = ''taskgate-semantic-replay-v1''"
definition CompilerV1 :: go_string where "CompilerV1 = ''taskgate-ordinal-compiler-v1''"
definition OrderingV1 :: go_string where "OrderingV1 = ''taskgate-canonical-order-v1''"
definition PaginationV1 :: go_string where "PaginationV1 = ''taskgate-pagination-v1''"

definition keyDigestDomain :: "byte list" where
  "keyDigestDomain = bytes_of ''TASKGATE-SEMANTIC-REPLAY-KEY-V1'' @ [0]"

record Binding =
  bi_Version :: go_string
  bi_TaskID :: go_string
  bi_GrantDigest :: go_string
  bi_AuthorizationDigest :: go_string
  bi_TypedNormalForm :: go_string
  bi_PlanDigest :: go_string
  bi_CatalogDigest :: go_string
  bi_SchemaDigest :: go_string
  bi_DictionarySetDigest :: go_string
  bi_ExposureProfile :: go_string
  bi_CompilerVersion :: go_string
  bi_OrderingVersion :: go_string
  bi_PaginationVersion :: go_string
  bi_ResultEncoding :: go_string
  bi_PredicateProfile :: go_string
  bi_PredicateContext :: go_string
  bi_PredicateSet :: go_string
  bi_PredicateAtomCount :: int64

definition or_default :: "go_string \<Rightarrow> go_string \<Rightarrow> go_string" where
  "or_default v dflt = (if v = [] then dflt else v)"

definition Binding_Normalize :: "Binding \<Rightarrow> Binding" where
  "Binding_Normalize b = b\<lparr>bi_Version := or_default (bi_Version b) KeyVersion,
     bi_CompilerVersion := or_default (bi_CompilerVersion b) CompilerV1,
     bi_OrderingVersion := or_default (bi_OrderingVersion b) OrderingV1,
     bi_PaginationVersion := or_default (bi_PaginationVersion b) PaginationV1,
     bi_ResultEncoding := or_default (bi_ResultEncoding b) ''json-v1''\<rparr>"

text \<open>
  The reasons of a refusal. The loops of \<open>Validate\<close> range over Go maps, so which of several
  missing fields or digests is named is not determined; the name is left out.
\<close>

datatype semantic_error = UnsupportedBinding | FieldRequired | DigestInvalid | IncompletePredicate | PredicateWithoutV5

definition key_digest_ok :: "go_string \<Rightarrow> bool" where
  "key_digest_ok v \<longleftrightarrow> length v = 64 \<and> list_all lower_hex_char v"

definition field_missing :: "go_string \<Rightarrow> bool" where
  "field_missing v \<longleftrightarrow> blank v \<or> CHR 0x00 \<in> set v"

definition Binding_Validate :: "Binding \<Rightarrow> semantic_error option" where
  "Binding_Validate raw =
     (let b = Binding_Normalize raw in
      if bi_Version b \<noteq> KeyVersion \<or> bi_CompilerVersion b = [] \<or> bi_OrderingVersion b = [] \<or> bi_PaginationVersion b = []
      then Some UnsupportedBinding
      else if list_ex field_missing [bi_TaskID b, bi_TypedNormalForm b, bi_ExposureProfile b, bi_ResultEncoding b] then Some FieldRequired
      else if \<not> list_all key_digest_ok [bi_GrantDigest b, bi_AuthorizationDigest b, bi_PlanDigest b, bi_CatalogDigest b,
                bi_SchemaDigest b, bi_DictionarySetDigest b] then Some DigestInvalid
      else if bi_ExposureProfile b = ProfileV5 then
        (if bi_PredicateProfile b \<noteq> ''taskgate-predicate-footprint-v1'' \<or> \<not> key_digest_ok (bi_PredicateContext b) \<or>
            \<not> key_digest_ok (bi_PredicateSet b) \<or> bi_PredicateAtomCount b < 0 then Some IncompletePredicate else None)
      else if bi_PredicateProfile b \<noteq> [] \<or> bi_PredicateContext b \<noteq> [] \<or> bi_PredicateSet b \<noteq> [] \<or> bi_PredicateAtomCount b \<noteq> 0
      then Some PredicateWithoutV5
      else None)"

definition binding_fields :: "Binding \<Rightarrow> go_string list" where
  "binding_fields b = [bi_Version b, bi_TaskID b, bi_GrantDigest b, bi_AuthorizationDigest b, bi_TypedNormalForm b, bi_PlanDigest b,
     bi_CatalogDigest b, bi_SchemaDigest b, bi_DictionarySetDigest b, bi_ExposureProfile b, bi_CompilerVersion b,
     bi_OrderingVersion b, bi_PaginationVersion b, bi_ResultEncoding b]"

definition predicate_fields :: "Binding \<Rightarrow> go_string list" where
  "predicate_fields b = (if bi_ExposureProfile b = ProfileV5
     then [bi_PredicateProfile b, bi_PredicateContext b, bi_PredicateSet b, FormatInt (bi_PredicateAtomCount b)] else [])"

definition binding_preimage :: "Binding \<Rightarrow> byte list" where
  "binding_preimage b = keyDigestDomain @ frames (binding_fields b @ predicate_fields b)"

definition Binding_Digest :: "(byte list \<Rightarrow> byte list) \<Rightarrow> Binding \<Rightarrow> semantic_error + go_string" where
  "Binding_Digest sha256 raw =
     (let b = Binding_Normalize raw in
      case Binding_Validate b of Some err \<Rightarrow> Inl err | None \<Rightarrow> Inr (hex_encode (sha256 (binding_preimage b))))"

definition binding_framable :: "Binding \<Rightarrow> bool" where
  "binding_framable b \<longleftrightarrow> list_all framable (binding_fields b @ predicate_fields b)"

section \<open>Lemmas\<close>

lemma frame_string_Nil: "frame_string s \<noteq> []"
proof -
  have "length (frame_string s) = 8 + length (bytes_of s)" by (simp add: frame_string_def frame_def)
  then show ?thesis by auto
qed

lemma frames_determined:
  "list_all framable xs \<Longrightarrow> list_all framable ys \<Longrightarrow> frames xs = frames ys \<longleftrightarrow> xs = ys"
proof (induction xs arbitrary: ys)
  case Nil
  then show ?case using frame_string_Nil by (cases ys) (auto simp: frames_Cons)
next
  case (Cons x xs)
  then show ?case using frame_string_Nil by (cases ys) (auto simp: frame_string_append_inject)
qed

lemma Normalize_idem: "Binding_Normalize (Binding_Normalize b) = Binding_Normalize b"
  by (simp add: Binding_Normalize_def or_default_def KeyVersion_def CompilerV1_def OrderingV1_def PaginationV1_def)

lemma FormatInt_nonneg_inject: "0 \<le> m \<Longrightarrow> 0 \<le> n \<Longrightarrow> FormatInt m = FormatInt n \<longleftrightarrow> m = n"
  by (auto simp: FormatInt_def)

text \<open>The fields that are hashed determine a valid binding.\<close>

lemma fields_determine:
  assumes "Binding_Validate b = None" "Binding_Validate c = None" "Binding_Normalize b = b" "Binding_Normalize c = c"
  shows "binding_fields b @ predicate_fields b = binding_fields c @ predicate_fields c \<longleftrightarrow> b = c"
proof
  assume eq: "binding_fields b @ predicate_fields b = binding_fields c @ predicate_fields c"
  then have base: "binding_fields b = binding_fields c" and rest: "predicate_fields b = predicate_fields c"
    by (simp_all add: binding_fields_def)
  have profile: "bi_ExposureProfile b = bi_ExposureProfile c" using base by (simp add: binding_fields_def)
  have "bi_PredicateProfile b = bi_PredicateProfile c \<and> bi_PredicateContext b = bi_PredicateContext c \<and>
    bi_PredicateSet b = bi_PredicateSet c \<and> bi_PredicateAtomCount b = bi_PredicateAtomCount c"
  proof (cases "bi_ExposureProfile b = ProfileV5")
    case True
    then have "0 \<le> bi_PredicateAtomCount b" "0 \<le> bi_PredicateAtomCount c"
      using assms profile by (auto simp: Binding_Validate_def Let_def split: if_splits)
    with True rest profile show ?thesis by (simp add: predicate_fields_def FormatInt_nonneg_inject)
  next
    case False
    with assms profile show ?thesis by (auto simp: Binding_Validate_def Let_def split: if_splits)
  qed
  with base show "b = c" by (simp add: binding_fields_def)
qed simp

lemma Binding_Digest_Inr:
  "Binding_Digest sha256 b = Inr d \<longleftrightarrow> Binding_Validate (Binding_Normalize b) = None \<and> d = hex_encode (sha256 (binding_preimage (Binding_Normalize b)))"
  by (auto simp: Binding_Digest_def Let_def split: option.split)

section \<open>Properties\<close>

text \<open>
  C27: the replay key commits to every input. Two bindings that both have a key have the same key
  exactly when they are equal after the defaults are filled in, whatever the fields contain, unless
  the hash function collides on their two encodings: no committed result is found under the key of
  a query that differs in its task, grant, authorization, plan, catalog, schema, dictionaries,
  profile, versions, encoding or predicate evidence.
\<close>

theorem Binding_Digest_commits:
  assumes "Binding_Digest sha256 b = Inr d" and "Binding_Digest sha256 c = Inr e"
    and "binding_framable (Binding_Normalize b)" and "binding_framable (Binding_Normalize c)"
  shows "d = e \<longleftrightarrow> Binding_Normalize b = Binding_Normalize c \<or>
    collision sha256 (binding_preimage (Binding_Normalize b)) (binding_preimage (Binding_Normalize c))"
proof -
  let ?b = "Binding_Normalize b" and ?c = "Binding_Normalize c"
  have v: "Binding_Validate ?b = None" "Binding_Validate ?c = None" and d: "d = hex_encode (sha256 (binding_preimage ?b))" "e = hex_encode (sha256 (binding_preimage ?c))"
    using assms(1,2) by (simp_all add: Binding_Digest_Inr)
  have "binding_preimage ?b = binding_preimage ?c \<longleftrightarrow> ?b = ?c"
    using assms(3,4) fields_determine [OF v Normalize_idem Normalize_idem]
    by (simp add: binding_preimage_def binding_framable_def frames_determined del: list_all_append)
  then show ?thesis using hash_equal_iff [of "binding_preimage ?b" "binding_preimage ?c" sha256] by (simp add: d)
qed

definition sample_binding :: "go_string \<Rightarrow> Binding" where
  "sample_binding task = \<lparr>bi_Version = [], bi_TaskID = task, bi_GrantDigest = replicate 64 CHR ''a'', bi_AuthorizationDigest = replicate 64 CHR ''b'',
     bi_TypedNormalForm = ''n'', bi_PlanDigest = replicate 64 CHR ''c'', bi_CatalogDigest = replicate 64 CHR ''d'', bi_SchemaDigest = replicate 64 CHR ''e'',
     bi_DictionarySetDigest = replicate 64 CHR ''f'', bi_ExposureProfile = ProfileV4, bi_CompilerVersion = [], bi_OrderingVersion = [],
     bi_PaginationVersion = [], bi_ResultEncoding = [], bi_PredicateProfile = [], bi_PredicateContext = [], bi_PredicateSet = [], bi_PredicateAtomCount = 0\<rparr>"

theorem Binding_Digest_commits_witness:
  "\<exists>d e. Binding_Digest (\<lambda>bs. bs) (sample_binding ''t'') = Inr d \<and> Binding_Digest (\<lambda>bs. bs) (sample_binding ''u'') = Inr e \<and> d \<noteq> e"
proof -
  have v: "Binding_Validate (Binding_Normalize (sample_binding ''t'')) = None" "Binding_Validate (Binding_Normalize (sample_binding ''u'')) = None"
    and f: "binding_framable (Binding_Normalize (sample_binding ''t''))" "binding_framable (Binding_Normalize (sample_binding ''u''))"
    by code_simp+
  then obtain d e where de: "Binding_Digest (\<lambda>bs. bs) (sample_binding ''t'') = Inr d" "Binding_Digest (\<lambda>bs. bs) (sample_binding ''u'') = Inr e"
    by (simp add: Binding_Digest_Inr)
  moreover have "Binding_Normalize (sample_binding ''t'') \<noteq> Binding_Normalize (sample_binding ''u'')" by (simp add: Binding_Normalize_def sample_binding_def)
  ultimately show ?thesis using Binding_Digest_commits [OF de f] by (auto simp: collision_def)
qed

end
