(* ===== verification/Go_Time.thy ===== *)
theory Go_Time
  imports Go_JSON
begin

text \<open>
  What the sources use of Go's \<open>time\<close>: truncation to microseconds, which is what the
  control database stores, and the text of an instant in the layout \<open>time.RFC3339Nano\<close>,
  which goes into the hashes of the audit chain. The calendar is the proleptic Gregorian one; an
  instant is the number of nanoseconds since January 1, year 1, UTC, as in the prelude. The text
  determines the instant (\<open>RFC3339Nano_inject\<close>), so a hash of it commits to the instant.
\<close>

section \<open>Definitions\<close>

text \<open>\<open>t.UTC().Truncate(time.Microsecond)\<close>: rounds down to a multiple since the zero time.\<close>

definition Truncate_microsecond :: "go_time \<Rightarrow> go_time" where
  "Truncate_microsecond t = t - t mod 1000"

subsection \<open>Calendar\<close>

definition leap_year :: "nat \<Rightarrow> bool" where
  "leap_year y \<longleftrightarrow> y mod 4 = 0 \<and> (y mod 100 \<noteq> 0 \<or> y mod 400 = 0)"

definition year_days :: "nat \<Rightarrow> nat" where
  "year_days y = (if leap_year y then 366 else 365)"

definition month_days :: "nat \<Rightarrow> nat list" where
  "month_days y = [31, if leap_year y then 29 else 28, 31, 30, 31, 30, 31, 31, 30, 31, 30, 31]"

text \<open>The year, and the day of the year, of day number \<open>d\<close> counted from the first day of year \<open>y\<close>.\<close>

function split_years :: "nat \<Rightarrow> nat \<Rightarrow> nat \<times> nat" where
  "split_years y d = (if d < year_days y then (y, d) else split_years (y + 1) (d - year_days y))"
  by pat_completeness auto
termination
  by (relation "measure snd") (auto simp: year_days_def)

declare split_years.simps [simp del]

fun split_months :: "nat \<Rightarrow> nat list \<Rightarrow> nat \<Rightarrow> nat \<times> nat" where
  "split_months m [] d = (m, d)"
| "split_months m (l # ls) d = (if d < l then (m, d) else split_months (m + 1) ls (d - l))"

text \<open>
  Year, month and day of a day number, which counts from January 1 of year 1 and may be negative:
  400 years have 146097 days, and the calendar repeats after them.
\<close>

definition civil_date :: "int \<Rightarrow> int \<times> nat \<times> nat" where
  "civil_date day =
     (let (y, doy) = split_years 1 (nat (day mod 146097));
          (m, dom) = split_months 1 (month_days y) doy
      in (int y + 400 * (day div 146097), m, dom + 1))"

subsection \<open>Text\<close>

text \<open>\<open>appendInt(b, n, width)\<close> of package time, for a natural number.\<close>

definition padded :: "nat \<Rightarrow> nat \<Rightarrow> go_string" where
  "padded w n = replicate (w - length (decimal n)) CHR ''0'' @ decimal n"

definition year_text :: "int \<Rightarrow> go_string" where
  "year_text y = (if y < 0 then CHR ''-'' # padded 4 (nat (- y)) else padded 4 (nat y))"

text \<open>The fraction of the layout \<open>.999999999\<close>: nine digits without trailing zeros, nothing for zero.\<close>

definition fraction_text :: "nat \<Rightarrow> go_string" where
  "fraction_text ns =
     (let s = rev (dropWhile (\<lambda>c. c = CHR ''0'') (rev (padded 9 ns))) in if s = [] then [] else CHR ''.'' # s)"

definition clock_text :: "nat \<Rightarrow> go_string" where
  "clock_text s = padded 2 (s div 3600) @ '':'' @ padded 2 (s div 60 mod 60) @ '':'' @ padded 2 (s mod 60)"

definition RFC3339Nano :: "go_time \<Rightarrow> go_string" where
  "RFC3339Nano t =
     (let second = t div 1000000000; day = second div 86400; (y, m, d) = civil_date day
      in year_text y @ ''-'' @ padded 2 m @ ''-'' @ padded 2 d @ ''T'' @
         clock_text (nat (second mod 86400)) @ fraction_text (nat (t mod 1000000000)) @ ''Z'')"

section \<open>Lemmas\<close>

subsection \<open>The calendar loses nothing\<close>

lemma split_years_sum:
  "split_years y d = (y', r) \<Longrightarrow> y \<le> y' \<and> d = sum year_days {y..<y'} + r"
proof (induction y d arbitrary: y' r rule: split_years.induct)
  case (1 y d)
  show ?case
  proof (cases "d < year_days y")
    case True
    with "1.prems" show ?thesis by (simp add: split_years.simps [of y d])
  next
    case False
    with "1.prems" have "split_years (y + 1) (d - year_days y) = (y', r)" by (simp add: split_years.simps [of y d])
    then have "y + 1 \<le> y'" and "d - year_days y = sum year_days {y + 1..<y'} + r"
      using "1.IH" [OF False] by auto
    with False show ?thesis by (simp add: sum.atLeast_Suc_lessThan)
  qed
qed

lemma split_months_sum:
  "split_months m ls d = (m', r) \<Longrightarrow> m \<le> m' \<and> d = sum_list (take (m' - m) ls) + r"
proof (induction m ls d arbitrary: m' r rule: split_months.induct)
  case (2 m l ls d)
  show ?case
  proof (cases "d < l")
    case False
    with 2 have "m + 1 \<le> m'" and "d - l = sum_list (take (m' - (m + 1)) ls) + r" by auto
    moreover from this have "m' - m = Suc (m' - (m + 1))" by simp
    ultimately show ?thesis using False by simp
  qed (use 2 in simp)
qed simp

lemma split_years_inject: "split_years y d = split_years y e \<Longrightarrow> d = e"
  using split_years_sum [of y d "fst (split_years y d)" "snd (split_years y d)"]
    split_years_sum [of y e "fst (split_years y e)" "snd (split_years y e)"] by simp

lemma split_months_inject: "split_months m ls d = split_months m ls e \<Longrightarrow> d = e"
  using split_months_sum [of m ls d "fst (split_months m ls d)" "snd (split_months m ls d)"]
    split_months_sum [of m ls e "fst (split_months m ls e)" "snd (split_months m ls e)"] by simp

lemma cycle_days: "sum year_days {1..<401} = 146097"
  by code_simp

lemma split_years_cycle:
  assumes "d < 146097"
  shows "1 \<le> fst (split_years 1 d) \<and> fst (split_years 1 d) \<le> 400"
proof -
  obtain y r where y: "split_years 1 d = (y, r)" by (cases "split_years 1 d")
  have sum: "1 \<le> y" "d = sum year_days {1..<y} + r" using split_years_sum [OF y] by auto
  have "y \<le> 400"
  proof (rule ccontr)
    assume "\<not> y \<le> 400"
    then have "sum year_days {1..<401} \<le> sum year_days {1..<y}" by (intro sum_mono2) auto
    with sum assms cycle_days show False by linarith
  qed
  with y sum show ?thesis by simp
qed

lemma cycle_step:
  assumes "int y + 400 * p = int z + 400 * q"
  shows "1 \<le> y \<Longrightarrow> y \<le> 400 \<Longrightarrow> 1 \<le> z \<Longrightarrow> z \<le> 400 \<Longrightarrow> p = q"
  using assms by (cases p q rule: linorder_cases) linarith+

lemma civil_date_inject:
  assumes "civil_date d = civil_date e"
  shows "d = e"
proof -
  define u v where "u = nat (d mod 146097)" and "v = nat (e mod 146097)"
  define y z where "y = fst (split_years 1 u)" and "z = fst (split_years 1 v)"
  have "u < 146097" "v < 146097" unfolding u_def v_def by auto
  then have bounds: "1 \<le> y" "y \<le> 400" "1 \<le> z" "z \<le> 400"
    using split_years_cycle [of u] split_years_cycle [of v] unfolding y_def z_def by auto
  have year: "int y + 400 * (d div 146097) = int z + 400 * (e div 146097)"
    and rest: "split_months 1 (month_days y) (snd (split_years 1 u)) =
      split_months 1 (month_days z) (snd (split_years 1 v))"
    using assms unfolding civil_date_def u_def v_def y_def z_def
    by (auto simp: Let_def split_def prod_eq_iff)
  have cycle: "d div 146097 = e div 146097"
    using cycle_step [OF year] bounds by simp
  with year have "y = z" by simp
  with rest have "split_years 1 u = split_years 1 v"
    using split_months_inject unfolding y_def z_def by (metis prod.collapse)
  then have "u = v" by (rule split_years_inject)
  then have "d mod 146097 = e mod 146097" unfolding u_def v_def by (simp add: nat_eq_iff)
  with cycle show ?thesis by (metis mult_div_mod_eq)
qed

subsection \<open>Reading numbers back\<close>

definition digit_char :: "char \<Rightarrow> bool" where
  "digit_char c \<longleftrightarrow> CHR ''0'' \<le> c \<and> c \<le> CHR ''9''"

definition digits_value :: "go_string \<Rightarrow> nat" where
  "digits_value s = fold (\<lambda>c n. 10 * n + (of_char c - 48)) s 0"

lemma digit_char_of: "n < 10 \<Longrightarrow> digit_char (char_of (48 + n :: nat))"
  by (simp add: digit_char_def less_eq_char_def)

lemma digits_decimal: "list_all digit_char (decimal n)"
proof (induction n rule: decimal.induct)
  case (1 n)
  then show ?case by (subst decimal.simps) (auto simp: digit_char_of)
qed

lemma digits_value_decimal: "digits_value (decimal n) = n"
proof (induction n rule: decimal.induct)
  case (1 n)
  show ?case
  proof (cases "n < 10")
    case True
    then show ?thesis by (subst decimal.simps) (simp add: digits_value_def)
  next
    case False
    then have "digits_value (decimal n) = 10 * digits_value (decimal (n div 10)) + n mod 10"
      by (subst decimal.simps) (simp add: digits_value_def)
    with False 1 show ?thesis by simp
  qed
qed

lemma digits_value_zeros: "digits_value (replicate k CHR ''0'' @ s) = digits_value s"
  by (induction k) (simp_all add: digits_value_def)

lemma padded_inject [simp]: "padded w m = padded w n \<longleftrightarrow> m = n"
  by (metis digits_value_decimal digits_value_zeros padded_def)

lemma digits_padded: "list_all digit_char (padded w n)"
  by (auto simp: padded_def digits_decimal list_all_append) (simp add: list_all_iff digit_char_def less_eq_char_def)

text \<open>A run of digits is determined by what follows it, when that is not a digit.\<close>

lemma digits_split:
  assumes "list_all digit_char a" and "list_all digit_char b" and "\<not> digit_char c" and "\<not> digit_char d"
  shows "a @ c # u = b @ d # v \<longleftrightarrow> a = b \<and> c = d \<and> u = v"
proof
  assume eq: "a @ c # u = b @ d # v"
  have "takeWhile digit_char (a @ c # u) = a" "takeWhile digit_char (b @ d # v) = b"
    using assms by (simp_all add: takeWhile_append2 list_all_iff)
  with eq show "a = b \<and> c = d \<and> u = v" by auto
qed simp

subsection \<open>The text determines the instant\<close>

lemma year_text_split:
  "\<not> digit_char c \<Longrightarrow> year_text y @ c # u = year_text z @ c # v \<longleftrightarrow> y = z \<and> u = v"
proof -
  assume c: "\<not> digit_char c"
  have head: "CHR ''-'' # s \<noteq> padded 4 n @ t" for s n t
  proof -
    have "padded 4 n \<noteq> []" by (simp add: padded_def) (subst decimal.simps, simp)
    then obtain d ds where d: "padded 4 n = d # ds" by (cases "padded 4 n") auto
    then have "digit_char d" using digits_padded [of 4 n] by simp
    then have "d \<noteq> CHR ''-''" by (auto simp: digit_char_def less_eq_char_def)
    with d show ?thesis by simp
  qed
  have split: "padded 4 m @ c # u = padded 4 n @ c # v \<longleftrightarrow> m = n \<and> u = v" for m n
    using digits_split [OF digits_padded digits_padded c c] by simp
  show ?thesis
    using head head [symmetric] split by (auto simp: year_text_def nat_eq_iff split: if_splits)
qed

lemma padded_split:
  "\<not> digit_char c \<Longrightarrow> padded w m @ c # u = padded w n @ c # v \<longleftrightarrow> m = n \<and> u = v"
  using digits_split [OF digits_padded digits_padded] by simp

lemma length_decimal: "n < 10 ^ Suc w \<Longrightarrow> length (decimal n) \<le> Suc w"
proof (induction w arbitrary: n)
  case 0
  then show ?case by (subst decimal.simps) simp
next
  case (Suc w)
  then have "length (decimal (n div 10)) \<le> Suc w" by (simp add: div_less_iff_less_mult)
  then show ?case by (subst decimal.simps) simp
qed

lemma length_padded: "n < 10 ^ Suc w \<Longrightarrow> length (padded (Suc w) n) = Suc w"
  using length_decimal [of n w] by (simp add: padded_def)

lemma strip_zeros: "\<exists>k. s = rev (dropWhile (\<lambda>c. c = CHR ''0'') (rev s)) @ replicate k CHR ''0''"
proof (induction s rule: rev_induct)
  case (snoc c s)
  then obtain k where k: "s = rev (dropWhile (\<lambda>c. c = CHR ''0'') (rev s)) @ replicate k CHR ''0''" by blast
  show ?case
  proof (cases "c = CHR ''0''")
    case True
    then have "s @ [c] = rev (dropWhile (\<lambda>c. c = CHR ''0'') (rev (s @ [c]))) @ replicate (Suc k) CHR ''0''"
      using k by (simp add: replicate_append_same [symmetric])
    then show ?thesis by blast
  next
    case False
    then show ?thesis by (intro exI [of _ 0]) simp
  qed
qed simp

lemma same_fill: "\<exists>j. s = p @ replicate j z \<Longrightarrow> \<exists>k. t = p @ replicate k z \<Longrightarrow> length s = length t \<Longrightarrow> s = t"
  by auto

text \<open>Two numbers of the same width with the same digits before the trailing zeros are equal.\<close>

lemma fraction_inject:
  assumes "m < 1000000000" and "n < 1000000000" and "fraction_text m = fraction_text n"
  shows "m = n"
proof -
  define strip where "strip = (\<lambda>s. rev (dropWhile (\<lambda>c. c = CHR ''0'') (rev s)))"
  have "fraction_text k = (if strip (padded 9 k) = [] then [] else CHR ''.'' # strip (padded 9 k))" for k
    by (simp only: fraction_text_def strip_def Let_def)
  then have same: "strip (padded 9 m) = strip (padded 9 n)"
    using assms(3) by (auto split: if_splits)
  have fill: "\<exists>k. s = strip s @ replicate k CHR ''0''" for s
    unfolding strip_def by (rule strip_zeros)
  have "length (padded 9 m) = length (padded 9 n)"
    using length_padded [of m 8] length_padded [of n 8] assms by simp
  then have "padded 9 m = padded 9 n" by (rule same_fill [OF fill fill [of "padded 9 n", folded same]])
  then show ?thesis by simp
qed

lemma fraction_head: "\<exists>c s. fraction_text n @ ''Z'' = c # s \<and> \<not> digit_char c"
  by (auto simp: fraction_text_def Let_def digit_char_def less_eq_char_def)

lemma day_second: "a = 3600 * (a div 3600) + 60 * (a div 60 mod 60) + a mod (60 :: nat)"
proof -
  have "a div 3600 = a div 60 div 60" by (simp add: div_mult2_eq [symmetric])
  moreover have "60 * (a div 60 div 60) + a div 60 mod 60 = a div 60" and "60 * (a div 60) + a mod 60 = a"
    by (rule mult_div_mod_eq)+
  ultimately show ?thesis by linarith
qed

lemma clock_inject:
  assumes "clock_text a @ fraction_text m @ ''Z'' = clock_text b @ fraction_text n @ ''Z''"
    and "a < 86400" and "b < 86400" and "m < 1000000000" and "n < 1000000000"
  shows "a = b \<and> m = n"
proof -
  have colon: "\<not> digit_char CHR '':''" by (simp add: digit_char_def less_eq_char_def)
  obtain c s d t where cd: "fraction_text m @ ''Z'' = c # s" "fraction_text n @ ''Z'' = d # t" "\<not> digit_char c" "\<not> digit_char d"
    using fraction_head by metis
  have "a div 3600 = b div 3600" "a div 60 mod 60 = b div 60 mod 60"
    and rest: "padded 2 (a mod 60) @ c # s = padded 2 (b mod 60) @ d # t"
    using assms(1) cd(1,2) padded_split [OF colon] by (auto simp: clock_text_def)
  moreover from rest have "a mod 60 = b mod 60" and "c # s = d # t"
    using digits_split [OF digits_padded digits_padded cd(3,4), of 2 "a mod 60" s 2 "b mod 60" t] by auto
  ultimately have "a = b" "fraction_text m = fraction_text n"
    using cd(1,2) day_second [of a] day_second [of b] by (simp, metis append_same_eq)
  with fraction_inject assms show ?thesis by blast
qed

lemma RFC3339Nano_inject [simp]: "RFC3339Nano t = RFC3339Nano u \<longleftrightarrow> t = u"
proof
  assume eq: "RFC3339Nano t = RFC3339Nano u"
  obtain y m d where c: "civil_date (t div 1000000000 div 86400) = (y, m, d)"
    by (cases "civil_date (t div 1000000000 div 86400)") auto
  obtain y' m' d' where c': "civil_date (u div 1000000000 div 86400) = (y', m', d')"
    by (cases "civil_date (u div 1000000000 div 86400)") auto
  have dash: "\<not> digit_char CHR ''-''" and T: "\<not> digit_char CHR ''T''"
    by (simp_all add: digit_char_def less_eq_char_def)
  have date: "civil_date (t div 1000000000 div 86400) = civil_date (u div 1000000000 div 86400)"
    and clock: "clock_text (nat (t div 1000000000 mod 86400)) @ fraction_text (nat (t mod 1000000000)) @ ''Z'' =
      clock_text (nat (u div 1000000000 mod 86400)) @ fraction_text (nat (u mod 1000000000)) @ ''Z''"
    using eq year_text_split [OF dash] padded_split [OF dash] padded_split [OF T]
    unfolding RFC3339Nano_def Let_def c c' prod.case by auto
  have "nat (t div 1000000000 mod 86400) = nat (u div 1000000000 mod 86400)"
    and "nat (t mod 1000000000) = nat (u mod 1000000000)"
    using clock_inject [OF clock] by auto
  then have "t div 1000000000 mod 86400 = u div 1000000000 mod 86400" and ns: "t mod 1000000000 = u mod 1000000000"
    by (simp_all add: nat_eq_iff)
  then have "t div 1000000000 = u div 1000000000"
    using civil_date_inject [OF date] by (metis mult_div_mod_eq)
  with ns show "t = u" by (metis mult_div_mod_eq)
qed simp

text \<open>The text has digits, letters and punctuation only; in particular no quote.\<close>

definition time_char :: "char \<Rightarrow> bool" where
  "time_char c \<longleftrightarrow> digit_char c \<or> c \<in> {CHR ''-'', CHR '':'', CHR ''.'', CHR ''T'', CHR ''Z''}"

lemma time_chars_padded: "list_all time_char (padded w n)"
  using digits_padded [of w n] by (simp add: list_all_iff time_char_def)

lemma time_chars: "list_all time_char (RFC3339Nano t)"
proof -
  have "list_all time_char (fraction_text n)" for n
    using time_chars_padded [of 9 n]
    by (auto simp: fraction_text_def Let_def list_all_iff dest!: set_dropWhileD) (simp add: time_char_def)
  then show ?thesis
    by (auto simp: RFC3339Nano_def Let_def split_def year_text_def clock_text_def time_chars_padded)
      (simp_all add: time_char_def)
qed

lemma time_char_plain:
  "time_char c \<Longrightarrow> html_safe c \<and> of_char c < (0x80 :: nat)"
  by (auto simp: time_char_def digit_char_def html_safe_def char_in_def less_eq_char_def)

lemma json_chars_plain: "list_all (\<lambda>c. html_safe c \<and> of_char c < (0x80 :: nat)) s \<Longrightarrow> json_chars s = s"
  by (induction s) (auto simp: escape_ascii_def)

lemma json_string_time: "json_string (RFC3339Nano t) = [quote] @ RFC3339Nano t @ [quote]"
  using time_chars [of t] time_char_plain
  by (simp add: json_string_def json_chars_plain list_all_iff)

lemma quote_not_in_time: "quote \<notin> set (RFC3339Nano t)"
  using time_chars [of t] time_char_plain [of quote] by (auto simp: list_all_iff html_safe_def)

lemma Truncate_microsecond_idem [simp]: "Truncate_microsecond (Truncate_microsecond t) = Truncate_microsecond t"
  by (simp add: Truncate_microsecond_def minus_mod_eq_mult_div)

lemma Truncate_microsecond_mono: "t \<le> u \<Longrightarrow> Truncate_microsecond t \<le> Truncate_microsecond u"
  by (simp add: Truncate_microsecond_def minus_mod_eq_mult_div zdiv_mono1)

end
