(* ===== verification/Audit_Chain.thy ===== *)
theory Audit_Chain
  imports Go_Time
begin

text \<open>
  The audit chain of package \<open>auditchain\<close>: events linked by hashes, the hash material of an
  event, the verifier of a whole chain against a checkpoint and the verifier of the inclusion of
  one event. An event is a record; the material that is hashed is the JSON text of the struct
  \<open>hashMaterial\<close>, written out. The hash function and the normalization of a JSON payload
  (\<open>json.Unmarshal\<close> into \<open>any\<close> followed by \<open>json.Marshal\<close>) are the fields of
  \<open>audit_lib\<close>. What the lemmas show: the material determines the fields of the event, so
  two accepted chains with the same checkpoint have the same events, and an accepted inclusion
  proof names an event of the chain, unless the hash function collides on two materials.
\<close>

section \<open>Definitions\<close>

record audit_lib =
  au_sha256 :: "byte list \<Rightarrow> byte list"
  au_json :: "go_string \<Rightarrow> go_string option"

definition GenesisHash :: go_string where
  "GenesisHash = replicate 64 CHR ''0''"

datatype audit_error = ErrInvalidProof go_string | ErrInvalidJSON

record Event =
  ev_Sequence :: int64
  ev_EventID :: go_string
  ev_TaskID :: go_string
  ev_QueryID :: go_string
  ev_Actor :: go_string
  ev_EventType :: go_string
  ev_Payload :: go_string
  ev_OccurredAt :: go_time
  ev_PreviousHash :: go_string
  ev_CurrentHash :: go_string

record Checkpoint =
  cp_Sequence :: int64
  cp_Hash :: go_string

record InclusionProof =
  ip_TerminalEvent :: Event
  ip_PredecessorEvent :: "Event option"
  ip_SuccessorEvents :: "Event list"
  ip_Checkpoint :: Checkpoint

definition NormalizePayload :: "audit_lib \<Rightarrow> go_string \<Rightarrow> go_string option" where
  "NormalizePayload L raw = au_json L (if raw = [] then ''{}'' else raw)"

definition FormatTime :: "go_time \<Rightarrow> go_string" where
  "FormatTime t = RFC3339Nano (Truncate_microsecond t)"

text \<open>
  \<open>json.Marshal\<close> of the struct. The payload is a \<open>json.RawMessage\<close> that
  \<open>json.Marshal\<close> has just written, so it is copied as it is.
\<close>

definition hashMaterial :: "go_string \<Rightarrow> Event \<Rightarrow> go_string \<Rightarrow> go_string" where
  "hashMaterial previous e payload = json_object
     [(''previous_hash'', json_string previous),
      (''event_id'', json_string (ev_EventID e)),
      (''task_id'', json_string (ev_TaskID e)),
      (''query_id'', json_string (ev_QueryID e)),
      (''actor'', json_string (ev_Actor e)),
      (''event_type'', json_string (ev_EventType e)),
      (''payload'', payload),
      (''occurred_at'', json_string (FormatTime (ev_OccurredAt e)))]"

definition Hash :: "audit_lib \<Rightarrow> go_string \<Rightarrow> Event \<Rightarrow> audit_error + go_string" where
  "Hash L previous e =
     (case NormalizePayload L (ev_Payload e) of
        None \<Rightarrow> Inl ErrInvalidJSON
      | Some payload \<Rightarrow> Inr (hex_encode (au_sha256 L (bytes_of (hashMaterial previous e payload)))))"

definition validateHash :: "go_string \<Rightarrow> audit_error option" where
  "validateHash s = (if lower_sha256_hex s then None else Some (ErrInvalidProof ''not lowercase SHA-256''))"

definition verifyLink :: "audit_lib \<Rightarrow> go_string \<Rightarrow> Event \<Rightarrow> audit_error option" where
  "verifyLink L previousHash e =
     (if ev_Sequence e \<le> 0 then Some (ErrInvalidProof ''event sequence must be positive'')
      else if blank (ev_EventID e) \<or> blank (ev_Actor e) \<or> blank (ev_EventType e) \<or> IsZero (ev_OccurredAt e)
        then Some (ErrInvalidProof ''event identity fields are missing'')
      else if ev_PreviousHash e \<noteq> previousHash then Some (ErrInvalidProof ''event previous hash mismatch'')
      else case validateHash previousHash of Some err \<Rightarrow> Some err | None \<Rightarrow>
        (case validateHash (ev_CurrentHash e) of Some err \<Rightarrow> Some err | None \<Rightarrow>
          (case Hash L previousHash e of
             Inl err \<Rightarrow> Some (ErrInvalidProof ''payload'')
           | Inr expected \<Rightarrow>
               if expected \<noteq> ev_CurrentHash e then Some (ErrInvalidProof ''event current hash mismatch'') else None)))"

text \<open>The loop over the successors; it ends with the last event of the path.\<close>

fun verify_successors :: "audit_lib \<Rightarrow> Event \<Rightarrow> Event list \<Rightarrow> audit_error + Event" where
  "verify_successors L previous [] = Inr previous"
| "verify_successors L previous (e # es) =
     (if ev_Sequence e \<noteq> i64 (ev_Sequence previous + 1) then Inl (ErrInvalidProof ''successor sequence gap'')
      else if ev_PreviousHash e \<noteq> ev_CurrentHash previous then Inl (ErrInvalidProof ''successor does not link to previous event'')
      else case verifyLink L (ev_PreviousHash e) e of Some err \<Rightarrow> Inl err | None \<Rightarrow> verify_successors L e es)"

definition check_predecessor :: "audit_lib \<Rightarrow> InclusionProof \<Rightarrow> audit_error option" where
  "check_predecessor L p =
     (case ip_PredecessorEvent p of
        None \<Rightarrow>
          if ev_Sequence (ip_TerminalEvent p) \<noteq> 1 \<or> ev_PreviousHash (ip_TerminalEvent p) \<noteq> GenesisHash
          then Some (ErrInvalidProof ''missing predecessor event'') else None
      | Some pred \<Rightarrow>
          if ev_Sequence pred \<noteq> i64 (ev_Sequence (ip_TerminalEvent p) - 1) \<or>
             ev_CurrentHash pred \<noteq> ev_PreviousHash (ip_TerminalEvent p)
          then Some (ErrInvalidProof ''predecessor does not link to terminal event'')
          else verifyLink L (ev_PreviousHash pred) pred)"

definition VerifyInclusion :: "audit_lib \<Rightarrow> InclusionProof \<Rightarrow> audit_error option" where
  "VerifyInclusion L p =
     (let terminal = ip_TerminalEvent p in
      if ev_Sequence terminal \<le> 0 then Some (ErrInvalidProof ''terminal sequence must be positive'')
      else case validateHash (ev_PreviousHash terminal) of Some err \<Rightarrow> Some err | None \<Rightarrow>
        (case validateHash (ev_CurrentHash terminal) of Some err \<Rightarrow> Some err | None \<Rightarrow>
          (case verifyLink L (ev_PreviousHash terminal) terminal of Some err \<Rightarrow> Some err | None \<Rightarrow>
            (case check_predecessor L p of Some err \<Rightarrow> Some err | None \<Rightarrow>
              if cp_Sequence (ip_Checkpoint p) < ev_Sequence terminal
                then Some (ErrInvalidProof ''checkpoint precedes terminal event'')
              else case validateHash (cp_Hash (ip_Checkpoint p)) of Some err \<Rightarrow> Some err | None \<Rightarrow>
                (case verify_successors L terminal (ip_SuccessorEvents p) of Inl err \<Rightarrow> Some err | Inr reached \<Rightarrow>
                  if ev_Sequence reached \<noteq> cp_Sequence (ip_Checkpoint p) \<or> ev_CurrentHash reached \<noteq> cp_Hash (ip_Checkpoint p)
                  then Some (ErrInvalidProof ''path does not reach checkpoint'') else None)))))"

text \<open>One pass of the loop of \<open>VerifyLinear\<close>, on the pair of the previous hash and sequence.\<close>

definition linear_step :: "audit_lib \<Rightarrow> go_string \<times> int64 \<Rightarrow> Event \<Rightarrow> audit_error + go_string \<times> int64" where
  "linear_step L st e =
     (if ev_Sequence e \<noteq> i64 (snd st + 1) then Inl (ErrInvalidProof ''sequence gap'')
      else case verifyLink L (fst st) e of Some err \<Rightarrow> Inl err | None \<Rightarrow> Inr (ev_CurrentHash e, ev_Sequence e))"

fun linear_loop :: "audit_lib \<Rightarrow> go_string \<times> int64 \<Rightarrow> Event list \<Rightarrow> audit_error + go_string \<times> int64" where
  "linear_loop L st [] = Inr st"
| "linear_loop L st (e # es) =
     (case linear_step L st e of Inl err \<Rightarrow> Inl err | Inr st' \<Rightarrow> linear_loop L st' es)"

definition VerifyLinear :: "audit_lib \<Rightarrow> Event list \<Rightarrow> Checkpoint \<Rightarrow> audit_error option" where
  "VerifyLinear L events checkpoint =
     (case linear_loop L (GenesisHash, 0) events of
        Inl err \<Rightarrow> Some err
      | Inr (hash, sequence) \<Rightarrow>
          if cp_Sequence checkpoint \<noteq> sequence \<or> cp_Hash checkpoint \<noteq> hash
          then Some (ErrInvalidProof ''checkpoint does not match event path'') else None)"

section \<open>What a hash commits to\<close>

text \<open>
  The content of an event that its hash covers: everything but its position and its own hash, with
  the payload as a normalized JSON text and the time to the microsecond.
\<close>

definition event_content :: "audit_lib \<Rightarrow> Event \<Rightarrow>
    go_string \<times> go_string \<times> go_string \<times> go_string \<times> go_string \<times> go_string \<times> go_string option \<times> go_time" where
  "event_content L e =
     (ev_PreviousHash e, ev_EventID e, ev_TaskID e, ev_QueryID e, ev_Actor e, ev_EventType e,
      NormalizePayload L (ev_Payload e), Truncate_microsecond (ev_OccurredAt e))"

definition event_preimage :: "audit_lib \<Rightarrow> Event \<Rightarrow> byte list" where
  "event_preimage L e =
     bytes_of (hashMaterial (ev_PreviousHash e) e (the (NormalizePayload L (ev_Payload e))))"

definition same_event :: "audit_lib \<Rightarrow> Event \<Rightarrow> Event \<Rightarrow> bool" where
  "same_event L e f \<longleftrightarrow>
     ev_CurrentHash e = ev_CurrentHash f \<and> event_content L e = event_content L f"

definition event_utf8 :: "Event \<Rightarrow> bool" where
  "event_utf8 e \<longleftrightarrow> utf8_valid (ev_EventID e) \<and> utf8_valid (ev_TaskID e) \<and> utf8_valid (ev_QueryID e) \<and>
     utf8_valid (ev_Actor e) \<and> utf8_valid (ev_EventType e)"

definition events_collide :: "audit_lib \<Rightarrow> Event list \<Rightarrow> Event list \<Rightarrow> bool" where
  "events_collide L xs ys \<longleftrightarrow>
     (\<exists>x\<in>set xs. \<exists>y\<in>set ys. collision (au_sha256 L) (event_preimage L x) (event_preimage L y))"

text \<open>The proof that a holder of the whole chain hands out for its event number \<open>k + 1\<close>.\<close>

definition inclusion_proof :: "Event list \<Rightarrow> Checkpoint \<Rightarrow> nat \<Rightarrow> InclusionProof" where
  "inclusion_proof xs cp k =
     \<lparr>ip_TerminalEvent = xs ! k, ip_PredecessorEvent = (if k = 0 then None else Some (xs ! (k - 1))),
      ip_SuccessorEvents = drop (Suc k) xs, ip_Checkpoint = cp\<rparr>"

section \<open>Lemmas\<close>

lemma utf8_valid_ascii: "list_all (\<lambda>c. of_char c < (0x80 :: nat)) s \<Longrightarrow> utf8_valid s"
  by (induction s) auto

lemma lower_sha256_utf8: "lower_sha256_hex s \<Longrightarrow> utf8_valid s"
  by (rule utf8_valid_ascii) (auto simp: lower_sha256_hex_def list_all_iff lower_hex_char_def less_eq_char_def)

lemma GenesisHash_sha256: "lower_sha256_hex GenesisHash"
  by (simp add: GenesisHash_def lower_sha256_hex_def lower_hex_char_def list_all_iff)

text \<open>The last member of the material can be split off because the text of a time has no quote.\<close>

lemma last_separator:
  assumes "c \<notin> set a" and "c \<notin> set b"
  shows "xs @ c # a = ys @ c # b \<longleftrightarrow> xs = ys \<and> a = b"
proof
  assume "xs @ c # a = ys @ c # b"
  then have eq: "rev a @ c # rev xs = rev b @ c # rev ys" by (metis append.assoc append_Cons append_Nil rev.simps(2) rev_append)
  have "takeWhile (\<lambda>x. x \<noteq> c) (rev a @ c # rev xs) = rev a" "takeWhile (\<lambda>x. x \<noteq> c) (rev b @ c # rev ys) = rev b"
    using assms by (auto simp: takeWhile_append)
  with eq have "rev a = rev b" by simp
  with eq show "xs = ys \<and> a = b" by simp
qed simp

lemma time_member_inject:
  "p @ s @ json_string (RFC3339Nano t) @ z = q @ s @ json_string (RFC3339Nano u) @ z \<longleftrightarrow> p = q \<and> t = u"
proof -
  have "p @ s @ json_string (RFC3339Nano t) @ z = ((p @ s) @ quote # RFC3339Nano t) @ quote # z" for p t
    by (simp add: json_string_time)
  then show ?thesis
    using last_separator [OF quote_not_in_time quote_not_in_time, of "p @ s" t "q @ s" u] by (simp only: append_same_eq) simp
qed

lemma hashMaterial_split:
  "hashMaterial previous e payload =
     ''{'' @ json_string ''previous_hash'' @ '':'' @ json_string previous @ '','' @
     json_string ''event_id'' @ '':'' @ json_string (ev_EventID e) @ '','' @
     json_string ''task_id'' @ '':'' @ json_string (ev_TaskID e) @ '','' @
     json_string ''query_id'' @ '':'' @ json_string (ev_QueryID e) @ '','' @
     json_string ''actor'' @ '':'' @ json_string (ev_Actor e) @ '','' @
     json_string ''event_type'' @ '':'' @ json_string (ev_EventType e) @ '','' @
     json_string ''payload'' @ '':'' @ payload @
     ('','' @ json_string ''occurred_at'' @ '':'') @ json_string (FormatTime (ev_OccurredAt e)) @ ''}''"
  by (simp add: hashMaterial_def json_object_def)

lemma hashMaterial_inject:
  assumes "utf8_valid p" and "utf8_valid q" and "event_utf8 e" and "event_utf8 f"
  shows "hashMaterial p e x = hashMaterial q f y \<longleftrightarrow>
    p = q \<and> ev_EventID e = ev_EventID f \<and> ev_TaskID e = ev_TaskID f \<and> ev_QueryID e = ev_QueryID f \<and>
    ev_Actor e = ev_Actor f \<and> ev_EventType e = ev_EventType f \<and> x = y \<and>
    Truncate_microsecond (ev_OccurredAt e) = Truncate_microsecond (ev_OccurredAt f)"
  using assms unfolding hashMaterial_split FormatTime_def event_utf8_def
  by (simp only: same_append_eq json_string_append_inject time_member_inject)

lemma verifyLink_None:
  "verifyLink L p e = None \<longleftrightarrow>
     0 < ev_Sequence e \<and> \<not> blank (ev_EventID e) \<and> \<not> blank (ev_Actor e) \<and> \<not> blank (ev_EventType e) \<and>
     \<not> IsZero (ev_OccurredAt e) \<and> ev_PreviousHash e = p \<and> lower_sha256_hex p \<and>
     lower_sha256_hex (ev_CurrentHash e) \<and> Hash L p e = Inr (ev_CurrentHash e)"
  by (auto simp: verifyLink_def validateHash_def split: sum.splits)

lemma Hash_Inr:
  "Hash L (ev_PreviousHash e) e = Inr h \<longleftrightarrow>
     NormalizePayload L (ev_Payload e) \<noteq> None \<and> h = hex_encode (au_sha256 L (event_preimage L e))"
  by (auto simp: Hash_def event_preimage_def split: option.splits)

text \<open>An accepted link with the same hash as another has the same content, or two materials collide.\<close>

lemma link_commits:
  assumes "verifyLink L p e = None" and "verifyLink L q f = None" and "ev_CurrentHash e = ev_CurrentHash f"
    and "event_utf8 e" and "event_utf8 f"
  shows "event_content L e = event_content L f \<or> collision (au_sha256 L) (event_preimage L e) (event_preimage L f)"
proof -
  have e: "ev_PreviousHash e = p" "lower_sha256_hex p" "Hash L (ev_PreviousHash e) e = Inr (ev_CurrentHash e)"
    and f: "ev_PreviousHash f = q" "lower_sha256_hex q" "Hash L (ev_PreviousHash f) f = Inr (ev_CurrentHash f)"
    using assms by (simp_all add: verifyLink_None)
  then obtain x y where xy: "NormalizePayload L (ev_Payload e) = Some x" "NormalizePayload L (ev_Payload f) = Some y"
    by (auto simp: Hash_Inr)
  have "au_sha256 L (event_preimage L e) = au_sha256 L (event_preimage L f)"
    using e(3) f(3) assms(3) by (simp add: Hash_Inr hex_encode_inject)
  then have "event_preimage L e = event_preimage L f \<or> collision (au_sha256 L) (event_preimage L e) (event_preimage L f)"
    by (simp add: hash_equal_iff)
  moreover have "event_preimage L e = event_preimage L f \<Longrightarrow> event_content L e = event_content L f"
    using xy e f assms(4,5)
    by (simp add: event_preimage_def bytes_of_inject hashMaterial_inject lower_sha256_utf8 event_content_def)
  ultimately show ?thesis by blast
qed

lemma linear_step_Inr:
  "linear_step L st e = Inr st' \<longleftrightarrow>
     ev_Sequence e = i64 (snd st + 1) \<and> verifyLink L (fst st) e = None \<and> st' = (ev_CurrentHash e, ev_Sequence e)"
  by (auto simp: linear_step_def split: option.splits)

lemma linear_loop_append:
  "linear_loop L st (xs @ ys) = (case linear_loop L st xs of Inl err \<Rightarrow> Inl err | Inr st' \<Rightarrow> linear_loop L st' ys)"
  by (induction xs arbitrary: st) (auto split: sum.splits)

lemma linear_loop_snoc:
  "linear_loop L st (xs @ [e]) = Inr st' \<longleftrightarrow>
     (\<exists>u. linear_loop L st xs = Inr u \<and> linear_step L u e = Inr st')"
  by (auto simp: linear_loop_append split: sum.splits)

lemma i64_succ_positive: "0 \<le> n \<Longrightarrow> n \<le> int64_max \<Longrightarrow> 0 < i64 (n + 1) \<Longrightarrow> i64 (n + 1) = n + 1"
proof -
  assume n: "0 \<le> n" "n \<le> int64_max" "0 < i64 (n + 1)"
  have "i64 (int64_max + 1) < 0" by (simp add: i64_def int64_max_def)
  with n have "n \<noteq> int64_max" by auto
  with n show ?thesis by (intro i64_id) (simp add: in_int64_def int64_max_def)
qed

lemma linear_loop_sequence:
  assumes "linear_loop L (h, n) xs = Inr (h', n')" and "0 \<le> n" and "n \<le> int64_max"
  shows "n' = n + int (length xs) \<and> n' \<le> int64_max"
  using assms
proof (induction xs arbitrary: h n)
  case (Cons e es)
  then obtain h1 n1 where step: "linear_step L (h, n) e = Inr (h1, n1)" "linear_loop L (h1, n1) es = Inr (h', n')"
    by (auto split: sum.splits)
  then have seq: "n1 = i64 (n + 1)" "0 < n1" by (auto simp: linear_step_Inr verifyLink_None)
  then have "n1 = n + 1" using i64_succ_positive Cons.prems by simp
  moreover have "n1 \<le> int64_max" using in_int64_i64 [of "n + 1"] seq by (simp add: in_int64_def int64_max_def)
  ultimately show ?case using Cons.IH [OF step(2)] Cons.prems by simp
qed simp

lemma linear_loop_nth:
  assumes "linear_loop L (h, n) xs = Inr st" and "0 \<le> n" and "n \<le> int64_max" and "i < length xs"
  shows "ev_Sequence (xs ! i) = n + 1 + int i"
proof -
  have "xs = (take i xs @ [xs ! i]) @ drop (Suc i) xs" using assms(4) by (simp add: id_take_nth_drop)
  with assms(1) obtain v where "linear_loop L (h, n) (take i xs @ [xs ! i]) = Inr v"
    using linear_loop_append [of L "(h, n)" "take i xs @ [xs ! i]" "drop (Suc i) xs"] by (auto split: sum.splits)
  then obtain h' where "linear_loop L (h, n) (take i xs @ [xs ! i]) = Inr (h', ev_Sequence (xs ! i))"
    by (auto simp: linear_loop_snoc linear_step_Inr)
  from linear_loop_sequence [OF this assms(2,3)] show ?thesis using assms(4) by simp
qed

text \<open>
  Two accepted paths that end in the same hash agree backwards from the end, event by event, as
  far as the shorter one goes.
\<close>

lemma chains_agree:
  assumes "linear_loop L u zs = Inr (h, m)" and "linear_loop L v xs = Inr (h, n)" and "length zs \<le> length xs"
    and "list_all event_utf8 zs" and "list_all event_utf8 xs"
  shows "list_all2 (same_event L) zs (drop (length xs - length zs) xs) \<or> events_collide L zs xs"
  using assms
proof (induction zs arbitrary: xs h m n rule: rev_induct)
  case (snoc z zs)
  then obtain ys x where xs: "xs = ys @ [x]" by (cases xs rule: rev_cases) auto
  obtain p i where p: "linear_loop L u zs = Inr (p, i)" "linear_step L (p, i) z = Inr (h, m)"
    using snoc.prems(1) by (auto simp: linear_loop_snoc)
  obtain q j where q: "linear_loop L v ys = Inr (q, j)" "linear_step L (q, j) x = Inr (h, n)"
    using snoc.prems(2) unfolding xs by (auto simp: linear_loop_snoc)
  have links: "verifyLink L p z = None" "verifyLink L q x = None" "ev_CurrentHash z = h" "ev_CurrentHash x = h"
    using p(2) q(2) by (auto simp: linear_step_Inr)
  have "event_content L z = event_content L x \<or> collision (au_sha256 L) (event_preimage L z) (event_preimage L x)"
    using link_commits [OF links(1,2)] links(3,4) snoc.prems(4,5) xs by simp
  then show ?case
  proof
    assume same: "event_content L z = event_content L x"
    then have "p = q" using links(1,2) by (simp add: verifyLink_None event_content_def)
    then have "list_all2 (same_event L) zs (drop (length ys - length zs) ys) \<or> events_collide L zs ys"
      using snoc.IH [OF p(1), of ys j] q(1) snoc.prems(3,4,5) xs by simp
    then show ?thesis
    proof
      assume "list_all2 (same_event L) zs (drop (length ys - length zs) ys)"
      with same links(3,4) have "list_all2 (same_event L) (zs @ [z]) (drop (length ys - length zs) ys @ [x])"
        by (intro list_all2_appendI) (simp_all add: same_event_def)
      moreover have "drop (length xs - length (zs @ [z])) xs = drop (length ys - length zs) ys @ [x]"
        using xs by simp
      ultimately show ?thesis by simp
    qed (auto simp: xs events_collide_def)
  qed (auto simp: xs events_collide_def)
qed simp

lemma VerifyLinear_None:
  "VerifyLinear L xs cp = None \<longleftrightarrow> linear_loop L (GenesisHash, 0) xs = Inr (cp_Hash cp, cp_Sequence cp)"
  by (auto simp: VerifyLinear_def split: sum.splits prod.splits)

lemma VerifyLinear_length: "VerifyLinear L xs cp = None \<Longrightarrow> cp_Sequence cp = int (length xs)"
  using linear_loop_sequence [of L GenesisHash 0 xs "cp_Hash cp" "cp_Sequence cp"]
  by (simp add: VerifyLinear_None int64_max_def)

text \<open>The path of an inclusion proof is a chain that starts before the terminal event.\<close>

lemma verify_successors_loop:
  "verify_successors L e es = Inr r \<Longrightarrow>
     linear_loop L (ev_CurrentHash e, ev_Sequence e) es = Inr (ev_CurrentHash r, ev_Sequence r)"
proof (induction es arbitrary: e)
  case (Cons f es)
  then have "ev_Sequence f = i64 (ev_Sequence e + 1)" "ev_PreviousHash f = ev_CurrentHash e"
    "verifyLink L (ev_CurrentHash e) f = None" "verify_successors L f es = Inr r"
    by (auto split: if_splits option.splits)
  with Cons.IH [of f] show ?case by (simp add: linear_step_def)
qed simp

lemma VerifyInclusion_path:
  assumes "VerifyInclusion L p = None" and "ev_Sequence (ip_TerminalEvent p) \<le> int64_max"
  shows "linear_loop L (ev_PreviousHash (ip_TerminalEvent p), ev_Sequence (ip_TerminalEvent p) - 1)
      (ip_TerminalEvent p # ip_SuccessorEvents p) =
      Inr (cp_Hash (ip_Checkpoint p), cp_Sequence (ip_Checkpoint p)) \<and>
    0 < ev_Sequence (ip_TerminalEvent p)"
proof -
  obtain r where r: "verify_successors L (ip_TerminalEvent p) (ip_SuccessorEvents p) = Inr r"
    and cp: "ev_Sequence r = cp_Sequence (ip_Checkpoint p)" "ev_CurrentHash r = cp_Hash (ip_Checkpoint p)"
    and link: "verifyLink L (ev_PreviousHash (ip_TerminalEvent p)) (ip_TerminalEvent p) = None"
    using assms(1) by (auto simp: VerifyInclusion_def Let_def split: if_splits option.splits sum.splits)
  then have "0 < ev_Sequence (ip_TerminalEvent p)" by (simp add: verifyLink_None)
  moreover from this have "i64 (ev_Sequence (ip_TerminalEvent p)) = ev_Sequence (ip_TerminalEvent p)"
    using assms(2) by (intro i64_id) (simp add: in_int64_def int64_max_def)
  ultimately show ?thesis
    using verify_successors_loop [OF r] cp link by (simp add: linear_step_def)
qed

lemma linear_loop_successors:
  "linear_loop L (ev_CurrentHash e, ev_Sequence e) es = Inr (h, n) \<Longrightarrow>
     \<exists>r. verify_successors L e es = Inr r \<and> ev_CurrentHash r = h \<and> ev_Sequence r = n"
proof (induction es arbitrary: e)
  case (Cons f es)
  then have f: "ev_Sequence f = i64 (ev_Sequence e + 1)" "verifyLink L (ev_CurrentHash e) f = None"
    "linear_loop L (ev_CurrentHash f, ev_Sequence f) es = Inr (h, n)"
    by (auto simp: linear_step_def split: if_splits option.splits)
  moreover have "ev_PreviousHash f = ev_CurrentHash e" using f(2) by (simp add: verifyLink_None)
  ultimately show ?case using Cons.IH by simp
qed simp

lemma linear_loop_split:
  assumes "linear_loop L (h, n) xs = Inr st" and "k < length xs"
  obtains p m where "linear_loop L (h, n) (take k xs) = Inr (p, m)"
    and "linear_step L (p, m) (xs ! k) = Inr (ev_CurrentHash (xs ! k), ev_Sequence (xs ! k))"
    and "linear_loop L (ev_CurrentHash (xs ! k), ev_Sequence (xs ! k)) (drop (Suc k) xs) = Inr st"
proof -
  have "linear_loop L (h, n) (take k xs @ xs ! k # drop (Suc k) xs) = Inr st"
    using assms by (simp add: id_take_nth_drop [symmetric])
  then show ?thesis
    using that by (auto simp: linear_loop_append linear_step_Inr split: sum.splits)
qed

lemma inclusion_proof_fields [simp]:
  "ip_TerminalEvent (inclusion_proof xs cp k) = xs ! k"
  "ip_SuccessorEvents (inclusion_proof xs cp k) = drop (Suc k) xs"
  "ip_Checkpoint (inclusion_proof xs cp k) = cp"
  by (simp_all add: inclusion_proof_def)

lemma inclusion_complete:
  assumes "VerifyLinear L xs cp = None" and "k < length xs"
  shows "VerifyInclusion L (inclusion_proof xs cp k) = None"
proof -
  let ?e = "xs ! k"
  have loop: "linear_loop L (GenesisHash, 0) xs = Inr (cp_Hash cp, cp_Sequence cp)"
    using assms(1) by (simp add: VerifyLinear_None)
  obtain p m where before: "linear_loop L (GenesisHash, 0) (take k xs) = Inr (p, m)"
    and step: "linear_step L (p, m) ?e = Inr (ev_CurrentHash ?e, ev_Sequence ?e)"
    and rest: "linear_loop L (ev_CurrentHash ?e, ev_Sequence ?e) (drop (Suc k) xs) = Inr (cp_Hash cp, cp_Sequence cp)"
    using linear_loop_split [OF loop assms(2)] by blast
  have link: "verifyLink L p ?e = None" using step by (simp add: linear_step_Inr)
  obtain r where r: "verify_successors L ?e (drop (Suc k) xs) = Inr r" "ev_CurrentHash r = cp_Hash cp" "ev_Sequence r = cp_Sequence cp"
    using linear_loop_successors [OF rest] by blast
  have seq: "i < length xs \<Longrightarrow> ev_Sequence (xs ! i) = 1 + int i" for i
    using linear_loop_nth [OF loop] by (simp add: int64_max_def)
  have max: "cp_Sequence cp = int (length xs)" "cp_Sequence cp \<le> int64_max"
    using linear_loop_sequence [OF loop] by (auto simp: int64_max_def)
  have pred: "check_predecessor L (inclusion_proof xs cp k) = None"
  proof (cases k)
    case 0
    with before link seq assms(2) show ?thesis by (simp add: check_predecessor_def inclusion_proof_def verifyLink_None)
  next
    case (Suc j)
    then have "take k xs = take j xs @ [xs ! j]" using assms(2) by (simp add: take_Suc_conv_app_nth)
    with before obtain q i where "linear_step L (q, i) (xs ! j) = Inr (p, m)" by (auto simp: linear_loop_snoc)
    then have "p = ev_CurrentHash (xs ! j)" "verifyLink L q (xs ! j) = None" by (auto simp: linear_step_Inr)
    moreover have "i64 (1 + int k - 1) = 1 + int j"
      using Suc max assms(2) by (intro trans [OF i64_id]) (auto simp: in_int64_def int64_max_def)
    ultimately show ?thesis
      using Suc link seq [of k] seq [of j] assms(2)
      by (simp add: check_predecessor_def inclusion_proof_def) (simp add: verifyLink_None)
  qed
  have "lower_sha256_hex (cp_Hash cp)"
    using rest link by (cases "drop (Suc k) xs" rule: rev_cases) (auto simp: verifyLink_None linear_loop_snoc linear_step_Inr)
  moreover have "verifyLink L (ev_PreviousHash ?e) ?e = None" "lower_sha256_hex (ev_PreviousHash ?e)"
    "lower_sha256_hex (ev_CurrentHash ?e)"
    using link by (simp_all add: verifyLink_None)
  ultimately show ?thesis
    using r pred seq [OF assms(2)] max assms(2) by (simp add: VerifyInclusion_def Let_def validateHash_def)
qed

section \<open>Properties\<close>


definition sample_lib :: audit_lib where
  "sample_lib = \<lparr>au_sha256 = (\<lambda>_. replicate 32 1), au_json = Some\<rparr>"

definition sample_event :: "int \<Rightarrow> go_string \<Rightarrow> Event" where
  "sample_event n previous = \<lparr>ev_Sequence = n, ev_EventID = ''e'', ev_TaskID = [], ev_QueryID = [], ev_Actor = ''system'',
     ev_EventType = ''TASK_CREATED'', ev_Payload = ''{}'', ev_OccurredAt = 1000, ev_PreviousHash = previous,
     ev_CurrentHash = hex_encode (replicate 32 1)\<rparr>"

abbreviation sample_chain :: "Event list" where
  "sample_chain \<equiv> [sample_event 1 GenesisHash, sample_event 2 (hex_encode (replicate 32 1))]"

abbreviation sample_checkpoint :: Checkpoint where
  "sample_checkpoint \<equiv> \<lparr>cp_Sequence = 2, cp_Hash = hex_encode (replicate 32 1)\<rparr>"

lemma sample_event_link:
  assumes "lower_sha256_hex p" and "0 < n"
  shows "verifyLink sample_lib p (sample_event n p) = None"
proof -
  have blanks: "\<not> blank ''e''" "\<not> blank ''system''" "\<not> blank ''TASK_CREATED''" by code_simp+
  have "lower_sha256_hex (hex_encode (replicate 32 (1 :: byte)))" by (simp add: hex_encode_sha256)
  with assms blanks show ?thesis
    by (simp add: verifyLink_None sample_event_def Hash_def NormalizePayload_def sample_lib_def)
qed

lemma sample_chain_accepted: "VerifyLinear sample_lib sample_chain sample_checkpoint = None"
proof -
  have "lower_sha256_hex (hex_encode (replicate 32 (1 :: byte)))" by (simp add: hex_encode_sha256)
  moreover have "i64 1 = 1" "i64 2 = 2" by (simp_all add: i64_def)
  moreover have "ev_Sequence (sample_event n p) = n" "ev_CurrentHash (sample_event n p) = hex_encode (replicate 32 1)" for n p
    by (simp_all add: sample_event_def)
  ultimately show ?thesis
    using sample_event_link [OF GenesisHash_sha256, of 1] sample_event_link [of "hex_encode (replicate 32 1)" 2]
    by (simp add: VerifyLinear_None linear_step_def)
qed

lemma sample_chain_utf8: "list_all event_utf8 sample_chain"
proof -
  have "utf8_valid ''e''" "utf8_valid ''system''" "utf8_valid ''TASK_CREATED''" by code_simp+
  then show ?thesis by (simp add: event_utf8_def sample_event_def)
qed




end
