(* ===== verification/View_Binding.thy ===== *)
theory View_Binding
  imports Go_JSON
begin

text \<open>
  The semantic contract of the views of a task (package \<open>viewbinding\<close>): a list of product
  contracts is validated, sorted by product and hashed. The digest is what an approval signs and
  what every query is compared with, so it has to commit to the contracts and to nothing else.
  \<open>New\<close> and \<open>Set\<close> of the package are \<open>View_New\<close> and \<open>View_Set\<close> here; the hash
  function of \<open>crypto/sha256\<close> is an argument.
\<close>

section \<open>Definitions\<close>

abbreviation View_Version :: go_string where
  "View_Version \<equiv> ''taskgate-task-view-binding-v1''"

abbreviation view_digestDomain :: go_string where
  "view_digestDomain \<equiv> ''TASKGATE-TASK-VIEW-BINDING-V1'' @ [CHR 0x00]"

record ProductContract =
  pc_Product :: go_string
  pc_CanonicalPlanDigest :: go_string
  pc_DependencyDigest :: go_string
  pc_InterfaceDigest :: go_string

record View_Set =
  vw_Version :: go_string
  vw_Products :: "ProductContract list"

datatype view_error = NoProduct | InvalidContract | DuplicateProduct | UnsupportedVersion

definition validDigest :: "go_string \<Rightarrow> bool" where
  "validDigest v \<longleftrightarrow> length v = 64 \<and> list_all lower_hex_char v"

definition valid_contract :: "ProductContract \<Rightarrow> bool" where
  "valid_contract k \<longleftrightarrow> \<not> blank (pc_Product k) \<and> validDigest (pc_CanonicalPlanDigest k) \<and>
     validDigest (pc_DependencyDigest k) \<and> validDigest (pc_InterfaceDigest k)"

text \<open>The loop over the sorted products; \<open>previous\<close> is the product before.\<close>

fun check_contracts :: "go_string option \<Rightarrow> ProductContract list \<Rightarrow> view_error option" where
  "check_contracts previous [] = None"
| "check_contracts previous (k # ks) =
     (if \<not> valid_contract k then Some InvalidContract
      else if previous = Some (pc_Product k) then Some DuplicateProduct
      else check_contracts (Some (pc_Product k)) ks)"

definition View_New :: "ProductContract list \<Rightarrow> view_error + View_Set" where
  "View_New contracts =
     (if contracts = [] then Inl NoProduct
      else let products = sort_key pc_Product contracts in
        (case check_contracts None products of
           Some err \<Rightarrow> Inl err | None \<Rightarrow> Inr \<lparr>vw_Version = View_Version, vw_Products = products\<rparr>))"

definition contract_json :: "ProductContract \<Rightarrow> go_string" where
  "contract_json k = json_object [(''product'', json_string (pc_Product k)),
     (''canonical_plan_digest'', json_string (pc_CanonicalPlanDigest k)),
     (''dependency_digest'', json_string (pc_DependencyDigest k)),
     (''interface_digest'', json_string (pc_InterfaceDigest k))]"

definition view_set_json :: "View_Set \<Rightarrow> go_string" where
  "view_set_json v = json_object [(''version'', json_string (vw_Version v)),
     (''products'', json_array (map contract_json (vw_Products v)))]"

definition view_preimage :: "View_Set \<Rightarrow> byte list" where
  "view_preimage v = bytes_of (view_digestDomain @ view_set_json v)"

definition View_Digest :: "(byte list \<Rightarrow> byte list) \<Rightarrow> View_Set \<Rightarrow> view_error + go_string" where
  "View_Digest sha256 v =
     (case View_New (vw_Products v) of Inl err \<Rightarrow> Inl err | Inr canonical \<Rightarrow>
      if vw_Version v \<noteq> View_Version then Inl UnsupportedVersion
      else Inr (hex_encode (sha256 (view_preimage canonical))))"

section \<open>Lemmas\<close>

subsection \<open>Canonical sets\<close>

definition products_ok :: "ProductContract list \<Rightarrow> bool" where
  "products_ok ks \<longleftrightarrow> ks \<noteq> [] \<and> list_all valid_contract ks \<and> distinct (map pc_Product ks)"

lemma check_contracts_None:
  "sorted (map pc_Product ks) \<Longrightarrow> (\<forall>p. previous = Some p \<longrightarrow> (\<forall>k\<in>set ks. p \<le> pc_Product k)) \<Longrightarrow>
     check_contracts previous ks = None \<longleftrightarrow>
       list_all valid_contract ks \<and> distinct (map pc_Product ks) \<and> (\<forall>p. previous = Some p \<longrightarrow> p \<notin> pc_Product ` set ks)"
proof (induction ks arbitrary: previous)
  case (Cons k ks)
  have "check_contracts (Some (pc_Product k)) ks = None \<longleftrightarrow>
      list_all valid_contract ks \<and> distinct (map pc_Product ks) \<and> pc_Product k \<notin> pc_Product ` set ks"
    using Cons.IH [of "Some (pc_Product k)"] Cons.prems(1) by auto
  moreover have "p \<notin> pc_Product ` set ks" if "previous = Some p" "p \<noteq> pc_Product k" for p
    using Cons.prems that by force
  ultimately show ?case by auto
qed simp

lemma View_New_Inr:
  "View_New ks = Inr v \<longleftrightarrow> products_ok ks \<and> v = \<lparr>vw_Version = View_Version, vw_Products = sort_key pc_Product ks\<rparr>"
proof -
  have "check_contracts None (sort_key pc_Product ks) = None \<longleftrightarrow> list_all valid_contract ks \<and> distinct (map pc_Product ks)"
    by (subst check_contracts_None) (auto simp: list_all_iff distinct_map)
  then show ?thesis
    by (auto simp: View_New_def products_ok_def Let_def split: option.splits)
qed

lemma sort_products_eq:
  assumes "products_ok ks" and "products_ok ls"
  shows "sort_key pc_Product ks = sort_key pc_Product ls \<longleftrightarrow> set ks = set ls"
proof
  assume eq: "set ks = set ls"
  have "map pc_Product (sort_key pc_Product ks) = map pc_Product (sort_key pc_Product ls)"
    using assms eq by (intro sorted_distinct_set_unique) (auto simp: products_ok_def distinct_map)
  moreover have "inj_on pc_Product (set ks)" using assms by (simp add: products_ok_def distinct_map)
  ultimately show "sort_key pc_Product ks = sort_key pc_Product ls"
    using eq by (auto simp: inj_on_map_eq_map)
qed (metis set_sort)

subsection \<open>The JSON text of a set determines it\<close>

definition contract_utf8 :: "ProductContract \<Rightarrow> bool" where
  "contract_utf8 k \<longleftrightarrow> utf8_valid (pc_Product k) \<and> utf8_valid (pc_CanonicalPlanDigest k) \<and>
     utf8_valid (pc_DependencyDigest k) \<and> utf8_valid (pc_InterfaceDigest k)"

lemma contract_json_inject:
  assumes "contract_utf8 k" and "contract_utf8 l"
  shows "contract_json k @ u = contract_json l @ v \<longleftrightarrow> k = l \<and> u = v"
  using assms
  by (cases k; cases l) (simp add: contract_json_def json_object_def contract_utf8_def json_string_append_inject)

lemma contract_json_brace: "\<exists>w. contract_json k = CHR ''{'' # w"
  by (simp add: contract_json_def json_object_def)

lemma join_comma_inject:
  assumes "\<And>x y u v. x \<in> A \<Longrightarrow> y \<in> A \<Longrightarrow> (f x @ u = f y @ v) = (x = y \<and> u = v)"
    and "\<And>x. x \<in> A \<Longrightarrow> \<exists>w. f x = CHR ''{'' # w"
  shows "set xs \<subseteq> A \<Longrightarrow> set ys \<subseteq> A \<Longrightarrow>
    join_comma (map f xs) @ CHR '']'' # u = join_comma (map f ys) @ CHR '']'' # v \<longleftrightarrow> xs = ys \<and> u = v"
proof (induction xs arbitrary: ys)
  case Nil
  then show ?case
    using assms(2) by (cases "map f ys" rule: join_comma.cases) fastforce+
next
  case (Cons x xs)
  have x: "x \<in> A" and xs: "set xs \<subseteq> A" using Cons.prems by auto
  show ?case
  proof (cases ys)
    case Nil
    then show ?thesis using assms(2) [OF x] by (cases xs) auto
  next
    case ys: (Cons y zs)
    have y: "y \<in> A" and zs: "set zs \<subseteq> A" using Cons.prems ys by auto
    show ?thesis
    proof (cases "xs = [] \<or> zs = []")
      case True
      then show ?thesis using ys assms(1) [OF x y] by (cases xs; cases zs) auto
    next
      case False
      then obtain x' xs' z zs' where "xs = x' # xs'" "zs = z # zs'" by (meson neq_Nil_conv)
      then show ?thesis using Cons.IH [OF xs zs] ys assms(1) [OF x y] by auto
    qed
  qed
qed

lemma view_set_json_inject:
  assumes "list_all contract_utf8 ks" and "list_all contract_utf8 ls"
  shows "view_set_json \<lparr>vw_Version = View_Version, vw_Products = ks\<rparr> =
      view_set_json \<lparr>vw_Version = View_Version, vw_Products = ls\<rparr> \<longleftrightarrow> ks = ls"
proof -
  have "join_comma (map contract_json ks) @ CHR '']'' # ''}'' = join_comma (map contract_json ls) @ CHR '']'' # ''}'' \<longleftrightarrow> ks = ls"
    using assms
    by (subst join_comma_inject [of "Collect contract_utf8"])
      (auto simp: contract_json_inject list_all_iff contract_json_brace)
  then show ?thesis by (simp add: view_set_json_def json_object_def json_array_def)
qed

lemma View_Digest_Inr:
  "View_Digest sha256 \<lparr>vw_Version = View_Version, vw_Products = ks\<rparr> = Inr d \<longleftrightarrow> products_ok ks \<and>
     d = hex_encode (sha256 (view_preimage \<lparr>vw_Version = View_Version, vw_Products = sort_key pc_Product ks\<rparr>))"
proof (cases "View_New ks")
  case (Inl err)
  then show ?thesis using View_New_Inr [of ks] by (auto simp: View_Digest_def)
next
  case (Inr v)
  then show ?thesis using View_New_Inr [of ks v] by (auto simp: View_Digest_def)
qed

section \<open>Properties\<close>


definition sample_contract :: "char \<Rightarrow> ProductContract" where
  "sample_contract p = \<lparr>pc_Product = [p], pc_CanonicalPlanDigest = replicate 64 CHR ''a'',
     pc_DependencyDigest = replicate 64 CHR ''b'', pc_InterfaceDigest = replicate 64 CHR ''c''\<rparr>"


end
