(* ===== verification/Control_Types.thy ===== *)
theory Control_Types
  imports Audit_Chain Exposure_Observation View_Binding
begin

text \<open>
  The data of the control store (package \<open>control\<close>): its sentinel errors and their public
  codes, the rows of its PostgreSQL tables as records, the store with its tables, and the helpers
  of \<open>store.go\<close>.

  A table is a list of rows; a primary key or a unique column is checked by the insertion, an
  update maps the rows that its \<open>WHERE\<close> clause selects. A transaction works on the store and
  returns a new one; the caller keeps the old store when it returns an error without a commit.
  The row locks and the read-committed isolation of the code make the transactions of one task
  serial; the model runs every operation as one step. The \<open>CHECK\<close> constraints and the triggers
  of the schema are not part of the model; for the budget ledger and the exposure ledger what they
  demand is proved of the operations in \<open>Control_System\<close> and \<open>Control_Exposure\<close>.

  The exposure profiles V4 and V5 keep their ledgers in tables of their own. That part of the store
  is the type variable \<open>'o\<close> of the store and is reached through the operations of the record
  \<open>ordinal_backend\<close>, which can read the store, change only that part, and append audit events.
\<close>

section \<open>Errors\<close>

datatype control_error =
    ErrNotFound | ErrConflict | ErrInvalid | ErrClosed | ErrTaskNotActive | ErrTaskExpired
  | ErrViewSemanticChanged | ErrBudgetExhausted | ErrExposureBudgetExhausted
  | ErrExposureEvidenceRequired | ErrQueryInProgress | ErrReservationNotFound
  | ErrIdempotencyConflict | ErrCallbackInProgress | ErrCipherUnavailable | ErrCiphertextInvalid
  | ErrAuditChainBroken | ErrInvalidStateChange

text \<open>
  The errors that flow through the package: \<open>sql.ErrNoRows\<close>, a sentinel, a message, a
  message that wraps an error, an error of the database driver, an error of package
  \<open>exposure\<close>, and \<open>OpError\<close> with its operation, kind and cause.
\<close>

datatype go_error =
    ErrNoRows
  | Sentinel control_error
  | Message go_string
  | Wrapped go_string go_error
  | DatabaseError
  | ExposureError exposure_error
  | OpError go_string control_error "go_error option"

abbreviation opErr :: "go_string \<Rightarrow> control_error \<Rightarrow> go_error \<Rightarrow> go_error" where
  "opErr op kind cause \<equiv> OpError op kind (Some cause)"

fun isNoRows :: "go_error \<Rightarrow> bool" where
  "isNoRows ErrNoRows = True"
| "isNoRows (Wrapped msg err) = isNoRows err"
| "isNoRows (OpError op kind (Some cause)) = isNoRows cause"
| "isNoRows err = False"

text \<open>\<open>errors.Is\<close> for a sentinel of the package\<close>

fun errors_Is :: "go_error \<Rightarrow> control_error \<Rightarrow> bool" where
  "errors_Is (Sentinel e) target = (e = target)"
| "errors_Is (Wrapped msg err) target = errors_Is err target"
| "errors_Is (OpError op kind None) target = (kind = target)"
| "errors_Is (OpError op kind (Some cause)) target = (kind = target \<or> errors_Is cause target)"
| "errors_Is err target = False"

definition sentinel_text :: "control_error \<Rightarrow> go_string" where
  "sentinel_text e = ''control: '' @ (case e of
       ErrNotFound \<Rightarrow> ''not found'' | ErrConflict \<Rightarrow> ''conflict'' | ErrInvalid \<Rightarrow> ''invalid argument''
     | ErrClosed \<Rightarrow> ''store closed'' | ErrTaskNotActive \<Rightarrow> ''task is not active'' | ErrTaskExpired \<Rightarrow> ''task expired''
     | ErrViewSemanticChanged \<Rightarrow> ''view semantic changed'' | ErrBudgetExhausted \<Rightarrow> ''budget exhausted''
     | ErrExposureBudgetExhausted \<Rightarrow> ''exposure budget exhausted''
     | ErrExposureEvidenceRequired \<Rightarrow> ''exposure evidence required''
     | ErrQueryInProgress \<Rightarrow> ''query already in progress''
     | ErrReservationNotFound \<Rightarrow> ''budget reservation not found''
     | ErrIdempotencyConflict \<Rightarrow> ''idempotency key reused with different payload''
     | ErrCallbackInProgress \<Rightarrow> ''callback already in progress''
     | ErrCipherUnavailable \<Rightarrow> ''result cipher unavailable'' | ErrCiphertextInvalid \<Rightarrow> ''encrypted result is invalid''
     | ErrAuditChainBroken \<Rightarrow> ''audit hash chain is broken''
     | ErrInvalidStateChange \<Rightarrow> ''invalid task state transition'')"

text \<open>\<open>err.Error()\<close>; the text of a driver error is not modelled beyond its severity.\<close>

fun error_text :: "go_error \<Rightarrow> go_string" where
  "error_text ErrNoRows = ''sql: no rows in result set''"
| "error_text (Sentinel e) = sentinel_text e"
| "error_text (Message msg) = msg"
| "error_text (Wrapped msg err) = msg @ '': '' @ error_text err"
| "error_text DatabaseError = ''ERROR''"
| "error_text (ExposureError (ExposureInvalid msg)) = ''invalid exposure evidence: '' @ msg"
| "error_text (OpError op kind None) = ''control '' @ op @ '': '' @ sentinel_text kind"
| "error_text (OpError op kind (Some cause)) = ''control '' @ op @ '': '' @ sentinel_text kind @ '': '' @ error_text cause"

text \<open>\<open>strings.Contains\<close>\<close>

fun Contains :: "go_string \<Rightarrow> go_string \<Rightarrow> bool" where
  "Contains [] sub = (sub = [])"
| "Contains (c # s) sub = (take (length sub) (c # s) = sub \<or> Contains s sub)"

definition CodeOf :: "go_error option \<Rightarrow> go_string" where
  "CodeOf result = (case result of None \<Rightarrow> [] | Some err \<Rightarrow>
      if errors_Is err ErrNotFound then ''NOT_FOUND''
      else if errors_Is err ErrInvalid then ''INVALID_ARGUMENT''
      else if errors_Is err ErrClosed then ''STORE_CLOSED''
      else if errors_Is err ErrTaskNotActive then ''TASK_NOT_ACTIVE''
      else if errors_Is err ErrTaskExpired then ''TASK_EXPIRED''
      else if errors_Is err ErrViewSemanticChanged then ''VIEW_SEMANTIC_CHANGED''
      else if errors_Is err ErrBudgetExhausted then ''BUDGET_EXHAUSTED''
      else if errors_Is err ErrExposureBudgetExhausted then ''EXPOSURE_BUDGET_EXHAUSTED''
      else if errors_Is err ErrExposureEvidenceRequired then ''EXPOSURE_EVIDENCE_REQUIRED''
      else if errors_Is err ErrQueryInProgress then ''QUERY_IN_PROGRESS''
      else if errors_Is err ErrReservationNotFound then ''RESERVATION_NOT_FOUND''
      else if errors_Is err ErrIdempotencyConflict then ''IDEMPOTENCY_CONFLICT''
      else if errors_Is err ErrCallbackInProgress then ''CALLBACK_IN_PROGRESS''
      else if errors_Is err ErrCipherUnavailable then ''CIPHER_UNAVAILABLE''
      else if errors_Is err ErrCiphertextInvalid then ''CIPHERTEXT_INVALID''
      else if errors_Is err ErrAuditChainBroken then ''AUDIT_CHAIN_BROKEN''
      else if errors_Is err ErrInvalidStateChange then ''INVALID_STATE_TRANSITION''
      else if errors_Is err ErrConflict then ''CONFLICT''
      else ''INTERNAL'')"

section \<open>Rows\<close>

abbreviation TaskAwaitingSubmission :: go_string where "TaskAwaitingSubmission \<equiv> ''AWAITING_SUBMISSION''"
abbreviation TaskAwaitingApproval :: go_string where "TaskAwaitingApproval \<equiv> ''AWAITING_APPROVAL''"
abbreviation TaskActive :: go_string where "TaskActive \<equiv> ''ACTIVE''"
abbreviation TaskArchived :: go_string where "TaskArchived \<equiv> ''ARCHIVED''"

abbreviation TerminalCompleted :: go_string where "TerminalCompleted \<equiv> ''completed''"
abbreviation TerminalBudgetExhausted :: go_string where "TerminalBudgetExhausted \<equiv> ''budget_exhausted''"
abbreviation TerminalRejected :: go_string where "TerminalRejected \<equiv> ''rejected''"
abbreviation TerminalExpired :: go_string where "TerminalExpired \<equiv> ''expired''"
abbreviation TerminalRevoked :: go_string where "TerminalRevoked \<equiv> ''revoked''"
abbreviation TerminalFailed :: go_string where "TerminalFailed \<equiv> ''failed''"

abbreviation QueryReserved :: go_string where "QueryReserved \<equiv> ''RESERVED''"
abbreviation QueryCompleted :: go_string where "QueryCompleted \<equiv> ''COMPLETED''"
abbreviation QueryReleased :: go_string where "QueryReleased \<equiv> ''RELEASED''"
abbreviation QueryFailed :: go_string where "QueryFailed \<equiv> ''FAILED''"
abbreviation QueryIndeterminate :: go_string where "QueryIndeterminate \<equiv> ''INDETERMINATE''"

record Principal =
  pr_ID :: go_string
  pr_Subject :: go_string
  pr_Role :: go_string
  pr_TokenHash :: go_string
  pr_CreatedAt :: go_time
  pr_DisabledAt :: "go_time option"

record Task =
  tk_ID :: go_string
  tk_PrincipalID :: go_string
  tk_Objective :: go_string
  tk_State :: go_string
  tk_TerminalReason :: go_string
  tk_CatalogVersion :: go_string
  tk_Sensitivity :: go_string
  tk_RequestContext :: go_string
  tk_ApprovalRef :: go_string
  tk_CreatedAt :: go_time
  tk_UpdatedAt :: go_time
  tk_ExpiresAt :: "go_time option"
  tk_RootTaskID :: go_string
  tk_ParentTaskID :: go_string

record BudgetLimits =
  lim_Queries :: int64
  lim_Rows :: int64
  lim_DBMS :: int64

record BudgetUsage =
  use_UsedQueries :: int64
  use_UsedRows :: int64
  use_UsedDBMS :: int64
  use_ReservedQueries :: int64
  use_ReservedRows :: int64
  use_ReservedDBMS :: int64

record BudgetSnapshot =
  bud_TaskID :: go_string
  bud_Limits :: BudgetLimits
  bud_Usage :: BudgetUsage
  bud_UpdatedAt :: go_time

record ExposureLimits =
  xl_ReleaseFacts :: int64
  xl_InfluenceFacts :: int64
  xl_OutcomeFacts :: int64

record PredicateFootprintLimitsV1 =
  pf_Version :: go_string
  pf_MaxRawLiteralsPerQuery :: int64
  pf_MaxUniqueAtomsPerQuery :: int64
  pf_MaxAtomPayloadBytes :: int64
  pf_MaxTotalAtomPayloadBytes :: int64

record ExposureGrant =
  xg_Limits :: ExposureLimits
  xg_ProfileVersion :: go_string
  xg_PredicateFootprint :: "PredicateFootprintLimitsV1 option"

definition ExposureGrant_Enabled :: "ExposureGrant \<Rightarrow> bool" where
  "ExposureGrant_Enabled g \<longleftrightarrow> 0 < xl_ReleaseFacts (xg_Limits g) \<or> 0 < xl_InfluenceFacts (xg_Limits g) \<or>
     0 < xl_OutcomeFacts (xg_Limits g) \<or> xg_ProfileVersion g \<noteq> []"

record TaskViewDependency =
  vd_Product :: go_string
  vd_DependencyKey :: go_string

record ViewBindingSet =
  vs_Digest :: go_string
  vs_ProfileVersion :: go_string
  vs_CanonicalJSON :: go_string
  vs_Dependencies :: "TaskViewDependency list"
  vs_CreatedAt :: go_time

abbreviation TaskViewBindingActive :: go_string where "TaskViewBindingActive \<equiv> ''ACTIVE''"
abbreviation TaskViewBindingRequireRebind :: go_string where "TaskViewBindingRequireRebind \<equiv> ''REQUIRE_REBIND''"

record TaskViewBindingStatus =
  vb_TaskID :: go_string
  vb_Status :: go_string
  vb_BoundDigest :: go_string
  vb_ObservedDigest :: go_string
  vb_DetectedAt :: "go_time option"

record TaskGrant =
  tg_TaskID :: go_string
  tg_Subject :: go_string
  tg_Purpose :: go_string
  tg_ApprovedProducts :: "go_string list"
  tg_ApprovedColumns :: "(go_string, go_string list) go_map"
  tg_MandatoryScope :: go_string
  tg_SensitivityCeiling :: go_string
  tg_Budget :: BudgetLimits
  tg_Exposure :: ExposureGrant
  tg_ExpiresAt :: go_time
  tg_CatalogVersion :: go_string
  tg_CatalogDigest :: go_string
  tg_DatasourceID :: go_string
  tg_SchemaDigest :: go_string
  tg_ViewBindingDigest :: go_string
  tg_ViewBindingSet :: "ViewBindingSet option"
  tg_ApprovalReceipt :: go_string
  tg_CreatedAt :: go_time

record ApprovalEvent =
  ap_EventID :: go_string
  ap_TaskID :: go_string
  ap_Actor :: go_string
  ap_Decision :: go_string
  ap_Payload :: go_string
  ap_CreatedAt :: go_time

record ExposureLedgerSnapshot =
  led_RootTaskID :: go_string
  led_ProfileVersion :: go_string
  led_Limits :: ExposureLimits
  led_Used :: ExposureLimits
  led_UpdatedAt :: go_time

record ExposureReservationRequest =
  xr_ProfileVersion :: go_string
  xr_EstimatedReleaseFacts :: int64
  xr_EstimatedInfluenceFacts :: int64
  xr_EstimatedOutcomeFacts :: int64

record ExposureReservation =
  res_QueryID :: go_string
  res_TaskID :: go_string
  res_RootTaskID :: go_string
  res_ProfileVersion :: go_string
  res_EstimatedReleaseFacts :: int64
  res_EstimatedInfluenceFacts :: int64
  res_EstimatedOutcomeFacts :: int64

text \<open>A row of \<open>query_exposure_reservations\<close>: the reservation and what the settlement adds.\<close>

record exposure_row = ExposureReservation +
  row_status :: go_string
  row_actual :: ExposureLimits
  row_charged :: ExposureLimits
  row_observation_sha256 :: go_string
  row_created_at :: go_time
  row_settled_at :: "go_time option"

record ExposureCharge =
  ch_QueryID :: go_string
  ch_RootTaskID :: go_string
  ch_ProfileVersion :: go_string
  ch_Actual :: ExposureLimits
  ch_Charged :: ExposureLimits
  ch_ActualPredicateAtomCount :: int64
  ch_ChargedPredicateAtomCount :: int64
  ch_CompositeOutcomeSHA256 :: go_string
  ch_PredicateContextSHA256 :: go_string
  ch_PredicateSetSHA256 :: go_string
  ch_ObservationSHA256 :: go_string
  ch_DictionarySetDigest :: go_string
  ch_ReleaseSetSHA256 :: go_string
  ch_InfluenceSetSHA256 :: go_string
  ch_OutcomeSetSHA256 :: go_string
  ch_RootEpoch :: int64

text \<open>A row of \<open>exposure_facts\<close>; the payload is nullable, for rows older than the column.\<close>

record fact_row =
  fr_root :: go_string
  fr_kind :: go_string
  fr_sha256 :: go_string
  fr_identity :: go_string
  fr_payload :: "byte list option"
  fr_first_query :: go_string
  fr_first_seen :: go_time

record fact_link =
  fl_root :: go_string
  fl_query :: go_string
  fl_kind :: go_string
  fl_sha256 :: go_string

record QueryRecord =
  qr_ID :: go_string
  qr_TaskID :: go_string
  qr_RequestID :: go_string
  qr_Actor :: go_string
  qr_RequestDigest :: go_string
  qr_SQLFingerprint :: go_string
  qr_CatalogVersion :: go_string
  qr_CatalogDigest :: go_string
  qr_DatasourceID :: go_string
  qr_SchemaDigest :: go_string
  qr_ViewBindingDigest :: go_string
  qr_ManifestDigest :: go_string
  qr_GrantDigest :: go_string
  qr_PolicyDecision :: go_string
  qr_Status :: go_string
  qr_ReservedRows :: int64
  qr_ReservedDBMS :: int64
  qr_ResultRows :: int64
  qr_ResultDBMS :: int64
  qr_ResultObservedDBMS :: int64
  qr_ChargedQueries :: int64
  qr_ChargedRows :: int64
  qr_ChargedDBMS :: int64
  qr_BudgetBefore :: BudgetSnapshot
  qr_BudgetAfter :: "BudgetSnapshot option"
  qr_ResultSHA256 :: go_string
  qr_ErrorCode :: go_string
  qr_CreatedAt :: go_time
  qr_CompletedAt :: "go_time option"

record BudgetReservation =
  br_QueryID :: go_string
  br_TaskID :: go_string
  br_RequestID :: go_string
  br_AllowedRows :: int64
  br_AllowedDBMS :: int64
  br_Before :: BudgetSnapshot
  br_After :: BudgetSnapshot
  br_Replay :: bool
  br_Record :: "QueryRecord option"
  br_Exposure :: "ExposureReservation option"

record ReserveRequest =
  rq_QueryID :: go_string
  rq_TaskID :: go_string
  rq_RequestID :: go_string
  rq_Actor :: go_string
  rq_RequestDigest :: go_string
  rq_SQLFingerprint :: go_string
  rq_CatalogVersion :: go_string
  rq_CatalogDigest :: go_string
  rq_DatasourceID :: go_string
  rq_SchemaDigest :: go_string
  rq_ViewBindingDigest :: go_string
  rq_ManifestDigest :: go_string
  rq_GrantDigest :: go_string
  rq_PolicyDecision :: go_string
  rq_RequestedRows :: int64
  rq_RequestedDBMS :: int64
  rq_Exposure :: "ExposureReservationRequest option"

record OrdinalObservationReference =
  or_ObservationSHA256 :: go_string
  or_DictionarySetDigest :: go_string

text \<open>The V4 and V5 evidence is opaque here, the type variable \<open>'x\<close>.\<close>

record 'x BudgetSettlement =
  bs_QueryID :: go_string
  bs_Rows :: int64
  bs_DBMS :: int64
  bs_ObservedDBMS :: int64
  bs_ErrorCode :: go_string
  bs_Exposure :: "Observation option"
  bs_OrdinalExposure :: "'x option"
  bs_OrdinalObservationRef :: "OrdinalObservationReference option"
  bs_OrdinalMaterialization :: bool

record PersistedQueryReceipt =
  rc_QueryID :: go_string
  rc_Version :: go_string
  rc_GatewayKeyID :: go_string
  rc_Signature :: go_string
  rc_SignedAt :: go_time
  rc_TerminalAuditSequence :: int64
  rc_TerminalAuditHash :: go_string
  rc_ReceiptJSON :: go_string
  rc_ReceiptSHA256 :: go_string
  rc_CreatedAt :: go_time

record SaveQueryReceiptRequest =
  sr_QueryID :: go_string
  sr_Version :: go_string
  sr_GatewayKeyID :: go_string
  sr_Signature :: go_string
  sr_SignedAt :: go_time
  sr_TerminalAuditSequence :: int64
  sr_TerminalAuditHash :: go_string
  sr_ReceiptJSON :: go_string

text \<open>The evidence that the receipt builder signs; the result artifact of V8 receipts is not modelled.\<close>

record QueryReceipt =
  qc_Query :: QueryRecord
  qc_Audit :: Event
  qc_Receipt :: "PersistedQueryReceipt option"
  qc_Exposure :: "ExposureCharge option"

type_synonym TerminalReceiptBuilder = "QueryReceipt \<Rightarrow> go_error + SaveQueryReceiptRequest"

text \<open>A row of \<open>callback_idempotency\<close>; the empty response stands for \<open>NULL\<close> too.\<close>

record callback_row =
  cb_EventID :: go_string
  cb_PayloadSHA256 :: go_string
  cb_Status :: go_string
  cb_Response :: "byte list"
  cb_LastError :: go_string
  cb_ClaimedAt :: go_time
  cb_CompletedAt :: "go_time option"

abbreviation CallbackProcessing :: go_string where "CallbackProcessing \<equiv> ''PROCESSING''"
abbreviation CallbackCompleted :: go_string where "CallbackCompleted \<equiv> ''COMPLETED''"
abbreviation CallbackRetryable :: go_string where "CallbackRetryable \<equiv> ''RETRYABLE''"

record CallbackClaim =
  cc_EventID :: go_string
  cc_Status :: go_string
  cc_Claimed :: bool
  cc_Replay :: bool
  cc_Response :: "byte list"

record RecoveryReport =
  rp_InterruptedQueries :: nat
  rp_ExpiredTasks :: nat
  rp_RetryableCallbacks :: nat

section \<open>The store\<close>

record 'o Store =
  st_closed :: bool
  st_principals :: "Principal list"
  st_tasks :: "Task list"
  st_grants :: "TaskGrant list"
  st_view_sets :: "ViewBindingSet list"
  st_view_dependencies :: "(go_string \<times> go_string \<times> go_string \<times> go_string) list"
  st_view_status :: "TaskViewBindingStatus list"
  st_approvals :: "ApprovalEvent list"
  st_budgets :: "BudgetSnapshot list"
  st_queries :: "QueryRecord list"
  st_ledgers :: "ExposureLedgerSnapshot list"
  st_reservations :: "exposure_row list"
  st_facts :: "fact_row list"
  st_links :: "fact_link list"
  st_receipts :: "PersistedQueryReceipt list"
  st_callbacks :: "callback_row list"
  st_events :: "Event list"
  st_head :: "(int64 \<times> go_string) option"
  st_ordinal :: 'o

text \<open>
  The V4 and V5 ledgers: whether a query has a reservation there, and the transactions on it, each of
  which returns the new V4/V5 tables and the audit events to append; last, the reads of a ledger and
  of a charge, which report an absent row.
\<close>

record ('o, 'x) ordinal_backend =
  od_is_v4 :: "'o \<Rightarrow> go_string \<Rightarrow> bool"
  od_is_v5 :: "'o \<Rightarrow> go_string \<Rightarrow> bool"
  od_ensure :: "'o Store \<Rightarrow> go_string \<Rightarrow> ExposureGrant \<Rightarrow> go_time \<Rightarrow> go_error + 'o"
  od_reserve :: "'o Store \<Rightarrow> go_string \<Rightarrow> go_string \<Rightarrow> ExposureReservationRequest option \<Rightarrow> go_time \<Rightarrow>
    go_error + ExposureReservation option \<times> 'o \<times> Event list"
  od_settle :: "'o Store \<Rightarrow> go_time \<Rightarrow> go_string \<Rightarrow> 'x \<Rightarrow> go_error + ExposureCharge \<times> 'o \<times> Event list"
  od_settle_ref :: "'o Store \<Rightarrow> go_time \<Rightarrow> go_string \<Rightarrow> OrdinalObservationReference \<Rightarrow>
    go_error + ExposureCharge \<times> 'o \<times> Event list"
  od_release :: "'o Store \<Rightarrow> go_time \<Rightarrow> go_string \<Rightarrow> go_error + 'o \<times> Event list"
  od_ledger_v4 :: "'o Store \<Rightarrow> go_string \<Rightarrow> go_error + ExposureLedgerSnapshot"
  od_ledger_v5 :: "'o Store \<Rightarrow> go_string \<Rightarrow> go_error + ExposureLedgerSnapshot"
  od_charge_v4 :: "'o Store \<Rightarrow> go_string \<Rightarrow> go_error + ExposureCharge"
  od_charge_v5 :: "'o Store \<Rightarrow> go_string \<Rightarrow> go_error + ExposureCharge"

text \<open>
  What the operations use besides the store. \<open>ce_exposure\<close> has the hash function;
  \<open>ce_json\<close> is \<open>json.Unmarshal\<close> into \<open>any\<close> followed by \<open>json.Marshal\<close>;
  \<open>ce_jsonb\<close> is the text that PostgreSQL returns for a JSONB value, and \<^const>\<open>None\<close>
  where it refuses the value; \<open>ce_json_number\<close> is a \<open>json.Decoder\<close> with
  \<open>UseNumber\<close> followed by \<open>json.Marshal\<close>; \<open>ce_json_valid\<close> is \<open>json.Valid\<close>;
  \<open>ce_decode_set\<close> decodes a single JSON value without unknown fields into a view binding set;
  \<open>ce_text_le\<close> is the order of text columns in the collation of the database.
\<close>

record ('o, 'x) control_env =
  ce_exposure :: exposure_env
  ce_json :: "go_string \<Rightarrow> go_string option"
  ce_jsonb :: "go_string \<Rightarrow> go_string option"
  ce_json_number :: "go_string \<Rightarrow> go_string option"
  ce_json_valid :: "go_string \<Rightarrow> bool"
  ce_decode_set :: "go_string \<Rightarrow> go_error + View_Set"
  ce_text_le :: "go_string \<Rightarrow> go_string \<Rightarrow> bool"
  ce_ordinal :: "('o, 'x) ordinal_backend"

text \<open>
  What one call of an operation draws from its surroundings: the successive readings of the clock
  of the store, the wall clock, and the random identifiers, which are numbered by the length of the
  audit chain; \<^const>\<open>None\<close> when the source of randomness fails.
\<close>

record call =
  cl_now :: "nat \<Rightarrow> go_time"
  cl_wall :: go_time
  cl_random :: "nat \<Rightarrow> go_string option"

section \<open>Helpers of the store\<close>

definition dbTime :: "go_time \<Rightarrow> go_time" where
  "dbTime t = Truncate_microsecond t"

definition now :: "call \<Rightarrow> nat \<Rightarrow> go_time" where
  "now c i = dbTime (cl_now c i)"

definition formatTime :: "go_time \<Rightarrow> go_string" where
  "formatTime t = RFC3339Nano (dbTime t)"

definition nullableTime :: "go_time option \<Rightarrow> go_time option" where
  "nullableTime t = (case t of None \<Rightarrow> None | Some v \<Rightarrow> if IsZero v then None else Some (dbTime v))"

definition validSHA256Hex :: "go_string \<Rightarrow> bool" where
  "validSHA256Hex s = lower_sha256_hex s"

definition normalizeJSON :: "('o, 'x) control_env \<Rightarrow> go_string \<Rightarrow> go_string \<Rightarrow> go_string option" where
  "normalizeJSON E raw dflt = ce_json E (if raw = [] then dflt else raw)"

definition randomID :: "call \<Rightarrow> nat \<Rightarrow> go_string \<Rightarrow> go_string option" where
  "randomID c i prefix = (case cl_random c i of None \<Rightarrow> None | Some hex \<Rightarrow> Some (prefix @ hex))"

definition checkOpen :: "go_string \<Rightarrow> 'o Store \<Rightarrow> go_error option" where
  "checkOpen op s = (if st_closed s then Some (OpError op ErrClosed None) else None)"

definition max64 :: "int64 \<Rightarrow> int64 \<Rightarrow> int64" where
  "max64 a b = (if a > b then a else b)"

definition min64 :: "int64 \<Rightarrow> int64 \<Rightarrow> int64" where
  "min64 a b = (if a < b then a else b)"

definition BudgetSnapshot_Remaining :: "BudgetSnapshot \<Rightarrow> BudgetLimits" where
  "BudgetSnapshot_Remaining b = \<lparr>
     lim_Queries = max64 0 (i64 (i64 (lim_Queries (bud_Limits b) - use_UsedQueries (bud_Usage b)) - use_ReservedQueries (bud_Usage b))),
     lim_Rows = max64 0 (i64 (i64 (lim_Rows (bud_Limits b) - use_UsedRows (bud_Usage b)) - use_ReservedRows (bud_Usage b))),
     lim_DBMS = max64 0 (i64 (i64 (lim_DBMS (bud_Limits b) - use_UsedDBMS (bud_Usage b)) - use_ReservedDBMS (bud_Usage b)))\<rparr>"

definition ExposureLedgerSnapshot_Remaining :: "ExposureLedgerSnapshot \<Rightarrow> ExposureLimits" where
  "ExposureLedgerSnapshot_Remaining l = \<lparr>
     xl_ReleaseFacts = max64 0 (i64 (xl_ReleaseFacts (led_Limits l) - xl_ReleaseFacts (led_Used l))),
     xl_InfluenceFacts = max64 0 (i64 (xl_InfluenceFacts (led_Limits l) - xl_InfluenceFacts (led_Used l))),
     xl_OutcomeFacts = max64 0 (i64 (xl_OutcomeFacts (led_Limits l) - xl_OutcomeFacts (led_Used l)))\<rparr>"

definition zero_limits :: ExposureLimits where
  "zero_limits = \<lparr>xl_ReleaseFacts = 0, xl_InfluenceFacts = 0, xl_OutcomeFacts = 0\<rparr>"

section \<open>Tables\<close>

text \<open>\<open>SELECT ... WHERE key = k\<close> on a unique column, and \<open>UPDATE ... WHERE p\<close>.\<close>

definition select_row :: "('r \<Rightarrow> 'k) \<Rightarrow> 'k \<Rightarrow> 'r list \<Rightarrow> 'r option" where
  "select_row key k rows = find (\<lambda>r. key r = k) rows"

definition update_rows :: "('r \<Rightarrow> bool) \<Rightarrow> ('r \<Rightarrow> 'r) \<Rightarrow> 'r list \<Rightarrow> 'r list" where
  "update_rows p f rows = map (\<lambda>r. if p r then f r else r) rows"

text \<open>\<open>INSERT\<close> into a table whose rows are identified by \<open>key\<close>.\<close>

definition insert_row :: "('r \<Rightarrow> 'k) \<Rightarrow> 'r \<Rightarrow> 'r list \<Rightarrow> go_error + 'r list" where
  "insert_row key r rows = (if key r \<in> key ` set rows then Inl DatabaseError else Inr (rows @ [r]))"

text \<open>\<open>ORDER BY\<close> with the order \<open>le\<close>\<close>

fun insert_by :: "('r \<Rightarrow> 'r \<Rightarrow> bool) \<Rightarrow> 'r \<Rightarrow> 'r list \<Rightarrow> 'r list" where
  "insert_by le r [] = [r]"
| "insert_by le r (x # xs) = (if le r x then r # x # xs else x # insert_by le r xs)"

definition order_by :: "('r \<Rightarrow> 'r \<Rightarrow> bool) \<Rightarrow> 'r list \<Rightarrow> 'r list" where
  "order_by le rows = foldr (insert_by le) rows []"

section \<open>Lemmas\<close>

lemma set_insert_by [simp]: "set (insert_by le r xs) = insert r (set xs)"
  by (induction xs) auto

lemma length_insert_by [simp]: "length (insert_by le r xs) = Suc (length xs)"
  by (induction xs) auto

lemma distinct_insert_by: "distinct (map key (insert_by le r xs)) \<longleftrightarrow> key r \<notin> key ` set xs \<and> distinct (map key xs)"
  by (induction xs) auto

lemma set_order_by [simp]: "set (order_by le rows) = set rows"
  by (induction rows) (auto simp: order_by_def)

lemma length_order_by [simp]: "length (order_by le rows) = length rows"
  by (induction rows) (auto simp: order_by_def)

lemma distinct_order_by [simp]: "distinct (map key (order_by le rows)) \<longleftrightarrow> distinct (map key rows)"
proof (induction rows)
  case (Cons r rows)
  have "set (foldr (insert_by le) rows []) = set rows" using set_order_by [of le rows] by (simp add: order_by_def)
  with Cons show ?case by (simp add: order_by_def distinct_insert_by)
qed (simp add: order_by_def)

lemma select_row_Some: "select_row key k rows = Some r \<Longrightarrow> r \<in> set rows \<and> key r = k"
  by (auto simp: select_row_def find_Some_iff)

lemma select_row_None: "select_row key k rows = None \<longleftrightarrow> k \<notin> key ` set rows"
  by (auto simp: select_row_def find_None_iff)

lemma select_row_unique:
  "distinct (map key rows) \<Longrightarrow> r \<in> set rows \<Longrightarrow> select_row key (key r) rows = Some r"
proof (induction rows)
  case (Cons x xs)
  then show ?case by (auto simp: select_row_def image_iff)
qed simp

lemma insert_row_Inr [simp]: "insert_row key r rows = Inr rows' \<longleftrightarrow> key r \<notin> key ` set rows \<and> rows' = rows @ [r]"
  by (auto simp: insert_row_def)

lemma distinct_insert: "insert_row key r rows = Inr rows' \<Longrightarrow> distinct (map key rows) \<Longrightarrow> distinct (map key rows')"
  by auto

lemma map_update_rows: "(\<And>r. key (f r) = key r) \<Longrightarrow> map key (update_rows p f rows) = map key rows"
  by (simp add: update_rows_def)

lemma set_update_rows: "set (update_rows p f rows) = (\<lambda>r. if p r then f r else r) ` set rows"
  by (simp add: update_rows_def)

lemma update_rows_append: "update_rows p f (xs @ ys) = update_rows p f xs @ update_rows p f ys"
  by (simp add: update_rows_def)

lemma update_rows_none: "(\<And>r. r \<in> set rows \<Longrightarrow> \<not> p r) \<Longrightarrow> update_rows p f rows = rows"
  by (induction rows) (auto simp: update_rows_def)

lemma select_update_rows:
  "(\<And>r. key (f r) = key r) \<Longrightarrow>
     select_row key k (update_rows p f rows) = map_option (\<lambda>r. if p r then f r else r) (select_row key k rows)"
  by (induction rows) (auto simp: select_row_def update_rows_def)

lemma dbTime_idem [simp]: "dbTime (dbTime t) = dbTime t"
  by (simp add: dbTime_def)

end
