(* ===== verification/Control_Audit.thy ===== *)
theory Control_Audit
  imports Control_Types
begin

text \<open>
  The audit table of the control store (\<open>control/audit.go\<close>): \<open>appendAuditTx\<close>, which
  every operation calls inside its transaction, the queries on the table, and
  \<open>VerifyAuditChain\<close>. The table is a list in the order of insertion; the queries sort by
  sequence number. The payload column is JSONB, so a row holds what PostgreSQL returns for the
  payload, not its text. The lemmas show that an append keeps the table verifiable, keeps all older
  rows, and keeps the sequence numbers consecutive, and that the exported range of the table is a
  chain that the offline verifier of package \<open>auditchain\<close> accepts.
\<close>

section \<open>Definitions\<close>

definition audit_lib_of :: "('o, 'x) control_env \<Rightarrow> audit_lib" where
  "audit_lib_of E = \<lparr>au_sha256 = env_sha256 (ce_exposure E), au_json = ce_json E\<rparr>"

definition hashAudit :: "('o, 'x) control_env \<Rightarrow> go_string \<Rightarrow> Event \<Rightarrow> audit_error + go_string" where
  "hashAudit E previous e = Hash (audit_lib_of E) previous e"

text \<open>The insertion: \<open>sequence\<close> is the primary key, \<open>event_id\<close> and \<open>current_hash\<close> are unique.\<close>

definition insert_event :: "('o, 'x) control_env \<Rightarrow> Event \<Rightarrow> 'o Store \<Rightarrow> go_error + 'o Store" where
  "insert_event E e s =
     (if ev_Sequence e \<in> ev_Sequence ` set (st_events s) \<or> ev_EventID e \<in> ev_EventID ` set (st_events s) \<or>
         ev_CurrentHash e \<in> ev_CurrentHash ` set (st_events s) then Inl DatabaseError
      else case ce_jsonb E (ev_Payload e) of
          None \<Rightarrow> Inl DatabaseError
        | Some stored \<Rightarrow> Inr (s\<lparr>st_events := st_events s @ [e\<lparr>ev_Payload := stored\<rparr>]\<rparr>))"

definition event_id :: "call \<Rightarrow> 'o Store \<Rightarrow> Event \<Rightarrow> go_string option" where
  "event_id c s e = (if blank (ev_EventID e) then randomID c (length (st_events s)) ''audit_'' else Some (ev_EventID e))"

definition occurred_at :: "call \<Rightarrow> Event \<Rightarrow> go_time" where
  "occurred_at c e = (if IsZero (ev_OccurredAt e) then dbTime (cl_wall c) else dbTime (ev_OccurredAt e))"

definition appendAuditTx :: "('o, 'x) control_env \<Rightarrow> call \<Rightarrow> Event \<Rightarrow> 'o Store \<Rightarrow> go_error + Event \<times> 'o Store" where
  "appendAuditTx E c event s =
     (case event_id c s event of None \<Rightarrow> Inl (Message ''random source'') | Some eventID \<Rightarrow>
      if blank (ev_Actor event) \<or> blank (ev_EventType event) then Inl (Message ''actor and event type are required'')
      else case normalizeJSON E (ev_Payload event) ''{}'' of None \<Rightarrow> Inl (Message ''invalid audit payload'') | Some payload \<Rightarrow>
       (case st_head s of None \<Rightarrow> Inl ErrNoRows | Some (sequence, previous) \<Rightarrow>
        (let e = event\<lparr>ev_EventID := eventID, ev_OccurredAt := occurred_at c event, ev_Payload := payload,
                       ev_Sequence := i64 (sequence + 1), ev_PreviousHash := previous\<rparr> in
         (case hashAudit E previous e of Inl err \<Rightarrow> Inl (Message ''invalid JSON'') | Inr hash \<Rightarrow>
          (let created = e\<lparr>ev_CurrentHash := hash\<rparr> in
           (case insert_event E created s of Inl err \<Rightarrow> Inl err | Inr s' \<Rightarrow>
             Inr (created, s'\<lparr>st_head := Some (ev_Sequence created, hash)\<rparr>)))))))"

text \<open>An event as the operations write it: the fields they leave empty are filled in by the append.\<close>

definition audit_event :: "go_string \<Rightarrow> go_string \<Rightarrow> go_string \<Rightarrow> go_string \<Rightarrow> (go_string \<times> go_string) list \<Rightarrow> go_time \<Rightarrow> Event" where
  "audit_event task query actor type payload at = \<lparr>ev_Sequence = 0, ev_EventID = [], ev_TaskID = task, ev_QueryID = query,
     ev_Actor = actor, ev_EventType = type, ev_Payload = json_object payload, ev_OccurredAt = at,
     ev_PreviousHash = [], ev_CurrentHash = []\<rparr>"

definition AppendAuditEvent :: "('o, 'x) control_env \<Rightarrow> call \<Rightarrow> Event \<Rightarrow> 'o Store \<Rightarrow> (go_error + Event) \<times> 'o Store" where
  "AppendAuditEvent E c event s =
     (case checkOpen ''append audit event'' s of Some err \<Rightarrow> (Inl err, s) | None \<Rightarrow>
      (let event = (if IsZero (ev_OccurredAt event) then event\<lparr>ev_OccurredAt := now c 0\<rparr> else event) in
       (case appendAuditTx E c event s of Inl err \<Rightarrow> (Inl (opErr ''append audit event'' ErrConflict err), s) | Inr (created, s') \<Rightarrow> (Inr created, s'))))"

text \<open>\<open>ORDER BY sequence\<close>, and \<open>scanAudit\<close>\<close>

definition events_by_sequence :: "'o Store \<Rightarrow> Event list" where
  "events_by_sequence s = sort_key ev_Sequence (st_events s)"

definition scanAudit :: "Event \<Rightarrow> Event" where
  "scanAudit e = e\<lparr>ev_OccurredAt := dbTime (ev_OccurredAt e)\<rparr>"

record AuditFilter =
  af_TaskID :: go_string
  af_QueryID :: go_string
  af_Actor :: go_string
  af_EventType :: go_string
  af_After :: int64
  af_Limit :: int64

definition page_limit :: "int64 \<Rightarrow> nat" where
  "page_limit n = (if n \<le> 0 \<or> n > 500 then 100 else nat n)"

definition ListAuditEvents :: "AuditFilter \<Rightarrow> 'o Store \<Rightarrow> go_error + Event list" where
  "ListAuditEvents q s =
     (case checkOpen ''list audit events'' s of Some err \<Rightarrow> Inl err | None \<Rightarrow>
       Inr (map scanAudit (take (page_limit (af_Limit q)) (filter (\<lambda>e.
         ev_Sequence e > af_After q \<and>
         (af_TaskID q = [] \<or> ev_TaskID e = af_TaskID q) \<and>
         (af_QueryID q = [] \<or> ev_QueryID e = af_QueryID q) \<and>
         (af_Actor q = [] \<or> ev_Actor e = af_Actor q) \<and>
         (af_EventType q = [] \<or> ev_EventType e = af_EventType q)) (events_by_sequence s)))))"

definition ListAuditEventsForQuery :: "go_string \<Rightarrow> 'o Store \<Rightarrow> go_error + Event list" where
  "ListAuditEventsForQuery queryID s =
     (case checkOpen ''list query audit events'' s of Some err \<Rightarrow> Inl err | None \<Rightarrow>
       if blank queryID then Inl (opErr ''list query audit events'' ErrInvalid (Message ''query id is required''))
       else Inr (map scanAudit (filter (\<lambda>e. ev_QueryID e = queryID) (events_by_sequence s))))"

definition ListAuditEventsRange :: "int64 \<Rightarrow> int64 \<Rightarrow> 'o Store \<Rightarrow> go_error + Event list" where
  "ListAuditEventsRange after through s =
     (case checkOpen ''list audit event range'' s of Some err \<Rightarrow> Inl err | None \<Rightarrow>
       if after < 0 \<or> through < after then Inl (opErr ''list audit event range'' ErrInvalid (Message ''invalid audit range''))
       else if through = after then Inr []
       else Inr (map scanAudit (filter (\<lambda>e. after < ev_Sequence e \<and> ev_Sequence e \<le> through) (events_by_sequence s))))"

definition GetAuditEvent :: "int64 \<Rightarrow> 'o Store \<Rightarrow> go_error + Event" where
  "GetAuditEvent sequence s =
     (case checkOpen ''get audit event'' s of Some err \<Rightarrow> Inl err | None \<Rightarrow>
       if sequence \<le> 0 then Inl (opErr ''get audit event'' ErrInvalid (Message ''sequence must be positive''))
       else case select_row ev_Sequence sequence (st_events s) of
           None \<Rightarrow> Inl (opErr ''get audit event'' ErrNotFound ErrNoRows)
         | Some e \<Rightarrow> Inr (scanAudit e))"

definition AuditCheckpoint :: "'o Store \<Rightarrow> go_error + Checkpoint" where
  "AuditCheckpoint s =
     (case checkOpen ''audit checkpoint'' s of Some err \<Rightarrow> Inl err | None \<Rightarrow>
       (case st_head s of
          None \<Rightarrow> Inl (opErr ''audit checkpoint'' ErrConflict ErrNoRows)
        | Some (sequence, hash) \<Rightarrow> Inr \<lparr>cp_Sequence = sequence, cp_Hash = hash\<rparr>))"

text \<open>The loop of \<open>VerifyAuditChain\<close>: the previous hash and the expected sequence number.\<close>

fun verify_rows :: "('o, 'x) control_env \<Rightarrow> go_string \<Rightarrow> int64 \<Rightarrow> Event list \<Rightarrow> go_error + go_string \<times> int64" where
  "verify_rows E previous expected [] = Inr (previous, expected)"
| "verify_rows E previous expected (e # es) =
     (if ev_Sequence e \<noteq> expected \<or> ev_PreviousHash e \<noteq> previous
        then Inl (opErr ''verify audit chain'' ErrAuditChainBroken (Message ''invalid predecessor''))
      else case hashAudit E previous e of
          Inl err \<Rightarrow> Inl (opErr ''verify audit chain'' ErrAuditChainBroken (Message ''invalid JSON''))
        | Inr hash \<Rightarrow>
            if \<not> EqualFold hash (ev_CurrentHash e) then Inl (opErr ''verify audit chain'' ErrAuditChainBroken (Message ''hash mismatch''))
            else verify_rows E (ev_CurrentHash e) (i64 (expected + 1)) es)"

definition VerifyAuditChain :: "('o, 'x) control_env \<Rightarrow> 'o Store \<Rightarrow> go_error option" where
  "VerifyAuditChain E s =
     (case checkOpen ''verify audit chain'' s of Some err \<Rightarrow> Some err | None \<Rightarrow>
       (case verify_rows E GenesisHash 1 (map scanAudit (events_by_sequence s)) of Inl err \<Rightarrow> Some err | Inr (previous, expected) \<Rightarrow>
         (case st_head s of None \<Rightarrow> Some (opErr ''verify audit chain'' ErrConflict ErrNoRows) | Some (sequence, hash) \<Rightarrow>
           if sequence \<noteq> i64 (expected - 1) \<or> hash \<noteq> previous
           then Some (opErr ''verify audit chain'' ErrAuditChainBroken (Message ''audit chain head does not match the final event''))
           else None)))"

text \<open>
  A payload survives the database when the hash of what PostgreSQL returns for it is the hash of
  what was stored: normalizing both gives the same text. That is so for every value that JSONB
  keeps, which are all the payloads the store writes itself.
\<close>

definition payload_stable :: "('o, 'x) control_env \<Rightarrow> go_string \<Rightarrow> bool" where
  "payload_stable E raw \<longleftrightarrow>
     (\<forall>p q. normalizeJSON E raw ''{}'' = Some p \<and> ce_jsonb E p = Some q \<longrightarrow>
        NormalizePayload (audit_lib_of E) q = NormalizePayload (audit_lib_of E) p)"

text \<open>Rows are numbered consecutively from one in the order of insertion, and have their identity fields.\<close>

definition events_ok :: "'o Store \<Rightarrow> bool" where
  "events_ok s \<longleftrightarrow> map ev_Sequence (st_events s) = map (\<lambda>i. int i + 1) [0..<length (st_events s)] \<and>
     int (length (st_events s)) \<le> int64_max \<and>
     (\<forall>e\<in>set (st_events s). \<not> blank (ev_EventID e) \<and> \<not> blank (ev_Actor e) \<and> \<not> blank (ev_EventType e) \<and>
        dbTime (ev_OccurredAt e) = ev_OccurredAt e)"

text \<open>The length of the chain stays within the range of the sequence numbers.\<close>

definition chain_room :: "'o Store \<Rightarrow> bool" where
  "chain_room s \<longleftrightarrow> int (length (st_events s)) < int64_max"

definition chain_verified :: "('o, 'x) control_env \<Rightarrow> 'o Store \<Rightarrow> bool" where
  "chain_verified E s \<longleftrightarrow> events_ok s \<and>
     (\<exists>h m. verify_rows E GenesisHash 1 (st_events s) = Inr (h, m) \<and> st_head s = Some (int (length (st_events s)), h))"

text \<open>
  The stores that appends produce from an empty audit table. Between two appends anything may
  happen to the other tables. The hypotheses on an append are about what is outside the code: the
  payload survives JSONB, and the clock does not show the first microsecond of year one.
\<close>

inductive audit_run :: "('o, 'x) control_env \<Rightarrow> 'o Store \<Rightarrow> bool" for E where
  start: "st_events s = [] \<Longrightarrow> st_head s = Some (0, GenesisHash) \<Longrightarrow> \<not> st_closed s \<Longrightarrow> audit_run E s"
| append: "audit_run E s \<Longrightarrow> chain_room s \<Longrightarrow> payload_stable E (ev_Payload event) \<Longrightarrow> occurred_at c event \<noteq> 0 \<Longrightarrow>
    appendAuditTx E c event s = Inr (e, s') \<Longrightarrow> audit_run E s'"
| other: "audit_run E s \<Longrightarrow> st_events s' = st_events s \<Longrightarrow> st_head s' = st_head s \<Longrightarrow> \<not> st_closed s' \<Longrightarrow> audit_run E s'"

section \<open>Lemmas\<close>

lemma strip_one_keeps:
  assumes "strip_one ps s = Some r" and "c \<in> set s" and "\<And>p. p \<in> set ps \<Longrightarrow> c \<notin> set p"
  shows "c \<in> set r"
  using assms
proof (induction ps s rule: strip_one.induct)
  case (2 p ps s)
  show ?case
  proof (cases "p \<noteq> [] \<and> take (length p) s = p")
    case True
    with 2 have "r = drop (length p) s" "c \<notin> set (take (length p) s)" by auto
    with "2.prems"(2) show ?thesis by (metis Un_iff append_take_drop_id set_append)
  qed (use 2 in auto)
qed simp

lemma strip_all_keeps:
  "c \<in> set s \<Longrightarrow> (\<And>p. p \<in> set ps \<Longrightarrow> c \<notin> set p) \<Longrightarrow> c \<in> set (strip_all ps s)"
proof (induction ps s rule: strip_all.induct)
  case (1 ps s)
  show ?case
  proof (cases "strip_one ps s")
    case None
    with 1 show ?thesis by (simp add: strip_all.simps [of ps s])
  next
    case (Some r)
    then have "c \<in> set r" using 1 by (auto intro: strip_one_keeps)
    with Some 1 show ?thesis by (simp add: strip_all.simps [of ps s])
  qed
qed

lemma not_blank_prefix: "\<not> blank (''audit_'' @ s)"
proof -
  have "CHR ''a'' \<notin> set p" if "p \<in> set space_encodings" for p
    using that by (auto simp: space_encodings_def)
  then have "CHR ''a'' \<in> set (TrimSpace (''audit_'' @ s))"
    unfolding TrimSpace_def set_rev by (intro strip_all_keeps) (auto intro!: strip_all_keeps)
  then show ?thesis by auto
qed

lemma hashAudit_position:
  "hashAudit E p (e\<lparr>ev_CurrentHash := h\<rparr>) = hashAudit E p e"
  "hashAudit E p (e\<lparr>ev_Sequence := n\<rparr>) = hashAudit E p e"
  by (simp_all add: hashAudit_def Hash_def hashMaterial_def split: option.split)

text \<open>What a successful append did.\<close>

lemma appendAuditTx_Inr:
  assumes "appendAuditTx E c event s = Inr (e, s')"
  obtains stored n previous where
    "st_head s = Some (n, previous)"
    "s' = s\<lparr>st_events := st_events s @ [e\<lparr>ev_Payload := stored\<rparr>], st_head := Some (i64 (n + 1), ev_CurrentHash e)\<rparr>"
    "normalizeJSON E (ev_Payload event) ''{}'' = Some (ev_Payload e)"
    "ce_jsonb E (ev_Payload e) = Some stored"
    "ev_Sequence e = i64 (n + 1)" "ev_PreviousHash e = previous" "hashAudit E previous e = Inr (ev_CurrentHash e)"
    "\<not> blank (ev_EventID e)" "\<not> blank (ev_Actor e)" "\<not> blank (ev_EventType e)"
    "ev_OccurredAt e = occurred_at c event" "ev_TaskID e = ev_TaskID event" "ev_QueryID e = ev_QueryID event"
    "ev_Actor e = ev_Actor event" "ev_EventType e = ev_EventType event"
proof -
  obtain eventID payload n previous hash where parts: "event_id c s event = Some eventID"
    "\<not> blank (ev_Actor event)" "\<not> blank (ev_EventType event)"
    "normalizeJSON E (ev_Payload event) ''{}'' = Some payload" "st_head s = Some (n, previous)"
    and hash: "hashAudit E previous (event\<lparr>ev_EventID := eventID, ev_OccurredAt := occurred_at c event, ev_Payload := payload,
                       ev_Sequence := i64 (n + 1), ev_PreviousHash := previous\<rparr>) = Inr hash"
    and e: "e = event\<lparr>ev_EventID := eventID, ev_OccurredAt := occurred_at c event, ev_Payload := payload,
                       ev_Sequence := i64 (n + 1), ev_PreviousHash := previous, ev_CurrentHash := hash\<rparr>"
    and ins: "insert_event E e s = Inr (s\<lparr>st_events := st_events s'\<rparr>)"
    and s': "s' = s\<lparr>st_events := st_events s', st_head := Some (i64 (n + 1), hash)\<rparr>"
    using assms unfolding appendAuditTx_def Let_def insert_event_def
    by (auto split: option.splits if_splits sum.splits prod.splits)
  obtain stored where stored: "ce_jsonb E (ev_Payload e) = Some stored" "st_events s' = st_events s @ [e\<lparr>ev_Payload := stored\<rparr>]"
    using ins unfolding insert_event_def by (auto split: option.splits if_splits dest: arg_cong [of _ _ st_events])
  have id: "\<not> blank eventID"
    using parts(1) not_blank_prefix by (auto simp: event_id_def randomID_def split: if_splits option.splits)
  show thesis
    by (rule that [of n previous stored])
      (use parts hash e s' stored id in \<open>simp_all add: hashAudit_position\<close>)
qed

lemma i64_pred: "0 \<le> n \<Longrightarrow> n \<le> int64_max \<Longrightarrow> i64 (i64 (1 + n) - 1) = n"
  by (simp add: i64_def int64_max_def mod_diff_left_eq)

lemma EqualFold_refl [simp]: "EqualFold s s"
  by (simp add: EqualFold_def)

lemma verify_rows_append:
  "verify_rows E p n (xs @ ys) = (case verify_rows E p n xs of Inl err \<Rightarrow> Inl err | Inr (q, m) \<Rightarrow> verify_rows E q m ys)"
  by (induction xs arbitrary: p n) (auto split: sum.splits)

lemma verify_rows_expected:
  "verify_rows E p n xs = Inr (q, m) \<Longrightarrow> n + int (length xs) \<le> int64_max + 1 \<Longrightarrow> 0 \<le> n \<Longrightarrow>
     m = (if xs = [] then n else i64 (n + int (length xs)))"
proof (induction xs arbitrary: p n)
  case (Cons e es)
  then have step: "verify_rows E (ev_CurrentHash e) (i64 (n + 1)) es = Inr (q, m)"
    by (auto split: if_splits sum.splits)
  show ?case
  proof (cases "es = []")
    case True
    with step show ?thesis by simp
  next
    case False
    then have "n + 1 \<le> int64_max" using Cons.prems(2) by (cases es) auto
    then have "i64 (n + 1) = n + 1"
      using Cons.prems(3) by (intro i64_id) (simp add: in_int64_def int64_max_def)
    with False Cons.IH [of "ev_CurrentHash e" "n + 1"] Cons.prems(2,3) step show ?thesis by (simp add: add.assoc)
  qed
qed simp

lemma events_ok_sorted:
  assumes "events_ok s"
  shows "events_by_sequence s = st_events s" and "map scanAudit (events_by_sequence s) = st_events s"
proof -
  have "sorted (map ev_Sequence (st_events s))"
    using assms by (simp add: events_ok_def sorted_iff_nth_mono)
  then show sort: "events_by_sequence s = st_events s" by (simp add: events_by_sequence_def sorted_sort_id sort_key_id_if_sorted)
  show "map scanAudit (events_by_sequence s) = st_events s"
    unfolding sort using assms by (auto simp: events_ok_def scanAudit_def intro: map_idI)
qed

lemma checkOpen_None [simp]: "checkOpen op s = None \<longleftrightarrow> \<not> st_closed s"
  by (simp add: checkOpen_def)

lemma VerifyAuditChain_None:
  assumes "events_ok s"
  shows "VerifyAuditChain E s = None \<longleftrightarrow> \<not> st_closed s \<and>
    (\<exists>h m. verify_rows E GenesisHash 1 (st_events s) = Inr (h, m) \<and> st_head s = Some (int (length (st_events s)), h))"
proof -
  have "m = (if st_events s = [] then 1 else i64 (1 + int (length (st_events s))))"
    if "verify_rows E GenesisHash 1 (st_events s) = Inr (h, m)" for h m
    using verify_rows_expected [OF that] assms by (simp add: events_ok_def)
  moreover have "i64 (i64 (1 + int (length (st_events s))) - 1) = int (length (st_events s))"
    using i64_pred [of "int (length (st_events s))"] assms by (simp add: events_ok_def)
  ultimately have "i64 (m - 1) = int (length (st_events s))" if "verify_rows E GenesisHash 1 (st_events s) = Inr (h, m)" for h m
    using that by (auto simp: i64_def split: if_splits)
  then show ?thesis
    unfolding VerifyAuditChain_def events_ok_sorted(2) [OF assms]
    by (auto simp: checkOpen_def split: sum.splits option.splits prod.splits)
qed

lemma i64_next: "chain_room s \<Longrightarrow> i64 (int (length (st_events s)) + 1) = int (length (st_events s)) + 1"
  by (intro i64_id) (simp add: chain_room_def in_int64_def int64_max_def)

lemma occurred_at_dbTime: "dbTime (occurred_at c e) = occurred_at c e"
  by (simp add: occurred_at_def)

lemma hashAudit_payload:
  "NormalizePayload (audit_lib_of E) q = NormalizePayload (audit_lib_of E) (ev_Payload e) \<Longrightarrow>
     hashAudit E p (e\<lparr>ev_Payload := q\<rparr>) = hashAudit E p e"
  by (simp add: hashAudit_def Hash_def hashMaterial_def split: option.split)

lemma append_events_ok:
  assumes "events_ok s" and "st_head s = Some (int (length (st_events s)), h)" and "chain_room s"
    and "appendAuditTx E c event s = Inr (e, s')"
  shows "events_ok s' \<and> (\<exists>stored. st_events s' = st_events s @ [stored]) \<and>
    st_head s' = Some (int (length (st_events s')), ev_CurrentHash e)"
proof -
  obtain stored n previous where
    head: "st_head s = Some (n, previous)"
    and s': "s' = s\<lparr>st_events := st_events s @ [e\<lparr>ev_Payload := stored\<rparr>], st_head := Some (i64 (n + 1), ev_CurrentHash e)\<rparr>"
    and e: "ev_Sequence e = i64 (n + 1)" "\<not> blank (ev_EventID e)" "\<not> blank (ev_Actor e)" "\<not> blank (ev_EventType e)"
      "ev_OccurredAt e = occurred_at c event"
    using appendAuditTx_Inr [OF assms(4)] by metis
  have n: "n = int (length (st_events s))" using head assms(2) by simp
  have "ev_Sequence e = int (length (st_events s)) + 1" using e(1) n i64_next [OF assms(3)] by simp
  with assms(1,3) e show ?thesis
    unfolding s' n i64_next [OF assms(3)] events_ok_def chain_room_def by (auto simp: occurred_at_dbTime)
qed

text \<open>
  The chain without the handle: the rows verify and the head is the last of them. An append keeps
  it, whoever calls it.
\<close>

lemma append_chain:
  assumes chain: "chain_verified E s" and room: "chain_room s"
    and stable: "payload_stable E (ev_Payload event)" and append: "appendAuditTx E c event s = Inr (e, s')"
  shows "chain_verified E s'"
proof -
  obtain h m where ok: "events_ok s" and rows: "verify_rows E GenesisHash 1 (st_events s) = Inr (h, m)"
    and head: "st_head s = Some (int (length (st_events s)), h)"
    using chain by (auto simp: chain_verified_def)
  have kept: "events_ok s'" and head': "st_head s' = Some (int (length (st_events s')), ev_CurrentHash e)"
    using append_events_ok [OF ok head room append] by auto
  obtain stored n previous where prev: "st_head s = Some (n, previous)"
    and s': "s' = s\<lparr>st_events := st_events s @ [e\<lparr>ev_Payload := stored\<rparr>], st_head := Some (i64 (n + 1), ev_CurrentHash e)\<rparr>"
    and payload: "normalizeJSON E (ev_Payload event) ''{}'' = Some (ev_Payload e)" "ce_jsonb E (ev_Payload e) = Some stored"
    and e: "ev_Sequence e = i64 (n + 1)" "ev_PreviousHash e = previous" "hashAudit E previous e = Inr (ev_CurrentHash e)"
    using appendAuditTx_Inr [OF append] by metis
  have np: "n = int (length (st_events s))" "previous = h" using prev head by simp_all
  have "hashAudit E h (e\<lparr>ev_Payload := stored\<rparr>) = Inr (ev_CurrentHash e)"
    using stable payload e(3) np(2) hashAudit_payload [of E stored e h] unfolding payload_stable_def by auto
  moreover have "m = i64 (int (length (st_events s)) + 1)"
    using verify_rows_expected [OF rows] ok by (auto simp: events_ok_def i64_def add.commute split: if_splits)
  ultimately have "\<exists>m'. verify_rows E GenesisHash 1 (st_events s @ [e\<lparr>ev_Payload := stored\<rparr>]) = Inr (ev_CurrentHash e, m')"
    using rows e np by (simp add: verify_rows_append)
  then show ?thesis using kept head' unfolding chain_verified_def s' by auto
qed

lemma append_grows: "appendAuditTx E c event s = Inr (e, s') \<Longrightarrow> \<exists>stored. st_events s' = st_events s @ [stored] \<and> st_closed s' = st_closed s"
  by (erule appendAuditTx_Inr) auto

lemma VerifyAuditChain_chain: "VerifyAuditChain E s = None \<and> events_ok s \<longleftrightarrow> \<not> st_closed s \<and> chain_verified E s"
  using VerifyAuditChain_None [of s E] by (auto simp: chain_verified_def)

lemma append_verified:
  assumes "events_ok s" and "VerifyAuditChain E s = None" and "chain_room s"
    and "payload_stable E (ev_Payload event)" and "appendAuditTx E c event s = Inr (e, s')"
  shows "events_ok s' \<and> VerifyAuditChain E s' = None"
proof -
  have "\<not> st_closed s" "chain_verified E s" using assms(1,2) VerifyAuditChain_chain [of E s] by auto
  with append_chain [OF _ assms(3-5)] append_grows [OF assms(5)] show ?thesis
    using VerifyAuditChain_chain [of E s'] by auto
qed

text \<open>The rows of a verified table are a chain for the offline verifier.\<close>

lemma lower_ascii_hex: "lower_hex_char c \<Longrightarrow> lower_ascii c = c"
  by (auto simp: lower_hex_char_def lower_ascii_def less_eq_char_def)

lemma EqualFold_sha256: "lower_sha256_hex s \<Longrightarrow> lower_sha256_hex t \<Longrightarrow> EqualFold s t \<longleftrightarrow> s = t"
proof -
  assume "lower_sha256_hex s" "lower_sha256_hex t"
  then have "map lower_ascii s = s" "map lower_ascii t = t"
    by (auto simp: lower_sha256_hex_def list_all_iff lower_ascii_hex intro: map_idI)
  then show ?thesis by (simp add: EqualFold_def)
qed

lemma hashAudit_sha256:
  "hashAudit E p e = Inr h \<Longrightarrow> (\<And>b. length (env_sha256 (ce_exposure E) b) = 32) \<Longrightarrow> lower_sha256_hex h"
  by (auto simp: hashAudit_def Hash_def audit_lib_of_def hex_encode_sha256 split: option.splits)

lemma verify_rows_linear:
  assumes "verify_rows E p n xs = Inr (q, m)" and "lower_sha256_hex p"
    and "\<forall>e\<in>set xs. 0 < ev_Sequence e \<and> lower_sha256_hex (ev_CurrentHash e) \<and> \<not> blank (ev_EventID e) \<and> \<not> blank (ev_Actor e) \<and>
      \<not> blank (ev_EventType e) \<and> \<not> IsZero (ev_OccurredAt e)"
    and "\<And>b. length (env_sha256 (ce_exposure E) b) = 32" and "n = i64 (k + 1)"
  shows "\<exists>l. linear_loop (audit_lib_of E) (p, k) xs = Inr (q, l)"
  using assms
proof (induction xs arbitrary: p n k)
  case (Cons e es)
  obtain h where e: "ev_Sequence e = n" "ev_PreviousHash e = p" "hashAudit E p e = Inr h" "EqualFold h (ev_CurrentHash e)"
    and rest: "verify_rows E (ev_CurrentHash e) (i64 (n + 1)) es = Inr (q, m)"
    using Cons.prems(1) by (auto split: if_splits sum.splits)
  have "lower_sha256_hex h"
    using hashAudit_sha256 [OF e(3) Cons.prems(4)] .
  then have "h = ev_CurrentHash e" using EqualFold_sha256 e(4) Cons.prems(3) by simp
  then have "verifyLink (audit_lib_of E) p e = None"
    using e Cons.prems(2,3) by (simp add: verifyLink_None hashAudit_def)
  then have "linear_step (audit_lib_of E) (p, k) e = Inr (ev_CurrentHash e, n)"
    using e(1) Cons.prems(5) by (simp add: linear_step_def)
  moreover have "\<exists>l. linear_loop (audit_lib_of E) (ev_CurrentHash e, n) es = Inr (q, l)"
    using Cons.IH [OF rest _ _ Cons.prems(4), of n] Cons.prems(3) by simp
  ultimately show ?case by simp
qed simp

lemma audit_run_ok: "audit_run E s \<Longrightarrow> events_ok s \<and> VerifyAuditChain E s = None"
proof (induction rule: audit_run.induct)
  case (start s)
  then have "events_ok s" by (simp add: events_ok_def int64_max_def)
  with start show ?case by (simp add: VerifyAuditChain_None)
next
  case (append s event c e s')
  then show ?case using append_verified by blast
next
  case (other s s')
  then have "events_ok s'" by (simp add: events_ok_def)
  with other show ?case using VerifyAuditChain_None [of s' E] VerifyAuditChain_None [of s E] by simp
qed

lemma append_row:
  assumes "appendAuditTx E c event s = Inr (e, s')" and "\<And>b. length (env_sha256 (ce_exposure E) b) = 32"
  shows "\<exists>row. st_events s' = st_events s @ [row] \<and> lower_sha256_hex (ev_CurrentHash row) \<and>
    ev_OccurredAt row = occurred_at c event"
  using appendAuditTx_Inr [OF assms(1)]
proof cases
  case (1 stored n previous)
  have "lower_sha256_hex (ev_CurrentHash e)"
    using hashAudit_sha256 [OF 1(7) assms(2)] .
  with 1(2,11) show ?thesis by simp
qed

lemma audit_run_rows:
  assumes "audit_run E s" and "\<And>b. length (env_sha256 (ce_exposure E) b) = 32" and "e \<in> set (st_events s)"
  shows "lower_sha256_hex (ev_CurrentHash e) \<and> ev_OccurredAt e \<noteq> 0"
  using assms(1,3)
proof (induction rule: audit_run.induct)
  case (append s event c e' s')
  then show ?case using append_row [OF append.hyps(5) assms(2)] by auto
qed simp_all

section \<open>Properties\<close>

text \<open>
  the audit table that the store builds can be verified, by the store and offline. After any
  number of appends VerifyAuditChain accepts the table, and the range that ListAuditEventsRange
  exports together with the checkpoint of AuditCheckpoint is a chain that VerifyLinear of package
  auditchain accepts; the rows are numbered from one without gaps.
\<close>

theorem audit_table_verifies:
  assumes "audit_run E s" and "\<And>b. length (env_sha256 (ce_exposure E) b) = 32"
  shows "VerifyAuditChain E s = None \<and>
    (\<exists>xs cp. ListAuditEventsRange 0 (int (length (st_events s))) s = Inr xs \<and> AuditCheckpoint s = Inr cp \<and>
       VerifyLinear (audit_lib_of E) xs cp = None \<and> map ev_Sequence xs = map (\<lambda>i. int i + 1) [0..<length (st_events s)])"
proof -
  have ok: "events_ok s" and verified: "VerifyAuditChain E s = None" using audit_run_ok [OF assms(1)] by auto
  then obtain h m where rows: "verify_rows E GenesisHash 1 (st_events s) = Inr (h, m)"
    and head: "st_head s = Some (int (length (st_events s)), h)" and openp: "\<not> st_closed s"
    using VerifyAuditChain_None [OF ok, of E] by auto
  have seqs: "map ev_Sequence (st_events s) = map (\<lambda>i. int i + 1) [0..<length (st_events s)]"
    using ok by (simp add: events_ok_def)
  then have range: "0 < ev_Sequence e \<and> ev_Sequence e \<le> int (length (st_events s))" if "e \<in> set (st_events s)" for e
  proof -
    have "ev_Sequence e \<in> set (map ev_Sequence (st_events s))" using that by simp
    then show ?thesis unfolding seqs by auto
  qed
  have all: "map scanAudit (filter (\<lambda>e. 0 < ev_Sequence e \<and> ev_Sequence e \<le> int (length (st_events s))) (events_by_sequence s)) = st_events s"
    using range events_ok_sorted [OF ok] by (simp add: filter_True)
  have "ListAuditEventsRange 0 (int (length (st_events s))) s = Inr (st_events s)"
    using openp all by (auto simp: ListAuditEventsRange_def checkOpen_def)
  moreover have "AuditCheckpoint s = Inr \<lparr>cp_Sequence = int (length (st_events s)), cp_Hash = h\<rparr>"
    using openp head by (simp add: AuditCheckpoint_def checkOpen_def)
  moreover have "VerifyLinear (audit_lib_of E) (st_events s) \<lparr>cp_Sequence = int (length (st_events s)), cp_Hash = h\<rparr> = None"
  proof -
    have "\<forall>e\<in>set (st_events s). 0 < ev_Sequence e \<and> lower_sha256_hex (ev_CurrentHash e) \<and> \<not> blank (ev_EventID e) \<and>
        \<not> blank (ev_Actor e) \<and> \<not> blank (ev_EventType e) \<and> \<not> IsZero (ev_OccurredAt e)"
      using range audit_run_rows [OF assms] ok by (simp add: events_ok_def)
    moreover have "(1 :: int) = i64 (0 + 1)" by (simp add: i64_def)
    ultimately obtain l where l: "linear_loop (audit_lib_of E) (GenesisHash, 0) (st_events s) = Inr (h, l)"
      using verify_rows_linear [OF rows GenesisHash_sha256 _ assms(2)] by blast
    with linear_loop_sequence [OF l] show ?thesis by (simp add: VerifyLinear_None int64_max_def)
  qed
  ultimately show ?thesis using verified seqs by blast
qed

text \<open>An empty store, and surroundings without V4 and V5 tables, for the examples.\<close>

definition no_ordinal :: "(unit, unit) ordinal_backend" where
  "no_ordinal = \<lparr>od_is_v4 = (\<lambda>_ _. False), od_is_v5 = (\<lambda>_ _. False), od_ensure = (\<lambda>_ _ _ _. Inl DatabaseError),
     od_reserve = (\<lambda>_ _ _ _ _. Inl DatabaseError), od_settle = (\<lambda>_ _ _ _. Inl DatabaseError),
     od_settle_ref = (\<lambda>_ _ _ _. Inl DatabaseError), od_release = (\<lambda>_ _ _. Inl DatabaseError),
     od_ledger_v4 = (\<lambda>_ _. Inl ErrNoRows), od_ledger_v5 = (\<lambda>_ _. Inl ErrNoRows),
     od_charge_v4 = (\<lambda>_ _. Inl ErrNoRows), od_charge_v5 = (\<lambda>_ _. Inl ErrNoRows)\<rparr>"

definition sample_control :: "(unit, unit) control_env" where
  "sample_control = \<lparr>ce_exposure = sample_env32, ce_json = Some, ce_jsonb = Some, ce_json_number = Some,
     ce_json_valid = (\<lambda>_. True), ce_decode_set = (\<lambda>_. Inl (Message ''invalid JSON'')), ce_text_le = (\<le>), ce_ordinal = no_ordinal\<rparr>"

definition empty_store :: "unit Store" where
  "empty_store = \<lparr>st_closed = False, st_principals = [], st_tasks = [], st_grants = [], st_view_sets = [],
     st_view_dependencies = [], st_view_status = [], st_approvals = [], st_budgets = [], st_queries = [], st_ledgers = [],
     st_reservations = [], st_facts = [], st_links = [], st_receipts = [], st_callbacks = [], st_events = [],
     st_head = Some (0, GenesisHash), st_ordinal = ()\<rparr>"

definition sample_call :: call where
  "sample_call = \<lparr>cl_now = (\<lambda>i. 5000 + 1000 * int i), cl_wall = 5000, cl_random = (\<lambda>i. Some (decimal i))\<rparr>"

lemma sample_append:
  "\<exists>e s. appendAuditTx sample_control sample_call (audit_event ''t'' [] ''system'' ''TASK_CREATED'' [] 7000) empty_store = Inr (e, s) \<and>
     length (st_events s) = 1"
proof -
  have "\<not> blank ''system''" "\<not> blank ''TASK_CREATED''" by code_simp+
  then show ?thesis
    by (simp add: appendAuditTx_def event_id_def randomID_def audit_event_def normalizeJSON_def sample_control_def empty_store_def
      hashAudit_def Hash_def NormalizePayload_def audit_lib_of_def insert_event_def sample_call_def Let_def)
qed

theorem audit_table_verifies_witness:
  "\<exists>s. length (st_events s) = 1 \<and> VerifyAuditChain sample_control s = None"
proof -
  let ?ev = "audit_event ''t'' [] ''system'' ''TASK_CREATED'' [] 7000"
  obtain e s where append: "appendAuditTx sample_control sample_call ?ev empty_store = Inr (e, s)" "length (st_events s) = 1"
    using sample_append by blast
  have "audit_run sample_control empty_store" by (rule audit_run.start) (simp_all add: empty_store_def)
  moreover have "chain_room empty_store" by (simp add: chain_room_def empty_store_def int64_max_def)
  moreover have "payload_stable sample_control (ev_Payload ?ev)" by (simp add: payload_stable_def sample_control_def)
  moreover have "occurred_at sample_call ?ev \<noteq> 0" by (simp add: occurred_at_def audit_event_def dbTime_def Truncate_microsecond_def)
  ultimately have "audit_run sample_control s" using append(1) by (rule audit_run.append)
  then have "VerifyAuditChain sample_control s = None"
    using audit_table_verifies [of sample_control s] sample_env32_length by (simp add: sample_control_def)
  with append(2) show ?thesis by blast
qed

end
