(* ===== verification/Control_Exposure.thy ===== *)
theory Control_Exposure
  imports Control_Audit
begin

text \<open>
  The exposure ledger of the profiles V1 to V3 (\<open>control/exposure.go\<close>) and the dispatch to the
  V4 and V5 ledgers (\<open>settleAnyExposureMeasuredTx\<close> and
  \<open>releaseAnyExposureReservationTx\<close> of \<open>ordinal_exposure.go\<close>). A family of tasks shares
  the ledger of its root task: limits and used counts for released, influencing and outcome facts,
  and the table of the facts charged so far. A query reserves at its start, and its settlement
  inserts the facts of its observation that the ledger does not have yet, charges their number, and
  fails without a commit when a limit would be passed.

  The lemmas show that the insertion in chunks of 5000 rows charges exactly the facts that are not
  yet in the table, that the used counts are the numbers of rows of the table and stay within the
  limits, and that no operation removes a fact.
\<close>

section \<open>Definitions\<close>

abbreviation exposureReserved :: go_string where "exposureReserved \<equiv> ''RESERVED''"
abbreviation exposureSettled :: go_string where "exposureSettled \<equiv> ''SETTLED''"
abbreviation exposureReleased :: go_string where "exposureReleased \<equiv> ''RELEASED''"

definition outcome_profile :: "go_string \<Rightarrow> bool" where
  "outcome_profile p \<longleftrightarrow> p = ProfileV3 \<or> p = ProfileV4 \<or> p = ProfileV5"

definition valid_footprint_limits :: "PredicateFootprintLimitsV1 option \<Rightarrow> bool" where
  "valid_footprint_limits limits =
     (case limits of None \<Rightarrow> False | Some l \<Rightarrow>
        \<not> (pf_Version l \<noteq> PredicateFootprintVersion \<or> pf_MaxRawLiteralsPerQuery l \<le> 0 \<or> pf_MaxUniqueAtomsPerQuery l \<le> 0 \<or>
           pf_MaxUniqueAtomsPerQuery l > 65536 \<or> pf_MaxRawLiteralsPerQuery l < pf_MaxUniqueAtomsPerQuery l \<or>
           pf_MaxAtomPayloadBytes l \<le> 0 \<or> pf_MaxTotalAtomPayloadBytes l < pf_MaxAtomPayloadBytes l))"

definition validateExposureGrant :: "ExposureGrant \<Rightarrow> go_error option" where
  "validateExposureGrant g =
     (let release = xl_ReleaseFacts (xg_Limits g); influence = xl_InfluenceFacts (xg_Limits g);
          outcome = xl_OutcomeFacts (xg_Limits g); profile = xg_ProfileVersion g in
      if release < 0 \<or> influence < 0 \<or> outcome < 0 then Some (Message ''exposure limits cannot be negative'')
      else if (release = 0) \<noteq> (influence = 0) then Some (Message ''release and influence limits must both be enabled or disabled'')
      else if release > 0 \<and> blank profile then Some (Message ''exposure profile version is required'')
      else if release > 0 \<and> profile \<notin> {ProfileV1, ProfileV2, ProfileV3, ProfileV4, ProfileV5}
        then Some (Message ''unsupported exposure profile version'')
      else if outcome_profile profile \<and> outcome \<le> 0 then Some (Message ''V3/V4/V5 requires a positive outcome limit'')
      else if \<not> outcome_profile profile \<and> outcome \<noteq> 0 then Some (Message ''outcome limit requires V3/V4/V5'')
      else if release = 0 \<and> profile \<noteq> [] then Some (Message ''exposure profile requires positive limits'')
      else if profile = ProfileV5 then
        (if valid_footprint_limits (xg_PredicateFootprint g) then None
         else Some (Message ''V5 requires valid predicate footprint limits''))
      else if xg_PredicateFootprint g \<noteq> None then Some (Message ''predicate footprint limits require V5'')
      else None)"

definition ensureExposureLedgerTx ::
  "('o, 'x) control_env \<Rightarrow> go_string \<Rightarrow> ExposureGrant \<Rightarrow> go_time \<Rightarrow> 'o Store \<Rightarrow> go_error + 'o Store" where
  "ensureExposureLedgerTx E taskID g at s =
     (case validateExposureGrant g of Some err \<Rightarrow> Inl err | None \<Rightarrow>
      if xg_ProfileVersion g = ProfileV4 \<or> xg_ProfileVersion g = ProfileV5 then
        (case od_ensure (ce_ordinal E) s taskID g at of Inl err \<Rightarrow> Inl err | Inr ord \<Rightarrow> Inr (s\<lparr>st_ordinal := ord\<rparr>))
      else case select_row tk_ID taskID (st_tasks s) of None \<Rightarrow> Inl ErrNoRows | Some t \<Rightarrow>
       (let root = tk_RootTaskID t; existing = select_row led_RootTaskID root (st_ledgers s) in
        if \<not> ExposureGrant_Enabled g then
          (case existing of
             Some l \<Rightarrow> Inl (Message ''delegated task cannot disable its root exposure ledger'')
           | None \<Rightarrow> Inr s)
        else case existing of
            Some l \<Rightarrow>
              if led_ProfileVersion l \<noteq> xg_ProfileVersion g \<or> xl_ReleaseFacts (xg_Limits g) > xl_ReleaseFacts (led_Limits l) \<or>
                 xl_InfluenceFacts (xg_Limits g) > xl_InfluenceFacts (led_Limits l) \<or>
                 xl_OutcomeFacts (xg_Limits g) > xl_OutcomeFacts (led_Limits l)
              then Inl (Message ''delegated exposure grant expands or changes its root ledger'') else Inr s
          | None \<Rightarrow>
              if root \<noteq> taskID then Inl (Message ''delegated task has no root exposure ledger'')
              else case insert_row led_RootTaskID \<lparr>led_RootTaskID = root, led_ProfileVersion = xg_ProfileVersion g,
                     led_Limits = xg_Limits g, led_Used = zero_limits, led_UpdatedAt = dbTime at\<rparr> (st_ledgers s) of
                  Inl err \<Rightarrow> Inl err | Inr ledgers \<Rightarrow> Inr (s\<lparr>st_ledgers := ledgers\<rparr>)))"

text \<open>The audit events that the V4 and V5 transactions append, in order.\<close>

fun append_all :: "('o, 'x) control_env \<Rightarrow> call \<Rightarrow> Event list \<Rightarrow> 'o Store \<Rightarrow> go_error + 'o Store" where
  "append_all E c [] s = Inr s"
| "append_all E c (e # es) s =
     (case appendAuditTx E c e s of Inl err \<Rightarrow> Inl err | Inr (created, s') \<Rightarrow> append_all E c es s')"

definition reserveExposureTx ::
  "('o, 'x) control_env \<Rightarrow> call \<Rightarrow> go_string \<Rightarrow> go_string \<Rightarrow> ExposureReservationRequest option \<Rightarrow> go_time \<Rightarrow> 'o Store \<Rightarrow>
     go_error + ExposureReservation option \<times> 'o Store" where
  "reserveExposureTx E c queryID taskID request at s =
     (case select_row tg_TaskID taskID (st_grants s) of None \<Rightarrow> Inl ErrNoRows | Some g \<Rightarrow>
      if xg_ProfileVersion (tg_Exposure g) = ProfileV4 \<or> xg_ProfileVersion (tg_Exposure g) = ProfileV5 then
        (case od_reserve (ce_ordinal E) s queryID taskID request at of Inl err \<Rightarrow> Inl err | Inr (r, ord, events) \<Rightarrow>
          (case append_all E c events (s\<lparr>st_ordinal := ord\<rparr>) of Inl err \<Rightarrow> Inl err | Inr s' \<Rightarrow> Inr (r, s')))
      else case select_row tk_ID taskID (st_tasks s) of None \<Rightarrow> Inl ErrNoRows | Some t \<Rightarrow>
       (case select_row led_RootTaskID (tk_RootTaskID t) (st_ledgers s) of
          None \<Rightarrow>
            if request \<noteq> None then Inl (Message ''exposure reservation supplied for a resource-only task'') else Inr (None, s)
        | Some l \<Rightarrow>
           (case request of None \<Rightarrow> Inl (Sentinel ErrExposureEvidenceRequired) | Some r \<Rightarrow>
             if blank (xr_ProfileVersion r) \<or> xr_ProfileVersion r \<noteq> led_ProfileVersion l \<or>
                xr_EstimatedReleaseFacts r < 0 \<or> xr_EstimatedInfluenceFacts r < 0 \<or> xr_EstimatedOutcomeFacts r < 0 \<or>
                (led_ProfileVersion l = ProfileV3 \<and> xr_EstimatedOutcomeFacts r = 0) \<or>
                (led_ProfileVersion l \<noteq> ProfileV3 \<and> xr_EstimatedOutcomeFacts r \<noteq> 0)
             then Inl (Message ''invalid exposure reservation'')
             else
              (let reservation = \<lparr>res_QueryID = queryID, res_TaskID = taskID, res_RootTaskID = tk_RootTaskID t,
                     res_ProfileVersion = led_ProfileVersion l, res_EstimatedReleaseFacts = xr_EstimatedReleaseFacts r,
                     res_EstimatedInfluenceFacts = xr_EstimatedInfluenceFacts r, res_EstimatedOutcomeFacts = xr_EstimatedOutcomeFacts r\<rparr> in
               (case insert_row res_QueryID (ExposureReservation.extend reservation (exposure_row.fields exposureReserved zero_limits zero_limits [] (dbTime at) None))
                     (st_reservations s) of
                  Inl err \<Rightarrow> Inl err
                | Inr rows \<Rightarrow> Inr (Some reservation, s\<lparr>st_reservations := rows\<rparr>))))))"

subsection \<open>The table of charged facts\<close>

text \<open>\<open>encodedFact\<close>: hash, JSON identity and canonical payload\<close>

type_synonym encodedFact = "go_string \<times> go_string \<times> byte list"

fun encode_facts :: "('o, 'x) control_env \<Rightarrow> FactID list \<Rightarrow> go_error + encodedFact list" where
  "encode_facts E [] = Inr []"
| "encode_facts E (f # fs) =
     (case FactID_Hash (ce_exposure E) f of Inl err \<Rightarrow> Inl (ExposureError err) | Inr hash \<Rightarrow>
      (case CanonicalPayload (ce_exposure E) f of Inl err \<Rightarrow> Inl (ExposureError err) | Inr payload \<Rightarrow>
       (case encode_facts E fs of Inl err \<Rightarrow> Inl err | Inr es \<Rightarrow> Inr ((hash, json_fact f, payload) # es))))"

definition same_key :: "go_string \<Rightarrow> go_string \<Rightarrow> fact_row \<Rightarrow> bool" where
  "same_key root kind r \<longleftrightarrow> fr_root r = root \<and> fr_kind r = kind"

definition sameJSON :: "('o, 'x) control_env \<Rightarrow> go_string \<Rightarrow> go_string \<Rightarrow> bool" where
  "sameJSON E left right = (case (ce_json_number E left, ce_json_number E right) of
       (Some leftCanonical, Some rightCanonical) \<Rightarrow> leftCanonical = rightCanonical | _ \<Rightarrow> False)"

text \<open>
  The comparison of the stored rows with the expected facts: the map \<open>expected\<close> keeps the last
  fact of a hash.
\<close>

fun check_stored :: "('o, 'x) control_env \<Rightarrow> encodedFact list \<Rightarrow> fact_row list \<Rightarrow> go_error option" where
  "check_stored E es [] = None"
| "check_stored E es (r # rs) =
     (case map_of (rev es) (fr_sha256 r) of
        None \<Rightarrow> Some (Message (''fact hash collision for '' @ fr_sha256 r))
      | Some (identity, payload) \<Rightarrow>
          if (case fr_payload r of Some stored \<Rightarrow> stored \<noteq> payload | None \<Rightarrow> \<not> sameJSON E (fr_identity r) identity)
          then Some (Message (''fact hash collision for '' @ fr_sha256 r))
          else check_stored E es rs)"

text \<open>\<open>INSERT ... ON CONFLICT DO NOTHING RETURNING\<close>: the new table and the number of rows inserted\<close>

fun insert_facts :: "go_string \<Rightarrow> go_string \<Rightarrow> go_string \<Rightarrow> go_time \<Rightarrow> encodedFact list \<Rightarrow> fact_row list \<Rightarrow> fact_row list \<times> nat" where
  "insert_facts root kind queryID at [] rows = (rows, 0)"
| "insert_facts root kind queryID at ((hash, identity, payload) # es) rows =
     (if \<exists>r\<in>set rows. same_key root kind r \<and> fr_sha256 r = hash then insert_facts root kind queryID at es rows
      else (let (rows', n) = insert_facts root kind queryID at es (rows @
              [\<lparr>fr_root = root, fr_kind = kind, fr_sha256 = hash, fr_identity = identity, fr_payload = Some payload,
                fr_first_query = queryID, fr_first_seen = dbTime at\<rparr>]) in (rows', n + 1)))"

definition insert_chunk ::
  "('o, 'x) control_env \<Rightarrow> go_string \<Rightarrow> go_string \<Rightarrow> go_string \<Rightarrow> go_time \<Rightarrow> FactID list \<Rightarrow> fact_row list \<Rightarrow>
     go_error + nat \<times> fact_row list" where
  "insert_chunk E root kind queryID at facts rows =
     (case encode_facts E facts of Inl err \<Rightarrow> Inl err | Inr es \<Rightarrow>
      (let stored = filter (\<lambda>r. same_key root kind r \<and> fr_sha256 r \<in> fst ` set es) rows in
       (case check_stored E es stored of Some err \<Rightarrow> Inl err | None \<Rightarrow>
        (let missing = filter (\<lambda>(hash, _). hash \<notin> fr_sha256 ` set stored) es in
         if missing = [] then Inr (0, rows)
         else (let (rows', n) = insert_facts root kind queryID at missing rows in
           if n \<noteq> length missing then Inl (Message ''fact insertion conflicted despite the root ledger lock'')
           else Inr (n, rows'))))))"

text \<open>
  The loop over the chunks. The number of rows inserted cannot leave the range of int64, since it
  is at most the length of the list of facts.
\<close>

abbreviation chunkSize :: nat where "chunkSize \<equiv> 5000"

function insert_chunks ::
  "('o, 'x) control_env \<Rightarrow> go_string \<Rightarrow> go_string \<Rightarrow> go_string \<Rightarrow> go_time \<Rightarrow> FactID list \<Rightarrow> int64 \<Rightarrow> fact_row list \<Rightarrow>
     go_error + int64 \<times> fact_row list" where
  "insert_chunks E root kind queryID at facts inserted rows =
     (if facts = [] then Inr (inserted, rows)
      else case insert_chunk E root kind queryID at (take chunkSize facts) rows of Inl err \<Rightarrow> Inl err | Inr (n, rows') \<Rightarrow>
        insert_chunks E root kind queryID at (drop chunkSize facts) (inserted + int n) rows')"
  by pat_completeness auto
termination
  by (relation "measure (\<lambda>(E, root, kind, queryID, at, facts, inserted, rows). length facts)") auto

declare insert_chunks.simps [simp del]

definition insertNovelFactsTx ::
  "('o, 'x) control_env \<Rightarrow> go_string \<Rightarrow> go_string \<Rightarrow> go_string \<Rightarrow> FactID list \<Rightarrow> go_time \<Rightarrow> 'o Store \<Rightarrow> go_error + int64 \<times> 'o Store" where
  "insertNovelFactsTx E root kind queryID facts at s =
     (case insert_chunks E root kind queryID at facts 0 (st_facts s) of Inl err \<Rightarrow> Inl err | Inr (n, rows) \<Rightarrow>
       Inr (n, s\<lparr>st_facts := rows\<rparr>))"

text \<open>\<open>INSERT INTO query_exposure_facts ... ON CONFLICT DO NOTHING\<close>; the chunks only bound the statement.\<close>

fun link_facts :: "('o, 'x) control_env \<Rightarrow> go_string \<Rightarrow> go_string \<Rightarrow> go_string \<Rightarrow> FactID list \<Rightarrow> fact_link list \<Rightarrow> go_error + fact_link list" where
  "link_facts E root queryID kind [] links = Inr links"
| "link_facts E root queryID kind (f # fs) links =
     (case FactID_Hash (ce_exposure E) f of Inl err \<Rightarrow> Inl (ExposureError err) | Inr hash \<Rightarrow>
       link_facts E root queryID kind fs
         (if \<exists>l\<in>set links. fl_query l = queryID \<and> fl_kind l = kind \<and> fl_sha256 l = hash then links
          else links @ [\<lparr>fl_root = root, fl_query = queryID, fl_kind = kind, fl_sha256 = hash\<rparr>]))"

definition linkObservedFactsTx ::
  "('o, 'x) control_env \<Rightarrow> go_string \<Rightarrow> go_string \<Rightarrow> go_string \<Rightarrow> FactID list \<Rightarrow> 'o Store \<Rightarrow> go_error + 'o Store" where
  "linkObservedFactsTx E root queryID kind facts s =
     (case link_facts E root queryID kind facts (st_links s) of Inl err \<Rightarrow> Inl err | Inr links \<Rightarrow> Inr (s\<lparr>st_links := links\<rparr>))"

subsection \<open>Settlement\<close>

text \<open>The charge of a V1 to V3 settlement: the fields of the later profiles keep their zero values.\<close>

definition charge_of :: "exposure_row \<Rightarrow> ExposureLimits \<Rightarrow> ExposureLimits \<Rightarrow> go_string \<Rightarrow> ExposureCharge" where
  "charge_of r actual charged digest = \<lparr>ch_QueryID = res_QueryID r, ch_RootTaskID = res_RootTaskID r,
     ch_ProfileVersion = res_ProfileVersion r, ch_Actual = actual, ch_Charged = charged,
     ch_ActualPredicateAtomCount = 0, ch_ChargedPredicateAtomCount = 0, ch_CompositeOutcomeSHA256 = [],
     ch_PredicateContextSHA256 = [], ch_PredicateSetSHA256 = [], ch_ObservationSHA256 = digest,
     ch_DictionarySetDigest = [], ch_ReleaseSetSHA256 = [], ch_InfluenceSetSHA256 = [], ch_OutcomeSetSHA256 = [],
     ch_RootEpoch = 0\<rparr>"

definition stored_charge :: "exposure_row \<Rightarrow> go_string \<Rightarrow> ExposureCharge" where
  "stored_charge r digest = charge_of r (row_actual r) (row_charged r) digest"

definition limits_add :: "ExposureLimits \<Rightarrow> ExposureLimits \<Rightarrow> ExposureLimits" where
  "limits_add a b = \<lparr>xl_ReleaseFacts = xl_ReleaseFacts a + xl_ReleaseFacts b,
     xl_InfluenceFacts = xl_InfluenceFacts a + xl_InfluenceFacts b, xl_OutcomeFacts = xl_OutcomeFacts a + xl_OutcomeFacts b\<rparr>"

definition limits_le :: "ExposureLimits \<Rightarrow> ExposureLimits \<Rightarrow> bool" where
  "limits_le a b \<longleftrightarrow> xl_ReleaseFacts a \<le> xl_ReleaseFacts b \<and> xl_InfluenceFacts a \<le> xl_InfluenceFacts b \<and>
     xl_OutcomeFacts a \<le> xl_OutcomeFacts b"

definition limits_int64 :: "ExposureLimits \<Rightarrow> bool" where
  "limits_int64 a \<longleftrightarrow> in_int64 (xl_ReleaseFacts a) \<and> in_int64 (xl_InfluenceFacts a) \<and> in_int64 (xl_OutcomeFacts a)"

text \<open>The ceiling of the grant of the task, for facts that are new.\<close>

definition passes_ceiling :: "int64 \<Rightarrow> int64 \<Rightarrow> int64 \<Rightarrow> bool" where
  "passes_ceiling used novel limit \<longleftrightarrow> novel > 0 \<and> i64 (used + novel) > limit"

text \<open>
  The update of the ledger row: \<open>used\<close> grows by the new facts where it stays within the limits.
  PostgreSQL refuses a sum outside BIGINT.
\<close>

definition charge_ledger :: "go_string \<Rightarrow> ExposureLimits \<Rightarrow> go_time \<Rightarrow> ExposureLedgerSnapshot list \<Rightarrow> go_error + ExposureLedgerSnapshot list" where
  "charge_ledger root novel at ledgers =
     (let within = (\<lambda>l. led_RootTaskID l = root \<and> limits_le (limits_add (led_Used l) novel) (led_Limits l)) in
      if \<exists>l\<in>set ledgers. led_RootTaskID l = root \<and> \<not> limits_int64 (limits_add (led_Used l) novel) then Inl DatabaseError
      else if length (filter within ledgers) \<noteq> 1 then Inl (Sentinel ErrExposureBudgetExhausted)
      else Inr (update_rows within (\<lambda>l. l\<lparr>led_Used := limits_add (led_Used l) novel, led_UpdatedAt := dbTime at\<rparr>) ledgers))"

definition observation_counts :: "Observation \<Rightarrow> ExposureLimits" where
  "observation_counts n = \<lparr>xl_ReleaseFacts = int (length (ob_Release n)), xl_InfluenceFacts = int (length (ob_Influence n)),
     xl_OutcomeFacts = int (length (ob_Outcome n))\<rparr>"

text \<open>The three insertions and the links of one observation.\<close>

definition store_facts ::
  "('o, 'x) control_env \<Rightarrow> go_string \<Rightarrow> go_string \<Rightarrow> Observation \<Rightarrow> go_time \<Rightarrow> 'o Store \<Rightarrow> go_error + ExposureLimits \<times> 'o Store" where
  "store_facts E root queryID n at s =
     (case insertNovelFactsTx E root ''RELEASE'' queryID (ob_Release n) at s of Inl err \<Rightarrow> Inl err | Inr (newRelease, s1) \<Rightarrow>
      (case insertNovelFactsTx E root ''INFLUENCE'' queryID (ob_Influence n) at s1 of Inl err \<Rightarrow> Inl err | Inr (newInfluence, s2) \<Rightarrow>
       (case insertNovelFactsTx E root ''OUTCOME'' queryID (ob_Outcome n) at s2 of Inl err \<Rightarrow> Inl err | Inr (newOutcome, s3) \<Rightarrow>
        (case linkObservedFactsTx E root queryID ''RELEASE'' (ob_Release n) s3 of Inl err \<Rightarrow> Inl err | Inr s4 \<Rightarrow>
         (case linkObservedFactsTx E root queryID ''INFLUENCE'' (ob_Influence n) s4 of Inl err \<Rightarrow> Inl err | Inr s5 \<Rightarrow>
          (case linkObservedFactsTx E root queryID ''OUTCOME'' (ob_Outcome n) s5 of Inl err \<Rightarrow> Inl err | Inr s6 \<Rightarrow>
            Inr (\<lparr>xl_ReleaseFacts = newRelease, xl_InfluenceFacts = newInfluence, xl_OutcomeFacts = newOutcome\<rparr>, s6)))))))"

definition exposure_settled_event :: "exposure_row \<Rightarrow> Observation \<Rightarrow> ExposureLimits \<Rightarrow> go_string \<Rightarrow> go_time \<Rightarrow> Event" where
  "exposure_settled_event r n novel digest at =
     audit_event (res_TaskID r) (res_QueryID r) ''system'' ''QUERY_EXPOSURE_SETTLED''
       [(''actual_influence_facts'', FormatInt (int (length (ob_Influence n)))),
        (''actual_outcome_facts'', FormatInt (int (length (ob_Outcome n)))),
        (''actual_release_facts'', FormatInt (int (length (ob_Release n)))),
        (''charged_influence_facts'', FormatInt (xl_InfluenceFacts novel)),
        (''charged_outcome_facts'', FormatInt (xl_OutcomeFacts novel)),
        (''charged_release_facts'', FormatInt (xl_ReleaseFacts novel)),
        (''observation_sha256'', json_string digest),
        (''profile_version'', json_string (res_ProfileVersion r)),
        (''root_task_id'', json_string (res_RootTaskID r))] at"

definition mark_settled :: "go_string \<Rightarrow> Observation \<Rightarrow> ExposureLimits \<Rightarrow> go_string \<Rightarrow> go_time \<Rightarrow> exposure_row list \<Rightarrow> exposure_row list" where
  "mark_settled queryID n novel digest at rows =
     update_rows (\<lambda>row. res_QueryID row = queryID \<and> row_status row = exposureReserved)
       (\<lambda>row. row\<lparr>row_status := exposureSettled, row_actual := observation_counts n, row_charged := novel,
          row_observation_sha256 := digest, row_settled_at := Some (dbTime at)\<rparr>) rows"

text \<open>The part of the settlement after the ledger row is locked.\<close>

definition charge_observation ::
  "('o, 'x) control_env \<Rightarrow> call \<Rightarrow> go_time \<Rightarrow> exposure_row \<Rightarrow> ExposureLedgerSnapshot \<Rightarrow> Observation \<Rightarrow> go_string \<Rightarrow> 'o Store \<Rightarrow>
     go_error + ExposureCharge option \<times> 'o Store" where
  "charge_observation E c at r ledger n digest s =
     (case store_facts E (res_RootTaskID r) (res_QueryID r) n at s of Inl err \<Rightarrow> Inl err | Inr (novel, s1) \<Rightarrow>
      (case select_row tg_TaskID (res_TaskID r) (st_grants s1) of None \<Rightarrow> Inl ErrNoRows | Some g \<Rightarrow>
       (let limits = xg_Limits (tg_Exposure g); used = led_Used ledger in
        if passes_ceiling (xl_ReleaseFacts used) (xl_ReleaseFacts novel) (xl_ReleaseFacts limits) \<or>
           passes_ceiling (xl_InfluenceFacts used) (xl_InfluenceFacts novel) (xl_InfluenceFacts limits) \<or>
           passes_ceiling (xl_OutcomeFacts used) (xl_OutcomeFacts novel) (xl_OutcomeFacts limits)
        then Inl (Sentinel ErrExposureBudgetExhausted)
        else case charge_ledger (res_RootTaskID r) novel at (st_ledgers s1) of Inl err \<Rightarrow> Inl err | Inr ledgers \<Rightarrow>
         (let s2 = s1\<lparr>st_ledgers := ledgers, st_reservations := mark_settled (res_QueryID r) n novel digest at (st_reservations s1)\<rparr> in
          (case appendAuditTx E c (exposure_settled_event r n novel digest at) s2 of Inl err \<Rightarrow> Inl err | Inr (e, s3) \<Rightarrow>
            Inr (Some (charge_of r (observation_counts n) novel digest), s3))))))"

definition settleExposureMeasuredTx ::
  "('o, 'x) control_env \<Rightarrow> call \<Rightarrow> go_time \<Rightarrow> go_string \<Rightarrow> Observation option \<Rightarrow> 'o Store \<Rightarrow>
     go_error + ExposureCharge option \<times> 'o Store" where
  "settleExposureMeasuredTx E c at queryID observation s =
     (case select_row res_QueryID queryID (st_reservations s) of
        None \<Rightarrow> (case observation of
            Some ob \<Rightarrow> Inl (Message ''exposure evidence supplied without a reservation'') | None \<Rightarrow> Inr (None, s))
      | Some r \<Rightarrow>
         (case observation of None \<Rightarrow> Inl (Sentinel ErrExposureEvidenceRequired) | Some ob \<Rightarrow>
          (case Normalize (ce_exposure E) ob of Inl err \<Rightarrow> Inl (ExposureError err) | Inr n \<Rightarrow>
           if ob_ProfileVersion n \<noteq> res_ProfileVersion r then Inl (Message ''exposure observation uses a different profile'')
           else if (res_ProfileVersion r = ProfileV3 \<and> length (ob_Outcome n) \<noteq> 1) \<or>
                   (res_ProfileVersion r \<noteq> ProfileV3 \<and> length (ob_Outcome n) \<noteq> 0)
             then Inl (Message ''exposure observation has an invalid outcome fact count'')
           else
            (let digest = hex_encode (env_sha256 (ce_exposure E) (bytes_of (json_observation n))) in
             if row_status r = exposureSettled then
               (if row_observation_sha256 r \<noteq> digest then Inl (Message ''query already settled with different exposure evidence'')
                else Inr (Some (stored_charge r digest), s))
             else if row_status r \<noteq> exposureReserved then Inl (Message (''exposure reservation is '' @ row_status r))
             else case select_row led_RootTaskID (res_RootTaskID r) (st_ledgers s) of None \<Rightarrow> Inl ErrNoRows | Some ledger \<Rightarrow>
               charge_observation E c at r ledger n digest s))))"

definition releaseExposureReservationTx ::
  "('o, 'x) control_env \<Rightarrow> call \<Rightarrow> go_time \<Rightarrow> go_string \<Rightarrow> 'o Store \<Rightarrow> go_error + 'o Store" where
  "releaseExposureReservationTx E c at queryID s =
     (case select_row res_QueryID queryID (st_reservations s) of None \<Rightarrow> Inr s | Some r \<Rightarrow>
       if row_status r = exposureReleased then Inr s
       else if row_status r \<noteq> exposureReserved then Inl (Message (''cannot release '' @ row_status r @ '' exposure reservation''))
       else
        (let s1 = s\<lparr>st_reservations := update_rows (\<lambda>row. res_QueryID row = queryID \<and> row_status row = exposureReserved)
               (\<lambda>row. row\<lparr>row_status := exposureReleased, row_settled_at := Some (dbTime at)\<rparr>) (st_reservations s)\<rparr> in
         (case appendAuditTx E c (audit_event (res_TaskID r) queryID ''system'' ''QUERY_EXPOSURE_RELEASED''
                 [(''root_task_id'', json_string (res_RootTaskID r))] at) s1 of
            Inl err \<Rightarrow> Inl err | Inr (e, s2) \<Rightarrow> Inr s2)))"

subsection \<open>Dispatch to the V4 and V5 ledgers\<close>

definition apply_settle :: "('o, 'x) control_env \<Rightarrow> call \<Rightarrow> 'o Store \<Rightarrow> go_error + ExposureCharge \<times> 'o \<times> Event list \<Rightarrow>
    go_error + ExposureCharge option \<times> 'o Store" where
  "apply_settle E c s result =
     (case result of Inl err \<Rightarrow> Inl err | Inr (charge, ord, events) \<Rightarrow>
       (case append_all E c events (s\<lparr>st_ordinal := ord\<rparr>) of Inl err \<Rightarrow> Inl err | Inr s' \<Rightarrow> Inr (Some charge, s')))"

definition settleAnyExposureMeasuredTx ::
  "('o, 'x) control_env \<Rightarrow> call \<Rightarrow> go_time \<Rightarrow> 'x BudgetSettlement \<Rightarrow> 'o Store \<Rightarrow> go_error + ExposureCharge option \<times> 'o Store" where
  "settleAnyExposureMeasuredTx E c at b s =
     (if od_is_v5 (ce_ordinal E) (st_ordinal s) (bs_QueryID b) then
        (if (bs_OrdinalExposure b = None) = (bs_OrdinalObservationRef b = None) \<or> bs_Exposure b \<noteq> None
         then Inl (Message ''V5 requires exactly one observation or committed observation reference'')
         else case bs_OrdinalObservationRef b of
             Some ref \<Rightarrow> apply_settle E c s (od_settle_ref (ce_ordinal E) s at (bs_QueryID b) ref)
           | None \<Rightarrow> apply_settle E c s (od_settle (ce_ordinal E) s at (bs_QueryID b) (the (bs_OrdinalExposure b))))
      else if od_is_v4 (ce_ordinal E) (st_ordinal s) (bs_QueryID b) then
        (if (bs_OrdinalExposure b = None) = (bs_OrdinalObservationRef b = None) then
           (if bs_OrdinalExposure b = None then Inl (Sentinel ErrExposureEvidenceRequired)
            else Inl (Message ''V4 observation and observation reference are mutually exclusive''))
         else if bs_Exposure b \<noteq> None then Inl (Message ''legacy and V4 exposure evidence are mutually exclusive'')
         else case bs_OrdinalObservationRef b of
             Some ref \<Rightarrow> apply_settle E c s (od_settle_ref (ce_ordinal E) s at (bs_QueryID b) ref)
           | None \<Rightarrow> (case bs_OrdinalExposure b of
                 None \<Rightarrow> Inl (Sentinel ErrExposureEvidenceRequired)
               | Some x \<Rightarrow> apply_settle E c s (od_settle (ce_ordinal E) s at (bs_QueryID b) x)))
      else if bs_OrdinalExposure b \<noteq> None \<or> bs_OrdinalObservationRef b \<noteq> None
        then Inl (Message ''V4 exposure evidence supplied without a V4 reservation'')
      else settleExposureMeasuredTx E c at (bs_QueryID b) (bs_Exposure b) s)"

definition releaseAnyExposureReservationTx ::
  "('o, 'x) control_env \<Rightarrow> call \<Rightarrow> go_time \<Rightarrow> go_string \<Rightarrow> 'o Store \<Rightarrow> go_error + 'o Store" where
  "releaseAnyExposureReservationTx E c at queryID s =
     (if od_is_v5 (ce_ordinal E) (st_ordinal s) queryID \<or> od_is_v4 (ce_ordinal E) (st_ordinal s) queryID then
        (case od_release (ce_ordinal E) s at queryID of Inl err \<Rightarrow> Inl err | Inr (ord, events) \<Rightarrow>
          append_all E c events (s\<lparr>st_ordinal := ord\<rparr>))
      else releaseExposureReservationTx E c at queryID s)"

subsection \<open>Reading the ledger and the charge\<close>

text \<open>The V5, V4 and V1 to V3 tables are asked in turn; only an absent row passes to the next.\<close>

definition GetExposureLedger :: "('o, 'x) control_env \<Rightarrow> go_string \<Rightarrow> 'o Store \<Rightarrow> go_error + ExposureLedgerSnapshot" where
  "GetExposureLedger E taskID s =
     (case checkOpen ''get exposure ledger'' s of Some err \<Rightarrow> Inl err | None \<Rightarrow>
      (case od_ledger_v5 (ce_ordinal E) s taskID of Inr result \<Rightarrow> Inr result | Inl err5 \<Rightarrow>
       if \<not> isNoRows err5 then Inl (opErr ''get exposure ledger'' ErrConflict err5)
       else case od_ledger_v4 (ce_ordinal E) s taskID of Inr result \<Rightarrow> Inr result | Inl err4 \<Rightarrow>
       if \<not> isNoRows err4 then Inl (opErr ''get exposure ledger'' ErrConflict err4)
       else case Option.bind (select_row tk_ID taskID (st_tasks s)) (\<lambda>t. select_row led_RootTaskID (tk_RootTaskID t) (st_ledgers s)) of
           None \<Rightarrow> Inl (opErr ''get exposure ledger'' ErrNotFound ErrNoRows)
         | Some l \<Rightarrow> Inr (l\<lparr>led_UpdatedAt := dbTime (led_UpdatedAt l)\<rparr>)))"

definition GetExposureCharge :: "('o, 'x) control_env \<Rightarrow> go_string \<Rightarrow> 'o Store \<Rightarrow> go_error + ExposureCharge" where
  "GetExposureCharge E queryID s =
     (case checkOpen ''get exposure charge'' s of Some err \<Rightarrow> Inl err | None \<Rightarrow>
      (case od_charge_v4 (ce_ordinal E) s queryID of Inr charge \<Rightarrow> Inr charge | Inl err4 \<Rightarrow>
       if \<not> isNoRows err4 then Inl (opErr ''get exposure charge'' ErrConflict err4)
       else case od_charge_v5 (ce_ordinal E) s queryID of Inr charge \<Rightarrow> Inr charge | Inl err5 \<Rightarrow>
       if \<not> isNoRows err5 then Inl (opErr ''get exposure charge'' ErrConflict err5)
       else case select_row res_QueryID queryID (st_reservations s) of
           None \<Rightarrow> Inl (opErr ''get exposure charge'' ErrNotFound ErrNoRows)
         | Some r \<Rightarrow>
             if row_status r \<noteq> exposureSettled
             then Inl (opErr ''get exposure charge'' ErrNotFound (Message (''exposure reservation is '' @ row_status r)))
             else Inr (stored_charge r (row_observation_sha256 r))))"

section \<open>The invariant\<close>

definition fact_key :: "fact_row \<Rightarrow> go_string \<times> go_string \<times> go_string" where
  "fact_key r = (fr_root r, fr_kind r, fr_sha256 r)"

text \<open>The hashes that a family has been charged for in one dimension, and their number.\<close>

definition charged_hashes :: "go_string \<Rightarrow> go_string \<Rightarrow> fact_row list \<Rightarrow> go_string set" where
  "charged_hashes root kind rows = fr_sha256 ` {r \<in> set rows. same_key root kind r}"

definition fact_count :: "go_string \<Rightarrow> go_string \<Rightarrow> fact_row list \<Rightarrow> int" where
  "fact_count root kind rows = int (length (filter (same_key root kind) rows))"

definition fact_counts :: "go_string \<Rightarrow> fact_row list \<Rightarrow> ExposureLimits" where
  "fact_counts root rows = \<lparr>xl_ReleaseFacts = fact_count root ''RELEASE'' rows,
     xl_InfluenceFacts = fact_count root ''INFLUENCE'' rows, xl_OutcomeFacts = fact_count root ''OUTCOME'' rows\<rparr>"

definition ledgers_ok :: "ExposureLedgerSnapshot list \<Rightarrow> fact_row list \<Rightarrow> bool" where
  "ledgers_ok ledgers rows \<longleftrightarrow> distinct (map led_RootTaskID ledgers) \<and> distinct (map fact_key rows) \<and>
     fr_root ` set rows \<subseteq> led_RootTaskID ` set ledgers \<and>
     (\<forall>l\<in>set ledgers. led_Used l = fact_counts (led_RootTaskID l) rows \<and> limits_le (led_Used l) (led_Limits l))"

abbreviation exposure_ok :: "'o Store \<Rightarrow> bool" where
  "exposure_ok s \<equiv> ledgers_ok (st_ledgers s) (st_facts s)"

text \<open>The tables that the exposure transactions leave alone.\<close>

definition core_same :: "'o Store \<Rightarrow> 'o Store \<Rightarrow> bool" where
  "core_same s s' \<longleftrightarrow> st_closed s' = st_closed s \<and> st_principals s' = st_principals s \<and> st_tasks s' = st_tasks s \<and>
     st_grants s' = st_grants s \<and> st_view_sets s' = st_view_sets s \<and> st_view_dependencies s' = st_view_dependencies s \<and>
     st_view_status s' = st_view_status s \<and> st_approvals s' = st_approvals s \<and> st_budgets s' = st_budgets s \<and>
     st_queries s' = st_queries s \<and> st_receipts s' = st_receipts s \<and> st_callbacks s' = st_callbacks s"

text \<open>A store after an exposure transaction: the ledger is in order and no fact is lost.\<close>

definition exposure_step :: "'o Store \<Rightarrow> 'o Store \<Rightarrow> bool" where
  "exposure_step s s' \<longleftrightarrow> core_same s s' \<and> (exposure_ok s \<longrightarrow> exposure_ok s' \<and> (\<exists>new. st_facts s' = st_facts s @ new))"

section \<open>Lemmas\<close>

subsection \<open>Appending audit events changes the audit tables only\<close>

lemma charge_of_fields [simp]:
  "ch_Charged (charge_of r a b d) = b" "ch_ObservationSHA256 (charge_of r a b d) = d"
  by (simp_all add: charge_of_def)

lemma append_frame:
  assumes "appendAuditTx E c event s = Inr (e, s')"
  obtains events head where "s' = s\<lparr>st_events := events, st_head := head\<rparr>"
  using appendAuditTx_Inr [OF assms] by metis

lemma append_all_frame:
  "append_all E c es s = Inr s' \<Longrightarrow> \<exists>events head. s' = s\<lparr>st_events := events, st_head := head\<rparr>"
proof (induction es arbitrary: s)
  case Nil
  then have "s' = s\<lparr>st_events := st_events s, st_head := st_head s\<rparr>" by simp
  then show ?case by blast
next
  case (Cons e es)
  then obtain e' s1 where s1: "appendAuditTx E c e s = Inr (e', s1)" "append_all E c es s1 = Inr s'"
    by (auto split: sum.splits)
  obtain events head where "s1 = s\<lparr>st_events := events, st_head := head\<rparr>" using append_frame [OF s1(1)] .
  with Cons.IH [OF s1(2)] show ?case by auto
qed

subsection \<open>The table of facts\<close>

lemma encode_facts_Inr:
  "encode_facts E fs = Inr es \<Longrightarrow> map fst es = map (hash_of (ce_exposure E)) fs"
proof (induction fs arbitrary: es)
  case (Cons f fs)
  then show ?case by (auto simp: Hash_Inr_iff split: sum.splits)
qed simp

lemma charged_hashes_append:
  "charged_hashes root kind (xs @ ys) = charged_hashes root kind xs \<union> charged_hashes root kind ys"
  by (auto simp: charged_hashes_def)

lemma charged_hashes_Cons:
  "charged_hashes root kind (r # rs) = (if same_key root kind r then {fr_sha256 r} else {}) \<union> charged_hashes root kind rs"
  by (auto simp: charged_hashes_def)

lemma charged_hashes_Nil [simp]: "charged_hashes root kind [] = {}"
  by (simp add: charged_hashes_def)

text \<open>What the insertion adds: one row for every new hash.\<close>

lemma insert_facts_rows:
  assumes "insert_facts root kind q at es rows = (rows', n)"
  shows "\<exists>new. rows' = rows @ new \<and> n = length new \<and> (\<forall>r\<in>set new. same_key root kind r \<and> fr_sha256 r \<in> fst ` set es) \<and>
    charged_hashes root kind rows' = charged_hashes root kind rows \<union> fst ` set es \<and>
    (distinct (map fact_key rows) \<longrightarrow> distinct (map fact_key rows'))"
  using assms
proof (induction es arbitrary: rows n)
  case (Cons e es)
  obtain hash identity payload where e: "e = (hash, identity, payload)" by (cases e) auto
  show ?case
  proof (cases "\<exists>r\<in>set rows. same_key root kind r \<and> fr_sha256 r = hash")
    case True
    then have "hash \<in> charged_hashes root kind rows" by (auto simp: charged_hashes_def)
    moreover have "insert_facts root kind q at es rows = (rows', n)" using Cons.prems True e by simp
    ultimately show ?thesis using Cons.IH [of rows n] e by fastforce
  next
    case False
    let ?r = "\<lparr>fr_root = root, fr_kind = kind, fr_sha256 = hash, fr_identity = identity, fr_payload = Some payload,
                fr_first_query = q, fr_first_seen = dbTime at\<rparr>"
    obtain k where k: "insert_facts root kind q at es (rows @ [?r]) = (rows', k)" "n = k + 1"
      using Cons.prems False e by (auto simp: Let_def split: prod.splits)
    have key: "same_key root kind ?r" by (simp add: same_key_def)
    then have "charged_hashes root kind (rows @ [?r]) = insert hash (charged_hashes root kind rows)"
      by (simp add: charged_hashes_append charged_hashes_Cons)
    moreover have "distinct (map fact_key rows) \<Longrightarrow> distinct (map fact_key (rows @ [?r]))"
      using False by (auto simp: fact_key_def same_key_def)
    moreover obtain new where "rows' = (rows @ [?r]) @ new" "k = length new" "\<forall>r\<in>set new. same_key root kind r \<and> fr_sha256 r \<in> fst ` set es"
      "charged_hashes root kind rows' = charged_hashes root kind (rows @ [?r]) \<union> fst ` set es"
      "distinct (map fact_key (rows @ [?r])) \<longrightarrow> distinct (map fact_key rows')"
      using Cons.IH [OF k(1)] by blast
    ultimately show ?thesis using e k(2) key by (intro exI [of _ "?r # new"]) auto
  qed
qed simp

lemma insert_chunk_rows:
  assumes "insert_chunk E root kind q at fs rows = Inr (n, rows')"
  shows "\<exists>new. rows' = rows @ new \<and> n = length new \<and> (\<forall>r\<in>set new. same_key root kind r \<and> fr_sha256 r \<in> fact_hashes (ce_exposure E) fs) \<and>
    charged_hashes root kind rows' = charged_hashes root kind rows \<union> fact_hashes (ce_exposure E) fs \<and>
    (distinct (map fact_key rows) \<longrightarrow> distinct (map fact_key rows'))"
proof -
  obtain es where es: "encode_facts E fs = Inr es" using assms by (auto simp: insert_chunk_def split: sum.splits)
  let ?stored = "filter (\<lambda>r. same_key root kind r \<and> fr_sha256 r \<in> fst ` set es) rows"
  let ?missing = "filter (\<lambda>(hash, _). hash \<notin> fr_sha256 ` set ?stored) es"
  have hashes: "fst ` set es = fact_hashes (ce_exposure E) fs"
    using encode_facts_Inr [OF es] by (metis fact_hashes_def list.set_map)
  have stored: "fr_sha256 ` set ?stored = charged_hashes root kind rows \<inter> fst ` set es"
    by (auto simp: charged_hashes_def)
  then have union: "charged_hashes root kind rows \<union> fst ` set ?missing = charged_hashes root kind rows \<union> fst ` set es"
    by force
  show ?thesis
  proof (cases "?missing = []")
    case True
    then have "rows' = rows" "n = 0" using assms es by (auto simp: insert_chunk_def Let_def split: option.splits if_splits)
    moreover have "charged_hashes root kind rows = charged_hashes root kind rows \<union> fst ` set es"
      using union unfolding True by simp
    ultimately show ?thesis using hashes by auto
  next
    case False
    then have ins: "insert_facts root kind q at ?missing rows = (rows', n)"
      using assms es by (auto simp: insert_chunk_def Let_def split: option.splits if_splits prod.splits)
    have sub: "h \<in> fact_hashes (ce_exposure E) fs" if "h \<in> fst ` set ?missing" for h
      using that unfolding hashes [symmetric] by auto
    obtain new where new: "rows' = rows @ new" "n = length new" "\<forall>r\<in>set new. same_key root kind r \<and> fr_sha256 r \<in> fst ` set ?missing"
      "charged_hashes root kind rows' = charged_hashes root kind rows \<union> fst ` set ?missing"
      "distinct (map fact_key rows) \<longrightarrow> distinct (map fact_key rows')"
      using insert_facts_rows [OF ins] by (elim exE conjE)
    have "charged_hashes root kind rows' = charged_hashes root kind rows \<union> fact_hashes (ce_exposure E) fs"
      by (rule trans [OF new(4) trans [OF union]]) (simp add: hashes)
    moreover have "\<forall>r\<in>set new. same_key root kind r \<and> fr_sha256 r \<in> fact_hashes (ce_exposure E) fs"
      using new(3) sub by blast
    ultimately show ?thesis using new(1,2,5) by (intro exI [of _ new] conjI)
  qed
qed

lemma insert_chunks_rows:
  assumes "insert_chunks E root kind q at fs k rows = Inr (n, rows')"
  shows "\<exists>new. rows' = rows @ new \<and> n = k + int (length new) \<and> (\<forall>r\<in>set new. same_key root kind r) \<and>
    charged_hashes root kind rows' = charged_hashes root kind rows \<union> fact_hashes (ce_exposure E) fs \<and>
    (distinct (map fact_key rows) \<longrightarrow> distinct (map fact_key rows'))"
  using assms
proof (induction E root kind q at fs k rows rule: insert_chunks.induct)
  case (1 E root kind q at fs k rows)
  show ?case
  proof (cases "fs = []")
    case True
    with "1.prems" show ?thesis by (simp add: insert_chunks.simps fact_hashes_def)
  next
    case False
    then obtain m rows1 where chunk: "insert_chunk E root kind q at (take chunkSize fs) rows = Inr (m, rows1)"
      and rest: "insert_chunks E root kind q at (drop chunkSize fs) (k + int m) rows1 = Inr (n, rows')"
      using "1.prems" by (subst (asm) insert_chunks.simps) (auto split: sum.splits prod.splits)
    obtain new1 where new1: "rows1 = rows @ new1" "m = length new1" "\<forall>r\<in>set new1. same_key root kind r"
      "charged_hashes root kind rows1 = charged_hashes root kind rows \<union> fact_hashes (ce_exposure E) (take chunkSize fs)"
      "distinct (map fact_key rows) \<longrightarrow> distinct (map fact_key rows1)"
      using insert_chunk_rows [OF chunk] by blast
    obtain new2 where new2: "rows' = rows1 @ new2" "n = k + int m + int (length new2)" "\<forall>r\<in>set new2. same_key root kind r"
      "charged_hashes root kind rows' = charged_hashes root kind rows1 \<union> fact_hashes (ce_exposure E) (drop chunkSize fs)"
      "distinct (map fact_key rows1) \<longrightarrow> distinct (map fact_key rows')"
      using "1.IH" [OF False chunk refl rest] by blast
    have "fact_hashes (ce_exposure E) fs = fact_hashes (ce_exposure E) (take chunkSize fs) \<union> fact_hashes (ce_exposure E) (drop chunkSize fs)"
      unfolding fact_hashes_def image_Un [symmetric] set_append [symmetric] append_take_drop_id ..
    with new1 new2 show ?thesis by (intro exI [of _ "new1 @ new2"]) auto
  qed
qed

text \<open>\<open>new\<close> are the rows that a list of facts adds to a table in one dimension.\<close>

definition facts_added :: "exposure_env \<Rightarrow> go_string \<Rightarrow> go_string \<Rightarrow> FactID list \<Rightarrow> fact_row list \<Rightarrow> fact_row list \<Rightarrow> bool" where
  "facts_added X root kind fs rows new \<longleftrightarrow> (\<forall>r\<in>set new. same_key root kind r) \<and>
     charged_hashes root kind (rows @ new) = charged_hashes root kind rows \<union> fact_hashes X fs \<and>
     distinct (map fact_key (rows @ new))"

lemma insertNovelFactsTx_Inr:
  assumes "insertNovelFactsTx E root kind q fs at s = Inr (n, s')" and "distinct (map fact_key (st_facts s))"
  shows "\<exists>new. s' = s\<lparr>st_facts := st_facts s @ new\<rparr> \<and> n = int (length new) \<and>
    facts_added (ce_exposure E) root kind fs (st_facts s) new"
proof -
  obtain rows where rows: "insert_chunks E root kind q at fs 0 (st_facts s) = Inr (n, rows)" "s' = s\<lparr>st_facts := rows\<rparr>"
    using assms by (auto simp: insertNovelFactsTx_def split: sum.splits prod.splits)
  obtain new where "rows = st_facts s @ new" "n = int (length new)" "\<forall>r\<in>set new. same_key root kind r"
    "charged_hashes root kind rows = charged_hashes root kind (st_facts s) \<union> fact_hashes (ce_exposure E) fs"
    "distinct (map fact_key rows)"
    using insert_chunks_rows [OF rows(1)] assms(2) by auto
  with rows(2) show ?thesis by (intro exI [of _ new]) (simp add: facts_added_def)
qed

lemma fact_count_append [simp]: "fact_count root kind (xs @ ys) = fact_count root kind xs + fact_count root kind ys"
  by (simp add: fact_count_def)

lemma fact_count_all: "\<forall>r\<in>set rows. same_key root kind r \<Longrightarrow> fact_count root kind rows = int (length rows)"
  by (simp add: fact_count_def filter_True)

lemma fact_count_none: "\<forall>r\<in>set rows. \<not> same_key root kind r \<Longrightarrow> fact_count root kind rows = 0"
  by (simp add: fact_count_def filter_False)

lemma charged_hashes_none: "\<forall>r\<in>set rows. \<not> same_key root kind r \<Longrightarrow> charged_hashes root kind rows = {}"
  by (auto simp: charged_hashes_def)

lemma other_kind: "same_key root kind r \<Longrightarrow> same_key root kind' r \<longleftrightarrow> kind' = kind"
  by (auto simp: same_key_def)

text \<open>With distinct keys the number of rows is the number of hashes, so what is new is what was not charged.\<close>

lemma fact_count_card:
  assumes "distinct (map fact_key rows)"
  shows "fact_count root kind rows = int (card (charged_hashes root kind rows))"
proof -
  have "distinct (map fact_key (filter (same_key root kind) rows))"
    using assms by (simp add: distinct_map inj_on_def)
  moreover have "inj_on fr_sha256 (set (filter (same_key root kind) rows))"
    using calculation by (auto simp: distinct_map inj_on_def fact_key_def same_key_def)
  ultimately have "distinct (map fr_sha256 (filter (same_key root kind) rows))" by (simp add: distinct_map)
  then have "length (filter (same_key root kind) rows) = card (set (map fr_sha256 (filter (same_key root kind) rows)))"
    by (metis distinct_card length_map)
  then show ?thesis by (simp add: fact_count_def charged_hashes_def Collect_conj_eq)
qed

lemma finite_charged_hashes [simp]: "finite (charged_hashes root kind rows)"
  by (simp add: charged_hashes_def)

lemma facts_added_count:
  assumes "facts_added X root kind fs rows new"
  shows "int (length new) = int (card (fact_hashes X fs - charged_hashes root kind rows))"
proof -
  let ?H = "fact_hashes X fs"
  have keys: "distinct (map fact_key (rows @ new))" and same: "\<forall>r\<in>set new. same_key root kind r"
    and union: "charged_hashes root kind (rows @ new) = charged_hashes root kind rows \<union> ?H"
    using assms by (simp_all add: facts_added_def)
  have "distinct (map fact_key rows)" using keys by simp
  then have "fact_count root kind rows = int (card (charged_hashes root kind rows))" by (rule fact_count_card)
  moreover have "fact_count root kind (rows @ new) = int (card (charged_hashes root kind rows \<union> ?H))"
    using fact_count_card [OF keys] union by metis
  moreover have "card (charged_hashes root kind rows \<union> ?H) = card (charged_hashes root kind rows) + card (?H - charged_hashes root kind rows)"
    using card_Un_disjoint [of "charged_hashes root kind rows" "?H - charged_hashes root kind rows"]
    by (simp add: Un_Diff_cancel fact_hashes_def)
  moreover have "fact_count root kind (rows @ new) = fact_count root kind rows + int (length new)"
    using fact_count_all [OF same] by simp
  ultimately show ?thesis by linarith
qed

lemma facts_added_other:
  assumes "facts_added X root kind fs rows new" and "kind' \<noteq> kind"
  shows "charged_hashes root kind' (rows @ new) = charged_hashes root kind' rows \<and> fact_count root kind' new = 0"
proof -
  have "\<forall>r\<in>set new. \<not> same_key root kind' r"
    using assms by (auto simp: facts_added_def same_key_def)
  then show ?thesis by (simp add: charged_hashes_append charged_hashes_none fact_count_none)
qed

lemma linkObservedFactsTx_frame:
  "linkObservedFactsTx E root q kind fs s = Inr s' \<Longrightarrow> \<exists>links. s' = s\<lparr>st_links := links\<rparr>"
  by (auto simp: linkObservedFactsTx_def split: sum.splits)

text \<open>The novelty of an observation against a table of facts, in the three dimensions.\<close>

definition novelty :: "exposure_env \<Rightarrow> go_string \<Rightarrow> fact_row list \<Rightarrow> Observation \<Rightarrow> ExposureLimits" where
  "novelty X root rows n = \<lparr>
     xl_ReleaseFacts = int (card (fact_hashes X (ob_Release n) - charged_hashes root ''RELEASE'' rows)),
     xl_InfluenceFacts = int (card (fact_hashes X (ob_Influence n) - charged_hashes root ''INFLUENCE'' rows)),
     xl_OutcomeFacts = int (card (fact_hashes X (ob_Outcome n) - charged_hashes root ''OUTCOME'' rows))\<rparr>"

text \<open>The rows of the three dimensions together.\<close>

definition observation_added :: "exposure_env \<Rightarrow> go_string \<Rightarrow> Observation \<Rightarrow> fact_row list \<Rightarrow> fact_row list \<Rightarrow> bool" where
  "observation_added X root n rows new \<longleftrightarrow> (\<forall>r\<in>set new. fr_root r = root) \<and> distinct (map fact_key (rows @ new)) \<and>
     fact_counts root (rows @ new) = limits_add (fact_counts root rows) (novelty X root rows n) \<and>
     charged_hashes root ''RELEASE'' (rows @ new) = charged_hashes root ''RELEASE'' rows \<union> fact_hashes X (ob_Release n) \<and>
     charged_hashes root ''INFLUENCE'' (rows @ new) = charged_hashes root ''INFLUENCE'' rows \<union> fact_hashes X (ob_Influence n) \<and>
     charged_hashes root ''OUTCOME'' (rows @ new) = charged_hashes root ''OUTCOME'' rows \<union> fact_hashes X (ob_Outcome n)"

lemma observation_added_dimensions:
  assumes a: "facts_added X root ''RELEASE'' (ob_Release n) rows na"
    and b: "facts_added X root ''INFLUENCE'' (ob_Influence n) (rows @ na) nb"
    and d: "facts_added X root ''OUTCOME'' (ob_Outcome n) ((rows @ na) @ nb) nc"
  shows "observation_added X root n rows (na @ nb @ nc) \<and>
    novelty X root rows n = \<lparr>xl_ReleaseFacts = int (length na), xl_InfluenceFacts = int (length nb), xl_OutcomeFacts = int (length nc)\<rparr>"
proof -
  have sets: "charged_hashes root ''INFLUENCE'' (rows @ na) = charged_hashes root ''INFLUENCE'' rows"
    "charged_hashes root ''OUTCOME'' (rows @ na) = charged_hashes root ''OUTCOME'' rows"
    "charged_hashes root ''RELEASE'' ((rows @ na) @ nb) = charged_hashes root ''RELEASE'' (rows @ na)"
    "charged_hashes root ''OUTCOME'' ((rows @ na) @ nb) = charged_hashes root ''OUTCOME'' (rows @ na)"
    "charged_hashes root ''RELEASE'' (((rows @ na) @ nb) @ nc) = charged_hashes root ''RELEASE'' ((rows @ na) @ nb)"
    "charged_hashes root ''INFLUENCE'' (((rows @ na) @ nb) @ nc) = charged_hashes root ''INFLUENCE'' ((rows @ na) @ nb)"
    using facts_added_other [OF a] facts_added_other [OF b] facts_added_other [OF d] by simp_all
  have zero: "fact_count root ''INFLUENCE'' na = 0" "fact_count root ''OUTCOME'' na = 0" "fact_count root ''RELEASE'' nb = 0"
    "fact_count root ''OUTCOME'' nb = 0" "fact_count root ''RELEASE'' nc = 0" "fact_count root ''INFLUENCE'' nc = 0"
    using facts_added_other [OF a] facts_added_other [OF b] facts_added_other [OF d] by simp_all
  have all: "fact_count root ''RELEASE'' na = int (length na)" "fact_count root ''INFLUENCE'' nb = int (length nb)"
    "fact_count root ''OUTCOME'' nc = int (length nc)"
    using a b d by (simp_all add: facts_added_def fact_count_all)
  have novel: "novelty X root rows n = \<lparr>xl_ReleaseFacts = int (length na), xl_InfluenceFacts = int (length nb), xl_OutcomeFacts = int (length nc)\<rparr>"
    unfolding novelty_def facts_added_count [OF a] facts_added_count [OF b] facts_added_count [OF d] sets(1,2,4) ..
  have "fact_counts root (rows @ na @ nb @ nc) = limits_add (fact_counts root rows) (novelty X root rows n)"
    using zero all by (simp add: novel fact_counts_def limits_add_def)
  moreover have "\<forall>r\<in>set (na @ nb @ nc). fr_root r = root"
    using a b d by (auto simp: facts_added_def same_key_def)
  ultimately show ?thesis
    using a b d sets novel unfolding observation_added_def facts_added_def append.assoc by simp
qed

lemma store_facts_Inr:
  assumes "store_facts E root q n at s = Inr (novel, s')" and keys: "distinct (map fact_key (st_facts s))"
  shows "\<exists>new links. s' = s\<lparr>st_facts := st_facts s @ new, st_links := links\<rparr> \<and>
    observation_added (ce_exposure E) root n (st_facts s) new \<and> novel = novelty (ce_exposure E) root (st_facts s) n"
proof -
  let ?X = "ce_exposure E"
  obtain a b d s1 s2 s3 s4 s5 where
    ins: "insertNovelFactsTx E root ''RELEASE'' q (ob_Release n) at s = Inr (a, s1)"
      "insertNovelFactsTx E root ''INFLUENCE'' q (ob_Influence n) at s1 = Inr (b, s2)"
      "insertNovelFactsTx E root ''OUTCOME'' q (ob_Outcome n) at s2 = Inr (d, s3)"
    and links: "linkObservedFactsTx E root q ''RELEASE'' (ob_Release n) s3 = Inr s4"
      "linkObservedFactsTx E root q ''INFLUENCE'' (ob_Influence n) s4 = Inr s5"
      "linkObservedFactsTx E root q ''OUTCOME'' (ob_Outcome n) s5 = Inr s'"
    and novel: "novel = \<lparr>xl_ReleaseFacts = a, xl_InfluenceFacts = b, xl_OutcomeFacts = d\<rparr>"
    using assms(1) by (auto simp: store_facts_def split: sum.splits prod.splits)
  obtain na where na: "s1 = s\<lparr>st_facts := st_facts s @ na\<rparr>" "a = int (length na)" "facts_added ?X root ''RELEASE'' (ob_Release n) (st_facts s) na"
    using insertNovelFactsTx_Inr [OF ins(1) keys] by blast
  then have keys1: "distinct (map fact_key (st_facts s1))" by (simp add: facts_added_def)
  obtain nb where nb: "s2 = s1\<lparr>st_facts := st_facts s1 @ nb\<rparr>" "b = int (length nb)" "facts_added ?X root ''INFLUENCE'' (ob_Influence n) (st_facts s1) nb"
    using insertNovelFactsTx_Inr [OF ins(2) keys1] by blast
  then have keys2: "distinct (map fact_key (st_facts s2))" by (simp add: facts_added_def)
  obtain nc where nc: "s3 = s2\<lparr>st_facts := st_facts s2 @ nc\<rparr>" "d = int (length nc)" "facts_added ?X root ''OUTCOME'' (ob_Outcome n) (st_facts s2) nc"
    using insertNovelFactsTx_Inr [OF ins(3) keys2] by blast
  obtain l where "s' = s3\<lparr>st_links := l\<rparr>"
    using links [THEN linkObservedFactsTx_frame] by auto
  then have "s' = s\<lparr>st_facts := st_facts s @ na @ nb @ nc, st_links := l\<rparr>" using na(1) nb(1) nc(1) by simp
  moreover have "observation_added ?X root n (st_facts s) (na @ nb @ nc)" "novel = novelty ?X root (st_facts s) n"
    using observation_added_dimensions [OF na(3), of nb nc] na nb nc novel by simp_all
  ultimately show ?thesis by blast
qed

subsection \<open>The ledger\<close>

lemma ledgers_ok_used:
  "ledgers_ok ledgers rows \<Longrightarrow> l \<in> set ledgers \<Longrightarrow> led_Used l = fact_counts (led_RootTaskID l) rows \<and> limits_le (led_Used l) (led_Limits l)"
  unfolding ledgers_ok_def by blast

lemma fact_counts_other_root:
  "\<forall>r\<in>set new. fr_root r = root \<Longrightarrow> root' \<noteq> root \<Longrightarrow> fact_counts root' (rows @ new) = fact_counts root' rows"
  by (auto simp: fact_counts_def same_key_def intro!: fact_count_none)

lemma charge_ledger_Inr:
  assumes "charge_ledger root novel at ledgers = Inr ledgers'" and "distinct (map led_RootTaskID ledgers)"
  shows "ledgers' = update_rows (\<lambda>l. led_RootTaskID l = root) (\<lambda>l. l\<lparr>led_Used := limits_add (led_Used l) novel, led_UpdatedAt := dbTime at\<rparr>) ledgers"
    and "root \<in> led_RootTaskID ` set ledgers"
    and "\<And>l. l \<in> set ledgers \<Longrightarrow> led_RootTaskID l = root \<Longrightarrow> limits_le (limits_add (led_Used l) novel) (led_Limits l)"
proof -
  let ?within = "\<lambda>l. led_RootTaskID l = root \<and> limits_le (limits_add (led_Used l) novel) (led_Limits l)"
  have one: "length (filter ?within ledgers) = 1"
    and upd: "ledgers' = update_rows ?within (\<lambda>l. l\<lparr>led_Used := limits_add (led_Used l) novel, led_UpdatedAt := dbTime at\<rparr>) ledgers"
    using assms(1) by (auto simp: charge_ledger_def Let_def split: if_splits)
  from one obtain l0 where "filter ?within ledgers = [l0]" by (auto simp: length_Suc_conv)
  then have "l0 \<in> set (filter ?within ledgers)" by simp
  then have l0: "l0 \<in> set ledgers" "?within l0" by auto
  then show "root \<in> led_RootTaskID ` set ledgers" by auto
  have same: "l = l0" if "l \<in> set ledgers" "led_RootTaskID l = root" for l
    using that l0 assms(2) by (auto simp: distinct_map dest: inj_onD)
  then show "\<And>l. l \<in> set ledgers \<Longrightarrow> led_RootTaskID l = root \<Longrightarrow> limits_le (limits_add (led_Used l) novel) (led_Limits l)"
    using l0 by blast
  show "ledgers' = update_rows (\<lambda>l. led_RootTaskID l = root) (\<lambda>l. l\<lparr>led_Used := limits_add (led_Used l) novel, led_UpdatedAt := dbTime at\<rparr>) ledgers"
    unfolding upd update_rows_def using same l0 by (intro map_cong) auto
qed

lemma ledgers_ok_charge:
  assumes ok: "ledgers_ok ledgers rows" and charge: "charge_ledger root (novelty X root rows n) at ledgers = Inr ledgers'"
    and added: "observation_added X root n rows new"
  shows "ledgers_ok ledgers' (rows @ new)"
proof -
  let ?f = "\<lambda>l. l\<lparr>led_Used := limits_add (led_Used l) (novelty X root rows n), led_UpdatedAt := dbTime at\<rparr>"
  have roots: "distinct (map led_RootTaskID ledgers)" using ok by (simp add: ledgers_ok_def)
  note upd = charge_ledger_Inr [OF charge roots]
  have new_root: "\<forall>r\<in>set new. fr_root r = root" and keys: "distinct (map fact_key (rows @ new))"
    and counts: "fact_counts root (rows @ new) = limits_add (fact_counts root rows) (novelty X root rows n)"
    using added by (simp_all add: observation_added_def)
  have same_roots: "map led_RootTaskID ledgers' = map led_RootTaskID ledgers"
    unfolding upd(1) by (rule map_update_rows) simp
  then have root_set: "led_RootTaskID ` set ledgers' = led_RootTaskID ` set ledgers" by (metis list.set_map)
  have "led_Used l = fact_counts (led_RootTaskID l) (rows @ new) \<and> limits_le (led_Used l) (led_Limits l)"
    if l: "l \<in> set ledgers'" for l
  proof -
    obtain k where k: "k \<in> set ledgers" "l = (if led_RootTaskID k = root then ?f k else k)"
      using l unfolding upd(1) set_update_rows by blast
    have ok_k: "led_Used k = fact_counts (led_RootTaskID k) rows" "limits_le (led_Used k) (led_Limits k)"
      using ledgers_ok_used [OF ok k(1)] by auto
    show ?thesis
    proof (cases "led_RootTaskID k = root")
      case True
      with k ok_k counts upd(3) [OF k(1) True] show ?thesis by simp
    next
      case False
      with k ok_k fact_counts_other_root [OF new_root False] show ?thesis by simp
    qed
  qed
  moreover have "fr_root ` set (rows @ new) \<subseteq> led_RootTaskID ` set ledgers"
    using ok new_root upd(2) by (auto simp: ledgers_ok_def)
  ultimately show ?thesis
    using roots keys unfolding ledgers_ok_def same_roots root_set by blast
qed

text \<open>What a settlement did, as far as the ledger is concerned.\<close>

lemma charge_observation_Inr:
  assumes "charge_observation E c at r ledger n digest s = Inr (charge, s')" and ok: "exposure_ok s"
  shows "exposure_ok s' \<and>
    (\<exists>new. st_facts s' = st_facts s @ new \<and> observation_added (ce_exposure E) (res_RootTaskID r) n (st_facts s) new) \<and>
    charge = Some (charge_of r (observation_counts n) (novelty (ce_exposure E) (res_RootTaskID r) (st_facts s) n) digest)"
proof -
  let ?X = "ce_exposure E" and ?root = "res_RootTaskID r"
  have keys: "distinct (map fact_key (st_facts s))" using ok by (simp add: ledgers_ok_def)
  obtain novel s1 where store: "store_facts E ?root (res_QueryID r) n at s = Inr (novel, s1)"
    using assms(1) by (auto simp: charge_observation_def split: sum.splits prod.splits)
  obtain new links where s1: "s1 = s\<lparr>st_facts := st_facts s @ new, st_links := links\<rparr>"
    and added: "observation_added ?X ?root n (st_facts s) new" and novel: "novel = novelty ?X ?root (st_facts s) n"
    using store_facts_Inr [OF store keys] by blast
  obtain ledgers s2 e where charged: "charge_ledger ?root novel at (st_ledgers s1) = Inr ledgers"
    and s2: "s2 = s1\<lparr>st_ledgers := ledgers, st_reservations := mark_settled (res_QueryID r) n novel digest at (st_reservations s1)\<rparr>"
    and append: "appendAuditTx E c (exposure_settled_event r n novel digest at) s2 = Inr (e, s')"
    and res: "charge = Some (charge_of r (observation_counts n) novel digest)"
    using assms(1) store by (auto simp: charge_observation_def Let_def split: sum.splits prod.splits option.splits if_splits)
  obtain events head where s': "s' = s2\<lparr>st_events := events, st_head := head\<rparr>" using append_frame [OF append] .
  have "ledgers_ok ledgers (st_facts s @ new)"
    using ledgers_ok_charge [OF ok _ added, of at ledgers] charged s1 novel by simp
  then show ?thesis using s' s2 s1 added novel res by simp
qed

lemma core_same_refl [simp]: "core_same s s"
  by (simp add: core_same_def)

lemma core_same_trans: "core_same s t \<Longrightarrow> core_same t u \<Longrightarrow> core_same s u"
  by (simp add: core_same_def)

lemma exposure_step_audit:
  "exposure_step s (s\<lparr>st_events := events, st_head := head\<rparr>)"
  "exposure_step s (s\<lparr>st_ordinal := ord, st_events := events, st_head := head\<rparr>)"
  "exposure_step s (s\<lparr>st_reservations := rows, st_events := events, st_head := head\<rparr>)"
  "exposure_step s (s\<lparr>st_reservations := rows\<rparr>)" "exposure_step s s"
  by (simp_all add: exposure_step_def core_same_def)

lemma append_step: "appendAuditTx E c event s = Inr (e, s') \<Longrightarrow> exposure_step s s'"
  by (erule append_frame) (simp add: exposure_step_audit)

lemma reserveExposureTx_step:
  assumes "reserveExposureTx E c q t request at s = Inr (r, s')"
  shows "exposure_step s s'"
proof -
  obtain g where g: "select_row tg_TaskID t (st_grants s) = Some g"
    using assms by (auto simp: reserveExposureTx_def split: option.splits)
  show ?thesis
  proof (cases "xg_ProfileVersion (tg_Exposure g) = ProfileV4 \<or> xg_ProfileVersion (tg_Exposure g) = ProfileV5")
    case True
    then obtain ord events where "append_all E c events (s\<lparr>st_ordinal := ord\<rparr>) = Inr s'"
      using assms g by (auto simp: reserveExposureTx_def split: sum.splits prod.splits)
    from append_all_frame [OF this] show ?thesis by (auto simp: exposure_step_audit)
  next
    case False
    with assms g show ?thesis
      by (auto simp: reserveExposureTx_def Let_def exposure_step_audit split: option.splits if_splits sum.splits)
  qed
qed

lemma charge_observation_core:
  assumes "charge_observation E c at r ledger n digest s = Inr (charge, s')"
  shows "core_same s s'"
proof -
  obtain novel s1 where store: "store_facts E (res_RootTaskID r) (res_QueryID r) n at s = Inr (novel, s1)"
    using assms by (auto simp: charge_observation_def split: sum.splits prod.splits)
  then have "core_same s s1"
    by (auto simp: store_facts_def insertNovelFactsTx_def linkObservedFactsTx_def core_same_def split: sum.splits prod.splits)
  moreover obtain ledgers e where "appendAuditTx E c (exposure_settled_event r n novel digest at)
      (s1\<lparr>st_ledgers := ledgers, st_reservations := mark_settled (res_QueryID r) n novel digest at (st_reservations s1)\<rparr>) = Inr (e, s')"
    using assms store by (auto simp: charge_observation_def Let_def split: sum.splits prod.splits option.splits if_splits)
  then have "core_same s1 s'" by (elim append_frame) (simp add: core_same_def)
  ultimately show ?thesis by (rule core_same_trans)
qed

lemma settleExposure_step:
  assumes "settleExposureMeasuredTx E c at q ob s = Inr (charge, s')"
  shows "exposure_step s s'"
proof -
  have "s' = s \<or> (\<exists>r ledger n digest. charge_observation E c at r ledger n digest s = Inr (charge, s'))"
    using assms by (auto simp: settleExposureMeasuredTx_def Let_def split: option.splits sum.splits if_splits)
  then show ?thesis
  proof
    assume "s' = s"
    then show ?thesis by (simp add: exposure_step_audit)
  next
    assume "\<exists>r ledger n digest. charge_observation E c at r ledger n digest s = Inr (charge, s')"
    then show ?thesis
      using charge_observation_core charge_observation_Inr unfolding exposure_step_def by metis
  qed
qed

lemma apply_settle_step: "apply_settle E c s result = Inr (charge, s') \<Longrightarrow> exposure_step s s'"
  by (auto simp: apply_settle_def exposure_step_audit split: sum.splits prod.splits dest!: append_all_frame)

lemma settleAny_step:
  assumes "settleAnyExposureMeasuredTx E c at b s = Inr (charge, s')"
  shows "exposure_step s s'"
  using assms unfolding settleAnyExposureMeasuredTx_def
  by (auto split: if_splits option.splits intro: apply_settle_step settleExposure_step)

lemma releaseExposure_step:
  assumes "releaseExposureReservationTx E c at q s = Inr s'"
  shows "exposure_step s s'"
  using assms unfolding releaseExposureReservationTx_def Let_def
  by (auto simp: exposure_step_audit split: option.splits if_splits sum.splits elim!: append_frame)

lemma releaseAny_step:
  assumes "releaseAnyExposureReservationTx E c at q s = Inr s'"
  shows "exposure_step s s'"
  using assms unfolding releaseAnyExposureReservationTx_def
  by (auto simp: exposure_step_audit split: if_splits sum.splits dest!: append_all_frame intro: releaseExposure_step)

lemma ensureExposureLedgerTx_step:
  assumes "ensureExposureLedgerTx E t g at s = Inr s'"
  shows "core_same s s' \<and> st_facts s' = st_facts s \<and> st_reservations s' = st_reservations s \<and> (exposure_ok s \<longrightarrow> exposure_ok s')"
proof -
  have "core_same s s' \<and> st_facts s' = st_facts s \<and> st_reservations s' = st_reservations s \<and>
      (st_ledgers s' = st_ledgers s \<or>
       (\<exists>root. root \<notin> led_RootTaskID ` set (st_ledgers s) \<and> validateExposureGrant g = None \<and>
          st_ledgers s' = st_ledgers s @ [\<lparr>led_RootTaskID = root, led_ProfileVersion = xg_ProfileVersion g,
            led_Limits = xg_Limits g, led_Used = zero_limits, led_UpdatedAt = dbTime at\<rparr>]))"
    using assms unfolding ensureExposureLedgerTx_def
    by (auto simp: core_same_def Let_def split: option.splits if_splits sum.splits)
  then show ?thesis
  proof (elim conjE disjE exE)
    fix root
    assume fresh: "root \<notin> led_RootTaskID ` set (st_ledgers s)" and valid: "validateExposureGrant g = None"
      and core: "core_same s s'" "st_facts s' = st_facts s" "st_reservations s' = st_reservations s"
      and ledgers: "st_ledgers s' = st_ledgers s @ [\<lparr>led_RootTaskID = root, led_ProfileVersion = xg_ProfileVersion g,
            led_Limits = xg_Limits g, led_Used = zero_limits, led_UpdatedAt = dbTime at\<rparr>]"
    have "limits_le zero_limits (xg_Limits g)"
      using valid by (auto simp: validateExposureGrant_def Let_def limits_le_def zero_limits_def split: if_splits)
    moreover have "exposure_ok s'" if ok: "exposure_ok s" and le: "limits_le zero_limits (xg_Limits g)"
    proof -
      have "\<forall>r\<in>set (st_facts s). fr_root r \<noteq> root" using ok fresh by (auto simp: ledgers_ok_def)
      then have "fact_counts root (st_facts s) = zero_limits"
        by (simp add: fact_counts_def zero_limits_def fact_count_none same_key_def)
      with ok fresh le show ?thesis unfolding ledgers_ok_def ledgers core(2) by auto
    qed
    ultimately have "exposure_ok s \<Longrightarrow> exposure_ok s'" by blast
    with core show ?thesis by blast
  qed simp
qed

subsection \<open>When the insertion succeeds\<close>

lemma encode_facts_total:
  "\<forall>f\<in>set fs. FactID_Validate (ce_exposure E) f = None \<Longrightarrow> \<exists>es. encode_facts E fs = Inr es"
proof (induction fs)
  case (Cons f fs)
  then obtain es p where "encode_facts E fs = Inr es" "CanonicalPayload (ce_exposure E) f = Inr p"
    using CanonicalPayload_valid by fastforce
  moreover have "FactID_Hash (ce_exposure E) f = Inr (hash_of (ce_exposure E) f)" using Cons.prems by (simp add: Hash_Inr_iff)
  ultimately show ?case by simp
qed simp

lemma insert_facts_fresh:
  "distinct (map fst es) \<Longrightarrow> fst ` set es \<inter> charged_hashes root kind rows = {} \<Longrightarrow> snd (insert_facts root kind q at es rows) = length es"
proof (induction es arbitrary: rows)
  case (Cons e es)
  obtain hash identity payload where e: "e = (hash, identity, payload)" by (cases e) auto
  let ?r = "\<lparr>fr_root = root, fr_kind = kind, fr_sha256 = hash, fr_identity = identity, fr_payload = Some payload,
                fr_first_query = q, fr_first_seen = dbTime at\<rparr>"
  have absent: "\<not> (\<exists>r\<in>set rows. same_key root kind r \<and> fr_sha256 r = hash)"
    using Cons.prems(2) e by (auto simp: charged_hashes_def)
  have "fst ` set es \<inter> charged_hashes root kind (rows @ [?r]) = {}"
    using Cons.prems e by (auto simp: charged_hashes_append charged_hashes_Cons same_key_def)
  then have "snd (insert_facts root kind q at es (rows @ [?r])) = length es" using Cons by simp
  with absent e show ?case by (auto simp: Let_def split_def)
qed simp

text \<open>The rows of the table that have the hash of one of the facts have its payload.\<close>

definition rows_agree :: "exposure_env \<Rightarrow> go_string \<Rightarrow> go_string \<Rightarrow> FactID list \<Rightarrow> fact_row list \<Rightarrow> bool" where
  "rows_agree X root kind fs rows \<longleftrightarrow>
     (\<forall>r\<in>set rows. \<forall>f\<in>set fs. same_key root kind r \<and> fr_sha256 r = hash_of X f \<longrightarrow>
        (\<exists>p. CanonicalPayload X f = Inr p \<and> fr_payload r = Some p))"

lemma encode_facts_entry:
  "encode_facts E fs = Inr es \<Longrightarrow> (h, i, p) \<in> set es \<Longrightarrow> \<exists>f\<in>set fs. h = hash_of (ce_exposure E) f \<and> CanonicalPayload (ce_exposure E) f = Inr p"
proof (induction fs arbitrary: es)
  case (Cons f fs)
  then show ?case by (fastforce simp: Hash_Inr_iff split: sum.splits)
qed simp

lemma check_stored_total:
  assumes "encode_facts E fs = Inr es" and "rows_agree (ce_exposure E) root kind fs rows"
    and "\<forall>r\<in>set stored. r \<in> set rows \<and> same_key root kind r \<and> fr_sha256 r \<in> fst ` set es"
  shows "check_stored E es stored = None"
  using assms(3)
proof (induction stored)
  case (Cons r rs)
  then have "map_of (rev es) (fr_sha256 r) \<noteq> None" by (simp add: map_of_eq_None_iff)
  then obtain i p where ip: "map_of (rev es) (fr_sha256 r) = Some (i, p)" by auto
  then have "(fr_sha256 r, i, p) \<in> set es" by (auto dest: map_of_SomeD)
  then obtain f where f: "f \<in> set fs" "fr_sha256 r = hash_of (ce_exposure E) f" "CanonicalPayload (ce_exposure E) f = Inr p"
    using encode_facts_entry [OF assms(1)] by blast
  have r: "r \<in> set rows" "same_key root kind r" using Cons.prems by auto
  have "fr_payload r = Some p"
    using assms(2) r f unfolding rows_agree_def by (metis sum.inject(2))
  with ip Cons show ?case by simp
qed simp

lemma insert_chunk_total:
  assumes "\<forall>f\<in>set fs. FactID_Validate (ce_exposure E) f = None" and "distinct (map (hash_of (ce_exposure E)) fs)"
    and "rows_agree (ce_exposure E) root kind fs rows"
  shows "\<exists>n rows'. insert_chunk E root kind q at fs rows = Inr (n, rows')"
proof -
  obtain es where es: "encode_facts E fs = Inr es" using encode_facts_total [OF assms(1)] by blast
  let ?stored = "filter (\<lambda>r. same_key root kind r \<and> fr_sha256 r \<in> fst ` set es) rows"
  let ?missing = "filter (\<lambda>(hash, _). hash \<notin> fr_sha256 ` set ?stored) es"
  have check: "check_stored E es ?stored = None" by (rule check_stored_total [OF es assms(3)]) auto
  have "distinct (map fst es)" using encode_facts_Inr [OF es] assms(2) by simp
  then have "distinct (map fst ?missing)" by (simp add: distinct_map inj_on_def)
  moreover have "fst ` set ?missing \<inter> charged_hashes root kind rows = {}"
    by (force simp: charged_hashes_def)
  ultimately have count: "snd (insert_facts root kind q at ?missing rows) = length ?missing" by (rule insert_facts_fresh)
  obtain rows' n where ins: "insert_facts root kind q at ?missing rows = (rows', n)"
    by (cases "insert_facts root kind q at ?missing rows")
  show ?thesis
    using es check count ins unfolding insert_chunk_def by (cases "?missing = []") (simp_all add: Let_def)
qed

lemma insert_chunks_total:
  assumes "\<forall>f\<in>set fs. FactID_Validate (ce_exposure E) f = None" and "distinct (map (hash_of (ce_exposure E)) fs)"
    and "rows_agree (ce_exposure E) root kind fs rows"
  shows "\<exists>n rows'. insert_chunks E root kind q at fs k rows = Inr (n, rows')"
  using assms
proof (induction E root kind q at fs k rows rule: insert_chunks.induct)
  case (1 E root kind q at fs k rows)
  let ?X = "ce_exposure E" and ?now = "take chunkSize fs" and ?rest = "drop chunkSize fs"
  have sub: "set ?now \<subseteq> set fs" "set ?rest \<subseteq> set fs" by (auto dest: in_set_takeD in_set_dropD)
  have dist: "distinct (map (hash_of ?X) ?now)" "distinct (map (hash_of ?X) ?rest)"
    "fact_hashes ?X ?now \<inter> fact_hashes ?X ?rest = {}"
    using "1.prems"(2) distinct_append [of "map (hash_of ?X) ?now" "map (hash_of ?X) ?rest"]
    unfolding map_append [symmetric] append_take_drop_id by (simp_all add: fact_hashes_def)
  show ?case
  proof (cases "fs = []")
    case False
    have "rows_agree ?X root kind ?now rows" using "1.prems"(3) sub(1) by (auto simp: rows_agree_def)
    then obtain m rows1 where chunk: "insert_chunk E root kind q at ?now rows = Inr (m, rows1)"
      using insert_chunk_total [of ?now E root kind rows q at] "1.prems"(1) dist(1) sub(1) by blast
    have "rows_agree ?X root kind ?rest rows1"
    proof -
      obtain new where new: "rows1 = rows @ new" "\<forall>r\<in>set new. fr_sha256 r \<in> fact_hashes ?X ?now"
        using insert_chunk_rows [OF chunk] by blast
      have "fr_sha256 r \<noteq> hash_of ?X f" if "r \<in> set new" "f \<in> set ?rest" for r f
        using that new(2) dist(3) by (auto simp: fact_hashes_def)
      then show ?thesis
        using "1.prems"(3) sub(2) unfolding rows_agree_def new(1) by auto
    qed
    then have "\<exists>n rows'. insert_chunks E root kind q at ?rest (k + int m) rows1 = Inr (n, rows')"
      using "1.IH" [OF False chunk refl] "1.prems"(1) sub(2) dist(2) by blast
    with False chunk show ?thesis by (simp add: insert_chunks.simps [of E root kind q at fs])
  qed (simp add: insert_chunks.simps)
qed

lemma Normalize_hashes:
  assumes "Normalize X ob = Inr n"
  shows "fact_hashes X (ob_Release n) = fact_hashes X (ob_Release ob)" "fact_hashes X (ob_Influence n) = fact_hashes X (ob_Influence ob)"
    "fact_hashes X (ob_Outcome n) = fact_hashes X (ob_Outcome ob)"
  using assms by (auto elim!: Normalize_Inr simp: Normalize_dimension(2))

lemma novelty_normalized: "Normalize X ob = Inr n \<Longrightarrow> novelty X root rows n = novelty X root rows ob"
  by (simp add: novelty_def Normalize_hashes)

lemma settle_reserved:
  assumes "settleExposureMeasuredTx E c at q (Some ob) s = Inr (Some ch, s')"
    and "select_row res_QueryID q (st_reservations s) = Some r" and "row_status r = exposureReserved"
  obtains n ledger where "Normalize (ce_exposure E) ob = Inr n" "ob_ProfileVersion n = res_ProfileVersion r"
    "\<not> ((res_ProfileVersion r = ProfileV3 \<and> length (ob_Outcome n) \<noteq> 1) \<or> (res_ProfileVersion r \<noteq> ProfileV3 \<and> length (ob_Outcome n) \<noteq> 0))"
    "select_row led_RootTaskID (res_RootTaskID r) (st_ledgers s) = Some ledger"
    "charge_observation E c at r ledger n (hex_encode (env_sha256 (ce_exposure E) (bytes_of (json_observation n)))) s = Inr (Some ch, s')"
  using assms by (simp add: settleExposureMeasuredTx_def Let_def split: sum.splits if_splits option.splits)

text \<open>The reservation row after a settlement.\<close>

lemma charge_observation_row:
  assumes "charge_observation E c at r ledger n digest s = Inr (charge, s')" and "row_status r = exposureReserved"
    and "select_row res_QueryID (res_QueryID r) (st_reservations s) = Some r"
  shows "\<exists>r' ch. select_row res_QueryID (res_QueryID r) (st_reservations s') = Some r' \<and> row_status r' = exposureSettled \<and>
    row_observation_sha256 r' = digest \<and> charge = Some ch \<and> stored_charge r' digest = ch \<and>
    res_ProfileVersion r' = res_ProfileVersion r"
proof -
  obtain novel s1 where store: "store_facts E (res_RootTaskID r) (res_QueryID r) n at s = Inr (novel, s1)"
    using assms(1) by (auto simp: charge_observation_def split: sum.splits prod.splits)
  then have s1: "st_reservations s1 = st_reservations s"
    by (auto simp: store_facts_def insertNovelFactsTx_def linkObservedFactsTx_def split: sum.splits prod.splits)
  obtain ledgers e where append: "appendAuditTx E c (exposure_settled_event r n novel digest at)
      (s1\<lparr>st_ledgers := ledgers, st_reservations := mark_settled (res_QueryID r) n novel digest at (st_reservations s1)\<rparr>) = Inr (e, s')"
    and charge: "charge = Some (charge_of r (observation_counts n) novel digest)"
    using assms(1) store by (auto simp: charge_observation_def Let_def split: sum.splits prod.splits option.splits if_splits)
  obtain events head where "s' = s1\<lparr>st_ledgers := ledgers,
      st_reservations := mark_settled (res_QueryID r) n novel digest at (st_reservations s1), st_events := events, st_head := head\<rparr>"
    using append_frame [OF append] .
  then have "st_reservations s' = mark_settled (res_QueryID r) n novel digest at (st_reservations s)" using s1 by simp
  then show ?thesis
    using assms(2,3) charge by (simp add: mark_settled_def select_update_rows stored_charge_def charge_of_def)
qed

subsection \<open>When the settlement succeeds\<close>

lemma Normalize_facts:
  assumes "Normalize X ob = Inr n"
  shows "\<forall>f\<in>set (ob_Release n) \<union> set (ob_Influence n) \<union> set (ob_Outcome n). FactID_Validate X f = None"
    "distinct (map (hash_of X) (ob_Release n))" "distinct (map (hash_of X) (ob_Influence n))" "distinct (map (hash_of X) (ob_Outcome n))"
    "set (ob_Release n) \<subseteq> set (ob_Release ob)" "set (ob_Influence n) \<subseteq> set (ob_Influence ob)" "set (ob_Outcome n) \<subseteq> set (ob_Outcome ob)"
proof -
  obtain r i u where new: "NewFactSet X (ob_Release ob) = Inr r" "NewFactSet X (ob_Influence ob) = Inr i" "NewFactSet X (ob_Outcome ob) = Inr u"
    and n: "n = \<lparr>ob_ProfileVersion = ob_ProfileVersion ob, ob_Release = FactSet_Values r, ob_Influence = FactSet_Values i, ob_Outcome = FactSet_Values u\<rparr>"
    using assms by (rule Normalize_Inr)
  have valid: "\<forall>f\<in>set (FactSet_Values v). FactID_Validate X f = None" "distinct (map (hash_of X) (FactSet_Values v))"
    if "NewFactSet X fs = Inr v" for fs v
  proof -
    have ok: "set_ok X v" using NewFactSet_Inr(2) [OF that] .
    show "\<forall>f\<in>set (FactSet_Values v). FactID_Validate X f = None"
      using ok unfolding FactSet_Values_ok(2) [OF ok] by (auto simp: set_ok_def)
    show "distinct (map (hash_of X) (FactSet_Values v))"
      using ok unfolding FactSet_Values_ok(1) [OF ok] by (simp add: set_ok_def)
  qed
  show "\<forall>f\<in>set (ob_Release n) \<union> set (ob_Influence n) \<union> set (ob_Outcome n). FactID_Validate X f = None"
    using valid(1) [OF new(1)] valid(1) [OF new(2)] valid(1) [OF new(3)] by (auto simp: n)
  show "distinct (map (hash_of X) (ob_Release n))" "distinct (map (hash_of X) (ob_Influence n))" "distinct (map (hash_of X) (ob_Outcome n))"
    using valid(2) [OF new(1)] valid(2) [OF new(2)] valid(2) [OF new(3)] by (simp_all add: n)
  show "set (ob_Release n) \<subseteq> set (ob_Release ob)" "set (ob_Influence n) \<subseteq> set (ob_Influence ob)" "set (ob_Outcome n) \<subseteq> set (ob_Outcome ob)"
    using Normalize_dimension(3) [OF new(1)] Normalize_dimension(3) [OF new(2)] Normalize_dimension(3) [OF new(3)] by (simp_all add: n)
qed

lemma link_facts_total:
  "\<forall>f\<in>set fs. FactID_Validate (ce_exposure E) f = None \<Longrightarrow> \<exists>ls. link_facts E root q kind fs links = Inr ls"
proof (induction fs arbitrary: links)
  case (Cons f fs)
  then have "FactID_Hash (ce_exposure E) f = Inr (hash_of (ce_exposure E) f)" by (simp add: Hash_Inr_iff)
  with Cons show ?case by simp
qed simp

lemma rows_agree_other: "\<forall>r\<in>set new. same_key root kind r \<Longrightarrow> kind' \<noteq> kind \<Longrightarrow> rows_agree X root kind' fs rows \<Longrightarrow> rows_agree X root kind' fs (rows @ new)"
  unfolding rows_agree_def same_key_def by auto

definition table_agrees :: "exposure_env \<Rightarrow> go_string \<Rightarrow> Observation \<Rightarrow> fact_row list \<Rightarrow> bool" where
  "table_agrees X root ob rows \<longleftrightarrow> rows_agree X root ''RELEASE'' (ob_Release ob) rows \<and>
     rows_agree X root ''INFLUENCE'' (ob_Influence ob) rows \<and> rows_agree X root ''OUTCOME'' (ob_Outcome ob) rows"

lemma table_agrees_normalized:
  assumes "Normalize X ob = Inr n" and "table_agrees X root ob rows"
  shows "table_agrees X root n rows"
  using Normalize_facts(5,6,7) [OF assms(1)] assms(2) unfolding table_agrees_def rows_agree_def by blast

lemma insertNovelFactsTx_total:
  assumes "\<forall>f\<in>set fs. FactID_Validate (ce_exposure E) f = None" "distinct (map (hash_of (ce_exposure E)) fs)"
    "rows_agree (ce_exposure E) root kind fs (st_facts s)"
  shows "\<exists>n s'. insertNovelFactsTx E root kind q fs at s = Inr (n, s')"
  using insert_chunks_total [OF assms, of q at 0] by (auto simp: insertNovelFactsTx_def)

lemma linkObservedFactsTx_total:
  assumes "\<forall>f\<in>set fs. FactID_Validate (ce_exposure E) f = None"
  shows "\<exists>s'. linkObservedFactsTx E root q kind fs s = Inr s'"
  using link_facts_total [OF assms, of root q kind "st_links s"] by (auto simp: linkObservedFactsTx_def)

lemma store_facts_total:
  assumes n: "Normalize (ce_exposure E) ob = Inr n" and agrees: "table_agrees (ce_exposure E) root ob (st_facts s)"
    and keys: "distinct (map fact_key (st_facts s))"
  shows "\<exists>novel s'. store_facts E root q n at s = Inr (novel, s')"
proof -
  let ?X = "ce_exposure E"
  note facts = Normalize_facts [OF n]
  have agree: "rows_agree ?X root ''RELEASE'' (ob_Release n) (st_facts s)" "rows_agree ?X root ''INFLUENCE'' (ob_Influence n) (st_facts s)"
    "rows_agree ?X root ''OUTCOME'' (ob_Outcome n) (st_facts s)"
    using table_agrees_normalized [OF n agrees] by (simp_all add: table_agrees_def)
  obtain a s1 where a: "insertNovelFactsTx E root ''RELEASE'' q (ob_Release n) at s = Inr (a, s1)"
    using insertNovelFactsTx_total [OF _ facts(2) agree(1)] facts(1) by blast
  obtain na where na: "s1 = s\<lparr>st_facts := st_facts s @ na\<rparr>" "facts_added ?X root ''RELEASE'' (ob_Release n) (st_facts s) na"
    using insertNovelFactsTx_Inr [OF a keys] by blast
  then have "rows_agree ?X root ''INFLUENCE'' (ob_Influence n) (st_facts s1)" "rows_agree ?X root ''OUTCOME'' (ob_Outcome n) (st_facts s1)"
    and keys1: "distinct (map fact_key (st_facts s1))"
    using agree rows_agree_other [of na root "''RELEASE''"] by (simp_all add: facts_added_def)
  then obtain b s2 where b: "insertNovelFactsTx E root ''INFLUENCE'' q (ob_Influence n) at s1 = Inr (b, s2)"
    using insertNovelFactsTx_total [OF _ facts(3), of root "''INFLUENCE''" s1] facts(1) by blast
  obtain nb where nb: "s2 = s1\<lparr>st_facts := st_facts s1 @ nb\<rparr>" "facts_added ?X root ''INFLUENCE'' (ob_Influence n) (st_facts s1) nb"
    using insertNovelFactsTx_Inr [OF b keys1] by blast
  then have "rows_agree ?X root ''OUTCOME'' (ob_Outcome n) (st_facts s2)"
    using \<open>rows_agree ?X root ''OUTCOME'' (ob_Outcome n) (st_facts s1)\<close> rows_agree_other [of nb root "''INFLUENCE''"] by (simp add: facts_added_def)
  then obtain d s3 where d: "insertNovelFactsTx E root ''OUTCOME'' q (ob_Outcome n) at s2 = Inr (d, s3)"
    using insertNovelFactsTx_total [OF _ facts(4), of root "''OUTCOME''" s2] facts(1) by blast
  obtain s4 s5 s6 where "linkObservedFactsTx E root q ''RELEASE'' (ob_Release n) s3 = Inr s4"
    "linkObservedFactsTx E root q ''INFLUENCE'' (ob_Influence n) s4 = Inr s5" "linkObservedFactsTx E root q ''OUTCOME'' (ob_Outcome n) s5 = Inr s6"
    using linkObservedFactsTx_total facts(1) by (metis UnCI)
  with a b d show ?thesis by (simp add: store_facts_def)
qed

lemma unique_filter:
  "distinct (map key xs) \<Longrightarrow> x \<in> set xs \<Longrightarrow> P x \<Longrightarrow> filter (\<lambda>y. key y = key x \<and> P y) xs = [x]"
proof (induction xs)
  case (Cons y ys)
  show ?case
  proof (cases "y = x")
    case True
    with Cons.prems have "\<forall>z\<in>set ys. key z \<noteq> key x" by (auto simp: image_iff)
    with True Cons.prems show ?thesis by (simp add: filter_empty_conv)
  next
    case False
    with Cons show ?thesis by auto
  qed
qed simp

lemma novelty_nonneg: "0 \<le> xl_ReleaseFacts (novelty X root rows n)" "0 \<le> xl_InfluenceFacts (novelty X root rows n)"
    "0 \<le> xl_OutcomeFacts (novelty X root rows n)"
  by (simp_all add: novelty_def)

lemma fact_counts_nonneg: "0 \<le> xl_ReleaseFacts (fact_counts root rows)" "0 \<le> xl_InfluenceFacts (fact_counts root rows)"
    "0 \<le> xl_OutcomeFacts (fact_counts root rows)"
  by (simp_all add: fact_counts_def fact_count_def)

lemma charge_ledger_total:
  assumes "distinct (map led_RootTaskID ledgers)" and "l \<in> set ledgers" and "led_RootTaskID l = root"
    and "limits_le (limits_add (led_Used l) novel) (led_Limits l)" and "limits_int64 (limits_add (led_Used l) novel)"
  shows "\<exists>ledgers'. charge_ledger root novel at ledgers = Inr ledgers'"
proof -
  have "k = l" if "k \<in> set ledgers" "led_RootTaskID k = root" for k
    using that assms(1,2,3) by (auto simp: distinct_map dest: inj_onD)
  then have "\<not> (\<exists>k\<in>set ledgers. led_RootTaskID k = root \<and> \<not> limits_int64 (limits_add (led_Used k) novel))"
    using assms(5) by blast
  moreover have "length (filter (\<lambda>k. led_RootTaskID k = root \<and> limits_le (limits_add (led_Used k) novel) (led_Limits k)) ledgers) = 1"
    using unique_filter [of led_RootTaskID ledgers l "\<lambda>k. limits_le (limits_add (led_Used k) novel) (led_Limits k)"] assms by simp
  ultimately show ?thesis by (simp add: charge_ledger_def Let_def)
qed

text \<open>The charge fits the ledger of the family and the grant of the task.\<close>

definition charge_fits :: "ExposureLimits \<Rightarrow> ExposureLimits \<Rightarrow> ExposureLimits \<Rightarrow> ExposureLimits \<Rightarrow> bool" where
  "charge_fits used novel ledger grant \<longleftrightarrow> limits_int64 ledger \<and> limits_le (limits_add used novel) ledger \<and> limits_le (limits_add used novel) grant"

lemma charge_fits_exact:
  assumes "charge_fits (fact_counts root rows) (novelty X root' rows' n) ledger grant"
  shows "limits_int64 (limits_add (fact_counts root rows) (novelty X root' rows' n))"
    and "\<not> passes_ceiling (xl_ReleaseFacts (fact_counts root rows)) (xl_ReleaseFacts (novelty X root' rows' n)) (xl_ReleaseFacts grant)"
    and "\<not> passes_ceiling (xl_InfluenceFacts (fact_counts root rows)) (xl_InfluenceFacts (novelty X root' rows' n)) (xl_InfluenceFacts grant)"
    and "\<not> passes_ceiling (xl_OutcomeFacts (fact_counts root rows)) (xl_OutcomeFacts (novelty X root' rows' n)) (xl_OutcomeFacts grant)"
proof -
  show int: "limits_int64 (limits_add (fact_counts root rows) (novelty X root' rows' n))"
    using assms novelty_nonneg [of X root' rows' n] fact_counts_nonneg [of root rows]
    unfolding charge_fits_def limits_int64_def limits_le_def limits_add_def in_int64_def by simp
  then show "\<not> passes_ceiling (xl_ReleaseFacts (fact_counts root rows)) (xl_ReleaseFacts (novelty X root' rows' n)) (xl_ReleaseFacts grant)"
    "\<not> passes_ceiling (xl_InfluenceFacts (fact_counts root rows)) (xl_InfluenceFacts (novelty X root' rows' n)) (xl_InfluenceFacts grant)"
    "\<not> passes_ceiling (xl_OutcomeFacts (fact_counts root rows)) (xl_OutcomeFacts (novelty X root' rows' n)) (xl_OutcomeFacts grant)"
    using assms by (simp_all add: passes_ceiling_def charge_fits_def limits_int64_def limits_le_def limits_add_def)
qed

text \<open>The audit table takes the event of the settlement.\<close>

definition audit_accepts :: "('o, 'x) control_env \<Rightarrow> call \<Rightarrow> 'o Store \<Rightarrow> bool" where
  "audit_accepts E c s \<longleftrightarrow>
     (\<forall>ev t. st_events t = st_events s \<and> st_head t = st_head s \<and> ev_EventID ev = [] \<and> ev_Actor ev = ''system'' \<and>
        ev_EventType ev = ''QUERY_EXPOSURE_SETTLED'' \<longrightarrow> (\<exists>e t'. appendAuditTx E c ev t = Inr (e, t')))"

lemma settlement_total:
  assumes ok: "exposure_ok s" and r: "select_row res_QueryID q (st_reservations s) = Some r" "row_status r = exposureReserved"
    and n: "Normalize (ce_exposure E) ob = Inr n" "ob_ProfileVersion n = res_ProfileVersion r"
      "length (ob_Outcome n) = (if res_ProfileVersion r = ProfileV3 then 1 else 0)"
    and ledger: "select_row led_RootTaskID (res_RootTaskID r) (st_ledgers s) = Some ledger"
    and grant: "select_row tg_TaskID (res_TaskID r) (st_grants s) = Some g"
    and fits: "charge_fits (led_Used ledger) (novelty (ce_exposure E) (res_RootTaskID r) (st_facts s) ob) (led_Limits ledger) (xg_Limits (tg_Exposure g))"
    and agrees: "table_agrees (ce_exposure E) (res_RootTaskID r) ob (st_facts s)" and audit: "audit_accepts E c s"
  shows "\<exists>ch s'. settleExposureMeasuredTx E c at q (Some ob) s = Inr (Some ch, s')"
proof -
  let ?X = "ce_exposure E" and ?root = "res_RootTaskID r" and ?d = "hex_encode (env_sha256 (ce_exposure E) (bytes_of (json_observation n)))"
  have keys: "distinct (map fact_key (st_facts s))" and roots: "distinct (map led_RootTaskID (st_ledgers s))"
    using ok by (simp_all add: ledgers_ok_def)
  obtain novel s1 where store: "store_facts E ?root (res_QueryID r) n at s = Inr (novel, s1)"
    using store_facts_total [OF n(1) agrees keys] by blast
  obtain new links where s1: "s1 = s\<lparr>st_facts := st_facts s @ new, st_links := links\<rparr>" and "novel = novelty ?X ?root (st_facts s) n"
    using store_facts_Inr [OF store keys] by blast
  then have novel: "novel = novelty ?X ?root (st_facts s) ob" using novelty_normalized [OF n(1)] by simp
  have mem: "ledger \<in> set (st_ledgers s)" "led_RootTaskID ledger = ?root" using select_row_Some [OF ledger] by auto
  have used: "led_Used ledger = fact_counts ?root (st_facts s)" using ledgers_ok_used [OF ok mem(1)] mem(2) by simp
  note exact = charge_fits_exact [OF fits [unfolded used]]
  obtain ledgers where ledgers: "charge_ledger ?root novel at (st_ledgers s1) = Inr ledgers"
    using charge_ledger_total [OF roots mem, of novel at] fits exact(1) s1 novel used by (auto simp: charge_fits_def)
  let ?s2 = "s1\<lparr>st_ledgers := ledgers, st_reservations := mark_settled (res_QueryID r) n novel ?d at (st_reservations s1)\<rparr>"
  have "\<exists>e s3. appendAuditTx E c (exposure_settled_event r n novel ?d at) ?s2 = Inr (e, s3)"
    using audit s1 by (intro audit [unfolded audit_accepts_def, rule_format]) (simp add: exposure_settled_event_def audit_event_def)
  then obtain e s3 where append: "appendAuditTx E c (exposure_settled_event r n novel ?d at) ?s2 = Inr (e, s3)" by blast
  have "\<exists>ch. charge_observation E c at r ledger n ?d s = Inr (Some ch, s3)"
    using store grant ledgers append exact(2,3,4) s1 novel used by (simp add: charge_observation_def Let_def)
  with r n ledger show ?thesis by (auto simp: settleExposureMeasuredTx_def Let_def split: if_splits)
qed

section \<open>Properties\<close>

text \<open>
  C16: a settlement charges novelty only. When the settlement of a reserved query succeeds, the
  family of the task has been charged, in each dimension, for exactly the facts it had been charged
  for before and the facts of the observation; the charge of the query is the number of facts of the
  observation that were not in the ledger, whatever their number of repetitions and the split of the
  insertion into statements; the used counts of the ledger are the numbers of rows of the fact table
  and do not pass the limits.
\<close>

theorem settlement_charges_novelty:
  assumes "exposure_ok s" and "select_row res_QueryID q (st_reservations s) = Some r" and "row_status r = exposureReserved"
    and "settleExposureMeasuredTx E c at q (Some ob) s = Inr (Some ch, s')"
  shows "ch_Charged ch = novelty (ce_exposure E) (res_RootTaskID r) (st_facts s) ob \<and>
    charged_hashes (res_RootTaskID r) ''RELEASE'' (st_facts s') =
      charged_hashes (res_RootTaskID r) ''RELEASE'' (st_facts s) \<union> fact_hashes (ce_exposure E) (ob_Release ob) \<and>
    charged_hashes (res_RootTaskID r) ''INFLUENCE'' (st_facts s') =
      charged_hashes (res_RootTaskID r) ''INFLUENCE'' (st_facts s) \<union> fact_hashes (ce_exposure E) (ob_Influence ob) \<and>
    charged_hashes (res_RootTaskID r) ''OUTCOME'' (st_facts s') =
      charged_hashes (res_RootTaskID r) ''OUTCOME'' (st_facts s) \<union> fact_hashes (ce_exposure E) (ob_Outcome ob) \<and>
    (\<forall>l\<in>set (st_ledgers s'). led_Used l = fact_counts (led_RootTaskID l) (st_facts s') \<and> limits_le (led_Used l) (led_Limits l))"
proof -
  obtain n ledger where n: "Normalize (ce_exposure E) ob = Inr n"
    and charge: "charge_observation E c at r ledger n (hex_encode (env_sha256 (ce_exposure E) (bytes_of (json_observation n)))) s = Inr (Some ch, s')"
    using settle_reserved [OF assms(4,2,3)] by metis
  obtain new where new: "st_facts s' = st_facts s @ new" "observation_added (ce_exposure E) (res_RootTaskID r) n (st_facts s) new"
    and ok: "exposure_ok s'" and ch: "ch_Charged ch = novelty (ce_exposure E) (res_RootTaskID r) (st_facts s) n"
    using charge_observation_Inr [OF charge assms(1)] by auto
  have "\<forall>l\<in>set (st_ledgers s'). led_Used l = fact_counts (led_RootTaskID l) (st_facts s') \<and> limits_le (led_Used l) (led_Limits l)"
    using ledgers_ok_used [OF ok] by blast
  then show ?thesis
    using new(2) ch unfolding new(1) observation_added_def novelty_normalized [OF n] Normalize_hashes [OF n] by blast
qed

text \<open>A store with one family that has a V2 ledger and one reserved query.\<close>

definition sample_limits :: ExposureLimits where
  "sample_limits = \<lparr>xl_ReleaseFacts = 10, xl_InfluenceFacts = 10, xl_OutcomeFacts = 0\<rparr>"

definition sample_exposure_grant :: TaskGrant where
  "sample_exposure_grant = \<lparr>tg_TaskID = ''t'', tg_Subject = ''s'', tg_Purpose = ''p'', tg_ApprovedProducts = [], tg_ApprovedColumns = [],
     tg_MandatoryScope = ''{}'', tg_SensitivityCeiling = [], tg_Budget = \<lparr>lim_Queries = 5, lim_Rows = 50, lim_DBMS = 500\<rparr>,
     tg_Exposure = \<lparr>xg_Limits = sample_limits, xg_ProfileVersion = ProfileV2, xg_PredicateFootprint = None\<rparr>, tg_ExpiresAt = 9000000,
     tg_CatalogVersion = ''c'', tg_CatalogDigest = GenesisHash, tg_DatasourceID = ''d'', tg_SchemaDigest = GenesisHash,
     tg_ViewBindingDigest = [], tg_ViewBindingSet = None, tg_ApprovalReceipt = ''r'', tg_CreatedAt = 1000\<rparr>"

definition sample_row :: exposure_row where
  "sample_row = \<lparr>res_QueryID = ''q'', res_TaskID = ''t'', res_RootTaskID = ''t'', res_ProfileVersion = ProfileV2,
     res_EstimatedReleaseFacts = 0, res_EstimatedInfluenceFacts = 1, res_EstimatedOutcomeFacts = 0, row_status = exposureReserved,
     row_actual = zero_limits, row_charged = zero_limits, row_observation_sha256 = [], row_created_at = 1000, row_settled_at = None\<rparr>"

definition sample_exposure_store :: "unit Store" where
  "sample_exposure_store = empty_store\<lparr>st_grants := [sample_exposure_grant], st_reservations := [sample_row],
     st_ledgers := [\<lparr>led_RootTaskID = ''t'', led_ProfileVersion = ProfileV2, led_Limits = sample_limits, led_Used = zero_limits, led_UpdatedAt = 1000\<rparr>]\<rparr>"

lemma sample_exposure_ok: "exposure_ok sample_exposure_store"
  by (simp add: sample_exposure_store_def empty_store_def ledgers_ok_def fact_counts_def fact_count_def zero_limits_def sample_limits_def limits_le_def)

lemma sample_exposure_row: "select_row res_QueryID ''q'' (st_reservations sample_exposure_store) = Some sample_row" "row_status sample_row = exposureReserved"
  by (simp_all add: sample_exposure_store_def sample_row_def select_row_def)

lemma sample_audit_accepts: "audit_accepts sample_control sample_call sample_exposure_store"
proof -
  have "\<not> blank ''system''" "\<not> blank ''QUERY_EXPOSURE_SETTLED''" by code_simp+
  then show ?thesis
    by (auto simp: audit_accepts_def appendAuditTx_def event_id_def randomID_def normalizeJSON_def sample_control_def sample_exposure_store_def
      empty_store_def hashAudit_def Hash_def NormalizePayload_def audit_lib_of_def insert_event_def sample_call_def Let_def)
qed

lemma sample_novelty:
  "novelty sample_env32 ''t'' [] (sample_observation []) = \<lparr>xl_ReleaseFacts = 0, xl_InfluenceFacts = 1, xl_OutcomeFacts = 0\<rparr>"
  by (simp add: novelty_def sample_observation_def fact_hashes_def)

lemma sample_normal:
  obtains n where "Normalize sample_env32 (sample_observation []) = Inr n" "ob_ProfileVersion n = ProfileV2" "length (ob_Outcome n) = 0"
proof -
  obtain n where n: "Normalize sample_env32 (sample_observation []) = Inr n" using sample_observation_normal [of "[]"] by auto
  have "ob_ProfileVersion n = ProfileV2" using n by (auto elim!: Normalize_Inr simp: sample_observation_def)
  moreover have "length (ob_Outcome n) = 0" using Normalize_facts(7) [OF n] by (simp add: sample_observation_def)
  ultimately show thesis using that n by blast
qed

lemma sample_settlement_hypotheses:
  "charge_fits zero_limits (novelty sample_env32 ''t'' [] (sample_observation [])) sample_limits sample_limits"
  "table_agrees sample_env32 ''t'' (sample_observation []) []"
  by (simp_all add: sample_novelty charge_fits_def limits_int64_def limits_le_def limits_add_def sample_limits_def zero_limits_def
    in_int64_def table_agrees_def rows_agree_def)

lemma sample_store_fields:
  "select_row led_RootTaskID (res_RootTaskID sample_row) (st_ledgers sample_exposure_store) =
     Some \<lparr>led_RootTaskID = ''t'', led_ProfileVersion = ProfileV2, led_Limits = sample_limits, led_Used = zero_limits, led_UpdatedAt = 1000\<rparr>"
  "select_row tg_TaskID (res_TaskID sample_row) (st_grants sample_exposure_store) = Some sample_exposure_grant"
  "st_facts sample_exposure_store = []" "res_RootTaskID sample_row = ''t''" "res_ProfileVersion sample_row = ProfileV2"
  "ce_exposure sample_control = sample_env32" "xg_Limits (tg_Exposure sample_exposure_grant) = sample_limits"
  by (simp_all add: sample_exposure_store_def sample_row_def empty_store_def select_row_def sample_exposure_grant_def sample_control_def)

lemma ProfileV2_not_V3: "ProfileV2 \<noteq> ProfileV3"
  by simp

lemma sample_settlement:
  obtains ch s' where "settleExposureMeasuredTx sample_control sample_call 7000 ''q'' (Some (sample_observation [])) sample_exposure_store = Inr (Some ch, s')"
proof -
  obtain n where n: "Normalize sample_env32 (sample_observation []) = Inr n" "ob_ProfileVersion n = ProfileV2" "length (ob_Outcome n) = 0"
    by (rule sample_normal)
  have "\<exists>ch s'. settleExposureMeasuredTx sample_control sample_call 7000 ''q'' (Some (sample_observation [])) sample_exposure_store = Inr (Some ch, s')"
    by (rule settlement_total [OF sample_exposure_ok sample_exposure_row _ _ _ sample_store_fields(1,2) _ _ sample_audit_accepts, of _ n])
      (simp_all add: sample_store_fields n sample_settlement_hypotheses ProfileV2_not_V3)
  then show thesis using that by blast
qed

theorem settlement_charges_novelty_witness:
  "\<exists>ch s'. settleExposureMeasuredTx sample_control sample_call 7000 ''q'' (Some (sample_observation [])) sample_exposure_store = Inr (Some ch, s') \<and>
     ch_Charged ch = \<lparr>xl_ReleaseFacts = 0, xl_InfluenceFacts = 1, xl_OutcomeFacts = 0\<rparr>"
proof -
  obtain ch s' where settle: "settleExposureMeasuredTx sample_control sample_call 7000 ''q'' (Some (sample_observation [])) sample_exposure_store = Inr (Some ch, s')"
    by (rule sample_settlement)
  have "ch_Charged ch = novelty sample_env32 ''t'' [] (sample_observation [])"
    using settlement_charges_novelty [OF sample_exposure_ok sample_exposure_row settle] by (simp add: sample_store_fields)
  with settle sample_novelty show ?thesis by auto
qed





end
