(* ===== verification/Control_Receipt.thy ===== *)
theory Control_Receipt
  imports Control_Exposure
begin

text \<open>
  Query records, the archiving of a task and the signed terminal receipts of queries
  (\<open>receipt.go\<close> and the reads of \<open>budget.go\<close> they use). A receipt is built by a function
  of the caller from the evidence of a terminal query; it is stored once and bound to the audit
  event that ended the query.
\<close>

section \<open>Definitions\<close>

subsection \<open>Query records\<close>

definition scanNullableTime :: "go_time option \<Rightarrow> go_time option" where
  "scanNullableTime v = (case v of None \<Rightarrow> None | Some t \<Rightarrow> if IsZero t then None else Some (dbTime t))"

text \<open>
  The budget snapshots of a record are kept as values: their JSON text decodes to what was encoded.
\<close>

definition scanQuery :: "QueryRecord \<Rightarrow> QueryRecord" where
  "scanQuery r = r\<lparr>qr_CreatedAt := dbTime (qr_CreatedAt r), qr_CompletedAt := scanNullableTime (qr_CompletedAt r)\<rparr>"

definition query_row :: "go_string \<Rightarrow> 'o Store \<Rightarrow> QueryRecord option" where
  "query_row queryID s = map_option scanQuery (select_row qr_ID queryID (st_queries s))"

definition request_row :: "go_string \<Rightarrow> go_string \<Rightarrow> 'o Store \<Rightarrow> QueryRecord option" where
  "request_row taskID requestID s = map_option scanQuery (select_row (\<lambda>r. (qr_TaskID r, qr_RequestID r)) (taskID, requestID) (st_queries s))"

definition GetQuery :: "go_string \<Rightarrow> 'o Store \<Rightarrow> go_error + QueryRecord" where
  "GetQuery queryID s =
     (case checkOpen ''get query'' s of Some err \<Rightarrow> Inl err | None \<Rightarrow>
      (case query_row queryID s of None \<Rightarrow> Inl (opErr ''get query'' ErrNotFound ErrNoRows) | Some record \<Rightarrow> Inr record))"

definition GetQueryByRequestID :: "go_string \<Rightarrow> go_string \<Rightarrow> 'o Store \<Rightarrow> go_error + QueryRecord" where
  "GetQueryByRequestID taskID requestID s =
     (case checkOpen ''get query by request id'' s of Some err \<Rightarrow> Inl err | None \<Rightarrow>
      if taskID = [] \<or> requestID = []
      then Inl (opErr ''get query by request id'' ErrInvalid (Message ''task and request id are required''))
      else case request_row taskID requestID s of
          None \<Rightarrow> Inl (opErr ''get query by request id'' ErrNotFound ErrNoRows)
        | Some record \<Rightarrow> Inr record)"

subsection \<open>Terminal audit events\<close>

definition isTerminalQueryAudit :: "go_string \<Rightarrow> bool" where
  "isTerminalQueryAudit eventType \<longleftrightarrow> eventType \<in> {''QUERY_COMPLETED'', ''QUERY_BUDGET_RELEASED'', ''QUERY_FAILED'',
     ''QUERY_INDETERMINATE'', ''QUERY_INTERRUPTED''}"

text \<open>\<open>ORDER BY sequence DESC LIMIT 1\<close>\<close>

definition terminalAuditForQueryTx :: "go_string \<Rightarrow> 'o Store \<Rightarrow> go_error + Event" where
  "terminalAuditForQueryTx queryID s =
     (case rev (filter (\<lambda>e. ev_QueryID e = queryID \<and> isTerminalQueryAudit (ev_EventType e)) (events_by_sequence s)) of
        [] \<Rightarrow> Inl ErrNoRows | e # es \<Rightarrow> Inr (scanAudit e))"

definition archiveTaskTx ::
  "('o, 'x) control_env \<Rightarrow> call \<Rightarrow> go_string \<Rightarrow> go_string \<Rightarrow> go_string \<Rightarrow> go_time \<Rightarrow> 'o Store \<Rightarrow> go_error + 'o Store" where
  "archiveTaskTx E c taskID reason actor at s =
     (let hit = (\<lambda>t. tk_ID t = taskID \<and> tk_State t \<noteq> TaskArchived) in
      if \<not> list_ex hit (st_tasks s) then Inr s
      else case appendAuditTx E c (audit_event taskID [] actor ''TASK_STATE_CHANGED''
               [(''terminal_reason'', json_string reason), (''to'', json_string TaskArchived)] at)
             (s\<lparr>st_tasks := update_rows hit (\<lambda>t. t\<lparr>tk_State := TaskArchived, tk_TerminalReason := reason, tk_UpdatedAt := dbTime at\<rparr>) (st_tasks s)\<rparr>) of
          Inl err \<Rightarrow> Inl err | Inr (e, s') \<Rightarrow> Inr s')"

subsection \<open>Receipts\<close>

definition validateSaveQueryReceipt :: "('o, 'x) control_env \<Rightarrow> SaveQueryReceiptRequest \<Rightarrow> go_error option" where
  "validateSaveQueryReceipt E r =
     (if sr_QueryID r = [] \<or> sr_Version r = [] \<or> sr_GatewayKeyID r = [] \<or> sr_Signature r = [] \<or>
         sr_TerminalAuditSequence r \<le> 0 \<or> \<not> validSHA256Hex (sr_TerminalAuditHash r) \<or>
         sr_ReceiptJSON r = [] \<or> \<not> ce_json_valid E (sr_ReceiptJSON r)
      then Some (Message ''query, signature, terminal audit evidence, and receipt JSON are required'') else None)"

definition receiptErrorKind :: "go_error \<Rightarrow> control_error" where
  "receiptErrorKind err =
     (if isNoRows err then ErrNotFound
      else if Contains (error_text err) ''invalid receipt'' then ErrInvalid
      else ErrConflict)"

definition samePersistedReceipt :: "PersistedQueryReceipt \<Rightarrow> PersistedQueryReceipt \<Rightarrow> bool" where
  "samePersistedReceipt left right \<longleftrightarrow>
     rc_QueryID left = rc_QueryID right \<and> rc_Version left = rc_Version right \<and>
     rc_GatewayKeyID left = rc_GatewayKeyID right \<and> rc_Signature left = rc_Signature right \<and>
     rc_TerminalAuditSequence left = rc_TerminalAuditSequence right \<and>
     rc_TerminalAuditHash left = rc_TerminalAuditHash right \<and>
     rc_ReceiptSHA256 left = rc_ReceiptSHA256 right \<and> rc_ReceiptJSON left = rc_ReceiptJSON right"

definition scanPersistedQueryReceipt :: "PersistedQueryReceipt \<Rightarrow> PersistedQueryReceipt" where
  "scanPersistedQueryReceipt r = r\<lparr>rc_SignedAt := dbTime (rc_SignedAt r), rc_CreatedAt := dbTime (rc_CreatedAt r)\<rparr>"

definition receipt_row :: "go_string \<Rightarrow> 'o Store \<Rightarrow> PersistedQueryReceipt option" where
  "receipt_row queryID s = map_option scanPersistedQueryReceipt (select_row rc_QueryID queryID (st_receipts s))"

definition receipt_of :: "('o, 'x) control_env \<Rightarrow> go_time \<Rightarrow> SaveQueryReceiptRequest \<Rightarrow> PersistedQueryReceipt" where
  "receipt_of E at r = \<lparr>rc_QueryID = sr_QueryID r, rc_Version = sr_Version r, rc_GatewayKeyID = sr_GatewayKeyID r,
     rc_Signature = sr_Signature r, rc_SignedAt = dbTime (sr_SignedAt r),
     rc_TerminalAuditSequence = sr_TerminalAuditSequence r, rc_TerminalAuditHash = sr_TerminalAuditHash r,
     rc_ReceiptJSON = sr_ReceiptJSON r,
     rc_ReceiptSHA256 = hex_encode (env_sha256 (ce_exposure E) (bytes_of (sr_ReceiptJSON r))), rc_CreatedAt = dbTime at\<rparr>"

definition saveQueryReceiptTx ::
  "('o, 'x) control_env \<Rightarrow> go_time \<Rightarrow> SaveQueryReceiptRequest \<Rightarrow> 'o Store \<Rightarrow> go_error + PersistedQueryReceipt \<times> 'o Store" where
  "saveQueryReceiptTx E at request s =
     (case query_row (sr_QueryID request) s of None \<Rightarrow> Inl ErrNoRows | Some record \<Rightarrow>
      if qr_Status record = QueryReserved \<or> qr_CompletedAt record = None
      then Inl (Message ''invalid receipt: query is not terminal'')
      else case find (\<lambda>e. ev_Sequence e = sr_TerminalAuditSequence request \<and> ev_QueryID e = sr_QueryID request \<and>
               ev_CurrentHash e = sr_TerminalAuditHash request) (st_events s) of
          None \<Rightarrow> Inl ErrNoRows
        | Some e \<Rightarrow>
           if \<not> isTerminalQueryAudit (ev_EventType e)
           then Inl (Message (''invalid receipt: audit event '' @ ev_EventType e @ '' is not terminal query evidence''))
           else case receipt_row (sr_QueryID request) s of
               Some existing \<Rightarrow>
                 if samePersistedReceipt existing (receipt_of E at request) then Inr (existing, s)
                 else Inl (Message ''query receipt already persisted with different evidence'')
             | None \<Rightarrow>
                 (case insert_row rc_QueryID (receipt_of E at request) (st_receipts s) of
                    Inl err \<Rightarrow> Inl err
                  | Inr rows \<Rightarrow> Inr (receipt_of E at request, s\<lparr>st_receipts := rows\<rparr>)))"

definition persistTerminalReceiptTx ::
  "('o, 'x) control_env \<Rightarrow> go_time \<Rightarrow> QueryReceipt \<Rightarrow> TerminalReceiptBuilder option \<Rightarrow> 'o Store \<Rightarrow>
     go_error + PersistedQueryReceipt \<times> 'o Store" where
  "persistTerminalReceiptTx E at evidence builder s =
     (case builder of None \<Rightarrow> Inl (Message ''invalid receipt: builder is required'') | Some build \<Rightarrow>
      (case receipt_row (qr_ID (qc_Query evidence)) s of Some existing \<Rightarrow> Inr (existing, s) | None \<Rightarrow>
       (case build evidence of Inl err \<Rightarrow> Inl err | Inr request \<Rightarrow>
         saveQueryReceiptTx E at
           (request\<lparr>sr_SignedAt := (if IsZero (sr_SignedAt request) then dbTime at else dbTime (sr_SignedAt request))\<rparr>) s)))"

definition SaveQueryReceipt ::
  "('o, 'x) control_env \<Rightarrow> call \<Rightarrow> SaveQueryReceiptRequest \<Rightarrow> 'o Store \<Rightarrow> (go_error + PersistedQueryReceipt) \<times> 'o Store" where
  "SaveQueryReceipt E c request s =
     (case checkOpen ''save query receipt'' s of Some err \<Rightarrow> (Inl err, s) | None \<Rightarrow>
      (case validateSaveQueryReceipt E request of
         Some err \<Rightarrow> (Inl (opErr ''save query receipt'' ErrInvalid err), s)
       | None \<Rightarrow>
          (case saveQueryReceiptTx E (now c 1)
                 (request\<lparr>sr_SignedAt := (if IsZero (sr_SignedAt request) then now c 0 else dbTime (sr_SignedAt request))\<rparr>) s of
             Inl err \<Rightarrow> (Inl (opErr ''save query receipt'' (receiptErrorKind err) err), s)
           | Inr (receipt, s') \<Rightarrow> (Inr receipt, s'))))"

definition GetPersistedQueryReceipt :: "go_string \<Rightarrow> 'o Store \<Rightarrow> go_error + PersistedQueryReceipt" where
  "GetPersistedQueryReceipt queryID s =
     (case checkOpen ''get persisted query receipt'' s of Some err \<Rightarrow> Inl err | None \<Rightarrow>
      (case receipt_row queryID s of
         None \<Rightarrow> Inl (opErr ''get persisted query receipt'' ErrNotFound ErrNoRows)
       | Some receipt \<Rightarrow> Inr receipt))"

end
