(* ===== verification/Control_Listing.thy ===== *)
theory Control_Listing
  imports Control_Receipt
begin

text \<open>
  The listings of the query records of a task (\<open>ListQueries\<close> and \<open>ListQueriesPage\<close> of
  \<open>budget.go\<close>): keyset pagination by creation time and id.
\<close>

section \<open>Definitions\<close>

text \<open>\<open>ORDER BY created_at, id\<close>, and the row comparison \<open>(created_at, id) > (c, i)\<close>\<close>

definition query_le :: "('o, 'x) control_env \<Rightarrow> QueryRecord \<Rightarrow> QueryRecord \<Rightarrow> bool" where
  "query_le E a b \<longleftrightarrow> qr_CreatedAt a < qr_CreatedAt b \<or> (qr_CreatedAt a = qr_CreatedAt b \<and> ce_text_le E (qr_ID a) (qr_ID b))"

definition query_after :: "('o, 'x) control_env \<Rightarrow> go_time \<Rightarrow> go_string \<Rightarrow> QueryRecord \<Rightarrow> bool" where
  "query_after E created i r \<longleftrightarrow> qr_CreatedAt r > created \<or> (qr_CreatedAt r = created \<and> \<not> ce_text_le E (qr_ID r) i)"

definition task_queries :: "('o, 'x) control_env \<Rightarrow> go_string \<Rightarrow> 'o Store \<Rightarrow> QueryRecord list" where
  "task_queries E taskID s = order_by (query_le E) (filter (\<lambda>r. qr_TaskID r = taskID) (st_queries s))"

definition ListQueries :: "('o, 'x) control_env \<Rightarrow> go_string \<Rightarrow> int64 \<Rightarrow> 'o Store \<Rightarrow> go_error + QueryRecord list" where
  "ListQueries E taskID limit s =
     (case checkOpen ''list queries'' s of Some err \<Rightarrow> Inl err | None \<Rightarrow>
       Inr (map scanQuery (take (page_limit limit) (task_queries E taskID s))))"

record QueryRecordPage =
  qp_Records :: "QueryRecord list"
  qp_NextCursor :: go_string

text \<open>One row more than the limit is read; it says that there is a next page.\<close>

definition query_page :: "nat \<Rightarrow> QueryRecord list \<Rightarrow> QueryRecordPage" where
  "query_page limit rows =
     (let records = map scanQuery (take (limit + 1) rows) in
      if length records > limit then \<lparr>qp_Records = take limit records, qp_NextCursor = qr_ID (records ! (limit - 1))\<rparr>
      else \<lparr>qp_Records = records, qp_NextCursor = []\<rparr>)"

definition ListQueriesPage ::
  "('o, 'x) control_env \<Rightarrow> go_string \<Rightarrow> go_string \<Rightarrow> int64 \<Rightarrow> 'o Store \<Rightarrow> go_error + QueryRecordPage" where
  "ListQueriesPage E taskID cursor limit s =
     (case checkOpen ''list queries page'' s of Some err \<Rightarrow> Inl err | None \<Rightarrow>
      if blank taskID then Inl (opErr ''list queries page'' ErrInvalid (Message ''task id is required''))
      else if blank cursor then Inr (query_page (page_limit limit) (task_queries E taskID s))
      else case find (\<lambda>r. qr_TaskID r = taskID \<and> qr_ID r = cursor) (st_queries s) of
          None \<Rightarrow> Inl (opErr ''list queries page'' ErrInvalid (Message ''cursor does not belong to task''))
        | Some r \<Rightarrow> Inr (query_page (page_limit limit)
            (filter (query_after E (dbTime (qr_CreatedAt r)) cursor) (task_queries E taskID s))))"

text \<open>A client that follows the cursors, at most \<open>n\<close> pages; \<open>None\<close> when it did not come to an end.\<close>

fun follow_pages :: "('o, 'x) control_env \<Rightarrow> go_string \<Rightarrow> int64 \<Rightarrow> 'o Store \<Rightarrow> nat \<Rightarrow> go_string \<Rightarrow> QueryRecord list option" where
  "follow_pages E taskID limit s 0 cursor = None"
| "follow_pages E taskID limit s (Suc n) cursor =
     (case ListQueriesPage E taskID cursor limit s of Inl err \<Rightarrow> None
      | Inr page \<Rightarrow> if qp_NextCursor page = [] then Some (qp_Records page)
          else map_option (\<lambda>rs. qp_Records page @ rs) (follow_pages E taskID limit s n (qp_NextCursor page)))"

text \<open>The collation of the database is a linear order on text.\<close>

definition collation :: "('o, 'x) control_env \<Rightarrow> bool" where
  "collation E \<longleftrightarrow> (\<forall>x y. ce_text_le E x y \<or> ce_text_le E y x) \<and>
     (\<forall>x y z. ce_text_le E x y \<longrightarrow> ce_text_le E y z \<longrightarrow> ce_text_le E x z) \<and>
     (\<forall>x y. ce_text_le E x y \<longrightarrow> ce_text_le E y x \<longrightarrow> x = y)"

text \<open>The rows of the table: ids are unique and not blank, times are those of the database.\<close>

definition query_rows_ok :: "'o Store \<Rightarrow> bool" where
  "query_rows_ok s \<longleftrightarrow> distinct (map qr_ID (st_queries s)) \<and>
     (\<forall>r\<in>set (st_queries s). \<not> blank (qr_ID r) \<and> dbTime (qr_CreatedAt r) = qr_CreatedAt r)"

section \<open>Lemmas\<close>

subsection \<open>Sorting by insertion\<close>

lemma insert_by_sorted:
  assumes "\<And>x y. le x y \<or> le y x" and "\<And>x y z. le x y \<Longrightarrow> le y z \<Longrightarrow> le x z" and "sorted_wrt le xs"
  shows "sorted_wrt le (insert_by le r xs)"
  using assms(3) by (induction xs) (use assms(1,2) in \<open>auto\<close>)

lemma order_by_sorted:
  assumes "\<And>x y. le x y \<or> le y x" and "\<And>x y z. le x y \<Longrightarrow> le y z \<Longrightarrow> le x z"
  shows "sorted_wrt le (order_by le xs)"
  unfolding order_by_def by (induction xs) (simp_all add: insert_by_sorted assms)

lemma query_le_order:
  assumes "collation E"
  shows "query_le E x y \<or> query_le E y x" "query_le E x y \<Longrightarrow> query_le E y z \<Longrightarrow> query_le E x z"
  using assms unfolding collation_def query_le_def by (metis linorder_less_linear, metis order_less_trans)

text \<open>The rows after the row at a position are those behind it.\<close>

lemma after_split:
  assumes "collation E" and "sorted_wrt (query_le E) (xs @ r # ys)" and "distinct (map qr_ID (xs @ r # ys))"
  shows "filter (query_after E (qr_CreatedAt r) (qr_ID r)) (xs @ r # ys) = ys"
proof -
  have "\<not> query_after E (qr_CreatedAt r) (qr_ID r) x" if "x \<in> set xs \<or> x = r" for x
  proof -
    have "query_le E x r" using that assms(2) query_le_order(1) [OF assms(1), of r r] by (auto simp: sorted_wrt_append)
    then show ?thesis by (auto simp: query_le_def query_after_def)
  qed
  moreover have "query_after E (qr_CreatedAt r) (qr_ID r) y" if "y \<in> set ys" for y
  proof -
    have "query_le E r y" using that assms(2) by (simp add: sorted_wrt_append)
    moreover have "qr_ID y \<in> qr_ID ` set ys" using that by (rule imageI)
    then have "qr_ID y \<noteq> qr_ID r" using assms(3) by auto
    ultimately have "query_le E r y" "qr_ID y \<noteq> qr_ID r" by blast+
    then show ?thesis using assms(1) by (auto simp: query_le_def query_after_def collation_def)
  qed
  ultimately show ?thesis by (simp add: filter_False filter_True)
qed

lemma task_queries_rows:
  assumes "collation E" and "query_rows_ok s"
  shows "sorted_wrt (query_le E) (task_queries E t s)" "distinct (map qr_ID (task_queries E t s))"
    "set (task_queries E t s) = {r \<in> set (st_queries s). qr_TaskID r = t}"
  unfolding task_queries_def using assms query_le_order [OF assms(1)]
  by (auto intro!: order_by_sorted simp: query_rows_ok_def distinct_map_filter)

lemma find_query:
  "distinct (map qr_ID rows) \<Longrightarrow> r \<in> set rows \<Longrightarrow> find (\<lambda>x. qr_TaskID x = qr_TaskID r \<and> qr_ID x = qr_ID r) rows = Some r"
proof (induction rows)
  case (Cons a rows)
  then show ?case using imageI [of r "set rows" qr_ID] by auto
qed simp

lemma cursor_page:
  assumes "collation E" and "query_rows_ok s" and "\<not> st_closed s" and "\<not> blank t" and "task_queries E t s = xs @ r # ys"
  shows "ListQueriesPage E t (qr_ID r) limit s = Inr (query_page (page_limit limit) ys)"
proof -
  have "r \<in> set (task_queries E t s)" by (simp add: assms(5))
  then have r: "r \<in> set (st_queries s)" "qr_TaskID r = t" using task_queries_rows(3) [OF assms(1,2)] by auto
  then have ok: "\<not> blank (qr_ID r)" "dbTime (qr_CreatedAt r) = qr_CreatedAt r" and ids: "distinct (map qr_ID (st_queries s))"
    using assms(2) by (auto simp: query_rows_ok_def)
  have "find (\<lambda>x. qr_TaskID x = t \<and> qr_ID x = qr_ID r) (st_queries s) = Some r"
    using find_query [OF ids r(1)] r(2) by simp
  moreover have "filter (query_after E (qr_CreatedAt r) (qr_ID r)) (task_queries E t s) = ys"
    unfolding assms(5) using task_queries_rows(1,2) [OF assms(1,2), of t] by (intro after_split [OF assms(1)]) (simp_all only: assms(5))
  ultimately show ?thesis using assms(3,4) ok by (simp add: ListQueriesPage_def checkOpen_def)
qed

lemma page_limit_pos: "0 < page_limit limit"
  by (simp add: page_limit_def)

lemma query_page_short: "length rows \<le> n \<Longrightarrow> query_page n rows = \<lparr>qp_Records = map scanQuery rows, qp_NextCursor = []\<rparr>"
  by (simp add: query_page_def Let_def)

lemma query_page_long:
  assumes "n < length rows" and "0 < n"
  shows "query_page n rows = \<lparr>qp_Records = map scanQuery (take n rows), qp_NextCursor = qr_ID (rows ! (n - 1))\<rparr>"
  using assms by (simp add: query_page_def Let_def take_map min_def) (simp add: scanQuery_def)

text \<open>The page that starts behind the rows \<open>xs\<close>.\<close>

lemma page_at:
  assumes "collation E" and "query_rows_ok s" and "\<not> st_closed s" and "\<not> blank t" and "task_queries E t s = xs @ ys"
    and "cursor = (if xs = [] then [] else qr_ID (last xs))"
  shows "ListQueriesPage E t cursor limit s = Inr (query_page (page_limit limit) ys)"
proof (cases "xs = []")
  case True
  have "blank []" by code_simp
  with True assms(3-6) show ?thesis by (simp add: ListQueriesPage_def checkOpen_def)
next
  case False
  then have "task_queries E t s = butlast xs @ last xs # ys" using assms(5) by simp
  from cursor_page [OF assms(1-4) this] False assms(6) show ?thesis by simp
qed

lemma follow_behind:
  assumes "collation E" and "query_rows_ok s" and "\<not> st_closed s" and "\<not> blank t"
  shows "task_queries E t s = xs @ ys \<Longrightarrow> cursor = (if xs = [] then [] else qr_ID (last xs)) \<Longrightarrow> length ys < n \<Longrightarrow>
    follow_pages E t limit s n cursor = Some (map scanQuery ys)"
proof (induction n arbitrary: xs ys cursor)
  case (Suc n)
  let ?n = "page_limit limit"
  have page: "ListQueriesPage E t cursor limit s = Inr (query_page ?n ys)" by (rule page_at [OF assms Suc.prems(1,2)])
  show ?case
  proof (cases "length ys \<le> ?n")
    case True
    then show ?thesis using page by (simp add: query_page_short)
  next
    case False
    then have long: "?n < length ys" and pos: "0 < ?n" by (simp_all add: page_limit_pos)
    let ?r = "ys ! (?n - 1)"
    have "?r \<in> set (task_queries E t s)" using long pos Suc.prems(1) by (simp add: nth_mem)
    then have "\<not> blank (qr_ID ?r)" using task_queries_rows(3) [OF assms(1,2), of t] assms(2) by (auto simp: query_rows_ok_def)
    then have next_cursor: "qr_ID ?r \<noteq> []" by (rule not_blank_nonempty)
    have "last (xs @ take ?n ys) = ?r" "xs @ take ?n ys \<noteq> []"
      using long pos by (auto simp: last_append last_conv_nth min_def)
    then have "follow_pages E t limit s n (qr_ID ?r) = Some (map scanQuery (drop ?n ys))"
      using Suc.prems(1,3) long pos by (intro Suc.IH [of "xs @ take ?n ys"]) auto
    then show ?thesis
      using page next_cursor by (simp add: query_page_long [OF long pos] map_append [symmetric] del: map_append)
  qed
qed simp

section \<open>Properties\<close>


definition listed_record :: "go_string \<Rightarrow> go_time \<Rightarrow> QueryRecord" where
  "listed_record i at = \<lparr>qr_ID = i, qr_TaskID = ''t'', qr_RequestID = i, qr_Actor = ''s'', qr_RequestDigest = [], qr_SQLFingerprint = [],
     qr_CatalogVersion = [], qr_CatalogDigest = [], qr_DatasourceID = [], qr_SchemaDigest = [], qr_ViewBindingDigest = [],
     qr_ManifestDigest = [], qr_GrantDigest = [], qr_PolicyDecision = [], qr_Status = QueryReleased, qr_ReservedRows = 0, qr_ReservedDBMS = 0,
     qr_ResultRows = 0, qr_ResultDBMS = 0, qr_ResultObservedDBMS = 0, qr_ChargedQueries = 0, qr_ChargedRows = 0, qr_ChargedDBMS = 0,
     qr_BudgetBefore = \<lparr>bud_TaskID = [], bud_Limits = \<lparr>lim_Queries = 0, lim_Rows = 0, lim_DBMS = 0\<rparr>,
       bud_Usage = \<lparr>use_UsedQueries = 0, use_UsedRows = 0, use_UsedDBMS = 0, use_ReservedQueries = 0, use_ReservedRows = 0, use_ReservedDBMS = 0\<rparr>,
       bud_UpdatedAt = 0\<rparr>, qr_BudgetAfter = None, qr_ResultSHA256 = [], qr_ErrorCode = [], qr_CreatedAt = at, qr_CompletedAt = None\<rparr>"


end
