(* ===== verification/Control_Budget.thy ===== *)
theory Control_Budget
  imports Control_Receipt
begin

text \<open>
  The resource budget of a task (\<open>budget.go\<close>): a query reserves rows and database time before
  it runs and is settled, released, failed or marked indeterminate after it. The ledger of a task is
  the sum of its query records; used and reserved amounts together stay within the limits of the
  grant, and at most one query of a task is in flight.
\<close>

section \<open>Definitions\<close>

definition scanBudget :: "BudgetSnapshot \<Rightarrow> BudgetSnapshot" where
  "scanBudget b = b\<lparr>bud_UpdatedAt := dbTime (bud_UpdatedAt b)\<rparr>"

definition budget_row :: "go_string \<Rightarrow> 'o Store \<Rightarrow> BudgetSnapshot option" where
  "budget_row taskID s = map_option scanBudget (select_row bud_TaskID taskID (st_budgets s))"

definition GetBudget :: "go_string \<Rightarrow> 'o Store \<Rightarrow> go_error + BudgetSnapshot" where
  "GetBudget taskID s =
     (case checkOpen ''get budget'' s of Some err \<Rightarrow> Inl err | None \<Rightarrow>
      (case budget_row taskID s of None \<Rightarrow> Inl (opErr ''get budget'' ErrNotFound ErrNoRows) | Some b \<Rightarrow> Inr b))"

subsection \<open>Reservation\<close>

definition reserve_evidence_missing :: "ReserveRequest \<Rightarrow> bool" where
  "reserve_evidence_missing q \<longleftrightarrow>
     rq_QueryID q = [] \<or> rq_TaskID q = [] \<or> rq_RequestID q = [] \<or> rq_Actor q = [] \<or>
     rq_RequestDigest q = [] \<or> rq_SQLFingerprint q = [] \<or> rq_DatasourceID q = [] \<or>
     \<not> validSHA256Hex (rq_CatalogDigest q) \<or> \<not> validSHA256Hex (rq_SchemaDigest q) \<or>
     (rq_ViewBindingDigest q \<noteq> [] \<and> \<not> validSHA256Hex (rq_ViewBindingDigest q)) \<or>
     \<not> validSHA256Hex (rq_ManifestDigest q) \<or> \<not> validSHA256Hex (rq_GrantDigest q) \<or>
     rq_PolicyDecision q = []"

definition reserve_negative :: "ReserveRequest \<Rightarrow> bool" where
  "reserve_negative q \<longleftrightarrow> rq_RequestedRows q < 0 \<or> rq_RequestedDBMS q < 0 \<or>
     (case rq_Exposure q of None \<Rightarrow> False | Some x \<Rightarrow>
        xr_EstimatedReleaseFacts x < 0 \<or> xr_EstimatedInfluenceFacts x < 0 \<or> xr_EstimatedOutcomeFacts x < 0)"

definition zero_snapshot :: BudgetSnapshot where
  "zero_snapshot = \<lparr>bud_TaskID = [], bud_Limits = \<lparr>lim_Queries = 0, lim_Rows = 0, lim_DBMS = 0\<rparr>,
     bud_Usage = \<lparr>use_UsedQueries = 0, use_UsedRows = 0, use_UsedDBMS = 0, use_ReservedQueries = 0,
       use_ReservedRows = 0, use_ReservedDBMS = 0\<rparr>, bud_UpdatedAt = 0\<rparr>"

definition replay_reservation :: "QueryRecord \<Rightarrow> BudgetReservation" where
  "replay_reservation existing = \<lparr>br_QueryID = qr_ID existing, br_TaskID = qr_TaskID existing,
     br_RequestID = qr_RequestID existing, br_AllowedRows = qr_ReservedRows existing,
     br_AllowedDBMS = qr_ReservedDBMS existing, br_Before = qr_BudgetBefore existing, br_After = zero_snapshot,
     br_Replay = True, br_Record = Some existing, br_Exposure = None\<rparr>"

text \<open>The view binding of the grant, with its durable status, must be the one of the request.\<close>

definition check_view_binding :: "ReserveRequest \<Rightarrow> 'o Store \<Rightarrow> go_error option" where
  "check_view_binding q s =
     (case select_row tg_TaskID (rq_TaskID q) (st_grants s) of
        None \<Rightarrow> Some (opErr ''reserve budget'' ErrNotFound (Wrapped ''grant view binding'' ErrNoRows))
      | Some g \<Rightarrow>
         (let status = select_row vb_TaskID (rq_TaskID q) (st_view_status s);
              viewStatus = (case status of None \<Rightarrow> [] | Some v \<Rightarrow> vb_Status v);
              statusBoundDigest = (case status of None \<Rightarrow> [] | Some v \<Rightarrow> vb_BoundDigest v) in
          if tg_ViewBindingDigest g = [] then
            (if rq_ViewBindingDigest q \<noteq> [] \<or> viewStatus \<noteq> [] \<or> statusBoundDigest \<noteq> []
             then Some (opErr ''reserve budget'' ErrViewSemanticChanged (Message ''legacy grant has inconsistent view binding evidence''))
             else None)
          else if rq_ViewBindingDigest q \<noteq> tg_ViewBindingDigest g \<or> statusBoundDigest \<noteq> tg_ViewBindingDigest g \<or>
                  viewStatus \<noteq> TaskViewBindingActive
          then Some (opErr ''reserve budget'' ErrViewSemanticChanged (Message ''task view binding requires rebind''))
          else None))"

definition allowed_amount :: "int64 \<Rightarrow> int64 \<Rightarrow> int64" where
  "allowed_amount requested remaining = (if requested = 0 \<or> requested > remaining then remaining else requested)"

definition after_reserve :: "BudgetSnapshot \<Rightarrow> int64 \<Rightarrow> int64 \<Rightarrow> go_time \<Rightarrow> BudgetSnapshot" where
  "after_reserve b rows dbms at = b\<lparr>bud_Usage := (bud_Usage b)\<lparr>
       use_ReservedQueries := i64 (use_ReservedQueries (bud_Usage b) + 1),
       use_ReservedRows := i64 (use_ReservedRows (bud_Usage b) + rows),
       use_ReservedDBMS := i64 (use_ReservedDBMS (bud_Usage b) + dbms)\<rparr>, bud_UpdatedAt := at\<rparr>"

text \<open>
  \<open>UPDATE budget_ledger ... WHERE task_id=$4 AND reserved_queries=0\<close>: PostgreSQL refuses a sum
  that is not a bigint; no row updated is another query in progress.
\<close>

definition reserve_ledger :: "go_string \<Rightarrow> int64 \<Rightarrow> int64 \<Rightarrow> go_time \<Rightarrow> BudgetSnapshot list \<Rightarrow> go_error + BudgetSnapshot list" where
  "reserve_ledger taskID rows dbms at budgets =
     (let hit = (\<lambda>b. bud_TaskID b = taskID \<and> use_ReservedQueries (bud_Usage b) = 0) in
      if \<exists>b\<in>set budgets. hit b \<and> (\<not> in_int64 (use_ReservedRows (bud_Usage b) + rows) \<or> \<not> in_int64 (use_ReservedDBMS (bud_Usage b) + dbms))
      then Inl (opErr ''reserve budget'' ErrConflict DatabaseError)
      else if length (filter hit budgets) \<noteq> 1 then Inl (OpError ''reserve budget'' ErrQueryInProgress None)
      else Inr (update_rows hit (\<lambda>b. b\<lparr>bud_Usage := (bud_Usage b)\<lparr>
             use_ReservedQueries := use_ReservedQueries (bud_Usage b) + 1,
             use_ReservedRows := use_ReservedRows (bud_Usage b) + rows,
             use_ReservedDBMS := use_ReservedDBMS (bud_Usage b) + dbms\<rparr>, bud_UpdatedAt := dbTime at\<rparr>) budgets))"

definition reserved_record :: "ReserveRequest \<Rightarrow> int64 \<Rightarrow> int64 \<Rightarrow> BudgetSnapshot \<Rightarrow> go_time \<Rightarrow> QueryRecord" where
  "reserved_record q rows dbms before at = \<lparr>qr_ID = rq_QueryID q, qr_TaskID = rq_TaskID q, qr_RequestID = rq_RequestID q,
     qr_Actor = rq_Actor q, qr_RequestDigest = rq_RequestDigest q, qr_SQLFingerprint = rq_SQLFingerprint q,
     qr_CatalogVersion = rq_CatalogVersion q, qr_CatalogDigest = rq_CatalogDigest q, qr_DatasourceID = rq_DatasourceID q,
     qr_SchemaDigest = rq_SchemaDigest q, qr_ViewBindingDigest = rq_ViewBindingDigest q,
     qr_ManifestDigest = rq_ManifestDigest q, qr_GrantDigest = rq_GrantDigest q, qr_PolicyDecision = rq_PolicyDecision q,
     qr_Status = QueryReserved, qr_ReservedRows = rows, qr_ReservedDBMS = dbms, qr_ResultRows = 0, qr_ResultDBMS = 0,
     qr_ResultObservedDBMS = 0, qr_ChargedQueries = 0, qr_ChargedRows = 0, qr_ChargedDBMS = 0,
     qr_BudgetBefore = before, qr_BudgetAfter = None, qr_ResultSHA256 = [], qr_ErrorCode = [],
     qr_CreatedAt = dbTime at, qr_CompletedAt = None\<rparr>"

text \<open>\<open>INSERT INTO query_records\<close>, with its primary key and its unique index on the request id\<close>

definition insert_query :: "QueryRecord \<Rightarrow> QueryRecord list \<Rightarrow> go_error + QueryRecord list" where
  "insert_query r rows =
     (if (qr_TaskID r, qr_RequestID r) \<in> (\<lambda>r. (qr_TaskID r, qr_RequestID r)) ` set rows then Inl DatabaseError
      else insert_row qr_ID r rows)"

definition reserved_event :: "ReserveRequest \<Rightarrow> int64 \<Rightarrow> int64 \<Rightarrow> go_time \<Rightarrow> Event" where
  "reserved_event q rows dbms at = audit_event (rq_TaskID q) (rq_QueryID q) (rq_Actor q) ''QUERY_BUDGET_RESERVED''
     [(''catalog_digest'', json_string (rq_CatalogDigest q)), (''datasource_id'', json_string (rq_DatasourceID q)),
      (''db_ms'', FormatInt dbms), (''grant_digest'', json_string (rq_GrantDigest q)),
      (''manifest_digest'', json_string (rq_ManifestDigest q)), (''request_id'', json_string (rq_RequestID q)),
      (''rows'', FormatInt rows), (''schema_digest'', json_string (rq_SchemaDigest q)),
      (''view_binding_digest'', json_string (rq_ViewBindingDigest q))] at"

text \<open>The part of the transaction that reserves, once the request has passed the checks.\<close>

definition reserve_tx ::
  "('o, 'x) control_env \<Rightarrow> call \<Rightarrow> ReserveRequest \<Rightarrow> BudgetSnapshot \<Rightarrow> go_time \<Rightarrow> 'o Store \<Rightarrow> go_error + BudgetReservation \<times> 'o Store" where
  "reserve_tx E c q before at s =
     (let remaining = BudgetSnapshot_Remaining before;
          rows = allowed_amount (rq_RequestedRows q) (lim_Rows remaining);
          dbms = allowed_amount (rq_RequestedDBMS q) (lim_DBMS remaining) in
      (case reserve_ledger (rq_TaskID q) rows dbms at (st_budgets s) of Inl err \<Rightarrow> Inl err | Inr budgets \<Rightarrow>
       (case insert_query (reserved_record q rows dbms before at) (st_queries s) of
          Inl err \<Rightarrow> Inl (opErr ''reserve budget'' ErrConflict err)
        | Inr queries \<Rightarrow>
           (case reserveExposureTx E c (rq_QueryID q) (rq_TaskID q) (rq_Exposure q) at (s\<lparr>st_budgets := budgets, st_queries := queries\<rparr>) of
              Inl err \<Rightarrow> Inl (opErr ''reserve budget''
                (if errors_Is err ErrExposureEvidenceRequired then ErrExposureEvidenceRequired else ErrConflict) err)
            | Inr (exposure, s1) \<Rightarrow>
               (case appendAuditTx E c (reserved_event q rows dbms at) s1 of
                  Inl err \<Rightarrow> Inl (opErr ''reserve budget'' ErrConflict err)
                | Inr (e, s2) \<Rightarrow>
                   Inr (\<lparr>br_QueryID = rq_QueryID q, br_TaskID = rq_TaskID q, br_RequestID = rq_RequestID q,
                     br_AllowedRows = rows, br_AllowedDBMS = dbms, br_Before = before,
                     br_After = after_reserve before rows dbms at, br_Replay = False, br_Record = None,
                     br_Exposure = exposure\<rparr>, s2))))))"

text \<open>
  An error after an archive is committed with it; the other errors roll the transaction back.
\<close>

definition archive_and_fail ::
  "('o, 'x) control_env \<Rightarrow> call \<Rightarrow> go_string \<Rightarrow> go_string \<Rightarrow> control_error \<Rightarrow> go_time \<Rightarrow> 'o Store \<Rightarrow> (go_error + 'a) \<times> 'o Store" where
  "archive_and_fail E c taskID reason kind at s =
     (case archiveTaskTx E c taskID reason ''system'' at s of
        Inl err \<Rightarrow> (Inl (opErr ''reserve budget'' ErrConflict err), s)
      | Inr s' \<Rightarrow> (Inl (OpError ''reserve budget'' kind None), s'))"

text \<open>The request with the catalog version of its task, and the checks of the view binding and the budget.\<close>

definition catalog_filled :: "Task \<Rightarrow> ReserveRequest \<Rightarrow> ReserveRequest" where
  "catalog_filled task q = (if rq_CatalogVersion q = [] then q\<lparr>rq_CatalogVersion := tk_CatalogVersion task\<rparr> else q)"

definition reserve_checked ::
  "('o, 'x) control_env \<Rightarrow> call \<Rightarrow> ReserveRequest \<Rightarrow> 'o Store \<Rightarrow> (go_error + BudgetReservation) \<times> 'o Store" where
  "reserve_checked E c q s =
     (case check_view_binding q s of Some err \<Rightarrow> (Inl err, s) | None \<Rightarrow>
      (case budget_row (rq_TaskID q) s of
         None \<Rightarrow> (Inl (opErr ''reserve budget'' ErrNotFound (Wrapped ''grant budget'' ErrNoRows)), s)
       | Some before \<Rightarrow>
          if use_ReservedQueries (bud_Usage before) \<noteq> 0 then (Inl (OpError ''reserve budget'' ErrQueryInProgress None), s)
          else if lim_Queries (BudgetSnapshot_Remaining before) < 1 \<or> lim_Rows (BudgetSnapshot_Remaining before) < 1 \<or>
                  lim_DBMS (BudgetSnapshot_Remaining before) < 1
          then archive_and_fail E c (rq_TaskID q) TerminalBudgetExhausted ErrBudgetExhausted (now c 2) s
          else (case reserve_tx E c q before (now c 3) s of Inl err \<Rightarrow> (Inl err, s) | Inr (r, s') \<Rightarrow> (Inr r, s'))))"

definition ReserveBudget ::
  "('o, 'x) control_env \<Rightarrow> call \<Rightarrow> ReserveRequest \<Rightarrow> 'o Store \<Rightarrow> (go_error + BudgetReservation) \<times> 'o Store" where
  "ReserveBudget E c q s =
     (case checkOpen ''reserve budget'' s of Some err \<Rightarrow> (Inl err, s) | None \<Rightarrow>
      if reserve_evidence_missing q
      then (Inl (opErr ''reserve budget'' ErrInvalid (Message ''query, task, request, policy, and datasource evidence are required'')), s)
      else if reserve_negative q
      then (Inl (opErr ''reserve budget'' ErrInvalid (Message ''requested budget cannot be negative'')), s)
      else case select_row tk_ID (rq_TaskID q) (st_tasks s) of
          None \<Rightarrow> (Inl (opErr ''reserve budget'' ErrNotFound ErrNoRows), s)
        | Some task \<Rightarrow>
      (case request_row (rq_TaskID q) (rq_RequestID q) s of
          Some existing \<Rightarrow>
            if qr_RequestDigest existing \<noteq> rq_RequestDigest q \<or> qr_Actor existing \<noteq> rq_Actor q \<or>
               qr_ViewBindingDigest existing \<noteq> rq_ViewBindingDigest q
            then (Inl (opErr ''reserve budget'' ErrIdempotencyConflict (Message ''request id is bound to another digest'')), s)
            else (Inr (replay_reservation existing), s)
        | None \<Rightarrow>
      if tk_State task \<noteq> TaskActive
      then (Inl (opErr ''reserve budget'' ErrTaskNotActive (Message (''state is '' @ tk_State task))), s)
      else if (case tk_ExpiresAt task of None \<Rightarrow> False | Some expires \<Rightarrow> \<not> Before (now c 0) (dbTime expires))
      then archive_and_fail E c (rq_TaskID q) TerminalExpired ErrTaskExpired (now c 1) s
      else if rq_CatalogVersion q \<noteq> [] \<and> rq_CatalogVersion q \<noteq> tk_CatalogVersion task
      then (Inl (opErr ''reserve budget'' ErrConflict (Message ''catalog version mismatch'')), s)
      else reserve_checked E c (catalog_filled task q) s))"

subsection \<open>Settlement\<close>

definition settlementErrorKind :: "go_error \<Rightarrow> control_error" where
  "settlementErrorKind err =
     (if isNoRows err \<or> Contains (error_text err) ''reservation not found'' then ErrReservationNotFound
      else if Contains (error_text err) ''invalid settlement'' then ErrInvalid
      else if errors_Is err ErrExposureBudgetExhausted then ErrExposureBudgetExhausted
      else if errors_Is err ErrExposureEvidenceRequired then ErrExposureEvidenceRequired
      else ErrConflict)"

definition notBefore :: "go_time \<Rightarrow> go_time \<Rightarrow> go_time" where
  "notBefore v lowerBound = (if Before v lowerBound then lowerBound else v)"

definition charging_status :: "go_string \<Rightarrow> bool" where
  "charging_status status \<longleftrightarrow> status = QueryCompleted \<or> status = QueryFailed \<or> status = QueryIndeterminate"

definition budgetSettlementReachesHardLimit :: "go_string \<Rightarrow> BudgetSnapshot \<Rightarrow> bool" where
  "budgetSettlementReachesHardLimit status after \<longleftrightarrow> charging_status status \<and>
     (use_UsedQueries (bud_Usage after) \<ge> lim_Queries (bud_Limits after) \<or>
      use_UsedRows (bud_Usage after) \<ge> lim_Rows (bud_Limits after) \<or>
      use_UsedDBMS (bud_Usage after) \<ge> lim_DBMS (bud_Limits after))"

text \<open>What a settlement of a record charges: queries, rows and database time.\<close>

definition settlement_charge :: "go_string \<Rightarrow> 'x BudgetSettlement \<Rightarrow> QueryRecord \<Rightarrow> BudgetLimits" where
  "settlement_charge status b record =
     (if charging_status status
      then \<lparr>lim_Queries = 1, lim_Rows = bs_Rows b, lim_DBMS = min64 (bs_DBMS b) (qr_ReservedDBMS record)\<rparr>
      else \<lparr>lim_Queries = 0, lim_Rows = 0, lim_DBMS = 0\<rparr>)"

definition after_settle :: "BudgetSnapshot \<Rightarrow> QueryRecord \<Rightarrow> BudgetLimits \<Rightarrow> go_time \<Rightarrow> BudgetSnapshot" where
  "after_settle b record charge at = b\<lparr>bud_Usage := \<lparr>
       use_UsedQueries = i64 (use_UsedQueries (bud_Usage b) + lim_Queries charge),
       use_UsedRows = i64 (use_UsedRows (bud_Usage b) + lim_Rows charge),
       use_UsedDBMS = i64 (use_UsedDBMS (bud_Usage b) + lim_DBMS charge),
       use_ReservedQueries = i64 (use_ReservedQueries (bud_Usage b) - 1),
       use_ReservedRows = i64 (use_ReservedRows (bud_Usage b) - qr_ReservedRows record),
       use_ReservedDBMS = i64 (use_ReservedDBMS (bud_Usage b) - qr_ReservedDBMS record)\<rparr>, bud_UpdatedAt := at\<rparr>"

definition over_limits :: "BudgetSnapshot \<Rightarrow> bool" where
  "over_limits b \<longleftrightarrow> use_UsedQueries (bud_Usage b) > lim_Queries (bud_Limits b) \<or>
     use_UsedRows (bud_Usage b) > lim_Rows (bud_Limits b) \<or> use_UsedDBMS (bud_Usage b) > lim_DBMS (bud_Limits b)"

definition observed_dbms :: "'x BudgetSettlement \<Rightarrow> int64" where
  "observed_dbms b = (if bs_ObservedDBMS b = 0 \<and> bs_DBMS b > 0 then bs_DBMS b else bs_ObservedDBMS b)"

definition settled_record ::
  "go_string \<Rightarrow> 'x BudgetSettlement \<Rightarrow> BudgetLimits \<Rightarrow> BudgetSnapshot \<Rightarrow> go_string \<Rightarrow> go_time \<Rightarrow> QueryRecord \<Rightarrow> QueryRecord" where
  "settled_record status b charge after resultHash at record = record\<lparr>qr_Status := status, qr_ResultRows := bs_Rows b,
     qr_ResultDBMS := bs_DBMS b, qr_ResultObservedDBMS := observed_dbms b, qr_ChargedQueries := lim_Queries charge,
     qr_ChargedRows := lim_Rows charge, qr_ChargedDBMS := lim_DBMS charge, qr_BudgetAfter := Some after,
     qr_ResultSHA256 := resultHash, qr_ErrorCode := bs_ErrorCode b, qr_CompletedAt := Some (dbTime at)\<rparr>"

definition terminal_event_type :: "go_string \<Rightarrow> go_string" where
  "terminal_event_type status =
     (if status = QueryCompleted then ''QUERY_COMPLETED''
      else if status = QueryFailed then ''QUERY_FAILED''
      else if status = QueryIndeterminate then ''QUERY_INDETERMINATE''
      else ''QUERY_BUDGET_RELEASED'')"

definition settled_event ::
  "go_string \<Rightarrow> 'x BudgetSettlement \<Rightarrow> BudgetLimits \<Rightarrow> go_string \<Rightarrow> go_time \<Rightarrow> QueryRecord \<Rightarrow> Event" where
  "settled_event status b charge resultHash at record =
     audit_event (qr_TaskID record) (qr_ID record) (qr_Actor record) (terminal_event_type status)
       [(''catalog_digest'', json_string (qr_CatalogDigest record)), (''charged_db_ms'', FormatInt (lim_DBMS charge)),
        (''charged_queries'', FormatInt (lim_Queries charge)), (''charged_rows'', FormatInt (lim_Rows charge)),
        (''datasource_id'', json_string (qr_DatasourceID record)), (''error_code'', json_string (bs_ErrorCode b)),
        (''result_db_ms'', FormatInt (bs_DBMS b)), (''result_db_ms_observed'', FormatInt (observed_dbms b)),
        (''result_rows'', FormatInt (bs_Rows b)), (''result_sha256'', json_string resultHash),
        (''schema_digest'', json_string (qr_SchemaDigest record)),
        (''view_binding_digest'', json_string (qr_ViewBindingDigest record))] at"

text \<open>\<open>UPDATE budget_ledger SET used_..., reserved_... WHERE task_id\<close> with the values of \<open>after\<close>\<close>

definition write_budget :: "BudgetSnapshot \<Rightarrow> go_time \<Rightarrow> go_string \<Rightarrow> BudgetSnapshot list \<Rightarrow> BudgetSnapshot list" where
  "write_budget after at taskID = update_rows (\<lambda>b. bud_TaskID b = taskID) (\<lambda>b. b\<lparr>bud_Usage := bud_Usage after, bud_UpdatedAt := dbTime at\<rparr>)"

definition write_record :: "go_string \<Rightarrow> (QueryRecord \<Rightarrow> QueryRecord) \<Rightarrow> QueryRecord list \<Rightarrow> QueryRecord list" where
  "write_record queryID f = update_rows (\<lambda>r. qr_ID r = queryID \<and> qr_Status r = QueryReserved) f"

definition ledger_inconsistent :: "BudgetSnapshot \<Rightarrow> QueryRecord \<Rightarrow> bool" where
  "ledger_inconsistent b record \<longleftrightarrow> use_ReservedQueries (bud_Usage b) < 1 \<or>
     use_ReservedRows (bud_Usage b) < qr_ReservedRows record \<or> use_ReservedDBMS (bud_Usage b) < qr_ReservedDBMS record"

definition settleBudgetTx ::
  "('o, 'x) control_env \<Rightarrow> call \<Rightarrow> go_time \<Rightarrow> 'x BudgetSettlement \<Rightarrow> go_string \<Rightarrow> go_string \<Rightarrow> bool \<Rightarrow> 'o Store \<Rightarrow>
     go_error + (QueryRecord \<times> Event) \<times> 'o Store" where
  "settleBudgetTx E c at b status resultHash deferBudgetArchive s =
     (case query_row (bs_QueryID b) s of None \<Rightarrow> Inl (Wrapped ''reservation not found'' ErrNoRows) | Some record \<Rightarrow>
      if qr_Status record \<noteq> QueryReserved then
        (if qr_Status record = status then
           (case terminalAuditForQueryTx (qr_ID record) s of Inl err \<Rightarrow> Inl err | Inr audit \<Rightarrow> Inr ((record, audit), s))
         else Inl (Message (''reservation not found: query is '' @ qr_Status record)))
      else
       (let at = notBefore at (qr_CreatedAt record) in
        if \<not> charging_status status \<and> status \<noteq> QueryReleased
        then Inl (Message (''invalid settlement status '' @ [quote] @ status @ [quote]))
        else case budget_row (qr_TaskID record) s of None \<Rightarrow> Inl ErrNoRows | Some budget \<Rightarrow>
         if ledger_inconsistent budget record then Inl (Message ''reservation ledger is inconsistent'')
         else if bs_Rows b > qr_ReservedRows record
         then Inl (Message (''invalid settlement: result rows '' @ FormatInt (bs_Rows b) @ '' exceed reserved rows '' @ FormatInt (qr_ReservedRows record)))
         else
          (let charge = settlement_charge status b record; after = after_settle budget record charge at in
           if over_limits after then Inl (Message ''invalid settlement would exceed hard budget'')
           else case appendAuditTx E c (settled_event status b charge resultHash at record)
                  (s\<lparr>st_budgets := write_budget after at (qr_TaskID record) (st_budgets s),
                     st_queries := write_record (bs_QueryID b) (settled_record status b charge after resultHash at) (st_queries s)\<rparr>) of
               Inl err \<Rightarrow> Inl err
             | Inr (audit, s1) \<Rightarrow>
                 (case (if \<not> deferBudgetArchive \<and> budgetSettlementReachesHardLimit status after
                        then archiveTaskTx E c (qr_TaskID record) TerminalBudgetExhausted ''system'' at s1 else Inr s1) of
                    Inl err \<Rightarrow> Inl err
                  | Inr s2 \<Rightarrow> Inr ((settled_record status b charge after resultHash at record, audit), s2)))))"

definition settle_exposure ::
  "('o, 'x) control_env \<Rightarrow> call \<Rightarrow> go_time \<Rightarrow> 'x BudgetSettlement \<Rightarrow> go_string \<Rightarrow> 'o Store \<Rightarrow> go_error + ExposureCharge option \<times> 'o Store" where
  "settle_exposure E c at b status s =
     (if status = QueryCompleted then settleAnyExposureMeasuredTx E c at b s
      else case releaseAnyExposureReservationTx E c at (bs_QueryID b) s of Inl err \<Rightarrow> Inl err | Inr s' \<Rightarrow> Inr (None, s'))"

definition settleWithReceipt ::
  "('o, 'x) control_env \<Rightarrow> call \<Rightarrow> 'x BudgetSettlement \<Rightarrow> go_string \<Rightarrow> go_string \<Rightarrow> TerminalReceiptBuilder option \<Rightarrow> 'o Store \<Rightarrow>
     (go_error + QueryRecord \<times> PersistedQueryReceipt option) \<times> 'o Store" where
  "settleWithReceipt E c b status resultHash builder s =
     (case checkOpen ''settle budget'' s of Some err \<Rightarrow> (Inl err, s) | None \<Rightarrow>
      if bs_QueryID b = [] \<or> bs_Rows b < 0 \<or> bs_DBMS b < 0 \<or> bs_ObservedDBMS b < 0
      then (Inl (opErr ''settle budget'' ErrInvalid (Message ''query is required and use cannot be negative'')), s)
      else if bs_OrdinalMaterialization b
      then (Inl (opErr ''settle budget'' ErrInvalid (Message ''ordinal materialization requires FinalizeOrdinalQueryWithReceipt'')), s)
      else case settle_exposure E c (now c 0) b status s of
          Inl err \<Rightarrow> (Inl (opErr ''settle budget'' (settlementErrorKind err) err), s)
        | Inr (charge, s1) \<Rightarrow>
      (case settleBudgetTx E c (now c 0) b status resultHash False s1 of
          Inl err \<Rightarrow> (Inl (opErr ''settle budget'' (settlementErrorKind err) err), s)
        | Inr ((record, audit), s2) \<Rightarrow>
      (case builder of None \<Rightarrow> (Inr (record, None), s2) | Some build \<Rightarrow>
      (case persistTerminalReceiptTx E (now c 0) \<lparr>qc_Query = record, qc_Audit = audit, qc_Receipt = None, qc_Exposure = charge\<rparr> (Some build) s2 of
          Inl err \<Rightarrow> (Inl (opErr ''settle budget'' (receiptErrorKind err) err), s)
        | Inr (receipt, s3) \<Rightarrow> (Inr (record, Some receipt), s3)))))"

definition settle ::
  "('o, 'x) control_env \<Rightarrow> call \<Rightarrow> 'x BudgetSettlement \<Rightarrow> go_string \<Rightarrow> go_string \<Rightarrow> 'o Store \<Rightarrow> (go_error + QueryRecord) \<times> 'o Store" where
  "settle E c b status resultHash s = (case settleWithReceipt E c b status resultHash None s of (result, s') \<Rightarrow> (map_sum id fst result, s'))"

definition release_settlement :: "go_string \<Rightarrow> go_string \<Rightarrow> 'x BudgetSettlement" where
  "release_settlement queryID errorCode = \<lparr>bs_QueryID = queryID, bs_Rows = 0, bs_DBMS = 0, bs_ObservedDBMS = 0,
     bs_ErrorCode = errorCode, bs_Exposure = None, bs_OrdinalExposure = None, bs_OrdinalObservationRef = None,
     bs_OrdinalMaterialization = False\<rparr>"

definition SettleBudget where "SettleBudget E c b s = settle E c b QueryCompleted [] s"

definition SettleBudgetWithReceipt where
  "SettleBudgetWithReceipt E c b builder s = settleWithReceipt E c b QueryCompleted [] builder s"

definition ReleaseBudget where
  "ReleaseBudget E c queryID errorCode s = settle E c (release_settlement queryID errorCode) QueryReleased [] s"

definition ReleaseBudgetWithReceipt where
  "ReleaseBudgetWithReceipt E c queryID errorCode builder s =
     settleWithReceipt E c (release_settlement queryID errorCode) QueryReleased [] builder s"

definition FailBudget where "FailBudget E c b s = settle E c b QueryFailed [] s"

definition FailBudgetWithReceipt where
  "FailBudgetWithReceipt E c b builder s = settleWithReceipt E c b QueryFailed [] builder s"

definition indeterminate_settlement :: "QueryRecord \<Rightarrow> go_string \<Rightarrow> go_string \<Rightarrow> 'x BudgetSettlement" where
  "indeterminate_settlement record queryID errorCode = (release_settlement queryID errorCode)\<lparr>bs_Rows := qr_ReservedRows record,
     bs_DBMS := qr_ReservedDBMS record, bs_ObservedDBMS := qr_ReservedDBMS record\<rparr>"

definition MarkIndeterminate where
  "MarkIndeterminate E c queryID errorCode s =
     (case GetQuery queryID s of Inl err \<Rightarrow> (Inl err, s) | Inr record \<Rightarrow>
       settle E c (indeterminate_settlement record queryID errorCode) QueryIndeterminate [] s)"

definition MarkIndeterminateWithReceipt where
  "MarkIndeterminateWithReceipt E c queryID errorCode builder s =
     (case GetQuery queryID s of Inl err \<Rightarrow> (Inl err, s) | Inr record \<Rightarrow>
       settleWithReceipt E c (indeterminate_settlement record queryID errorCode) QueryIndeterminate [] builder s)"

section \<open>The invariant\<close>

text \<open>What a query in flight holds; a terminal query holds nothing.\<close>

definition held :: "(QueryRecord \<Rightarrow> int) \<Rightarrow> QueryRecord \<Rightarrow> int" where
  "held f r = (if qr_Status r = QueryReserved then f r else 0)"

definition task_sum :: "(QueryRecord \<Rightarrow> int) \<Rightarrow> go_string \<Rightarrow> QueryRecord list \<Rightarrow> int" where
  "task_sum f taskID rows = sum_list (map f (filter (\<lambda>r. qr_TaskID r = taskID) rows))"

definition usage_of :: "go_string \<Rightarrow> QueryRecord list \<Rightarrow> BudgetUsage" where
  "usage_of t rows = \<lparr>use_UsedQueries = task_sum qr_ChargedQueries t rows, use_UsedRows = task_sum qr_ChargedRows t rows,
     use_UsedDBMS = task_sum qr_ChargedDBMS t rows, use_ReservedQueries = task_sum (held (\<lambda>r. 1)) t rows,
     use_ReservedRows = task_sum (held qr_ReservedRows) t rows, use_ReservedDBMS = task_sum (held qr_ReservedDBMS) t rows\<rparr>"

definition record_ok :: "QueryRecord \<Rightarrow> bool" where
  "record_ok r \<longleftrightarrow> 0 \<le> qr_ReservedRows r \<and> 0 \<le> qr_ReservedDBMS r \<and>
     0 \<le> qr_ChargedQueries r \<and> qr_ChargedQueries r \<le> 1 \<and>
     0 \<le> qr_ChargedRows r \<and> qr_ChargedRows r \<le> qr_ReservedRows r \<and>
     0 \<le> qr_ChargedDBMS r \<and> qr_ChargedDBMS r \<le> qr_ReservedDBMS r \<and>
     (qr_Status r = QueryReserved \<longrightarrow> qr_ChargedQueries r = 0 \<and> qr_ChargedRows r = 0 \<and> qr_ChargedDBMS r = 0)"

definition within_limits :: "BudgetSnapshot \<Rightarrow> bool" where
  "within_limits b \<longleftrightarrow> lim_Queries (bud_Limits b) \<le> int64_max \<and> lim_Rows (bud_Limits b) \<le> int64_max \<and>
     lim_DBMS (bud_Limits b) \<le> int64_max \<and> use_ReservedQueries (bud_Usage b) \<le> 1 \<and>
     use_UsedQueries (bud_Usage b) + use_ReservedQueries (bud_Usage b) \<le> lim_Queries (bud_Limits b) \<and>
     use_UsedRows (bud_Usage b) + use_ReservedRows (bud_Usage b) \<le> lim_Rows (bud_Limits b) \<and>
     use_UsedDBMS (bud_Usage b) + use_ReservedDBMS (bud_Usage b) \<le> lim_DBMS (bud_Limits b)"

definition request_key :: "QueryRecord \<Rightarrow> go_string \<times> go_string" where
  "request_key r = (qr_TaskID r, qr_RequestID r)"

definition budgets_ok :: "BudgetSnapshot list \<Rightarrow> QueryRecord list \<Rightarrow> bool" where
  "budgets_ok budgets queries \<longleftrightarrow> distinct (map bud_TaskID budgets) \<and> distinct (map qr_ID queries) \<and>
     distinct (map request_key queries) \<and> (\<forall>r\<in>set queries. qr_TaskID r \<in> bud_TaskID ` set budgets \<and> record_ok r) \<and>
     (\<forall>b\<in>set budgets. bud_Usage b = usage_of (bud_TaskID b) queries \<and> within_limits b)"

section \<open>Lemmas\<close>

subsection \<open>Sums over the records of a task\<close>

lemma task_sum_Nil [simp]: "task_sum f t [] = 0"
  by (simp add: task_sum_def)

lemma task_sum_Cons [simp]: "task_sum f t (r # rows) = (if qr_TaskID r = t then f r else 0) + task_sum f t rows"
  by (simp add: task_sum_def)

lemma task_sum_append [simp]: "task_sum f t (xs @ ys) = task_sum f t xs + task_sum f t ys"
  by (simp add: task_sum_def)

lemma task_sum_nonneg: "(\<And>r. r \<in> set rows \<Longrightarrow> 0 \<le> f r) \<Longrightarrow> 0 \<le> task_sum f t rows"
  by (induction rows) auto

lemma task_sum_member:
  assumes "\<And>r. r \<in> set rows \<Longrightarrow> 0 \<le> f r" and "r \<in> set rows" and "qr_TaskID r = t"
  shows "f r \<le> task_sum f t rows"
  using assms
proof (induction rows)
  case (Cons x rows)
  have "0 \<le> task_sum f t rows" by (rule task_sum_nonneg) (simp add: Cons.prems)
  then show ?case using Cons by (auto simp: add_increasing)
qed simp

text \<open>Changing the record of one query changes the sums of its task by the difference.\<close>

lemma write_record_other: "q \<notin> qr_ID ` set rows \<Longrightarrow> write_record q g rows = rows"
  unfolding write_record_def by (rule update_rows_none) auto

lemma task_sum_write_record:
  assumes "distinct (map qr_ID rows)" and "r \<in> set rows" and "qr_Status r = QueryReserved"
    and "\<And>x. qr_TaskID (g x) = qr_TaskID x"
  shows "task_sum f t (write_record (qr_ID r) g rows) =
    task_sum f t rows + (if qr_TaskID r = t then f (g r) - f r else 0)"
  using assms(1,2)
proof (induction rows)
  case (Cons x rows)
  show ?case
  proof (cases "x = r")
    case True
    with Cons.prems have "write_record (qr_ID r) g rows = rows" by (intro write_record_other) auto
    with True assms(3,4) show ?thesis by (simp add: write_record_def update_rows_def)
  next
    case False
    with Cons.prems have "r \<in> set rows" "qr_ID x \<noteq> qr_ID r" by auto
    with Cons show ?thesis by (simp add: write_record_def update_rows_def)
  qed
qed simp

lemma set_write_record:
  assumes "distinct (map qr_ID rows)" and "r \<in> set rows" and "qr_Status r = QueryReserved"
  shows "set (write_record (qr_ID r) g rows) = insert (g r) (set rows - {r})"
proof -
  have "(qr_ID x = qr_ID r \<and> qr_Status x = QueryReserved) = (x = r)" if "x \<in> set rows" for x
    using assms that by (auto simp only: distinct_map inj_on_def)
  then have "set (write_record (qr_ID r) g rows) = (\<lambda>x. if x = r then g x else x) ` set rows"
    unfolding write_record_def set_update_rows by (intro image_cong) simp_all
  also have "\<dots> = insert (g r) (set rows - {r})" using assms(2) by auto
  finally show ?thesis .
qed

lemma usage_nonneg:
  assumes "budgets_ok bs qs" and "b \<in> set bs"
  shows "0 \<le> use_UsedQueries (bud_Usage b)" "0 \<le> use_UsedRows (bud_Usage b)" "0 \<le> use_UsedDBMS (bud_Usage b)"
    "0 \<le> use_ReservedQueries (bud_Usage b)" "0 \<le> use_ReservedRows (bud_Usage b)" "0 \<le> use_ReservedDBMS (bud_Usage b)"
  using assms by (auto simp: budgets_ok_def usage_of_def record_ok_def held_def intro!: task_sum_nonneg)

subsection \<open>The rows of the ledger\<close>

lemma budget_row_Some:
  "budget_row t s = Some b \<Longrightarrow>
     \<exists>b0\<in>set (st_budgets s). bud_TaskID b0 = t \<and> bud_TaskID b = t \<and> bud_Usage b = bud_Usage b0 \<and> bud_Limits b = bud_Limits b0"
  by (auto simp: budget_row_def scanBudget_def dest!: select_row_Some)

lemma query_row_Some:
  "query_row q s = Some r \<Longrightarrow> \<exists>r0\<in>set (st_queries s). r = scanQuery r0 \<and> qr_ID r0 = q"
  by (auto simp: query_row_def dest!: select_row_Some)

lemma scanQuery_fields [simp]:
  "qr_ID (scanQuery r) = qr_ID r" "qr_TaskID (scanQuery r) = qr_TaskID r" "qr_RequestID (scanQuery r) = qr_RequestID r"
  "qr_Actor (scanQuery r) = qr_Actor r" "qr_RequestDigest (scanQuery r) = qr_RequestDigest r"
  "qr_ViewBindingDigest (scanQuery r) = qr_ViewBindingDigest r"
  "qr_Status (scanQuery r) = qr_Status r" "qr_ReservedRows (scanQuery r) = qr_ReservedRows r"
  "qr_ReservedDBMS (scanQuery r) = qr_ReservedDBMS r"
  by (simp_all add: scanQuery_def)

lemma settled_record_fields [simp]:
  "qr_ID (settled_record st b ch af h at r) = qr_ID r" "qr_TaskID (settled_record st b ch af h at r) = qr_TaskID r"
  "qr_RequestID (settled_record st b ch af h at r) = qr_RequestID r" "qr_Status (settled_record st b ch af h at r) = st"
  "qr_ReservedRows (settled_record st b ch af h at r) = qr_ReservedRows r"
  "qr_ReservedDBMS (settled_record st b ch af h at r) = qr_ReservedDBMS r"
  "qr_ChargedQueries (settled_record st b ch af h at r) = lim_Queries ch"
  "qr_ChargedRows (settled_record st b ch af h at r) = lim_Rows ch"
  "qr_ChargedDBMS (settled_record st b ch af h at r) = lim_DBMS ch"
  "request_key (settled_record st b ch af h at r) = request_key r"
  by (simp_all add: settled_record_def request_key_def)

subsection \<open>A settlement keeps the ledger\<close>

definition settle_usage :: "BudgetUsage \<Rightarrow> QueryRecord \<Rightarrow> BudgetLimits \<Rightarrow> BudgetUsage" where
  "settle_usage u r ch = \<lparr>use_UsedQueries = use_UsedQueries u + lim_Queries ch, use_UsedRows = use_UsedRows u + lim_Rows ch,
     use_UsedDBMS = use_UsedDBMS u + lim_DBMS ch, use_ReservedQueries = use_ReservedQueries u - 1,
     use_ReservedRows = use_ReservedRows u - qr_ReservedRows r, use_ReservedDBMS = use_ReservedDBMS u - qr_ReservedDBMS r\<rparr>"

text \<open>A charge that a settlement of a record may make.\<close>

definition charge_ok :: "QueryRecord \<Rightarrow> BudgetLimits \<Rightarrow> bool" where
  "charge_ok r ch \<longleftrightarrow> 0 \<le> lim_Queries ch \<and> lim_Queries ch \<le> 1 \<and> 0 \<le> lim_Rows ch \<and> lim_Rows ch \<le> qr_ReservedRows r \<and>
     0 \<le> lim_DBMS ch \<and> lim_DBMS ch \<le> qr_ReservedDBMS r"

definition settles :: "QueryRecord \<Rightarrow> BudgetLimits \<Rightarrow> (QueryRecord \<Rightarrow> QueryRecord) \<Rightarrow> bool" where
  "settles r ch g \<longleftrightarrow> charge_ok r ch \<and>
     (\<forall>x. qr_ID (g x) = qr_ID x \<and> qr_TaskID (g x) = qr_TaskID x \<and> request_key (g x) = request_key x) \<and>
     qr_Status (g r) \<noteq> QueryReserved \<and> qr_ReservedRows (g r) = qr_ReservedRows r \<and> qr_ReservedDBMS (g r) = qr_ReservedDBMS r \<and>
     qr_ChargedQueries (g r) = lim_Queries ch \<and> qr_ChargedRows (g r) = lim_Rows ch \<and> qr_ChargedDBMS (g r) = lim_DBMS ch"

lemma usage_of_write:
  assumes "distinct (map qr_ID qs)" and "r \<in> set qs" and "qr_Status r = QueryReserved" and "record_ok r" and "settles r ch g"
  shows "usage_of t (write_record (qr_ID r) g qs) = (if t = qr_TaskID r then settle_usage (usage_of t qs) r ch else usage_of t qs)"
proof -
  have g: "\<And>x. qr_TaskID (g x) = qr_TaskID x" using assms(5) by (simp add: settles_def)
  have "task_sum f t (write_record (qr_ID r) g qs) = task_sum f t qs + (if qr_TaskID r = t then f (g r) - f r else 0)" for f
    using task_sum_write_record [OF assms(1-3) g] .
  then show ?thesis
    using assms(3-5) by (simp add: usage_of_def settle_usage_def held_def settles_def record_ok_def)
qed

lemma reserved_in_usage:
  assumes "budgets_ok bs qs" and "r \<in> set qs" and "qr_Status r = QueryReserved" and "b \<in> set bs" and "bud_TaskID b = qr_TaskID r"
  shows "use_ReservedQueries (bud_Usage b) = 1" "qr_ReservedRows r \<le> use_ReservedRows (bud_Usage b)"
    "qr_ReservedDBMS r \<le> use_ReservedDBMS (bud_Usage b)"
proof -
  have u: "bud_Usage b = usage_of (qr_TaskID r) qs" and le: "use_ReservedQueries (bud_Usage b) \<le> 1"
    using assms by (auto simp: budgets_ok_def within_limits_def)
  have member: "f r \<le> task_sum (held f) (qr_TaskID r) qs" if "\<And>x. x \<in> set qs \<Longrightarrow> 0 \<le> f x" for f
    using task_sum_member [of qs "held f" r] that assms(2,3) by (simp add: held_def)
  have "record_ok x" if "x \<in> set qs" for x using assms(1) that by (simp add: budgets_ok_def)
  then show "use_ReservedQueries (bud_Usage b) = 1" "qr_ReservedRows r \<le> use_ReservedRows (bud_Usage b)"
      "qr_ReservedDBMS r \<le> use_ReservedDBMS (bud_Usage b)"
    using member [of "\<lambda>_. 1"] member [of qr_ReservedRows] member [of qr_ReservedDBMS] le u
    by (simp_all add: usage_of_def record_ok_def)
qed

lemma settle_within:
  assumes "budgets_ok bs qs" and "r \<in> set qs" and "qr_Status r = QueryReserved" and "b \<in> set bs" and "bud_TaskID b = qr_TaskID r"
    and "charge_ok r ch"
  shows "within_limits (b\<lparr>bud_Usage := settle_usage (bud_Usage b) r ch, bud_UpdatedAt := at\<rparr>)"
  using reserved_in_usage [OF assms(1-5)] assms(1,4,6)
  by (auto simp: budgets_ok_def within_limits_def settle_usage_def charge_ok_def)

lemma settle_budgets_ok:
  assumes ok: "budgets_ok bs qs" and r: "r \<in> set qs" "qr_Status r = QueryReserved" and settles: "settles r ch g"
    and b: "b \<in> set bs" "bud_TaskID b = qr_TaskID r" and after: "bud_Usage after = settle_usage (bud_Usage b) r ch"
  shows "budgets_ok (write_budget after at (qr_TaskID r) bs) (write_record (qr_ID r) g qs)"
proof -
  let ?qs = "write_record (qr_ID r) g qs" and ?bs = "write_budget after at (qr_TaskID r) bs"
  have ids: "distinct (map qr_ID qs)" and keys: "distinct (map request_key qs)" and tasks: "distinct (map bud_TaskID bs)"
    using ok by (simp_all add: budgets_ok_def)
  have rec: "record_ok r" using ok r by (simp add: budgets_ok_def)
  have qs': "map qr_ID ?qs = map qr_ID qs" "map request_key ?qs = map request_key qs"
    using settles by (auto simp: write_record_def settles_def intro!: map_update_rows)
  have bs': "map bud_TaskID ?bs = map bud_TaskID bs" by (auto simp: write_budget_def intro!: map_update_rows)
  have setq: "set ?qs = insert (g r) (set qs - {r})" by (rule set_write_record [OF ids r])
  have same: "b' = b" if "b' \<in> set bs" "bud_TaskID b' = qr_TaskID r" for b'
    using tasks b that by (auto simp only: distinct_map inj_on_def)
  have usage: "bud_Usage x = usage_of (bud_TaskID x) ?qs \<and> within_limits x" if x: "x \<in> set ?bs" for x
  proof -
    obtain y where y: "y \<in> set bs" "x = (if bud_TaskID y = qr_TaskID r then y\<lparr>bud_Usage := bud_Usage after, bud_UpdatedAt := dbTime at\<rparr> else y)"
      using x by (auto simp: write_budget_def set_update_rows)
    have y_ok: "bud_Usage y = usage_of (bud_TaskID y) qs \<and> within_limits y" using ok y(1) by (simp add: budgets_ok_def)
    show ?thesis
    proof (cases "bud_TaskID y = qr_TaskID r")
      case True
      with y same have "y = b" by simp
      moreover have "charge_ok r ch" using settles by (simp add: settles_def)
      ultimately show ?thesis
        using y(2) True y_ok after settle_within [OF ok r b] usage_of_write [OF ids r rec settles] by simp
    next
      case False
      with y y_ok show ?thesis by (simp add: usage_of_write [OF ids r rec settles])
    qed
  qed
  have "record_ok (g r)" using settles rec by (auto simp: settles_def record_ok_def charge_ok_def)
  moreover have "qr_TaskID (g r) = qr_TaskID r" using settles by (simp add: settles_def)
  moreover have "bud_TaskID ` set ?bs = bud_TaskID ` set bs" using bs' by (metis list.set_map)
  ultimately show ?thesis
    using ok r usage setq unfolding budgets_ok_def qs' bs' by auto
qed

lemma after_settle_exact:
  assumes ok: "budgets_ok bs qs" and r: "r \<in> set qs" "qr_Status r = QueryReserved"
    and b: "b \<in> set bs" "bud_TaskID b = qr_TaskID r" and ch: "charge_ok r ch"
    and x: "bud_Usage x = bud_Usage b" "bud_Limits x = bud_Limits b"
    and y: "qr_ReservedRows y = qr_ReservedRows r" "qr_ReservedDBMS y = qr_ReservedDBMS r"
  shows "bud_Usage (after_settle x y ch at) = settle_usage (bud_Usage b) r ch \<and> \<not> over_limits (after_settle x y ch at) \<and>
    \<not> ledger_inconsistent x y"
proof -
  note res = reserved_in_usage [OF ok r b] and nonneg = usage_nonneg [OF ok b(1)]
  have w: "within_limits b" using ok b by (simp add: budgets_ok_def)
  have "record_ok r" using ok r by (simp add: budgets_ok_def)
  then have "0 \<le> qr_ReservedRows r" "0 \<le> qr_ReservedDBMS r" by (simp_all add: record_ok_def)
  with res nonneg w ch have "in_int64 (use_UsedQueries (bud_Usage b) + lim_Queries ch)" "in_int64 (use_UsedRows (bud_Usage b) + lim_Rows ch)"
    "in_int64 (use_UsedDBMS (bud_Usage b) + lim_DBMS ch)" "in_int64 (use_ReservedQueries (bud_Usage b) - 1)"
    "in_int64 (use_ReservedRows (bud_Usage b) - qr_ReservedRows r)" "in_int64 (use_ReservedDBMS (bud_Usage b) - qr_ReservedDBMS r)"
    by (simp_all add: within_limits_def charge_ok_def in_int64_def int64_max_def)
  then have usage: "bud_Usage (after_settle x y ch at) = settle_usage (bud_Usage b) r ch"
    using x y by (simp add: after_settle_def settle_usage_def)
  moreover have "\<not> over_limits (after_settle x y ch at)"
    using res nonneg w ch x usage by (simp add: over_limits_def settle_usage_def within_limits_def charge_ok_def after_settle_def)
  ultimately show ?thesis using res x y by (simp add: ledger_inconsistent_def)
qed

subsection \<open>A reservation keeps the ledger\<close>

lemma filter_unique:
  assumes "distinct xs" and "b \<in> set xs" and "\<And>x. x \<in> set xs \<Longrightarrow> P x \<longleftrightarrow> x = b"
  shows "filter P xs = [b]"
proof -
  have "filter P xs = filter (\<lambda>x. x = b) xs" by (rule filter_cong) (simp_all add: assms(3))
  also have "\<dots> = [b]" using assms(1,2) by (induction xs) (auto simp: filter_empty_conv)
  finally show ?thesis .
qed

lemma Remaining_exact:
  assumes "budgets_ok bs qs" and "b \<in> set bs" and "bud_Usage x = bud_Usage b" and "bud_Limits x = bud_Limits b"
  shows "lim_Queries (BudgetSnapshot_Remaining x) = lim_Queries (bud_Limits b) - use_UsedQueries (bud_Usage b) - use_ReservedQueries (bud_Usage b)"
    "lim_Rows (BudgetSnapshot_Remaining x) = lim_Rows (bud_Limits b) - use_UsedRows (bud_Usage b) - use_ReservedRows (bud_Usage b)"
    "lim_DBMS (BudgetSnapshot_Remaining x) = lim_DBMS (bud_Limits b) - use_UsedDBMS (bud_Usage b) - use_ReservedDBMS (bud_Usage b)"
proof -
  note nonneg = usage_nonneg [OF assms(1,2)]
  have w: "within_limits b" using assms(1,2) by (simp add: budgets_ok_def)
  have exact: "max64 0 (i64 (i64 (l - u) - r)) = l - u - r" if "l \<le> int64_max" "0 \<le> u" "0 \<le> r" "u + r \<le> l" for l u r
  proof -
    have "in_int64 (l - u)" "in_int64 (l - u - r)" using that by (simp_all add: in_int64_def int64_max_def)
    then show ?thesis using that by (simp add: max64_def)
  qed
  show "lim_Queries (BudgetSnapshot_Remaining x) = lim_Queries (bud_Limits b) - use_UsedQueries (bud_Usage b) - use_ReservedQueries (bud_Usage b)"
    "lim_Rows (BudgetSnapshot_Remaining x) = lim_Rows (bud_Limits b) - use_UsedRows (bud_Usage b) - use_ReservedRows (bud_Usage b)"
    "lim_DBMS (BudgetSnapshot_Remaining x) = lim_DBMS (bud_Limits b) - use_UsedDBMS (bud_Usage b) - use_ReservedDBMS (bud_Usage b)"
    using nonneg w assms(3,4) by (simp_all add: BudgetSnapshot_Remaining_def within_limits_def exact)
qed

lemma allowed_amount_bounds: "0 \<le> requested \<Longrightarrow> 0 \<le> remaining \<Longrightarrow> 0 \<le> allowed_amount requested remaining \<and> allowed_amount requested remaining \<le> remaining"
  by (simp add: allowed_amount_def)

definition reserve_usage :: "BudgetUsage \<Rightarrow> int64 \<Rightarrow> int64 \<Rightarrow> BudgetUsage" where
  "reserve_usage u rows dbms = u\<lparr>use_ReservedQueries := use_ReservedQueries u + 1, use_ReservedRows := use_ReservedRows u + rows,
     use_ReservedDBMS := use_ReservedDBMS u + dbms\<rparr>"

lemma usage_of_reserve:
  "usage_of t (qs @ [reserved_record q rows dbms before at]) =
     (if t = rq_TaskID q then reserve_usage (usage_of t qs) rows dbms else usage_of t qs)"
  by (simp add: usage_of_def reserve_usage_def reserved_record_def held_def)

text \<open>A row that a reservation may charge: nothing in flight, and the amounts fit what remains.\<close>

definition reservable :: "BudgetSnapshot \<Rightarrow> int64 \<Rightarrow> int64 \<Rightarrow> bool" where
  "reservable b rows dbms \<longleftrightarrow> use_ReservedQueries (bud_Usage b) = 0 \<and> 0 \<le> rows \<and> 0 \<le> dbms \<and>
     use_UsedQueries (bud_Usage b) + 1 \<le> lim_Queries (bud_Limits b) \<and>
     use_UsedRows (bud_Usage b) + use_ReservedRows (bud_Usage b) + rows \<le> lim_Rows (bud_Limits b) \<and>
     use_UsedDBMS (bud_Usage b) + use_ReservedDBMS (bud_Usage b) + dbms \<le> lim_DBMS (bud_Limits b)"

lemma reserve_ledger_Inr:
  assumes "budgets_ok bs qs" and "b \<in> set bs" and "bud_TaskID b = t" and "reservable b rows dbms"
  shows "reserve_ledger t rows dbms at bs = Inr (update_rows (\<lambda>x. bud_TaskID x = t)
    (\<lambda>x. x\<lparr>bud_Usage := reserve_usage (bud_Usage x) rows dbms, bud_UpdatedAt := dbTime at\<rparr>) bs)"
proof -
  let ?hit = "\<lambda>x. bud_TaskID x = t \<and> use_ReservedQueries (bud_Usage x) = 0"
  have same: "x = b" if "x \<in> set bs" "bud_TaskID x = t" for x
    using assms(1-3) that by (auto simp only: budgets_ok_def distinct_map inj_on_def)
  have hit: "?hit x = (bud_TaskID x = t)" if "x \<in> set bs" for x
    using same [OF that] assms(4) by (auto simp: reservable_def)
  have dis: "distinct bs" using assms(1) by (simp add: budgets_ok_def distinct_map)
  have "filter ?hit bs = [b]"
    using dis assms(2) by (rule filter_unique) (use same hit assms(3) in blast)
  then have one: "length (filter ?hit bs) = 1" by simp
  have upd: "update_rows ?hit f bs = update_rows (\<lambda>x. bud_TaskID x = t) f bs" for f
    unfolding update_rows_def by (rule map_cong) (simp_all add: hit)
  have "within_limits b" using assms(1,2) by (simp add: budgets_ok_def)
  then have big: "in_int64 (use_ReservedRows (bud_Usage x) + rows) \<and> in_int64 (use_ReservedDBMS (bud_Usage x) + dbms)"
    if "x \<in> set bs" "?hit x" for x
    using same [OF that(1)] that(2) assms(4) usage_nonneg [OF assms(1,2)]
    by (auto simp: within_limits_def reservable_def in_int64_def int64_max_def)
  show ?thesis
    using one big unfolding reserve_ledger_def Let_def upd reserve_usage_def by (auto simp: upd)
qed

lemma reserve_budgets_ok:
  assumes ok: "budgets_ok bs qs" and b: "b \<in> set bs" "bud_TaskID b = rq_TaskID q" and fits: "reservable b rows dbms"
    and new: "rq_QueryID q \<notin> qr_ID ` set qs" "(rq_TaskID q, rq_RequestID q) \<notin> request_key ` set qs"
  shows "budgets_ok (update_rows (\<lambda>x. bud_TaskID x = rq_TaskID q)
    (\<lambda>x. x\<lparr>bud_Usage := reserve_usage (bud_Usage x) rows dbms, bud_UpdatedAt := dbTime at\<rparr>) bs)
    (qs @ [reserved_record q rows dbms before at'])"
proof -
  let ?bs = "update_rows (\<lambda>x. bud_TaskID x = rq_TaskID q)
    (\<lambda>x. x\<lparr>bud_Usage := reserve_usage (bud_Usage x) rows dbms, bud_UpdatedAt := dbTime at\<rparr>) bs"
  let ?r = "reserved_record q rows dbms before at'"
  have bs': "map bud_TaskID ?bs = map bud_TaskID bs" by (rule map_update_rows) simp
  have same: "x = b" if "x \<in> set bs" "bud_TaskID x = rq_TaskID q" for x
    using ok b that by (auto simp only: budgets_ok_def distinct_map inj_on_def)
  have usage: "bud_Usage x = usage_of (bud_TaskID x) (qs @ [?r]) \<and> within_limits x" if x: "x \<in> set ?bs" for x
  proof -
    obtain y where y: "y \<in> set bs" "x = (if bud_TaskID y = rq_TaskID q
        then y\<lparr>bud_Usage := reserve_usage (bud_Usage y) rows dbms, bud_UpdatedAt := dbTime at\<rparr> else y)"
      using x by (auto simp: set_update_rows)
    have y_ok: "bud_Usage y = usage_of (bud_TaskID y) qs \<and> within_limits y" using ok y(1) by (simp add: budgets_ok_def)
    show ?thesis
    proof (cases "bud_TaskID y = rq_TaskID q")
      case True
      with y same have "y = b" by simp
      then show ?thesis using y(2) True y_ok fits
        by (auto simp: usage_of_reserve reservable_def reserve_usage_def within_limits_def)
    next
      case False
      with y y_ok show ?thesis by (simp add: usage_of_reserve)
    qed
  qed
  have "record_ok ?r" using fits by (simp add: record_ok_def reserved_record_def reservable_def)
  moreover have "qr_ID ?r = rq_QueryID q" "request_key ?r = (rq_TaskID q, rq_RequestID q)" "qr_TaskID ?r = rq_TaskID q"
    by (simp_all add: reserved_record_def request_key_def)
  moreover have "bud_TaskID ` set ?bs = bud_TaskID ` set bs" using bs' by (metis list.set_map)
  moreover have "rq_TaskID q \<in> bud_TaskID ` set bs" using b by (metis imageI)
  ultimately show ?thesis
    using ok b new usage unfolding budgets_ok_def bs' by auto
qed

end
