(* ===== verification/Control_Recovery.thy ===== *)
theory Control_Recovery
  imports Control_Budget
begin

text \<open>
  The recovery of the store after a restart (\<open>recovery.go\<close>): every query that was in flight is
  charged its whole reservation and becomes indeterminate, tasks past their expiry are archived, and
  callbacks that were being processed may be claimed again. \<open>New\<close> of \<open>store.go\<close> runs it
  before the store is handed out.
\<close>

section \<open>Definitions\<close>

text \<open>\<open>WHERE status='RESERVED' ORDER BY created_at, id\<close>\<close>

definition interrupted_queries :: "('o, 'x) control_env \<Rightarrow> 'o Store \<Rightarrow> QueryRecord list" where
  "interrupted_queries E s =
     order_by (\<lambda>a b. qr_CreatedAt a < qr_CreatedAt b \<or> (qr_CreatedAt a = qr_CreatedAt b \<and> ce_text_le E (qr_ID a) (qr_ID b)))
       (filter (\<lambda>r. qr_Status r = QueryReserved) (st_queries s))"

definition full_charge :: "QueryRecord \<Rightarrow> BudgetLimits" where
  "full_charge r = \<lparr>lim_Queries = 1, lim_Rows = qr_ReservedRows r, lim_DBMS = qr_ReservedDBMS r\<rparr>"

definition recovered_record :: "QueryRecord \<Rightarrow> BudgetSnapshot \<Rightarrow> go_time \<Rightarrow> QueryRecord \<Rightarrow> QueryRecord" where
  "recovered_record r after at record = record\<lparr>qr_Status := QueryIndeterminate, qr_ResultRows := qr_ReservedRows r,
     qr_ResultDBMS := qr_ReservedDBMS r, qr_ResultObservedDBMS := qr_ReservedDBMS r, qr_ChargedQueries := 1,
     qr_ChargedRows := qr_ReservedRows r, qr_ChargedDBMS := qr_ReservedDBMS r, qr_ErrorCode := ''GATEWAY_RESTART'',
     qr_BudgetAfter := Some after, qr_CompletedAt := Some (dbTime at)\<rparr>"

definition recovered_event :: "QueryRecord \<Rightarrow> go_time \<Rightarrow> Event" where
  "recovered_event r at = audit_event (qr_TaskID r) (qr_ID r) (qr_Actor r) ''QUERY_INDETERMINATE''
     [(''charged_db_ms'', FormatInt (qr_ReservedDBMS r)), (''charged_queries'', FormatInt 1),
      (''charged_rows'', FormatInt (qr_ReservedRows r)), (''reason'', json_string ''gateway_restart''),
      (''result_db_ms_observed'', FormatInt (qr_ReservedDBMS r)), (''status'', json_string QueryIndeterminate),
      (''view_binding_digest'', json_string (qr_ViewBindingDigest r))] at"

definition recover_receipt ::
  "('o, 'x) control_env \<Rightarrow> go_time \<Rightarrow> TerminalReceiptBuilder option \<Rightarrow> go_string \<Rightarrow> Event \<Rightarrow> 'o Store \<Rightarrow> go_error + 'o Store" where
  "recover_receipt E at builder queryID audit s =
     (case builder of None \<Rightarrow> Inr s | Some build \<Rightarrow>
      (case query_row queryID s of None \<Rightarrow> Inl (opErr ''recover store'' ErrConflict ErrNoRows) | Some record \<Rightarrow>
       (case persistTerminalReceiptTx E at \<lparr>qc_Query = record, qc_Audit = audit, qc_Receipt = None, qc_Exposure = None\<rparr> (Some build) s of
          Inl err \<Rightarrow> Inl (opErr ''recover store'' (receiptErrorKind err) err)
        | Inr (receipt, s') \<Rightarrow> Inr s')))"

text \<open>One interrupted query.\<close>

definition recover_query ::
  "('o, 'x) control_env \<Rightarrow> call \<Rightarrow> go_time \<Rightarrow> TerminalReceiptBuilder option \<Rightarrow> QueryRecord \<Rightarrow> 'o Store \<Rightarrow> go_error + 'o Store" where
  "recover_query E c at builder r s =
     (case releaseAnyExposureReservationTx E c at (qr_ID r) s of Inl err \<Rightarrow> Inl (opErr ''recover store'' ErrConflict err) | Inr s1 \<Rightarrow>
      (case budget_row (qr_TaskID r) s1 of None \<Rightarrow> Inl (opErr ''recover store'' ErrConflict ErrNoRows) | Some before \<Rightarrow>
       if ledger_inconsistent before r
       then Inl (opErr ''recover store'' ErrConflict (Message (''reservation ledger is inconsistent for query '' @ qr_ID r)))
       else
        (let after = after_settle before r (full_charge r) at in
         if over_limits after
         then Inl (opErr ''recover store'' ErrConflict (Message (''recovered reservation would exceed hard budget for query '' @ qr_ID r)))
         else if \<not> list_ex (\<lambda>x. qr_ID x = qr_ID r \<and> qr_Status x = QueryReserved) (st_queries s1)
         then Inl (opErr ''recover store'' ErrConflict (Message (''reservation changed during recovery for query '' @ qr_ID r)))
         else case appendAuditTx E c (recovered_event r at)
                (s1\<lparr>st_budgets := write_budget after at (qr_TaskID r) (st_budgets s1),
                    st_queries := write_record (qr_ID r) (recovered_record r after at) (st_queries s1)\<rparr>) of
             Inl err \<Rightarrow> Inl (opErr ''recover store'' ErrConflict err)
           | Inr (audit, s2) \<Rightarrow>
              (case recover_receipt E at builder (qr_ID r) audit s2 of Inl err \<Rightarrow> Inl err | Inr s3 \<Rightarrow>
                if budgetSettlementReachesHardLimit QueryIndeterminate after then
                  (case archiveTaskTx E c (qr_TaskID r) TerminalBudgetExhausted ''system'' at s3 of
                     Inl err \<Rightarrow> Inl (opErr ''recover store'' ErrConflict err) | Inr s4 \<Rightarrow> Inr s4)
                else Inr s3))))"

fun recover_queries ::
  "('o, 'x) control_env \<Rightarrow> call \<Rightarrow> go_time \<Rightarrow> TerminalReceiptBuilder option \<Rightarrow> QueryRecord list \<Rightarrow> 'o Store \<Rightarrow> go_error + 'o Store" where
  "recover_queries E c at builder [] s = Inr s"
| "recover_queries E c at builder (r # rs) s =
     (case recover_query E c at builder r s of Inl err \<Rightarrow> Inl err | Inr s' \<Rightarrow> recover_queries E c at builder rs s')"

text \<open>Tasks past their expiry, \<open>ORDER BY id\<close>\<close>

definition expiring_tasks :: "('o, 'x) control_env \<Rightarrow> go_time \<Rightarrow> 'o Store \<Rightarrow> Task list" where
  "expiring_tasks E at s = order_by (\<lambda>a b. ce_text_le E (tk_ID a) (tk_ID b))
     (filter (\<lambda>t. tk_State t \<noteq> TaskArchived \<and> (case tk_ExpiresAt t of None \<Rightarrow> False | Some e \<Rightarrow> e \<le> dbTime at)) (st_tasks s))"

fun expire_tasks :: "('o, 'x) control_env \<Rightarrow> call \<Rightarrow> go_time \<Rightarrow> Task list \<Rightarrow> 'o Store \<Rightarrow> go_error + 'o Store" where
  "expire_tasks E c at [] s = Inr s"
| "expire_tasks E c at (t # ts) s =
     (case archiveTaskTx E c (tk_ID t) TerminalExpired ''system'' at s of
        Inl err \<Rightarrow> Inl (opErr ''recover store'' ErrConflict err) | Inr s' \<Rightarrow> expire_tasks E c at ts s')"

definition recover_callbacks ::
  "('o, 'x) control_env \<Rightarrow> call \<Rightarrow> go_time \<Rightarrow> 'o Store \<Rightarrow> go_error + nat \<times> 'o Store" where
  "recover_callbacks E c at s =
     (let hit = (\<lambda>r. cb_Status r = CallbackProcessing); n = length (filter hit (st_callbacks s));
          s1 = s\<lparr>st_callbacks := update_rows hit (\<lambda>r. r\<lparr>cb_Status := CallbackRetryable, cb_LastError := ''gateway_restart'', cb_CompletedAt := None\<rparr>) (st_callbacks s)\<rparr> in
      if n = 0 then Inr (n, s1)
      else case appendAuditTx E c (audit_event [] [] ''system'' ''CALLBACKS_RECOVERED'' [(''retryable_count'', FormatInt (int n))] at) s1 of
          Inl err \<Rightarrow> Inl (opErr ''recover store'' ErrConflict err) | Inr (e, s2) \<Rightarrow> Inr (n, s2))"

definition recover_tx ::
  "('o, 'x) control_env \<Rightarrow> call \<Rightarrow> go_time \<Rightarrow> TerminalReceiptBuilder option \<Rightarrow> 'o Store \<Rightarrow> go_error + RecoveryReport \<times> 'o Store" where
  "recover_tx E c at builder s =
     (case recover_queries E c at builder (interrupted_queries E s) s of Inl err \<Rightarrow> Inl err | Inr s1 \<Rightarrow>
      (case expire_tasks E c at (expiring_tasks E at s1) s1 of Inl err \<Rightarrow> Inl err | Inr s2 \<Rightarrow>
       (case recover_callbacks E c at s2 of Inl err \<Rightarrow> Inl err | Inr (n, s3) \<Rightarrow>
         Inr (\<lparr>rp_InterruptedQueries = length (interrupted_queries E s), rp_ExpiredTasks = length (expiring_tasks E at s1),
               rp_RetryableCallbacks = n\<rparr>, s3))))"

definition recover ::
  "('o, 'x) control_env \<Rightarrow> call \<Rightarrow> TerminalReceiptBuilder option \<Rightarrow> 'o Store \<Rightarrow> (go_error + RecoveryReport) \<times> 'o Store" where
  "recover E c builder s =
     (case checkOpen ''recover store'' s of Some err \<Rightarrow> (Inl err, s) | None \<Rightarrow>
      (case recover_tx E c (now c 0) builder s of Inl err \<Rightarrow> (Inl err, s) | Inr (report, s') \<Rightarrow> (Inr report, s')))"

definition Recover :: "('o, 'x) control_env \<Rightarrow> call \<Rightarrow> 'o Store \<Rightarrow> (go_error + RecoveryReport) \<times> 'o Store" where
  "Recover E c s = recover E c None s"

text \<open>
  A new handle on the tables, with the recovery that \<open>New\<close> runs unless its options turn it
  off; the store of a handle that could not be made stays as it was. \<open>Close\<close> closes the
  handle and leaves the tables.
\<close>

definition New_store ::
  "('o, 'x) control_env \<Rightarrow> call \<Rightarrow> bool \<Rightarrow> TerminalReceiptBuilder option \<Rightarrow> 'o Store \<Rightarrow> (go_error + unit) \<times> 'o Store" where
  "New_store E c recover_option builder s =
     (if recover_option
      then (case recover E c builder (s\<lparr>st_closed := False\<rparr>) of (Inl err, s') \<Rightarrow> (Inl err, s) | (Inr report, s') \<Rightarrow> (Inr (), s'))
      else (Inr (), s\<lparr>st_closed := False\<rparr>))"

definition Close :: "'o Store \<Rightarrow> 'o Store" where
  "Close s = s\<lparr>st_closed := True\<rparr>"

end
