(* ===== verification/Control_Entities.thy ===== *)
theory Control_Entities
  imports Control_Receipt
begin

text \<open>
  Principals, tasks, grants, approval events (\<open>entities.go\<close>) and the binding of a task to the
  semantics of its views (\<open>view_binding.go\<close>). A task moves forward through its states and is
  never taken out of the archive; a grant is written once, together with its budget row, its view
  binding and the exposure ledger of its family.

  The foreign keys that these inserts rely on are checked here; a violated one is an error of the
  database.
\<close>

section \<open>Principals\<close>

definition scanPrincipal :: "go_string \<Rightarrow> Principal option \<Rightarrow> go_error + Principal" where
  "scanPrincipal op row = (case row of None \<Rightarrow> Inl (opErr op ErrNotFound ErrNoRows) | Some p \<Rightarrow>
     Inr (p\<lparr>pr_CreatedAt := dbTime (pr_CreatedAt p), pr_DisabledAt := scanNullableTime (pr_DisabledAt p)\<rparr>))"

definition CreatePrincipal :: "('o, 'x) control_env \<Rightarrow> call \<Rightarrow> Principal \<Rightarrow> 'o Store \<Rightarrow> go_error option \<times> 'o Store" where
  "CreatePrincipal E c p s =
     (case checkOpen ''create principal'' s of Some err \<Rightarrow> (Some err, s) | None \<Rightarrow>
      if blank (pr_ID p) \<or> blank (pr_Subject p) \<or> blank (pr_Role p)
      then (Some (opErr ''create principal'' ErrInvalid (Message ''id, subject, and role are required'')), s)
      else
       (let created = (if IsZero (pr_CreatedAt p) then now c 0 else pr_CreatedAt p);
            row = p\<lparr>pr_CreatedAt := dbTime created, pr_DisabledAt := nullableTime (pr_DisabledAt p)\<rparr> in
        (case (if pr_Subject p \<in> pr_Subject ` set (st_principals s) then Inl DatabaseError else insert_row pr_ID row (st_principals s)) of
           Inl err \<Rightarrow> (Some (opErr ''create principal'' ErrConflict err), s)
         | Inr rows \<Rightarrow>
            (case appendAuditTx E c (audit_event [] [] (pr_Subject p) ''PRINCIPAL_CREATED''
                     [(''principal_id'', json_string (pr_ID p)), (''role'', json_string (pr_Role p))] created)
                   (s\<lparr>st_principals := rows\<rparr>) of
               Inl err \<Rightarrow> (Some (opErr ''create principal'' ErrConflict err), s)
             | Inr (e, s') \<Rightarrow> (None, s')))))"

definition GetPrincipal :: "go_string \<Rightarrow> 'o Store \<Rightarrow> go_error + Principal" where
  "GetPrincipal i s = (case checkOpen ''get principal'' s of Some err \<Rightarrow> Inl err | None \<Rightarrow>
     scanPrincipal ''get principal'' (select_row pr_ID i (st_principals s)))"

definition GetPrincipalBySubject :: "go_string \<Rightarrow> 'o Store \<Rightarrow> go_error + Principal" where
  "GetPrincipalBySubject subject s = (case checkOpen ''get principal by subject'' s of Some err \<Rightarrow> Inl err | None \<Rightarrow>
     scanPrincipal ''get principal by subject'' (select_row pr_Subject subject (st_principals s)))"

definition DisablePrincipal :: "call \<Rightarrow> go_string \<Rightarrow> go_time \<Rightarrow> 'o Store \<Rightarrow> (go_error + Principal) \<times> 'o Store" where
  "DisablePrincipal c principalID disabledAt s =
     (case checkOpen ''disable principal'' s of Some err \<Rightarrow> (Inl err, s) | None \<Rightarrow>
      if blank principalID then (Inl (opErr ''disable principal'' ErrInvalid (Message ''principal id is required'')), s)
      else
       (let at = (if IsZero disabledAt then now c 0 else disabledAt);
            rows = update_rows (\<lambda>p. pr_ID p = principalID)
              (\<lambda>p. p\<lparr>pr_DisabledAt := (case pr_DisabledAt p of None \<Rightarrow> Some (dbTime at) | Some t \<Rightarrow> Some t)\<rparr>) (st_principals s) in
        (scanPrincipal ''disable principal'' (select_row pr_ID principalID rows), s\<lparr>st_principals := rows\<rparr>)))"

section \<open>Tasks\<close>

definition validTaskState :: "go_string \<Rightarrow> bool" where
  "validTaskState state \<longleftrightarrow> state \<in> {TaskAwaitingSubmission, TaskAwaitingApproval, TaskActive, TaskArchived}"

definition allowedTransition :: "go_string \<Rightarrow> go_string \<Rightarrow> go_string \<Rightarrow> bool" where
  "allowedTransition origin target reason \<longleftrightarrow>
     (if target = TaskArchived
      then reason \<in> {TerminalCompleted, TerminalBudgetExhausted, TerminalRejected, TerminalExpired, TerminalRevoked, TerminalFailed}
      else reason = []) \<and>
     (if origin = TaskAwaitingSubmission then target = TaskAwaitingApproval \<or> target = TaskArchived
      else if origin = TaskAwaitingApproval then target = TaskActive \<or> target = TaskArchived
      else if origin = TaskActive then target = TaskArchived
      else False)"

definition scanned_task :: "Task \<Rightarrow> Task" where
  "scanned_task t = t\<lparr>tk_CreatedAt := dbTime (tk_CreatedAt t), tk_UpdatedAt := dbTime (tk_UpdatedAt t),
     tk_ExpiresAt := scanNullableTime (tk_ExpiresAt t)\<rparr>"

definition scanTask :: "go_string \<Rightarrow> Task option \<Rightarrow> go_error + Task" where
  "scanTask op row = (case row of None \<Rightarrow> Inl (opErr op ErrNotFound ErrNoRows) | Some t \<Rightarrow> Inr (scanned_task t))"

text \<open>The root of the family: the task itself, or that of an active parent with the same catalog.\<close>

definition task_root :: "Task \<Rightarrow> 'o Store \<Rightarrow> go_error + go_string" where
  "task_root t s =
     (if tk_ParentTaskID t \<noteq> [] then
        (case select_row tk_ID (tk_ParentTaskID t) (st_tasks s) of
           None \<Rightarrow> Inl (opErr ''create task'' ErrNotFound (Wrapped ''parent task'' ErrNoRows))
         | Some parent \<Rightarrow>
            (case select_row pr_ID (tk_PrincipalID t) (st_principals s) of
               None \<Rightarrow> Inl (opErr ''create task'' ErrNotFound (Wrapped ''delegated principal'' ErrNoRows))
             | Some delegate \<Rightarrow>
                if tk_State parent \<noteq> TaskActive \<or> tk_CatalogVersion parent \<noteq> tk_CatalogVersion t \<or> pr_DisabledAt delegate \<noteq> None
                then Inl (opErr ''create task'' ErrInvalid (Message ''delegation requires an active parent, the same catalog, and an enabled principal''))
                else Inr (tk_RootTaskID parent)))
      else if tk_RootTaskID t \<noteq> [] \<and> tk_RootTaskID t \<noteq> tk_ID t
      then Inl (opErr ''create task'' ErrInvalid (Message ''a root task must identify itself as root''))
      else Inr (tk_ID t))"

definition insert_task :: "Task \<Rightarrow> 'o Store \<Rightarrow> go_error + Task list" where
  "insert_task t s = (if tk_PrincipalID t \<notin> pr_ID ` set (st_principals s) then Inl DatabaseError else insert_row tk_ID t (st_tasks s))"

definition task_created_event :: "Task \<Rightarrow> Event" where
  "task_created_event t = audit_event (tk_ID t) [] (tk_PrincipalID t) ''TASK_CREATED''
     [(''catalog_version'', json_string (tk_CatalogVersion t)), (''parent_task_id'', json_string (tk_ParentTaskID t)),
      (''root_task_id'', json_string (tk_RootTaskID t)), (''state'', json_string (tk_State t))] (tk_CreatedAt t)"

definition CreateTask :: "('o, 'x) control_env \<Rightarrow> call \<Rightarrow> Task \<Rightarrow> 'o Store \<Rightarrow> go_error option \<times> 'o Store" where
  "CreateTask E c task s =
     (case checkOpen ''create task'' s of Some err \<Rightarrow> (Some err, s) | None \<Rightarrow>
      if blank (tk_ID task) \<or> blank (tk_PrincipalID task) \<or> blank (tk_Objective task) \<or> blank (tk_CatalogVersion task)
      then (Some (opErr ''create task'' ErrInvalid (Message ''id, principal, objective, and catalog version are required'')), s)
      else
       (let task = (if tk_State task = [] then task\<lparr>tk_State := TaskAwaitingSubmission\<rparr> else task) in
        if \<not> validTaskState (tk_State task) \<or> (tk_State task \<noteq> TaskArchived \<and> tk_TerminalReason task \<noteq> []) \<or>
           (tk_State task = TaskArchived \<and> tk_TerminalReason task = [])
        then (Some (opErr ''create task'' ErrInvalid (Message ''invalid state/terminal reason combination'')), s)
        else case normalizeJSON E (tk_RequestContext task) ''{}'' of
            None \<Rightarrow> (Some (opErr ''create task'' ErrInvalid (Message ''request context'')), s)
          | Some requestContext \<Rightarrow>
       (let task = (if IsZero (tk_CreatedAt task) then task\<lparr>tk_CreatedAt := now c 0\<rparr> else task);
            task = (if IsZero (tk_UpdatedAt task) then task\<lparr>tk_UpdatedAt := tk_CreatedAt task\<rparr> else task) in
        (case task_root task s of Inl err \<Rightarrow> (Some err, s) | Inr root \<Rightarrow>
         if tk_RootTaskID task \<noteq> [] \<and> tk_RootTaskID task \<noteq> root
         then (Some (opErr ''create task'' ErrInvalid (Message ''root task does not match parent family'')), s)
         else
          (let task = task\<lparr>tk_RootTaskID := root\<rparr> in
           (case ce_jsonb E requestContext of None \<Rightarrow> (Some (opErr ''create task'' ErrConflict DatabaseError), s) | Some stored \<Rightarrow>
            (case insert_task (task\<lparr>tk_RequestContext := stored, tk_CreatedAt := dbTime (tk_CreatedAt task),
                     tk_UpdatedAt := dbTime (tk_UpdatedAt task), tk_ExpiresAt := nullableTime (tk_ExpiresAt task)\<rparr>) s of
               Inl err \<Rightarrow> (Some (opErr ''create task'' ErrConflict err), s)
             | Inr rows \<Rightarrow>
                (case appendAuditTx E c (task_created_event task) (s\<lparr>st_tasks := rows\<rparr>) of
                   Inl err \<Rightarrow> (Some (opErr ''create task'' ErrConflict err), s)
                 | Inr (e, s') \<Rightarrow> (None, s')))))))))"

definition GetTask :: "go_string \<Rightarrow> 'o Store \<Rightarrow> go_error + Task" where
  "GetTask i s = (case checkOpen ''get task'' s of Some err \<Rightarrow> Inl err | None \<Rightarrow>
     scanTask ''get task'' (select_row tk_ID i (st_tasks s)))"

record TaskFilter =
  tf_PrincipalID :: go_string
  tf_State :: go_string
  tf_Limit :: int64
  tf_AfterID :: go_string

text \<open>\<open>id > $6\<close> is the strict part of the collation order.\<close>

definition ListTasks :: "('o, 'x) control_env \<Rightarrow> TaskFilter \<Rightarrow> 'o Store \<Rightarrow> go_error + Task list" where
  "ListTasks E q s =
     (case checkOpen ''list tasks'' s of Some err \<Rightarrow> Inl err | None \<Rightarrow>
       Inr (map scanned_task (take (page_limit (tf_Limit q))
         (order_by (\<lambda>a b. ce_text_le E (tk_ID a) (tk_ID b)) (filter (\<lambda>t.
            (tf_PrincipalID q = [] \<or> tk_PrincipalID t = tf_PrincipalID q) \<and> (tf_State q = [] \<or> tk_State t = tf_State q) \<and>
            (tf_AfterID q = [] \<or> \<not> ce_text_le E (tk_ID t) (tf_AfterID q))) (st_tasks s))))))"

record TaskTransition =
  tt_TaskID :: go_string
  tt_ExpectedFrom :: go_string
  tt_To :: go_string
  tt_Reason :: go_string
  tt_Actor :: go_string
  tt_EventID :: go_string
  tt_Payload :: go_string
  tt_ExpiresAt :: "go_time option"

definition transition_event :: "TaskTransition \<Rightarrow> go_string \<Rightarrow> go_string \<Rightarrow> go_time \<Rightarrow> Event" where
  "transition_event change current payload at =
     (audit_event (tt_TaskID change) [] (tt_Actor change) ''TASK_STATE_CHANGED''
       [(''detail'', payload), (''from'', json_string current), (''terminal_reason'', json_string (tt_Reason change)),
        (''to'', json_string (tt_To change))] at)\<lparr>ev_EventID := tt_EventID change\<rparr>"

definition TransitionTask ::
  "('o, 'x) control_env \<Rightarrow> call \<Rightarrow> TaskTransition \<Rightarrow> 'o Store \<Rightarrow> (go_error + Task) \<times> 'o Store" where
  "TransitionTask E c change s =
     (case checkOpen ''transition task'' s of Some err \<Rightarrow> (Inl err, s) | None \<Rightarrow>
      if tt_TaskID change = [] \<or> tt_Actor change = [] \<or> \<not> validTaskState (tt_To change)
      then (Inl (opErr ''transition task'' ErrInvalid (Message ''task, actor, and target state are required'')), s)
      else case normalizeJSON E (tt_Payload change) ''{}'' of
          None \<Rightarrow> (Inl (opErr ''transition task'' ErrInvalid (Message ''invalid JSON'')), s)
        | Some payload \<Rightarrow>
      (case scanTask ''transition task'' (select_row tk_ID (tt_TaskID change) (st_tasks s)) of Inl err \<Rightarrow> (Inl err, s) | Inr current \<Rightarrow>
       if tt_ExpectedFrom change \<noteq> [] \<and> tk_State current \<noteq> tt_ExpectedFrom change
       then (Inl (opErr ''transition task'' ErrConflict (Message (''expected '' @ tt_ExpectedFrom change @ '', found '' @ tk_State current))), s)
       else if \<not> allowedTransition (tk_State current) (tt_To change) (tt_Reason change)
       then (Inl (opErr ''transition task'' ErrInvalidStateChange
              (Message (tk_State current @ '' -> '' @ tt_To change @ '' ('' @ tt_Reason change @ '')''))), s)
       else
        (let at = now c 0; expires = (case tt_ExpiresAt change of None \<Rightarrow> tk_ExpiresAt current | Some e \<Rightarrow> Some e) in
         (case appendAuditTx E c (transition_event change (tk_State current) payload at)
                (s\<lparr>st_tasks := update_rows (\<lambda>t. tk_ID t = tt_TaskID change)
                   (\<lambda>t. t\<lparr>tk_State := tt_To change, tk_TerminalReason := tt_Reason change, tk_UpdatedAt := dbTime at,
                          tk_ExpiresAt := nullableTime expires\<rparr>) (st_tasks s)\<rparr>) of
            Inl err \<Rightarrow> (Inl (opErr ''transition task'' ErrConflict err), s)
          | Inr (e, s') \<Rightarrow>
              (Inr (current\<lparr>tk_State := tt_To change, tk_TerminalReason := tt_Reason change, tk_UpdatedAt := at, tk_ExpiresAt := expires\<rparr>), s')))))"

section \<open>View bindings\<close>

definition view_error_text :: "view_error \<Rightarrow> go_string" where
  "view_error_text e = (case e of
       NoProduct \<Rightarrow> ''View binding requires at least one product''
     | InvalidContract \<Rightarrow> ''View binding contains an invalid product contract''
     | DuplicateProduct \<Rightarrow> ''View binding contains a duplicate product''
     | UnsupportedVersion \<Rightarrow> ''unsupported View binding version'')"

definition canonical_text :: "go_string \<Rightarrow> bool" where
  "canonical_text v \<longleftrightarrow> v \<noteq> [] \<and> TrimSpace v = v \<and> CHR 0x00 \<notin> set v"

fun check_approved :: "go_string set \<Rightarrow> go_string list \<Rightarrow> go_error option" where
  "check_approved seen [] = None"
| "check_approved seen (p # ps) =
     (if \<not> canonical_text p then Some (Message ''approved product must be a non-empty canonical string'')
      else if p \<in> seen then Some (Message (''duplicate approved product '' @ [quote] @ p @ [quote]))
      else check_approved (insert p seen) ps)"

text \<open>The loop over the dependencies; \<open>previous\<close> is the key before, empty at the start.\<close>

fun check_dependencies :: "go_string list \<Rightarrow> go_string \<Rightarrow> TaskViewDependency list \<Rightarrow> go_error option" where
  "check_dependencies bound previous [] = None"
| "check_dependencies bound previous (d # ds) =
     (if \<not> canonical_text (vd_Product d) \<or> \<not> canonical_text (vd_DependencyKey d)
      then Some (Message ''view dependency product and key must be non-empty canonical strings'')
      else if vd_Product d \<notin> set bound then Some (Message (''view dependency product '' @ [quote] @ vd_Product d @ [quote] @ '' is not bound''))
      else let key = vd_Product d @ [CHR 0x00] @ vd_DependencyKey d in
        if previous \<noteq> [] \<and> key \<le> previous then Some (Message ''view dependencies must be strictly sorted and unique'')
        else check_dependencies bound key ds)"

text \<open>Two messages leave out the product, which the code takes from a map in no fixed order.\<close>

definition check_binding_products :: "TaskGrant \<Rightarrow> ViewBindingSet \<Rightarrow> go_string list \<Rightarrow> go_error option" where
  "check_binding_products g binding bound =
     (case check_approved {} (tg_ApprovedProducts g) of Some err \<Rightarrow> Some err | None \<Rightarrow>
      if \<not> set (tg_ApprovedProducts g) \<subseteq> set bound then Some (Message ''approved product is absent from the view binding'')
      else if vs_Dependencies binding = [] then Some (Message ''at least one canonical view dependency is required'')
      else case check_dependencies bound [] (vs_Dependencies binding) of Some err \<Rightarrow> Some err | None \<Rightarrow>
        if \<not> set bound \<subseteq> vd_Product ` set (vs_Dependencies binding)
        then Some (Message ''view dependency evidence is incomplete'') else None)"

definition validateGrantViewBinding :: "('o, 'x) control_env \<Rightarrow> TaskGrant \<Rightarrow> go_error option" where
  "validateGrantViewBinding E g =
     (if tg_ViewBindingDigest g = [] then
        (if tg_ViewBindingSet g \<noteq> None then Some (Message ''view binding evidence requires a digest'') else None)
      else if \<not> validSHA256Hex (tg_ViewBindingDigest g) then Some (Message ''view binding digest must be lowercase SHA-256'')
      else case tg_ViewBindingSet g of None \<Rightarrow> Some (Message ''view binding set is required for a bound grant'') | Some binding \<Rightarrow>
        if vs_Digest binding \<noteq> tg_ViewBindingDigest g \<or> \<not> validSHA256Hex (vs_Digest binding) \<or>
           vs_ProfileVersion binding \<noteq> View_Version \<or> vs_CanonicalJSON binding = []
        then Some (Message ''view binding set is invalid or disagrees with the grant'')
        else if \<not> IsZero (vs_CreatedAt binding) \<and> \<not> IsZero (tg_CreatedAt g) \<and> dbTime (vs_CreatedAt binding) \<noteq> dbTime (tg_CreatedAt g)
        then Some (Message ''view binding evidence time disagrees with the grant'')
        else case ce_decode_set E (vs_CanonicalJSON binding) of
            Inl err \<Rightarrow> Some (Wrapped ''decode canonical view binding set'' err)
          | Inr decoded \<Rightarrow>
             if vw_Version decoded \<noteq> View_Version \<or> vw_Version decoded \<noteq> vs_ProfileVersion binding
             then Some (Message ''view binding profile version is unsupported or inconsistent'')
             else case View_New (vw_Products decoded) of
                 Inl err \<Rightarrow> Some (Wrapped ''validate canonical view binding set'' (Message (view_error_text err)))
               | Inr canonicalSet \<Rightarrow>
                  if vs_CanonicalJSON binding \<noteq> view_set_json canonicalSet
                  then Some (Message ''view binding set is not in canonical encoding'')
                  else case View_Digest (env_sha256 (ce_exposure E)) canonicalSet of
                      Inl err \<Rightarrow> Some (Wrapped ''digest canonical view binding set'' (Message (view_error_text err)))
                    | Inr computedDigest \<Rightarrow>
                       if computedDigest \<noteq> vs_Digest binding
                       then Some (Message ''canonical view binding set does not match its digest'')
                       else check_binding_products g binding (map pc_Product (vw_Products canonicalSet)))"

fun insert_dependencies ::
  "go_string \<Rightarrow> go_string \<Rightarrow> TaskViewDependency list \<Rightarrow> (go_string \<times> go_string \<times> go_string \<times> go_string) list \<Rightarrow>
     go_error + (go_string \<times> go_string \<times> go_string \<times> go_string) list" where
  "insert_dependencies taskID digest [] rows = Inr rows"
| "insert_dependencies taskID digest (d # ds) rows =
     (case insert_row (\<lambda>(t, b, p, k). (t, p, k)) (taskID, digest, vd_Product d, vd_DependencyKey d) rows of
        Inl err \<Rightarrow> Inl err | Inr rows' \<Rightarrow> insert_dependencies taskID digest ds rows')"

definition insert_binding_set :: "ViewBindingSet \<Rightarrow> go_time \<Rightarrow> ViewBindingSet list \<Rightarrow> go_error + ViewBindingSet list" where
  "insert_binding_set binding createdAt rows =
     (case select_row vs_Digest (vs_Digest binding) rows of
        None \<Rightarrow> Inr (rows @ [binding\<lparr>vs_Dependencies := [], vs_CreatedAt := createdAt\<rparr>])
      | Some stored \<Rightarrow>
          if vs_ProfileVersion stored \<noteq> vs_ProfileVersion binding \<or> vs_CanonicalJSON stored \<noteq> vs_CanonicalJSON binding
          then Inl (Message (''view binding digest collision for '' @ vs_Digest binding)) else Inr rows)"

definition insertTaskViewBindingTx :: "go_string \<Rightarrow> ViewBindingSet \<Rightarrow> go_time \<Rightarrow> 'o Store \<Rightarrow> go_error + 'o Store" where
  "insertTaskViewBindingTx taskID binding createdAt s =
     (case insert_binding_set binding createdAt (st_view_sets s) of Inl err \<Rightarrow> Inl err | Inr sets \<Rightarrow>
      (case insert_dependencies taskID (vs_Digest binding) (vs_Dependencies binding) (st_view_dependencies s) of Inl err \<Rightarrow> Inl err | Inr deps \<Rightarrow>
       (case insert_row vb_TaskID \<lparr>vb_TaskID = taskID, vb_Status = TaskViewBindingActive, vb_BoundDigest = vs_Digest binding,
               vb_ObservedDigest = [], vb_DetectedAt = None\<rparr> (st_view_status s) of
          Inl err \<Rightarrow> Inl err
        | Inr status \<Rightarrow> Inr (s\<lparr>st_view_sets := sets, st_view_dependencies := deps, st_view_status := status\<rparr>))))"

definition scanTaskViewBindingStatus :: "TaskViewBindingStatus \<Rightarrow> TaskViewBindingStatus" where
  "scanTaskViewBindingStatus v = v\<lparr>vb_DetectedAt := scanNullableTime (vb_DetectedAt v)\<rparr>"

definition GetTaskViewBindingStatus :: "go_string \<Rightarrow> 'o Store \<Rightarrow> go_error + TaskViewBindingStatus" where
  "GetTaskViewBindingStatus taskID s =
     (case checkOpen ''get task view binding status'' s of Some err \<Rightarrow> Inl err | None \<Rightarrow>
      if blank taskID then Inl (opErr ''get task view binding status'' ErrInvalid (Message ''task id is required''))
      else case select_row vb_TaskID taskID (st_view_status s) of
          None \<Rightarrow> Inl (opErr ''get task view binding status'' ErrNotFound ErrNoRows)
        | Some v \<Rightarrow> Inr (scanTaskViewBindingStatus v))"

definition MarkTaskViewSemanticChanged ::
  "('o, 'x) control_env \<Rightarrow> call \<Rightarrow> go_string \<Rightarrow> go_string \<Rightarrow> 'o Store \<Rightarrow> (go_error + TaskViewBindingStatus) \<times> 'o Store" where
  "MarkTaskViewSemanticChanged E c taskID observedDigest s =
     (let op = ''mark task view semantic changed'' in
      (case checkOpen op s of Some err \<Rightarrow> (Inl err, s) | None \<Rightarrow>
       if blank taskID \<or> \<not> validSHA256Hex observedDigest
       then (Inl (opErr op ErrInvalid (Message ''task id and observed view binding digest are required'')), s)
       else if select_row tk_ID taskID (st_tasks s) = None then (Inl (opErr op ErrNotFound ErrNoRows), s)
       else case select_row vb_TaskID taskID (st_view_status s) of
           None \<Rightarrow> (Inl (opErr op ErrNotFound ErrNoRows), s)
         | Some row \<Rightarrow>
            (let status = scanTaskViewBindingStatus row; at = now c 0;
                 hit = (\<lambda>v. vb_TaskID v = taskID \<and> vb_Status v = TaskViewBindingActive) in
             if vb_Status status = TaskViewBindingRequireRebind \<or> observedDigest = vb_BoundDigest status then (Inr status, s)
             else if \<not> list_ex hit (st_view_status s)
             then (Inl (opErr op ErrConflict (Message ''view binding status changed concurrently'')), s)
             else case appendAuditTx E c (audit_event taskID [] ''system'' ''TASK_VIEW_SEMANTIC_CHANGED''
                     [(''bound_digest'', json_string (vb_BoundDigest status)), (''observed_digest'', json_string observedDigest),
                      (''status'', json_string TaskViewBindingRequireRebind)] at)
                   (s\<lparr>st_view_status := update_rows hit (\<lambda>v. v\<lparr>vb_Status := TaskViewBindingRequireRebind,
                      vb_ObservedDigest := observedDigest, vb_DetectedAt := Some (dbTime at)\<rparr>) (st_view_status s)\<rparr>) of
                 Inl err \<Rightarrow> (Inl (opErr op ErrConflict err), s)
               | Inr (e, s') \<Rightarrow> (Inr (status\<lparr>vb_Status := TaskViewBindingRequireRebind, vb_ObservedDigest := observedDigest,
                    vb_DetectedAt := Some at\<rparr>), s'))))"

section \<open>Grants and approvals\<close>

definition budget_json :: "BudgetLimits \<Rightarrow> go_string" where
  "budget_json b = json_object [(''queries'', FormatInt (lim_Queries b)), (''rows'', FormatInt (lim_Rows b)), (''db_ms'', FormatInt (lim_DBMS b))]"

definition footprint_json :: "PredicateFootprintLimitsV1 \<Rightarrow> go_string" where
  "footprint_json l = json_object [(''version'', json_string (pf_Version l)),
     (''max_raw_literals_per_query'', FormatInt (pf_MaxRawLiteralsPerQuery l)),
     (''max_unique_atoms_per_query'', FormatInt (pf_MaxUniqueAtomsPerQuery l)),
     (''max_atom_payload_bytes'', FormatInt (pf_MaxAtomPayloadBytes l)),
     (''max_total_atom_payload_bytes'', FormatInt (pf_MaxTotalAtomPayloadBytes l))]"

definition exposure_grant_json :: "ExposureGrant \<Rightarrow> go_string" where
  "exposure_grant_json g = json_object ([(''limits'', json_object [
       (''release_facts'', FormatInt (xl_ReleaseFacts (xg_Limits g))),
       (''influence_facts'', FormatInt (xl_InfluenceFacts (xg_Limits g))),
       (''outcome_facts'', FormatInt (xl_OutcomeFacts (xg_Limits g)))]),
     (''profile_version'', json_string (xg_ProfileVersion g))] @
     (case xg_PredicateFootprint g of None \<Rightarrow> [] | Some l \<Rightarrow> [(''predicate_footprint'', footprint_json l)]))"

definition grant_created_event :: "TaskGrant \<Rightarrow> Event" where
  "grant_created_event g = audit_event (tg_TaskID g) [] (tg_Subject g) ''TASK_GRANT_CREATED''
     [(''budget'', budget_json (tg_Budget g)), (''catalog_digest'', json_string (tg_CatalogDigest g)),
      (''catalog_version'', json_string (tg_CatalogVersion g)), (''datasource_id'', json_string (tg_DatasourceID g)),
      (''expires_at'', json_string (formatTime (tg_ExpiresAt g))), (''exposure'', exposure_grant_json (tg_Exposure g)),
      (''schema_digest'', json_string (tg_SchemaDigest g)), (''view_binding_digest'', json_string (tg_ViewBindingDigest g))]
     (tg_CreatedAt g)"

text \<open>The row of \<open>task_grants\<close>: the binding set has tables of its own.\<close>

definition grant_row :: "TaskGrant \<Rightarrow> go_string \<Rightarrow> TaskGrant" where
  "grant_row g scope = g\<lparr>tg_MandatoryScope := scope, tg_ExpiresAt := dbTime (tg_ExpiresAt g), tg_CreatedAt := dbTime (tg_CreatedAt g),
     tg_ViewBindingSet := None\<rparr>"

definition budget_of_grant :: "TaskGrant \<Rightarrow> BudgetSnapshot" where
  "budget_of_grant g = \<lparr>bud_TaskID = tg_TaskID g, bud_Limits = tg_Budget g,
     bud_Usage = \<lparr>use_UsedQueries = 0, use_UsedRows = 0, use_UsedDBMS = 0, use_ReservedQueries = 0, use_ReservedRows = 0, use_ReservedDBMS = 0\<rparr>,
     bud_UpdatedAt = dbTime (tg_CreatedAt g)\<rparr>"

definition insertGrantAndBudget :: "('o, 'x) control_env \<Rightarrow> TaskGrant \<Rightarrow> go_string \<Rightarrow> 'o Store \<Rightarrow> go_error + 'o Store" where
  "insertGrantAndBudget E g scope s =
     (case insert_row tg_TaskID (grant_row g scope) (st_grants s) of Inl err \<Rightarrow> Inl err | Inr grants \<Rightarrow>
      (case (case tg_ViewBindingSet g of None \<Rightarrow> Inr (s\<lparr>st_grants := grants\<rparr>)
             | Some binding \<Rightarrow> insertTaskViewBindingTx (tg_TaskID g) binding (dbTime (tg_CreatedAt g)) (s\<lparr>st_grants := grants\<rparr>)) of
         Inl err \<Rightarrow> Inl err
       | Inr s1 \<Rightarrow>
          (case insert_row bud_TaskID (budget_of_grant g) (st_budgets s1) of Inl err \<Rightarrow> Inl err | Inr budgets \<Rightarrow>
            ensureExposureLedgerTx E (tg_TaskID g) (tg_Exposure g) (tg_CreatedAt g) (s1\<lparr>st_budgets := budgets\<rparr>))))"

definition grant_field_empty :: "TaskGrant \<Rightarrow> bool" where
  "grant_field_empty g \<longleftrightarrow> tg_TaskID g = [] \<or> tg_Subject g = [] \<or> tg_Purpose g = [] \<or> tg_CatalogVersion g = [] \<or>
     \<not> validSHA256Hex (tg_CatalogDigest g) \<or> tg_DatasourceID g = [] \<or> \<not> validSHA256Hex (tg_SchemaDigest g) \<or>
     tg_ApprovalReceipt g = [] \<or> IsZero (tg_ExpiresAt g)"

definition PutGrant :: "('o, 'x) control_env \<Rightarrow> call \<Rightarrow> TaskGrant \<Rightarrow> 'o Store \<Rightarrow> go_error option \<times> 'o Store" where
  "PutGrant E c g s =
     (case checkOpen ''put task grant'' s of Some err \<Rightarrow> (Some err, s) | None \<Rightarrow>
      if grant_field_empty g then (Some (opErr ''put task grant'' ErrInvalid (Message ''required grant field is empty'')), s)
      else case validateGrantViewBinding E g of Some err \<Rightarrow> (Some (opErr ''put task grant'' ErrInvalid err), s) | None \<Rightarrow>
      if lim_Queries (tg_Budget g) \<le> 0 \<or> lim_Rows (tg_Budget g) \<le> 0 \<or> lim_DBMS (tg_Budget g) \<le> 0
      then (Some (opErr ''put task grant'' ErrInvalid (Message ''all budget limits must be positive'')), s)
      else case validateExposureGrant (tg_Exposure g) of Some err \<Rightarrow> (Some (opErr ''put task grant'' ErrInvalid err), s) | None \<Rightarrow>
      (case normalizeJSON E (tg_MandatoryScope g) ''{}'' of
         None \<Rightarrow> (Some (opErr ''put task grant'' ErrInvalid (Message ''invalid JSON'')), s)
       | Some scope \<Rightarrow>
      (let g = (if IsZero (tg_CreatedAt g) then g\<lparr>tg_CreatedAt := now c 0\<rparr> else g) in
       (case select_row tk_ID (tg_TaskID g) (st_tasks s) of
          None \<Rightarrow> (Some (opErr ''put task grant'' ErrNotFound ErrNoRows), s)
        | Some task \<Rightarrow>
           if tk_State task \<noteq> TaskAwaitingApproval \<and> tk_State task \<noteq> TaskActive
           then (Some (opErr ''put task grant'' ErrInvalidStateChange (Message (''cannot grant task in state '' @ tk_State task))), s)
           else case (case ce_jsonb E scope of None \<Rightarrow> Inl DatabaseError | Some stored \<Rightarrow> insertGrantAndBudget E g stored s) of
               Inl err \<Rightarrow> (Some (opErr ''put task grant'' ErrConflict err), s)
             | Inr s1 \<Rightarrow>
                (case appendAuditTx E c (grant_created_event g) s1 of
                   Inl err \<Rightarrow> (Some (opErr ''put task grant'' ErrConflict err), s)
                 | Inr (e, s2) \<Rightarrow> (None, s2))))))"

definition GetGrant :: "go_string \<Rightarrow> 'o Store \<Rightarrow> go_error + TaskGrant" where
  "GetGrant taskID s =
     (case checkOpen ''get task grant'' s of Some err \<Rightarrow> Inl err | None \<Rightarrow>
      (case select_row tg_TaskID taskID (st_grants s) of None \<Rightarrow> Inl (opErr ''get task grant'' ErrNotFound ErrNoRows) | Some g \<Rightarrow>
        Inr (g\<lparr>tg_ExpiresAt := dbTime (tg_ExpiresAt g), tg_CreatedAt := dbTime (tg_CreatedAt g)\<rparr>)))"

definition RecordApprovalEvent :: "('o, 'x) control_env \<Rightarrow> call \<Rightarrow> ApprovalEvent \<Rightarrow> 'o Store \<Rightarrow> go_error option \<times> 'o Store" where
  "RecordApprovalEvent E c a s =
     (case checkOpen ''record approval event'' s of Some err \<Rightarrow> (Some err, s) | None \<Rightarrow>
      if ap_EventID a = [] \<or> ap_TaskID a = [] \<or> ap_Actor a = [] \<or> ap_Decision a = []
      then (Some (opErr ''record approval event'' ErrInvalid (Message ''event, task, actor, and decision are required'')), s)
      else case normalizeJSON E (ap_Payload a) ''{}'' of
          None \<Rightarrow> (Some (opErr ''record approval event'' ErrInvalid (Message ''invalid JSON'')), s)
        | Some payload \<Rightarrow>
      (let created = (if IsZero (ap_CreatedAt a) then now c 0 else ap_CreatedAt a) in
       (case ce_jsonb E payload of None \<Rightarrow> (Some (opErr ''record approval event'' ErrConflict DatabaseError), s) | Some stored \<Rightarrow>
       (case (if ap_TaskID a \<notin> tk_ID ` set (st_tasks s) then Inl DatabaseError
              else insert_row ap_EventID (a\<lparr>ap_Payload := stored, ap_CreatedAt := dbTime created\<rparr>) (st_approvals s)) of
          Inl err \<Rightarrow> (Some (opErr ''record approval event'' ErrConflict err), s)
        | Inr rows \<Rightarrow>
           (case appendAuditTx E c (audit_event (ap_TaskID a) [] (ap_Actor a) ''APPROVAL_EVENT_RECORDED''
                    [(''decision'', json_string (ap_Decision a)), (''event_id'', json_string (ap_EventID a))] created)
                  (s\<lparr>st_approvals := rows\<rparr>) of
              Inl err \<Rightarrow> (Some (opErr ''record approval event'' ErrConflict err), s)
            | Inr (e, s') \<Rightarrow> (None, s'))))))"

definition ListApprovalEvents :: "('o, 'x) control_env \<Rightarrow> go_string \<Rightarrow> 'o Store \<Rightarrow> go_error + ApprovalEvent list" where
  "ListApprovalEvents E taskID s =
     (case checkOpen ''list approval events'' s of Some err \<Rightarrow> Inl err | None \<Rightarrow>
       Inr (map (\<lambda>a. a\<lparr>ap_CreatedAt := dbTime (ap_CreatedAt a)\<rparr>) (order_by
         (\<lambda>a b. ap_CreatedAt a < ap_CreatedAt b \<or> (ap_CreatedAt a = ap_CreatedAt b \<and> ce_text_le E (ap_EventID a) (ap_EventID b)))
         (filter (\<lambda>a. ap_TaskID a = taskID) (st_approvals s)))))"

end
