(* ===== verification/Control_Callback.thy ===== *)
theory Control_Callback
  imports Control_Entities
begin

text \<open>
  The callbacks of the approval system (\<open>callback.go\<close>). An event id is claimed before it is
  processed and completed with a response; a completed event is replayed, a claimed one is refused,
  and a failed one may be claimed again. \<open>ApplyApprovalCallback\<close> claims an event, records the
  decision, stores the grant, moves the task and completes the event in one transaction.
\<close>

section \<open>Definitions\<close>

definition callbackPayloadHash :: "('o, 'x) control_env \<Rightarrow> byte list \<Rightarrow> go_string" where
  "callbackPayloadHash E payload = hex_encode (env_sha256 (ce_exposure E) payload)"

definition callback_claim :: "go_string \<Rightarrow> go_string \<Rightarrow> CallbackClaim" where
  "callback_claim eventID status = \<lparr>cc_EventID = eventID, cc_Status = status, cc_Claimed = False, cc_Replay = False, cc_Response = []\<rparr>"

definition unknown_status :: "go_string \<Rightarrow> go_error" where
  "unknown_status status = Message (''unknown callback status '' @ [quote] @ status @ [quote])"

definition LookupCallback :: "('o, 'x) control_env \<Rightarrow> go_string \<Rightarrow> byte list \<Rightarrow> 'o Store \<Rightarrow> go_error + CallbackClaim" where
  "LookupCallback E eventID rawPayload s =
     (case checkOpen ''lookup callback'' s of Some err \<Rightarrow> Inl err | None \<Rightarrow>
      if eventID = [] \<or> rawPayload = []
      then Inl (opErr ''lookup callback'' ErrInvalid (Message ''event ID and raw payload are required''))
      else case select_row cb_EventID eventID (st_callbacks s) of
          None \<Rightarrow> Inl (opErr ''lookup callback'' ErrNotFound ErrNoRows)
        | Some r \<Rightarrow>
            if cb_PayloadSHA256 r \<noteq> callbackPayloadHash E rawPayload then Inl (OpError ''lookup callback'' ErrIdempotencyConflict None)
            else if cb_Status r = CallbackCompleted
            then Inr ((callback_claim eventID (cb_Status r))\<lparr>cc_Replay := True, cc_Response := cb_Response r\<rparr>)
            else if cb_Status r = CallbackProcessing \<or> cb_Status r = CallbackRetryable
            then Inr (callback_claim eventID (cb_Status r))
            else Inl (opErr ''lookup callback'' ErrConflict (unknown_status (cb_Status r))))"

text \<open>\<open>INSERT ... ON CONFLICT (event_id) DO NOTHING\<close>, and what an existing row says\<close>

definition claimed_row :: "go_string \<Rightarrow> go_string \<Rightarrow> go_time \<Rightarrow> callback_row" where
  "claimed_row eventID payloadHash at = \<lparr>cb_EventID = eventID, cb_PayloadSHA256 = payloadHash, cb_Status = CallbackProcessing,
     cb_Response = [], cb_LastError = [], cb_ClaimedAt = dbTime at, cb_CompletedAt = None\<rparr>"

definition reclaim_rows :: "go_string \<Rightarrow> go_time \<Rightarrow> callback_row list \<Rightarrow> callback_row list" where
  "reclaim_rows eventID at = update_rows (\<lambda>r. cb_EventID r = eventID \<and> cb_Status r = CallbackRetryable)
     (\<lambda>r. r\<lparr>cb_Status := CallbackProcessing, cb_LastError := [], cb_ClaimedAt := dbTime at, cb_CompletedAt := None\<rparr>)"

definition claimCallbackTx :: "go_string \<Rightarrow> go_string \<Rightarrow> go_time \<Rightarrow> 'o Store \<Rightarrow> go_error + CallbackClaim \<times> 'o Store" where
  "claimCallbackTx eventID payloadHash at s =
     (case select_row cb_EventID eventID (st_callbacks s) of
        None \<Rightarrow> Inr ((callback_claim eventID CallbackProcessing)\<lparr>cc_Claimed := True\<rparr>,
                  s\<lparr>st_callbacks := st_callbacks s @ [claimed_row eventID payloadHash at]\<rparr>)
      | Some r \<Rightarrow>
          if cb_PayloadSHA256 r \<noteq> payloadHash then Inl (OpError ''claim callback'' ErrIdempotencyConflict None)
          else if cb_Status r = CallbackCompleted
          then Inr ((callback_claim eventID (cb_Status r))\<lparr>cc_Replay := True, cc_Response := cb_Response r\<rparr>, s)
          else if cb_Status r = CallbackProcessing then Inl (OpError ''claim callback'' ErrCallbackInProgress None)
          else if cb_Status r = CallbackRetryable
          then Inr ((callback_claim eventID CallbackProcessing)\<lparr>cc_Claimed := True\<rparr>,
                 s\<lparr>st_callbacks := reclaim_rows eventID at (st_callbacks s)\<rparr>)
          else Inl (opErr ''claim callback'' ErrConflict (unknown_status (cb_Status r))))"

definition ClaimCallback ::
  "('o, 'x) control_env \<Rightarrow> call \<Rightarrow> go_string \<Rightarrow> byte list \<Rightarrow> 'o Store \<Rightarrow> (go_error + CallbackClaim) \<times> 'o Store" where
  "ClaimCallback E c eventID rawPayload s =
     (case checkOpen ''claim callback'' s of Some err \<Rightarrow> (Inl err, s) | None \<Rightarrow>
      if eventID = [] \<or> rawPayload = []
      then (Inl (opErr ''claim callback'' ErrInvalid (Message ''event ID and raw payload are required'')), s)
      else case claimCallbackTx eventID (callbackPayloadHash E rawPayload) (now c 0) s of
          Inl err \<Rightarrow> (Inl err, s)
        | Inr (claim, s1) \<Rightarrow>
            if \<not> cc_Claimed claim then (Inr claim, s1)
            else case appendAuditTx E c (audit_event [] [] ''oa'' ''CALLBACK_CLAIMED'' [(''event_id'', json_string eventID)] (now c 1)) s1 of
                Inl err \<Rightarrow> (Inl (opErr ''claim callback'' ErrConflict err), s)
              | Inr (e, s2) \<Rightarrow> (Inr claim, s2))"

definition RetryCallback where "RetryCallback E c eventID rawPayload s = ClaimCallback E c eventID rawPayload s"

definition completeCallbackTx :: "go_string \<Rightarrow> byte list \<Rightarrow> go_time \<Rightarrow> 'o Store \<Rightarrow> go_error + 'o Store" where
  "completeCallbackTx eventID response at s =
     (let hit = (\<lambda>r. cb_EventID r = eventID \<and> cb_Status r = CallbackProcessing) in
      if length (filter hit (st_callbacks s)) \<noteq> 1 then Inl (Message ''callback is not processing'')
      else Inr (s\<lparr>st_callbacks := update_rows hit (\<lambda>r. r\<lparr>cb_Status := CallbackCompleted, cb_Response := response,
             cb_LastError := [], cb_CompletedAt := Some (dbTime at)\<rparr>) (st_callbacks s)\<rparr>))"

definition CompleteCallback ::
  "('o, 'x) control_env \<Rightarrow> call \<Rightarrow> go_string \<Rightarrow> byte list \<Rightarrow> byte list \<Rightarrow> 'o Store \<Rightarrow> go_error option \<times> 'o Store" where
  "CompleteCallback E c eventID rawPayload response s =
     (case checkOpen ''complete callback'' s of Some err \<Rightarrow> (Some err, s) | None \<Rightarrow>
      if eventID = [] \<or> rawPayload = []
      then (Some (opErr ''complete callback'' ErrInvalid (Message ''event ID and raw payload are required'')), s)
      else case select_row cb_EventID eventID (st_callbacks s) of
          None \<Rightarrow> (Some (opErr ''complete callback'' ErrNotFound ErrNoRows), s)
        | Some r \<Rightarrow>
            if cb_PayloadSHA256 r \<noteq> callbackPayloadHash E rawPayload then (Some (OpError ''complete callback'' ErrIdempotencyConflict None), s)
            else if cb_Status r = CallbackCompleted then
              (if cb_Response r \<noteq> response
               then (Some (opErr ''complete callback'' ErrConflict (Message ''callback already completed with another response'')), s)
               else (None, s))
            else if cb_Status r \<noteq> CallbackProcessing
            then (Some (opErr ''complete callback'' ErrConflict (Message (''callback is '' @ cb_Status r))), s)
            else case completeCallbackTx eventID response (now c 0) s of
                Inl err \<Rightarrow> (Some (opErr ''complete callback'' ErrConflict err), s)
              | Inr s1 \<Rightarrow>
                  (case appendAuditTx E c (audit_event [] [] ''oa'' ''CALLBACK_COMPLETED'' [(''event_id'', json_string eventID)] (now c 1)) s1 of
                     Inl err \<Rightarrow> (Some (opErr ''complete callback'' ErrConflict err), s)
                   | Inr (e, s2) \<Rightarrow> (None, s2)))"

definition FailCallback ::
  "('o, 'x) control_env \<Rightarrow> go_string \<Rightarrow> byte list \<Rightarrow> go_string \<Rightarrow> 'o Store \<Rightarrow> go_error option \<times> 'o Store" where
  "FailCallback E eventID rawPayload failure s =
     (case checkOpen ''fail callback'' s of Some err \<Rightarrow> (Some err, s) | None \<Rightarrow>
      if eventID = [] \<or> rawPayload = [] \<or> failure = []
      then (Some (opErr ''fail callback'' ErrInvalid (Message ''event ID, raw payload, and failure are required'')), s)
      else
       (let hit = (\<lambda>r. cb_EventID r = eventID \<and> cb_PayloadSHA256 r = callbackPayloadHash E rawPayload \<and> cb_Status r = CallbackProcessing) in
        (if length (filter hit (st_callbacks s)) \<noteq> 1
         then Some (opErr ''fail callback'' ErrConflict (Message ''callback is not processing or payload differs'')) else None,
         s\<lparr>st_callbacks := update_rows hit (\<lambda>r. r\<lparr>cb_Status := CallbackRetryable, cb_LastError := failure, cb_CompletedAt := None\<rparr>)
             (st_callbacks s)\<rparr>)))"

subsection \<open>Approval decisions\<close>

record ApprovalCallback =
  ac_EventID :: go_string
  ac_RawPayload :: "byte list"
  ac_Event :: ApprovalEvent
  ac_ExpectedState :: go_string
  ac_NewState :: go_string
  ac_Reason :: go_string
  ac_Grant :: "TaskGrant option"
  ac_Response :: "byte list"

text \<open>The members of a Go map are written in the order of their keys.\<close>

definition approvalCallbackAuditPayload :: "ApprovalCallback \<Rightarrow> go_string \<Rightarrow> (go_string \<times> go_string) list" where
  "approvalCallbackAuditPayload cb current =
     (let decision = (''decision'', json_string (ap_Decision (ac_Event cb))); event = (''event_id'', json_string (ac_EventID cb));
          origin = (''from'', json_string current); reason = (''terminal_reason'', json_string (ac_Reason cb));
          target = (''to'', json_string (ac_NewState cb)) in
      case ac_Grant cb of
        None \<Rightarrow> [decision, event, origin, reason, target]
      | Some g \<Rightarrow> [(''catalog_digest'', json_string (tg_CatalogDigest g)), (''catalog_version'', json_string (tg_CatalogVersion g)),
          (''datasource_id'', json_string (tg_DatasourceID g)), decision, event, (''exposure'', exposure_grant_json (tg_Exposure g)),
          origin, (''schema_digest'', json_string (tg_SchemaDigest g)), reason, target,
          (''view_binding_digest'', json_string (tg_ViewBindingDigest g))])"

definition approval_fields_empty :: "ApprovalCallback \<Rightarrow> bool" where
  "approval_fields_empty cb \<longleftrightarrow> ac_EventID cb = [] \<or> ac_RawPayload cb = [] \<or> ap_TaskID (ac_Event cb) = [] \<or>
     ap_Actor (ac_Event cb) = [] \<or> ap_Decision (ac_Event cb) = []"

text \<open>The approval event with the defaults of its id and its time.\<close>

definition approval_event :: "ApprovalCallback \<Rightarrow> go_time \<Rightarrow> ApprovalEvent" where
  "approval_event cb at =
     (let event = ac_Event cb;
          event = (if ap_EventID event = [] then event\<lparr>ap_EventID := ac_EventID cb\<rparr> else event) in
      if IsZero (ap_CreatedAt event) then event\<lparr>ap_CreatedAt := at\<rparr> else event)"

definition grant_provenance_empty :: "TaskGrant \<Rightarrow> bool" where
  "grant_provenance_empty g \<longleftrightarrow> tg_CatalogVersion g = [] \<or> \<not> validSHA256Hex (tg_CatalogDigest g) \<or>
     tg_DatasourceID g = [] \<or> \<not> validSHA256Hex (tg_SchemaDigest g) \<or> tg_ApprovalReceipt g = []"

text \<open>The grant of the decision, if there is one.\<close>

definition apply_grant :: "('o, 'x) control_env \<Rightarrow> go_time \<Rightarrow> TaskGrant option \<Rightarrow> 'o Store \<Rightarrow> go_error + 'o Store" where
  "apply_grant E at grant s =
     (case grant of None \<Rightarrow> Inr s | Some g \<Rightarrow>
      (let g = (if IsZero (tg_CreatedAt g) then g\<lparr>tg_CreatedAt := at\<rparr> else g) in
       if lim_Queries (tg_Budget g) \<le> 0 \<or> lim_Rows (tg_Budget g) \<le> 0 \<or> lim_DBMS (tg_Budget g) \<le> 0 \<or> IsZero (tg_ExpiresAt g)
       then Inl (opErr ''apply approval callback'' ErrInvalid (Message ''invalid grant budget or expiry''))
       else case validateExposureGrant (tg_Exposure g) of Some err \<Rightarrow> Inl (opErr ''apply approval callback'' ErrInvalid err) | None \<Rightarrow>
       if grant_provenance_empty g then Inl (opErr ''apply approval callback'' ErrInvalid (Message ''invalid grant provenance''))
       else case validateGrantViewBinding E g of Some err \<Rightarrow> Inl (opErr ''apply approval callback'' ErrInvalid err) | None \<Rightarrow>
       (case normalizeJSON E (tg_MandatoryScope g) ''{}'' of
          None \<Rightarrow> Inl (opErr ''apply approval callback'' ErrInvalid (Message ''invalid JSON''))
        | Some scope \<Rightarrow>
           (case (case ce_jsonb E scope of None \<Rightarrow> Inl DatabaseError | Some stored \<Rightarrow> insertGrantAndBudget E g stored s) of
              Inl err \<Rightarrow> Inl (opErr ''apply approval callback'' ErrConflict err) | Inr s' \<Rightarrow> Inr s'))))"

definition decided_tasks :: "ApprovalCallback \<Rightarrow> go_time \<Rightarrow> Task list \<Rightarrow> Task list" where
  "decided_tasks cb at = update_rows (\<lambda>t. tk_ID t = ap_TaskID (ac_Event cb))
     (\<lambda>t. t\<lparr>tk_State := ac_NewState cb, tk_TerminalReason := ac_Reason cb, tk_UpdatedAt := dbTime at,
            tk_ExpiresAt := (case ac_Grant cb of None \<Rightarrow> tk_ExpiresAt t | Some g \<Rightarrow> Some (dbTime (tg_ExpiresAt g)))\<rparr>)"

text \<open>The part of the transaction after the claim.\<close>

definition apply_decision ::
  "('o, 'x) control_env \<Rightarrow> call \<Rightarrow> ApprovalCallback \<Rightarrow> go_string \<Rightarrow> 'o Store \<Rightarrow> go_error + 'o Store" where
  "apply_decision E c cb payload s =
     (case select_row tk_ID (ap_TaskID (ac_Event cb)) (st_tasks s) of
        None \<Rightarrow> Inl (opErr ''apply approval callback'' ErrNotFound ErrNoRows)
      | Some t \<Rightarrow>
         if ac_ExpectedState cb \<noteq> [] \<and> tk_State t \<noteq> ac_ExpectedState cb
         then Inl (opErr ''apply approval callback'' ErrInvalidStateChange (Message (''expected '' @ ac_ExpectedState cb @ '', found '' @ tk_State t)))
         else if \<not> allowedTransition (tk_State t) (ac_NewState cb) (ac_Reason cb)
         then Inl (opErr ''apply approval callback'' ErrInvalidStateChange (Message (tk_State t @ '' -> '' @ ac_NewState cb)))
         else case ce_jsonb E payload of None \<Rightarrow> Inl (opErr ''apply approval callback'' ErrConflict DatabaseError) | Some stored \<Rightarrow>
         (case insert_row ap_EventID ((approval_event cb (now c 0))\<lparr>ap_Payload := stored, ap_CreatedAt := dbTime (ap_CreatedAt (approval_event cb (now c 0)))\<rparr>) (st_approvals s) of
            Inl err \<Rightarrow> Inl (opErr ''apply approval callback'' ErrConflict err)
          | Inr approvals \<Rightarrow>
         (case apply_grant E (now c 0) (ac_Grant cb) (s\<lparr>st_approvals := approvals\<rparr>) of Inl err \<Rightarrow> Inl err | Inr s1 \<Rightarrow>
         (case appendAuditTx E c (audit_event (ap_TaskID (ac_Event cb)) [] (ap_Actor (ac_Event cb)) ''APPROVAL_CALLBACK_APPLIED''
                 (approvalCallbackAuditPayload cb (tk_State t)) (now c 0))
                (s1\<lparr>st_tasks := decided_tasks cb (now c 0) (st_tasks s1)\<rparr>) of
            Inl err \<Rightarrow> Inl (opErr ''apply approval callback'' ErrConflict err)
          | Inr (e, s2) \<Rightarrow>
         (case completeCallbackTx (ac_EventID cb) (ac_Response cb) (now c 0) s2 of
            Inl err \<Rightarrow> Inl (opErr ''apply approval callback'' ErrConflict err) | Inr s3 \<Rightarrow> Inr s3)))))"

text \<open>The checks before the transaction.\<close>

definition check_approval :: "ApprovalCallback \<Rightarrow> go_error option" where
  "check_approval cb =
     (if approval_fields_empty cb
      then Some (opErr ''apply approval callback'' ErrInvalid (Message ''callback and approval fields are required''))
      else if ac_NewState cb = TaskActive \<and> ac_Grant cb = None
      then Some (opErr ''apply approval callback'' ErrInvalid (Message ''active task requires a grant''))
      else if (case ac_Grant cb of None \<Rightarrow> False | Some g \<Rightarrow> tg_TaskID g \<noteq> ap_TaskID (ac_Event cb))
      then Some (opErr ''apply approval callback'' ErrInvalid (Message ''grant belongs to another task''))
      else None)"

definition ApplyApprovalCallback ::
  "('o, 'x) control_env \<Rightarrow> call \<Rightarrow> ApprovalCallback \<Rightarrow> 'o Store \<Rightarrow> (go_error + CallbackClaim) \<times> 'o Store" where
  "ApplyApprovalCallback E c cb s =
     (case checkOpen ''apply approval callback'' s of Some err \<Rightarrow> (Inl err, s) | None \<Rightarrow>
      (case check_approval cb of Some err \<Rightarrow> (Inl err, s) | None \<Rightarrow>
      (case normalizeJSON E (ap_Payload (ac_Event cb)) ''{}'' of
          None \<Rightarrow> (Inl (opErr ''apply approval callback'' ErrInvalid (Message ''invalid JSON'')), s)
        | Some payload \<Rightarrow>
      (case claimCallbackTx (ac_EventID cb) (callbackPayloadHash E (ac_RawPayload cb)) (now c 0) s of
          Inl err \<Rightarrow> (Inl err, s)
        | Inr (claim, s1) \<Rightarrow>
            if cc_Replay claim then (Inr claim, s1)
            else case apply_decision E c cb payload s1 of
                Inl err \<Rightarrow> (Inl err, s)
              | Inr s2 \<Rightarrow> (Inr (claim\<lparr>cc_Status := CallbackCompleted, cc_Response := ac_Response cb\<rparr>), s2)))))"

end
