(* ===== verification/Control_Steps.thy ===== *)
theory Control_Steps
  imports Control_Recovery Control_Callback
begin

text \<open>
  The invariant of the control store and what every operation of the package \<^verbatim>\<open>internal/control\<close> keeps of it.
  \<^const>\<open>budgets_ok\<close> (the budget ledger), \<^const>\<open>exposure_ok\<close> (the exposure tables), the grants and the primary keys
  make up \<open>store_ok\<close>; \<open>store_le\<close> is what no operation takes back; \<open>audit_steps\<close> says that the
  audit tables change by appends only. \<open>store_step\<close> puts the three together, and there is one lemma
  \<open>..._step\<close> for each operation: settlement, reservation, recovery, principals, tasks, grants,
  approvals, view bindings, receipts and audit events. The lemmas compose along the transaction with \<open>also\<close>.
\<close>

section \<open>The invariant of the store\<close>

text \<open>Every budget row belongs to a grant and has its limits.\<close>

definition grants_ok :: "TaskGrant list \<Rightarrow> BudgetSnapshot list \<Rightarrow> bool" where
  "grants_ok grants budgets \<longleftrightarrow> distinct (map tg_TaskID grants) \<and>
     (\<forall>b\<in>set budgets. \<exists>g\<in>set grants. tg_TaskID g = bud_TaskID b \<and> tg_Budget g = bud_Limits b)"

definition store_ok :: "'o Store \<Rightarrow> bool" where
  "store_ok s \<longleftrightarrow> exposure_ok s \<and> budgets_ok (st_budgets s) (st_queries s) \<and> grants_ok (st_grants s) (st_budgets s) \<and>
     distinct (map tk_ID (st_tasks s)) \<and> distinct (map rc_QueryID (st_receipts s)) \<and> distinct (map cb_EventID (st_callbacks s))"

text \<open>What no operation takes back: an archived task, the identity of a request, a terminal query,
  a grant, a receipt, a charged fact, a completed callback.\<close>

definition tasks_le :: "Task list \<Rightarrow> Task list \<Rightarrow> bool" where
  "tasks_le ts ts' \<longleftrightarrow> (\<forall>t\<in>set ts. \<exists>t'\<in>set ts'. tk_ID t' = tk_ID t \<and> tk_RootTaskID t' = tk_RootTaskID t \<and>
     (tk_State t = TaskArchived \<longrightarrow> t' = t))"

definition same_request :: "QueryRecord \<Rightarrow> QueryRecord \<Rightarrow> bool" where
  "same_request r r' \<longleftrightarrow> qr_ID r' = qr_ID r \<and> qr_TaskID r' = qr_TaskID r \<and> qr_RequestID r' = qr_RequestID r \<and>
     qr_Actor r' = qr_Actor r \<and> qr_RequestDigest r' = qr_RequestDigest r \<and> qr_ViewBindingDigest r' = qr_ViewBindingDigest r \<and>
     qr_ReservedRows r' = qr_ReservedRows r \<and> qr_ReservedDBMS r' = qr_ReservedDBMS r \<and> qr_BudgetBefore r' = qr_BudgetBefore r"

definition queries_le :: "QueryRecord list \<Rightarrow> QueryRecord list \<Rightarrow> bool" where
  "queries_le qs qs' \<longleftrightarrow> (\<forall>r\<in>set qs. \<exists>r'\<in>set qs'. same_request r r' \<and> (qr_Status r \<noteq> QueryReserved \<longrightarrow> r' = r))"

definition callbacks_le :: "callback_row list \<Rightarrow> callback_row list \<Rightarrow> bool" where
  "callbacks_le rows rows' \<longleftrightarrow> (\<forall>r\<in>set rows. cb_Status r = CallbackCompleted \<longrightarrow> r \<in> set rows')"

definition store_le :: "'o Store \<Rightarrow> 'o Store \<Rightarrow> bool" where
  "store_le s s' \<longleftrightarrow> tasks_le (st_tasks s) (st_tasks s') \<and> queries_le (st_queries s) (st_queries s') \<and>
     set (st_grants s) \<subseteq> set (st_grants s') \<and> set (st_receipts s) \<subseteq> set (st_receipts s') \<and> set (st_facts s) \<subseteq> set (st_facts s') \<and>
     callbacks_le (st_callbacks s) (st_callbacks s')"

text \<open>The audit tables change by appends only.\<close>

inductive audit_steps :: "('o, 'x) control_env \<Rightarrow> 'o Store \<Rightarrow> 'o Store \<Rightarrow> bool" for E where
  same: "st_events s' = st_events s \<Longrightarrow> st_head s' = st_head s \<Longrightarrow> audit_steps E s s'"
| append: "appendAuditTx E c event s = Inr (e, s') \<Longrightarrow> audit_steps E s s'"
| trans: "audit_steps E s s1 \<Longrightarrow> audit_steps E s1 s2 \<Longrightarrow> audit_steps E s s2"

definition store_step :: "('o, 'x) control_env \<Rightarrow> 'o Store \<Rightarrow> 'o Store \<Rightarrow> bool" where
  "store_step E s s' \<longleftrightarrow> (store_ok s \<longrightarrow> store_ok s' \<and> store_le s s' \<and> audit_steps E s s')"

text \<open>A reservation that is not a replay passed every check.\<close>

definition admitted :: "ReserveRequest \<Rightarrow> BudgetSnapshot \<Rightarrow> Task \<Rightarrow> call \<Rightarrow> 'o Store \<Rightarrow> bool" where
  "admitted q before task c s \<longleftrightarrow> \<not> st_closed s \<and> \<not> reserve_evidence_missing q \<and> \<not> reserve_negative q \<and>
     select_row tk_ID (rq_TaskID q) (st_tasks s) = Some task \<and> request_row (rq_TaskID q) (rq_RequestID q) s = None \<and>
     tk_State task = TaskActive \<and> (\<forall>e. tk_ExpiresAt task = Some e \<longrightarrow> now c 0 < dbTime e) \<and>
     check_view_binding q s = None \<and> budget_row (rq_TaskID q) s = Some before \<and> use_ReservedQueries (bud_Usage before) = 0 \<and>
     1 \<le> lim_Queries (BudgetSnapshot_Remaining before) \<and> 1 \<le> lim_Rows (BudgetSnapshot_Remaining before) \<and>
     1 \<le> lim_DBMS (BudgetSnapshot_Remaining before)"

text \<open>The limits of a grant are machine integers.\<close>

definition valid_limits :: "BudgetLimits \<Rightarrow> bool" where
  "valid_limits l \<longleftrightarrow> in_int64 (lim_Queries l) \<and> in_int64 (lim_Rows l) \<and> in_int64 (lim_DBMS l)"

text \<open>The record of an interrupted query after the recovery.\<close>

definition fully_charged :: "QueryRecord \<Rightarrow> bool" where
  "fully_charged r \<longleftrightarrow> qr_Status r = QueryIndeterminate \<and> qr_ChargedQueries r = 1 \<and> qr_ChargedRows r = qr_ReservedRows r \<and>
     qr_ChargedDBMS r = qr_ReservedDBMS r"

section \<open>What a step keeps\<close>

lemma tasks_le_refl [simp]: "tasks_le ts ts"
  by (auto simp: tasks_le_def)

lemma same_request_refl [simp]: "same_request r r"
  by (simp add: same_request_def)

lemma queries_le_refl [simp]: "queries_le qs qs"
  unfolding queries_le_def by (blast intro: same_request_refl)

lemma callbacks_le_refl [simp]: "callbacks_le rows rows"
  by (simp add: callbacks_le_def)

lemma callbacks_le_trans: "callbacks_le xs ys \<Longrightarrow> callbacks_le ys zs \<Longrightarrow> callbacks_le xs zs"
  by (auto simp only: callbacks_le_def)

lemma tasks_le_trans:
  assumes "tasks_le ts us" and "tasks_le us vs"
  shows "tasks_le ts vs"
  unfolding tasks_le_def
proof
  fix t assume "t \<in> set ts"
  then obtain u where u: "u \<in> set us" "tk_ID u = tk_ID t" "tk_RootTaskID u = tk_RootTaskID t" "tk_State t = TaskArchived \<longrightarrow> u = t"
    using assms(1) by (auto simp only: tasks_le_def)
  then obtain v where "v \<in> set vs" "tk_ID v = tk_ID u" "tk_RootTaskID v = tk_RootTaskID u" "tk_State u = TaskArchived \<longrightarrow> v = u"
    using bspec [OF assms(2) [unfolded tasks_le_def] u(1)] by blast
  with u show "\<exists>t'\<in>set vs. tk_ID t' = tk_ID t \<and> tk_RootTaskID t' = tk_RootTaskID t \<and> (tk_State t = TaskArchived \<longrightarrow> t' = t)"
    by (intro bexI [of _ v]) auto
qed

lemma same_request_trans: "same_request r s \<Longrightarrow> same_request s t \<Longrightarrow> same_request r t"
  by (simp add: same_request_def)

lemma queries_le_trans:
  assumes "queries_le qs rs" and "queries_le rs ts"
  shows "queries_le qs ts"
  unfolding queries_le_def
proof
  fix q assume "q \<in> set qs"
  then obtain r where r: "r \<in> set rs" "same_request q r" "qr_Status q \<noteq> QueryReserved \<longrightarrow> r = q"
    using assms(1) by (auto simp only: queries_le_def)
  then obtain t where "t \<in> set ts" "same_request r t" "qr_Status r \<noteq> QueryReserved \<longrightarrow> t = r"
    using assms(2) by (auto simp only: queries_le_def)
  with r show "\<exists>r'\<in>set ts. same_request q r' \<and> (qr_Status q \<noteq> QueryReserved \<longrightarrow> r' = q)"
    by (intro bexI [of _ t]) (auto intro: same_request_trans)
qed

lemma store_le_refl [simp]: "store_le s s"
  by (simp add: store_le_def)

lemma store_le_trans: "store_le s t \<Longrightarrow> store_le t u \<Longrightarrow> store_le s u"
  unfolding store_le_def using tasks_le_trans queries_le_trans callbacks_le_trans by (metis order_trans)

lemma store_step_trans [trans]: "store_step E s t \<Longrightarrow> store_step E t u \<Longrightarrow> store_step E s u"
  unfolding store_step_def using store_le_trans audit_steps.trans by metis

lemma store_step_refl [simp]: "store_step E s s"
  by (simp add: store_step_def audit_steps.same)

text \<open>A change of the tables with the audit tables left alone.\<close>

lemma store_stepI:
  assumes "store_ok s \<Longrightarrow> store_ok s'" and "store_ok s \<Longrightarrow> store_le s s'" and "st_events s' = st_events s" and "st_head s' = st_head s"
  shows "store_step E s s'"
  using assms by (simp add: store_step_def audit_steps.same)

lemma exposure_store_step:
  assumes "exposure_step s s'" and "audit_steps E s s'"
  shows "store_step E s s'"
proof -
  have "store_ok s' \<and> store_le s s'" if "store_ok s"
  proof -
    have "core_same s s'" "exposure_ok s'" "set (st_facts s) \<subseteq> set (st_facts s')"
      using assms(1) that by (auto simp: exposure_step_def store_ok_def)
    then show ?thesis using that by (simp add: core_same_def store_ok_def store_le_def)
  qed
  with assms(2) show ?thesis by (simp add: store_step_def)
qed

lemma append_store_step: "appendAuditTx E c event s = Inr (e, s') \<Longrightarrow> store_step E s s'"
  by (intro exposure_store_step append_step audit_steps.append)

subsection \<open>Exposure transactions\<close>

lemma append_all_audit: "append_all E c es s = Inr s' \<Longrightarrow> audit_steps E s s'"
proof (induction es arbitrary: s)
  case (Cons e es)
  then obtain x s1 where "appendAuditTx E c e s = Inr (x, s1)" "append_all E c es s1 = Inr s'"
    by (auto split: sum.splits)
  with Cons.IH show ?case by (blast intro: audit_steps.trans audit_steps.append)
qed (simp add: audit_steps.same)

lemma same_then_append:
  "appendAuditTx E c event s1 = Inr (e, s') \<Longrightarrow> st_events s1 = st_events s \<Longrightarrow> st_head s1 = st_head s \<Longrightarrow> audit_steps E s s'"
  by (rule audit_steps.trans [OF audit_steps.same [of s1 s] audit_steps.append])

lemma same_then_append_all:
  "append_all E c es s1 = Inr s' \<Longrightarrow> st_events s1 = st_events s \<Longrightarrow> st_head s1 = st_head s \<Longrightarrow> audit_steps E s s'"
  by (rule audit_steps.trans [OF audit_steps.same [of s1 s] append_all_audit])

lemma reserveExposureTx_audit:
  assumes "reserveExposureTx E c q t request at s = Inr (r, s')"
  shows "audit_steps E s s'"
  using assms unfolding reserveExposureTx_def Let_def
  by (auto split: option.splits if_splits sum.splits prod.splits intro: audit_steps.same elim!: same_then_append_all)

lemma releaseExposure_audit:
  assumes "releaseExposureReservationTx E c at q s = Inr s'"
  shows "audit_steps E s s'"
  using assms unfolding releaseExposureReservationTx_def Let_def
  by (auto split: option.splits if_splits sum.splits prod.splits intro: audit_steps.same elim!: same_then_append)

lemma releaseAny_audit:
  assumes "releaseAnyExposureReservationTx E c at q s = Inr s'"
  shows "audit_steps E s s'"
  using assms unfolding releaseAnyExposureReservationTx_def
  by (auto split: if_splits sum.splits prod.splits intro: releaseExposure_audit elim!: same_then_append_all)

lemma apply_settle_audit: "apply_settle E c s result = Inr (charge, s') \<Longrightarrow> audit_steps E s s'"
  by (auto simp: apply_settle_def split: sum.splits prod.splits elim!: same_then_append_all)

lemma store_facts_audit:
  assumes "store_facts E root q n at s = Inr (novel, s')"
  shows "st_events s' = st_events s \<and> st_head s' = st_head s"
  using assms unfolding store_facts_def insertNovelFactsTx_def linkObservedFactsTx_def
  by (auto split: sum.splits prod.splits)

lemma settleExposure_audit:
  assumes "settleExposureMeasuredTx E c at q ob s = Inr (charge, s')"
  shows "audit_steps E s s'"
proof -
  have "audit_steps E s s'" if "charge_observation E c at r l n d s = Inr (charge, s')" for r l n d
    using that unfolding charge_observation_def Let_def
    by (auto split: option.splits if_splits sum.splits prod.splits dest!: store_facts_audit elim!: same_then_append)
  then show ?thesis
    using assms unfolding settleExposureMeasuredTx_def Let_def
    by (auto split: option.splits if_splits sum.splits intro: audit_steps.same)
qed

lemma settleAny_audit:
  assumes "settleAnyExposureMeasuredTx E c at b s = Inr (charge, s')"
  shows "audit_steps E s s'"
  using assms unfolding settleAnyExposureMeasuredTx_def
  by (auto split: if_splits option.splits intro: apply_settle_audit settleExposure_audit)

lemma exposure_store_steps:
  "reserveExposureTx E c q t request at s = Inr (r, s') \<Longrightarrow> store_step E s s'"
  "releaseAnyExposureReservationTx E c at q s = Inr s' \<Longrightarrow> store_step E s s'"
  "settleAnyExposureMeasuredTx E c at b s = Inr (charge, s') \<Longrightarrow> store_step E s s'"
  by (auto intro: exposure_store_step reserveExposureTx_step reserveExposureTx_audit releaseAny_step releaseAny_audit
    settleAny_step settleAny_audit)

lemma grants_ok_update:
  assumes "grants_ok gs bs" and "\<And>b. bud_TaskID (f b) = bud_TaskID b \<and> bud_Limits (f b) = bud_Limits b"
  shows "grants_ok gs (update_rows p f bs)"
  using assms(1)
  by (auto simp only: grants_ok_def set_update_rows ball_simps if_distrib [of bud_TaskID] if_distrib [of bud_Limits] assms(2) if_cancel)

subsection \<open>Receipts and archiving\<close>

lemma saveQueryReceipt_step:
  assumes "saveQueryReceiptTx E at q s = Inr (r, s')"
  shows "store_step E s s'"
proof (cases "s' = s")
  case False
  then obtain r where r: "rc_QueryID r \<notin> rc_QueryID ` set (st_receipts s)" "s' = s\<lparr>st_receipts := st_receipts s @ [r]\<rparr>"
    using assms unfolding saveQueryReceiptTx_def by (auto split: option.splits if_splits sum.splits)
  then show ?thesis by (intro store_stepI) (auto simp: store_ok_def store_le_def)
qed simp

lemma persistTerminalReceipt_step:
  assumes "persistTerminalReceiptTx E at ev builder s = Inr (r, s')"
  shows "store_step E s s'"
  using assms unfolding persistTerminalReceiptTx_def
  by (auto split: option.splits sum.splits intro: saveQueryReceipt_step)

lemma tasks_le_update:
  assumes "\<And>t. tk_ID (f t) = tk_ID t \<and> tk_RootTaskID (f t) = tk_RootTaskID t" and "\<And>t. t \<in> set ts \<Longrightarrow> p t \<Longrightarrow> tk_State t \<noteq> TaskArchived"
  shows "tasks_le ts (update_rows p f ts)"
  unfolding tasks_le_def
proof
  fix t assume t: "t \<in> set ts"
  let ?u = "if p t then f t else t"
  have "?u \<in> set (update_rows p f ts)" using t by (simp add: set_update_rows)
  moreover have "tk_ID ?u = tk_ID t \<and> tk_RootTaskID ?u = tk_RootTaskID t \<and> (tk_State t = TaskArchived \<longrightarrow> ?u = t)"
    using assms t by auto
  ultimately show "\<exists>t'\<in>set (update_rows p f ts). tk_ID t' = tk_ID t \<and> tk_RootTaskID t' = tk_RootTaskID t \<and> (tk_State t = TaskArchived \<longrightarrow> t' = t)"
    by blast
qed

lemma update_tasks_step:
  assumes "\<And>t. tk_ID (f t) = tk_ID t \<and> tk_RootTaskID (f t) = tk_RootTaskID t"
    and "store_ok s \<Longrightarrow> \<forall>t\<in>set (st_tasks s). p t \<longrightarrow> tk_State t \<noteq> TaskArchived"
  shows "store_step E s (s\<lparr>st_tasks := update_rows p f (st_tasks s)\<rparr>)"
  using assms map_update_rows [of tk_ID f p "st_tasks s"]
  by (intro store_stepI) (simp_all add: store_ok_def store_le_def tasks_le_update)

text \<open>An update of callbacks that are not completed.\<close>

lemma update_callbacks_step:
  assumes "\<And>r. cb_EventID (f r) = cb_EventID r" and "\<And>r. p r \<Longrightarrow> cb_Status r \<noteq> CallbackCompleted"
  shows "store_step E s (s\<lparr>st_callbacks := update_rows p f (st_callbacks s)\<rparr>)"
proof (rule store_stepI)
  have "callbacks_le (st_callbacks s) (update_rows p f (st_callbacks s))"
    unfolding callbacks_le_def set_update_rows using assms(2) by force
  then show "store_le s (s\<lparr>st_callbacks := update_rows p f (st_callbacks s)\<rparr>)" by (simp add: store_le_def)
qed (use assms(1) map_update_rows [of cb_EventID f p "st_callbacks s"] in \<open>simp_all add: store_ok_def\<close>)

lemma archiveTask_step:
  assumes "archiveTaskTx E c t reason actor at s = Inr s'"
  shows "store_step E s s'"
proof (cases "list_ex (\<lambda>x. tk_ID x = t \<and> tk_State x \<noteq> TaskArchived) (st_tasks s)")
  case True
  define s1 where "s1 = s\<lparr>st_tasks := update_rows (\<lambda>x. tk_ID x = t \<and> tk_State x \<noteq> TaskArchived)
    (\<lambda>x. x\<lparr>tk_State := TaskArchived, tk_TerminalReason := reason, tk_UpdatedAt := dbTime at\<rparr>) (st_tasks s)\<rparr>"
  have "store_step E s s1" unfolding s1_def by (rule update_tasks_step) simp_all
  also obtain ev x where "appendAuditTx E c ev s1 = Inr (x, s')"
    using assms True unfolding archiveTaskTx_def Let_def s1_def by (auto split: sum.splits)
  then have "store_step E s1 s'" by (rule append_store_step)
  finally show ?thesis .
next
  case False
  with assms show ?thesis by (simp add: archiveTaskTx_def)
qed

subsection \<open>Settlement\<close>

lemma queries_le_write:
  assumes "distinct (map qr_ID qs)" and "r \<in> set qs" and "qr_Status r = QueryReserved" and "same_request r (g r)"
  shows "queries_le qs (write_record (qr_ID r) g qs)"
  unfolding queries_le_def set_write_record [OF assms(1-3)]
proof
  fix x assume x: "x \<in> set qs"
  show "\<exists>r'\<in>insert (g r) (set qs - {r}). same_request x r' \<and> (qr_Status x \<noteq> QueryReserved \<longrightarrow> r' = x)"
  proof (cases "x = r")
    case True
    with assms(3,4) show ?thesis by (intro bexI [of _ "g r"]) auto
  next
    case False
    with x show ?thesis by (intro bexI [of _ x]) auto
  qed
qed

text \<open>Writing the outcome of a query into the ledger and its record.\<close>

lemma write_settlement_step:
  assumes r: "r \<in> set (st_queries s)" "qr_Status r = QueryReserved" and q: "q = qr_ID r" and t: "t = qr_TaskID r"
    and before: "budget_row t s = Some b" and y: "qr_ReservedRows y = qr_ReservedRows r" "qr_ReservedDBMS y = qr_ReservedDBMS r"
    and settle: "store_ok s \<Longrightarrow> settles r ch g" and same: "same_request r (g r)"
  shows "store_step E s (s\<lparr>st_budgets := write_budget (after_settle b y ch at) at' t (st_budgets s), st_queries := write_record q g (st_queries s)\<rparr>)"
proof (rule store_stepI)
  assume ok: "store_ok s"
  note settles = settle [OF ok]
  obtain b0 where b0: "b0 \<in> set (st_budgets s)" "bud_TaskID b0 = t" "bud_Usage b = bud_Usage b0" "bud_Limits b = bud_Limits b0"
    using budget_row_Some [OF before] by blast
  let ?bs = "write_budget (after_settle b y ch at) at' t (st_budgets s)" and ?qs = "write_record q g (st_queries s)"
  have bok: "budgets_ok (st_budgets s) (st_queries s)" using ok by (simp add: store_ok_def)
  have ch: "charge_ok r ch" using settles by (simp add: settles_def)
  have "bud_Usage (after_settle b y ch at) = settle_usage (bud_Usage b0) r ch"
    using after_settle_exact [OF bok r b0(1) b0(2) [unfolded t] ch b0(3,4) y] by blast
  then have "budgets_ok ?bs ?qs"
    unfolding q t using settle_budgets_ok [OF bok r settles b0(1) b0(2) [unfolded t]] by blast
  moreover have "grants_ok (st_grants s) ?bs"
    using ok unfolding write_budget_def by (intro grants_ok_update) (simp_all add: store_ok_def)
  ultimately show "store_ok (s\<lparr>st_budgets := ?bs, st_queries := ?qs\<rparr>)"
    using ok by (simp add: store_ok_def)
  have "queries_le (st_queries s) ?qs"
    unfolding q using bok r same by (intro queries_le_write) (simp_all add: budgets_ok_def)
  then show "store_le s (s\<lparr>st_budgets := ?bs, st_queries := ?qs\<rparr>)" by (simp add: store_le_def)
qed simp_all

lemma settlement_settles:
  assumes "0 \<le> bs_Rows b" and "0 \<le> bs_DBMS b" and "bs_Rows b \<le> qr_ReservedRows r" and "0 \<le> qr_ReservedRows r" and "0 \<le> qr_ReservedDBMS r"
    and "qr_ReservedDBMS y = qr_ReservedDBMS r" and "status \<noteq> QueryReserved"
  shows "settles r (settlement_charge status b y) (settled_record status b (settlement_charge status b y) after h at)"
  using assms by (auto simp: settles_def charge_ok_def settlement_charge_def min64_def)

lemma settled_same_request: "same_request r (settled_record status b ch after h at r)"
  by (simp add: same_request_def settled_record_def)

lemma charging_not_reserved: "charging_status status \<or> status = QueryReleased \<Longrightarrow> status \<noteq> QueryReserved"
  by (auto simp: charging_status_def)

text \<open>What a settlement that changes the store did.\<close>

lemma settleBudgetTx_Inr:
  assumes "settleBudgetTx E c at b status h d s = Inr ((record, audit), s')" and "s' \<noteq> s"
  obtains r budget at' s1 where "r \<in> set (st_queries s)" "qr_Status r = QueryReserved" "qr_ID r = bs_QueryID b"
    "charging_status status \<or> status = QueryReleased" "budget_row (qr_TaskID r) s = Some budget" "bs_Rows b \<le> qr_ReservedRows r"
    "record = settled_record status b (settlement_charge status b (scanQuery r)) (after_settle budget (scanQuery r) (settlement_charge status b (scanQuery r)) at') h at' (scanQuery r)"
    "appendAuditTx E c (settled_event status b (settlement_charge status b (scanQuery r)) h at' (scanQuery r))
      (s\<lparr>st_budgets := write_budget (after_settle budget (scanQuery r) (settlement_charge status b (scanQuery r)) at') at' (qr_TaskID r) (st_budgets s),
         st_queries := write_record (bs_QueryID b) (settled_record status b (settlement_charge status b (scanQuery r))
           (after_settle budget (scanQuery r) (settlement_charge status b (scanQuery r)) at') h at') (st_queries s)\<rparr>) = Inr (audit, s1)"
    "s' = s1 \<or> archiveTaskTx E c (qr_TaskID r) TerminalBudgetExhausted ''system'' at' s1 = Inr s'"
proof -
  obtain record0 where q: "query_row (bs_QueryID b) s = Some record0"
    using assms(1) by (auto simp: settleBudgetTx_def split: option.splits)
  then obtain r where r: "r \<in> set (st_queries s)" "record0 = scanQuery r" "qr_ID r = bs_QueryID b" using query_row_Some by metis
  have reserved: "qr_Status r = QueryReserved"
  proof (rule ccontr)
    assume "qr_Status r \<noteq> QueryReserved"
    with assms q r(2) show False by (auto simp: settleBudgetTx_def split: if_splits sum.splits)
  qed
  show thesis
    using assms(1) q r(2) reserved
    by (auto simp: settleBudgetTx_def Let_def intro!: that [OF r(1) reserved r(3)] split: if_splits option.splits sum.splits)
qed

lemma settleBudget_step:
  assumes "settleBudgetTx E c at b status h d s = Inr ((record, audit), s')" and "0 \<le> bs_Rows b" and "0 \<le> bs_DBMS b"
  shows "store_step E s s'"
proof (cases "s' = s")
  case False
  from assms(1) False show ?thesis
  proof (rule settleBudgetTx_Inr)
    fix r budget at' s1
    let ?y = "scanQuery r" let ?ch = "settlement_charge status b ?y" let ?af = "after_settle budget ?y ?ch at'"
    let ?s = "s\<lparr>st_budgets := write_budget ?af at' (qr_TaskID r) (st_budgets s),
      st_queries := write_record (bs_QueryID b) (settled_record status b ?ch ?af h at') (st_queries s)\<rparr>"
    assume r: "r \<in> set (st_queries s)" "qr_Status r = QueryReserved" and id: "qr_ID r = bs_QueryID b"
      and st: "charging_status status \<or> status = QueryReleased" and row: "budget_row (qr_TaskID r) s = Some budget"
      and rows: "bs_Rows b \<le> qr_ReservedRows r"
      and audit: "appendAuditTx E c (settled_event status b ?ch h at' ?y) ?s = Inr (audit, s1)"
      and arch: "s' = s1 \<or> archiveTaskTx E c (qr_TaskID r) TerminalBudgetExhausted ''system'' at' s1 = Inr s'"
    have settles: "settles r ?ch (settled_record status b ?ch ?af h at')" if "store_ok s"
    proof -
      have "record_ok r" using that r by (simp add: store_ok_def budgets_ok_def)
      then show ?thesis
        using assms(2,3) rows charging_not_reserved [OF st] by (intro settlement_settles) (simp_all add: record_ok_def)
    qed
    have "store_step E s ?s"
      by (rule write_settlement_step [OF r id [symmetric] refl row _ _ settles settled_same_request]) simp_all
    also have "store_step E ?s s1" using audit by (rule append_store_step)
    also have "store_step E s1 s'" using arch archiveTask_step by fastforce
    finally show ?thesis .
  qed
qed simp

text \<open>The operations of the settlement family leave the store alone when they return an error.\<close>

lemma settle_exposure_step: "settle_exposure E c at b status s = Inr (ch, s') \<Longrightarrow> store_step E s s'"
  unfolding settle_exposure_def by (auto split: if_splits sum.splits intro: exposure_store_steps)

lemma settleWithReceipt_cases:
  obtains (refused) err where "settleWithReceipt E c b status h builder s = (Inl err, s)"
  | (settled) ch s1 qrec audit s2 receipt s3 where "settleWithReceipt E c b status h builder s = (Inr (qrec, receipt), s3)"
      "settle_exposure E c (now c 0) b status s = Inr (ch, s1)"
      "settleBudgetTx E c (now c 0) b status h False s1 = Inr ((qrec, audit), s2)" "0 \<le> bs_Rows b" "0 \<le> bs_DBMS b"
      "s3 = s2 \<or> (\<exists>ev build rc. persistTerminalReceiptTx E (now c 0) ev (Some build) s2 = Inr (rc, s3))"
proof (cases "st_closed s \<or> bs_QueryID b = [] \<or> bs_Rows b < 0 \<or> bs_DBMS b < 0 \<or> bs_ObservedDBMS b < 0 \<or> bs_OrdinalMaterialization b")
  case True
  then show ?thesis
    by (intro refused [of "projl (fst (settleWithReceipt E c b status h builder s))"])
      (auto simp: settleWithReceipt_def checkOpen_def)
next
  case go: False
  show ?thesis
  proof (cases "settle_exposure E c (now c 0) b status s")
    case (Inl err)
    with go show ?thesis by (intro refused) (simp add: settleWithReceipt_def checkOpen_def)
  next
    case s1: (Inr p)
    obtain ch s1 where p: "p = (ch, s1)" by (cases p)
    show ?thesis
    proof (cases "settleBudgetTx E c (now c 0) b status h False s1")
      case (Inl err)
      with go s1 p show ?thesis by (intro refused) (simp add: settleWithReceipt_def checkOpen_def)
    next
      case s2: (Inr p2)
      obtain qrec audit s2 where p2: "p2 = ((qrec, audit), s2)" by (metis surj_pair)
      show ?thesis
      proof (cases builder)
        case None
        with go s1 p s2 p2 show ?thesis by (intro settled) (auto simp: settleWithReceipt_def checkOpen_def)
      next
        case (Some build)
        let ?ev = "\<lparr>qc_Query = qrec, qc_Audit = audit, qc_Receipt = None, qc_Exposure = ch\<rparr>"
        show ?thesis
        proof (cases "persistTerminalReceiptTx E (now c 0) ?ev (Some build) s2")
          case (Inl err)
          with go s1 p s2 p2 Some show ?thesis by (intro refused) (simp add: settleWithReceipt_def checkOpen_def)
        next
          case s3: (Inr p3)
          obtain rc s3 where "p3 = (rc, s3)" by (cases p3)
          with go s1 p s2 p2 s3 Some show ?thesis
            by (intro settled [of qrec "Some rc" s3 ch s1 audit s2]) (auto simp: settleWithReceipt_def checkOpen_def)
        qed
      qed
    qed
  qed
qed

lemma settleWithReceipt_step: "store_step E s (snd (settleWithReceipt E c b status h builder s))"
proof (rule settleWithReceipt_cases [of E c b status h builder s])
  fix ch s1 qrec audit s2 receipt s3
  assume res: "settleWithReceipt E c b status h builder s = (Inr (qrec, receipt), s3)"
    and s1: "settle_exposure E c (now c 0) b status s = Inr (ch, s1)"
    and s2: "settleBudgetTx E c (now c 0) b status h False s1 = Inr ((qrec, audit), s2)" "0 \<le> bs_Rows b" "0 \<le> bs_DBMS b"
    and s3: "s3 = s2 \<or> (\<exists>ev build rc. persistTerminalReceiptTx E (now c 0) ev (Some build) s2 = Inr (rc, s3))"
  have "store_step E s s1" using s1 by (rule settle_exposure_step)
  also have "store_step E s1 s2" using s2 by (rule settleBudget_step)
  also have "store_step E s2 s3" using s3 persistTerminalReceipt_step by fastforce
  finally show ?thesis by (simp add: res)
qed simp

subsection \<open>Reservation\<close>

lemma reserve_tables_step:
  assumes before: "budget_row (rq_TaskID q) s = Some before" "use_ReservedQueries (bud_Usage before) = 0"
      "1 \<le> lim_Queries (BudgetSnapshot_Remaining before)"
    and rows: "rows = allowed_amount (rq_RequestedRows q) (lim_Rows (BudgetSnapshot_Remaining before))" "0 \<le> rq_RequestedRows q"
    and dbms: "dbms = allowed_amount (rq_RequestedDBMS q) (lim_DBMS (BudgetSnapshot_Remaining before))" "0 \<le> rq_RequestedDBMS q"
    and ledger: "reserve_ledger (rq_TaskID q) rows dbms at (st_budgets s) = Inr budgets"
    and queries: "insert_query (reserved_record q rows dbms before at) (st_queries s) = Inr queries"
  shows "store_step E s (s\<lparr>st_budgets := budgets, st_queries := queries\<rparr>)"
proof (rule store_stepI)
  let ?bs = "update_rows (\<lambda>x. bud_TaskID x = rq_TaskID q)
    (\<lambda>x. x\<lparr>bud_Usage := reserve_usage (bud_Usage x) rows dbms, bud_UpdatedAt := dbTime at\<rparr>) (st_budgets s)"
  have new: "rq_QueryID q \<notin> qr_ID ` set (st_queries s)" "(rq_TaskID q, rq_RequestID q) \<notin> request_key ` set (st_queries s)"
    and qs: "queries = st_queries s @ [reserved_record q rows dbms before at]"
    using queries by (auto simp: insert_query_def reserved_record_def request_key_def split: if_splits)
  assume ok: "store_ok s"
  then have bok: "budgets_ok (st_budgets s) (st_queries s)" by (simp add: store_ok_def)
  obtain b where b: "b \<in> set (st_budgets s)" "bud_TaskID b = rq_TaskID q" "bud_Usage before = bud_Usage b" "bud_Limits before = bud_Limits b"
    using budget_row_Some [OF before(1)] by blast
  note remaining = Remaining_exact [OF bok b(1,3,4)]
  have "within_limits b" using bok b by (simp add: budgets_ok_def)
  then have fits: "reservable b rows dbms"
    using before(2,3) b(3) remaining rows(2) dbms(2)
      allowed_amount_bounds [of "rq_RequestedRows q" "lim_Rows (BudgetSnapshot_Remaining before)"]
      allowed_amount_bounds [of "rq_RequestedDBMS q" "lim_DBMS (BudgetSnapshot_Remaining before)"]
    unfolding rows(1) dbms(1) reservable_def within_limits_def by simp
  have bs: "budgets = ?bs" using ledger reserve_ledger_Inr [OF bok b(1,2) fits] by simp
  have "budgets_ok ?bs queries" unfolding qs by (rule reserve_budgets_ok [OF bok b(1,2) fits new])
  moreover have "grants_ok (st_grants s) ?bs" using ok by (intro grants_ok_update) (simp_all add: store_ok_def)
  ultimately show "store_ok (s\<lparr>st_budgets := budgets, st_queries := queries\<rparr>)" using ok by (simp add: store_ok_def bs)
  have "queries_le (st_queries s) queries" unfolding queries_le_def qs by (auto intro!: bexI same_request_refl)
  then show "store_le s (s\<lparr>st_budgets := budgets, st_queries := queries\<rparr>)" by (simp add: store_le_def)
qed simp_all

lemma reserve_tx_Inr:
  assumes "reserve_tx E c q before at s = Inr (r, s')"
  obtains rows dbms budgets queries s1 e where
    "rows = allowed_amount (rq_RequestedRows q) (lim_Rows (BudgetSnapshot_Remaining before))"
    "dbms = allowed_amount (rq_RequestedDBMS q) (lim_DBMS (BudgetSnapshot_Remaining before))"
    "reserve_ledger (rq_TaskID q) rows dbms at (st_budgets s) = Inr budgets"
    "insert_query (reserved_record q rows dbms before at) (st_queries s) = Inr queries"
    "reserveExposureTx E c (rq_QueryID q) (rq_TaskID q) (rq_Exposure q) at (s\<lparr>st_budgets := budgets, st_queries := queries\<rparr>) = Inr (br_Exposure r, s1)"
    "appendAuditTx E c (reserved_event q rows dbms at) s1 = Inr (e, s')"
    "r = \<lparr>br_QueryID = rq_QueryID q, br_TaskID = rq_TaskID q, br_RequestID = rq_RequestID q, br_AllowedRows = rows, br_AllowedDBMS = dbms,
       br_Before = before, br_After = after_reserve before rows dbms at, br_Replay = False, br_Record = None, br_Exposure = br_Exposure r\<rparr>"
  using assms unfolding reserve_tx_def Let_def by (auto split: sum.splits prod.splits)

lemma reserve_tx_step:
  assumes "reserve_tx E c q before at s = Inr (r, s')" and "budget_row (rq_TaskID q) s = Some before"
    and "use_ReservedQueries (bud_Usage before) = 0" and "1 \<le> lim_Queries (BudgetSnapshot_Remaining before)"
    and "0 \<le> rq_RequestedRows q" and "0 \<le> rq_RequestedDBMS q"
  shows "store_step E s s'"
  using assms(1)
proof (rule reserve_tx_Inr)
  fix rows dbms budgets queries s1 e
  assume rows: "rows = allowed_amount (rq_RequestedRows q) (lim_Rows (BudgetSnapshot_Remaining before))"
    and dbms: "dbms = allowed_amount (rq_RequestedDBMS q) (lim_DBMS (BudgetSnapshot_Remaining before))"
    and tables: "reserve_ledger (rq_TaskID q) rows dbms at (st_budgets s) = Inr budgets"
      "insert_query (reserved_record q rows dbms before at) (st_queries s) = Inr queries"
    and exposure: "reserveExposureTx E c (rq_QueryID q) (rq_TaskID q) (rq_Exposure q) at (s\<lparr>st_budgets := budgets, st_queries := queries\<rparr>) = Inr (br_Exposure r, s1)"
    and audit: "appendAuditTx E c (reserved_event q rows dbms at) s1 = Inr (e, s')"
  have "store_step E s (s\<lparr>st_budgets := budgets, st_queries := queries\<rparr>)"
    by (rule reserve_tables_step [OF assms(2-4) rows assms(5) dbms assms(6) tables])
  also have "store_step E (s\<lparr>st_budgets := budgets, st_queries := queries\<rparr>) s1" using exposure by (rule exposure_store_steps)
  also have "store_step E s1 s'" using audit by (rule append_store_step)
  finally show ?thesis .
qed

lemma archive_and_fail_step: "store_step E s (snd (archive_and_fail E c t reason kind at s))"
  unfolding archive_and_fail_def by (auto split: sum.splits intro: archiveTask_step)

lemma check_view_binding_catalog [simp]: "check_view_binding (q\<lparr>rq_CatalogVersion := v\<rparr>) s = check_view_binding q s"
  by (auto simp: check_view_binding_def Let_def split: option.split)

lemma catalog_filled_fields [simp]:
  "rq_TaskID (catalog_filled task q) = rq_TaskID q" "rq_RequestID (catalog_filled task q) = rq_RequestID q"
  "rq_QueryID (catalog_filled task q) = rq_QueryID q" "rq_RequestedRows (catalog_filled task q) = rq_RequestedRows q"
  "rq_RequestedDBMS (catalog_filled task q) = rq_RequestedDBMS q" "rq_Exposure (catalog_filled task q) = rq_Exposure q"
  "rq_Actor (catalog_filled task q) = rq_Actor q" "rq_RequestDigest (catalog_filled task q) = rq_RequestDigest q"
  "rq_ViewBindingDigest (catalog_filled task q) = rq_ViewBindingDigest q"
  "check_view_binding (catalog_filled task q) s = check_view_binding q s"
  by (simp_all add: catalog_filled_def)

lemma reserve_checked_cases:
  obtains (refused) err where "reserve_checked E c q s = (Inl err, s)"
  | (archived) reason kind i where "reserve_checked E c q s = archive_and_fail E c (rq_TaskID q) reason kind (now c i) s"
  | (reserved) before r s' where "reserve_checked E c q s = (Inr r, s')" "check_view_binding q s = None"
      "budget_row (rq_TaskID q) s = Some before" "use_ReservedQueries (bud_Usage before) = 0"
      "1 \<le> lim_Queries (BudgetSnapshot_Remaining before)" "1 \<le> lim_Rows (BudgetSnapshot_Remaining before)"
      "1 \<le> lim_DBMS (BudgetSnapshot_Remaining before)" "reserve_tx E c q before (now c 3) s = Inr (r, s')"
proof (cases "check_view_binding q s")
  case (Some err)
  then show ?thesis by (intro refused) (simp add: reserve_checked_def)
next
  case view: None
  show ?thesis
  proof (cases "budget_row (rq_TaskID q) s")
    case None
    with view show ?thesis by (intro refused) (simp add: reserve_checked_def)
  next
    case row: (Some before)
    let ?r = "BudgetSnapshot_Remaining before"
    consider "use_ReservedQueries (bud_Usage before) \<noteq> 0"
      | "use_ReservedQueries (bud_Usage before) = 0" "lim_Queries ?r < 1 \<or> lim_Rows ?r < 1 \<or> lim_DBMS ?r < 1"
      | (free) "use_ReservedQueries (bud_Usage before) = 0" "1 \<le> lim_Queries ?r" "1 \<le> lim_Rows ?r" "1 \<le> lim_DBMS ?r"
      by linarith
    then show ?thesis
    proof cases
      case 1
      with view row show ?thesis by (intro refused) (simp add: reserve_checked_def)
    next
      case 2
      with view row show ?thesis by (intro archived) (simp add: reserve_checked_def)
    next
      case free
      then have eq: "reserve_checked E c q s = (case reserve_tx E c q before (now c 3) s of Inl err \<Rightarrow> (Inl err, s) | Inr (r, s') \<Rightarrow> (Inr r, s'))"
        using view row by (simp add: reserve_checked_def)
      show ?thesis
      proof (cases "reserve_tx E c q before (now c 3) s")
        case (Inl err)
        with eq show ?thesis by (intro refused) simp
      next
        case (Inr p)
        obtain r s' where "p = (r, s')" by (cases p)
        with eq Inr show ?thesis by (intro reserved [OF _ view row free]) simp_all
      qed
    qed
  qed
qed

lemma ReserveBudget_cases:
  obtains (refused) err where "ReserveBudget E c q s = (Inl err, s)"
  | (replay) record0 where "ReserveBudget E c q s = (Inr (replay_reservation record0), s)"
      "request_row (rq_TaskID q) (rq_RequestID q) s = Some record0"
  | (archived) reason kind i where "ReserveBudget E c q s = archive_and_fail E c (rq_TaskID q) reason kind (now c i) s"
  | (reserved) before task r s' where "ReserveBudget E c q s = (Inr r, s')" "admitted q before task c s"
      "reserve_tx E c (catalog_filled task q) before (now c 3) s = Inr (r, s')"
proof (cases "st_closed s \<or> reserve_evidence_missing q \<or> reserve_negative q \<or> select_row tk_ID (rq_TaskID q) (st_tasks s) = None")
  case True
  then consider "st_closed s" | "\<not> st_closed s" "reserve_evidence_missing q"
    | "\<not> st_closed s" "\<not> reserve_evidence_missing q" "reserve_negative q"
    | "\<not> st_closed s" "\<not> reserve_evidence_missing q" "\<not> reserve_negative q" "select_row tk_ID (rq_TaskID q) (st_tasks s) = None"
    by auto
  then show ?thesis by cases (rule refused, simp add: ReserveBudget_def checkOpen_def)+
next
  case go: False
  then obtain task where task: "select_row tk_ID (rq_TaskID q) (st_tasks s) = Some task" by auto
  show ?thesis
  proof (cases "request_row (rq_TaskID q) (rq_RequestID q) s")
    case (Some record0)
    with go task show ?thesis
      by (cases "qr_RequestDigest record0 \<noteq> rq_RequestDigest q \<or> qr_Actor record0 \<noteq> rq_Actor q \<or> qr_ViewBindingDigest record0 \<noteq> rq_ViewBindingDigest q")
        (auto simp: ReserveBudget_def checkOpen_def intro: refused replay)
  next
    case new: None
    let ?expired = "case tk_ExpiresAt task of None \<Rightarrow> False | Some expires \<Rightarrow> \<not> now c 0 < dbTime expires"
    consider "tk_State task \<noteq> TaskActive" | "tk_State task = TaskActive" "?expired"
      | "tk_State task = TaskActive" "\<not> ?expired" "rq_CatalogVersion q \<noteq> []" "rq_CatalogVersion q \<noteq> tk_CatalogVersion task"
      | (live) "tk_State task = TaskActive" "\<not> ?expired" "rq_CatalogVersion q = [] \<or> rq_CatalogVersion q = tk_CatalogVersion task"
      by blast
    then show ?thesis
    proof cases
      case live
      then have eq: "ReserveBudget E c q s = reserve_checked E c (catalog_filled task q) s"
        using go task new by (auto simp: ReserveBudget_def checkOpen_def)
      show ?thesis
      proof (rule reserve_checked_cases [of E c "catalog_filled task q" s])
        fix before r s'
        assume "reserve_checked E c (catalog_filled task q) s = (Inr r, s')" "check_view_binding (catalog_filled task q) s = None"
          "budget_row (rq_TaskID (catalog_filled task q)) s = Some before" "use_ReservedQueries (bud_Usage before) = 0"
          "1 \<le> lim_Queries (BudgetSnapshot_Remaining before)" "1 \<le> lim_Rows (BudgetSnapshot_Remaining before)"
          "1 \<le> lim_DBMS (BudgetSnapshot_Remaining before)"
          "reserve_tx E c (catalog_filled task q) before (now c 3) s = Inr (r, s')"
        then show ?thesis
          using go task new live eq by (intro reserved [of r s' before task]) (auto simp: admitted_def split: option.splits)
      qed (use eq in \<open>auto intro: refused archived\<close>)
    qed (use go task new in \<open>auto simp: ReserveBudget_def checkOpen_def intro: refused archived\<close>)
  qed
qed

lemma ReserveBudget_step: "store_step E s (snd (ReserveBudget E c q s))"
proof (rule ReserveBudget_cases [of E c q s])
  fix before task r s'
  assume "ReserveBudget E c q s = (Inr r, s')" and adm: "admitted q before task c s"
    and tx: "reserve_tx E c (catalog_filled task q) before (now c 3) s = Inr (r, s')"
  moreover have "store_step E s s'"
    using adm by (intro reserve_tx_step [OF tx]) (auto simp: admitted_def reserve_negative_def)
  ultimately show ?thesis by simp
qed (simp_all add: archive_and_fail_step)

subsection \<open>Recovery\<close>

lemma recovered_settles:
  assumes "record_ok r"
  shows "settles r (full_charge r) (recovered_record r after at)"
  using assms by (auto simp: settles_def charge_ok_def full_charge_def recovered_record_def record_ok_def request_key_def)

lemma recover_receipt_step: "recover_receipt E at builder q audit s = Inr s' \<Longrightarrow> store_step E s s'"
  unfolding recover_receipt_def by (auto split: option.splits sum.splits intro: persistTerminalReceipt_step)

lemma recover_query_Inr:
  assumes "recover_query E c at builder r s = Inr s'"
  obtains s1 before audit s2 s3 where "releaseAnyExposureReservationTx E c at (qr_ID r) s = Inr s1"
    "budget_row (qr_TaskID r) s1 = Some before"
    "appendAuditTx E c (recovered_event r at)
       (s1\<lparr>st_budgets := write_budget (after_settle before r (full_charge r) at) at (qr_TaskID r) (st_budgets s1),
           st_queries := write_record (qr_ID r) (recovered_record r (after_settle before r (full_charge r) at) at) (st_queries s1)\<rparr>) = Inr (audit, s2)"
    "recover_receipt E at builder (qr_ID r) audit s2 = Inr s3"
    "s' = s3 \<or> archiveTaskTx E c (qr_TaskID r) TerminalBudgetExhausted ''system'' at s3 = Inr s'"
  using assms unfolding recover_query_def Let_def by (auto split: option.splits if_splits sum.splits)

lemma recover_query_step:
  fixes s :: "'o Store"
  assumes "recover_query E c at builder r s = Inr s'" and r: "r \<in> set (st_queries s)" "qr_Status r = QueryReserved"
  shows "store_step E s s'"
  using assms(1)
proof (rule recover_query_Inr)
  fix s1 :: "'o Store" and before audit s2 s3
  let ?af = "after_settle before r (full_charge r) at"
  let ?s = "s1\<lparr>st_budgets := write_budget ?af at (qr_TaskID r) (st_budgets s1), st_queries := write_record (qr_ID r) (recovered_record r ?af at) (st_queries s1)\<rparr>"
  assume rel: "releaseAnyExposureReservationTx E c at (qr_ID r) s = Inr s1" and row: "budget_row (qr_TaskID r) s1 = Some before"
    and audit: "appendAuditTx E c (recovered_event r at) ?s = Inr (audit, s2)"
    and rc: "recover_receipt E at builder (qr_ID r) audit s2 = Inr s3"
    and arch: "s' = s3 \<or> archiveTaskTx E c (qr_TaskID r) TerminalBudgetExhausted ''system'' at s3 = Inr s'"
  have r1: "r \<in> set (st_queries s1)" using releaseAny_step [OF rel] r by (simp add: exposure_step_def core_same_def)
  have "store_step E s s1" using rel by (rule exposure_store_steps)
  also have "store_step E s1 ?s"
    by (rule write_settlement_step [OF r1 r(2) refl refl row refl refl])
      (use r1 in \<open>simp_all add: recovered_settles store_ok_def budgets_ok_def same_request_def recovered_record_def\<close>)
  also have "store_step E ?s s2" using audit by (rule append_store_step)
  also have "store_step E s2 s3" using rc by (rule recover_receipt_step)
  also have "store_step E s3 s'" using arch archiveTask_step by fastforce
  finally show ?thesis .
qed

text \<open>A recovered query is terminal; the other records stay.\<close>

lemma receipt_step_queries:
  "persistTerminalReceiptTx E at ev builder s = Inr (r, s') \<Longrightarrow> st_queries s' = st_queries s \<and> st_budgets s' = st_budgets s"
  unfolding persistTerminalReceiptTx_def saveQueryReceiptTx_def
  by (auto split: option.splits if_splits sum.splits)

lemma archive_queries:
  "archiveTaskTx E c t reason actor at s = Inr s' \<Longrightarrow> st_queries s' = st_queries s \<and> st_budgets s' = st_budgets s"
  unfolding archiveTaskTx_def Let_def by (auto split: if_splits sum.splits elim!: append_frame)

lemma recover_query_queries:
  fixes s :: "'o Store"
  assumes "recover_query E c at builder r s = Inr s'"
  shows "\<exists>after. st_queries s' = write_record (qr_ID r) (recovered_record r after at) (st_queries s)"
  using assms
proof (rule recover_query_Inr)
  fix s1 :: "'o Store" and before audit s2 s3
  let ?af = "after_settle before r (full_charge r) at"
  assume rel: "releaseAnyExposureReservationTx E c at (qr_ID r) s = Inr s1"
    and audit: "appendAuditTx E c (recovered_event r at) (s1\<lparr>st_budgets := write_budget ?af at (qr_TaskID r) (st_budgets s1),
      st_queries := write_record (qr_ID r) (recovered_record r ?af at) (st_queries s1)\<rparr>) = Inr (audit, s2)"
    and rc: "recover_receipt E at builder (qr_ID r) audit s2 = Inr s3"
    and arch: "s' = s3 \<or> archiveTaskTx E c (qr_TaskID r) TerminalBudgetExhausted ''system'' at s3 = Inr s'"
  have "st_queries s1 = st_queries s" using releaseAny_step [OF rel] by (simp add: exposure_step_def core_same_def)
  moreover have "st_queries s2 = write_record (qr_ID r) (recovered_record r ?af at) (st_queries s1)"
    using audit by (rule append_frame) simp
  moreover have "st_queries s3 = st_queries s2"
    using rc unfolding recover_receipt_def by (auto split: option.splits sum.splits dest: receipt_step_queries)
  moreover have "st_queries s' = st_queries s3" using arch archive_queries by fastforce
  ultimately show ?thesis by (intro exI [of _ ?af]) simp
qed

lemma in_flight_write:
  "filter (\<lambda>x. qr_Status x = QueryReserved) (write_record q (recovered_record r after at) qs) =
     filter (\<lambda>x. qr_Status x = QueryReserved \<and> qr_ID x \<noteq> q) qs"
  by (induction qs) (auto simp: write_record_def update_rows_def recovered_record_def)

lemma recover_query_rest:
  assumes "recover_query E c at builder r s = Inr s1" and "distinct (map qr_ID (r # rs))"
    and "\<forall>x\<in>set (r # rs). x \<in> set (st_queries s) \<and> qr_Status x = QueryReserved"
  shows "\<forall>x\<in>set rs. x \<in> set (st_queries s1) \<and> qr_Status x = QueryReserved"
proof
  obtain after where g: "st_queries s1 = write_record (qr_ID r) (recovered_record r after at) (st_queries s)"
    using recover_query_queries [OF assms(1)] by blast
  fix x assume x: "x \<in> set rs"
  with assms(3) have "x \<in> set (st_queries s)" "qr_Status x = QueryReserved" by simp_all
  moreover have "qr_ID x \<noteq> qr_ID r" using x assms(2) by (metis distinct.simps(2) image_eqI list.set_map list.simps(9))
  ultimately have "x \<in> set (filter (\<lambda>x. qr_Status x = QueryReserved) (st_queries s1))" unfolding g in_flight_write by simp
  then show "x \<in> set (st_queries s1) \<and> qr_Status x = QueryReserved" by simp
qed

lemma recover_queries_step:
  "recover_queries E c at builder rs s = Inr s' \<Longrightarrow> distinct (map qr_ID rs) \<Longrightarrow>
     (\<forall>r\<in>set rs. r \<in> set (st_queries s) \<and> qr_Status r = QueryReserved) \<Longrightarrow>
     store_step E s s' \<and> filter (\<lambda>x. qr_Status x = QueryReserved) (st_queries s') =
       filter (\<lambda>x. qr_Status x = QueryReserved \<and> qr_ID x \<notin> qr_ID ` set rs) (st_queries s)"
proof (induction rs arbitrary: s)
  case (Cons r rs)
  then obtain s1 where s1: "recover_query E c at builder r s = Inr s1" "recover_queries E c at builder rs s1 = Inr s'"
    by (auto split: sum.splits)
  obtain after where g: "st_queries s1 = write_record (qr_ID r) (recovered_record r after at) (st_queries s)"
    using recover_query_queries [OF s1(1)] by blast
  have rest: "\<forall>x\<in>set rs. x \<in> set (st_queries s1) \<and> qr_Status x = QueryReserved" using recover_query_rest [OF s1(1) Cons.prems(2,3)] .
  have first: "store_step E s s1" using recover_query_step [OF s1(1)] Cons.prems(3) by simp
  have tail: "store_step E s1 s'" "filter (\<lambda>x. qr_Status x = QueryReserved) (st_queries s') =
      filter (\<lambda>x. qr_Status x = QueryReserved \<and> qr_ID x \<notin> qr_ID ` set rs) (st_queries s1)"
    using Cons.IH [OF s1(2) _ rest] Cons.prems(2) by simp_all
  note tail(2)
  also have "filter (\<lambda>x. qr_Status x = QueryReserved \<and> qr_ID x \<notin> qr_ID ` set rs) (st_queries s1) =
      filter (\<lambda>x. qr_ID x \<notin> qr_ID ` set rs) (filter (\<lambda>x. qr_Status x = QueryReserved) (st_queries s1))"
    by (simp add: conj_commute)
  also have "\<dots> = filter (\<lambda>x. qr_Status x = QueryReserved \<and> qr_ID x \<notin> qr_ID ` set (r # rs)) (st_queries s)"
    unfolding g in_flight_write by (simp add: conj_ac)
  finally show ?case using store_step_trans [OF first tail(1)] by (rule conjI [rotated])
qed simp


lemma queries_le_terminal: "queries_le qs qs' \<Longrightarrow> r \<in> set qs \<Longrightarrow> qr_Status r \<noteq> QueryReserved \<Longrightarrow> r \<in> set qs'"
  by (force simp only: queries_le_def)

text \<open>Each of them is charged what it held.\<close>

lemma recover_query_charges:
  assumes "recover_query E c at builder r s = Inr s'" and r: "r \<in> set (st_queries s)" "qr_Status r = QueryReserved"
    and "distinct (map qr_ID (st_queries s))"
  shows "\<exists>r'\<in>set (st_queries s'). same_request r r' \<and> fully_charged r'"
proof -
  obtain after where "st_queries s' = write_record (qr_ID r) (recovered_record r after at) (st_queries s)"
    using recover_query_queries [OF assms(1)] by blast
  then have "recovered_record r after at r \<in> set (st_queries s')" using set_write_record [OF assms(4) r] by simp
  then show ?thesis
    by (intro bexI [of _ "recovered_record r after at r"]) (simp_all add: recovered_record_def same_request_def fully_charged_def)
qed

lemma recover_queries_charges:
  "recover_queries E c at builder rs s = Inr s' \<Longrightarrow> distinct (map qr_ID rs) \<Longrightarrow>
     (\<forall>r\<in>set rs. r \<in> set (st_queries s) \<and> qr_Status r = QueryReserved) \<Longrightarrow> store_ok s \<Longrightarrow>
     \<forall>r\<in>set rs. \<exists>r'\<in>set (st_queries s'). same_request r r' \<and> fully_charged r'"
proof (induction rs arbitrary: s)
  case (Cons r rs)
  then obtain s1 where s1: "recover_query E c at builder r s = Inr s1" "recover_queries E c at builder rs s1 = Inr s'"
    by (auto split: sum.splits)
  have r: "r \<in> set (st_queries s)" "qr_Status r = QueryReserved" using Cons.prems(3) by simp_all
  have ids: "distinct (map qr_ID (st_queries s))" using Cons.prems(4) by (simp add: store_ok_def budgets_ok_def)
  have rest: "\<forall>x\<in>set rs. x \<in> set (st_queries s1) \<and> qr_Status x = QueryReserved" using recover_query_rest [OF s1(1) Cons.prems(2,3)] .
  have ok1: "store_ok s1" using recover_query_step [OF s1(1) r] Cons.prems(4) by (simp add: store_step_def)
  have "store_le s1 s'" using recover_queries_step [OF s1(2) _ rest] Cons.prems(2) ok1 by (simp add: store_step_def)
  then have le: "queries_le (st_queries s1) (st_queries s')" by (simp only: store_le_def)
  have later: "x \<in> set (st_queries s')" if "x \<in> set (st_queries s1)" "fully_charged x" for x
    by (rule queries_le_terminal [OF le that(1)]) (use that(2) in \<open>simp add: fully_charged_def\<close>)
  obtain r' where "r' \<in> set (st_queries s1)" "same_request r r'" "fully_charged r'" using recover_query_charges [OF s1(1) r ids] by blast
  moreover have "\<forall>x\<in>set rs. \<exists>r'\<in>set (st_queries s'). same_request x r' \<and> fully_charged r'"
    using Cons.IH [OF s1(2) _ rest ok1] Cons.prems(2) by simp
  ultimately show ?case using later by (simp only: list.set ball_simps) blast
qed simp

lemma expire_tasks_step:
  "expire_tasks E c at ts s = Inr s' \<Longrightarrow> store_step E s s' \<and> st_queries s' = st_queries s \<and> st_budgets s' = st_budgets s"
proof (induction ts arbitrary: s)
  case (Cons t ts)
  then obtain s1 where s1: "archiveTaskTx E c (tk_ID t) TerminalExpired ''system'' at s = Inr s1" "expire_tasks E c at ts s1 = Inr s'"
    by (auto split: sum.splits)
  have "store_step E s s'" using archiveTask_step [OF s1(1)] Cons.IH [OF s1(2)] by (blast intro: store_step_trans)
  then show ?case using archive_queries [OF s1(1)] Cons.IH [OF s1(2)] by simp
qed simp

lemma recover_callbacks_step:
  assumes "recover_callbacks E c at s = Inr (n, s')"
  shows "store_step E s s' \<and> st_queries s' = st_queries s \<and> st_budgets s' = st_budgets s"
proof -
  let ?s = "s\<lparr>st_callbacks := update_rows (\<lambda>r. cb_Status r = CallbackProcessing)
    (\<lambda>r. r\<lparr>cb_Status := CallbackRetryable, cb_LastError := ''gateway_restart'', cb_CompletedAt := None\<rparr>) (st_callbacks s)\<rparr>"
  have first: "store_step E s ?s" by (rule update_callbacks_step) simp_all
  have "s' = ?s \<or> (\<exists>ev e. appendAuditTx E c ev ?s = Inr (e, s'))"
    using assms unfolding recover_callbacks_def Let_def by (auto split: if_splits sum.splits)
  then show ?thesis
  proof
    assume "\<exists>ev e. appendAuditTx E c ev ?s = Inr (e, s')"
    then obtain ev e where app: "appendAuditTx E c ev ?s = Inr (e, s')" by blast
    then have "store_step E ?s s'" by (rule append_store_step)
    moreover from app have "st_queries s' = st_queries ?s \<and> st_budgets s' = st_budgets ?s" by (rule append_frame) simp
    ultimately show ?thesis using first store_step_trans by fastforce
  qed (use first in simp)
qed

lemma interrupted_queries_rows:
  assumes "distinct (map qr_ID (st_queries s))"
  shows "distinct (map qr_ID (interrupted_queries E s))"
    "\<forall>r\<in>set (interrupted_queries E s). r \<in> set (st_queries s) \<and> qr_Status r = QueryReserved"
  using assms by (simp_all add: interrupted_queries_def distinct_map_filter)

lemma recover_tx_Inr:
  assumes "recover_tx E c at builder s = Inr (report, s')"
  obtains s1 s2 where "recover_queries E c at builder (interrupted_queries E s) s = Inr s1" "store_step E s1 s2" "store_step E s2 s'"
    "st_queries s' = st_queries s1"
proof -
  obtain s1 s2 n where s1: "recover_queries E c at builder (interrupted_queries E s) s = Inr s1"
    and s2: "expire_tasks E c at (expiring_tasks E at s1) s1 = Inr s2" and s3: "recover_callbacks E c at s2 = Inr (n, s')"
    using assms unfolding recover_tx_def by (auto split: sum.splits prod.splits)
  show thesis
    by (rule that [OF s1, of s2]) (use expire_tasks_step [OF s2] recover_callbacks_step [OF s3] in simp_all)
qed

lemma recover_tx_step:
  assumes "recover_tx E c at builder s = Inr (report, s')" and ok: "distinct (map qr_ID (st_queries s))"
  shows "store_step E s s' \<and> filter (\<lambda>x. qr_Status x = QueryReserved) (st_queries s') = []"
  using assms(1)
proof (rule recover_tx_Inr)
  let ?rs = "interrupted_queries E s"
  fix s1 s2 assume s1: "recover_queries E c at builder ?rs s = Inr s1"
    and steps: "store_step E s1 s2" "store_step E s2 s'" and qs: "st_queries s' = st_queries s1"
  from recover_queries_step [OF s1 interrupted_queries_rows [OF ok]]
  have first: "store_step E s s1" "filter (\<lambda>x. qr_Status x = QueryReserved) (st_queries s1) =
      filter (\<lambda>x. qr_Status x = QueryReserved \<and> qr_ID x \<notin> qr_ID ` set ?rs) (st_queries s)"
    by blast+
  have none: "filter (\<lambda>x. qr_Status x = QueryReserved \<and> qr_ID x \<notin> qr_ID ` set ?rs) (st_queries s) = []"
  proof -
    have "qr_ID x \<in> qr_ID ` set ?rs" if "x \<in> set (st_queries s)" "qr_Status x = QueryReserved" for x
      by (rule imageI) (use that in \<open>simp add: interrupted_queries_def\<close>)
    then show ?thesis by (simp only: filter_empty_conv) blast
  qed
  show ?thesis using qs first(2) none store_step_trans [OF first(1)] store_step_trans [OF steps] by (simp only: simp_thms)
qed

lemma recover_tx_charges:
  assumes "recover_tx E c at builder s = Inr (report, s')" and "store_ok s" and r: "r \<in> set (st_queries s)" "qr_Status r = QueryReserved"
  shows "\<exists>r'\<in>set (st_queries s'). same_request r r' \<and> fully_charged r'"
  using assms(1)
proof (rule recover_tx_Inr)
  fix s1 s2 assume s1: "recover_queries E c at builder (interrupted_queries E s) s = Inr s1" and qs: "st_queries s' = st_queries s1"
  have "distinct (map qr_ID (st_queries s))" using assms(2) by (simp add: store_ok_def budgets_ok_def)
  note recover_queries_charges [OF s1 interrupted_queries_rows [OF this] assms(2)]
  moreover have "r \<in> set (interrupted_queries E s)" using r by (simp add: interrupted_queries_def)
  ultimately show ?thesis unfolding qs by (rule bspec)
qed

lemma recover_step: "store_step E s (snd (recover E c builder s))"
proof (cases "store_ok s")
  case True
  then have "distinct (map qr_ID (st_queries s))" by (simp add: store_ok_def budgets_ok_def)
  then show ?thesis unfolding recover_def by (auto split: option.splits sum.splits prod.splits dest: recover_tx_step)
qed (simp add: store_step_def)

subsection \<open>Principals, tasks, grants and view bindings\<close>

lemma step_then_append: "appendAuditTx E c ev s1 = Inr (e, s') \<Longrightarrow> store_step E s s1 \<Longrightarrow> store_step E s s'"
  by (rule store_step_trans [OF _ append_store_step])

text \<open>Rules that follow the branches of an operation down to the stores it returns.\<close>

lemma step_rules:
  "store_step E s s' \<Longrightarrow> store_step E s (snd (result, s'))"
  "(P \<Longrightarrow> store_step E s (snd x)) \<Longrightarrow> (\<not> P \<Longrightarrow> store_step E s (snd y)) \<Longrightarrow> store_step E s (snd (if P then x else y))"
  "(opt = None \<Longrightarrow> store_step E s (snd x)) \<Longrightarrow> (\<And>v. opt = Some v \<Longrightarrow> store_step E s (snd (f v))) \<Longrightarrow>
     store_step E s (snd (case opt of None \<Rightarrow> x | Some v \<Rightarrow> f v))"
  "(\<And>err. r = Inl err \<Longrightarrow> store_step E s (snd (g err))) \<Longrightarrow> (\<And>v. r = Inr v \<Longrightarrow> store_step E s (snd (h v))) \<Longrightarrow>
     store_step E s (snd (case r of Inl err \<Rightarrow> g err | Inr v \<Rightarrow> h v))"
  "(\<And>a b. p = (a, b) \<Longrightarrow> store_step E s (snd (k a b))) \<Longrightarrow> store_step E s (snd (case p of (a, b) \<Rightarrow> k a b))"
  "(\<And>x. x = v \<Longrightarrow> store_step E s (snd (l x))) \<Longrightarrow> store_step E s (snd (let x = v in l x))"
  by (auto split: option.split sum.split prod.split)

text \<open>The tables that the invariant does not mention.\<close>

lemma other_tables_step:
  "store_step E s (s\<lparr>st_principals := ps\<rparr>)" "store_step E s (s\<lparr>st_approvals := as\<rparr>)" "store_step E s (s\<lparr>st_view_status := vs\<rparr>)"
  "store_step E s (s\<lparr>st_view_sets := ws, st_view_dependencies := ds, st_view_status := vs\<rparr>)" "store_step E s (s\<lparr>st_closed := cl\<rparr>)"
  by (rule store_stepI; simp add: store_ok_def store_le_def)+

lemma CreatePrincipal_step: "store_step E s (snd (CreatePrincipal E c p s))"
  unfolding CreatePrincipal_def Let_def
  by (auto split: option.splits if_splits sum.splits prod.splits intro: step_then_append other_tables_step)

lemma DisablePrincipal_step: "store_step E s (snd (DisablePrincipal c p at s))"
  unfolding DisablePrincipal_def Let_def by (auto split: option.splits intro: other_tables_step)

lemma RecordApprovalEvent_step: "store_step E s (snd (RecordApprovalEvent E c a s))"
  unfolding RecordApprovalEvent_def Let_def
  by (auto split: option.splits if_splits sum.splits prod.splits intro: step_then_append other_tables_step)

lemma MarkTaskViewSemanticChanged_step: "store_step E s (snd (MarkTaskViewSemanticChanged E c t d s))"
  unfolding MarkTaskViewSemanticChanged_def Let_def
  by (auto split: option.splits if_splits sum.splits prod.splits intro: step_then_append other_tables_step)

lemma AppendAuditEvent_step: "store_step E s (snd (AppendAuditEvent E c e s))"
  unfolding AppendAuditEvent_def Let_def
  by (auto split: option.splits sum.splits prod.splits intro: append_store_step)

lemma SaveQueryReceipt_step: "store_step E s (snd (SaveQueryReceipt E c q s))"
  unfolding SaveQueryReceipt_def by (auto split: option.splits sum.splits prod.splits intro: saveQueryReceipt_step)

lemma insert_task_step:
  assumes "insert_task t s = Inr rows"
  shows "store_step E s (s\<lparr>st_tasks := rows\<rparr>)"
proof -
  have "tk_ID t \<notin> tk_ID ` set (st_tasks s)" "rows = st_tasks s @ [t]"
    using assms by (auto simp: insert_task_def split: if_splits)
  moreover have "tasks_le ts (ts @ [t])" for ts unfolding tasks_le_def by (metis Un_iff set_append)
  ultimately show ?thesis by (intro store_stepI) (auto simp: store_ok_def store_le_def)
qed

lemma CreateTask_step: "store_step E s (snd (CreateTask E c t s))"
  unfolding CreateTask_def
  by (intro step_rules; hypsubst?; (rule store_step_refl | (erule step_then_append, erule insert_task_step)))

text \<open>A task that may still change is not archived.\<close>

lemma unarchived_rows:
  assumes "store_ok s" and "select_row tk_ID i (st_tasks s) = Some t" and "allowedTransition (tk_State t) target reason"
  shows "\<forall>y\<in>set (st_tasks s). tk_ID y = i \<longrightarrow> tk_State y \<noteq> TaskArchived"
proof -
  have "select_row tk_ID (tk_ID y) (st_tasks s) = Some y" if "y \<in> set (st_tasks s)" for y
    using that assms(1) by (intro select_row_unique) (simp_all add: store_ok_def)
  then have "y = t" if "y \<in> set (st_tasks s)" "tk_ID y = i" for y using that assms(2) by force
  moreover have "tk_State t \<noteq> TaskArchived" using assms(3) by (auto simp: allowedTransition_def)
  ultimately show ?thesis by blast
qed

lemma TransitionTask_step: "store_step E s (snd (TransitionTask E c change s))"
proof -
  have upd: "store_step E s (s\<lparr>st_tasks := update_rows (\<lambda>t. tk_ID t = tt_TaskID change)
      (\<lambda>t. t\<lparr>tk_State := tt_To change, tk_TerminalReason := tt_Reason change, tk_UpdatedAt := u, tk_ExpiresAt := x\<rparr>) (st_tasks s)\<rparr>)"
    if row: "select_row tk_ID (tt_TaskID change) (st_tasks s) = Some t" and allowed: "allowedTransition (tk_State t) (tt_To change) (tt_Reason change)" for t u x
    by (rule update_tasks_step) (simp, rule unarchived_rows [OF _ row allowed])
  show ?thesis
    unfolding TransitionTask_def Let_def
    by (auto simp: scanTask_def scanned_task_def split: option.splits if_splits sum.splits prod.splits intro: step_then_append upd)
qed

lemma ensureExposureLedger_store_step:
  assumes "ensureExposureLedgerTx E t g at s = Inr s'" and "st_events s' = st_events s" and "st_head s' = st_head s"
  shows "store_step E s s'"
proof -
  note e = ensureExposureLedgerTx_step [OF assms(1)]
  have "store_ok s'" if "store_ok s"
    using that conjunct1 [OF e] e unfolding store_ok_def core_same_def by (metis (no_types))
  moreover have "store_le s s'" using e by (simp add: store_le_def core_same_def)
  ultimately show ?thesis using assms(2,3) by (intro store_stepI)
qed

lemma ensureExposureLedger_events:
  "ensureExposureLedgerTx E t g at s = Inr s' \<Longrightarrow> st_events s' = st_events s \<and> st_head s' = st_head s"
  unfolding ensureExposureLedgerTx_def Let_def by (auto split: option.splits if_splits sum.splits)

lemma insert_grant_step:
  assumes "insert_row tg_TaskID g (st_grants s) = Inr rows"
  shows "store_step E s (s\<lparr>st_grants := rows\<rparr>)"
  using assms by (intro store_stepI) (auto simp: store_ok_def store_le_def grants_ok_def)

lemma task_sum_none: "(\<And>r. r \<in> set rows \<Longrightarrow> qr_TaskID r \<noteq> t) \<Longrightarrow> task_sum f t rows = 0"
  by (induction rows) auto

lemma insert_budget_step:
  assumes ins: "insert_row bud_TaskID (budget_of_grant g) (st_budgets s) = Inr rows"
    and g: "\<exists>g'\<in>set (st_grants s). tg_TaskID g' = tg_TaskID g \<and> tg_Budget g' = tg_Budget g"
    and pos: "0 < lim_Queries (tg_Budget g)" "0 < lim_Rows (tg_Budget g)" "0 < lim_DBMS (tg_Budget g)" and lim: "valid_limits (tg_Budget g)"
  shows "store_step E s (s\<lparr>st_budgets := rows\<rparr>)"
proof (rule store_stepI)
  assume ok: "store_ok s"
  have new: "tg_TaskID g \<notin> bud_TaskID ` set (st_budgets s)" and rows: "rows = st_budgets s @ [budget_of_grant g]"
    using ins by (auto simp: budget_of_grant_def)
  have bok: "budgets_ok (st_budgets s) (st_queries s)" using ok by (simp add: store_ok_def)
  then have "qr_TaskID r \<noteq> tg_TaskID g" if "r \<in> set (st_queries s)" for r using new that by (metis budgets_ok_def)
  then have "bud_Usage (budget_of_grant g) = usage_of (tg_TaskID g) (st_queries s)"
    by (simp add: usage_of_def task_sum_none budget_of_grant_def)
  moreover have "within_limits (budget_of_grant g)"
    using pos lim by (simp add: within_limits_def budget_of_grant_def valid_limits_def in_int64_def int64_max_def)
  moreover have "bud_TaskID (budget_of_grant g) = tg_TaskID g" by (simp add: budget_of_grant_def)
  ultimately have "budgets_ok rows (st_queries s)"
    using bok new unfolding rows budgets_ok_def by auto
  moreover have "grants_ok (st_grants s) rows"
    using ok g unfolding rows by (auto simp: store_ok_def grants_ok_def budget_of_grant_def)
  ultimately show "store_ok (s\<lparr>st_budgets := rows\<rparr>)" using ok by (simp add: store_ok_def)
qed (simp_all add: store_le_def)

lemma insertTaskViewBinding_Inr:
  "insertTaskViewBindingTx t b at s = Inr s' \<Longrightarrow>
     \<exists>ws ds vs. s' = s\<lparr>st_view_sets := ws, st_view_dependencies := ds, st_view_status := vs\<rparr>"
  unfolding insertTaskViewBindingTx_def by (auto split: sum.splits)

lemma insertGrantAndBudget_step:
  assumes "insertGrantAndBudget E g scope s = Inr s'" and "0 < lim_Queries (tg_Budget g)" "0 < lim_Rows (tg_Budget g)" "0 < lim_DBMS (tg_Budget g)"
    and "valid_limits (tg_Budget g)"
  shows "store_step E s s'"
proof -
  obtain grants s1 budgets where grants: "insert_row tg_TaskID (grant_row g scope) (st_grants s) = Inr grants"
    and s1: "(case tg_ViewBindingSet g of None \<Rightarrow> Inr (s\<lparr>st_grants := grants\<rparr>)
       | Some binding \<Rightarrow> insertTaskViewBindingTx (tg_TaskID g) binding (dbTime (tg_CreatedAt g)) (s\<lparr>st_grants := grants\<rparr>)) = Inr s1"
    and budgets: "insert_row bud_TaskID (budget_of_grant g) (st_budgets s1) = Inr budgets"
    and ledger: "ensureExposureLedgerTx E (tg_TaskID g) (tg_Exposure g) (tg_CreatedAt g) (s1\<lparr>st_budgets := budgets\<rparr>) = Inr s'"
    using assms(1) unfolding insertGrantAndBudget_def by (auto split: sum.splits)
  have s1': "s1 = s\<lparr>st_grants := grants\<rparr> \<or> (\<exists>ws ds vs. s1 = s\<lparr>st_grants := grants\<rparr>\<lparr>st_view_sets := ws, st_view_dependencies := ds, st_view_status := vs\<rparr>)"
  proof (cases "tg_ViewBindingSet g")
    case (Some binding)
    with s1 have "insertTaskViewBindingTx (tg_TaskID g) binding (dbTime (tg_CreatedAt g)) (s\<lparr>st_grants := grants\<rparr>) = Inr s1" by simp
    from insertTaskViewBinding_Inr [OF this] show ?thesis ..
  qed (use s1 in simp)
  have "grants = st_grants s @ [grant_row g scope]" using grants by simp
  then have row: "\<exists>g'\<in>set (st_grants s1). tg_TaskID g' = tg_TaskID g \<and> tg_Budget g' = tg_Budget g"
    using s1' by (auto simp: grant_row_def)
  have "store_step E s (s\<lparr>st_grants := grants\<rparr>)" using grants by (rule insert_grant_step)
  also have "store_step E (s\<lparr>st_grants := grants\<rparr>) s1" using s1' other_tables_step(4) store_step_refl by metis
  also have "store_step E s1 (s1\<lparr>st_budgets := budgets\<rparr>)" by (rule insert_budget_step [OF budgets row assms(2-5)])
  also have "store_step E (s1\<lparr>st_budgets := budgets\<rparr>) s'"
    using ensureExposureLedger_store_step [OF ledger] ensureExposureLedger_events [OF ledger] by simp
  finally show ?thesis .
qed

lemma put_rows_step:
  assumes "(case ce_jsonb E scope of None \<Rightarrow> Inl DatabaseError | Some stored \<Rightarrow> insertGrantAndBudget E g' stored s) = Inr s1"
    and "g' = (if IsZero (tg_CreatedAt g) then g\<lparr>tg_CreatedAt := created\<rparr> else g)" and "valid_limits (tg_Budget g)"
    and "\<not> (lim_Queries (tg_Budget g) \<le> 0 \<or> lim_Rows (tg_Budget g) \<le> 0 \<or> lim_DBMS (tg_Budget g) \<le> 0)"
  shows "store_step E s s1"
proof -
  obtain stored where "insertGrantAndBudget E g' stored s = Inr s1" using assms(1) by (auto split: option.splits)
  moreover have "tg_Budget g' = tg_Budget g" using assms(2) by simp
  ultimately show ?thesis using assms(3,4) insertGrantAndBudget_step [of E g' stored s s1] by simp
qed

lemma PutGrant_step:
  assumes "valid_limits (tg_Budget g)"
  shows "store_step E s (snd (PutGrant E c g s))"
  unfolding PutGrant_def
  by (intro step_rules; (rule store_step_refl)?;
      (rule step_then_append, (simp; fail), rule put_rows_step, assumption, assumption, rule assms, assumption))

subsection \<open>Callbacks\<close>

lemma claimCallback_step:
  assumes "claimCallbackTx eventID h at s = Inr (claim, s')"
  shows "store_step E s s'"
proof (cases "select_row cb_EventID eventID (st_callbacks s)")
  case None
  then have new: "eventID \<notin> cb_EventID ` set (st_callbacks s)" by (simp add: select_row_None)
  have s': "s' = s\<lparr>st_callbacks := st_callbacks s @ [claimed_row eventID h at]\<rparr>" using assms None by (simp add: claimCallbackTx_def)
  have "callbacks_le rows (rows @ [r])" for rows r by (simp add: callbacks_le_def)
  then show ?thesis
    unfolding s' using new by (intro store_stepI) (simp_all add: store_ok_def store_le_def claimed_row_def)
next
  case (Some r)
  then have "s' = s \<or> s' = s\<lparr>st_callbacks := reclaim_rows eventID at (st_callbacks s)\<rparr>"
    using assms by (auto simp: claimCallbackTx_def split: if_splits)
  then show ?thesis unfolding reclaim_rows_def by (auto intro: update_callbacks_step)
qed

lemma completeCallback_step: "completeCallbackTx eventID response at s = Inr s' \<Longrightarrow> store_step E s s'"
  by (auto simp: completeCallbackTx_def Let_def split: if_splits intro!: update_callbacks_step)

lemma ClaimCallback_step: "store_step E s (snd (ClaimCallback E c i payload s))"
  unfolding ClaimCallback_def
  by (auto split: option.splits sum.splits prod.splits intro: claimCallback_step step_then_append)

lemma CompleteCallback_step: "store_step E s (snd (CompleteCallback E c i payload response s))"
  unfolding CompleteCallback_def
  by (auto split: option.splits sum.splits prod.splits intro: completeCallback_step step_then_append)

lemma FailCallback_step: "store_step E s (snd (FailCallback E i payload failure s))"
  unfolding FailCallback_def Let_def by (auto split: option.splits intro!: update_callbacks_step)

lemma apply_grant_step:
  assumes "apply_grant E at grant s = Inr s'" and "\<forall>g. grant = Some g \<longrightarrow> valid_limits (tg_Budget g)"
  shows "store_step E s s'"
proof (cases grant)
  case None
  with assms(1) show ?thesis by (simp add: apply_grant_def)
next
  case (Some g)
  define g' where "g' = (if IsZero (tg_CreatedAt g) then g\<lparr>tg_CreatedAt := at\<rparr> else g)"
  have b: "tg_Budget g' = tg_Budget g" by (simp add: g'_def)
  obtain stored where "insertGrantAndBudget E g' stored s = Inr s'"
    and "0 < lim_Queries (tg_Budget g')" "0 < lim_Rows (tg_Budget g')" "0 < lim_DBMS (tg_Budget g')"
    using assms(1) unfolding Some apply_grant_def option.case Let_def g'_def [symmetric]
    by (auto split: if_splits option.splits sum.splits)
  then show ?thesis using assms(2) Some b by (intro insertGrantAndBudget_step [of E g' stored s s']) simp_all
qed

lemma insertGrantAndBudget_tasks: "insertGrantAndBudget E g scope s = Inr s' \<Longrightarrow> st_tasks s' = st_tasks s"
  unfolding insertGrantAndBudget_def
  by (auto split: sum.splits option.splits dest!: ensureExposureLedgerTx_step insertTaskViewBinding_Inr simp: core_same_def)

lemma apply_grant_tasks: "apply_grant E at grant s = Inr s' \<Longrightarrow> st_tasks s' = st_tasks s"
  unfolding apply_grant_def Let_def
  by (auto split: if_splits option.splits sum.splits dest: insertGrantAndBudget_tasks)

lemma apply_decision_Inr:
  assumes "apply_decision E c cb payload s = Inr s'"
  obtains t approvals s1 e s2 where "select_row tk_ID (ap_TaskID (ac_Event cb)) (st_tasks s) = Some t"
    "allowedTransition (tk_State t) (ac_NewState cb) (ac_Reason cb)"
    "apply_grant E (now c 0) (ac_Grant cb) (s\<lparr>st_approvals := approvals\<rparr>) = Inr s1"
    "appendAuditTx E c (audit_event (ap_TaskID (ac_Event cb)) [] (ap_Actor (ac_Event cb)) ''APPROVAL_CALLBACK_APPLIED''
       (approvalCallbackAuditPayload cb (tk_State t)) (now c 0)) (s1\<lparr>st_tasks := decided_tasks cb (now c 0) (st_tasks s1)\<rparr>) = Inr (e, s2)"
    "completeCallbackTx (ac_EventID cb) (ac_Response cb) (now c 0) s2 = Inr s'"
  using assms unfolding apply_decision_def by (auto split: option.splits if_splits sum.splits)

lemma apply_decision_step:
  assumes "apply_decision E c cb payload s = Inr s'" and "\<forall>g. ac_Grant cb = Some g \<longrightarrow> valid_limits (tg_Budget g)"
  shows "store_step E s s'"
  using assms(1)
proof (rule apply_decision_Inr)
  fix t approvals s1 e s2
  assume t: "select_row tk_ID (ap_TaskID (ac_Event cb)) (st_tasks s) = Some t" "allowedTransition (tk_State t) (ac_NewState cb) (ac_Reason cb)"
    and s1: "apply_grant E (now c 0) (ac_Grant cb) (s\<lparr>st_approvals := approvals\<rparr>) = Inr s1"
    and s2: "appendAuditTx E c (audit_event (ap_TaskID (ac_Event cb)) [] (ap_Actor (ac_Event cb)) ''APPROVAL_CALLBACK_APPLIED''
       (approvalCallbackAuditPayload cb (tk_State t)) (now c 0)) (s1\<lparr>st_tasks := decided_tasks cb (now c 0) (st_tasks s1)\<rparr>) = Inr (e, s2)"
    and s3: "completeCallbackTx (ac_EventID cb) (ac_Response cb) (now c 0) s2 = Inr s'"
  have tasks: "st_tasks s1 = st_tasks s" using apply_grant_tasks [OF s1] by simp
  have "store_step E s (s\<lparr>st_approvals := approvals\<rparr>)" by (rule other_tables_step)
  also have "store_step E (s\<lparr>st_approvals := approvals\<rparr>) s1" using s1 assms(2) by (rule apply_grant_step)
  also have "store_step E s1 (s1\<lparr>st_tasks := decided_tasks cb (now c 0) (st_tasks s1)\<rparr>)"
    unfolding decided_tasks_def by (rule update_tasks_step) (simp, rule unarchived_rows [OF _ t(1) [folded tasks] t(2)])
  also have "store_step E (s1\<lparr>st_tasks := decided_tasks cb (now c 0) (st_tasks s1)\<rparr>) s2" using s2 by (rule append_store_step)
  also have "store_step E s2 s'" using s3 by (rule completeCallback_step)
  finally show ?thesis .
qed

lemma ApplyApprovalCallback_cases:
  obtains (refused) err where "ApplyApprovalCallback E c cb s = (Inl err, s)"
  | (replay) payload claim s' where "ApplyApprovalCallback E c cb s = (Inr claim, s')" "check_approval cb = None"
      "normalizeJSON E (ap_Payload (ac_Event cb)) ''{}'' = Some payload"
      "claimCallbackTx (ac_EventID cb) (callbackPayloadHash E (ac_RawPayload cb)) (now c 0) s = Inr (claim, s')" "cc_Replay claim"
  | (applied) payload claim s1 s' where
      "ApplyApprovalCallback E c cb s = (Inr (claim\<lparr>cc_Status := CallbackCompleted, cc_Response := ac_Response cb\<rparr>), s')"
      "check_approval cb = None" "normalizeJSON E (ap_Payload (ac_Event cb)) ''{}'' = Some payload"
      "claimCallbackTx (ac_EventID cb) (callbackPayloadHash E (ac_RawPayload cb)) (now c 0) s = Inr (claim, s1)" "\<not> cc_Replay claim"
      "apply_decision E c cb payload s1 = Inr s'"
proof (cases "st_closed s \<or> check_approval cb \<noteq> None \<or> normalizeJSON E (ap_Payload (ac_Event cb)) ''{}'' = None")
  case True
  then have "\<exists>err. ApplyApprovalCallback E c cb s = (Inl err, s)" by (auto simp: ApplyApprovalCallback_def checkOpen_def split: option.split)
  then show thesis using refused by blast
next
  case False
  then obtain payload where go: "\<not> st_closed s" "check_approval cb = None" "normalizeJSON E (ap_Payload (ac_Event cb)) ''{}'' = Some payload" by auto
  show thesis
  proof (cases "claimCallbackTx (ac_EventID cb) (callbackPayloadHash E (ac_RawPayload cb)) (now c 0) s")
    case (Inl err)
    with go show thesis by (intro refused) (simp add: ApplyApprovalCallback_def checkOpen_def)
  next
    case (Inr p)
    obtain claim s1 where p: "p = (claim, s1)" by (cases p)
    have eq: "ApplyApprovalCallback E c cb s = (if cc_Replay claim then (Inr claim, s1)
      else case apply_decision E c cb payload s1 of Inl err \<Rightarrow> (Inl err, s)
        | Inr s2 \<Rightarrow> (Inr (claim\<lparr>cc_Status := CallbackCompleted, cc_Response := ac_Response cb\<rparr>), s2))"
      using go Inr p by (simp add: ApplyApprovalCallback_def checkOpen_def)
    show thesis
    proof (cases "cc_Replay claim")
      case True
      with eq show thesis by (intro replay [OF _ go(2,3) Inr [unfolded p]]) simp_all
    next
      case new: False
      show thesis
      proof (cases "apply_decision E c cb payload s1")
        case (Inl err)
        with eq new show thesis by (intro refused) simp
      next
        case fin: (Inr s2)
        with eq new show thesis by (intro applied [OF _ go(2,3) Inr [unfolded p] new fin]) simp
      qed
    qed
  qed
qed

lemma ApplyApprovalCallback_step:
  assumes "\<forall>g. ac_Grant cb = Some g \<longrightarrow> valid_limits (tg_Budget g)"
  shows "store_step E s (snd (ApplyApprovalCallback E c cb s))"
proof (rule ApplyApprovalCallback_cases [of E c cb s])
  fix payload claim s1 s'
  assume "ApplyApprovalCallback E c cb s = (Inr (claim\<lparr>cc_Status := CallbackCompleted, cc_Response := ac_Response cb\<rparr>), s')"
    "claimCallbackTx (ac_EventID cb) (callbackPayloadHash E (ac_RawPayload cb)) (now c 0) s = Inr (claim, s1)" "apply_decision E c cb payload s1 = Inr s'"
  then show ?thesis using store_step_trans [OF claimCallback_step apply_decision_step [OF _ assms]] by simp
qed (auto intro: claimCallback_step)

end
