(* ===== verification/Control_System.thy ===== *)
theory Control_System
  imports Control_Steps
begin

text \<open>
  The control store as a transition system: one step is one exported operation of the package
  \<open>internal/control\<close>, committed or rolled back. The locale states once what such a system
  gives for its runs; it is interpreted on the operations, so that the properties below hold of every
  store that a sequence of calls can produce from an empty database.
\<close>

section \<open>Definitions\<close>

text \<open>The database after the migrations: no rows, and the head of the audit chain at genesis.\<close>

definition initial :: "'o Store \<Rightarrow> bool" where
  "initial s \<longleftrightarrow> st_tasks s = [] \<and> st_grants s = [] \<and> st_budgets s = [] \<and> st_queries s = [] \<and> st_ledgers s = [] \<and>
     st_reservations s = [] \<and> st_facts s = [] \<and> st_links s = [] \<and> st_receipts s = [] \<and> st_callbacks s = [] \<and> st_events s = [] \<and>
     st_head s = Some (0, GenesisHash)"

text \<open>
  The operations that change tables. A call brings its own clock and random source. The only side
  condition is that the limits of a grant are values of type \<open>int64\<close>.
\<close>

inductive control_step :: "('o, 'x) control_env \<Rightarrow> 'o Store \<Rightarrow> 'o Store \<Rightarrow> bool" for E where
  create_principal: "control_step E s (snd (CreatePrincipal E c p s))"
| disable_principal: "control_step E s (snd (DisablePrincipal c i at s))"
| create_task: "control_step E s (snd (CreateTask E c task s))"
| transition_task: "control_step E s (snd (TransitionTask E c change s))"
| put_grant: "valid_limits (tg_Budget g) \<Longrightarrow> control_step E s (snd (PutGrant E c g s))"
| record_approval: "control_step E s (snd (RecordApprovalEvent E c approval s))"
| view_changed: "control_step E s (snd (MarkTaskViewSemanticChanged E c t digest s))"
| claim_callback: "control_step E s (snd (ClaimCallback E c i payload s))"
| retry_callback: "control_step E s (snd (RetryCallback E c i payload s))"
| complete_callback: "control_step E s (snd (CompleteCallback E c i payload response s))"
| fail_callback: "control_step E s (snd (FailCallback E i payload failure s))"
| apply_approval: "\<forall>g. ac_Grant cb = Some g \<longrightarrow> valid_limits (tg_Budget g) \<Longrightarrow> control_step E s (snd (ApplyApprovalCallback E c cb s))"
| reserve: "control_step E s (snd (ReserveBudget E c q s))"
| settle: "control_step E s (snd (SettleBudget E c b s))"
| settle_receipt: "control_step E s (snd (SettleBudgetWithReceipt E c b builder s))"
| release: "control_step E s (snd (ReleaseBudget E c i code s))"
| release_receipt: "control_step E s (snd (ReleaseBudgetWithReceipt E c i code builder s))"
| fail: "control_step E s (snd (FailBudget E c b s))"
| fail_receipt: "control_step E s (snd (FailBudgetWithReceipt E c b builder s))"
| indeterminate: "control_step E s (snd (MarkIndeterminate E c i code s))"
| indeterminate_receipt: "control_step E s (snd (MarkIndeterminateWithReceipt E c i code builder s))"
| save_receipt: "control_step E s (snd (SaveQueryReceipt E c receipt s))"
| append_event: "control_step E s (snd (AppendAuditEvent E c event s))"
| recover: "control_step E s (snd (Recover E c s))"
| restart: "control_step E s (snd (New_store E c rec builder s))"
| close: "control_step E s (Close s)"

definition control_run :: "('o, 'x) control_env \<Rightarrow> 'o Store \<Rightarrow> bool" where
  "control_run E s \<longleftrightarrow> (\<exists>s0. initial s0 \<and> (control_step E)\<^sup>*\<^sup>* s0 s)"

text \<open>A record that answers a reservation request.\<close>

definition answers :: "ReserveRequest \<Rightarrow> QueryRecord \<Rightarrow> bool" where
  "answers q x \<longleftrightarrow> qr_TaskID x = rq_TaskID q \<and> qr_RequestID x = rq_RequestID q \<and> qr_RequestDigest x = rq_RequestDigest q \<and>
     qr_Actor x = rq_Actor q \<and> qr_ViewBindingDigest x = rq_ViewBindingDigest q"

text \<open>What a run does to the tables: later, and by appends to the audit table.\<close>

definition store_later :: "('o, 'x) control_env \<Rightarrow> 'o Store \<Rightarrow> 'o Store \<Rightarrow> bool" where
  "store_later E s s' \<longleftrightarrow> store_le s s' \<and> audit_steps E s s'"

text \<open>The two refusals of a settlement that the invariant excludes.\<close>

abbreviation ledger_error :: go_error where "ledger_error \<equiv> Message ''reservation ledger is inconsistent''"
abbreviation overspend_error :: go_error where "overspend_error \<equiv> Message ''invalid settlement would exceed hard budget''"

section \<open>Systems that keep an invariant\<close>

text \<open>
  A system whose steps keep an invariant and move up in a preorder: so do its runs.
\<close>

locale guarded_system =
  fixes step :: "'s \<Rightarrow> 's \<Rightarrow> bool" and ok :: "'s \<Rightarrow> bool" and le :: "'s \<Rightarrow> 's \<Rightarrow> bool"
  assumes step_ok: "step s s' \<Longrightarrow> ok s \<Longrightarrow> ok s'"
    and step_le: "step s s' \<Longrightarrow> ok s \<Longrightarrow> le s s'"
    and le_refl: "le s s"
    and le_trans: "le s t \<Longrightarrow> le t u \<Longrightarrow> le s u"
begin

lemma run: "step\<^sup>*\<^sup>* s s' \<Longrightarrow> ok s \<Longrightarrow> ok s' \<and> le s s'"
  by (induction rule: rtranclp_induct) (auto intro: le_refl le_trans step_ok step_le)

lemmas run_ok = run [THEN conjunct1]
lemmas run_le = run [THEN conjunct2]

end

lemma settle_step: "store_step E s (snd (settle E c b status h s))"
  using settleWithReceipt_step [of E s c b status h None] by (auto simp: settle_def split: prod.split)

lemma New_store_step: "store_step E s (snd (New_store E c rec builder s))"
proof -
  have first: "store_step E s (s\<lparr>st_closed := False\<rparr>)" by (rule other_tables_step)
  also note recover_step [of E "s\<lparr>st_closed := False\<rparr>" c builder]
  finally show ?thesis using first by (auto simp: New_store_def split: prod.split sum.split)
qed

lemma control_step_store: "control_step E s s' \<Longrightarrow> store_step E s s'"
  by (erule control_step.cases)
    (simp_all add: CreatePrincipal_step DisablePrincipal_step CreateTask_step TransitionTask_step PutGrant_step RecordApprovalEvent_step
      MarkTaskViewSemanticChanged_step ClaimCallback_step RetryCallback_def CompleteCallback_step FailCallback_step
      ApplyApprovalCallback_step ReserveBudget_step SettleBudget_def SettleBudgetWithReceipt_def ReleaseBudget_def
      ReleaseBudgetWithReceipt_def FailBudget_def FailBudgetWithReceipt_def MarkIndeterminate_def MarkIndeterminateWithReceipt_def
      settle_step settleWithReceipt_step SaveQueryReceipt_step AppendAuditEvent_step Recover_def recover_step New_store_step
      Close_def other_tables_step split: sum.split)

interpretation control: guarded_system "control_step E" store_ok "store_later E" for E :: "('o, 'x) control_env"
proof unfold_locales
  fix s t u :: "'o Store"
  show "store_later E s s" by (simp add: store_later_def audit_steps.same)
  show "store_later E s t \<Longrightarrow> store_later E t u \<Longrightarrow> store_later E s u"
    unfolding store_later_def using store_le_trans audit_steps.trans by blast
  show "control_step E s t \<Longrightarrow> store_ok s \<Longrightarrow> store_ok t" "control_step E s t \<Longrightarrow> store_ok s \<Longrightarrow> store_later E s t"
    using control_step_store [of E s t] by (simp_all add: store_step_def store_later_def)
qed

lemma initial_ok: "initial s \<Longrightarrow> store_ok s"
  by (simp add: initial_def store_ok_def ledgers_ok_def budgets_ok_def grants_ok_def)

lemma control_run_ok: "control_run E s \<Longrightarrow> store_ok s"
  unfolding control_run_def using control.run_ok initial_ok by blast

lemma control_run_le: "control_run E s \<Longrightarrow> (control_step E)\<^sup>*\<^sup>* s s' \<Longrightarrow> store_le s s' \<and> audit_steps E s s'"
  using control.run_le [of E s s'] control_run_ok [of E s] by (simp add: store_later_def)

lemma control_run_trans: "control_run E s \<Longrightarrow> (control_step E)\<^sup>*\<^sup>* s s' \<Longrightarrow> control_run E s'"
  unfolding control_run_def by (meson rtranclp_trans)

section \<open>Lemmas for runs\<close>

subsection \<open>The audit chain\<close>

lemma audit_steps_prefix: "audit_steps E s s' \<Longrightarrow> \<exists>new. st_events s' = st_events s @ new"
  by (induction rule: audit_steps.induct) (auto dest: append_grows)

lemma audit_steps_chain:
  assumes "audit_steps E s s'" and "\<And>p. payload_stable E p" and "int (length (st_events s')) \<le> int64_max" and "chain_verified E s"
  shows "chain_verified E s'"
  using assms
proof (induction rule: audit_steps.induct)
  case (same s' s)
  then show ?case by (simp add: chain_verified_def events_ok_def)
next
  case (append c event s e s')
  from append_grows [OF append.hyps] append.prems have "chain_room s" by (auto simp: chain_room_def)
  with append show ?case by (intro append_chain [OF _ _ _ append.hyps])
next
  case (trans s s1 s2)
  from audit_steps_prefix [OF trans.hyps(2)] trans.prems(2) have "int (length (st_events s1)) \<le> int64_max" by auto
  with trans show ?case by blast
qed

lemma initial_chain: "initial s \<Longrightarrow> chain_verified E s"
  by (simp add: initial_def chain_verified_def events_ok_def int64_max_def)

subsection \<open>A request and its record\<close>

lemma reserve_frame:
  assumes "reserve_tx E c q before at s = Inr (r, s')"
  shows "reserved_record q (br_AllowedRows r) (br_AllowedDBMS r) before at \<in> set (st_queries s') \<and> st_tasks s' = st_tasks s \<and>
    br_QueryID r = rq_QueryID q"
  using assms
proof (rule reserve_tx_Inr)
  fix rows dbms budgets queries s1 e
  assume qs: "insert_query (reserved_record q rows dbms before at) (st_queries s) = Inr queries"
    and exposure: "reserveExposureTx E c (rq_QueryID q) (rq_TaskID q) (rq_Exposure q) at (s\<lparr>st_budgets := budgets, st_queries := queries\<rparr>) = Inr (br_Exposure r, s1)"
    and audit: "appendAuditTx E c (reserved_event q rows dbms at) s1 = Inr (e, s')"
    and r: "r = \<lparr>br_QueryID = rq_QueryID q, br_TaskID = rq_TaskID q, br_RequestID = rq_RequestID q, br_AllowedRows = rows, br_AllowedDBMS = dbms,
       br_Before = before, br_After = after_reserve before rows dbms at, br_Replay = False, br_Record = None, br_Exposure = br_Exposure r\<rparr>"
  have "st_queries s1 = queries \<and> st_tasks s1 = st_tasks s"
    using reserveExposureTx_step [OF exposure] by (simp add: exposure_step_def core_same_def)
  moreover have "st_queries s' = st_queries s1 \<and> st_tasks s' = st_tasks s1" using audit by (rule append_frame) simp
  moreover have "reserved_record q rows dbms before at \<in> set queries" using qs by (auto simp: insert_query_def split: if_splits)
  moreover have "br_AllowedRows r = rows" "br_AllowedDBMS r = dbms" "br_QueryID r = rq_QueryID q" by (subst r; simp)+
  ultimately show ?thesis by simp
qed

lemma ReserveBudget_answer:
  assumes "ReserveBudget E c q s = (Inr r, s')"
  shows "\<not> reserve_evidence_missing q \<and> \<not> reserve_negative q \<and> (\<exists>t\<in>set (st_tasks s'). tk_ID t = rq_TaskID q) \<and>
    (\<exists>x\<in>set (st_queries s'). answers q x \<and> qr_ID x = br_QueryID r \<and> qr_ReservedRows x = br_AllowedRows r \<and> qr_ReservedDBMS x = br_AllowedDBMS r)"
proof (rule ReserveBudget_cases [of E c q s])
  fix record0
  assume replay: "ReserveBudget E c q s = (Inr (replay_reservation record0), s)" and row: "request_row (rq_TaskID q) (rq_RequestID q) s = Some record0"
  obtain x where x: "x \<in> set (st_queries s)" "qr_TaskID x = rq_TaskID q" "qr_RequestID x = rq_RequestID q" "record0 = scanQuery x"
    using row by (auto simp: request_row_def dest!: select_row_Some)
  have r: "r = replay_reservation record0" "s' = s" using assms replay by simp_all
  have guards: "\<not> reserve_evidence_missing q" "\<not> reserve_negative q" "\<exists>t\<in>set (st_tasks s). tk_ID t = rq_TaskID q"
    "qr_RequestDigest record0 = rq_RequestDigest q \<and> qr_Actor record0 = rq_Actor q \<and> qr_ViewBindingDigest record0 = rq_ViewBindingDigest q"
    using replay row unfolding ReserveBudget_def by (auto split: option.splits if_splits dest!: select_row_Some)
  with x r show ?thesis by (auto simp: answers_def replay_reservation_def intro!: bexI [of _ x])
next
  fix before task r' s1
  assume "ReserveBudget E c q s = (Inr r', s1)" and adm: "admitted q before task c s"
    and tx: "reserve_tx E c (catalog_filled task q) before (now c 3) s = Inr (r', s1)"
  with assms have eq: "r' = r" "s1 = s'" by simp_all
  show ?thesis
    using adm reserve_frame [OF tx] unfolding eq
    by (auto simp: admitted_def answers_def reserved_record_def dest!: select_row_Some intro!: bexI [rotated])
next
  fix reason kind i
  assume "ReserveBudget E c q s = archive_and_fail E c (rq_TaskID q) reason kind (now c i) s"
  with assms show ?thesis by (auto simp: archive_and_fail_def split: sum.splits)
qed (use assms in simp)

lemma answered_replays:
  assumes "store_ok s" and "\<not> st_closed s" and "\<not> reserve_evidence_missing q" and "\<not> reserve_negative q"
    and t: "t \<in> set (st_tasks s)" "tk_ID t = rq_TaskID q" and x: "x \<in> set (st_queries s)" "answers q x"
  shows "ReserveBudget E c q s = (Inr (replay_reservation (scanQuery x)), s)"
proof -
  have "distinct (map (\<lambda>r. (qr_TaskID r, qr_RequestID r)) (st_queries s))"
    using assms(1) by (simp add: store_ok_def budgets_ok_def request_key_def [abs_def])
  from select_row_unique [OF this x(1)] x(2) have row: "request_row (rq_TaskID q) (rq_RequestID q) s = Some (scanQuery x)"
    by (simp add: request_row_def answers_def)
  have "select_row tk_ID (tk_ID t) (st_tasks s) = Some t"
    using assms(1) t(1) by (intro select_row_unique) (simp_all add: store_ok_def)
  with assms row t(2) x(2) show ?thesis by (simp add: ReserveBudget_def checkOpen_def answers_def)
qed

subsection \<open>A callback and its row\<close>

lemma claim_payload:
  assumes "store_ok s" and "claimCallbackTx i h at s = Inr (claim, s')" and "r \<in> set (st_callbacks s')" and "cb_EventID r = i"
  shows "cb_PayloadSHA256 r = h"
proof (cases "select_row cb_EventID i (st_callbacks s)")
  case None
  then have "i \<notin> cb_EventID ` set (st_callbacks s)" by (simp add: select_row_None)
  moreover have "r \<in> set (st_callbacks s) \<or> r = claimed_row i h at" using assms(2,3) None by (auto simp: claimCallbackTx_def)
  ultimately have "r = claimed_row i h at" using assms(4) by auto
  then show ?thesis by (simp add: claimed_row_def)
next
  case (Some x)
  let ?key = "\<lambda>r. (cb_EventID r, cb_PayloadSHA256 r)"
  have x: "cb_PayloadSHA256 x = h" and s': "s' = s \<or> s' = s\<lparr>st_callbacks := reclaim_rows i at (st_callbacks s)\<rparr>"
    using assms(2) Some by (auto simp: claimCallbackTx_def split: if_splits)
  have "map ?key (reclaim_rows i at rows) = map ?key rows" for rows unfolding reclaim_rows_def by (rule map_update_rows) simp
  with s' have keys: "map ?key (st_callbacks s') = map ?key (st_callbacks s)" by auto
  have "?key r \<in> ?key ` set (st_callbacks s')" using assms(3) by (rule imageI)
  then have "?key r \<in> set (map ?key (st_callbacks s))" using arg_cong [OF keys, of set] by simp
  then obtain y where y: "y \<in> set (st_callbacks s)" "?key r = ?key y" by auto
  have "select_row cb_EventID (cb_EventID y) (st_callbacks s) = Some y"
    using y(1) assms(1) by (intro select_row_unique) (simp_all add: store_ok_def)
  with Some y(2) assms(4) have "y = x" by simp
  with y(2) x show ?thesis by simp
qed

lemma apply_grant_callbacks: "apply_grant E at grant s = Inr s' \<Longrightarrow> st_callbacks s' = st_callbacks s"
  unfolding apply_grant_def Let_def insertGrantAndBudget_def
  by (auto split: if_splits option.splits sum.splits dest!: ensureExposureLedgerTx_step insertTaskViewBinding_Inr simp: core_same_def)

text \<open>A row that answers a callback with a response.\<close>

lemma complete_row:
  assumes "completeCallbackTx i response at s = Inr s'"
  shows "\<exists>r\<in>set (st_callbacks s). cb_EventID r = i \<and>
    (\<exists>r'\<in>set (st_callbacks s'). cb_EventID r' = i \<and> cb_PayloadSHA256 r' = cb_PayloadSHA256 r \<and> cb_Status r' = CallbackCompleted \<and> cb_Response r' = response)"
proof -
  let ?hit = "\<lambda>r. cb_EventID r = i \<and> cb_Status r = CallbackProcessing"
  let ?f = "\<lambda>r. r\<lparr>cb_Status := CallbackCompleted, cb_Response := response, cb_LastError := [], cb_CompletedAt := Some (dbTime at)\<rparr>"
  have one: "length (filter ?hit (st_callbacks s)) = 1" and s': "s' = s\<lparr>st_callbacks := update_rows ?hit ?f (st_callbacks s)\<rparr>"
    using assms by (auto simp: completeCallbackTx_def Let_def split: if_splits)
  obtain r where "r \<in> set (filter ?hit (st_callbacks s))" using one by (cases "filter ?hit (st_callbacks s)") auto
  then have r: "r \<in> set (st_callbacks s)" "?hit r" by simp_all
  then have "?f r \<in> set (st_callbacks s')" unfolding s' by (force simp: set_update_rows)
  with r show ?thesis by (intro bexI [of _ r] conjI bexI [of _ "?f r"]) simp_all
qed

lemma applied_row:
  assumes "store_ok s" and "ApplyApprovalCallback E c cb s = (Inr claim, s')"
  shows "check_approval cb = None \<and> (\<exists>payload. normalizeJSON E (ap_Payload (ac_Event cb)) ''{}'' = Some payload) \<and>
    (\<exists>r\<in>set (st_callbacks s'). cb_EventID r = ac_EventID cb \<and> cb_PayloadSHA256 r = callbackPayloadHash E (ac_RawPayload cb) \<and>
       cb_Status r = CallbackCompleted \<and> cb_Response r = cc_Response claim)"
proof (rule ApplyApprovalCallback_cases [of E c cb s])
  fix payload claim0 s0
  assume eq: "ApplyApprovalCallback E c cb s = (Inr claim0, s0)" and pre: "check_approval cb = None" "normalizeJSON E (ap_Payload (ac_Event cb)) ''{}'' = Some payload"
    and claim: "claimCallbackTx (ac_EventID cb) (callbackPayloadHash E (ac_RawPayload cb)) (now c 0) s = Inr (claim0, s0)" "cc_Replay claim0"
  obtain r where row: "select_row cb_EventID (ac_EventID cb) (st_callbacks s) = Some r"
    and r: "cb_PayloadSHA256 r = callbackPayloadHash E (ac_RawPayload cb)" "cb_Status r = CallbackCompleted" "cb_Response r = cc_Response claim0" "s0 = s"
    using claim by (auto simp: claimCallbackTx_def callback_claim_def split: option.splits if_splits)
  have "claim = claim0" "s' = s" using eq assms(2) r(4) by auto
  then show ?thesis using select_row_Some [OF row] r(1-3) pre by (intro conjI exI [of _ payload] bexI [of _ r]) simp_all
next
  fix payload claim0 s1 s0
  assume eq: "ApplyApprovalCallback E c cb s = (Inr (claim0\<lparr>cc_Status := CallbackCompleted, cc_Response := ac_Response cb\<rparr>), s0)"
    and pre: "check_approval cb = None" "normalizeJSON E (ap_Payload (ac_Event cb)) ''{}'' = Some payload"
    and claim: "claimCallbackTx (ac_EventID cb) (callbackPayloadHash E (ac_RawPayload cb)) (now c 0) s = Inr (claim0, s1)"
    and dec: "apply_decision E c cb payload s1 = Inr s0"
  from dec obtain s2 where s2: "st_callbacks s2 = st_callbacks s1" "completeCallbackTx (ac_EventID cb) (ac_Response cb) (now c 0) s2 = Inr s0"
  proof (rule apply_decision_Inr)
    fix t approvals s3 e s4
    assume g: "apply_grant E (now c 0) (ac_Grant cb) (s1\<lparr>st_approvals := approvals\<rparr>) = Inr s3"
      and a: "appendAuditTx E c (audit_event (ap_TaskID (ac_Event cb)) [] (ap_Actor (ac_Event cb)) ''APPROVAL_CALLBACK_APPLIED''
        (approvalCallbackAuditPayload cb (tk_State t)) (now c 0)) (s3\<lparr>st_tasks := decided_tasks cb (now c 0) (st_tasks s3)\<rparr>) = Inr (e, s4)"
      and f: "completeCallbackTx (ac_EventID cb) (ac_Response cb) (now c 0) s4 = Inr s0"
    have "st_callbacks s4 = st_callbacks s3" using a by (rule append_frame) simp
    then show thesis using apply_grant_callbacks [OF g] f by (intro that [of s4]) simp_all
  qed
  have "cb_PayloadSHA256 r = callbackPayloadHash E (ac_RawPayload cb)" if "r \<in> set (st_callbacks s2)" "cb_EventID r = ac_EventID cb" for r
    using claim_payload [OF assms(1) claim] that s2(1) by simp
  with complete_row [OF s2(2)] obtain r where "r \<in> set (st_callbacks s0)" "cb_EventID r = ac_EventID cb"
    "cb_PayloadSHA256 r = callbackPayloadHash E (ac_RawPayload cb)" "cb_Status r = CallbackCompleted" "cb_Response r = ac_Response cb"
    by metis
  moreover have "s' = s0" "cc_Response claim = ac_Response cb" using eq assms(2) by auto
  ultimately show ?thesis using pre by (intro conjI exI [of _ payload] bexI [of _ r]) simp_all
next
  fix err assume "ApplyApprovalCallback E c cb s = (Inl err, s)"
  with assms(2) show ?thesis by simp
qed

lemma completed_answers:
  assumes "store_ok s" and "\<not> st_closed s" and "r \<in> set (st_callbacks s)" and "cb_EventID r = ac_EventID cb" and "cb_Status r = CallbackCompleted"
    and "check_approval cb = None" and "normalizeJSON E (ap_Payload (ac_Event cb)) ''{}'' = Some payload"
  shows "ApplyApprovalCallback E c cb s =
    (if cb_PayloadSHA256 r = callbackPayloadHash E (ac_RawPayload cb)
     then Inr ((callback_claim (ac_EventID cb) CallbackCompleted)\<lparr>cc_Replay := True, cc_Response := cb_Response r\<rparr>)
     else Inl (OpError ''claim callback'' ErrIdempotencyConflict None), s)"
proof -
  have "select_row cb_EventID (ac_EventID cb) (st_callbacks s) = Some r"
    using select_row_unique [of cb_EventID "st_callbacks s" r] assms(1,3,4) by (simp add: store_ok_def)
  then show ?thesis using assms by (simp add: ApplyApprovalCallback_def checkOpen_def claimCallbackTx_def)
qed

subsection \<open>Settlement errors\<close>

lemma append_errors: "appendAuditTx E c event s \<noteq> Inl ledger_error \<and> appendAuditTx E c event s \<noteq> Inl overspend_error"
  unfolding appendAuditTx_def Let_def insert_event_def by (auto split: option.split sum.split prod.split)

lemma archive_errors: "archiveTaskTx E c t reason actor at s \<noteq> Inl ledger_error \<and> archiveTaskTx E c t reason actor at s \<noteq> Inl overspend_error"
  unfolding archiveTaskTx_def Let_def using append_errors by (auto split: sum.split)

lemma settlement_in_bounds:
  assumes "store_ok s" and r: "r \<in> set (st_queries s)" "qr_Status r = QueryReserved" and row: "budget_row (qr_TaskID r) s = Some budget"
    and b: "0 \<le> bs_Rows b" "0 \<le> bs_DBMS b" "bs_Rows b \<le> qr_ReservedRows r"
  shows "\<not> ledger_inconsistent budget (scanQuery r) \<and>
    \<not> over_limits (after_settle budget (scanQuery r) (settlement_charge status b (scanQuery r)) at)"
proof -
  have ok: "budgets_ok (st_budgets s) (st_queries s)" using assms(1) by (simp add: store_ok_def)
  obtain x where x: "x \<in> set (st_budgets s)" "bud_TaskID x = qr_TaskID r" "bud_Usage budget = bud_Usage x" "bud_Limits budget = bud_Limits x"
    using budget_row_Some [OF row] by blast
  have "record_ok r" using ok r by (simp add: budgets_ok_def)
  then have "charge_ok r (settlement_charge status b (scanQuery r))"
    using b by (auto simp: charge_ok_def settlement_charge_def record_ok_def min64_def)
  from after_settle_exact [OF ok r x(1,2) this x(3,4), of "scanQuery r"] show ?thesis by simp
qed

lemma ledger_consistent:
  assumes "store_ok s" and r: "r \<in> set (st_queries s)" "qr_Status r = QueryReserved" and row: "budget_row (qr_TaskID r) s = Some budget"
  shows "\<not> ledger_inconsistent budget (scanQuery r)"
proof -
  have "record_ok r" using assms(1) r by (simp add: store_ok_def budgets_ok_def)
  then have "0 \<le> qr_ReservedRows r" by (simp add: record_ok_def)
  then show ?thesis by (intro conjunct1 [OF settlement_in_bounds [OF assms, of "release_settlement [] []"]]) (simp_all add: release_settlement_def)
qed

lemma settleBudgetTx_errors:
  assumes "store_ok s" and b: "0 \<le> bs_Rows b" "0 \<le> bs_DBMS b"
  shows "settleBudgetTx E c at b status h d s \<noteq> Inl ledger_error \<and> settleBudgetTx E c at b status h d s \<noteq> Inl overspend_error"
proof (cases "query_row (bs_QueryID b) s")
  case None
  then show ?thesis by (simp add: settleBudgetTx_def)
next
  case (Some x)
  then obtain r where r: "r \<in> set (st_queries s)" "x = scanQuery r" using query_row_Some by metis
  show ?thesis
  proof (cases "qr_Status r = QueryReserved")
    case False
    then show ?thesis
      using Some r(2) by (auto simp: settleBudgetTx_def terminalAuditForQueryTx_def split: sum.split list.split)
  next
    case True
    let ?at = "notBefore at (qr_CreatedAt (scanQuery r))"
    have ledger: "\<not> ledger_inconsistent budget (scanQuery r)" if "budget_row (qr_TaskID r) s = Some budget" for budget
      using ledger_consistent [OF assms(1) r(1) True that] .
    have over: "\<not> over_limits (after_settle budget (scanQuery r) (settlement_charge status b (scanQuery r)) ?at)"
      if "budget_row (qr_TaskID r) s = Some budget" "bs_Rows b \<le> qr_ReservedRows r" for budget
      using settlement_in_bounds [OF assms(1) r(1) True that(1) b that(2)] by blast
    show ?thesis
    proof (cases "budget_row (qr_TaskID r) s")
      case None
      with Some r(2) True show ?thesis by (simp add: settleBudgetTx_def Let_def)
    next
      case budget: (Some budget)
      show ?thesis
      proof (cases "bs_Rows b \<le> qr_ReservedRows r")
        case rows: True
        show ?thesis
          using Some r(2) True budget rows ledger [OF budget] over [OF budget rows]
            append_errors [of E c "settled_event status b (settlement_charge status b (scanQuery r)) h ?at (scanQuery r)"] archive_errors [of E c "qr_TaskID r" _ _ ?at]
          by (auto simp: settleBudgetTx_def Let_def split: sum.split prod.split)
      next
        case False
        with Some r(2) True budget ledger [OF budget] show ?thesis by (simp add: settleBudgetTx_def Let_def)
      qed
    qed
  qed
qed

lemma settleBudgetTx_record:
  assumes "store_ok s" and b: "0 \<le> bs_Rows b" "0 \<le> bs_DBMS b" and "settleBudgetTx E c at b status h d s = Inr ((x, audit), s')"
  shows "qr_ChargedRows x \<le> qr_ReservedRows x \<and> qr_ChargedDBMS x \<le> qr_ReservedDBMS x"
proof -
  obtain r where r: "r \<in> set (st_queries s)" "query_row (bs_QueryID b) s = Some (scanQuery r)"
    using assms(4) query_row_Some [of "bs_QueryID b" s] by (auto simp: settleBudgetTx_def split: option.splits)
  have "record_ok r" using assms(1) r by (simp add: store_ok_def budgets_ok_def)
  then show ?thesis
    using assms(4) r(2) b
    by (auto simp: settleBudgetTx_def Let_def record_ok_def settlement_charge_def scanQuery_def min64_def split: if_splits option.splits sum.splits)
qed

section \<open>A run, for the examples\<close>

text \<open>
  A stand-in for SHA-256 that counts: the previous hash is written at the head of the hashed text,
  and its second digit is the length of the chain.
\<close>

definition counting_env :: exposure_env where
  "counting_env = \<lparr>env_sha256 = (\<lambda>b. replicate 32 (b ! 19 - 47)), env_literal_ok = (\<lambda>_ _. True)\<rparr>"

definition run_control :: "(unit, unit) control_env" where
  "run_control = sample_control\<lparr>ce_exposure := counting_env\<rparr>"

definition count_hash :: "nat \<Rightarrow> go_string" where
  "count_hash n = hex_encode (replicate 32 (of_nat n))"

lemma count_hash_0: "count_hash 0 = GenesisHash"
  by code_simp

lemma byte_of_nat: "n < 9 \<Longrightarrow> unat (of_nat n :: byte) = n"
  by (simp add: unat_of_nat take_bit_eq_mod)

lemma count_hash_inject: "m < 9 \<Longrightarrow> n < 9 \<Longrightarrow> count_hash m = count_hash n \<longleftrightarrow> m = n"
  unfolding count_hash_def hex_encode_inject replicate_eq_replicate by (metis byte_of_nat zero_neq_numeral)

lemma digit_plain: "n < 9 \<Longrightarrow> json_chars (char_of (48 + n :: nat) # s) = char_of (48 + n) # json_chars s"
proof -
  have "\<forall>n\<in>set [0..<9]. of_char (char_of (48 + n)) < (0x80 :: nat) \<and> escape_ascii (char_of (48 + n)) = [char_of (48 + n :: nat)]" by code_simp
  moreover assume "n < 9"
  then have "n \<in> set [0..<9]" by simp
  ultimately show ?thesis by simp
qed

lemma count_hash_head:
  assumes "n < 9"
  shows "count_hash n = char_of (48 + (0 :: nat)) # char_of (48 + n) # hex_encode (replicate 31 (of_nat n))"
proof -
  have "replicate 32 x = x # replicate 31 x" for x :: byte by (simp flip: replicate_Suc)
  then show ?thesis using assms by (simp add: count_hash_def hex_encode_def byte_of_nat hex_digit_def)
qed

lemma run_hash:
  assumes "n < 8"
  shows "hashAudit run_control (count_hash n) e = Inr (count_hash (Suc n))"
proof -
  have key: "json_string ''previous_hash'' = [quote] @ ''previous_hash'' @ [quote]" by code_simp
  have chars: "json_chars (count_hash n) = char_of (48 + (0 :: nat)) # char_of (48 + n) # json_chars (hex_encode (replicate 31 (of_nat n)))"
    using assms by (simp only: count_hash_head digit_plain)
  have "hashMaterial (count_hash n) e p ! 19 = char_of (48 + n)" for p
    by (simp add: hashMaterial_def json_object_def key json_string_def [of "count_hash n"] chars)
  moreover have "19 < length (hashMaterial (count_hash n) e p)" for p
    by (simp add: hashMaterial_def json_object_def key json_string_def [of "count_hash n"] chars)
  moreover have "of_char (char_of (48 + n) :: char) = 48 + n" using assms by simp
  ultimately have "bytes_of (hashMaterial (count_hash n) e p) ! 19 = of_nat (48 + n)" for p
    by (simp add: bytes_of_def)
  then show ?thesis
    by (simp add: hashAudit_def Hash_def audit_lib_of_def run_control_def sample_control_def NormalizePayload_def counting_env_def count_hash_def)
qed

definition counted :: "nat \<Rightarrow> unit Store \<Rightarrow> bool" where
  "counted n s \<longleftrightarrow> st_head s = Some (int n, count_hash n) \<and> length (st_events s) = n \<and>
     (\<forall>e\<in>set (st_events s). \<exists>k<n. ev_Sequence e = int k + 1 \<and> ev_CurrentHash e = count_hash (Suc k) \<and> ev_EventID e = ''audit_'' @ decimal k)"

definition run_principal :: Principal where
  "run_principal = \<lparr>pr_ID = ''p'', pr_Subject = ''s'', pr_Role = ''user'', pr_TokenHash = [], pr_CreatedAt = 1000, pr_DisabledAt = None\<rparr>"

definition run_task :: "go_string \<Rightarrow> go_string \<Rightarrow> Task" where
  "run_task st reason = \<lparr>tk_ID = ''t'', tk_PrincipalID = ''p'', tk_Objective = ''o'', tk_State = st, tk_TerminalReason = reason,
     tk_CatalogVersion = ''c'', tk_Sensitivity = [], tk_RequestContext = ''{}'', tk_ApprovalRef = [], tk_CreatedAt = 1000,
     tk_UpdatedAt = 1000, tk_ExpiresAt = None, tk_RootTaskID = ''t'', tk_ParentTaskID = []\<rparr>"

definition run_grant :: TaskGrant where
  "run_grant = sample_exposure_grant\<lparr>tg_Exposure := \<lparr>xg_Limits = zero_limits, xg_ProfileVersion = [], xg_PredicateFootprint = None\<rparr>\<rparr>"

definition run_request :: ReserveRequest where
  "run_request = \<lparr>rq_QueryID = ''q'', rq_TaskID = ''t'', rq_RequestID = ''r'', rq_Actor = ''s'', rq_RequestDigest = ''d'',
     rq_SQLFingerprint = ''f'', rq_CatalogVersion = [], rq_CatalogDigest = GenesisHash, rq_DatasourceID = ''d'', rq_SchemaDigest = GenesisHash,
     rq_ViewBindingDigest = [], rq_ManifestDigest = GenesisHash, rq_GrantDigest = GenesisHash, rq_PolicyDecision = ''ALLOW'',
     rq_RequestedRows = 20, rq_RequestedDBMS = 100, rq_Exposure = None\<rparr>"

definition run_decision :: ApprovalCallback where
  "run_decision = \<lparr>ac_EventID = ''x'', ac_RawPayload = [1], ac_Event = \<lparr>ap_EventID = [], ap_TaskID = ''t'', ap_Actor = ''s'', ap_Decision = ''reject'',
     ap_Payload = ''{}'', ap_CreatedAt = 1000\<rparr>, ac_ExpectedState = TaskAwaitingApproval, ac_NewState = TaskArchived, ac_Reason = TerminalRejected,
     ac_Grant = None, ac_Response = [2]\<rparr>"

lemma not_image: "(\<And>e. e \<in> A \<Longrightarrow> f e \<noteq> x) \<Longrightarrow> x \<notin> f ` A"
  by blast

lemma run_append:
  assumes "counted n s" and "n < 8" and "ev_EventID event = []" and "\<not> blank (ev_Actor event)" and "\<not> blank (ev_EventType event)"
  obtains e s' events head where "appendAuditTx run_control sample_call event s = Inr (e, s')" "counted (Suc n) s'"
    "s' = s\<lparr>st_events := events, st_head := head\<rparr>"
proof -
  let ?e = "event\<lparr>ev_EventID := ''audit_'' @ decimal n, ev_OccurredAt := occurred_at sample_call event,
     ev_Payload := (if ev_Payload event = [] then ''{}'' else ev_Payload event), ev_Sequence := int n + 1,
     ev_PreviousHash := count_hash n, ev_CurrentHash := count_hash (Suc n)\<rparr>"
  let ?s = "s\<lparr>st_events := st_events s @ [?e], st_head := Some (int n + 1, count_hash (Suc n))\<rparr>"
  have s: "st_head s = Some (int n, count_hash n)" "length (st_events s) = n" using assms(1) by (auto simp: counted_def)
  have rows: "\<exists>k<n. ev_Sequence e = int k + 1 \<and> ev_CurrentHash e = count_hash (Suc k) \<and> ev_EventID e = ''audit_'' @ decimal k"
      if "e \<in> set (st_events s)" for e
    using assms(1) that by (auto simp: counted_def)
  have "i64 (int n + 1) = int n + 1" using assms(2) by (intro i64_id) (simp add: in_int64_def)
  moreover have "ev_Sequence e \<noteq> int n + 1 \<and> ev_EventID e \<noteq> ''audit_'' @ decimal n \<and> ev_CurrentHash e \<noteq> count_hash (Suc n)"
    if "e \<in> set (st_events s)" for e
    using rows [OF that] assms(2) by (auto simp: count_hash_inject)
  then have "int n + 1 \<notin> ev_Sequence ` set (st_events s)" "''audit_'' @ decimal n \<notin> ev_EventID ` set (st_events s)"
    "count_hash (Suc n) \<notin> ev_CurrentHash ` set (st_events s)"
    by - (rule not_image; simp)+
  moreover have "event_id sample_call s event = Some (''audit_'' @ decimal n)"
    using assms(3) s by (simp add: event_id_def randomID_def sample_call_def)
  moreover have env: "ce_json run_control = Some" "ce_jsonb run_control = Some" by (simp_all add: run_control_def sample_control_def)
  ultimately have "appendAuditTx run_control sample_call event s = Inr (?e, ?s)"
    using assms s run_hash [OF assms(2)] by (simp add: appendAuditTx_def normalizeJSON_def insert_event_def Let_def)
  moreover have "counted (Suc n) ?s" using s rows by (force simp: counted_def)
  ultimately show thesis using that by blast
qed

lemma run_words: "\<not> blank ''s''" "\<not> blank ''p''" "\<not> blank ''t''" "\<not> blank ''o''" "\<not> blank ''c''" "\<not> blank ''user''" "\<not> blank ''system''"
  "\<not> blank ''PRINCIPAL_CREATED''" "\<not> blank ''TASK_CREATED''" "\<not> blank ''TASK_GRANT_CREATED''" "\<not> blank ''QUERY_BUDGET_RESERVED''"
  "\<not> blank ''QUERY_INDETERMINATE''" "\<not> blank ''APPROVAL_CALLBACK_APPLIED''" "lower_sha256_hex GenesisHash"
  by code_simp+

lemma counted_empty: "counted 0 empty_store"
  by (simp add: counted_def empty_store_def count_hash_0)

lemma initial_empty: "initial empty_store"
  by (simp add: initial_def empty_store_def)

text \<open>A principal, a task in some state, and a grant.\<close>

lemma run_start:
  assumes "validTaskState st" and "(st = TaskArchived) = (reason \<noteq> [])"
  obtains s where "(control_step run_control)\<^sup>*\<^sup>* empty_store s" "counted 2 s" "\<exists>events head. s = empty_store\<lparr>st_principals := [run_principal],
    st_tasks := [run_task st reason], st_events := events, st_head := head\<rparr>"
proof -
  obtain e1 s1 events1 head1 where app1: "appendAuditTx run_control sample_call (audit_event [] [] ''s'' ''PRINCIPAL_CREATED''
        [(''principal_id'', json_string ''p''), (''role'', json_string ''user'')] 1000) (empty_store\<lparr>st_principals := [run_principal]\<rparr>) = Inr (e1, s1)"
    and s1: "counted 1 s1" "s1 = empty_store\<lparr>st_principals := [run_principal], st_events := events1, st_head := head1\<rparr>"
    by (rule run_append [of 0 "empty_store\<lparr>st_principals := [run_principal]\<rparr>" "audit_event [] [] ''s'' ''PRINCIPAL_CREATED''
        [(''principal_id'', json_string ''p''), (''role'', json_string ''user'')] 1000"])
      (use run_words counted_empty in \<open>simp_all add: audit_event_def counted_def\<close>)
  have db: "dbTime 1000 = 1000" by (simp add: dbTime_def Truncate_microsecond_def)
  have row: "run_principal\<lparr>pr_CreatedAt := 1000, pr_DisabledAt := None\<rparr> = run_principal" by (simp add: run_principal_def)
  have "CreatePrincipal run_control sample_call run_principal empty_store = (None, s1)"
    using app1 run_words row db by (simp add: CreatePrincipal_def checkOpen_def empty_store_def run_principal_def nullableTime_def insert_row_def)
  then have step1: "control_step run_control empty_store s1" using control_step.create_principal [of run_control empty_store] by (metis snd_conv)
  let ?s2 = "s1\<lparr>st_tasks := [run_task st reason]\<rparr>"
  obtain e2 s2 events2 head2 where app2: "appendAuditTx run_control sample_call (task_created_event (run_task st reason)) ?s2 = Inr (e2, s2)"
    and s2: "counted 2 s2" "s2 = ?s2\<lparr>st_events := events2, st_head := head2\<rparr>"
    by (rule run_append [of 1 ?s2 "task_created_event (run_task st reason)"])
      (use run_words s1(1) in \<open>simp_all add: audit_event_def task_created_event_def counted_def run_task_def numeral_2_eq_2\<close>)
  have "CreateTask run_control sample_call (run_task st reason) s1 = (None, s2)"
  proof -
    have st: "st \<noteq> []" using assms(1) by (auto simp: validTaskState_def)
    show ?thesis
      using app2 assms st run_words s1(2) db
      by (simp add: CreateTask_def checkOpen_def run_task_def nullableTime_def insert_row_def insert_task_def task_root_def normalizeJSON_def
        run_control_def sample_control_def run_principal_def empty_store_def)
  qed
  then have "control_step run_control s1 s2" using control_step.create_task [of run_control s1] by (metis snd_conv)
  with step1 have "(control_step run_control)\<^sup>*\<^sup>* empty_store s2" by simp
  then show thesis using s2 s1(2) by (intro that) auto
qed

lemma run_granted:
  obtains s where "control_run run_control s" "counted 3 s" "\<exists>events head. s = empty_store\<lparr>st_principals := [run_principal],
    st_tasks := [run_task TaskActive []], st_grants := [run_grant], st_budgets := [budget_of_grant run_grant], st_events := events, st_head := head\<rparr>"
proof -
  obtain s2 events head where run: "(control_step run_control)\<^sup>*\<^sup>* empty_store s2" "counted 2 s2"
    and s2: "s2 = empty_store\<lparr>st_principals := [run_principal], st_tasks := [run_task TaskActive []], st_events := events, st_head := head\<rparr>"
    by (rule run_start [of TaskActive "[]"]) (auto simp: validTaskState_def)
  let ?s3 = "s2\<lparr>st_grants := [run_grant], st_budgets := [budget_of_grant run_grant]\<rparr>"
  obtain e3 s3 events3 head3 where app3: "appendAuditTx run_control sample_call (grant_created_event run_grant) ?s3 = Inr (e3, s3)"
    and s3: "counted 3 s3" "s3 = ?s3\<lparr>st_events := events3, st_head := head3\<rparr>"
    by (rule run_append [of 2 ?s3 "grant_created_event run_grant"])
      (use run_words run(2) in \<open>simp_all add: audit_event_def grant_created_event_def counted_def run_grant_def sample_exposure_grant_def numeral_3_eq_3\<close>)
  have db: "dbTime 1000 = 1000" "dbTime 9000000 = 9000000" by (simp_all add: dbTime_def Truncate_microsecond_def)
  have exposure: "validateExposureGrant (tg_Exposure run_grant) = None" by code_simp
  have "insertGrantAndBudget run_control run_grant ''{}'' s2 = Inr ?s3"
    using exposure db
    by (simp add: insertGrantAndBudget_def insert_row_def s2 empty_store_def run_grant_def sample_exposure_grant_def grant_row_def budget_of_grant_def
       ensureExposureLedgerTx_def ExposureGrant_Enabled_def zero_limits_def select_row_def run_task_def)
  then have "PutGrant run_control sample_call run_grant s2 = (None, s3)"
    using app3 exposure run_words
    by (simp add: PutGrant_def checkOpen_def s2 empty_store_def grant_field_empty_def run_grant_def sample_exposure_grant_def validSHA256Hex_def
       validateGrantViewBinding_def normalizeJSON_def run_control_def sample_control_def select_row_def run_task_def)
  moreover have "valid_limits (tg_Budget run_grant)" by (simp add: valid_limits_def run_grant_def sample_exposure_grant_def in_int64_def)
  ultimately have "control_step run_control s2 s3" using control_step.put_grant [of run_grant run_control s2 sample_call] by simp
  with run(1) have "(control_step run_control)\<^sup>*\<^sup>* empty_store s3" by simp
  then have "control_run run_control s3" unfolding control_run_def using initial_empty by blast
  then show thesis using s3 s2 by (intro that) auto
qed

text \<open>The store after a reservation, up to the audit table.\<close>

definition run_store :: "Event list \<Rightarrow> (int64 \<times> go_string) option \<Rightarrow> unit Store" where
  "run_store events head = empty_store\<lparr>st_principals := [run_principal],
      st_tasks := [run_task TaskActive []], st_grants := [run_grant],
      st_budgets := [(budget_of_grant run_grant)\<lparr>bud_Usage := \<lparr>use_UsedQueries = 0, use_UsedRows = 0, use_UsedDBMS = 0,
        use_ReservedQueries = 1, use_ReservedRows = 20, use_ReservedDBMS = 100\<rparr>, bud_UpdatedAt := 8000\<rparr>],
      st_queries := [reserved_record (run_request\<lparr>rq_CatalogVersion := ''c''\<rparr>) 20 100 (budget_of_grant run_grant) 8000],
      st_events := events, st_head := head\<rparr>"

lemma run_reserved:
  obtains s s' r where "control_run run_control s" "ReserveBudget run_control sample_call run_request s = (Inr r, s')" "counted 4 s'"
    "br_AllowedRows r = 20" "br_AllowedDBMS r = 100" "\<exists>events head. s' = run_store events head"
proof -
  obtain s events head where run: "control_run run_control s" "counted 3 s" and s: "s = empty_store\<lparr>st_principals := [run_principal],
    st_tasks := [run_task TaskActive []], st_grants := [run_grant], st_budgets := [budget_of_grant run_grant], st_events := events, st_head := head\<rparr>"
    by (rule run_granted) auto
  let ?q = "run_request\<lparr>rq_CatalogVersion := ''c''\<rparr>"
  let ?bs = "[(budget_of_grant run_grant)\<lparr>bud_Usage := \<lparr>use_UsedQueries = 0, use_UsedRows = 0, use_UsedDBMS = 0,
        use_ReservedQueries = 1, use_ReservedRows = 20, use_ReservedDBMS = 100\<rparr>, bud_UpdatedAt := 8000\<rparr>]"
  let ?qs = "[reserved_record ?q 20 100 (budget_of_grant run_grant) 8000]"
  let ?s = "s\<lparr>st_budgets := ?bs, st_queries := ?qs\<rparr>"
  obtain e s' events' head' where app: "appendAuditTx run_control sample_call (reserved_event ?q 20 100 8000) ?s = Inr (e, s')"
    and s': "counted 4 s'" "s' = ?s\<lparr>st_events := events', st_head := head'\<rparr>"
    by (rule run_append [of 3 ?s "reserved_event ?q 20 100 8000"])
      (use run_words run(2) in \<open>simp_all add: audit_event_def reserved_event_def counted_def run_request_def\<close>)
  have db: "dbTime 1000 = 1000" "dbTime 5000 = 5000" "dbTime 8000 = 8000" by (simp_all add: dbTime_def Truncate_microsecond_def)
  have now: "now sample_call 0 = 5000" "now sample_call 3 = 8000" using db by (simp_all add: now_def sample_call_def)
  have row: "budget_row ''t'' s = Some (budget_of_grant run_grant)"
    using db by (simp add: budget_row_def select_row_def s empty_store_def budget_of_grant_def run_grant_def sample_exposure_grant_def scanBudget_def)
  have rest: "lim_Queries (BudgetSnapshot_Remaining (budget_of_grant run_grant)) = 5" "lim_Rows (BudgetSnapshot_Remaining (budget_of_grant run_grant)) = 50"
    "lim_DBMS (BudgetSnapshot_Remaining (budget_of_grant run_grant)) = 500" "use_ReservedQueries (bud_Usage (budget_of_grant run_grant)) = 0"
    by code_simp+
  have ledger: "reserve_ledger ''t'' 20 100 8000 (st_budgets s) = Inr ?bs"
    unfolding s empty_store_def using db by (simp add: reserve_ledger_def Let_def update_rows_def budget_of_grant_def run_grant_def sample_exposure_grant_def in_int64_def)
  have ins: "insert_query (reserved_record ?q 20 100 (budget_of_grant run_grant) 8000) (st_queries s) = Inr ?qs"
    by (simp add: insert_query_def insert_row_def s empty_store_def)
  have exposure: "reserveExposureTx run_control sample_call ''q'' ''t'' None 8000 ?s = Inr (None, ?s)"
    by (simp add: reserveExposureTx_def select_row_def s empty_store_def run_grant_def sample_exposure_grant_def run_task_def)
  have ids: "rq_QueryID run_request = ''q''" "rq_TaskID run_request = ''t''" "rq_RequestID run_request = ''r''" "rq_Exposure run_request = None"
    "rq_RequestedRows run_request = 20" "rq_RequestedDBMS run_request = 100" "rq_CatalogVersion run_request = []"
    "rq_ViewBindingDigest run_request = []"
    by (simp_all add: run_request_def)
  obtain r where r: "reserve_tx run_control sample_call ?q (budget_of_grant run_grant) 8000 s = Inr (r, s')" "br_AllowedRows r = 20" "br_AllowedDBMS r = 100"
    using ledger ins exposure app by (auto simp: reserve_tx_def Let_def allowed_amount_def rest ids)
  have view: "check_view_binding ?q s = None"
    by (simp add: check_view_binding_def ids select_row_def s empty_store_def run_grant_def sample_exposure_grant_def Let_def)
  have "reserve_checked run_control sample_call ?q s = (Inr r, s')"
    using view row r(1) by (simp add: reserve_checked_def rest ids now)
  moreover have "\<not> reserve_evidence_missing run_request" "\<not> reserve_negative run_request"
    using run_words by (simp_all add: reserve_evidence_missing_def reserve_negative_def run_request_def validSHA256Hex_def)
  moreover have "select_row tk_ID ''t'' (st_tasks s) = Some (run_task TaskActive [])" "st_queries s = []" "\<not> st_closed s"
    by (simp_all add: s empty_store_def select_row_def run_task_def)
  ultimately have "ReserveBudget run_control sample_call run_request s = (Inr r, s')"
    by (simp add: ReserveBudget_def checkOpen_def ids request_row_def select_row_def [of _ _ "[]"] catalog_filled_def run_task_def)
  then show thesis using run(1) s' s r(2,3) by (intro that [of s r s']) (auto simp: run_store_def)
qed

lemma run_recovered:
  obtains s report s' where "control_run run_control s" "recover run_control sample_call None s = (Inr report, s')"
    "map qr_Status (st_queries s) = [QueryReserved]" "map qr_ReservedRows (st_queries s) = [20]"
proof -
  obtain s0 s r events head where run: "control_run run_control s0" "ReserveBudget run_control sample_call run_request s0 = (Inr r, s)" "counted 4 s"
    and s: "s = run_store events head"
    by (rule run_reserved) auto
  define x where "x = reserved_record (run_request\<lparr>rq_CatalogVersion := ''c''\<rparr>) 20 100 (budget_of_grant run_grant) 8000"
  have x: "qr_ID x = ''q''" "qr_TaskID x = ''t''" "qr_Actor x = ''s''" "qr_Status x = QueryReserved" "qr_ReservedRows x = 20" "qr_ReservedDBMS x = 100"
    by (simp_all add: x_def reserved_record_def run_request_def)
  have tables: "st_queries s = [x]" "st_reservations s = []" "st_callbacks s = []" "\<not> st_closed s" "st_tasks s = [run_task TaskActive []]"
    by (simp_all add: s run_store_def empty_store_def x_def)
  obtain budget where row: "budget_row ''t'' s = Some budget" and budget: "bud_Usage budget = \<lparr>use_UsedQueries = 0, use_UsedRows = 0, use_UsedDBMS = 0,
        use_ReservedQueries = 1, use_ReservedRows = 20, use_ReservedDBMS = 100\<rparr>" "bud_Limits budget = \<lparr>lim_Queries = 5, lim_Rows = 50, lim_DBMS = 500\<rparr>"
    by (simp add: budget_row_def select_row_def s run_store_def empty_store_def budget_of_grant_def run_grant_def sample_exposure_grant_def scanBudget_def)
  define after where "after = after_settle budget x (full_charge x) 5000"
  have after: "\<not> ledger_inconsistent budget x" "\<not> over_limits after" "\<not> budgetSettlementReachesHardLimit QueryIndeterminate after"
    by (simp_all add: after_def after_settle_def full_charge_def x budget ledger_inconsistent_def over_limits_def budgetSettlementReachesHardLimit_def charging_status_def i64_def)
  let ?s = "s\<lparr>st_budgets := write_budget after 5000 ''t'' (st_budgets s), st_queries := write_record ''q'' (recovered_record x after 5000) (st_queries s)\<rparr>"
  obtain e s' events' head' where app: "appendAuditTx run_control sample_call (recovered_event x 5000) ?s = Inr (e, s')"
    and s': "s' = ?s\<lparr>st_events := events', st_head := head'\<rparr>"
    by (rule run_append [of 4 ?s "recovered_event x 5000"])
      (use run_words run(3) in \<open>simp_all add: audit_event_def recovered_event_def counted_def x\<close>)
  have now: "now sample_call 0 = 5000" by (simp add: now_def sample_call_def dbTime_def Truncate_microsecond_def)
  have "releaseAnyExposureReservationTx run_control sample_call 5000 ''q'' s = Inr s"
    by (simp add: releaseAnyExposureReservationTx_def releaseExposureReservationTx_def tables select_row_def run_control_def sample_control_def no_ordinal_def)
  then have query: "recover_query run_control sample_call 5000 None x s = Inr s'"
    using app after row by (simp add: recover_query_def x after_def [symmetric] tables recover_receipt_def Let_def)
  have rows: "st_tasks s' = [run_task TaskActive []]" "st_callbacks s' = []" by (simp_all add: s' tables)
  have "interrupted_queries run_control s = [x]" by (simp add: interrupted_queries_def tables x order_by_def)
  moreover have "expiring_tasks run_control 5000 s' = []" by (simp add: expiring_tasks_def rows run_task_def order_by_def)
  moreover have "recover_callbacks run_control sample_call 5000 s' = Inr (0, s')" by (simp add: recover_callbacks_def rows update_rows_def)
  ultimately obtain report where "recover_tx run_control sample_call 5000 None s = Inr (report, s')"
    using query by (simp add: recover_tx_def)
  then have "recover run_control sample_call None s = (Inr report, s')"
    by (simp add: recover_def checkOpen_def tables now)
  moreover have "control_step run_control s0 s" using control_step.reserve [of run_control s0 sample_call run_request] run(2) by simp
  then have "control_run run_control s" using run(1) control_run_trans by blast
  ultimately show thesis using that tables x by simp
qed

text \<open>A task that awaits approval is rejected.\<close>

lemma run_decided:
  obtains s claim s' where "control_run run_control s" "ApplyApprovalCallback run_control sample_call run_decision s = (Inr claim, s')"
    "\<not> st_closed s'" "cc_Response claim = [2]"
proof -
  obtain s events head where run: "(control_step run_control)\<^sup>*\<^sup>* empty_store s" "counted 2 s"
    and s: "s = empty_store\<lparr>st_principals := [run_principal], st_tasks := [run_task TaskAwaitingApproval []], st_events := events, st_head := head\<rparr>"
    by (rule run_start [of TaskAwaitingApproval "[]"]) (auto simp: validTaskState_def)
  let ?h = "callbackPayloadHash run_control [1]"
  let ?event = "audit_event ''t'' [] ''s'' ''APPROVAL_CALLBACK_APPLIED'' (approvalCallbackAuditPayload run_decision TaskAwaitingApproval) 5000"
  define s1 where "s1 = s\<lparr>st_callbacks := [claimed_row ''x'' ?h 5000]\<rparr>"
  define s2 where "s2 = s1\<lparr>st_approvals := [(ac_Event run_decision)\<lparr>ap_EventID := ''x''\<rparr>],
    st_tasks := decided_tasks run_decision 5000 [run_task TaskAwaitingApproval []]\<rparr>"
  obtain e s3 events' head' where app: "appendAuditTx run_control sample_call ?event s2 = Inr (e, s3)"
    and s3: "s3 = s2\<lparr>st_events := events', st_head := head'\<rparr>"
    by (rule run_append [of 2 s2 ?event]) (use run_words run(2) in \<open>simp_all add: audit_event_def counted_def s2_def s1_def\<close>)
  have db: "dbTime 1000 = 1000" by (simp add: dbTime_def Truncate_microsecond_def)
  have now: "now sample_call 0 = 5000" by (simp add: now_def sample_call_def dbTime_def Truncate_microsecond_def)
  have claim: "claimCallbackTx ''x'' ?h 5000 s = Inr ((callback_claim ''x'' CallbackProcessing)\<lparr>cc_Claimed := True\<rparr>, s1)"
    by (simp add: claimCallbackTx_def select_row_def s empty_store_def s1_def)
  obtain s4 where s4: "completeCallbackTx ''x'' [2] 5000 s3 = Inr s4" "st_closed s4 = st_closed s3"
    by (simp add: completeCallbackTx_def s3 s2_def s1_def claimed_row_def)
  have "apply_decision run_control sample_call run_decision ''{}'' s1 = Inr s4"
    using app s4(1) db
    by (simp add: apply_decision_def run_decision_def now s1_def s2_def s empty_store_def select_row_def run_task_def allowedTransition_def
      run_control_def sample_control_def approval_event_def insert_row_def apply_grant_def)
  then obtain claim where "ApplyApprovalCallback run_control sample_call run_decision s = (Inr claim, s4)" "cc_Response claim = [2]"
    using claim by (simp add: ApplyApprovalCallback_def checkOpen_def now check_approval_def approval_fields_empty_def run_decision_def
      normalizeJSON_def run_control_def sample_control_def callback_claim_def s empty_store_def)
  moreover have "control_run run_control s" unfolding control_run_def using run(1) initial_empty by blast
  moreover have "\<not> st_closed s4" using s4(2) by (simp add: s3 s2_def s1_def s empty_store_def)
  ultimately show thesis by (intro that)
qed

section \<open>Properties\<close>

text \<open>
  C1: the budget ledger of every task is exact and never overdrawn. On every store that calls of
  the package can produce from an empty database, in any order and with any errors, restarts and
  clocks in between, the row of a task belongs to a grant and has its limits, the used and reserved
  amounts are the sums over the query records of the task, used and reserved together stay within
  the limits in each of the three dimensions, and at most one query of the task is in flight.
\<close>

theorem budget_ledger_exact:
  assumes "control_run E s" and "b \<in> set (st_budgets s)"
  shows "(\<exists>g\<in>set (st_grants s). tg_TaskID g = bud_TaskID b \<and> tg_Budget g = bud_Limits b) \<and>
    bud_Usage b = usage_of (bud_TaskID b) (st_queries s) \<and>
    0 \<le> use_UsedQueries (bud_Usage b) \<and> 0 \<le> use_UsedRows (bud_Usage b) \<and> 0 \<le> use_UsedDBMS (bud_Usage b) \<and>
    use_UsedQueries (bud_Usage b) + use_ReservedQueries (bud_Usage b) \<le> lim_Queries (bud_Limits b) \<and>
    use_UsedRows (bud_Usage b) + use_ReservedRows (bud_Usage b) \<le> lim_Rows (bud_Limits b) \<and>
    use_UsedDBMS (bud_Usage b) + use_ReservedDBMS (bud_Usage b) \<le> lim_DBMS (bud_Limits b) \<and>
    length (filter (\<lambda>r. qr_TaskID r = bud_TaskID b \<and> qr_Status r = QueryReserved) (st_queries s)) \<le> 1"
proof -
  have ok: "store_ok s" using assms(1) by (rule control_run_ok)
  then have bok: "budgets_ok (st_budgets s) (st_queries s)" by (simp add: store_ok_def)
  have b: "bud_Usage b = usage_of (bud_TaskID b) (st_queries s)" "within_limits b" using bok assms(2) by (simp_all add: budgets_ok_def)
  have "int (length (filter (\<lambda>r. qr_TaskID r = t \<and> qr_Status r = QueryReserved) rows)) = task_sum (held (\<lambda>r. 1)) t rows" for t rows
    by (induction rows) (auto simp: held_def)
  then have "int (length (filter (\<lambda>r. qr_TaskID r = bud_TaskID b \<and> qr_Status r = QueryReserved) (st_queries s))) = use_ReservedQueries (bud_Usage b)"
    by (simp add: b(1) usage_of_def)
  moreover have "\<exists>g\<in>set (st_grants s). tg_TaskID g = bud_TaskID b \<and> tg_Budget g = bud_Limits b"
    using ok assms(2) by (simp add: store_ok_def grants_ok_def)
  ultimately show ?thesis using b(2) usage_nonneg [OF bok assms(2)] by (simp add: within_limits_def b(1) [symmetric])
qed

theorem budget_ledger_exact_witness:
  "\<exists>s b. control_run run_control s \<and> b \<in> set (st_budgets s) \<and> use_ReservedRows (bud_Usage b) = 20 \<and>
     use_UsedRows (bud_Usage b) + use_ReservedRows (bud_Usage b) \<le> lim_Rows (bud_Limits b)"
proof (rule run_reserved)
  fix s s' r
  assume run: "control_run run_control s" "ReserveBudget run_control sample_call run_request s = (Inr r, s')"
    and s': "\<exists>events head. s' = run_store events head"
  have "control_step run_control s s'" using control_step.reserve [of run_control s sample_call run_request] run(2) by simp
  then have run': "control_run run_control s'" using run(1) control_run_trans by blast
  obtain b where b: "st_budgets s' = [b]" "use_ReservedRows (bud_Usage b) = 20" using s' by (auto simp: run_store_def)
  then have "b \<in> set (st_budgets s')" by simp
  with budget_ledger_exact [OF run' this] b run' show ?thesis by blast
qed

text \<open>
  C2: a reservation request is idempotent. Once a request has been answered with a reservation,
  the same request on any later store, whatever has happened to the query, the task or the gateway
  in between, is answered with the same query and the same allowance as a replay, and changes
  nothing: no second query is started for a request id.
\<close>

theorem request_idempotent:
  assumes "control_run E s" and "ReserveBudget E c q s = (Inr r, s1)" and "(control_step E)\<^sup>*\<^sup>* s1 s2" and "\<not> st_closed s2"
  shows "\<exists>r'. ReserveBudget E c' q s2 = (Inr r', s2) \<and> br_Replay r' \<and> br_QueryID r' = br_QueryID r \<and>
    br_AllowedRows r' = br_AllowedRows r \<and> br_AllowedDBMS r' = br_AllowedDBMS r"
proof -
  have "control_step E s s1" using control_step.reserve [of E s c q] assms(2) by simp
  then have run1: "control_run E s1" using assms(1) control_run_trans by blast
  have le: "store_le s1 s2" using control_run_le [OF run1 assms(3)] by blast
  have ok: "store_ok s2" using run1 assms(3) control_run_trans control_run_ok by blast
  obtain t x where guards: "\<not> reserve_evidence_missing q" "\<not> reserve_negative q" and t: "t \<in> set (st_tasks s1)" "tk_ID t = rq_TaskID q"
    and x: "x \<in> set (st_queries s1)" "answers q x" "qr_ID x = br_QueryID r" "qr_ReservedRows x = br_AllowedRows r" "qr_ReservedDBMS x = br_AllowedDBMS r"
    using ReserveBudget_answer [OF assms(2)] by auto
  obtain t' where t': "t' \<in> set (st_tasks s2)" "tk_ID t' = rq_TaskID q" using le t by (fastforce simp: store_le_def tasks_le_def)
  have "\<exists>x'\<in>set (st_queries s2). same_request x x'" using le x(1) by (auto simp only: store_le_def queries_le_def)
  then obtain x' where x': "x' \<in> set (st_queries s2)" "same_request x x'" by blast
  then have "answers q x'" using x(2) by (simp add: answers_def same_request_def)
  from answered_replays [OF ok assms(4) guards t' x'(1) this, of E c']
  show ?thesis using x' x(3-5) by (simp add: replay_reservation_def same_request_def)
qed

theorem request_idempotent_witness:
  "\<exists>s r'. ReserveBudget run_control sample_call run_request s = (Inr r', s) \<and> br_Replay r' \<and>
     br_AllowedRows r' = 20 \<and> br_AllowedDBMS r' = 100"
proof (rule run_reserved)
  fix s s' r
  assume run: "control_run run_control s" "ReserveBudget run_control sample_call run_request s = (Inr r, s')" and "counted 4 s'"
    and r: "br_AllowedRows r = 20" "br_AllowedDBMS r = 100" and s': "\<exists>events head. s' = run_store events head"
  have "\<not> st_closed s'" using s' by (auto simp: run_store_def empty_store_def)
  from request_idempotent [OF run rtranclp.rtrancl_refl this, of sample_call] obtain r' where
    "ReserveBudget run_control sample_call run_request s' = (Inr r', s')" "br_Replay r'" "br_AllowedRows r' = 20" "br_AllowedDBMS r' = 100"
    unfolding r by blast
  then show ?thesis by blast
qed

text \<open>
  C3: a decision of the approval system is applied once. When ApplyApprovalCallback has applied
  a callback, delivering it again to any later store returns the response of the first delivery
  as a replay and changes nothing, and another payload under the same event id is refused without
  any change.
\<close>

theorem approval_applied_once:
  assumes "control_run E s" and "\<forall>g. ac_Grant cb = Some g \<longrightarrow> valid_limits (tg_Budget g)"
    and "ApplyApprovalCallback E c cb s = (Inr claim, s1)" and "(control_step E)\<^sup>*\<^sup>* s1 s2" and "\<not> st_closed s2"
  shows "(\<exists>claim'. ApplyApprovalCallback E c' cb s2 = (Inr claim', s2) \<and> cc_Replay claim' \<and> cc_Response claim' = cc_Response claim) \<and>
    (\<forall>cb'. ac_EventID cb' = ac_EventID cb \<and> callbackPayloadHash E (ac_RawPayload cb') \<noteq> callbackPayloadHash E (ac_RawPayload cb) \<longrightarrow>
       (\<exists>err. ApplyApprovalCallback E c' cb' s2 = (Inl err, s2)))"
proof -
  have "control_step E s s1" using control_step.apply_approval [OF assms(2), of E s c] assms(3) by simp
  then have run1: "control_run E s1" using assms(1) control_run_trans by blast
  have ok: "store_ok s2" using run1 assms(4) control_run_trans control_run_ok by blast
  have "callbacks_le (st_callbacks s1) (st_callbacks s2)" using control_run_le [OF run1 assms(4)] by (simp add: store_le_def)
  moreover obtain payload r where pre: "check_approval cb = None" "normalizeJSON E (ap_Payload (ac_Event cb)) ''{}'' = Some payload"
    and r: "r \<in> set (st_callbacks s1)" "cb_EventID r = ac_EventID cb" "cb_PayloadSHA256 r = callbackPayloadHash E (ac_RawPayload cb)"
      "cb_Status r = CallbackCompleted" "cb_Response r = cc_Response claim"
    using applied_row [OF control_run_ok [OF assms(1)] assms(3)] by auto
  ultimately have r2: "r \<in> set (st_callbacks s2)" by (simp add: callbacks_le_def)
  have "\<exists>err. ApplyApprovalCallback E c' cb' s2 = (Inl err, s2)"
    if "ac_EventID cb' = ac_EventID cb" "callbackPayloadHash E (ac_RawPayload cb') \<noteq> callbackPayloadHash E (ac_RawPayload cb)" for cb'
  proof (cases "check_approval cb' = None \<and> (\<exists>p. normalizeJSON E (ap_Payload (ac_Event cb')) ''{}'' = Some p)")
    case True
    then obtain p where "check_approval cb' = None" "normalizeJSON E (ap_Payload (ac_Event cb')) ''{}'' = Some p" by blast
    from completed_answers [OF ok assms(5) r2 _ r(4) this, of c'] show ?thesis using r(2,3) that by simp
  next
    case False
    with assms(5) show ?thesis by (auto simp: ApplyApprovalCallback_def checkOpen_def split: option.split)
  qed
  moreover have "ApplyApprovalCallback E c' cb s2 =
      (Inr ((callback_claim (ac_EventID cb) CallbackCompleted)\<lparr>cc_Replay := True, cc_Response := cb_Response r\<rparr>), s2)"
    using completed_answers [OF ok assms(5) r2 r(2,4) pre, of c'] r(3) by simp
  ultimately show ?thesis using r(5) by simp
qed

theorem approval_applied_once_witness:
  "\<exists>s claim. ApplyApprovalCallback run_control sample_call run_decision s = (Inr claim, s) \<and> cc_Replay claim \<and> cc_Response claim = [2]"
proof (rule run_decided)
  fix s claim s'
  assume run: "control_run run_control s" "ApplyApprovalCallback run_control sample_call run_decision s = (Inr claim, s')"
    and s': "\<not> st_closed s'" and claim: "cc_Response claim = [2]"
  have "\<forall>g. ac_Grant run_decision = Some g \<longrightarrow> valid_limits (tg_Budget g)" by (simp add: run_decision_def)
  from approval_applied_once [OF run(1) this run(2) rtranclp.rtrancl_refl s', of sample_call] obtain claim' where
    "ApplyApprovalCallback run_control sample_call run_decision s' = (Inr claim', s')" "cc_Replay claim'" "cc_Response claim' = [2]"
    unfolding claim by blast
  then show ?thesis by blast
qed

text \<open>
  C4: an archived task is final. On every later store it is the same row, and a new request for it
  is refused without any change: no operation, restart or recovery brings it back.
\<close>

theorem archived_is_final:
  assumes "control_run E s" and "t \<in> set (st_tasks s)" and "tk_State t = TaskArchived" and "(control_step E)\<^sup>*\<^sup>* s s'"
    and "rq_TaskID q = tk_ID t" and "request_row (tk_ID t) (rq_RequestID q) s' = None"
  shows "t \<in> set (st_tasks s') \<and> (\<exists>err. ReserveBudget E c q s' = (Inl err, s'))"
proof -
  have "store_le s s'" using control_run_le [OF assms(1,4)] by blast
  then have t: "t \<in> set (st_tasks s')" using assms(2,3) by (force simp: store_le_def tasks_le_def)
  have ok: "store_ok s'" using assms(1,4) control_run_trans control_run_ok by blast
  then have row: "select_row tk_ID (tk_ID t) (st_tasks s') = Some t" using t by (intro select_row_unique) (simp_all add: store_ok_def)
  have "\<exists>err. ReserveBudget E c q s' = (Inl err, s')"
    using row assms(3,5,6) by (simp add: ReserveBudget_def checkOpen_def)
  with t show ?thesis by blast
qed

theorem archived_is_final_witness:
  "\<exists>s t err. t \<in> set (st_tasks s) \<and> tk_State t = TaskArchived \<and> ReserveBudget run_control sample_call run_request s = (Inl err, s)"
proof (rule run_start [of TaskArchived TerminalRevoked])
  fix s assume "(control_step run_control)\<^sup>*\<^sup>* empty_store s" and s: "\<exists>events head. s = empty_store\<lparr>st_principals := [run_principal],
    st_tasks := [run_task TaskArchived TerminalRevoked], st_events := events, st_head := head\<rparr>"
  then have run: "control_run run_control s" unfolding control_run_def using initial_empty by blast
  have t: "run_task TaskArchived TerminalRevoked \<in> set (st_tasks s)" "tk_State (run_task TaskArchived TerminalRevoked) = TaskArchived"
    "rq_TaskID run_request = tk_ID (run_task TaskArchived TerminalRevoked)"
    using s by (auto simp: run_task_def run_request_def)
  have "request_row (tk_ID (run_task TaskArchived TerminalRevoked)) (rq_RequestID run_request) s = None"
    using s by (auto simp: request_row_def select_row_def empty_store_def)
  from archived_is_final [OF run t(1,2) rtranclp.rtrancl_refl t(3) this, of sample_call] t show ?thesis by blast
qed (simp_all add: validTaskState_def)



text \<open>
  C6: a recovery leaves nothing in flight. When recover returns a report on a reachable store, every
  query that was in flight is indeterminate and charged its whole reservation, no query is reserved
  any more, all reserved counters of the ledger are zero, and a second recovery finds no interrupted
  query.
\<close>

theorem recovery_settles_all:
  assumes "control_run E s" and "recover E c builder s = (Inr report, s')"
  shows "(\<forall>r\<in>set (st_queries s). qr_Status r = QueryReserved \<longrightarrow> (\<exists>r'\<in>set (st_queries s'). same_request r r' \<and> fully_charged r')) \<and>
    (\<forall>r\<in>set (st_queries s'). qr_Status r \<noteq> QueryReserved) \<and> interrupted_queries E s' = [] \<and>
    (\<forall>b\<in>set (st_budgets s'). use_ReservedQueries (bud_Usage b) = 0 \<and> use_ReservedRows (bud_Usage b) = 0 \<and> use_ReservedDBMS (bud_Usage b) = 0)"
proof -
  have ok: "store_ok s" using assms(1) by (rule control_run_ok)
  then have ids: "distinct (map qr_ID (st_queries s))" by (simp add: store_ok_def budgets_ok_def)
  have tx: "recover_tx E c (now c 0) builder s = Inr (report, s')"
    using assms(2) by (auto simp: recover_def split: option.splits sum.splits prod.splits)
  have ok': "store_ok s'" and none: "filter (\<lambda>x. qr_Status x = QueryReserved) (st_queries s') = []"
    using recover_tx_step [OF tx ids] ok by (simp_all add: store_step_def)
  have idle: "\<forall>r\<in>set (st_queries s'). qr_Status r \<noteq> QueryReserved" using none by (simp only: filter_empty_conv)
  then have "task_sum (held f) t (st_queries s') = 0" for f t
  proof -
    have "(\<forall>r\<in>set rows. qr_Status r \<noteq> QueryReserved) \<Longrightarrow> task_sum (held f) t rows = 0" for rows
      by (induction rows) (simp_all add: held_def)
    with idle show ?thesis by blast
  qed
  moreover have "bud_Usage b = usage_of (bud_TaskID b) (st_queries s')" if "b \<in> set (st_budgets s')" for b
    using ok' that by (simp add: store_ok_def budgets_ok_def)
  ultimately have "\<forall>b\<in>set (st_budgets s'). use_ReservedQueries (bud_Usage b) = 0 \<and> use_ReservedRows (bud_Usage b) = 0 \<and> use_ReservedDBMS (bud_Usage b) = 0"
    by (simp add: usage_of_def)
  moreover have "interrupted_queries E s' = []" by (simp add: interrupted_queries_def none order_by_def)
  ultimately show ?thesis using idle recover_tx_charges [OF tx ok] by (intro conjI ballI impI) simp_all
qed

theorem recovery_settles_all_witness:
  "\<exists>s report s' r r'. recover run_control sample_call None s = (Inr report, s') \<and> r \<in> set (st_queries s) \<and> qr_Status r = QueryReserved \<and> qr_ReservedRows r = 20 \<and> r' \<in> set (st_queries s') \<and>
     fully_charged r' \<and> qr_ChargedRows r' = 20"
proof (rule run_recovered)
  fix s report s'
  assume run: "control_run run_control s" "recover run_control sample_call None s = (Inr report, s')"
    and qs: "map qr_Status (st_queries s) = [QueryReserved]" "map qr_ReservedRows (st_queries s) = [20]"
  obtain r where r: "st_queries s = [r]" "qr_Status r = QueryReserved" "qr_ReservedRows r = 20" using qs by auto
  then obtain r' where r': "r' \<in> set (st_queries s')" "same_request r r'" "fully_charged r'"
    using recovery_settles_all [OF run] by auto
  then have "qr_ChargedRows r' = 20" using r(3) by (simp add: fully_charged_def same_request_def)
  with r r' run(2) show ?thesis by (intro exI [of _ s] exI [of _ report] exI [of _ s'] exI [of _ r] exI [of _ r']) simp
qed





end
