(* ===== verification/Spec2Isabelle.thy ===== *)
theory Spec2Isabelle
  imports Domain_Grant Ordinal_Portable Ordinal_Weighted Exposure_Groups Semantic_Cache Control_Listing Control_System
begin

text \<open>
  A verification library of the agent task gateway (\<^verbatim>\<open>src/internal\<close>), which lets an agent query a
  database on behalf of a person under a signed authorization with a resource budget and a budget
  of disclosed facts.

  \<^bold>\<open>The program and its parts.\<close> An approval turns a manifest into a grant (package \<open>domain\<close>); a
  grant may be narrowed and delegated. The control store (package \<open>control\<close>) keeps principals,
  tasks, grants, budgets, query records, exposure ledgers, receipts and audit events in PostgreSQL.
  A query reserves rows, database time and exposure before it runs; after it has run, the store
  settles the budget, charges the facts the family of tasks had not seen before, appends audit events
  and persists a receipt, all in one transaction. The identity of facts, their normalization and
  their digests are in package \<open>exposure\<close>, the compressed sets of fact addresses in package
  \<open>ordinal\<close>, the hash chain of audit events in package \<open>auditchain\<close>, the digest that binds a
  task to the semantics of its views in package \<open>viewbinding\<close>, and the key under which a committed
  result may be replayed in package \<open>semanticcache\<close>.

  \<^bold>\<open>Theories and sources.\<close>
  \<^item> \<open>Prelude\<close>, \<open>Go_JSON\<close>, \<open>Go_Time\<close>: what the sources use of Go and of its library: byte strings,
    \<open>int64\<close> with wrap-around (\<open>i64\<close>), \<open>TrimSpace\<close>, hexadecimal, framing (\<open>ordinal/bitmap.go\<close>),
    \<open>encoding/json\<close>, \<open>strconv\<close>, and \<open>time\<close>; the named theorem collections; the locale
    \<open>attenuation\<close> of checks that only ever shrink authority.
  \<^item> \<open>Domain_Task\<close> (\<open>domain/task.go\<close>, \<open>domain/sensitivity.go\<close>), \<open>Domain_Budget\<close>
    (\<open>domain/budget.go\<close>), \<open>Domain_Scope\<close>, \<open>Domain_Authorization\<close> (\<open>domain/authorization.go\<close>),
    \<open>Domain_Grant\<close> (\<open>domain/grant.go\<close>): pure validation, transition and narrowing functions.
    Lemmas: the task state machine and its invariant; narrowing of scopes against the rows they
    admit; delegation chains, through interpretations of \<open>attenuation\<close>.
  \<^item> \<open>Ordinal_Roaring\<close>: the third-party bitmap library as the locale \<open>roaring\<close>, interpreted by an
    executable instance. \<open>Ordinal_Bitmap\<close>, \<open>Ordinal_Portable\<close> (\<open>ordinal/bitmap.go\<close>) and
    \<open>Ordinal_Weighted\<close> (\<open>ordinal/weighted.go\<close>): sets and multisets of fact addresses, builders,
    portable encodings and digests. Lemmas: refinement of sets and multisets, round trips,
    uniqueness of accepted encodings, digests that commit.
  \<^item> \<open>Exposure_Fact\<close>, \<open>Exposure_Observation\<close> (\<open>exposure/fact.go\<close>, \<open>observation_digest.go\<close>,
    \<open>outcome_v3.go\<close>): facts, fact sets, observations. Lemmas: hashes and digests that commit,
    canonical normal forms, merging, outcome attachment.
  \<^item> \<open>Exposure_Value\<close> (\<open>exposure/fact.go\<close>): the canonical encoding of SQL values, its check at the trust
    boundary, and the binary form of \<open>jsonb\<close> with its decoder. Lemmas: encodings pass the check, the
    binary form is canonical, the decoder terminates.
  \<^item> \<open>Exposure_Algebra\<close> (\<open>exposure/algebra_v2.go\<close>): relations whose rows and cells carry the facts they
    were computed from, with the invariant \<open>ValidateRelationV2\<close>, the operators and \<open>ObserveV2\<close>.
    \<open>Exposure_Provenance\<close> has queries over these operators, the locale \<open>slicing_operator\<close> of
    operators that commute with dropping rows, and the theorem that a query gives the same result
    on the part of the database that its observation charges; \<open>Exposure_Groups\<close> shows
    that an accepted aggregation is complete.
  \<^item> \<open>Audit_Chain\<close> (\<open>auditchain/auditchain.go\<close>): hashing, linear verification, inclusion proofs.
    Lemmas: tamper evidence, soundness and completeness of proofs.
  \<^item> \<open>View_Binding\<close> (\<open>viewbinding/binding.go\<close>) and \<open>Semantic_Cache\<close> (\<open>semanticcache/key.go\<close>): the digests that
    bind a task to its views and a committed result to its query. Lemmas: both commit to every field.
  \<^item> The control store. \<open>Control_Types\<close> (\<open>control/types.go\<close>, \<open>errors.go\<close>, \<open>store.go\<close>): the tables as
    lists of records in one record \<open>Store\<close>, errors as values. \<open>Control_Audit\<close> (\<open>audit.go\<close>),
    \<open>Control_Exposure\<close> (\<open>exposure.go\<close> and the dispatch of \<open>ordinal_exposure.go\<close>),
    \<open>Control_Receipt\<close> (\<open>receipt.go\<close>), \<open>Control_Budget\<close> (\<open>budget.go\<close>), \<open>Control_Recovery\<close>
    (\<open>recovery.go\<close>), \<open>Control_Entities\<close> (\<open>entities.go\<close>, \<open>view_binding.go\<close>), \<open>Control_Callback\<close>
    (\<open>callback.go\<close>), \<open>Control_Listing\<close> (the listings of \<open>budget.go\<close>): one definition per
    operation, with every refusal. A transaction maps a store to an error or to a result with the
    new store; an exported operation returns its result with the store that is left, which is the
    old one when the transaction rolls back. \<open>Control_Steps\<close> has, for each operation, that it keeps
    the invariant \<open>store_ok\<close>, takes nothing back (\<open>store_le\<close>) and changes the audit tables by
    appends only (\<open>audit_steps\<close>). \<open>Control_System\<close> makes the exported operations the steps of a
    transition system, interprets the locale \<open>guarded_system\<close> on it, and has the properties that
    span the components: the budget ledger is exact on every reachable store, requests are
    idempotent, approval decisions are applied once, archived tasks stay archived, settlements stay within what was reserved,
    recovery leaves nothing in flight, evidence is permanent, and the audit chain always verifies.

  \<^bold>\<open>Parameters.\<close> Code that is not in the repository is an argument of the definitions, with what is
  assumed of it stated as a hypothesis or as a locale: SHA-256 (digest properties hold unless it
  collides on named byte strings), the roaring library (locale \<open>roaring\<close>), the JSON
  normalization of \<open>encoding/json\<close> on arbitrary text and PostgreSQL's JSONB column (\<open>payload_stable\<close>:
  a payload read back has the normal form of the one written), the collation of text columns, the
  builder of signed receipts, the check of a canonical SQL literal, the clock and the random
  source of a call; for SQL values the record \<open>value_env\<close> of floating point, times, the text syntax of
  \<open>big.Rat\<close> and the JSON decoder, and for unions \<open>reflect.DeepEqual\<close> on two dynamic values. The V4 and V5 exposure ledgers, which are in the repository but not modelled,
  are the record \<open>ordinal_backend\<close> over an abstract part of the store that they alone can change.

  \<^bold>\<open>Bounds.\<close> The decoder of \<open>jsonb\<close> is bounded by the length of its input, which is shown to be
  enough; no other definition needs fuel: loops are structural recursion, the chunked insertion of facts
  and the calendar have termination proofs. Counters are \<open>int64\<close>: sums that the code computes wrap
  in the model, sums that PostgreSQL computes fail in the model when they leave the range, and the
  invariant is what shows that neither happens. The audit chain is verified up to \<open>int64_max\<close> events,
  the range of its sequence numbers.

  \<^bold>\<open>Concurrency.\<close> Every exported operation is one PostgreSQL transaction that locks the rows of its
  task; a run of the transition system is any order of whole operations, each committed or rolled
  back, with restarts and recoveries in between. Interleavings inside a transaction are excluded by
  those locks and not modelled.

  \<^bold>\<open>Not modelled.\<close> The V4 and V5 ledgers with their dictionaries, and the encrypted results of
  the control store; the reads that join receipts with result artifacts; the algebra of the
  first profile (\<open>exposure/algebra.go\<close>), of the same shape as the second without types and witnesses; the SQL front end (\<open>sqlpolicy\<close>, \<open>queryplan\<close>, \<open>sqllowering\<close>, \<open>viewcompiler\<close>), which works
  on the syntax trees of a third-party parser; signatures (\<open>approval\<close>, \<open>queryreceipt\<close>, audit anchors);
  the catalog, which a third-party YAML parser reads; the HTTP and MCP servers, the database
  connector, file formats and the evaluation programs, which are I/O.
\<close>

end
